(* ===== verification/Prelude.thy ===== *)
theory Prelude
  imports Complex_Main "HOL-Library.AList"
begin

text \<open>
  Shared vocabulary of the development: Python exceptions as values, the result and state types
  every component uses, the few string methods the source calls, dictionaries with insertion
  order, and timezone-aware datetimes with the order of their ISO texts (the order SQLite sees).
\<close>

section \<open>Exceptions as values\<close>

text \<open>
  The exception classes the modelled modules raise. \<open>Exc c msg\<close> is the exception of class
  \<open>c\<close> whose text is \<open>msg\<close>.
\<close>

datatype exn_class =
    ValueError
  | TypeError
  | KeyError
  | PermissionError
  | ArithmeticError
  | OrderTransitionError
  | PaperOmsError
  | PaperBrokerValidationError
  | BrokerAdapterError
  | BrokerSyncError
  | CorporateActionError
  | EventBacktestValidationError
  | QuoteDataError
  | DataQualityError
  | StrategyLabSplitError
  | PersistenceError
  | PostgresRiskStoreError
  | AlertError
  | ShadowModeValidationError
  | AuthenticationUnavailableError
  | IntegrityError
  | HTTPException
  | SignalEngineError
  | PolicyRegistryError
  | InstrumentAlreadyExistsError
  | InstrumentNotFoundError
  | InstrumentIdentifierConflictError
  | SymbolHistoryConflictError
  | TradingCalendarError
  | ReturnHistoryError
  | PortfolioEvidenceError
  | ExecutionEvidenceError
  | ZoneInfoNotFoundError
  | ReturnProviderTransientError
  | OperationalJobError
  | AssertionError

datatype py_exc = Exc (exc_class: exn_class) (exc_text: string)

type_synonym 'a result = "py_exc + 'a"

text \<open>
  An operation on an object: the object's state goes in, and comes out whether or not the
  operation raises, because Python keeps what was assigned before an exception.
\<close>

type_synonym ('s, 'a) operation = "'s \<Rightarrow> 'a result \<times> 's"

text \<open>\<open>except ValueError\<close> also catches the subclasses the modules derive from it.\<close>

fun is_value_error :: "py_exc \<Rightarrow> bool" where
  "is_value_error (Exc c _) =
     (c \<in> {ValueError, OrderTransitionError, PaperOmsError, PaperBrokerValidationError,
           BrokerAdapterError, BrokerSyncError, CorporateActionError,
           EventBacktestValidationError, QuoteDataError, DataQualityError,
           StrategyLabSplitError, AlertError, ShadowModeValidationError, SignalEngineError,
           PolicyRegistryError, ReturnHistoryError, ReturnProviderTransientError, PortfolioEvidenceError,
           ExecutionEvidenceError, OperationalJobError,
           InstrumentAlreadyExistsError, InstrumentIdentifierConflictError, SymbolHistoryConflictError,
           TradingCalendarError})"

text \<open>\<open>except KeyError\<close>\<close>

fun is_key_error :: "py_exc \<Rightarrow> bool" where
  "is_key_error (Exc c _) = (c \<in> {KeyError, InstrumentNotFoundError, ZoneInfoNotFoundError})"

fun is_persistence_error :: "py_exc \<Rightarrow> bool" where
  "is_persistence_error (Exc c _) = (c \<in> {PersistenceError, PostgresRiskStoreError})"

text \<open>What \<open>PostgresDatabase.transaction\<close> makes of every error of the database.\<close>

abbreviation transaction_failed :: py_exc where
  "transaction_failed \<equiv> Exc PersistenceError ''postgres_transaction_failed''"

definition ok :: "'a result \<Rightarrow> bool" where
  "ok r = (case r of Inl _ \<Rightarrow> False | Inr _ \<Rightarrow> True)"

definition bind_result :: "'a result \<Rightarrow> ('a \<Rightarrow> 'b result) \<Rightarrow> 'b result" where
  "bind_result r f = (case r of Inl e \<Rightarrow> Inl e | Inr x \<Rightarrow> f x)"

text \<open>Run a list of result-valued steps from a state, stopping at the first exception.\<close>

fun fold_result :: "('a \<Rightarrow> 's \<Rightarrow> 's result) \<Rightarrow> 'a list \<Rightarrow> 's \<Rightarrow> 's result" where
  "fold_result f [] s = Inr s"
| "fold_result f (x # xs) s = (case f x s of Inl e \<Rightarrow> Inl e | Inr s' \<Rightarrow> fold_result f xs s')"

text \<open>Sequencing of methods: the second runs only if the first returned.\<close>

definition bind_method :: "('s, 'a) operation \<Rightarrow> ('a \<Rightarrow> ('s, 'b) operation) \<Rightarrow> ('s, 'b) operation" where
  "bind_method m f s = (case m s of (Inl e, s') \<Rightarrow> (Inl e, s') | (Inr x, s') \<Rightarrow> f x s')"

named_theorems effect_simps "unfolding of the result and method combinators"

lemmas [effect_simps] = ok_def bind_result_def bind_method_def

lemma ok_simps [simp]: "ok (Inr x)" "\<not> ok (Inl e)"
  by (simp_all add: ok_def)

lemma ok_iff: "ok r \<longleftrightarrow> (\<exists>x. r = Inr x)"
  by (cases r) (simp_all)

lemma bind_result_simps [simp]:
  "bind_result (Inl e) f = Inl e"
  "bind_result (Inr x) f = f x"
  by (simp_all add: bind_result_def)

lemma bind_result_Inr_iff:
  "bind_result r f = Inr y \<longleftrightarrow> (\<exists>x. r = Inr x \<and> f x = Inr y)"
  by (cases r) auto

lemma bind_method_Inr_iff:
  "bind_method m f s = (Inr y, t) \<longleftrightarrow> (\<exists>x u. m s = (Inr x, u) \<and> f x u = (Inr y, t))"
  by (auto simp: bind_method_def split: prod.splits sum.splits)

lemma fold_result_append:
  "fold_result f (xs @ ys) s = bind_result (fold_result f xs s) (fold_result f ys)"
  by (induction xs arbitrary: s) (auto split: sum.splits)

text \<open>An invariant of every successful step is an invariant of the successful run.\<close>

lemma fold_result_invariant:
  assumes "fold_result f xs s = Inr t" and "P s"
    and "\<And>x a b. x \<in> set xs \<Longrightarrow> P a \<Longrightarrow> f x a = Inr b \<Longrightarrow> P b"
  shows "P t"
  using assms
proof (induction xs arbitrary: s)
  case Nil
  then show ?case by simp
next
  case (Cons x xs)
  from Cons.prems(1) obtain s' where s': "f x s = Inr s'" "fold_result f xs s' = Inr t"
    by (auto split: sum.splits)
  have "P s'" using Cons.prems(2,3) s'(1) by (meson list.set_intros(1))
  with s'(2) show ?case
    by (rule Cons.IH) (meson Cons.prems(3) list.set_intros(2))
qed

lemma sorted_last: "sorted (map f xs) \<Longrightarrow> x \<in> set xs \<Longrightarrow> f x \<le> f (last xs)"
  by (induction xs) (auto dest: last_in_set)

lemma bind_method_fst:
  "bind_method m f s = (case fst (m s) of Inl e \<Rightarrow> (Inl e, snd (m s)) | Inr x \<Rightarrow> f x (snd (m s)))"
  by (simp add: bind_method_def split_beta)

section \<open>Strings\<close>

text \<open>
  \<open>str.strip()\<close> on text whose code points are below 256: the characters Python counts as
  white space there.
\<close>

definition is_space :: "char \<Rightarrow> bool" where
  "is_space c = ((of_char c :: nat) \<in> {9, 10, 11, 12, 13, 28, 29, 30, 31, 32, 133, 160})"

definition strip :: "string \<Rightarrow> string" where
  "strip s = rev (dropWhile is_space (rev (dropWhile is_space s)))"

text \<open>\<open>not s.strip()\<close>\<close>

definition blank :: "string \<Rightarrow> bool" where
  "blank s = (strip s = [])"

lemma blank_iff: "blank s \<longleftrightarrow> (\<forall>c \<in> set s. is_space c)"
proof
  assume "blank s"
  then have "\<forall>c \<in> set (dropWhile is_space s). is_space c"
    unfolding blank_def strip_def rev_is_Nil_conv dropWhile_eq_Nil_conv by simp
  then have "dropWhile is_space s = []"
    by (metis hd_dropWhile hd_in_set)
  then show "\<forall>c \<in> set s. is_space c" by (simp add: dropWhile_eq_Nil_conv)
next
  assume "\<forall>c \<in> set s. is_space c"
  then have "dropWhile is_space s = []" by (simp add: dropWhile_eq_Nil_conv)
  then show "blank s"
    unfolding blank_def strip_def by (metis dropWhile.simps(1) rev.simps(1))
qed

lemma blank_Nil [simp]: "blank []"
  by (simp add: blank_iff)

text \<open>\<open>s.partition(":")\<close>: the text before the first colon, whether there is one, the rest.\<close>

fun partition_colon :: "string \<Rightarrow> string \<times> bool \<times> string" where
  "partition_colon [] = ([], False, [])"
| "partition_colon (c # cs) =
     (if c = CHR '':'' then ([], True, cs)
      else case partition_colon cs of (p, f, r) \<Rightarrow> (c # p, f, r))"

lemma partition_colon_append:
  "CHR '':'' \<notin> set p \<Longrightarrow> partition_colon (p @ CHR '':'' # v) = (p, True, v)"
  by (induction p) auto

lemma partition_colon_found:
  "partition_colon s = (p, True, v) \<Longrightarrow> s = p @ CHR '':'' # v \<and> CHR '':'' \<notin> set p"
  by (induction s arbitrary: p) (auto split: if_splits prod.splits)

section \<open>Dictionaries\<close>

text \<open>
  A Python \<open>dict\<close> keeps insertion order and overwriting a key keeps its place: an association
  list with distinct keys, updated by \<^const>\<open>AList.update\<close>.
\<close>

type_synonym ('k, 'v) dict = "('k \<times> 'v) list"

abbreviation dict_get :: "('k, 'v) dict \<Rightarrow> 'k \<Rightarrow> 'v option" where
  "dict_get d k \<equiv> map_of d k"

definition dict_get_or :: "('k, 'v) dict \<Rightarrow> 'k \<Rightarrow> 'v \<Rightarrow> 'v" where
  "dict_get_or d k v = (case map_of d k of None \<Rightarrow> v | Some w \<Rightarrow> w)"

abbreviation dict_set :: "'k \<Rightarrow> 'v \<Rightarrow> ('k, 'v) dict \<Rightarrow> ('k, 'v) dict" where
  "dict_set k v d \<equiv> AList.update k v d"

abbreviation dict_del :: "'k \<Rightarrow> ('k, 'v) dict \<Rightarrow> ('k, 'v) dict" where
  "dict_del k d \<equiv> AList.delete k d"

definition dict_keys :: "('k, 'v) dict \<Rightarrow> 'k list" where
  "dict_keys d = map fst d"

definition dict_ok :: "('k, 'v) dict \<Rightarrow> bool" where
  "dict_ok d = distinct (map fst d)"

text \<open>\<open>{key(x): val(x) for x in xs}\<close>: a later item overwrites an earlier one in place.\<close>

definition dict_of :: "('a \<Rightarrow> 'k) \<Rightarrow> ('a \<Rightarrow> 'v) \<Rightarrow> 'a list \<Rightarrow> ('k, 'v) dict" where
  "dict_of key val xs = fold (\<lambda>x d. dict_set (key x) (val x) d) xs []"

named_theorems dict_simps "lookup laws of dictionaries"

lemma dict_get_set [dict_simps]:
  "dict_get (dict_set k v d) j = (if j = k then Some v else dict_get d j)"
  by (simp add: update_conv)

lemma dict_get_del [dict_simps]:
  "dict_get (dict_del k d) j = (if j = k then None else dict_get d j)"
  by (simp add: delete_conv')

lemma dict_ok_Nil [simp, intro]: "dict_ok []"
  by (simp add: dict_ok_def)

lemma dict_ok_set [simp, intro]: "dict_ok d \<Longrightarrow> dict_ok (dict_set k v d)"
  by (simp add: dict_ok_def distinct_update)

lemma dict_ok_del [simp, intro]: "dict_ok d \<Longrightarrow> dict_ok (dict_del k d)"
  by (simp add: dict_ok_def distinct_delete)

lemma dict_ok_map_of: "dict_ok d \<Longrightarrow> (k, v) \<in> set d \<longleftrightarrow> dict_get d k = Some v"
  by (simp add: dict_ok_def map_of_eq_Some_iff)

lemma dict_set_new: "k \<notin> fst ` set d \<Longrightarrow> dict_set k v d = d @ [(k, v)]"
  by (induction d) auto

lemma fold_dict_set_keys:
  "distinct (map key xs) \<Longrightarrow> set (map key xs) \<inter> fst ` set d = {} \<Longrightarrow>
   fold (\<lambda>x d. dict_set (key x) (val x) d) xs d = d @ map (\<lambda>x. (key x, val x)) xs"
proof (induction xs arbitrary: d)
  case Nil
  then show ?case by simp
next
  case (Cons x xs)
  have fresh: "dict_set (key x) (val x) d = d @ [(key x, val x)]"
    using Cons.prems(2) by (intro dict_set_new) auto
  have "fold (\<lambda>x d. dict_set (key x) (val x) d) xs (d @ [(key x, val x)])
        = (d @ [(key x, val x)]) @ map (\<lambda>x. (key x, val x)) xs"
    using Cons.prems by (intro Cons.IH) auto
  then show ?case using fresh by simp
qed

lemma dict_of_distinct:
  "distinct (map key xs) \<Longrightarrow> dict_of key val xs = map (\<lambda>x. (key x, val x)) xs"
  by (simp add: dict_of_def fold_dict_set_keys)

section \<open>Datetimes\<close>

text \<open>
  A \<open>datetime\<close> is its wall-clock reading in microseconds and, when it is timezone-aware, its
  UTC offset in microseconds. Aware values compare by instant. Comparing an aware with a naive
  value raises in Python; the modules check \<open>tzinfo\<close> before they compare, and where they do
  not, the arguments are assumed to be aware.
\<close>

datatype datetime = Aware (wall: int) (utcoffset: int) | Naive (wall: int)

type_synonym timedelta = int

fun aware :: "datetime \<Rightarrow> bool" where
  "aware (Aware _ _) = True"
| "aware (Naive _) = False"

fun instant :: "datetime \<Rightarrow> int" where
  "instant (Aware w off) = w - off"
| "instant (Naive w) = w"

text \<open>\<open>t.date()\<close>, as a day number.\<close>

definition date_of :: "datetime \<Rightarrow> int" where
  "date_of t = wall t div 86400000000"

definition seconds :: "int \<Rightarrow> timedelta" where
  "seconds n = n * 1000000"

text \<open>
  The order of \<open>isoformat()\<close> texts, which is what SQLite compares. The date and time part has a
  fixed layout, so it orders by wall clock (a text without a fraction is followed by \<open>+\<close>,
  \<open>-\<close> or nothing, all before the \<open>.\<close> of a fraction); on equal wall clocks the suffix
  decides: nothing, then \<open>+hh:mm\<close>, then \<open>-hh:mm\<close>, each by magnitude.
\<close>

fun iso_key :: "datetime \<Rightarrow> int \<times> int \<times> int" where
  "iso_key (Naive w) = (w, 0, 0)"
| "iso_key (Aware w off) = (w, (if 0 \<le> off then 1 else 2), \<bar>off\<bar>)"

definition iso_le :: "datetime \<Rightarrow> datetime \<Rightarrow> bool" where
  "iso_le a b =
     (case (iso_key a, iso_key b) of
        ((w, s, m), (w', s', m')) \<Rightarrow>
          w < w' \<or> w = w' \<and> (s < s' \<or> s = s' \<and> m \<le> m'))"

lemma iso_le_refl [simp]: "iso_le a a"
  by (cases a) (simp_all add: iso_le_def)

lemma iso_le_trans: "iso_le a b \<Longrightarrow> iso_le b c \<Longrightarrow> iso_le a c"
  by (auto simp: iso_le_def split: prod.splits)

lemma iso_le_linear: "iso_le a b \<or> iso_le b a"
  by (auto simp: iso_le_def split: prod.splits)

text \<open>With one common offset the text order is the order of instants; otherwise it is not.\<close>

lemma iso_le_same_offset:
  "iso_le (Aware w off) (Aware w' off) \<longleftrightarrow> instant (Aware w off) \<le> instant (Aware w' off)"
  by (auto simp: iso_le_def)

lemma iso_le_offset_mismatch:
  "\<exists>a b. aware a \<and> aware b \<and> iso_le a b \<and> instant b < instant a"
  by (intro exI [of _ "Aware 0 (-2)"] exI [of _ "Aware 1 0"]) (simp add: iso_le_def)

section \<open>Searching a table\<close>

lemma find_append: "find P (xs @ ys) = (case find P xs of None \<Rightarrow> find P ys | Some x \<Rightarrow> Some x)"
  by (induction xs) auto

lemma find_kept: "find P xs = Some r \<Longrightarrow> find P (xs @ ys) = Some r"
  by (simp add: find_append)

end
