(* ===== verification/PyDecimal.thy ===== *)
theory PyDecimal
  imports Prelude
begin

text \<open>
  Python's \<open>decimal.Decimal\<close> under the default context (28 significant digits, ties to even):
  a coefficient and an exponent, every arithmetic operation rounding its exact result. The
  model holds finite values; the exponent range is unbounded and the sign of zero is not kept.
  The lemmas give signs, exactness and the nearest-value property of the rounding.
\<close>

section \<open>Representation and value\<close>

datatype decimal = Dec (coef: int) (dexp: int)

definition dval :: "decimal \<Rightarrow> rat" where
  "dval d = of_int (coef d) * 10 powi dexp d"

text \<open>\<open>align e d\<close> is the coefficient of \<open>d\<close> written with the exponent \<open>e\<close>, not above its own.\<close>

definition align :: "int \<Rightarrow> decimal \<Rightarrow> int" where
  "align e d = coef d * 10 ^ nat (dexp d - e)"

lemma dval_Dec [simp]: "dval (Dec c e) = of_int c * 10 powi e"
  by (simp add: dval_def)

lemma powi10_pos [simp]: "(0 :: rat) < 10 powi e"
  by (simp add: zero_less_power_int)

lemma powi10_ge [simp]: "(0 :: rat) \<le> 10 powi e"
  by (simp add: less_imp_le)

lemma powi10_nz: "(10 :: rat) powi e \<noteq> 0"
  by simp

lemma powi10_not_le [simp]: "\<not> (10 :: rat) powi e \<le> 0" "\<not> (10 :: rat) powi e < 0"
  by (simp_all add: not_le not_less)

lemma dval_coef:
  "0 \<le> dval d \<longleftrightarrow> 0 \<le> coef d" "0 < dval d \<longleftrightarrow> 0 < coef d"
  "dval d < 0 \<longleftrightarrow> coef d < 0" "dval d = 0 \<longleftrightarrow> coef d = 0"
  by (auto simp: dval_def zero_le_mult_iff zero_less_mult_iff mult_less_0_iff)

lemma powi10_split: "e \<le> f \<Longrightarrow> (10 :: rat) powi f = 10 ^ nat (f - e) * 10 powi e"
  by (metis add.commute diff_add_cancel le_add_diff_inverse nat_0_le power_int_add
      power_int_of_nat zero_neq_numeral diff_ge_0_iff_ge)

lemma align_value: "e \<le> dexp d \<Longrightarrow> of_int (align e d) * 10 powi e = dval d"
  by (simp add: align_def dval_def powi10_split)

section \<open>Comparison\<close>

text \<open>Decimals compare by value, whatever their exponents; equality by value is \<open>deq\<close>.\<close>

definition deq :: "decimal \<Rightarrow> decimal \<Rightarrow> bool" where
  "deq a b = (let e = min (dexp a) (dexp b) in align e a = align e b)"

instantiation decimal :: preorder
begin

definition less_eq_decimal :: "decimal \<Rightarrow> decimal \<Rightarrow> bool" where
  "less_eq_decimal a b = (let e = min (dexp a) (dexp b) in align e a \<le> align e b)"

definition less_decimal :: "decimal \<Rightarrow> decimal \<Rightarrow> bool" where
  "less_decimal a b = (let e = min (dexp a) (dexp b) in align e a < align e b)"

lemma dle_iff: "a \<le> b \<longleftrightarrow> dval a \<le> dval b"
proof -
  define e where "e = min (dexp a) (dexp b)"
  have "dval a \<le> dval b \<longleftrightarrow> of_int (align e a) * (10::rat) powi e \<le> of_int (align e b) * 10 powi e"
    by (simp add: align_value e_def)
  also have "\<dots> \<longleftrightarrow> align e a \<le> align e b"
    by simp
  finally show ?thesis by (simp add: less_eq_decimal_def e_def Let_def)
qed

lemma dlt_iff: "a < b \<longleftrightarrow> dval a < dval b"
proof -
  define e where "e = min (dexp a) (dexp b)"
  have "dval a < dval b \<longleftrightarrow> of_int (align e a) * (10::rat) powi e < of_int (align e b) * 10 powi e"
    by (simp add: align_value e_def)
  also have "\<dots> \<longleftrightarrow> align e a < align e b"
    by simp
  finally show ?thesis by (simp add: less_decimal_def e_def Let_def)
qed

instance
  by standard (auto simp: dle_iff dlt_iff)

end

lemma deq_iff: "deq a b \<longleftrightarrow> dval a = dval b"
proof -
  have "deq a b \<longleftrightarrow> a \<le> b \<and> b \<le> a"
    by (simp add: deq_def less_eq_decimal_def Let_def min.commute eq_iff)
  then show ?thesis by (auto simp: dle_iff)
qed

named_theorems dec_order "the order of decimals, read as the order of their values"

lemmas [dec_order] = dle_iff dlt_iff deq_iff

lemma not_dle [simp]: "\<not> (a :: decimal) \<le> b \<longleftrightarrow> b < a"
  by (auto simp: dec_order)

lemma not_dlt [simp]: "\<not> (a :: decimal) < b \<longleftrightarrow> b \<le> a"
  by (auto simp: dec_order)

lemma dle_not_dlt [simp]: "(a :: decimal) \<le> b \<Longrightarrow> (b < a) = False"
  by (simp add: dle_iff dlt_iff)

lemma dle_dlt_clash [elim]: "(a :: decimal) \<le> b \<Longrightarrow> b < a \<Longrightarrow> P"
  by (simp add: dle_iff dlt_iff)

lemma deq_refl [simp]: "deq a a"
  by (simp add: dec_order)

lemma deq_sym: "deq a b \<longleftrightarrow> deq b a"
  by (auto simp: dec_order)

text \<open>Python's \<open>min\<close> and \<open>max\<close> keep the first of two equal arguments.\<close>

definition dmin :: "decimal \<Rightarrow> decimal \<Rightarrow> decimal" where
  "dmin a b = (if b < a then b else a)"

definition dmax :: "decimal \<Rightarrow> decimal \<Rightarrow> decimal" where
  "dmax a b = (if a < b then b else a)"

lemma dval_dmin [simp]: "dval (dmin a b) = min (dval a) (dval b)"
  by (auto simp: dmin_def dec_order)

lemma dval_dmax [simp]: "dval (dmax a b) = max (dval a) (dval b)"
  by (auto simp: dmax_def dec_order)

section \<open>Rounding\<close>

text \<open>The number of decimal digits of a coefficient, 1 for zero.\<close>

fun ndigits :: "nat \<Rightarrow> nat" where
  "ndigits n = (if n < 10 then 1 else Suc (ndigits (n div 10)))"

declare ndigits.simps [simp del]

text \<open>\<open>rhe n d\<close> is \<open>n / d\<close> rounded to the nearest integer, ties to the even one.\<close>

definition rhe :: "nat \<Rightarrow> nat \<Rightarrow> nat" where
  "rhe n d =
     (let q = n div d; r = n mod d
      in if 2 * r < d \<or> 2 * r = d \<and> even q then q else q + 1)"

definition prec :: nat where
  "prec = 28"

text \<open>
  \<open>Decimal._fix\<close>: a coefficient with more than 28 digits is rounded to 28 and the exponent
  raised; when rounding carries into a 29th digit that digit is dropped again.
\<close>

definition dfix :: "decimal \<Rightarrow> decimal" where
  "dfix d =
     (let n = nat \<bar>coef d\<bar>; k = ndigits n
      in if k \<le> prec then d
         else let s = k - prec; q = rhe n (10 ^ s)
              in if prec < ndigits q
                 then Dec (sgn (coef d) * int (q div 10)) (dexp d + int s + 1)
                 else Dec (sgn (coef d) * int q) (dexp d + int s))"

lemma ndigits_pos [simp]: "0 < ndigits n"
  by (subst ndigits.simps) simp

lemma ndigits_le_iff: "0 < k \<Longrightarrow> ndigits n \<le> k \<longleftrightarrow> n < 10 ^ k"
proof (induction n arbitrary: k rule: ndigits.induct)
  case (1 n)
  show ?case
  proof (cases "n < 10")
    case True
    have "10 ^ 1 \<le> (10::nat) ^ k" using 1(2) by (intro power_increasing) auto
    with True show ?thesis using 1(2) by (simp add: ndigits.simps [of n])
  next
    case False
    show ?thesis
    proof (cases "k = 1")
      case True
      with False show ?thesis by (simp add: ndigits.simps [of n])
    next
      case k: False
      then obtain j where j: "k = Suc j" "0 < j" using 1(2) by (cases k) auto
      have "ndigits n \<le> k \<longleftrightarrow> ndigits (n div 10) \<le> j"
        using False j by (simp add: ndigits.simps [of n])
      also have "\<dots> \<longleftrightarrow> n div 10 < 10 ^ j" using 1(1) False j(2) by blast
      also have "\<dots> \<longleftrightarrow> n < 10 ^ k" using j(1) by (simp add: div_less_iff_less_mult mult.commute)
      finally show ?thesis .
    qed
  qed
qed

lemma ndigits_gt_iff: "0 < k \<Longrightarrow> k < ndigits n \<longleftrightarrow> 10 ^ k \<le> n"
  by (meson linorder_not_le ndigits_le_iff)

text \<open>The rounded quotient is nearest: no integer is closer to \<open>n / d\<close>.\<close>

lemma rhe_error: "0 < d \<Longrightarrow> 2 * \<bar>int n - int (rhe n d) * int d\<bar> \<le> int d"
proof -
  assume d: "0 < d"
  define q r where "q = n div d" and "r = n mod d"
  have n: "n = q * d + r" and r: "r < d"
    using d by (simp_all add: q_def r_def)
  show ?thesis
  proof (cases "2 * r < d \<or> 2 * r = d \<and> even q")
    case True
    then have "rhe n d = q" by (simp add: rhe_def q_def r_def Let_def)
    with True n show ?thesis by auto
  next
    case False
    then have "rhe n d = q + 1" by (auto simp: rhe_def q_def r_def Let_def)
    with False n r show ?thesis by (auto simp: algebra_simps)
  qed
qed

lemma rhe_nearest:
  assumes "0 < d"
  shows "\<bar>int n - int (rhe n d) * int d\<bar> \<le> \<bar>int n - m * int d\<bar>"
proof (cases "m = int (rhe n d)")
  case True
  then show ?thesis by simp
next
  case False
  then have "1 \<le> \<bar>m - int (rhe n d)\<bar>" by simp
  then have "int d \<le> \<bar>m - int (rhe n d)\<bar> * int d"
    using assms by simp
  also have "\<dots> = \<bar>(m - int (rhe n d)) * int d\<bar>"
    by (simp add: abs_mult)
  also have "\<dots> = \<bar>(int n - int (rhe n d) * int d) - (int n - m * int d)\<bar>"
    by (simp add: algebra_simps)
  finally have far: "int d \<le> \<bar>(int n - int (rhe n d) * int d) - (int n - m * int d)\<bar>" .
  have "\<bar>a\<bar> \<le> \<bar>b\<bar>" if "e \<le> \<bar>a - b\<bar>" "2 * \<bar>a\<bar> \<le> e" for a b e :: int
    using that by arith
  from this [OF far rhe_error [OF assms]] show ?thesis .
qed

lemma rhe_exact [simp]: "0 < d \<Longrightarrow> rhe (m * d) d = m"
  by (simp add: rhe_def)

lemma rhe_le: "0 < d \<Longrightarrow> n \<le> m * d \<Longrightarrow> rhe n d \<le> m"
proof -
  assume d: "0 < d" and le: "n \<le> m * d"
  have "n div d \<le> m" using d le by (metis div_le_mono div_mult_self_is_m)
  moreover have "n mod d = 0" if "n div d = m"
    using that le d by (metis add_leD1 add_le_cancel_left div_mult_mod_eq le_zero_eq
        add.right_neutral)
  ultimately show "rhe n d \<le> m"
    using d by (cases "n div d = m") (simp_all add: rhe_def Let_def)
qed

lemma rhe_ge: "0 < d \<Longrightarrow> m * d \<le> n \<Longrightarrow> m \<le> rhe n d"
  by (simp add: rhe_def Let_def less_eq_div_iff_mult_less_eq)
     (metis le_Suc_eq less_eq_div_iff_mult_less_eq)

section \<open>What rounding keeps\<close>

text \<open>The values a 28-digit decimal can hold.\<close>

definition representable :: "rat \<Rightarrow> bool" where
  "representable x \<longleftrightarrow> (\<exists>m j. \<bar>m\<bar> < 10 ^ prec \<and> x = of_int m * 10 powi j)"

lemma dfix_id: "\<bar>coef d\<bar> < 10 ^ prec \<Longrightarrow> dfix d = d"
proof -
  assume "\<bar>coef d\<bar> < 10 ^ prec"
  then have "nat \<bar>coef d\<bar> < 10 ^ prec"
    by (metis abs_ge_zero nat_less_iff of_nat_numeral of_nat_power)
  then have "ndigits (nat \<bar>coef d\<bar>) \<le> prec"
    by (subst ndigits_le_iff) (simp_all add: prec_def)
  then show ?thesis by (simp add: dfix_def Let_def)
qed

text \<open>The value of a decimal whose coefficient is too long, by the quotient that was rounded.\<close>

lemma dfix_value:
  fixes d
  defines "n \<equiv> nat \<bar>coef d\<bar>"
  defines "s \<equiv> ndigits n - prec"
  assumes long: "prec < ndigits n"
  shows "dval (dfix d) = of_int (sgn (coef d) * int (rhe n (10 ^ s))) * 10 powi (dexp d + int s)"
    and "10 ^ 27 * 10 ^ s \<le> n" and "n < 10 ^ 28 * 10 ^ s"
proof -
  have nd: "ndigits n = s + 28" using long by (simp add: s_def prec_def)
  have "s + 27 < ndigits n" using nd by simp
  then have lo: "10 ^ (s + 27) \<le> n" by (subst (asm) ndigits_gt_iff) simp_all
  have "ndigits n \<le> s + 28" using nd by simp
  then have hi: "n < 10 ^ (s + 28)" by (subst (asm) ndigits_le_iff) simp_all
  show "10 ^ 27 * 10 ^ s \<le> n" and n_hi: "n < 10 ^ 28 * 10 ^ s"
    using lo hi by (simp_all only: power_add mult.commute)
  define q where "q = rhe n (10 ^ s)"
  have q_le: "q \<le> 10 ^ 28" unfolding q_def using n_hi by (intro rhe_le) auto
  have fx: "dfix d = (if 28 < ndigits q then Dec (sgn (coef d) * int (q div 10)) (dexp d + int s + 1)
                      else Dec (sgn (coef d) * int q) (dexp d + int s))"
    using long by (simp add: dfix_def Let_def q_def s_def n_def prec_def)
  show "dval (dfix d) = of_int (sgn (coef d) * int (rhe n (10 ^ s))) * 10 powi (dexp d + int s)"
  proof (cases "28 < ndigits q")
    case True
    then have "10 ^ 28 \<le> q" by (subst (asm) ndigits_gt_iff) simp_all
    with q_le have q: "q = 10 ^ 28" by simp
    have "dval (dfix d) = of_int (sgn (coef d)) * 10 ^ 27 * 10 powi (dexp d + int s + 1)"
      using True by (simp add: fx q)
    also have "\<dots> = of_int (sgn (coef d)) * 10 ^ 28 * 10 powi (dexp d + int s)"
      by (simp add: power_int_add)
    finally show ?thesis by (simp add: q_def [symmetric] q)
  next
    case False
    then show ?thesis by (simp add: fx q_def)
  qed
qed

lemma scaled_dist: "(0 :: rat) < u \<Longrightarrow> \<bar>of_int a * u - of_int b * u\<bar> = of_int \<bar>a - b\<bar> * u"
proof -
  assume "0 < u"
  moreover have "of_int a * u - of_int b * u = of_int (a - b) * u"
    by (simp add: left_diff_distrib)
  ultimately show ?thesis by (simp add: abs_mult)
qed

text \<open>Rounding moves a value to a nearest representable one.\<close>

lemma dfix_nearest:
  assumes "representable f"
  shows "\<bar>dval d - dval (dfix d)\<bar> \<le> \<bar>dval d - f\<bar>"
proof (cases "prec < ndigits (nat \<bar>coef d\<bar>)")
  case False
  then have "dfix d = d" by (simp add: dfix_def Let_def)
  then show ?thesis by simp
next
  case long: True
  define n where "n = nat \<bar>coef d\<bar>"
  define s where "s = ndigits n - prec"
  define N where "N = (10::nat) ^ s"
  define sg where "sg = sgn (coef d)"
  define u where "u = (10::rat) powi dexp d"
  note fv = dfix_value [OF long, folded n_def, folded s_def, folded N_def, folded sg_def]
  have lo: "10 ^ 27 * N \<le> n" and nz: "coef d \<noteq> 0"
    using fv(2) long by (auto simp: n_def ndigits.simps prec_def)
  have u: "0 < u" by (simp add: u_def)
  have sg: "sg = 1 \<or> sg = - 1" using nz by (auto simp: sg_def sgn_if)
  have c: "coef d = sg * int n" using nz by (auto simp: sg_def n_def sgn_if)
  have xd: "dval d = of_int (sg * int n) * u" by (simp add: dval_def c u_def)
  have rd: "dval (dfix d) = of_int (sg * (int (rhe n N) * int N)) * u"
    using fv(1) by (simp add: u_def N_def power_int_add mult.assoc)
  have dist: "\<bar>dval d - dval (dfix d)\<bar> = of_int \<bar>int n - int (rhe n N) * int N\<bar> * u"
    using sg unfolding xd rd scaled_dist [OF u] by (auto simp: abs_minus_commute)
  obtain m j where m: "\<bar>m\<bar> < 10 ^ prec" and f: "f = of_int m * 10 powi j"
    using assms by (auto simp: representable_def)
  show ?thesis
  proof (cases "dexp d + int s \<le> j")
    case True
    define M where "M = m * 10 ^ nat (j - (dexp d + int s))"
    have "f = of_int M * 10 powi (dexp d + int s)"
      using True by (simp add: f M_def powi10_split [of "dexp d + int s" j])
    then have f': "f = of_int (M * int N) * u"
      by (simp add: u_def N_def power_int_add)
    have "\<bar>int n - int (rhe n N) * int N\<bar> \<le> \<bar>int n - (sg * M) * int N\<bar>"
      by (rule rhe_nearest) (simp add: N_def)
    also have "\<dots> = \<bar>sg * int n - M * int N\<bar>" using sg by auto
    finally have "of_int \<bar>int n - int (rhe n N) * int N\<bar> * u \<le> of_int \<bar>sg * int n - M * int N\<bar> * u"
      using u by (simp only: of_int_le_iff mult_right_mono less_imp_le)
    also have "\<dots> = \<bar>dval d - f\<bar>"
      unfolding xd f' scaled_dist [OF u] ..
    finally show ?thesis by (simp add: dist)
  next
    case False
    then have "(10::rat) powi j \<le> 10 powi (dexp d + int s - 1)"
      by (intro power_int_increasing) auto
    then have "\<bar>f\<bar> \<le> of_int (10 ^ prec) * 10 powi (dexp d + int s - 1)"
      using m unfolding f abs_mult
      by (intro mult_mono) (auto simp flip: of_int_abs simp: of_int_le_iff simp del: of_int_power)
    also have "\<dots> = of_int (10 ^ 27 * int N) * u"
      by (simp add: prec_def u_def N_def power_int_add power_int_diff)
    finally have f_le: "\<bar>f\<bar> \<le> of_int (10 ^ 27 * int N) * u" .
    have ax: "\<bar>dval d\<bar> = of_int (int n) * u"
      using sg u by (auto simp: xd abs_mult)
    have "int (10 ^ 27 * N) \<le> int n" using lo by (simp only: of_nat_le_iff)
    then have lo': "10 ^ 27 * int N \<le> int n" by (simp only: of_nat_mult of_nat_power of_nat_numeral)
    have "\<bar>int n - int (rhe n N) * int N\<bar> \<le> \<bar>int n - 10 ^ 27 * int N\<bar>"
      by (rule rhe_nearest) (simp add: N_def)
    also have "\<dots> = int n - 10 ^ 27 * int N"
      using lo' by simp
    finally have "of_int \<bar>int n - int (rhe n N) * int N\<bar> * u \<le> of_int (int n - 10 ^ 27 * int N) * u"
      using u by (simp only: of_int_le_iff mult_right_mono less_imp_le)
    also have "\<dots> = \<bar>dval d\<bar> - of_int (10 ^ 27 * int N) * u"
      by (simp add: ax left_diff_distrib)
    also have "\<dots> \<le> \<bar>dval d - f\<bar>" using f_le by linarith
    finally show ?thesis by (simp add: dist)
  qed
qed

lemma representable_dfix: "representable (dval (dfix d))"
proof (cases "prec < ndigits (nat \<bar>coef d\<bar>)")
  case False
  then have "nat \<bar>coef d\<bar> < 10 ^ prec"
    by (metis linorder_not_less ndigits_gt_iff prec_def zero_less_numeral)
  then have "\<bar>coef d\<bar> < 10 ^ prec"
    by (metis abs_ge_zero nat_less_iff of_nat_numeral of_nat_power)
  with False show ?thesis
    by (auto simp: dfix_def Let_def representable_def dval_def)
next
  case True
  define n where "n = nat \<bar>coef d\<bar>"
  define s where "s = ndigits n - prec"
  note fv = dfix_value [OF True, folded n_def, folded s_def]
  have le: "rhe n (10 ^ s) \<le> 10 ^ 28" using fv(3) by (intro rhe_le) auto
  show ?thesis
  proof (cases "rhe n (10 ^ s) = 10 ^ 28")
    case True
    have "dval (dfix d) = of_int (sgn (coef d) * 10 ^ 27) * 10 powi (dexp d + int s + 1)"
      by (simp add: fv(1) True power_int_add)
    moreover have "\<bar>sgn (coef d) * 10 ^ 27\<bar> < 10 ^ prec"
      by (auto simp: abs_mult prec_def sgn_if)
    ultimately show ?thesis unfolding representable_def by blast
  next
    case False
    with le have "int (rhe n (10 ^ s)) < 10 ^ prec"
      by (metis le_neq_implies_less of_nat_less_iff of_nat_numeral of_nat_power prec_def)
    then have "\<bar>sgn (coef d) * int (rhe n (10 ^ s))\<bar> < 10 ^ prec"
      by (auto simp: abs_mult sgn_if)
    then show ?thesis unfolding representable_def fv(1) by blast
  qed
qed

lemma dfix_exact: "representable (dval d) \<Longrightarrow> dval (dfix d) = dval d"
  using dfix_nearest [of "dval d" d] by simp

lemma dfix_le: "representable b \<Longrightarrow> dval d \<le> b \<Longrightarrow> dval (dfix d) \<le> b"
  using dfix_nearest [of b d] by linarith

lemma dfix_ge: "representable b \<Longrightarrow> b \<le> dval d \<Longrightarrow> b \<le> dval (dfix d)"
  using dfix_nearest [of b d] by linarith

lemma representable_int: "\<bar>m\<bar> < 10 ^ prec \<Longrightarrow> representable (of_int m * 10 powi j)"
  unfolding representable_def by blast

lemma representable_0 [simp]: "representable 0"
  using representable_int [of 0 0] by (simp add: prec_def)

lemma representable_1 [simp]: "representable 1"
  using representable_int [of 1 0] by (simp add: prec_def)

lemma representable_uminus [simp]: "representable (- x) \<longleftrightarrow> representable x"
proof -
  have "representable (- y)" if y: "representable y" for y
  proof -
    obtain m j where "\<bar>m\<bar> < 10 ^ prec" "y = of_int m * 10 powi j"
      using y by (auto simp: representable_def)
    then show ?thesis using representable_int [of "- m" j] by simp
  qed
  from this [of x] this [of "- x"] show ?thesis by auto
qed

lemma rhe_scale: "0 < k \<Longrightarrow> rhe (n * k) (d * k) = rhe n d"
proof -
  assume k: "0 < k"
  have "2 * (n mod d * k) < d * k \<longleftrightarrow> 2 * (n mod d) < d"
    using k by (metis mult.assoc mult_less_cancel2)
  moreover have "2 * (n mod d * k) = d * k \<longleftrightarrow> 2 * (n mod d) = d"
    using k by (metis mult.assoc mult_cancel2 less_numeral_extra(3))
  ultimately show ?thesis
    using k by (simp add: rhe_def Let_def mult_mod_left [symmetric])
qed

lemma ndigits_scale: "0 < n \<Longrightarrow> ndigits (n * 10 ^ k) = ndigits n + k"
proof (induction k)
  case 0
  then show ?case by simp
next
  case (Suc k)
  have e: "n * 10 ^ Suc k = (n * 10 ^ k) * 10" by simp
  have "1 \<le> n * 10 ^ k" using Suc.prems by simp
  then have "10 \<le> n * 10 ^ Suc k" unfolding e by linarith
  then have "ndigits (n * 10 ^ Suc k) = Suc (ndigits (n * 10 ^ Suc k div 10))"
    by (subst ndigits.simps) simp
  also have "n * 10 ^ Suc k div 10 = n * 10 ^ k" unfolding e by simp
  finally show ?case using Suc by simp
qed

text \<open>Rounding depends on the value alone.\<close>

lemma dfix_cong_le:
  assumes "dval a = dval b" and "dexp a \<le> dexp b"
  shows "dval (dfix a) = dval (dfix b)"
proof -
  define k where "k = nat (dexp b - dexp a)"
  define n where "n = nat \<bar>coef b\<bar>"
  have "of_int (coef a) * 10 powi dexp a = (of_int (coef b * 10 ^ k) * 10 powi dexp a :: rat)"
    using assms powi10_split [OF assms(2)] by (simp add: dval_def k_def)
  then have c: "coef a = coef b * 10 ^ k" by (metis mult_right_cancel of_int_eq_iff powi10_nz)
  have na: "nat \<bar>coef a\<bar> = n * 10 ^ k"
    unfolding c n_def by (simp add: abs_mult nat_mult_distrib nat_power_eq)
  show ?thesis
  proof (cases "coef b = 0 \<or> ndigits n \<le> prec")
    case True
    have "representable (dval b)"
    proof (cases "coef b = 0")
      case True
      then show ?thesis by (simp add: dval_def)
    next
      case False
      with True have "ndigits n \<le> prec" by simp
      then have "dfix b = b" by (simp add: dfix_def Let_def n_def)
      then show ?thesis by (metis representable_dfix)
    qed
    then show ?thesis using assms(1) by (simp add: dfix_exact)
  next
    case False
    then have n: "0 < n" "prec < ndigits n" by (auto simp: n_def)
    have nda: "ndigits (n * 10 ^ k) = ndigits n + k" by (rule ndigits_scale [OF n(1)])
    define s where "s = ndigits n - prec"
    have sa: "ndigits (n * 10 ^ k) - prec = s + k" using n(2) nda by (simp add: s_def)
    have r: "rhe (n * 10 ^ k) (10 ^ (s + k)) = rhe n (10 ^ s)"
      using rhe_scale [of "10 ^ k" n "10 ^ s"] by (simp add: power_add)
    have sg: "sgn (coef a) = sgn (coef b)" unfolding c by (simp add: sgn_mult)
    have e: "dexp a + int (s + k) = dexp b + int s" using assms(2) by (simp add: k_def)
    have "dval (dfix a) = of_int (sgn (coef a) * int (rhe (n * 10 ^ k) (10 ^ (s + k)))) * 10 powi (dexp a + int (s + k))"
      using dfix_value(1) [of a] n(2) by (simp only: na sa) (simp add: nda)
    also have "\<dots> = dval (dfix b)"
      using dfix_value(1) [of b] n(2) unfolding n_def [symmetric] s_def [symmetric] r e sg by simp
    finally show ?thesis .
  qed
qed

lemma dfix_cong: "dval a = dval b \<Longrightarrow> dval (dfix a) = dval (dfix b)"
  by (metis dfix_cong_le linear)

lemma dfix_mono: "dval a \<le> dval b \<Longrightarrow> dval (dfix a) \<le> dval (dfix b)"
proof (cases "dval a = dval b")
  case True
  then show ?thesis using dfix_cong [OF True] by (metis order.refl)
next
  case False
  moreover assume "dval a \<le> dval b"
  ultimately have l: "dval a < dval b" by simp
  show ?thesis
    using l dfix_nearest [OF representable_dfix [of b], of a] dfix_nearest [OF representable_dfix [of a], of b]
    by linarith
qed

text \<open>Rounding keeps the sign, exactly.\<close>

lemma sgn_scaled: "sgn (of_int c * 10 powi e :: rat) = of_int (sgn c)"
proof -
  have "sgn (of_int c :: rat) = of_int (sgn c)" by (simp add: sgn_if)
  moreover have "sgn (10 powi e :: rat) = 1" by (rule sgn_pos) simp
  ultimately show ?thesis by (simp add: sgn_mult)
qed

lemma dval_sgn: "sgn (dval d) = of_int (sgn (coef d))"
  unfolding dval_def by (rule sgn_scaled)

lemma sgn_coef_dfix: "sgn (coef (dfix d)) = sgn (coef d)"
proof (cases "prec < ndigits (nat \<bar>coef d\<bar>)")
  case False
  then show ?thesis by (simp add: dfix_def Let_def)
next
  case True
  define n where "n = nat \<bar>coef d\<bar>"
  define s where "s = ndigits n - prec"
  note fv = dfix_value [OF True, folded n_def, folded s_def]
  have "10 ^ 27 \<le> rhe n (10 ^ s)" using fv(2) by (intro rhe_ge) auto
  then have pos: "0 < rhe n (10 ^ s)" by (rule less_le_trans [rotated]) simp
  have "of_int (sgn (coef (dfix d))) = (of_int (sgn (coef d)) :: rat)"
    unfolding dval_sgn [symmetric] unfolding fv(1) sgn_scaled dval_sgn
    using pos by (simp add: sgn_mult)
  then show ?thesis by (simp only: of_int_eq_iff)
qed

lemma sgn_dval_dfix [simp]: "sgn (dval (dfix d)) = sgn (dval d)"
  by (simp add: dval_sgn sgn_coef_dfix)

lemma dval_dfix_pos [simp]: "0 < dval (dfix d) \<longleftrightarrow> 0 < dval d"
  by (metis sgn_dval_dfix sgn_greater)

lemma dval_dfix_neg [simp]: "dval (dfix d) < 0 \<longleftrightarrow> dval d < 0"
  by (metis sgn_dval_dfix sgn_less)

lemma dval_dfix_nonneg [simp]: "0 \<le> dval (dfix d) \<longleftrightarrow> 0 \<le> dval d"
  by (meson dval_dfix_neg linorder_not_le)

lemma dval_dfix_nonpos [simp]: "dval (dfix d) \<le> 0 \<longleftrightarrow> dval d \<le> 0"
  by (meson dval_dfix_pos linorder_not_le)

lemma dval_dfix_zero [simp]: "dval (dfix d) = 0 \<longleftrightarrow> dval d = 0"
  by (metis sgn_dval_dfix sgn_0_0)

section \<open>Arithmetic\<close>

text \<open>
  Each operation computes its exact result and rounds it. The names of the HOL classes make the
  model read like the source; no algebraic law comes with them, because rounding breaks
  associativity.
\<close>

instantiation decimal :: "{zero, one, plus, minus, uminus, times}"
begin

definition zero_decimal :: decimal where
  "zero_decimal = Dec 0 0"

definition one_decimal :: decimal where
  "one_decimal = Dec 1 0"

definition plus_decimal :: "decimal \<Rightarrow> decimal \<Rightarrow> decimal" where
  "plus_decimal a b =
     (let e = min (dexp a) (dexp b) in dfix (Dec (align e a + align e b) e))"

definition minus_decimal :: "decimal \<Rightarrow> decimal \<Rightarrow> decimal" where
  "minus_decimal a b =
     (let e = min (dexp a) (dexp b) in dfix (Dec (align e a - align e b) e))"

definition uminus_decimal :: "decimal \<Rightarrow> decimal" where
  "uminus_decimal a = dfix (Dec (- coef a) (dexp a))"

definition times_decimal :: "decimal \<Rightarrow> decimal \<Rightarrow> decimal" where
  "times_decimal a b = dfix (Dec (coef a * coef b) (dexp a + dexp b))"

instance ..

end

definition dabs :: "decimal \<Rightarrow> decimal" where
  "dabs a = dfix (Dec \<bar>coef a\<bar> (dexp a))"

text \<open>\<open>sum(xs, Decimal("0"))\<close>\<close>

definition dsum :: "decimal list \<Rightarrow> decimal" where
  "dsum xs = foldl (+) 0 xs"

text \<open>The exact results the operations round.\<close>

lemma plus_is_fix: "\<exists>x. dval x = dval a + dval b \<and> a + b = dfix x"
  by (rule exI [of _ "Dec (align (min (dexp a) (dexp b)) a + align (min (dexp a) (dexp b)) b)
        (min (dexp a) (dexp b))"])
     (simp add: plus_decimal_def Let_def distrib_right align_value)

lemma minus_is_fix: "\<exists>x. dval x = dval a - dval b \<and> a - b = dfix x"
  by (rule exI [of _ "Dec (align (min (dexp a) (dexp b)) a - align (min (dexp a) (dexp b)) b)
        (min (dexp a) (dexp b))"])
     (simp add: minus_decimal_def Let_def left_diff_distrib align_value)

lemma times_is_fix: "\<exists>x. dval x = dval a * dval b \<and> a * b = dfix x"
  by (rule exI [of _ "Dec (coef a * coef b) (dexp a + dexp b)"])
     (simp add: times_decimal_def dval_def power_int_add)

lemma uminus_is_fix: "\<exists>x. dval x = - dval a \<and> - a = dfix x"
  by (rule exI [of _ "Dec (- coef a) (dexp a)"]) (simp add: uminus_decimal_def dval_def)

lemma dabs_is_fix: "\<exists>x. dval x = \<bar>dval a\<bar> \<and> dabs a = dfix x"
  by (rule exI [of _ "Dec \<bar>coef a\<bar> (dexp a)"]) (simp add: dabs_def dval_def abs_mult)

lemmas arith_is_fix = plus_is_fix minus_is_fix times_is_fix uminus_is_fix dabs_is_fix

lemma dval_zero [simp]: "dval 0 = 0" and dval_one [simp]: "dval 1 = 1"
  by (simp_all add: zero_decimal_def one_decimal_def)

named_theorems dval_exact "operations whose exact result is representable"

lemma dval_plus_exact [dval_exact]:
  "representable (dval a + dval b) \<Longrightarrow> dval (a + b) = dval a + dval b"
  using plus_is_fix [of a b] dfix_exact by metis

lemma dval_minus_exact [dval_exact]:
  "representable (dval a - dval b) \<Longrightarrow> dval (a - b) = dval a - dval b"
  using minus_is_fix [of a b] dfix_exact by metis

lemma dval_times_exact [dval_exact]:
  "representable (dval a * dval b) \<Longrightarrow> dval (a * b) = dval a * dval b"
  using times_is_fix [of a b] dfix_exact by metis

lemma dval_uminus_exact [dval_exact]: "representable (dval a) \<Longrightarrow> dval (- a) = - dval a"
  using uminus_is_fix [of a] dfix_exact representable_uminus by metis

lemma dval_dabs_exact [dval_exact]: "representable (dval a) \<Longrightarrow> dval (dabs a) = \<bar>dval a\<bar>"
  using dabs_is_fix [of a] dfix_exact representable_uminus by (metis abs_if)

text \<open>The sign of a rounded result is the sign of the exact one.\<close>

lemma plus_sign [simp]:
  "0 \<le> dval (a + b) \<longleftrightarrow> 0 \<le> dval a + dval b" "0 < dval (a + b) \<longleftrightarrow> 0 < dval a + dval b"
  "dval (a + b) = 0 \<longleftrightarrow> dval a + dval b = 0"
  using plus_is_fix [of a b] by auto

lemma minus_sign [simp]:
  "0 \<le> dval (a - b) \<longleftrightarrow> dval b \<le> dval a" "0 < dval (a - b) \<longleftrightarrow> dval b < dval a"
  "dval (a - b) = 0 \<longleftrightarrow> dval a = dval b" "dval (a - b) < 0 \<longleftrightarrow> dval a < dval b"
  "dval (a - b) \<le> 0 \<longleftrightarrow> dval a \<le> dval b"
  using minus_is_fix [of a b] by auto

lemma times_sign [simp]:
  "0 \<le> dval (a * b) \<longleftrightarrow> 0 \<le> dval a * dval b" "0 < dval (a * b) \<longleftrightarrow> 0 < dval a * dval b"
  "dval (a * b) = 0 \<longleftrightarrow> dval a * dval b = 0" "dval (a * b) < 0 \<longleftrightarrow> dval a * dval b < 0"
  "dval (a * b) \<le> 0 \<longleftrightarrow> dval a * dval b \<le> 0"
  using times_is_fix [of a b] by auto

lemma uminus_sign [simp]:
  "0 \<le> dval (- a) \<longleftrightarrow> dval a \<le> 0" "0 < dval (- a) \<longleftrightarrow> dval a < 0"
  "dval (- a) = 0 \<longleftrightarrow> dval a = 0" "dval (- a) < 0 \<longleftrightarrow> 0 < dval a"
  using uminus_is_fix [of a] by auto

lemma dabs_sign [simp]:
  "0 \<le> dval (dabs a)" "0 < dval (dabs a) \<longleftrightarrow> dval a \<noteq> 0" "dval (dabs a) = 0 \<longleftrightarrow> dval a = 0"
  using dabs_is_fix [of a] by auto

lemma times_commute: "(a :: decimal) * b = b * a"
  by (simp add: times_decimal_def mult.commute add.commute)

lemma plus_commute: "(a :: decimal) + b = b + a"
  by (simp add: plus_decimal_def add.commute min.commute)

text \<open>A representable bound on the exact result bounds the rounded one.\<close>

lemma plus_le: "representable r \<Longrightarrow> dval a + dval b \<le> r \<Longrightarrow> dval (a + b) \<le> r"
  using plus_is_fix [of a b] dfix_le by metis

lemma plus_ge: "representable r \<Longrightarrow> r \<le> dval a + dval b \<Longrightarrow> r \<le> dval (a + b)"
  using plus_is_fix [of a b] dfix_ge by metis

lemma minus_le: "representable r \<Longrightarrow> dval a - dval b \<le> r \<Longrightarrow> dval (a - b) \<le> r"
  using minus_is_fix [of a b] dfix_le by metis

lemma minus_ge: "representable r \<Longrightarrow> r \<le> dval a - dval b \<Longrightarrow> r \<le> dval (a - b)"
  using minus_is_fix [of a b] dfix_ge by metis

lemma times_le: "representable r \<Longrightarrow> dval a * dval b \<le> r \<Longrightarrow> dval (a * b) \<le> r"
  using times_is_fix [of a b] dfix_le by metis

lemma times_ge: "representable r \<Longrightarrow> r \<le> dval a * dval b \<Longrightarrow> r \<le> dval (a * b)"
  using times_is_fix [of a b] dfix_ge by metis

text \<open>Rounded operations are monotone.\<close>

lemma plus_mono: "dval a \<le> dval c \<Longrightarrow> dval b \<le> dval d \<Longrightarrow> dval (a + b) \<le> dval (c + d)"
  using plus_is_fix [of a b] plus_is_fix [of c d] dfix_mono by (metis add_mono)

lemma minus_mono: "dval a \<le> dval c \<Longrightarrow> dval d \<le> dval b \<Longrightarrow> dval (a - b) \<le> dval (c - d)"
  using minus_is_fix [of a b] minus_is_fix [of c d] dfix_mono by (metis diff_mono)

lemma times_mono:
  "dval a \<le> dval c \<Longrightarrow> dval b \<le> dval d \<Longrightarrow> 0 \<le> dval a \<Longrightarrow> 0 \<le> dval b \<Longrightarrow> dval (a * b) \<le> dval (c * d)"
  using times_is_fix [of a b] times_is_fix [of c d] dfix_mono by (metis mult_mono order.trans)

lemma dabs_mono: "\<bar>dval a\<bar> \<le> \<bar>dval b\<bar> \<Longrightarrow> dval (dabs a) \<le> dval (dabs b)"
  using dabs_is_fix [of a] dabs_is_fix [of b] dfix_mono by metis

lemma representable_ops [simp]:
  "representable (dval (a + b))" "representable (dval (a - b))" "representable (dval (a * b))"
  "representable (dval (- a))" "representable (dval (dabs a))"
  using plus_is_fix [of a b] minus_is_fix [of a b] times_is_fix [of a b] uminus_is_fix [of a]
    dabs_is_fix [of a] representable_dfix by metis+

lemma dsum_Nil [simp]: "dsum [] = 0"
  by (simp add: dsum_def)

lemma dsum_snoc [simp]: "dsum (xs @ [x]) = dsum xs + x"
  by (simp add: dsum_def)

lemma dsum_nonneg: "(\<And>x. x \<in> set xs \<Longrightarrow> 0 \<le> dval x) \<Longrightarrow> 0 \<le> dval (dsum xs)"
  by (induction xs rule: rev_induct) (simp_all)

text \<open>
  Quantities on the grid of multiples of ten to the minus \<open>k\<close>, fewer than ten to the 28 steps, add and subtract without rounding.
\<close>

definition on_grid :: "int \<Rightarrow> rat \<Rightarrow> bool" where
  "on_grid k x \<longleftrightarrow> (\<exists>m. x = of_int m * 10 powi (- k))"

lemma on_grid_plus: "on_grid k x \<Longrightarrow> on_grid k y \<Longrightarrow> on_grid k (x + y)"
  unfolding on_grid_def by (metis distrib_right of_int_add)

lemma on_grid_minus: "on_grid k x \<Longrightarrow> on_grid k y \<Longrightarrow> on_grid k (x - y)"
  unfolding on_grid_def by (metis left_diff_distrib of_int_diff)

lemma on_grid_0 [simp]: "on_grid k 0"
  unfolding on_grid_def by (rule exI [of _ 0]) simp

lemma on_grid_representable:
  assumes "on_grid k x" and "\<bar>x\<bar> < 10 ^ prec * 10 powi (- k)"
  shows "representable x"
proof -
  obtain m where m: "x = of_int m * 10 powi (- k)" using assms(1) by (auto simp: on_grid_def)
  with assms(2) have "of_int \<bar>m\<bar> < (10 ^ prec :: rat)"
    by (simp add: abs_mult)
  then have "\<bar>m\<bar> < 10 ^ prec" by (metis of_int_less_iff of_int_numeral of_int_power)
  then show ?thesis using m representable_int by blast
qed

section \<open>Division, square root, remainder\<close>

text \<open>Drop trailing zeros of an exact quotient, but not past the ideal exponent.\<close>

function strip_zeros :: "nat \<Rightarrow> int \<Rightarrow> int \<Rightarrow> nat \<times> int" where
  "strip_zeros q e ideal =
     (if e < ideal \<and> q mod 10 = 0 then strip_zeros (q div 10) (e + 1) ideal else (q, e))"
  by pat_completeness auto
termination
  by (relation "measure (\<lambda>(q, e, ideal). nat (ideal - e))") auto

declare strip_zeros.simps [simp del]

text \<open>
  \<open>Decimal.__truediv__\<close>: at least 29 digits of the quotient are computed; a remainder is
  remembered by moving a last digit 0 or 5 up by one (so the final rounding sees no false tie),
  an exact quotient loses its trailing zeros. \<open>dquot\<close> is the quotient where the divisor is not
  zero, \<open>ddiv\<close> raises where it is.
\<close>

definition dquot :: "decimal \<Rightarrow> decimal \<Rightarrow> decimal" where
  "dquot a b =
     (if coef a = 0 then Dec 0 (dexp a - dexp b)
      else
        let na = nat \<bar>coef a\<bar>; nb = nat \<bar>coef b\<bar>;
            shift = int (ndigits nb) - int (ndigits na) + int prec + 1;
            e = dexp a - dexp b - shift;
            num = na * 10 ^ nat shift; den = nb * 10 ^ nat (- shift);
            q = num div den; sg = sgn (coef a) * sgn (coef b)
        in if num mod den \<noteq> 0
           then dfix (Dec (sg * int (if q mod 5 = 0 then q + 1 else q)) e)
           else case strip_zeros q e (dexp a - dexp b) of
                  (q', e') \<Rightarrow> dfix (Dec (sg * int q') e'))"

definition ddiv :: "decimal \<Rightarrow> decimal \<Rightarrow> decimal result" where
  "ddiv a b = (if coef b = 0 then Inl (Exc ArithmeticError ''DivisionByZero'') else Inr (dquot a b))"

text \<open>\<open>Decimal.__mod__\<close>: the remainder of the truncated quotient, with the sign of the dividend.\<close>

definition drem :: "decimal \<Rightarrow> decimal \<Rightarrow> decimal result" where
  "drem a b =
     (if coef b = 0 then Inl (Exc ArithmeticError ''InvalidOperation'')
      else
        let e = min (dexp a) (dexp b); x = \<bar>align e a\<bar>; y = \<bar>align e b\<bar>
        in if x div y < 10 ^ prec then Inr (dfix (Dec (sgn (coef a) * (x mod y)) e))
           else Inl (Exc ArithmeticError ''InvalidOperation''))"

text \<open>The integer square root, by recursion on base-four digits.\<close>

fun isqrt :: "nat \<Rightarrow> nat" where
  "isqrt n =
     (if n = 0 then 0
      else let r = 2 * isqrt (n div 4) in if (r + 1) * (r + 1) \<le> n then r + 1 else r)"

declare isqrt.simps [simp del]

text \<open>\<open>Decimal.sqrt\<close> of a non-negative value, with the same treatment of inexact roots.\<close>

definition dsqrt :: "decimal \<Rightarrow> decimal result" where
  "dsqrt a =
     (if coef a < 0 then Inl (Exc ArithmeticError ''InvalidOperation'')
      else if coef a = 0 then Inr (Dec 0 (dexp a div 2))
      else
        let n = nat (coef a); len = ndigits n;
            e = dexp a div 2;
            c = (if odd (dexp a) then n * 10 else n);
            l = (if odd (dexp a) then len div 2 + 1 else (len + 1) div 2);
            shift = int prec + 1 - int l;
            c' = (if 0 \<le> shift then c * 100 ^ nat shift else c div 100 ^ nat (- shift));
            exact = (0 \<le> shift \<or> c mod 100 ^ nat (- shift) = 0);
            r = isqrt c'
        in if exact \<and> r * r = c'
           then Inr (dfix (Dec (int (if 0 \<le> shift then r div 10 ^ nat shift
                                     else r * 10 ^ nat (- shift))) e))
           else Inr (dfix (Dec (int (if r mod 5 = 0 then r + 1 else r)) (e - shift))))"

lemma strip_zeros_value:
  "strip_zeros q e i = (q', e') \<Longrightarrow> of_nat q' * (10::rat) powi e' = of_nat q * 10 powi e"
proof (induction q e i arbitrary: q' e' rule: strip_zeros.induct)
  case (1 q e i)
  show ?case
  proof (cases "e < i \<and> q mod 10 = 0")
    case True
    then have "strip_zeros (q div 10) (e + 1) i = (q', e')"
      using 1(2) by (subst (asm) strip_zeros.simps) simp
    then have "of_nat q' * (10::rat) powi e' = of_nat (q div 10) * 10 powi (e + 1)"
      by (rule 1(1) [OF True])
    also have "\<dots> = of_nat (q div 10 * 10) * 10 powi e"
      by (simp add: power_int_add)
    also have "q div 10 * 10 = q" using True by presburger
    finally show ?thesis .
  next
    case False
    then have "strip_zeros q e i = (q, e)" by (subst strip_zeros.simps) auto
    with 1(2) show ?thesis by simp
  qed
qed

lemma isqrt_bounds: "isqrt n * isqrt n \<le> n \<and> n < (isqrt n + 1) * (isqrt n + 1)"
proof (induction n rule: isqrt.induct)
  case (1 n)
  show ?case
  proof (cases "n = 0")
    case True
    then show ?thesis by (simp add: isqrt.simps)
  next
    case False
    define s where "s = isqrt (n div 4)"
    have s: "s * s \<le> n div 4" "n div 4 < (s + 1) * (s + 1)" using 1 False by (auto simp: s_def)
    from s(1) have lo: "4 * (s * s) \<le> n" by linarith
    from s(2) have "n div 4 + 1 \<le> (s + 1) * (s + 1)" by simp
    then have hi: "n < 4 * ((s + 1) * (s + 1))" by linarith
    show ?thesis
      using lo hi False
      by (subst (1 2 3 4) isqrt.simps) (simp add: s_def [symmetric] Let_def algebra_simps)
  qed
qed

text \<open>
  The quotient before the final rounding: a natural number \<open>t\<close> of at least 29 digits that is the
  exact scaled quotient \<open>x\<close>, or lies with it between two neighbouring integers.
\<close>

lemma dquot_approx:
  assumes a: "coef a \<noteq> 0" and b: "coef b \<noteq> 0"
  shows "\<exists>y e q t x. dquot a b = dfix y \<and>
    dval y = of_int (sgn (coef a) * sgn (coef b)) * of_nat t * 10 powi e \<and>
    \<bar>dval a / dval b\<bar> = x * 10 powi e \<and> 10 ^ 28 \<le> (q::nat) \<and> of_nat q \<le> x \<and>
    (x = of_nat q \<and> t = q \<or> of_nat q < x \<and> q \<le> t \<and> t \<le> q + 1) \<and> x < of_nat q + 1"
proof -
  define na nb where "na = nat \<bar>coef a\<bar>" and "nb = nat \<bar>coef b\<bar>"
  define shift where "shift = int (ndigits nb) - int (ndigits na) + int prec + 1"
  define e where "e = dexp a - dexp b - shift"
  define num den where "num = na * 10 ^ nat shift" and "den = nb * 10 ^ nat (- shift)"
  define q where "q = num div den"
  define sg where "sg = sgn (coef a) * sgn (coef b)"
  define x where "x = (of_nat num / of_nat den :: rat)"
  have na: "0 < na" and nb: "0 < nb" using a b by (auto simp: na_def nb_def)
  have den: "0 < den" using nb by (simp add: den_def)
  have split: "(10::rat) ^ nat shift / 10 ^ nat (- shift) = 10 powi shift"
    by (cases "0 \<le> shift") (auto simp: power_int_def field_simps)
  have x: "x = of_nat na / of_nat nb * 10 powi shift"
    unfolding x_def num_def den_def split [symmetric] by simp
  have "\<bar>dval a / dval b\<bar> = of_nat na / of_nat nb * 10 powi (dexp a - dexp b)"
    by (simp add: dval_def abs_mult power_int_diff na_def nb_def)
  also have "\<dots> = x * 10 powi e"
    by (simp add: x e_def power_int_diff)
  finally have quot: "\<bar>dval a / dval b\<bar> = x * 10 powi e" .
  have big: "10 ^ 28 \<le> q"
  proof -
    have "10 ^ (ndigits na - 1) \<le> na"
      using na ndigits_gt_iff [of "ndigits na - 1" na] ndigits_pos [of na]
      by (cases "ndigits na = 1") (simp_all del: ndigits_pos)
    moreover have "nb < 10 ^ ndigits nb" using ndigits_le_iff [of "ndigits nb" nb] by simp
    ultimately have "10 ^ (ndigits na - 1) * 10 ^ nat shift \<le> num"
      "den \<le> 10 ^ ndigits nb * 10 ^ nat (- shift)"
      by (simp_all add: num_def den_def)
    moreover have "(10::nat) ^ 28 * (10 ^ ndigits nb * 10 ^ nat (- shift))
        = 10 ^ (ndigits na - 1) * 10 ^ nat shift"
    proof -
      have "28 + (ndigits nb + nat (- shift)) = ndigits na - 1 + nat shift"
        using ndigits_pos [of na] unfolding shift_def prec_def by arith
      then show ?thesis by (simp only: power_add [symmetric])
    qed
    ultimately have "10 ^ 28 * den \<le> num"
      by (metis (no_types, lifting) le_trans mult_le_mono2)
    then show ?thesis using den by (simp add: q_def less_eq_div_iff_mult_less_eq)
  qed
  have qx: "of_nat q \<le> x" "of_nat q < x \<or> num mod den = 0" "num mod den = 0 \<longrightarrow> x = of_nat q"
    "x < of_nat q + 1"
  proof -
    define rr where "rr = num mod den"
    have "num = q * den + rr" by (simp add: q_def rr_def)
    then have "x = (of_nat q * of_nat den + of_nat rr) / of_nat den"
      unfolding x_def by (metis of_nat_add of_nat_mult)
    also have "\<dots> = of_nat q + of_nat rr / of_nat den"
      using den by (simp add: add_divide_distrib)
    finally have xq: "x = of_nat q + of_nat rr / of_nat den" .
    have "0 < (of_nat rr / of_nat den :: rat)" if "rr \<noteq> 0" using that den by simp
    moreover have "(of_nat rr :: rat) / of_nat den < 1"
      using den mod_less_divisor [OF den, of num] by (simp add: rr_def)
    ultimately show "of_nat q \<le> x" "of_nat q < x \<or> num mod den = 0" "num mod den = 0 \<longrightarrow> x = of_nat q"
      "x < of_nat q + 1"
      unfolding xq rr_def [symmetric] by auto
  qed
  have dq: "dquot a b =
      (if num mod den \<noteq> 0 then dfix (Dec (sg * int (if q mod 5 = 0 then q + 1 else q)) e)
       else case strip_zeros q e (dexp a - dexp b) of (q', e') \<Rightarrow> dfix (Dec (sg * int q') e'))"
    unfolding dquot_def Let_def q_def num_def den_def e_def shift_def na_def nb_def sg_def
    by (simp only: a if_False)
  show ?thesis
  proof (cases "num mod den = 0")
    case False
    define t where "t = (if q mod 5 = 0 then q + 1 else q)"
    have "dquot a b = dfix (Dec (sg * int t) e)"
      unfolding dq t_def if_P [OF False] ..
    moreover have "dval (Dec (sg * int t) e) = of_int sg * of_nat t * 10 powi e" by simp
    moreover have "of_nat q < x" "q \<le> t" "t \<le> q + 1" using qx(2) False by (auto simp: t_def)
    ultimately show ?thesis using quot big qx(1,4) unfolding sg_def by blast
  next
    case True
    obtain q' e' where st: "strip_zeros q e (dexp a - dexp b) = (q', e')" by fastforce
    then have "dquot a b = dfix (Dec (sg * int q') e')"
      unfolding dq using True by simp
    moreover have "dval (Dec (sg * int q') e') = of_int sg * of_nat q * 10 powi e"
      using strip_zeros_value [OF st] by (simp add: mult.assoc)
    ultimately show ?thesis using quot big qx(1,3,4) True unfolding sg_def by blast
  qed
qed

lemma sgn_dquot [simp]: "sgn (dval (dquot a b)) = sgn (dval a) * sgn (dval b)" if "dval b \<noteq> 0"
proof (cases "coef a = 0")
  case True
  then show ?thesis by (simp add: dquot_def dval_def)
next
  case False
  have b: "coef b \<noteq> 0" using that by (auto simp: dval_def)
  obtain y e q t x where y: "dquot a b = dfix y"
    "dval y = of_int (sgn (coef a) * sgn (coef b)) * of_nat t * 10 powi e"
    and t: "10 ^ 28 \<le> (q::nat)" "x = of_nat q \<and> t = q \<or> of_nat q < (x::rat) \<and> q \<le> t \<and> t \<le> q + 1"
    using dquot_approx [OF False b] by blast
  have "0 < t" using t by auto
  moreover have "dval y = of_int (sgn (coef a) * sgn (coef b) * int t) * 10 powi e"
    using y(2) by simp
  ultimately show ?thesis
    unfolding y(1) sgn_dval_dfix dval_sgn [of a] dval_sgn [of b]
    by (simp only: sgn_scaled) (simp add: sgn_mult)
qed

lemma dquot_sign [simp]:
  assumes "dval b \<noteq> 0"
  shows "0 \<le> dval (dquot a b) \<longleftrightarrow> 0 \<le> dval a * dval b"
    and "0 < dval (dquot a b) \<longleftrightarrow> 0 < dval a * dval b"
    and "dval (dquot a b) = 0 \<longleftrightarrow> dval a = 0"
  using sgn_dquot [OF assms, of a] assms
  by (auto simp: sgn_if zero_le_mult_iff zero_less_mult_iff split: if_splits)

text \<open>A representable bound on the exact quotient of non-negative values bounds the rounded one.\<close>

lemma grid_of_big:
  assumes r: "representable r" and big: "10 ^ 28 * 10 powi e \<le> \<bar>r\<bar>"
  shows "\<exists>M::int. r = of_int M * 10 powi e"
proof -
  obtain m j where m: "\<bar>m\<bar> < 10 ^ prec" and r: "r = of_int m * 10 powi j"
    using r by (auto simp: representable_def)
  have "e \<le> j"
  proof (rule ccontr)
    assume "\<not> e \<le> j"
    then have "(10::rat) powi j \<le> 10 powi e" by (intro power_int_increasing) auto
    moreover have "of_int \<bar>m\<bar> < (10 ^ 28 :: rat)"
      using m by (metis of_int_less_iff of_int_numeral of_int_power prec_def)
    ultimately have "\<bar>r\<bar> < 10 ^ 28 * 10 powi e"
      unfolding r abs_mult by (intro mult_less_le_imp_less) auto
    with big show False by simp
  qed
  then show ?thesis
    by (intro exI [of _ "m * 10 ^ nat (j - e)"]) (simp add: r powi10_split [of e j])
qed

lemma dquot_le:
  assumes "0 \<le> dval a" "0 < dval b" "representable r" "dval a / dval b \<le> r"
  shows "dval (dquot a b) \<le> r"
proof (cases "coef a = 0")
  case True
  then have "dval a = 0" by (simp add: dval_def)
  with True assms show ?thesis by (simp add: dquot_def)
next
  case a: False
  have pos: "0 < coef a" "0 < coef b"
    using assms(1,2) a by (auto simp: dval_coef)
  obtain y e q t x where y: "dquot a b = dfix y" "dval y = of_nat t * 10 powi e"
    and x: "\<bar>dval a / dval b\<bar> = x * 10 powi e" "10 ^ 28 \<le> (q::nat)" "of_nat q \<le> x"
      "x = of_nat q \<and> t = q \<or> of_nat q < x \<and> q \<le> t \<and> t \<le> q + 1"
    using dquot_approx [of a b] pos by auto
  have xr: "x * 10 powi e \<le> r" using x(1) assms by simp
  have "10 ^ 28 \<le> x" using x(2,3) by (metis le_trans of_nat_le_iff of_nat_numeral of_nat_power order_trans)
  then have "10 ^ 28 * 10 powi e \<le> x * 10 powi e" by (intro mult_right_mono) auto
  then have "10 ^ 28 * 10 powi e \<le> \<bar>r\<bar>" using xr by linarith
  then obtain M where M: "r = of_int M * 10 powi e" using grid_of_big assms(3) by blast
  have xM: "x \<le> of_int M" using xr unfolding M by simp
  have "of_nat t \<le> (of_int M :: rat)"
  proof (cases "x = of_nat q \<and> t = q")
    case True
    with xM show ?thesis by simp
  next
    case False
    then have "of_nat q < (of_int M :: rat)" using x(4) xM by auto
    then have "int q < M" by (metis of_int_less_iff of_int_of_nat_eq)
    then have "int t \<le> M" using x(4) False by linarith
    then show ?thesis by (metis of_int_le_iff of_int_of_nat_eq)
  qed
  then have "dval y \<le> r" unfolding y(2) M by (intro mult_right_mono) auto
  then show ?thesis unfolding y(1) by (rule dfix_le [OF assms(3)])
qed

lemma dquot_ge:
  assumes "0 \<le> dval a" "0 < dval b" "representable r" "r \<le> dval a / dval b"
  shows "r \<le> dval (dquot a b)"
proof (cases "coef a = 0")
  case True
  then have "dval a = 0" by (simp add: dval_def)
  with True assms show ?thesis by (simp add: dquot_def)
next
  case a: False
  have pos: "0 < coef a" "0 < coef b"
    using assms(1,2) a by (auto simp: dval_coef)
  obtain y e q t x where y: "dquot a b = dfix y" "dval y = of_nat t * 10 powi e"
    and x: "\<bar>dval a / dval b\<bar> = x * 10 powi e" "10 ^ 28 \<le> (q::nat)" "of_nat q \<le> x"
      "x = of_nat q \<and> t = q \<or> of_nat q < x \<and> q \<le> t \<and> t \<le> q + 1" "x < of_nat q + 1"
    using dquot_approx [of a b] pos by auto
  have xr: "r \<le> x * 10 powi e" using x(1) assms by simp
  have qt: "q \<le> t" using x(4) by auto
  have big: "(10 :: rat) ^ 28 \<le> of_nat t"
  proof -
    have "10 ^ 28 \<le> t" using x(2) qt by (rule le_trans)
    then have "(of_nat (10 ^ 28) :: rat) \<le> of_nat t" by (simp only: of_nat_le_iff)
    then show ?thesis by simp
  qed
  have "r \<le> dval y"
  proof (cases "10 ^ 28 * 10 powi e \<le> \<bar>r\<bar>")
    case False
    then have "r \<le> 10 ^ 28 * 10 powi e" by linarith
    also have "\<dots> \<le> dval y" unfolding y(2) using big by (intro mult_right_mono) auto
    finally show ?thesis .
  next
    case True
    then obtain M where M: "r = of_int M * 10 powi e" using grid_of_big assms(3) by blast
    have Mx: "of_int M \<le> x" using xr unfolding M by simp
    have "of_int M < (of_nat t + 1 :: rat)"
    proof -
      have "(of_nat q :: rat) \<le> of_nat t" using qt by simp
      then show ?thesis using Mx x(5) by linarith
    qed
    then have "M < int t + 1" by (metis of_int_1 of_int_add of_int_less_iff of_int_of_nat_eq)
    then have "M \<le> int t" by simp
    then show ?thesis unfolding M y(2) by (intro mult_right_mono) (metis of_int_le_iff of_int_of_nat_eq, simp)
  qed
  then show ?thesis unfolding y(1) by (rule dfix_ge [OF assms(3)])
qed

lemma ddiv_ok: "dval b \<noteq> 0 \<Longrightarrow> ddiv a b = Inr (dquot a b)"
  by (auto simp: ddiv_def dval_def)

lemma ddiv_zero: "dval b = 0 \<Longrightarrow> ddiv a b = Inl (Exc ArithmeticError ''DivisionByZero'')"
  by (auto simp: ddiv_def dval_def)

lemma ddiv_Inr_iff: "ddiv a b = Inr c \<longleftrightarrow> dval b \<noteq> 0 \<and> c = dquot a b"
  by (auto simp: ddiv_def dval_def)

lemma if_Inr_ex:
  "(c \<Longrightarrow> P x) \<Longrightarrow> (\<not> c \<Longrightarrow> P y) \<Longrightarrow> \<exists>r. (if c then Inr x else Inr y) = Inr r \<and> P r"
  by auto

lemma dsqrt_total:
  assumes "0 \<le> dval a"
  shows "\<exists>r. dsqrt a = Inr r \<and> 0 \<le> dval r"
proof -
  have nn: "0 \<le> dval (dfix (Dec (int n) e))" for n e by simp
  have a: "\<not> coef a < 0" using assms by (simp add: dval_coef)
  show ?thesis
  proof (cases "coef a = 0")
    case True
    then show ?thesis by (simp add: dsqrt_def)
  next
    case False
    show ?thesis
      unfolding dsqrt_def Let_def if_not_P [OF a] if_not_P [OF False]
      by (rule if_Inr_ex) (rule nn)+
  qed
qed

text \<open>A zero remainder means an integer multiple, as long as the quotient has at most 28 digits.\<close>

lemma align_dvd_iff:
  assumes "e \<le> dexp a" "e \<le> dexp b"
  shows "align e b dvd align e a \<longleftrightarrow> (\<exists>n. dval a = of_int n * dval b)"
proof -
  have "dval a = of_int n * dval b \<longleftrightarrow> align e a = n * align e b" for n
  proof -
    have "dval a = of_int n * dval b \<longleftrightarrow>
        of_int (align e a) * (10::rat) powi e = of_int (n * align e b) * 10 powi e"
      unfolding align_value [OF assms(1), symmetric] align_value [OF assms(2), symmetric]
        of_int_mult mult.assoc ..
    also have "\<dots> \<longleftrightarrow> align e a = n * align e b"
      by (simp only: mult_right_cancel [OF powi10_nz] of_int_eq_iff)
    finally show ?thesis .
  qed
  then show ?thesis by (auto simp: dvd_def mult.commute)
qed

lemma drem_zero:
  assumes "drem a b = Inr r"
  shows "deq r 0 \<longleftrightarrow> (\<exists>n. dval a = of_int n * dval b)"
proof -
  define e where "e = min (dexp a) (dexp b)"
  have r: "r = dfix (Dec (sgn (coef a) * (\<bar>align e a\<bar> mod \<bar>align e b\<bar>)) e)"
    using assms by (auto simp: drem_def Let_def e_def split: if_splits)
  have "deq r 0 \<longleftrightarrow> sgn (coef a) * (\<bar>align e a\<bar> mod \<bar>align e b\<bar>) = 0"
    unfolding r deq_iff by simp
  also have "\<dots> \<longleftrightarrow> align e b dvd align e a"
    by (cases "coef a = 0") (auto simp: align_def sgn_if mod_eq_0_iff_dvd)
  also have "\<dots> \<longleftrightarrow> (\<exists>n. dval a = of_int n * dval b)"
    by (intro align_dvd_iff) (auto simp: e_def)
  finally show ?thesis .
qed

lemma int_div_less_iff: "0 < y \<Longrightarrow> x div y < m \<longleftrightarrow> x < m * y" for x y m :: int
proof
  assume y: "0 < y" and "x div y < m"
  then have "x div y + 1 \<le> m" by simp
  then have "(x div y + 1) * y \<le> m * y" using y by (simp only: mult_le_cancel_right_pos)
  moreover have "x < (x div y + 1) * y"
    using pos_mod_bound [OF y, of x] div_mult_mod_eq [of x y] by (simp only: distrib_right mult_1)
  ultimately show "x < m * y" by simp
next
  assume y: "0 < y" and "x < m * y"
  show "x div y < m"
  proof (rule ccontr)
    assume "\<not> x div y < m"
    then have "m * y \<le> x div y * y" using y by simp
    also have "\<dots> \<le> x" using y pos_mod_sign [OF y, of x] div_mult_mod_eq [of x y] by linarith
    finally show False using \<open>x < m * y\<close> by simp
  qed
qed

lemma drem_ok_iff:
  assumes "0 < dval b" "0 \<le> dval a"
  shows "ok (drem a b) \<longleftrightarrow> dval a < 10 ^ prec * dval b"
proof -
  define e where "e = min (dexp a) (dexp b)"
  have pos: "0 < align e b" "0 \<le> align e a"
    using assms by (auto simp: align_def dval_coef)
  have "ok (drem a b) \<longleftrightarrow> align e a div align e b < 10 ^ prec"
    using assms pos by (auto simp: drem_def Let_def e_def [symmetric] dval_coef)
  also have "\<dots> \<longleftrightarrow> align e a < 10 ^ prec * align e b"
    by (rule int_div_less_iff [OF pos(1)])
  also have "\<dots> \<longleftrightarrow> of_int (align e a) * (10::rat) powi e < of_int (10 ^ prec * align e b) * 10 powi e"
    by (simp only: of_int_less_iff mult_less_cancel_right_pos [OF powi10_pos])
  also have "\<dots> \<longleftrightarrow> dval a < 10 ^ prec * dval b"
    unfolding of_int_mult mult.assoc by (simp add: align_value e_def)
  finally show ?thesis .
qed

section \<open>Evaluation\<close>

text \<open>
  \<open>simp add: dec_eval\<close> evaluates closed decimal terms. The simplifier evaluates arguments before
  it unfolds a function, so each \<open>let\<close> of the definitions becomes an argument of an auxiliary
  function here; digits are counted against powers of ten and zeros stripped in halving blocks.
\<close>

function digits_from :: "nat \<Rightarrow> int \<Rightarrow> nat \<Rightarrow> int" where
  "digits_from p k n = (if n < p \<or> p = 0 then k else digits_from (10 * p) (k + 1) n)"
  by pat_completeness auto
termination
  by (relation "measure (\<lambda>(p, k, n). Suc n - p)") auto

declare digits_from.simps [simp del]

lemma digits_from_eq: "0 < j \<Longrightarrow> j \<le> ndigits n \<Longrightarrow> digits_from (10 ^ j) (int j) n = int (ndigits n)"
proof (induction "ndigits n - j" arbitrary: j)
  case 0
  then have "n < 10 ^ j" using ndigits_le_iff [of j n] by simp
  with 0 show ?case by (simp add: digits_from.simps)
next
  case (Suc d)
  then have "\<not> n < 10 ^ j"
    by (metis diff_is_0_eq ndigits_le_iff nat.distinct(1))
  then have "digits_from (10 ^ j) (int j) n = digits_from (10 ^ Suc j) (int (Suc j)) n"
    by (subst digits_from.simps) (simp add: add.commute)
  also have "\<dots> = int (ndigits n)" using Suc.hyps Suc.prems by (intro Suc.hyps) auto
  finally show ?case .
qed

lemma ndigits_eval: "ndigits n = nat (digits_from 10 1 n)"
  using digits_from_eq [of 1 n] ndigits_pos [of n] by simp

definition rhe_at :: "nat \<Rightarrow> nat \<Rightarrow> nat \<Rightarrow> nat" where
  "rhe_at q r d = (if 2 * r < d \<or> 2 * r = d \<and> even q then q else q + 1)"

lemma rhe_eval: "rhe n d = rhe_at (n div d) (n mod d) d"
  by (simp add: rhe_def rhe_at_def Let_def)

definition dfix_carry :: "int \<Rightarrow> int \<Rightarrow> nat \<Rightarrow> decimal" where
  "dfix_carry sg e q =
     (if 10 ^ 28 \<le> q then Dec (sg * int (q div 10)) (e + 1) else Dec (sg * int q) e)"

definition dfix_long :: "int \<Rightarrow> int \<Rightarrow> nat \<Rightarrow> decimal" where
  "dfix_long c e s = dfix_carry (sgn c) (e + int s) (rhe (nat \<bar>c\<bar>) (10 ^ s))"

lemma dfix_eval:
  "dfix (Dec c e) =
     (if \<bar>c\<bar> < 10 ^ 28 then Dec c e else dfix_long c e (ndigits (nat \<bar>c\<bar>) - 28))"
proof (cases "\<bar>c\<bar> < 10 ^ 28")
  case True
  then show ?thesis using dfix_id [of "Dec c e"] by (simp add: prec_def)
next
  case False
  then have "10 ^ 28 \<le> nat \<bar>c\<bar>"
    by (metis linorder_not_le nat_le_iff nat_less_iff of_nat_numeral of_nat_power abs_ge_zero)
  then have nd: "\<not> ndigits (nat \<bar>c\<bar>) \<le> 28" by (simp add: ndigits_le_iff)
  show ?thesis
    unfolding dfix_def Let_def dfix_long_def dfix_carry_def prec_def decimal.sel
      if_not_P [OF nd] if_not_P [OF False]
    by (simp add: ndigits_gt_iff)
qed

definition strip_block :: "nat \<Rightarrow> nat \<times> int \<Rightarrow> int \<Rightarrow> nat \<times> int" where
  "strip_block k p i =
     (if snd p + int k \<le> i \<and> fst p mod 10 ^ k = 0 then (fst p div 10 ^ k, snd p + int k) else p)"

lemma strip_zeros_step:
  "e < i \<Longrightarrow> q mod 10 = 0 \<Longrightarrow> strip_zeros q e i = strip_zeros (q div 10) (e + 1) i"
  by (subst strip_zeros.simps) simp

lemma strip_zeros_block:
  "e + int k \<le> i \<Longrightarrow> q mod 10 ^ k = 0 \<Longrightarrow>
   strip_zeros q e i = strip_zeros (q div 10 ^ k) (e + int k) i"
proof (induction k arbitrary: q e)
  case 0
  then show ?case by simp
next
  case (Suc k)
  have dv: "10 * 10 ^ k dvd q" using Suc.prems(2) by (simp add: mod_eq_0_iff_dvd)
  then have "10 dvd q" by (rule dvd_mult_left)
  then have "strip_zeros q e i = strip_zeros (q div 10) (e + 1) i"
    using Suc.prems(1) by (intro strip_zeros_step) auto
  also have "\<dots> = strip_zeros (q div 10 div 10 ^ k) (e + 1 + int k) i"
    using Suc.prems(1) dv
    by (intro Suc.IH) (auto simp: mod_eq_0_iff_dvd elim!: dvdE)
  finally show ?case by (simp add: div_mult2_eq add.assoc)
qed

lemma strip_block_eq: "strip_zeros (fst (strip_block k p i)) (snd (strip_block k p i)) i = strip_zeros (fst p) (snd p) i"
  using strip_zeros_block [of "snd p" k i "fst p"] by (simp add: strip_block_def)

definition strip_rest :: "nat \<times> int \<Rightarrow> int \<Rightarrow> nat \<times> int" where
  "strip_rest p i = strip_zeros (fst p) (snd p) i"

lemma strip_eval:
  "strip_zeros q e i =
     strip_rest (strip_block 1 (strip_block 2 (strip_block 4 (strip_block 8
       (strip_block 16 (q, e) i) i) i) i) i) i"
  unfolding strip_rest_def strip_block_eq by simp

lemma strip_rest_eval:
  "strip_rest (q, e) i =
     (if e < i \<and> q mod 10 = 0 then strip_rest (q div 10, e + 1) i else (q, e))"
  unfolding strip_rest_def by (subst strip_zeros.simps) simp

definition dquot_round :: "int \<Rightarrow> int \<Rightarrow> int \<Rightarrow> nat \<Rightarrow> nat \<Rightarrow> decimal" where
  "dquot_round sg e ideal q r =
     (if r \<noteq> 0 then dfix (Dec (sg * int (if q mod 5 = 0 then q + 1 else q)) e)
      else case strip_zeros q e ideal of (q', e') \<Rightarrow> dfix (Dec (sg * int q') e'))"

definition dquot_at :: "int \<Rightarrow> int \<Rightarrow> int \<Rightarrow> nat \<Rightarrow> nat \<Rightarrow> decimal" where
  "dquot_at sg e ideal num den = dquot_round sg e ideal (num div den) (num mod den)"

definition dquot_shift :: "int \<Rightarrow> int \<Rightarrow> int \<Rightarrow> int \<Rightarrow> decimal" where
  "dquot_shift ca cb ideal shift =
     dquot_at (sgn ca * sgn cb) (ideal - shift) ideal
       (nat \<bar>ca\<bar> * 10 ^ nat shift) (nat \<bar>cb\<bar> * 10 ^ nat (- shift))"

lemma dquot_eval:
  "dquot (Dec ca ea) (Dec cb eb) =
     (if ca = 0 then Dec 0 (ea - eb)
      else dquot_shift ca cb (ea - eb)
             (int (ndigits (nat \<bar>cb\<bar>)) - int (ndigits (nat \<bar>ca\<bar>)) + 29))"
proof -
  have eq: "x + int 28 + 1 = x + 29" for x by simp
  show ?thesis
    unfolding dquot_def Let_def dquot_shift_def dquot_at_def dquot_round_def prec_def decimal.sel eq
    ..
qed

definition isqrt_next :: "nat \<Rightarrow> nat \<Rightarrow> nat" where
  "isqrt_next r n = (if (r + 1) * (r + 1) \<le> n then r + 1 else r)"

lemma isqrt_eval: "isqrt n = (if n = 0 then 0 else isqrt_next (2 * isqrt (n div 4)) n)"
  by (subst isqrt.simps) (simp add: isqrt_next_def Let_def)

definition dsqrt_round :: "bool \<Rightarrow> int \<Rightarrow> int \<Rightarrow> nat \<Rightarrow> nat \<Rightarrow> decimal result" where
  "dsqrt_round exact e shift c r =
     (if exact \<and> r * r = c
      then Inr (dfix (Dec (int (if 0 \<le> shift then r div 10 ^ nat shift
                                else r * 10 ^ nat (- shift))) e))
      else Inr (dfix (Dec (int (if r mod 5 = 0 then r + 1 else r)) (e - shift))))"

definition dsqrt_root :: "bool \<Rightarrow> int \<Rightarrow> int \<Rightarrow> nat \<Rightarrow> decimal result" where
  "dsqrt_root exact e shift c = dsqrt_round exact e shift c (isqrt c)"

definition dsqrt_shift :: "int \<Rightarrow> nat \<Rightarrow> int \<Rightarrow> decimal result" where
  "dsqrt_shift e c shift =
     dsqrt_root (0 \<le> shift \<or> c mod 100 ^ nat (- shift) = 0) e shift
       (if 0 \<le> shift then c * 100 ^ nat shift else c div 100 ^ nat (- shift))"

lemma dsqrt_eval:
  "dsqrt (Dec c e) =
     (if c < 0 then Inl (Exc ArithmeticError ''InvalidOperation'')
      else if c = 0 then Inr (Dec 0 (e div 2))
      else dsqrt_shift (e div 2) (if odd e then nat c * 10 else nat c)
             (29 - int (if odd e then ndigits (nat c) div 2 + 1 else (ndigits (nat c) + 1) div 2)))"
proof -
  have eq: "int 28 + 1 = 29" by simp
  show ?thesis
    unfolding dsqrt_def Let_def dsqrt_shift_def dsqrt_root_def dsqrt_round_def prec_def
      decimal.sel eq ..
qed

text \<open>Sums, products and comparisons, with the alignment written on the components.\<close>

lemma arith_eval:
  "Dec a i + Dec b j = dfix (Dec (a * 10 ^ nat (i - min i j) + b * 10 ^ nat (j - min i j)) (min i j))"
  "Dec a i - Dec b j = dfix (Dec (a * 10 ^ nat (i - min i j) - b * 10 ^ nat (j - min i j)) (min i j))"
  "Dec a i * Dec b j = dfix (Dec (a * b) (i + j))"
  "- Dec a i = dfix (Dec (- a) i)"
  "dabs (Dec a i) = dfix (Dec \<bar>a\<bar> i)"
  "Dec a i \<le> Dec b j \<longleftrightarrow> a * 10 ^ nat (i - min i j) \<le> b * 10 ^ nat (j - min i j)"
  "Dec a i < Dec b j \<longleftrightarrow> a * 10 ^ nat (i - min i j) < b * 10 ^ nat (j - min i j)"
  "deq (Dec a i) (Dec b j) \<longleftrightarrow> a * 10 ^ nat (i - min i j) = b * 10 ^ nat (j - min i j)"
  by (simp_all add: plus_decimal_def minus_decimal_def times_decimal_def uminus_decimal_def
      dabs_def less_eq_decimal_def less_decimal_def deq_def align_def Let_def)

lemma ddiv_eval:
  "ddiv a (Dec cb eb) =
     (if cb = 0 then Inl (Exc ArithmeticError ''DivisionByZero'') else Inr (dquot a (Dec cb eb)))"
  by (simp add: ddiv_def)

definition drem_at :: "int \<Rightarrow> int \<Rightarrow> int \<Rightarrow> int \<Rightarrow> decimal result" where
  "drem_at sg e x y =
     (if x div y < 10 ^ 28 then Inr (dfix (Dec (sg * (x mod y)) e))
      else Inl (Exc ArithmeticError ''InvalidOperation''))"

lemma drem_eval:
  "drem (Dec a i) (Dec b j) =
     (if b = 0 then Inl (Exc ArithmeticError ''InvalidOperation'')
      else drem_at (sgn a) (min i j) \<bar>a * 10 ^ nat (i - min i j)\<bar> \<bar>b * 10 ^ nat (j - min i j)\<bar>)"
  unfolding drem_def drem_at_def Let_def align_def prec_def decimal.sel ..

named_theorems dec_eval "evaluation of closed decimal terms"

lemmas [dec_eval] =
  zero_decimal_def one_decimal_def arith_eval ddiv_eval dquot_eval dquot_shift_def dquot_at_def
  dquot_round_def drem_eval drem_at_def dsqrt_eval dsqrt_shift_def dsqrt_root_def dsqrt_round_def
  isqrt_eval isqrt_next_def dmin_def dmax_def dfix_eval dfix_long_def dfix_carry_def rhe_eval
  rhe_at_def ndigits_eval digits_from.simps strip_eval strip_block_def strip_rest_eval

lemma decimal_examples:
  "Dec 1 0 + Dec 25 (- 1) = Dec 35 (- 1)"
  "Dec 1 0 - Dec 5 (- 30) = Dec 1000000000000000000000000000 (- 27)"
  "dquot (Dec 1 0) (Dec 3 0) = Dec 3333333333333333333333333333 (- 28)"
  "dquot (Dec 10 0) (Dec 4 0) = Dec 25 (- 1)"
  "dsqrt (Dec 225 (- 2)) = Inr (Dec 15 (- 1))"
  "drem (Dec 105 (- 1)) (Dec 4 0) = Inr (Dec 25 (- 1))"
  "deq (Dec 10 (- 1)) (Dec 1 0)"
  by (simp_all add: dec_eval)

section \<open>Special values\<close>

text \<open>
  Where the source produces an infinity or tests \<open>is_finite()\<close>, a value is one of Python's four
  kinds. \<open>xgt x d\<close> is \<open>x > d\<close> for a finite \<open>d\<close> and an \<open>x\<close> that is not a NaN.
\<close>

datatype xdecimal = Finite (finite_part: decimal) | PosInf | NegInf | NaN

fun is_finite :: "xdecimal \<Rightarrow> bool" where
  "is_finite (Finite _) = True"
| "is_finite _ = False"

fun xgt :: "xdecimal \<Rightarrow> decimal \<Rightarrow> bool" where
  "xgt (Finite x) d = (d < x)"
| "xgt PosInf d = True"
| "xgt NegInf d = False"
| "xgt NaN d = False"

text \<open>\<open>a < b\<close> of two decimals; \<open>None\<close> where the comparison raises, on a NaN.\<close>

fun x_less :: "xdecimal \<Rightarrow> xdecimal \<Rightarrow> bool option" where
  "x_less NaN _ = None"
| "x_less _ NaN = None"
| "x_less (Finite a) (Finite b) = Some (a < b)"
| "x_less PosInf _ = Some False"
| "x_less _ NegInf = Some False"
| "x_less _ _ = Some True"

end
