(* ===== verification/Domain.thy ===== *)
theory Domain
  imports PyDecimal
begin

text \<open>
  The contracts of \<open>domain.py\<close>, shared by research, risk and paper execution: enumerations,
  records with the source's fields (prefixed by the record's initials), and the computed
  properties. Identifiers (\<open>UUID\<close>) are numbers; fresh ones and clock readings are arguments.
\<close>

type_synonym uuid = nat

section \<open>Enumerations\<close>

datatype asset_class = EQUITY | ETF | FOREX | COMMODITY | CRYPTO

datatype signal_status = CANDIDATE | VALIDATED | BLOCKED_BY_RISK | BLOCKED_BY_DATA | SIGNAL_EXPIRED

datatype order_side = BUY | SELL

datatype order_status =
    PROPOSED
  | RISK_PENDING
  | RISK_REJECTED
  | APPROVED
  | SUBMISSION_PENDING
  | SUBMITTED
  | ACKNOWLEDGED
  | PARTIALLY_FILLED
  | FILLED
  | CANCEL_PENDING
  | CANCELLED
  | REJECTED
  | EXPIRED
  | UNKNOWN
  | RECONCILIATION_REQUIRED

datatype risk_decision_type = APPROVE | REJECT

datatype data_processing_status = RAW | DATA_VALIDATED | DATA_REJECTED

section \<open>Records\<close>

record instrument =
  ins_instrument_id :: string
  ins_symbol :: string
  ins_venue :: string
  ins_asset_class :: asset_class
  ins_quote_currency :: string
  ins_tick_size :: decimal
  ins_lot_size :: decimal
  ins_delisted_at :: "datetime option"

record market_snapshot =
  ms_instrument_id :: string
  ms_observed_at :: datetime
  ms_bid :: decimal
  ms_ask :: decimal
  ms_last :: decimal
  ms_data_quality_score :: decimal

text \<open>\<open>MarketSnapshot.spread_fraction\<close>: infinite on a crossed or non-positive quote.\<close>

definition spread_fraction :: "market_snapshot \<Rightarrow> xdecimal" where
  "spread_fraction m =
     (if ms_bid m \<le> 0 \<or> ms_ask m < ms_bid m then PosInf
      else Finite (dquot (ms_ask m - ms_bid m) (ms_ask m)))"

record ohlcv_bar =
  bar_instrument_id :: string
  bar_interval :: string
  bar_event_at :: datetime
  bar_effective_at :: datetime
  bar_ingested_at :: datetime
  bar_open :: decimal
  bar_high :: decimal
  bar_low :: decimal
  bar_close :: decimal
  bar_volume :: decimal
  bar_provider :: string
  bar_source_identifier :: string
  bar_original_timezone :: string
  bar_revision :: int
  bar_data_version :: string
  bar_quality_score :: decimal
  bar_processing_status :: data_processing_status

record signal =
  sig_signal_id :: uuid
  sig_instrument_id :: string
  sig_strategy_version :: string
  sig_status :: signal_status
  sig_created_at :: datetime
  sig_expires_at :: datetime
  sig_data_quality_score :: decimal
  sig_direction :: order_side
  sig_explanation :: string
  sig_entry_low :: "decimal option"
  sig_entry_high :: "decimal option"
  sig_stop_level :: "decimal option"

text \<open>\<open>Signal.is_expired\<close>, with the clock reading it takes.\<close>

definition is_expired :: "signal \<Rightarrow> datetime \<Rightarrow> bool" where
  "is_expired s now = (instant (sig_expires_at s) \<le> instant now)"

record order_intent =
  oi_intent_id :: uuid
  oi_signal_id :: uuid
  oi_instrument_id :: string
  oi_account_id :: string
  oi_side :: order_side
  oi_quantity :: decimal
  oi_limit_price :: decimal
  oi_created_at :: datetime

definition notional :: "order_intent \<Rightarrow> decimal" where
  "notional i = oi_quantity i * oi_limit_price i"

text \<open>Dataclass equality: fields compare by Python's \<open>==\<close>, decimals by value, times by instant.\<close>

definition intent_eq :: "order_intent \<Rightarrow> order_intent \<Rightarrow> bool" where
  "intent_eq a b \<longleftrightarrow>
     oi_intent_id a = oi_intent_id b \<and> oi_signal_id a = oi_signal_id b \<and>
     oi_instrument_id a = oi_instrument_id b \<and> oi_account_id a = oi_account_id b \<and>
     oi_side a = oi_side b \<and> deq (oi_quantity a) (oi_quantity b) \<and>
     deq (oi_limit_price a) (oi_limit_price b) \<and>
     aware (oi_created_at a) = aware (oi_created_at b) \<and>
     instant (oi_created_at a) = instant (oi_created_at b)"

record risk_policy =
  rp_minimum_data_quality :: decimal
  rp_maximum_spread_fraction :: decimal
  rp_maximum_order_notional :: decimal
  rp_maximum_position_notional :: decimal
  rp_maximum_daily_order_notional :: decimal
  rp_maximum_event_risk :: decimal
  rp_maximum_expected_slippage_fraction :: decimal
  rp_max_market_age_seconds :: int
  rp_maximum_per_trade_loss :: "xdecimal option"
  rp_maximum_stop_distance_fraction :: "xdecimal option"
  rp_stop_gap_buffer_fraction :: "xdecimal option"

text \<open>\<open>RiskPolicy()\<close> with its defaults.\<close>

definition default_risk_policy :: risk_policy where
  "default_risk_policy = \<lparr>
     rp_minimum_data_quality = Dec 95 (- 2),
     rp_maximum_spread_fraction = Dec 1 (- 2),
     rp_maximum_order_notional = Dec 10000 0,
     rp_maximum_position_notional = Dec 25000 0,
     rp_maximum_daily_order_notional = Dec 50000 0,
     rp_maximum_event_risk = Dec 50 (- 2),
     rp_maximum_expected_slippage_fraction = Dec 2 (- 2),
     rp_max_market_age_seconds = 60,
     rp_maximum_per_trade_loss = None,
     rp_maximum_stop_distance_fraction = None,
     rp_stop_gap_buffer_fraction = None\<rparr>"

definition per_trade_controls_configured :: "risk_policy \<Rightarrow> bool" where
  "per_trade_controls_configured p \<longleftrightarrow>
     rp_maximum_per_trade_loss p \<noteq> None \<and> rp_maximum_stop_distance_fraction p \<noteq> None \<and>
     rp_stop_gap_buffer_fraction p \<noteq> None"

record portfolio_state =
  ps_account_id :: string
  ps_position_notionals :: "(string, decimal) dict"
  ps_reconciliation_complete :: bool
  ps_risk_increase_allowed :: bool

definition position_notional :: "portfolio_state \<Rightarrow> string \<Rightarrow> decimal" where
  "position_notional p i = dict_get_or (ps_position_notionals p) i (Dec 0 0)"

record risk_decision =
  rd_decision_id :: uuid
  rd_intent_id :: uuid
  rd_decision :: risk_decision_type
  rd_reasons :: "string list"
  rd_decided_at :: datetime

text \<open>\<open>RiskDecision.create\<close>, with the fresh identifier and the clock reading it takes.\<close>

definition create_risk_decision ::
  "uuid \<Rightarrow> datetime \<Rightarrow> uuid \<Rightarrow> risk_decision_type \<Rightarrow> string list \<Rightarrow> risk_decision" where
  "create_risk_decision new_id now intent_id decision reasons = \<lparr>
     rd_decision_id = new_id, rd_intent_id = intent_id, rd_decision = decision,
     rd_reasons = reasons, rd_decided_at = now\<rparr>"

section \<open>Facts\<close>

lemma intent_eq_refl [simp]: "intent_eq i i"
  by (simp add: intent_eq_def)

lemma intent_eq_sym: "intent_eq i j \<Longrightarrow> intent_eq j i"
  by (auto simp: intent_eq_def deq_sym)

lemma intent_eq_trans: "intent_eq i j \<Longrightarrow> intent_eq j k \<Longrightarrow> intent_eq i k"
  by (auto simp: intent_eq_def dec_order)

text \<open>A spread fraction, where finite, is not negative; with an ask of at most 28 digits it is at most one.\<close>

lemma spread_fraction_cases:
  "spread_fraction m = PosInf \<or>
   (\<exists>f. spread_fraction m = Finite f \<and> 0 < dval (ms_bid m) \<and> dval (ms_bid m) \<le> dval (ms_ask m) \<and>
     0 \<le> dval f \<and> (representable (dval (ms_ask m)) \<longrightarrow> dval f \<le> 1))"
proof (cases "ms_bid m \<le> 0 \<or> ms_ask m < ms_bid m")
  case True
  then show ?thesis by (simp add: spread_fraction_def)
next
  case False
  then have q: "0 < dval (ms_bid m)" "dval (ms_bid m) \<le> dval (ms_ask m)"
    by (auto simp: dec_order)
  define f where "f = dquot (ms_ask m - ms_bid m) (ms_ask m)"
  have "dval f \<le> 1" if r: "representable (dval (ms_ask m))"
  proof -
    have "dval (ms_ask m - ms_bid m) \<le> dval (ms_ask m)" using q by (intro minus_le r) auto
    then show ?thesis unfolding f_def using q by (intro dquot_le) auto
  qed
  moreover have "0 \<le> dval f" unfolding f_def using q by simp
  moreover have "spread_fraction m = Finite f" using False by (simp add: spread_fraction_def f_def)
  ultimately show ?thesis using q by blast
qed

end
