(* ===== verification/DecimalText.thy ===== *)
theory DecimalText
  imports PyDecimal
begin

text \<open>
  The text of a decimal, \<open>str(Decimal)\<close>, and its constructor from text, \<open>Decimal(str)\<close>: the form in
  which the stores keep amounts. Both are the documented algorithms of the \<open>decimal\<close> module; the sign
  of a zero is not kept. The round trip is the main lemma.
\<close>

section \<open>Digits\<close>

definition digit_char :: "nat \<Rightarrow> char" where
  "digit_char k = char_of (48 + k)"

definition char_digit :: "char \<Rightarrow> nat" where
  "char_digit c = of_char c - 48"

definition is_digit :: "char \<Rightarrow> bool" where
  "is_digit c \<longleftrightarrow> 48 \<le> (of_char c :: nat) \<and> (of_char c :: nat) \<le> 57"

fun nat_str :: "nat \<Rightarrow> string" where
  "nat_str n = (if n < 10 then [digit_char n] else nat_str (n div 10) @ [digit_char (n mod 10)])"

declare nat_str.simps [simp del]

definition digits_value :: "string \<Rightarrow> nat" where
  "digits_value s = foldl (\<lambda>a c. a * 10 + char_digit c) 0 s"

lemma of_digit_char: "k < 10 \<Longrightarrow> (of_char (digit_char k) :: nat) = 48 + k"
  by (simp add: digit_char_def of_char_of)

lemma char_digit_char [simp]: "k < 10 \<Longrightarrow> char_digit (digit_char k) = k"
  by (simp add: char_digit_def of_digit_char)

lemma is_digit_char [simp]: "k < 10 \<Longrightarrow> is_digit (digit_char k)"
  by (simp add: is_digit_def of_digit_char)

lemma digits_value_snoc [simp]: "digits_value (s @ [c]) = digits_value s * 10 + char_digit c"
  by (simp add: digits_value_def)

lemma digits_value_Nil [simp]: "digits_value [] = 0"
  by (simp add: digits_value_def)

lemma nat_str_value [simp]: "digits_value (nat_str n) = n"
proof (induction n rule: nat_str.induct)
  case (1 n)
  show ?case
  proof (cases "n < 10")
    case True
    then show ?thesis by (subst nat_str.simps) (simp add: digits_value_def)
  next
    case False
    then show ?thesis using 1 by (subst nat_str.simps) simp
  qed
qed

lemma nat_str_digits: "\<forall>c \<in> set (nat_str n). is_digit c"
proof (induction n rule: nat_str.induct)
  case (1 n)
  show ?case
  proof (cases "n < 10")
    case True
    then show ?thesis by (subst nat_str.simps) simp
  next
    case False
    then show ?thesis using 1 by (subst nat_str.simps) simp
  qed
qed

lemma nat_str_ne [simp]: "nat_str n \<noteq> []"
  by (subst nat_str.simps) simp

lemma digits_value_zeros: "digits_value (replicate k (digit_char 0) @ s) = digits_value s"
proof -
  have "foldl (\<lambda>a c. a * 10 + char_digit c) 0 (replicate k (digit_char 0)) = 0"
    by (induction k) simp_all
  then show ?thesis by (simp add: digits_value_def)
qed

section \<open>Printing\<close>

text \<open>\<open>str(d)\<close>: the scientific string, with an exponent when there are trailing or many leading zeros.\<close>

definition signed_str :: "int \<Rightarrow> string" where
  "signed_str n = (if n < 0 then CHR ''-'' else CHR ''+'') # nat_str (nat \<bar>n\<bar>)"

definition dec_str :: "decimal \<Rightarrow> string" where
  "dec_str d =
     (let digits = nat_str (nat \<bar>coef d\<bar>);
          n = int (length digits);
          leftdigits = dexp d + n;
          dotplace = (if dexp d \<le> 0 \<and> - 6 < leftdigits then leftdigits else 1);
          intpart = (if dotplace \<le> 0 then [digit_char 0]
                     else if n \<le> dotplace then digits @ replicate (nat (dotplace - n)) (digit_char 0)
                     else take (nat dotplace) digits);
          fracpart = (if dotplace \<le> 0 then replicate (nat (- dotplace)) (digit_char 0) @ digits
                      else if n \<le> dotplace then [] else drop (nat dotplace) digits);
          expo = (if leftdigits = dotplace then []
                  else CHR ''E'' # signed_str (leftdigits - dotplace))
      in (if coef d < 0 then ''-'' else []) @ intpart @
         (if fracpart = [] then [] else CHR ''.'' # fracpart) @ expo)"

section \<open>Parsing\<close>

definition parse_sign :: "string \<Rightarrow> bool \<times> string" where
  "parse_sign s =
     (case s of [] \<Rightarrow> (False, [])
      | c # r \<Rightarrow> if c = CHR ''-'' then (True, r) else if c = CHR ''+'' then (False, r) else (False, s))"

definition parse_exponent :: "string \<Rightarrow> int option" where
  "parse_exponent s =
     (case s of [] \<Rightarrow> Some 0
      | c # r \<Rightarrow>
          if c \<noteq> CHR ''E'' \<and> c \<noteq> CHR ''e'' then None
          else case parse_sign r of
            (neg, ds) \<Rightarrow>
              if ds = [] \<or> \<not> list_all is_digit ds then None
              else Some ((if neg then - 1 else 1) * int (digits_value ds)))"

definition parse_number :: "bool \<Rightarrow> string \<Rightarrow> decimal option" where
  "parse_number neg s =
     (let ip = takeWhile is_digit s;
          rest = dropWhile is_digit s;
          dotted = (case rest of c # r \<Rightarrow> c = CHR ''.'' | [] \<Rightarrow> False);
          fp = (if dotted then takeWhile is_digit (tl rest) else []);
          tail = (if dotted then dropWhile is_digit (tl rest) else rest)
      in if ip @ fp = [] then None
         else case parse_exponent tail of
           None \<Rightarrow> None
         | Some x \<Rightarrow> Some (Dec ((if neg then - 1 else 1) * int (digits_value (ip @ fp)))
                              (x - int (length fp))))"

definition lower :: "char \<Rightarrow> char" where
  "lower c = (let n = of_char c :: nat in if 65 \<le> n \<and> n \<le> 90 then char_of (n + 32) else c)"

definition parse_special :: "bool \<Rightarrow> string \<Rightarrow> xdecimal option" where
  "parse_special neg s =
     (let l = map lower s
      in if l = ''inf'' \<or> l = ''infinity'' then Some (if neg then NegInf else PosInf)
         else if list_all is_digit (drop 3 l) \<and> take 3 l = ''nan'' \<or>
                 list_all is_digit (drop 4 l) \<and> take 4 l = ''snan'' then Some NaN
         else None)"

text \<open>\<open>Decimal(s)\<close>: \<open>None\<close> is the \<open>InvalidOperation\<close> of malformed text.\<close>

definition dec_parse :: "string \<Rightarrow> xdecimal option" where
  "dec_parse s =
     (case parse_sign (filter (\<lambda>c. c \<noteq> CHR ''_'') (strip s)) of
        (neg, r) \<Rightarrow> (case parse_number neg r of
                      Some d \<Rightarrow> Some (Finite d)
                    | None \<Rightarrow> parse_special neg r))"

section \<open>The round trip\<close>

definition numeral_char :: "char \<Rightarrow> bool" where
  "numeral_char c \<longleftrightarrow> is_digit c \<or> c \<in> {CHR ''-'', CHR ''+'', CHR ''.'', CHR ''E''}"

lemma numeral_char_not:
  assumes "numeral_char c"
  shows "\<not> is_space c" "c \<noteq> CHR ''_''"
  using assms by (auto simp: numeral_char_def is_digit_def is_space_def)

lemma strip_numeral:
  assumes "\<forall>c \<in> set s. numeral_char c"
  shows "filter (\<lambda>c. c \<noteq> CHR ''_'') (strip s) = s"
proof -
  have d: "dropWhile is_space t = t" if "\<forall>c \<in> set t. numeral_char c" for t
    using that by (cases t) (auto dest: numeral_char_not)
  have "strip s = s"
    unfolding strip_def using d [OF assms] d [of "rev s"] assms by simp
  then show ?thesis using assms by (auto simp: filter_id_conv dest: numeral_char_not)
qed

lemma parse_exponent_signed:
  "parse_exponent (CHR ''E'' # signed_str x) = Some x"
  using nat_str_digits [of "nat \<bar>x\<bar>"]
  by (auto simp: parse_exponent_def signed_str_def parse_sign_def list_all_iff)

lemma takeWhile_digits:
  assumes "\<forall>c \<in> set ds. is_digit c" and "r = [] \<or> \<not> is_digit (hd r)"
  shows "takeWhile is_digit (ds @ r) = ds" "dropWhile is_digit (ds @ r) = r"
  using assms by (cases r; simp add: takeWhile_append2 dropWhile_append2)+

lemma sign_chars_not_digit [simp]:
  "\<not> is_digit (CHR ''E'')" "\<not> is_digit (CHR ''.'')" "\<not> is_digit (CHR ''-'')" "\<not> is_digit (CHR ''+'')"
  by (simp_all add: is_digit_def)

lemma parse_number_parts:
  assumes "ip \<noteq> []" "\<forall>c \<in> set ip. is_digit c" "\<forall>c \<in> set fp. is_digit c"
    and "ex = [] \<and> x = 0 \<or> ex = CHR ''E'' # signed_str x"
  shows "parse_number neg (ip @ (if fp = [] then [] else CHR ''.'' # fp) @ ex) =
    Some (Dec ((if neg then - 1 else 1) * int (digits_value (ip @ fp))) (x - int (length fp)))"
proof -
  have ex: "parse_exponent ex = Some x" "ex = [] \<or> \<not> is_digit (hd ex)" "ex \<noteq> [] \<longrightarrow> hd ex \<noteq> CHR ''.''"
    using assms(4) parse_exponent_signed [of x] by (auto simp: parse_exponent_def)
  show ?thesis
  proof (cases "fp = []")
    case True
    then show ?thesis
      using takeWhile_digits [OF assms(2) ex(2)] ex assms(1)
      by (auto simp: parse_number_def Let_def split: list.splits)
  next
    case False
    have "takeWhile is_digit (ip @ CHR ''.'' # fp @ ex) = ip"
      "dropWhile is_digit (ip @ CHR ''.'' # fp @ ex) = CHR ''.'' # fp @ ex"
      using takeWhile_digits [OF assms(2), of "CHR ''.'' # fp @ ex"] by simp_all
    then show ?thesis
      using takeWhile_digits [OF assms(3) ex(2)] ex(1) assms(1) False
      by (simp add: parse_number_def Let_def)
  qed
qed

lemma parse_sign_digit:
  "s \<noteq> [] \<Longrightarrow> is_digit (hd s) \<Longrightarrow> parse_sign s = (False, s)"
  by (cases s) (auto simp: parse_sign_def)

lemma dec_str_parts:
  "\<exists>ip fp ex x. dec_str d = (if coef d < 0 then ''-'' else []) @ ip @
       (if fp = [] then [] else CHR ''.'' # fp) @ ex \<and>
     ip \<noteq> [] \<and> (\<forall>c \<in> set ip. is_digit c) \<and> (\<forall>c \<in> set fp. is_digit c) \<and>
     (ex = [] \<and> x = 0 \<or> ex = CHR ''E'' # signed_str x) \<and>
     int (digits_value (ip @ fp)) = \<bar>coef d\<bar> \<and> x - int (length fp) = dexp d"
proof -
  define digits where "digits = nat_str (nat \<bar>coef d\<bar>)"
  define n where "n = int (length digits)"
  define left where "left = dexp d + n"
  define place where "place = (if dexp d \<le> 0 \<and> - 6 < left then left else 1)"
  define ip where "ip = (if place \<le> 0 then [digit_char 0]
      else if n \<le> place then digits @ replicate (nat (place - n)) (digit_char 0)
      else take (nat place) digits)"
  define fp where "fp = (if place \<le> 0 then replicate (nat (- place)) (digit_char 0) @ digits
      else if n \<le> place then [] else drop (nat place) digits)"
  define ex where "ex = (if left = place then [] else CHR ''E'' # signed_str (left - place))"
  have ds: "\<forall>c \<in> set digits. is_digit c" "digits_value digits = nat \<bar>coef d\<bar>" "0 < n"
    using nat_str_digits by (auto simp: digits_def n_def)
  have n0: "n \<le> place \<Longrightarrow> place = n" using ds(3) by (auto simp: place_def left_def)
  have str: "dec_str d = (if coef d < 0 then ''-'' else []) @ ip @
       (if fp = [] then [] else CHR ''.'' # fp) @ ex"
    unfolding dec_str_def Let_def ip_def fp_def ex_def place_def left_def n_def digits_def ..
  have one: "ip \<noteq> [] \<and> (\<forall>c \<in> set ip. is_digit c) \<and> (\<forall>c \<in> set fp. is_digit c)"
    using ds by (auto simp: ip_def fp_def n_def dest: in_set_takeD in_set_dropD)
  have vals: "digits_value (ip @ fp) = digits_value digits"
    using n0 digits_value_zeros [of "Suc (nat (- place))" digits]
    by (auto simp: ip_def fp_def)
  have len: "int (length fp) = n - place"
    using n0 by (auto simp: fp_def n_def)
  show ?thesis
    by (rule exI [of _ ip], rule exI [of _ fp], rule exI [of _ ex], rule exI [of _ "left - place"])
      (use str one vals ds(2) len in \<open>auto simp: ex_def left_def\<close>)
qed

theorem dec_parse_str [simp]: "dec_parse (dec_str d) = Some (Finite d)"
proof -
  obtain ip fp ex x where p: "dec_str d = (if coef d < 0 then ''-'' else []) @ ip @
       (if fp = [] then [] else CHR ''.'' # fp) @ ex"
     "ip \<noteq> []" "\<forall>c \<in> set ip. is_digit c" "\<forall>c \<in> set fp. is_digit c"
     "ex = [] \<and> x = 0 \<or> ex = CHR ''E'' # signed_str x"
     "int (digits_value (ip @ fp)) = \<bar>coef d\<bar>" "x - int (length fp) = dexp d"
    using dec_str_parts [of d] by blast
  have "\<forall>c \<in> set ex. numeral_char c"
    using p(5) nat_str_digits by (auto simp: signed_str_def numeral_char_def split: if_splits)
  then have st: "filter (\<lambda>c. c \<noteq> CHR ''_'') (strip (dec_str d)) = dec_str d"
    using p(3,4) by (intro strip_numeral) (auto simp: p(1) numeral_char_def)
  have "is_digit (hd ip)" using p(2,3) by auto
  then have sg: "parse_sign (dec_str d) = (coef d < 0, ip @ (if fp = [] then [] else CHR ''.'' # fp) @ ex)"
    unfolding p(1) using p(2) by (cases "coef d < 0") (simp add: parse_sign_def, simp add: parse_sign_digit)
  have "parse_number (coef d < 0) (ip @ (if fp = [] then [] else CHR ''.'' # fp) @ ex) =
      Some (Dec (coef d) (dexp d))"
    unfolding parse_number_parts [OF p(2-5)] p(6,7) by simp
  then show ?thesis by (simp add: dec_parse_def st sg)
qed

text \<open>Two decimals have the same text exactly when digits and exponent agree, not when they are equal.\<close>

lemma dec_str_inject: "dec_str a = dec_str b \<longleftrightarrow> a = b"
  by (metis dec_parse_str option.inject xdecimal.inject)

end
