(* ===== verification/PerTradeRisk.thy ===== *)
theory PerTradeRisk
  imports Domain DecimalText
begin

text \<open>
  The per-trade part of \<open>risk.py\<close>: the evidence of a protective stop (loss at the stop and loss at
  the stop moved by the policy's gap buffer), its payload, and the evaluation of an intent.
\<close>

section \<open>Evidence\<close>

record per_trade_evidence =
  pte_entry_price :: decimal
  pte_stop_price :: decimal
  pte_stop_distance_fraction :: decimal
  pte_loss_at_stop :: decimal
  pte_gap_buffer_fraction :: decimal
  pte_gap_adjusted_stop_price :: decimal
  pte_gap_adjusted_loss :: decimal
  pte_maximum_per_trade_loss :: decimal
  pte_maximum_stop_distance_fraction :: decimal

text \<open>\<open>__post_init__\<close> of finite values.\<close>

definition evidence_valid :: "per_trade_evidence \<Rightarrow> bool" where
  "evidence_valid e \<longleftrightarrow>
     \<not> (pte_entry_price e \<le> 0 \<or> pte_stop_price e \<le> 0 \<or> pte_gap_adjusted_stop_price e \<le> 0 \<or>
        pte_loss_at_stop e < 0 \<or> pte_gap_adjusted_loss e < 0 \<or> pte_maximum_per_trade_loss e \<le> 0 \<or>
        \<not> 0 \<le> pte_stop_distance_fraction e \<or>
        \<not> (0 \<le> pte_gap_buffer_fraction e \<and> pte_gap_buffer_fraction e < 1) \<or>
        \<not> (0 < pte_maximum_stop_distance_fraction e \<and> pte_maximum_stop_distance_fraction e \<le> 1))"

definition make_evidence :: "per_trade_evidence \<Rightarrow> per_trade_evidence result" where
  "make_evidence e =
     (if evidence_valid e then Inr e else Inl (Exc ValueError ''invalid_per_trade_risk_evidence''))"

text \<open>The field names, in the order of the dataclass.\<close>

definition evidence_fields :: "string list" where
  "evidence_fields =
     [''entry_price'', ''stop_price'', ''stop_distance_fraction'', ''loss_at_stop'',
      ''gap_buffer_fraction'', ''gap_adjusted_stop_price'', ''gap_adjusted_loss'',
      ''maximum_per_trade_loss'', ''maximum_stop_distance_fraction'']"

definition evidence_values :: "per_trade_evidence \<Rightarrow> decimal list" where
  "evidence_values e =
     [pte_entry_price e, pte_stop_price e, pte_stop_distance_fraction e, pte_loss_at_stop e,
      pte_gap_buffer_fraction e, pte_gap_adjusted_stop_price e, pte_gap_adjusted_loss e,
      pte_maximum_per_trade_loss e, pte_maximum_stop_distance_fraction e]"

definition evidence_to_payload :: "per_trade_evidence \<Rightarrow> (string, string) dict" where
  "evidence_to_payload e = zip evidence_fields (map dec_str (evidence_values e))"

text \<open>
  \<open>from_payload\<close>, on the texts of the payload's values: a missing name, malformed text, an infinity
  or NaN, and an inconsistent value all end in the same \<open>ValueError\<close>.
\<close>

fun finite_of :: "xdecimal \<Rightarrow> decimal option" where
  "finite_of (Finite d) = Some d"
| "finite_of _ = None"

definition evidence_of_values :: "xdecimal list \<Rightarrow> per_trade_evidence result" where
  "evidence_of_values xs =
     (case those (map finite_of xs) of
        Some [a, b, c, d, e, f, g, h, i] \<Rightarrow>
          make_evidence \<lparr>
            pte_entry_price = a, pte_stop_price = b, pte_stop_distance_fraction = c,
            pte_loss_at_stop = d, pte_gap_buffer_fraction = e, pte_gap_adjusted_stop_price = f,
            pte_gap_adjusted_loss = g, pte_maximum_per_trade_loss = h,
            pte_maximum_stop_distance_fraction = i\<rparr>
      | _ \<Rightarrow> Inl (Exc ValueError ''invalid_per_trade_risk_evidence''))"

definition evidence_from_payload :: "(string, string) dict \<Rightarrow> per_trade_evidence result" where
  "evidence_from_payload payload =
     (case those (map (\<lambda>name. Option.bind (dict_get payload name) dec_parse) evidence_fields) of
        None \<Rightarrow> Inl (Exc ValueError ''invalid_per_trade_risk_evidence'')
      | Some xs \<Rightarrow> evidence_of_values xs)"

section \<open>Evaluation\<close>

text \<open>The reasons collected once the evidence is built.\<close>

definition entry_range_reasons :: "order_intent \<Rightarrow> signal \<Rightarrow> string list" where
  "entry_range_reasons intent s =
     (case (sig_entry_low s, sig_entry_high s) of
        (None, None) \<Rightarrow> []
      | (Some low, Some high) \<Rightarrow>
          if low \<le> 0 \<or> high < low then [''signal_entry_range_invalid'']
          else if \<not> (low \<le> oi_limit_price intent \<and> oi_limit_price intent \<le> high)
          then [''intent_outside_signal_entry_range''] else []
      | _ \<Rightarrow> [''signal_entry_range_incomplete''])"

definition stop_wrong_side :: "order_side \<Rightarrow> decimal \<Rightarrow> decimal \<Rightarrow> bool" where
  "stop_wrong_side side stop_price entry_price =
     (if side = BUY then entry_price \<le> stop_price else stop_price \<le> entry_price)"

definition gap_adjusted_stop :: "order_side \<Rightarrow> decimal \<Rightarrow> decimal \<Rightarrow> decimal" where
  "gap_adjusted_stop side stop_price gap_buffer =
     (if side = BUY then stop_price * (1 - gap_buffer) else stop_price * (1 + gap_buffer))"

definition per_trade_evidence_of ::
  "order_intent \<Rightarrow> decimal \<Rightarrow> decimal \<Rightarrow> decimal \<Rightarrow> decimal \<Rightarrow> per_trade_evidence" where
  "per_trade_evidence_of intent stop_price maximum_loss maximum_distance gap_buffer =
     (let entry_price = oi_limit_price intent;
          stop_distance = dabs (entry_price - stop_price);
          gap_stop = gap_adjusted_stop (oi_side intent) stop_price gap_buffer
      in \<lparr>pte_entry_price = entry_price, pte_stop_price = stop_price,
          pte_stop_distance_fraction = dquot stop_distance entry_price,
          pte_loss_at_stop = stop_distance * oi_quantity intent,
          pte_gap_buffer_fraction = gap_buffer, pte_gap_adjusted_stop_price = gap_stop,
          pte_gap_adjusted_loss = dabs (entry_price - gap_stop) * oi_quantity intent,
          pte_maximum_per_trade_loss = maximum_loss,
          pte_maximum_stop_distance_fraction = maximum_distance\<rparr>)"

definition per_trade_reasons :: "order_intent \<Rightarrow> signal \<Rightarrow> per_trade_evidence \<Rightarrow> string list" where
  "per_trade_reasons intent s e =
     (if sig_direction s \<noteq> oi_side intent then [''signal_order_direction_mismatch''] else []) @
     entry_range_reasons intent s @
     (if stop_wrong_side (oi_side intent) (pte_stop_price e) (pte_entry_price e)
      then [''protective_stop_wrong_side''] else []) @
     (if pte_maximum_stop_distance_fraction e < pte_stop_distance_fraction e
      then [''stop_distance_limit''] else []) @
     (if pte_maximum_per_trade_loss e < pte_loss_at_stop e then [''per_trade_loss_limit''] else []) @
     (if pte_maximum_per_trade_loss e < pte_gap_adjusted_loss e
      then [''per_trade_gap_loss_limit''] else [])"

definition per_trade_policy_valid :: "decimal \<Rightarrow> decimal \<Rightarrow> decimal \<Rightarrow> bool" where
  "per_trade_policy_valid maximum_loss maximum_distance gap_buffer \<longleftrightarrow>
     \<not> (maximum_loss \<le> 0 \<or> \<not> (0 < maximum_distance \<and> maximum_distance \<le> 1) \<or>
        \<not> (0 \<le> gap_buffer \<and> gap_buffer < 1))"

definition evaluate_configured ::
  "order_intent \<Rightarrow> signal \<Rightarrow> decimal \<Rightarrow> decimal \<Rightarrow> decimal \<Rightarrow> (per_trade_evidence option \<times> string list) result" where
  "evaluate_configured intent s maximum_loss maximum_distance gap_buffer =
     (if \<not> per_trade_policy_valid maximum_loss maximum_distance gap_buffer
      then Inr (None, [''per_trade_risk_policy_invalid''])
      else case sig_stop_level s of
        None \<Rightarrow> Inr (None, [''protective_stop_required''])
      | Some stop_price \<Rightarrow>
          if stop_price \<le> 0 then Inr (None, [''protective_stop_required''])
          else if oi_limit_price intent \<le> 0 \<or> oi_quantity intent \<le> 0 then Inr (None, [])
          else bind_result
            (make_evidence (per_trade_evidence_of intent stop_price maximum_loss maximum_distance gap_buffer))
            (\<lambda>e. Inr (Some e, per_trade_reasons intent s e)))"

definition evaluate_per_trade_risk ::
  "order_intent \<Rightarrow> signal \<Rightarrow> risk_policy \<Rightarrow> (per_trade_evidence option \<times> string list) result" where
  "evaluate_per_trade_risk intent s policy =
     (case (rp_maximum_per_trade_loss policy, rp_maximum_stop_distance_fraction policy,
            rp_stop_gap_buffer_fraction policy) of
        (None, None, None) \<Rightarrow> Inr (None, [])
      | (Some (Finite l), Some (Finite d), Some (Finite g)) \<Rightarrow> evaluate_configured intent s l d g
      | (Some _, Some _, Some _) \<Rightarrow> Inr (None, [''per_trade_risk_policy_invalid''])
      | _ \<Rightarrow> Inr (None, [''per_trade_risk_policy_incomplete'']))"

section \<open>Facts\<close>

lemma make_evidence_Inr: "make_evidence e = Inr f \<longleftrightarrow> evidence_valid e \<and> f = e"
  by (auto simp: make_evidence_def)

lemma dval_one_minus_pos: "dval g < 1 \<Longrightarrow> 0 < dval (1 - g)"
  by simp

text \<open>The evaluation never trips over the evidence's own checks.\<close>

lemma gap_adjusted_stop_pos:
  "0 < stop \<Longrightarrow> 0 \<le> g \<Longrightarrow> g < 1 \<Longrightarrow> 0 < gap_adjusted_stop side stop g"
  by (simp add: gap_adjusted_stop_def dec_order add_pos_nonneg)

lemma per_trade_evidence_of_valid:
  assumes "per_trade_policy_valid l d g" "0 < stop" "0 < oi_limit_price i" "0 < oi_quantity i"
  shows "evidence_valid (per_trade_evidence_of i stop l d g)"
proof -
  have "0 < gap_adjusted_stop (oi_side i) stop g"
    using assms(1,2) by (intro gap_adjusted_stop_pos) (auto simp: per_trade_policy_valid_def)
  moreover have "0 \<le> dabs x * oi_quantity i" for x using assms(4) by (simp add: dec_order)
  moreover have "0 \<le> dquot (dabs x) (oi_limit_price i)" for x using assms(3) by (simp add: dec_order)
  ultimately show ?thesis
    using assms by (auto simp: evidence_valid_def per_trade_evidence_of_def Let_def per_trade_policy_valid_def)
qed

lemma evaluate_configured_eq:
  "evaluate_configured i s l d g =
   Inr (if \<not> per_trade_policy_valid l d g then (None, [''per_trade_risk_policy_invalid''])
        else case sig_stop_level s of
          None \<Rightarrow> (None, [''protective_stop_required''])
        | Some stop \<Rightarrow>
            if stop \<le> 0 then (None, [''protective_stop_required''])
            else if oi_limit_price i \<le> 0 \<or> oi_quantity i \<le> 0 then (None, [])
            else (let e = per_trade_evidence_of i stop l d g in (Some e, per_trade_reasons i s e)))"
proof (cases "per_trade_policy_valid l d g \<and> (\<exists>stop. sig_stop_level s = Some stop \<and> 0 < stop) \<and>
    0 < oi_limit_price i \<and> 0 < oi_quantity i")
  case True
  then show ?thesis
    using per_trade_evidence_of_valid [of l d g _ i]
    by (auto simp: evaluate_configured_def make_evidence_def Let_def)
next
  case False
  then show ?thesis
    by (auto simp: evaluate_configured_def Let_def split: option.splits)
qed

lemma evaluate_per_trade_total: "\<exists>r. evaluate_per_trade_risk i s p = Inr r"
  by (auto simp: evaluate_per_trade_risk_def evaluate_configured_eq split: option.splits xdecimal.splits)

text \<open>Losses are at least the stop's when the gap widens it.\<close>

lemma gap_loss_ge_stop_loss:
  assumes "per_trade_policy_valid l d g" "0 < stop" "0 < oi_quantity i" "representable (dval stop)"
    and "\<not> stop_wrong_side (oi_side i) stop (oi_limit_price i)"
  shows "pte_loss_at_stop (per_trade_evidence_of i stop l d g) \<le>
         pte_gap_adjusted_loss (per_trade_evidence_of i stop l d g)"
proof -
  let ?p = "oi_limit_price i" and ?g = "gap_adjusted_stop (oi_side i) stop g"
  have g: "0 \<le> dval g" "dval g < 1" and st: "0 < dval stop" and q: "0 < dval (oi_quantity i)"
    using assms(1-3) by (auto simp: per_trade_policy_valid_def dec_order)
  have "\<bar>dval (?p - stop)\<bar> \<le> \<bar>dval (?p - ?g)\<bar>"
  proof (cases "oi_side i")
    case BUY
    have "dval (1 - g) \<le> 1" using g by (intro minus_le) auto
    then have "dval stop * dval (1 - g) \<le> dval stop" using st g by (simp add: mult_left_le)
    then have "dval ?g \<le> dval stop"
      unfolding gap_adjusted_stop_def BUY by (simp add: times_le [OF assms(4)])
    then have "dval (?p - stop) \<le> dval (?p - ?g)" by (intro minus_mono) auto
    moreover have "0 \<le> dval (?p - stop)" using assms(5) BUY by (simp add: stop_wrong_side_def dec_order)
    ultimately show ?thesis by linarith
  next
    case SELL
    have "1 \<le> dval (1 + g)" using g by (intro plus_ge) auto
    then have "dval stop \<le> dval stop * dval (1 + g)" using st by simp
    then have "dval stop \<le> dval ?g"
      unfolding gap_adjusted_stop_def SELL by (simp add: times_ge [OF assms(4)])
    then have "dval (?p - ?g) \<le> dval (?p - stop)" by (intro minus_mono) auto
    moreover have "dval (?p - stop) \<le> 0" using assms(5) SELL by (simp add: stop_wrong_side_def dec_order)
    ultimately show ?thesis by linarith
  qed
  then have "dval (dabs (?p - stop)) \<le> dval (dabs (?p - ?g))" by (rule dabs_mono)
  then show ?thesis
    using q by (simp add: per_trade_evidence_of_def Let_def dle_iff times_mono)
qed

lemma those_map_Some: "those (map (\<lambda>x. Some (f x)) xs) = Some (map f xs)"
  by (induction xs) simp_all

lemma evidence_values_of:
  "evidence_of_values (map Finite (evidence_values e)) = make_evidence e"
  by (cases e) (simp add: evidence_values_def evidence_of_values_def)

lemma evidence_payload_lookup:
  "map (\<lambda>name. Option.bind (dict_get (evidence_to_payload e) name) dec_parse) evidence_fields =
   map Some (map Finite (evidence_values e))"
  by (simp add: evidence_to_payload_def evidence_fields_def evidence_values_def)

lemma evidence_payload_inverse: "evidence_from_payload (evidence_to_payload e) = make_evidence e"
  unfolding evidence_from_payload_def evidence_payload_lookup
  by (simp add: those_map_Some evidence_values_of [symmetric] del: map_map)

section \<open>Properties\<close>

text \<open>
  C23: evidence survives its payload: reading back the texts written by \<open>to_payload\<close> gives the same
  evidence, digit for digit, exactly when it is valid, and the named error otherwise.
\<close>

theorem evidence_payload_round_trip:
  "evidence_from_payload (evidence_to_payload e) = make_evidence e"
  by (rule evidence_payload_inverse)

text \<open>
  With the three controls configured, the evaluation returns evidence and no reason exactly when
  the policy is valid, the stop is positive and strictly on the protective side of a positive entry,
  signal and order agree in direction, the entry lies in the signal's range when one is given, the stop
  is near enough, and the loss at the stop and the loss at the gap-adjusted stop are within the limit.
\<close>

theorem per_trade_risk_passes_iff:
  assumes "rp_maximum_per_trade_loss p = Some (Finite l)"
    and "rp_maximum_stop_distance_fraction p = Some (Finite d)"
    and "rp_stop_gap_buffer_fraction p = Some (Finite g)"
  shows "(\<exists>e. evaluate_per_trade_risk i s p = Inr (Some e, [])) \<longleftrightarrow>
    0 < l \<and> 0 < d \<and> d \<le> 1 \<and> 0 \<le> g \<and> g < 1 \<and> 0 < oi_limit_price i \<and> 0 < oi_quantity i \<and>
    sig_direction s = oi_side i \<and>
    (sig_entry_low s = None \<and> sig_entry_high s = None \<or>
     (\<exists>low high. sig_entry_low s = Some low \<and> sig_entry_high s = Some high \<and> 0 < low \<and>
        low \<le> oi_limit_price i \<and> oi_limit_price i \<le> high)) \<and>
    (\<exists>stop. sig_stop_level s = Some stop \<and> 0 < stop \<and>
       (if oi_side i = BUY then stop < oi_limit_price i else oi_limit_price i < stop) \<and>
       dquot (dabs (oi_limit_price i - stop)) (oi_limit_price i) \<le> d \<and>
       dabs (oi_limit_price i - stop) * oi_quantity i \<le> l \<and>
       dabs (oi_limit_price i - gap_adjusted_stop (oi_side i) stop g) * oi_quantity i \<le> l)"
    (is "?ev \<longleftrightarrow> ?rhs")
proof -
  have r: "entry_range_reasons i s = [] \<longleftrightarrow>
    (sig_entry_low s = None \<and> sig_entry_high s = None \<or>
     (\<exists>low high. sig_entry_low s = Some low \<and> sig_entry_high s = Some high \<and> 0 < low \<and>
        low \<le> oi_limit_price i \<and> oi_limit_price i \<le> high))"
    by (auto simp: entry_range_reasons_def dec_order split: option.splits)
  have ev: "evaluate_per_trade_risk i s p = evaluate_configured i s l d g"
    by (simp add: evaluate_per_trade_risk_def assms)
  have "?ev \<longleftrightarrow> per_trade_policy_valid l d g \<and> 0 < oi_limit_price i \<and> 0 < oi_quantity i \<and>
      (\<exists>stop. sig_stop_level s = Some stop \<and> 0 < stop \<and>
        per_trade_reasons i s (per_trade_evidence_of i stop l d g) = [])"
    unfolding ev evaluate_configured_eq
    by (cases "sig_stop_level s") (auto simp: Let_def split: if_splits)
  also have "\<dots> \<longleftrightarrow> ?rhs"
    by (cases "sig_stop_level s")
      (auto simp: per_trade_policy_valid_def per_trade_reasons_def r per_trade_evidence_of_def Let_def
        stop_wrong_side_def split: if_splits)
  finally show ?thesis .
qed

definition sample_signal :: signal where
  "sample_signal = \<lparr>sig_signal_id = 2, sig_instrument_id = ''BTC'', sig_strategy_version = ''v1'',
     sig_status = VALIDATED, sig_created_at = Aware 0 0, sig_expires_at = Aware 100000000 0,
     sig_data_quality_score = Dec 99 (- 2), sig_direction = BUY, sig_explanation = ''x'',
     sig_entry_low = Some (Dec 95 0), sig_entry_high = Some (Dec 105 0), sig_stop_level = Some (Dec 90 0)\<rparr>"

definition sample_buy :: order_intent where
  "sample_buy = \<lparr>oi_intent_id = 1, oi_signal_id = 2, oi_instrument_id = ''BTC'', oi_account_id = ''acc'',
     oi_side = BUY, oi_quantity = Dec 10 0, oi_limit_price = Dec 100 0, oi_created_at = Aware 0 0\<rparr>"

definition stop_policy :: risk_policy where
  "stop_policy = default_risk_policy\<lparr>rp_maximum_per_trade_loss := Some (Finite (Dec 200 0)),
     rp_maximum_stop_distance_fraction := Some (Finite (Dec 2 (- 1))),
     rp_stop_gap_buffer_fraction := Some (Finite (Dec 1 (- 1)))\<rparr>"

theorem per_trade_risk_passes_iff_witness:
  "\<exists>e. evaluate_per_trade_risk sample_buy sample_signal stop_policy = Inr (Some e, [])"
proof -
  have p: "rp_maximum_per_trade_loss stop_policy = Some (Finite (Dec 200 0))"
    "rp_maximum_stop_distance_fraction stop_policy = Some (Finite (Dec 2 (- 1)))"
    "rp_stop_gap_buffer_fraction stop_policy = Some (Finite (Dec 1 (- 1)))"
    by (simp_all add: stop_policy_def)
  show ?thesis
    by (rule iffD2 [OF per_trade_risk_passes_iff [OF p]])
      (simp add: sample_buy_def sample_signal_def gap_adjusted_stop_def dec_eval)
qed

text \<open>
  C24: a trade that passes loses, when it is filled at its limit price and stopped out anywhere between
  the stop and the gap-adjusted stop, no more than the policy's maximum per trade (in the rounded
  arithmetic of the evidence, and for a stop of at most 28 digits).
\<close>

theorem per_trade_loss_bounded:
  assumes "evaluate_per_trade_risk i s p = Inr (Some e, [])"
    and "representable (dval (pte_stop_price e))"
    and "if oi_side i = BUY then pte_gap_adjusted_stop_price e \<le> x \<and> x \<le> pte_stop_price e
         else pte_stop_price e \<le> x \<and> x \<le> pte_gap_adjusted_stop_price e"
  shows "dabs (oi_limit_price i - x) * oi_quantity i \<le> pte_maximum_per_trade_loss e"
proof -
  obtain l d g where c: "rp_maximum_per_trade_loss p = Some (Finite l)"
    "rp_maximum_stop_distance_fraction p = Some (Finite d)"
    "rp_stop_gap_buffer_fraction p = Some (Finite g)" "evaluate_configured i s l d g = Inr (Some e, [])"
    using assms(1) by (auto simp: evaluate_per_trade_risk_def split: option.splits xdecimal.splits)
  obtain stop where st: "sig_stop_level s = Some stop" "e = per_trade_evidence_of i stop l d g"
    "per_trade_policy_valid l d g" "0 < stop" "0 < oi_quantity i" "per_trade_reasons i s e = []"
    using c(4) unfolding evaluate_configured_eq by (auto simp: Let_def split: if_splits option.splits)
  let ?g = "pte_gap_adjusted_stop_price e" and ?p = "oi_limit_price i"
  have side: "\<not> stop_wrong_side (oi_side i) stop ?p"
    and lim: "dabs (?p - ?g) * oi_quantity i \<le> pte_maximum_per_trade_loss e"
    using st(6) unfolding st(2) by (auto simp: per_trade_reasons_def per_trade_evidence_of_def Let_def split: if_splits)
  have e: "pte_stop_price e = stop" by (simp add: st(2) per_trade_evidence_of_def Let_def)
  have "\<bar>dval (?p - x)\<bar> \<le> \<bar>dval (?p - ?g)\<bar>"
  proof (cases "oi_side i")
    case BUY
    then have "0 \<le> dval (?p - x)" "dval (?p - x) \<le> dval (?p - ?g)"
      using assms(3) side e by (auto simp: stop_wrong_side_def dec_order intro: minus_mono)
    then show ?thesis by linarith
  next
    case SELL
    then have "dval (?p - x) \<le> 0" "dval (?p - ?g) \<le> dval (?p - x)"
      using assms(3) side e by (auto simp: stop_wrong_side_def dec_order intro: minus_mono)
    then show ?thesis by linarith
  qed
  then have "dabs (?p - x) * oi_quantity i \<le> dabs (?p - ?g) * oi_quantity i"
    unfolding dle_iff using st(5) by (intro times_mono dabs_mono) (auto simp: dec_order)
  then show ?thesis using lim order_trans by blast
qed

theorem per_trade_loss_bounded_witness:
  "dabs (Dec 100 0 - Dec 85 0) * Dec 10 0 \<le> Dec 200 0"
proof -
  let ?e = "per_trade_evidence_of sample_buy (Dec 90 0) (Dec 200 0) (Dec 2 (- 1)) (Dec 1 (- 1))"
  have v: "evaluate_per_trade_risk sample_buy sample_signal stop_policy = Inr (Some ?e, [])"
    by (simp add: evaluate_per_trade_risk_def stop_policy_def evaluate_configured_eq sample_signal_def
        sample_buy_def per_trade_policy_valid_def per_trade_evidence_of_def per_trade_reasons_def
        entry_range_reasons_def stop_wrong_side_def gap_adjusted_stop_def Let_def dec_eval)
  have r: "representable (dval (pte_stop_price ?e))"
    using representable_int [of 90 0] by (simp add: per_trade_evidence_of_def Let_def prec_def)
  have x: "if oi_side sample_buy = BUY then pte_gap_adjusted_stop_price ?e \<le> Dec 85 0 \<and> Dec 85 0 \<le> pte_stop_price ?e
      else pte_stop_price ?e \<le> Dec 85 0 \<and> Dec 85 0 \<le> pte_gap_adjusted_stop_price ?e"
    by (simp add: per_trade_evidence_of_def sample_buy_def gap_adjusted_stop_def Let_def dec_eval)
  show ?thesis
    using per_trade_loss_bounded [OF v r x]
    by (simp add: per_trade_evidence_of_def sample_buy_def Let_def)
qed

end
