(* ===== verification/RiskLedgers.thy ===== *)
theory RiskLedgers
  imports Domain DecimalText "HOL-Library.Product_Lexorder"
begin

text \<open>
  The ledgers of \<open>risk.py\<close> that make assessments happen once and keep the daily budget: claims of
  intent identifiers and reservations of daily notional, each in memory and in SQLite, and the SQLite
  store of decisions. Each pair of ledgers is an interpretation of one locale.
\<close>

section \<open>Idempotency claims\<close>

definition mem_claim :: "uuid \<Rightarrow> (uuid set, bool) operation" where
  "mem_claim intent_id seen =
     (if intent_id \<in> seen then (Inr False, seen) else (Inr True, insert intent_id seen))"

text \<open>Rows \<open>(intent_id, claimed_at)\<close>; the primary key refuses a second row of an intent.\<close>

definition sql_claim :: "datetime \<Rightarrow> uuid \<Rightarrow> ((uuid \<times> datetime) list, bool) operation" where
  "sql_claim now intent_id rows =
     (if intent_id \<in> fst ` set rows then (Inr False, rows)
      else (Inr True, rows @ [(intent_id, now)]))"

text \<open>Claims in turn, with the answers they give.\<close>

fun claim_all :: "('e \<Rightarrow> uuid \<Rightarrow> ('s, bool) operation) \<Rightarrow> ('e \<times> uuid) list \<Rightarrow> 's \<Rightarrow> bool result list" where
  "claim_all f [] s = []"
| "claim_all f ((e, i) # xs) s = (case f e i s of (r, t) \<Rightarrow> r # claim_all f xs t)"

locale idempotency_ledger =
  fixes claim :: "'e \<Rightarrow> uuid \<Rightarrow> ('s, bool) operation"
    and claimed :: "'s \<Rightarrow> uuid set"
  assumes claim_law: "claim e i s = (r, t) \<Longrightarrow>
    r = Inr (i \<notin> claimed s) \<and> claimed t = insert i (claimed s)"
begin

text \<open>The n-th claim is granted exactly when its identifier was neither there nor claimed before.\<close>

lemma claim_all_nth:
  "n < length xs \<Longrightarrow> claim_all claim xs s ! n =
   Inr (snd (xs ! n) \<notin> claimed s \<and> snd (xs ! n) \<notin> snd ` set (take n xs))"
proof (induction xs arbitrary: n s)
  case Nil
  then show ?case by simp
next
  case (Cons x xs)
  obtain e i where x: "x = (e, i)" by (cases x)
  obtain r t where t: "claim e i s = (r, t)" by (cases "claim e i s")
  from claim_law [OF t] have l: "r = Inr (i \<notin> claimed s)" "claimed t = insert i (claimed s)" by auto
  show ?case
    using Cons.prems Cons.IH [of _ t] by (cases n) (auto simp: x t l)
qed

end

interpretation mem_claims: idempotency_ledger "\<lambda>_. mem_claim" "\<lambda>s. s"
  by unfold_locales (auto simp: mem_claim_def split: if_splits)

interpretation sql_claims: idempotency_ledger sql_claim "\<lambda>rows. fst ` set rows"
  by unfold_locales (auto simp: sql_claim_def split: if_splits)

section \<open>Daily notional\<close>

record daily_notional =
  dn_reserved :: "(string \<times> int, decimal) dict"
  dn_intent_ids :: "uuid set"

definition mem_reserve :: "int \<Rightarrow> decimal \<Rightarrow> order_intent \<Rightarrow> (daily_notional, bool) operation" where
  "mem_reserve day maximum intent s =
     (if oi_intent_id intent \<in> dn_intent_ids s then (Inr False, s)
      else
        let key = (oi_account_id intent, day);
            total = dict_get_or (dn_reserved s) key (Dec 0 0)
        in if maximum < total + notional intent then (Inr False, s)
           else (Inr True, s\<lparr>dn_reserved := dict_set key (total + notional intent) (dn_reserved s),
                              dn_intent_ids := insert (oi_intent_id intent) (dn_intent_ids s)\<rparr>))"

text \<open>
  Rows of \<open>risk_daily_notional\<close> in insertion order, amounts as text. A transaction that raises
  is rolled back.
\<close>

record notional_row =
  nr_intent_id :: uuid
  nr_account_id :: string
  nr_trading_day :: int
  nr_notional :: string

definition read_decimal :: "string \<Rightarrow> decimal option" where
  "read_decimal s = (case dec_parse s of Some (Finite d) \<Rightarrow> Some d | _ \<Rightarrow> None)"

definition reserved_rows :: "string \<Rightarrow> int \<Rightarrow> notional_row list \<Rightarrow> notional_row list" where
  "reserved_rows account day rows =
     filter (\<lambda>r. nr_account_id r = account \<and> nr_trading_day r = day) rows"

definition sql_reserve :: "int \<Rightarrow> decimal \<Rightarrow> order_intent \<Rightarrow> (notional_row list, bool) operation" where
  "sql_reserve day maximum intent rows =
     (if maximum \<le> 0 then (Inl (Exc ValueError ''daily_notional_limit_must_be_positive''), rows)
      else
        let existing = oi_intent_id intent \<in> nr_intent_id ` set rows in
        case those (map (\<lambda>r. read_decimal (nr_notional r))
                     (reserved_rows (oi_account_id intent) day rows)) of
          None \<Rightarrow> (Inl (Exc ArithmeticError ''InvalidOperation''), rows)
        | Some amounts \<Rightarrow>
            if existing \<or> maximum < dsum amounts + notional intent then (Inr False, rows)
            else (Inr True, rows @ [\<lparr>nr_intent_id = oi_intent_id intent,
                                     nr_account_id = oi_account_id intent, nr_trading_day = day,
                                     nr_notional = dec_str (notional intent)\<rparr>]))"

text \<open>Reservations in turn, each with its day and limit, with the answers they give.\<close>

fun reserve_all ::
  "(int \<Rightarrow> decimal \<Rightarrow> order_intent \<Rightarrow> ('s, bool) operation) \<Rightarrow>
   (int \<times> decimal \<times> order_intent) list \<Rightarrow> 's \<Rightarrow> bool result list \<times> 's" where
  "reserve_all f [] s = ([], s)"
| "reserve_all f ((d, m, i) # xs) s =
     (case f d m i s of (r, t) \<Rightarrow> case reserve_all f xs t of (rs, u) \<Rightarrow> (r # rs, u))"

locale daily_ledger =
  fixes reserve :: "int \<Rightarrow> decimal \<Rightarrow> order_intent \<Rightarrow> ('s, bool) operation"
    and total :: "'s \<Rightarrow> string \<times> int \<Rightarrow> decimal"
    and ids :: "'s \<Rightarrow> uuid set"
    and inv :: "'s \<Rightarrow> bool"
  assumes reserve_law: "inv s \<Longrightarrow> 0 < m \<Longrightarrow> reserve d m i s = (r, t) \<Longrightarrow>
    (let k = (oi_account_id i, d); granted = (oi_intent_id i \<notin> ids s \<and> total s k + notional i \<le> m)
     in r = Inr granted \<and> inv t \<and>
        (if granted then ids t = insert (oi_intent_id i) (ids s) \<and>
                         total t = (total s)(k := total s k + notional i)
         else t = s))"
begin

text \<open>Under one limit, no account's reservations of a day ever exceed it.\<close>

lemma budget:
  assumes "inv s" and "0 < m" and "\<forall>x \<in> set xs. fst (snd x) = m" and "\<forall>k. total s k \<le> m"
  shows "inv (snd (reserve_all reserve xs s)) \<and> (\<forall>k. total (snd (reserve_all reserve xs s)) k \<le> m)"
  using assms
proof (induction xs arbitrary: s)
  case Nil
  then show ?case by simp
next
  case (Cons x xs)
  obtain d i where x: "x = (d, m, i)" using Cons.prems(3) by (cases x) auto
  obtain r t where t: "reserve d m i s = (r, t)" by (cases "reserve d m i s")
  have "inv t \<and> (\<forall>k. total t k \<le> m)"
    using reserve_law [OF Cons.prems(1,2) t] Cons.prems(4) by (auto simp: Let_def split: if_splits)
  then have "inv (snd (reserve_all reserve xs t)) \<and> (\<forall>k. total (snd (reserve_all reserve xs t)) k \<le> m)"
    using Cons.prems(2,3) by (intro Cons.IH) auto
  then show ?case by (cases "reserve_all reserve xs t") (auto simp: x t)
qed

end

text \<open>Two ledgers that keep the interface answer alike.\<close>

locale daily_ledger_pair =
  a: daily_ledger reserve_a total_a ids_a inv_a + b: daily_ledger reserve_b total_b ids_b inv_b
  for reserve_a :: "int \<Rightarrow> decimal \<Rightarrow> order_intent \<Rightarrow> ('s, bool) operation"
    and total_a :: "'s \<Rightarrow> string \<times> int \<Rightarrow> decimal" and ids_a inv_a
    and reserve_b :: "int \<Rightarrow> decimal \<Rightarrow> order_intent \<Rightarrow> ('t, bool) operation"
    and total_b :: "'t \<Rightarrow> string \<times> int \<Rightarrow> decimal" and ids_b inv_b
begin

lemma answers_agree:
  assumes "inv_a s" "inv_b t" "ids_a s = ids_b t" "total_a s = total_b t"
    and "\<forall>x \<in> set xs. 0 < fst (snd x)"
  shows "fst (reserve_all reserve_a xs s) = fst (reserve_all reserve_b xs t) \<and>
    total_a (snd (reserve_all reserve_a xs s)) = total_b (snd (reserve_all reserve_b xs t))"
  using assms
proof (induction xs arbitrary: s t)
  case Nil
  then show ?case by simp
next
  case (Cons x xs)
  obtain d m i where x: "x = (d, m, i)" by (cases x)
  obtain r u where u: "reserve_a d m i s = (r, u)" by (cases "reserve_a d m i s")
  obtain q v where v: "reserve_b d m i t = (q, v)" by (cases "reserve_b d m i t")
  have m: "0 < m" using Cons.prems(5) x by simp
  have "r = q \<and> inv_a u \<and> inv_b v \<and> ids_a u = ids_b v \<and> total_a u = total_b v"
    using a.reserve_law [OF Cons.prems(1) m u] b.reserve_law [OF Cons.prems(2) m v] Cons.prems(3,4)
    by (auto simp: Let_def split: if_splits)
  then show ?case
    using Cons.IH [of u v] Cons.prems(5) by (auto simp: x u v split: prod.splits)
qed

end

section \<open>Both ledgers keep the interface\<close>

definition mem_total :: "daily_notional \<Rightarrow> string \<times> int \<Rightarrow> decimal" where
  "mem_total s k = dict_get_or (dn_reserved s) k (Dec 0 0)"

interpretation mem_daily: daily_ledger mem_reserve mem_total dn_intent_ids "\<lambda>_. True"
  by unfold_locales
    (auto simp: mem_reserve_def mem_total_def Let_def dict_get_or_def dict_simps fun_eq_iff
      split: if_splits)

definition rows_total :: "notional_row list \<Rightarrow> string \<times> int \<Rightarrow> decimal" where
  "rows_total rows k =
     dsum (map (\<lambda>r. the (read_decimal (nr_notional r))) (reserved_rows (fst k) (snd k) rows))"

definition rows_readable :: "notional_row list \<Rightarrow> bool" where
  "rows_readable rows \<longleftrightarrow> (\<forall>r \<in> set rows. read_decimal (nr_notional r) \<noteq> None)"

lemma read_decimal_str [simp]: "read_decimal (dec_str d) = Some d"
  by (simp add: read_decimal_def)

lemma those_readable:
  "\<forall>r \<in> set rows. f r \<noteq> None \<Longrightarrow> those (map f rows) = Some (map (\<lambda>r. the (f r)) rows)"
  by (induction rows) auto

lemma reserved_rows_readable:
  "rows_readable rows \<Longrightarrow>
   those (map (\<lambda>r. read_decimal (nr_notional r)) (reserved_rows a d rows)) =
     Some (map (\<lambda>r. the (read_decimal (nr_notional r))) (reserved_rows a d rows))"
  by (rule those_readable) (auto simp: rows_readable_def reserved_rows_def)

lemma rows_total_snoc:
  "rows_total (rows @ [r]) k =
   (if k = (nr_account_id r, nr_trading_day r) then rows_total rows k + the (read_decimal (nr_notional r))
    else rows_total rows k)"
  by (cases k) (auto simp: rows_total_def reserved_rows_def)

interpretation sql_daily: daily_ledger sql_reserve rows_total "\<lambda>rows. nr_intent_id ` set rows" rows_readable
proof unfold_locales
  fix s m d i r t
  assume a: "rows_readable s" "0 < m" "sql_reserve d m i s = (r, t)"
  let ?k = "(oi_account_id i, d)"
  have tot: "dsum (map (\<lambda>r. the (read_decimal (nr_notional r))) (reserved_rows (oi_account_id i) d s)) = rows_total s ?k"
    by (simp add: rows_total_def)
  have m: "\<not> m \<le> 0" using a(2) by simp
  show "let k = ?k; granted = (oi_intent_id i \<notin> nr_intent_id ` set s \<and> rows_total s k + notional i \<le> m)
     in r = Inr granted \<and> rows_readable t \<and>
        (if granted then nr_intent_id ` set t = insert (oi_intent_id i) (nr_intent_id ` set s) \<and>
                         rows_total t = (rows_total s)(k := rows_total s k + notional i)
         else t = s)"
    using a(1,3) unfolding sql_reserve_def if_not_P [OF m] Let_def reserved_rows_readable [OF a(1)] option.case tot
    by (auto simp: rows_readable_def rows_total_snoc fun_eq_iff split: if_splits)
qed

interpretation daily_pair: daily_ledger_pair
  mem_reserve mem_total dn_intent_ids "\<lambda>_. True"
  sql_reserve rows_total "\<lambda>rows. nr_intent_id ` set rows" rows_readable
  by unfold_locales

section \<open>The decision store\<close>

text \<open>
  Rows of \<open>risk_decisions\<close>; reasons and times are written and read back by inverse functions
  (\<open>json\<close>, ISO texts), so a row is its decision.
\<close>

definition store_append :: "risk_decision \<Rightarrow> (risk_decision list, unit) operation" where
  "store_append d rows =
     (if rd_decision_id d \<in> rd_decision_id ` set rows
      then (Inl (Exc IntegrityError ''UNIQUE constraint failed: risk_decisions.decision_id''), rows)
      else (Inr (), rows @ [d]))"

definition store_get :: "uuid \<Rightarrow> risk_decision list \<Rightarrow> risk_decision result" where
  "store_get decision_id rows =
     (case find (\<lambda>d. rd_decision_id d = decision_id) rows of
        None \<Rightarrow> Inl (Exc KeyError ''decision_id'')
      | Some d \<Rightarrow> Inr d)"

text \<open>\<open>ORDER BY decided_at, decision_id\<close>: by the texts of the times, then of the identifiers.\<close>

definition decisions_for_intent :: "uuid \<Rightarrow> risk_decision list \<Rightarrow> risk_decision list" where
  "decisions_for_intent intent_id rows =
     sort_key (\<lambda>d. (iso_key (rd_decided_at d), rd_decision_id d))
       (filter (\<lambda>d. rd_intent_id d = intent_id) rows)"

lemma find_None: "find P xs = None \<longleftrightarrow> (\<forall>x \<in> set xs. \<not> P x)"
  by (induction xs) auto

lemma store_get_append:
  assumes "store_append d rows = (Inr (), rows')"
  shows "store_get i rows' = (if i = rd_decision_id d then Inr d else store_get i rows)"
proof -
  have n: "rd_decision_id d \<notin> rd_decision_id ` set rows" and r: "rows' = rows @ [d]"
    using assms by (auto simp: store_append_def split: if_splits)
  have "find (\<lambda>x. rd_decision_id x = rd_decision_id d) rows = None"
    using n unfolding find_None by (metis image_eqI)
  then show ?thesis by (auto simp: store_get_def r find_append split: option.splits)
qed

section \<open>Properties\<close>

text \<open>
  In any sequence of claims an identifier is granted the first time and refused every time
  after, and the in-memory and the SQLite ledger give the same answers.
\<close>

theorem claims_granted_once:
  "claim_all (\<lambda>_. mem_claim) (map (\<lambda>x. ((), snd x)) xs) {} = claim_all sql_claim xs [] \<and>
   (\<forall>n < length xs. claim_all sql_claim xs [] ! n = Inr (snd (xs ! n) \<notin> snd ` set (take n xs)))"
proof -
  have l: "length (claim_all f ys s) = length ys" for f :: "'e \<Rightarrow> uuid \<Rightarrow> ('s, bool) operation" and ys s
    by (induction ys arbitrary: s) (auto split: prod.splits)
  have n: "claim_all sql_claim xs [] ! n = Inr (snd (xs ! n) \<notin> snd ` set (take n xs))"
    if "n < length xs" for n
    using sql_claims.claim_all_nth [OF that, of "[]"] by simp
  moreover have "claim_all (\<lambda>_. mem_claim) (map (\<lambda>x. ((), snd x)) xs) {} ! n =
      Inr (snd (xs ! n) \<notin> snd ` set (take n xs))" if "n < length xs" for n
    using mem_claims.claim_all_nth [of n "map (\<lambda>x. ((), snd x)) xs" "{}"] that
    by (simp add: take_map image_image)
  ultimately show ?thesis by (auto intro!: nth_equalityI simp: l)
qed

theorem claims_granted_once_witness:
  "claim_all sql_claim [(Aware 0 0, 7), (Aware 1 0, 7), (Aware 2 0, 8)] [] ! 1 = Inr False"
  using claims_granted_once [of "[(Aware 0 0, 7), (Aware 1 0, 7), (Aware 2 0, 8)]"] by simp

text \<open>
  With a positive daily limit no account's reservations of a day ever exceed it, in either
  ledger, whatever is asked; both ledgers answer every request alike and hold the same totals.
\<close>

theorem daily_budget_never_exceeded:
  assumes "0 < m" and "\<forall>x \<in> set xs. fst (snd x) = m"
  defines "mem \<equiv> reserve_all mem_reserve xs \<lparr>dn_reserved = [], dn_intent_ids = {}\<rparr>"
  defines "sql \<equiv> reserve_all sql_reserve xs []"
  shows "mem_total (snd mem) k \<le> m \<and> rows_total (snd sql) k \<le> m \<and>
    fst mem = fst sql \<and> mem_total (snd mem) = rows_total (snd sql)"
proof -
  let ?e = "\<lparr>dn_reserved = [], dn_intent_ids = {}\<rparr>"
  have z: "mem_total ?e = rows_total []"
    by (simp add: fun_eq_iff mem_total_def rows_total_def reserved_rows_def dict_get_or_def zero_decimal_def)
  have a: "fst mem = fst sql \<and> mem_total (snd mem) = rows_total (snd sql)"
    unfolding mem_def sql_def
    using assms(1,2) by (intro daily_pair.answers_agree) (auto simp: rows_readable_def z)
  have "\<forall>k. mem_total ?e k \<le> m"
    using assms(1) by (simp add: mem_total_def dict_get_or_def dec_order)
  then have "mem_total (snd mem) k \<le> m"
    unfolding mem_def using mem_daily.budget [OF TrueI assms(1,2)] by blast
  with a show ?thesis by simp
qed

theorem daily_budget_never_exceeded_witness:
  "rows_total (snd (reserve_all sql_reserve
      [(0, Dec 1000 0, \<lparr>oi_intent_id = 1, oi_signal_id = 2, oi_instrument_id = ''BTC'', oi_account_id = ''acc'',
         oi_side = BUY, oi_quantity = Dec 10 0, oi_limit_price = Dec 100 0, oi_created_at = Aware 0 0\<rparr>)] []))
     (''acc'', 0) \<le> Dec 1000 0"
  using daily_budget_never_exceeded [of "Dec 1000 0"
      "[(0, Dec 1000 0, \<lparr>oi_intent_id = 1, oi_signal_id = 2, oi_instrument_id = ''BTC'', oi_account_id = ''acc'',
         oi_side = BUY, oi_quantity = Dec 10 0, oi_limit_price = Dec 100 0, oi_created_at = Aware 0 0\<rparr>)]"
      "(''acc'', 0)"]
  by (simp add: dlt_iff)

end
