(* ===== verification/KillSwitch.thy ===== *)
theory KillSwitch
  imports Domain
begin

text \<open>
  The kill switches of \<open>risk.py\<close>: the in-memory registry, the append-only SQLite log and the
  append-only Postgres log. The in-memory registry is the specification; the locale
  \<open>durable_registry\<close> states that a log simulates it, and both logs are interpreted.
\<close>

section \<open>Scopes\<close>

definition scope_prefixes :: "string set" where
  "scope_prefixes =
     {''ACCOUNT'', ''ASSET_CLASS'', ''BROKER'', ''EXCHANGE'', ''INSTRUMENT'', ''STRATEGY''}"

definition validate_kill_switch_scope :: "string \<Rightarrow> unit result" where
  "validate_kill_switch_scope scope =
     (if scope = ''GLOBAL'' then Inr ()
      else case partition_colon scope of
        (prefix, separator, val) \<Rightarrow>
          if \<not> separator \<or> blank val \<or> prefix \<notin> scope_prefixes
          then Inl (Exc ValueError ''invalid_kill_switch_scope'')
          else Inr ())"

text \<open>An optional scope counts only when it is given and not the empty string.\<close>

definition optional_candidate :: "string \<Rightarrow> string option \<Rightarrow> string set" where
  "optional_candidate prefix v =
     (case v of None \<Rightarrow> {} | Some x \<Rightarrow> if x = [] then {} else {prefix @ CHR '':'' # x})"

definition kill_switch_candidates ::
  "string \<Rightarrow> string \<Rightarrow> string option \<Rightarrow> string option \<Rightarrow> string option \<Rightarrow> string option \<Rightarrow> string set" where
  "kill_switch_candidates instrument_id strategy_version account_id broker_name exchange asset_cls =
     {''GLOBAL'', ''INSTRUMENT:'' @ instrument_id, ''STRATEGY:'' @ strategy_version} \<union>
     optional_candidate ''ACCOUNT'' account_id \<union> optional_candidate ''BROKER'' broker_name \<union>
     optional_candidate ''EXCHANGE'' exchange \<union> optional_candidate ''ASSET_CLASS'' asset_cls"

section \<open>The in-memory registry\<close>

definition mem_activate :: "string \<Rightarrow> (string set, unit) operation" where
  "mem_activate scope s =
     (case validate_kill_switch_scope scope of
        Inl e \<Rightarrow> (Inl e, s)
      | Inr _ \<Rightarrow> (Inr (), insert scope s))"

definition mem_deactivate :: "string \<Rightarrow> bool \<Rightarrow> (string set, unit) operation" where
  "mem_deactivate scope explicit_operator_approval s =
     (if \<not> explicit_operator_approval
      then (Inl (Exc PermissionError ''Kill switch reactivation requires explicit operator approval.''), s)
      else case validate_kill_switch_scope scope of
        Inl e \<Rightarrow> (Inl e, s)
      | Inr _ \<Rightarrow> (Inr (), s - {scope}))"

definition mem_blocks ::
  "string \<Rightarrow> string \<Rightarrow> string option \<Rightarrow> string option \<Rightarrow> string option \<Rightarrow> string option \<Rightarrow> string set \<Rightarrow> bool" where
  "mem_blocks instrument_id strategy_version account_id broker_name exchange asset_cls s =
     (kill_switch_candidates instrument_id strategy_version account_id broker_name exchange asset_cls
        \<inter> s \<noteq> {})"

section \<open>The SQLite log\<close>

record kill_switch_event =
  kse_event_id :: uuid
  kse_scope :: string
  kse_active :: bool
  kse_actor :: string
  kse_occurred_at :: datetime

text \<open>The table in the order of its \<open>sequence\<close> column; \<open>event_id\<close> is unique.\<close>

definition sql_append ::
  "uuid \<Rightarrow> datetime \<Rightarrow> string \<Rightarrow> bool \<Rightarrow> string \<Rightarrow> (kill_switch_event list, kill_switch_event) operation" where
  "sql_append new_id now scope active actor evs =
     (case validate_kill_switch_scope scope of
        Inl e \<Rightarrow> (Inl e, evs)
      | Inr _ \<Rightarrow>
          if blank actor then (Inl (Exc ValueError ''kill_switch_actor_required''), evs)
          else if new_id \<in> kse_event_id ` set evs
          then (Inl (Exc IntegrityError ''UNIQUE constraint failed: kill_switch_events.event_id''), evs)
          else let event = \<lparr>kse_event_id = new_id, kse_scope = scope, kse_active = active,
                            kse_actor = actor, kse_occurred_at = now\<rparr>
               in (Inr event, evs @ [event]))"

definition sql_activate ::
  "uuid \<Rightarrow> datetime \<Rightarrow> string \<Rightarrow> string \<Rightarrow> (kill_switch_event list, kill_switch_event) operation" where
  "sql_activate new_id now scope actor = sql_append new_id now scope True actor"

definition sql_deactivate ::
  "uuid \<Rightarrow> datetime \<Rightarrow> string \<Rightarrow> bool \<Rightarrow> string \<Rightarrow> (kill_switch_event list, kill_switch_event) operation" where
  "sql_deactivate new_id now scope explicit_operator_approval actor evs =
     (if \<not> explicit_operator_approval
      then (Inl (Exc PermissionError ''Kill switch reactivation requires explicit operator approval.''), evs)
      else sql_append new_id now scope False actor evs)"

text \<open>\<open>WHERE sequence IN (SELECT MAX(sequence) ... GROUP BY scope)\<close>: the last row of each scope.\<close>

fun latest_rows :: "kill_switch_event list \<Rightarrow> kill_switch_event list" where
  "latest_rows [] = []"
| "latest_rows (e # es) =
     (if kse_scope e \<in> kse_scope ` set es then latest_rows es else e # latest_rows es)"

definition sql_active_scopes :: "kill_switch_event list \<Rightarrow> string set" where
  "sql_active_scopes evs = set (map kse_scope (filter kse_active (latest_rows evs)))"

definition sql_blocks ::
  "string \<Rightarrow> string \<Rightarrow> string option \<Rightarrow> string option \<Rightarrow> string option \<Rightarrow> string option \<Rightarrow>
   kill_switch_event list \<Rightarrow> bool" where
  "sql_blocks instrument_id strategy_version account_id broker_name exchange asset_cls evs =
     (kill_switch_candidates instrument_id strategy_version account_id broker_name exchange asset_cls
        \<inter> sql_active_scopes evs \<noteq> {})"

definition sql_events :: "string option \<Rightarrow> kill_switch_event list \<Rightarrow> kill_switch_event list" where
  "sql_events scope evs =
     (case scope of None \<Rightarrow> evs | Some s \<Rightarrow> filter (\<lambda>e. kse_scope e = s) evs)"

section \<open>The Postgres log\<close>

text \<open>
  What the database does with a transaction is its own: it commits, it raises and rolls back, or it
  raises although the commit took effect (the reply was lost).
\<close>

datatype tx = TxCommitted | TxRolledBack | TxReplyLost

definition pg_append ::
  "tx \<Rightarrow> uuid \<Rightarrow> datetime \<Rightarrow> string \<Rightarrow> bool \<Rightarrow> string \<Rightarrow> (kill_switch_event list, kill_switch_event) operation" where
  "pg_append tr new_id now scope active actor evs =
     (case validate_kill_switch_scope scope of
        Inl e \<Rightarrow> (Inl e, evs)
      | Inr _ \<Rightarrow>
          if blank actor then (Inl (Exc ValueError ''kill_switch_actor_required''), evs)
          else
            let event = \<lparr>kse_event_id = new_id, kse_scope = scope, kse_active = active,
                         kse_actor = actor, kse_occurred_at = now\<rparr>;
                uncertain = Inl (Exc PersistenceError ''kill_switch_persistence_uncertain'')
            in if new_id \<in> kse_event_id ` set evs then (uncertain, evs)
               else case tr of
                 TxCommitted \<Rightarrow> (Inr event, evs @ [event])
               | TxRolledBack \<Rightarrow> (uncertain, evs)
               | TxReplyLost \<Rightarrow> (uncertain, evs @ [event]))"

definition pg_activate ::
  "tx \<Rightarrow> uuid \<Rightarrow> datetime \<Rightarrow> string \<Rightarrow> string \<Rightarrow> (kill_switch_event list, kill_switch_event) operation" where
  "pg_activate tr new_id now scope actor = pg_append tr new_id now scope True actor"

definition pg_deactivate ::
  "tx \<Rightarrow> uuid \<Rightarrow> datetime \<Rightarrow> string \<Rightarrow> bool \<Rightarrow> string \<Rightarrow>
   (kill_switch_event list, kill_switch_event) operation" where
  "pg_deactivate tr new_id now scope explicit_operator_approval actor evs =
     (if \<not> explicit_operator_approval
      then (Inl (Exc PermissionError ''Kill switch reactivation requires explicit operator approval.''), evs)
      else pg_append tr new_id now scope False actor evs)"

text \<open>\<open>DISTINCT ON (scope) ... ORDER BY scope, occurred_at DESC, event_id DESC\<close>.\<close>

definition pg_before :: "kill_switch_event \<Rightarrow> kill_switch_event \<Rightarrow> bool" where
  "pg_before e f \<longleftrightarrow>
     instant (kse_occurred_at e) < instant (kse_occurred_at f) \<or>
     instant (kse_occurred_at e) = instant (kse_occurred_at f) \<and> kse_event_id e < kse_event_id f"

fun pg_newest :: "kill_switch_event list \<Rightarrow> kill_switch_event option" where
  "pg_newest [] = None"
| "pg_newest (e # es) =
     (case pg_newest es of
        None \<Rightarrow> Some e
      | Some f \<Rightarrow> if pg_before f e then Some e else Some f)"

definition pg_scope_active :: "kill_switch_event list \<Rightarrow> string \<Rightarrow> bool" where
  "pg_scope_active evs s =
     (case pg_newest (filter (\<lambda>e. kse_scope e = s) evs) of None \<Rightarrow> False | Some e \<Rightarrow> kse_active e)"

definition pg_scopes :: "kill_switch_event list \<Rightarrow> string set" where
  "pg_scopes evs = set (filter (pg_scope_active evs) (map kse_scope evs))"

definition pg_active_scopes :: "bool \<Rightarrow> kill_switch_event list \<Rightarrow> string set result" where
  "pg_active_scopes available evs =
     (if available then Inr (pg_scopes evs)
      else Inl (Exc PersistenceError ''kill_switch_state_uncertain''))"

definition pg_blocks ::
  "bool \<Rightarrow> string \<Rightarrow> string \<Rightarrow> string option \<Rightarrow> string option \<Rightarrow> string option \<Rightarrow> string option \<Rightarrow>
   kill_switch_event list \<Rightarrow> bool result" where
  "pg_blocks available instrument_id strategy_version account_id broker_name exchange asset_cls evs =
     bind_result (pg_active_scopes available evs) (\<lambda>scopes.
       Inr (kill_switch_candidates instrument_id strategy_version account_id broker_name exchange
              asset_cls \<inter> scopes \<noteq> {}))"

section \<open>Facts about scopes\<close>

lemma valid_scope_iff:
  "ok (validate_kill_switch_scope s) \<longleftrightarrow>
   s = ''GLOBAL'' \<or>
   (\<exists>p v. s = p @ CHR '':'' # v \<and> p \<in> scope_prefixes \<and> \<not> blank v)" (is "?l \<longleftrightarrow> ?r")
proof
  assume ?l
  then show ?r
    by (auto simp: validate_kill_switch_scope_def dest: partition_colon_found
        split: if_splits prod.splits)
next
  have "CHR '':'' \<notin> set p" if "p \<in> scope_prefixes" for p
    using that by (auto simp: scope_prefixes_def)
  moreover assume ?r
  ultimately show ?l
    by (auto simp: validate_kill_switch_scope_def partition_colon_append)
qed

text \<open>A valid scope starts with one of the six prefixes exactly as a candidate does.\<close>

lemma optional_candidate_valid:
  assumes "s \<in> optional_candidate p v" and "p \<in> scope_prefixes" and "\<forall>x. v = Some x \<longrightarrow> \<not> blank x"
  shows "ok (validate_kill_switch_scope s)"
  using assms by (auto simp: optional_candidate_def valid_scope_iff split: option.splits if_splits)

section \<open>Requests and the registry interface\<close>

text \<open>The two state changing operations, as a request, so that one law covers both.\<close>

datatype switch_request = Activate string | Deactivate string bool

fun mem_perform :: "switch_request \<Rightarrow> (string set, unit) operation" where
  "mem_perform (Activate scope) s = mem_activate scope s"
| "mem_perform (Deactivate scope approval) s = mem_deactivate scope approval s"

record switch_env =
  env_tx :: tx
  env_id :: uuid
  env_now :: datetime
  env_actor :: string

fun sql_perform :: "switch_env \<Rightarrow> switch_request \<Rightarrow> (kill_switch_event list, kill_switch_event) operation" where
  "sql_perform e (Activate scope) evs = sql_activate (env_id e) (env_now e) scope (env_actor e) evs"
| "sql_perform e (Deactivate scope approval) evs =
     sql_deactivate (env_id e) (env_now e) scope approval (env_actor e) evs"

fun pg_perform :: "switch_env \<Rightarrow> switch_request \<Rightarrow> (kill_switch_event list, kill_switch_event) operation" where
  "pg_perform e (Activate scope) evs =
     pg_activate (env_tx e) (env_id e) (env_now e) scope (env_actor e) evs"
| "pg_perform e (Deactivate scope approval) evs =
     pg_deactivate (env_tx e) (env_id e) (env_now e) scope approval (env_actor e) evs"

text \<open>Performing a list of requests, and that each meets its environment's condition on the way.\<close>

fun perform_all ::
  "('e \<Rightarrow> switch_request \<Rightarrow> ('s, 'r) operation) \<Rightarrow> ('e \<times> switch_request) list \<Rightarrow> 's \<Rightarrow> 's" where
  "perform_all f [] s = s"
| "perform_all f ((e, q) # es) s = perform_all f es (snd (f e q s))"

fun all_fit ::
  "('e \<Rightarrow> switch_request \<Rightarrow> ('s, 'r) operation) \<Rightarrow> ('e \<Rightarrow> 's \<Rightarrow> bool) \<Rightarrow>
   ('e \<times> switch_request) list \<Rightarrow> 's \<Rightarrow> bool" where
  "all_fit f fit [] s = True"
| "all_fit f fit ((e, q) # es) s = (fit e s \<and> all_fit f fit es (snd (f e q s)))"

fun mem_all :: "switch_request list \<Rightarrow> string set \<Rightarrow> string set" where
  "mem_all [] s = s"
| "mem_all (q # qs) s = mem_all qs (snd (mem_perform q s))"

lemma mem_all_keeps_active:
  assumes "scope \<in> s" and "Deactivate scope True \<notin> set qs"
  shows "scope \<in> mem_all qs s"
  using assms
proof (induction qs arbitrary: s)
  case Nil
  then show ?case by simp
next
  case (Cons q qs)
  have "scope \<in> snd (mem_perform q s)"
    using Cons.prems
    by (cases q) (auto simp: mem_activate_def mem_deactivate_def split: sum.splits)
  with Cons show ?case by simp
qed

lemma mem_all_append: "mem_all (ps @ qs) s = mem_all qs (mem_all ps s)"
  by (induction ps arbitrary: s) auto

locale durable_registry =
  fixes perform :: "'e \<Rightarrow> switch_request \<Rightarrow> ('s, 'r) operation"
    and active :: "'s \<Rightarrow> string set"
    and inv :: "'s \<Rightarrow> bool"
    and fit :: "'e \<Rightarrow> 's \<Rightarrow> bool"
  assumes simulates: "inv s \<Longrightarrow> fit e s \<Longrightarrow> perform e q s = (r, t) \<Longrightarrow>
    mem_perform q (active s) = (map_sum id (\<lambda>_. ()) r, active t) \<and> inv t"
begin

lemma run_simulates:
  "inv s \<Longrightarrow> all_fit perform fit es s \<Longrightarrow>
   active (perform_all perform es s) = mem_all (map snd es) (active s) \<and>
   inv (perform_all perform es s)"
proof (induction es arbitrary: s)
  case Nil
  then show ?case by simp
next
  case (Cons x es)
  obtain e q where x: "x = (e, q)" by (cases x)
  obtain r t where t: "perform e q s = (r, t)" by (cases "perform e q s")
  have "mem_perform q (active s) = (map_sum id (\<lambda>_. ()) r, active t) \<and> inv t"
    using simulates [OF Cons.prems(1) _ t] Cons.prems(2) x by simp
  then show ?case using Cons.IH [of t] Cons.prems(2) x t by simp
qed

lemma stays_active:
  assumes "inv s" "all_fit perform fit es s" "scope \<in> active s"
    and "Deactivate scope True \<notin> set (map snd es)"
  shows "scope \<in> active (perform_all perform es s)"
  using run_simulates [OF assms(1,2)] mem_all_keeps_active [OF assms(3,4)] by simp

end

section \<open>The SQLite log keeps the interface\<close>

lemma latest_rows_subset: "set (latest_rows evs) \<subseteq> set evs"
  by (induction evs) auto

lemma latest_rows_snoc:
  "latest_rows (evs @ [e]) = filter (\<lambda>r. kse_scope r \<noteq> kse_scope e) (latest_rows evs) @ [e]"
proof (induction evs)
  case Nil
  then show ?case by simp
next
  case (Cons a evs)
  then show ?case by auto
qed

lemma sql_active_scopes_snoc:
  "sql_active_scopes (evs @ [e]) =
   (if kse_active e then insert (kse_scope e) (sql_active_scopes evs)
    else sql_active_scopes evs - {kse_scope e})"
  by (auto simp: sql_active_scopes_def latest_rows_snoc)

definition sql_inv :: "kill_switch_event list \<Rightarrow> bool" where
  "sql_inv evs = distinct (map kse_event_id evs)"

definition sql_fit :: "switch_env \<Rightarrow> kill_switch_event list \<Rightarrow> bool" where
  "sql_fit e evs \<longleftrightarrow> env_id e \<notin> kse_event_id ` set evs \<and> \<not> blank (env_actor e)"

lemma sql_simulates:
  assumes "sql_inv evs" "sql_fit e evs" "sql_perform e q evs = (r, t)"
  shows "mem_perform q (sql_active_scopes evs) = (map_sum id (\<lambda>_. ()) r, sql_active_scopes t) \<and> sql_inv t"
  using assms
  by (cases q)
    (auto simp: sql_activate_def sql_deactivate_def sql_append_def mem_activate_def
      mem_deactivate_def sql_fit_def sql_inv_def sql_active_scopes_snoc Let_def
      split: sum.splits if_splits)

interpretation sqlite_switches: durable_registry sql_perform sql_active_scopes sql_inv sql_fit
  by unfold_locales (rule sql_simulates)

section \<open>The Postgres log keeps it while the clock advances\<close>

lemma pg_newest_in: "pg_newest es = Some e \<Longrightarrow> e \<in> set es"
  by (induction es arbitrary: e) (auto split: option.splits if_splits)

lemma pg_newest_snoc:
  assumes "\<forall>f \<in> set es. instant (kse_occurred_at f) < instant (kse_occurred_at e)"
  shows "pg_newest (es @ [e]) = Some e"
  using assms by (induction es) (auto simp: pg_before_def)

lemma pg_scope_active_snoc:
  assumes "\<forall>f \<in> set evs. instant (kse_occurred_at f) < instant (kse_occurred_at e)"
  shows "pg_scope_active (evs @ [e]) s = (if kse_scope e = s then kse_active e else pg_scope_active evs s)"
proof (cases "kse_scope e = s")
  case True
  have "pg_newest (filter (\<lambda>f. kse_scope f = s) evs @ [e]) = Some e"
    using assms by (intro pg_newest_snoc) auto
  with True show ?thesis by (simp add: pg_scope_active_def)
next
  case False
  then show ?thesis by (simp add: pg_scope_active_def)
qed

lemma pg_scopes_iff: "s \<in> pg_scopes evs \<longleftrightarrow> pg_scope_active evs s"
proof
  assume a: "pg_scope_active evs s"
  then obtain e where "pg_newest (filter (\<lambda>f. kse_scope f = s) evs) = Some e"
    by (auto simp: pg_scope_active_def split: option.splits)
  from pg_newest_in [OF this] have "s \<in> kse_scope ` set evs" by auto
  with a show "s \<in> pg_scopes evs" by (auto simp: pg_scopes_def)
qed (auto simp: pg_scopes_def)

lemma pg_scopes_snoc:
  assumes "\<forall>f \<in> set evs. instant (kse_occurred_at f) < instant (kse_occurred_at e)"
  shows "pg_scopes (evs @ [e]) =
    (if kse_active e then insert (kse_scope e) (pg_scopes evs) else pg_scopes evs - {kse_scope e})"
  using pg_scope_active_snoc [OF assms] by (auto simp: set_eq_iff pg_scopes_iff)

definition pg_fit :: "switch_env \<Rightarrow> kill_switch_event list \<Rightarrow> bool" where
  "pg_fit e evs \<longleftrightarrow> sql_fit e evs \<and> env_tx e = TxCommitted \<and>
     (\<forall>f \<in> set evs. instant (kse_occurred_at f) < instant (env_now e))"

lemma pg_simulates:
  assumes "sql_inv evs" "pg_fit e evs" "pg_perform e q evs = (r, t)"
  shows "mem_perform q (pg_scopes evs) = (map_sum id (\<lambda>_. ()) r, pg_scopes t) \<and> sql_inv t"
  using assms
  by (cases q)
    (auto simp: pg_activate_def pg_deactivate_def pg_append_def mem_activate_def pg_fit_def
      mem_deactivate_def sql_fit_def sql_inv_def pg_scopes_snoc Let_def
      split: sum.splits if_splits)

interpretation postgres_switches: durable_registry pg_perform pg_scopes sql_inv pg_fit
  by unfold_locales (rule pg_simulates)


section \<open>Properties\<close>

lemma pg_perform_fit: "pg_fit e evs \<Longrightarrow> pg_perform e q evs = sql_perform e q evs"
  by (cases q) (auto simp: pg_fit_def sql_fit_def pg_activate_def pg_deactivate_def pg_append_def
      sql_activate_def sql_deactivate_def sql_append_def Let_def split: sum.splits)

lemma pg_fit_run:
  "all_fit pg_perform pg_fit es evs \<Longrightarrow>
   all_fit sql_perform sql_fit es evs \<and> perform_all pg_perform es evs = perform_all sql_perform es evs"
proof (induction es arbitrary: evs)
  case Nil
  then show ?case by simp
next
  case (Cons x es)
  obtain e q where "x = (e, q)" by (cases x)
  moreover have "pg_fit e evs \<Longrightarrow> sql_fit e evs" by (simp add: pg_fit_def)
  ultimately show ?case using Cons by (auto simp: pg_perform_fit)
qed

text \<open>
  C21: whatever requests are made, as long as actors are named, event ids are fresh, the clock
  advances between requests and commits are answered, the SQLite registry, the Postgres registry
  and the in-memory registry have the same active scopes.
\<close>

theorem kill_switch_registries_agree:
  assumes "all_fit pg_perform pg_fit es []"
  shows "sql_active_scopes (perform_all sql_perform es []) = mem_all (map snd es) {} \<and>
    pg_scopes (perform_all pg_perform es []) = mem_all (map snd es) {}"
  using assms pg_fit_run [OF assms] sqlite_switches.run_simulates [of "[]" es]
    postgres_switches.run_simulates [of "[]" es]
  by (simp add: sql_inv_def sql_active_scopes_def pg_scopes_def)

definition sample_env :: "nat \<Rightarrow> switch_env" where
  "sample_env n = \<lparr>env_tx = TxCommitted, env_id = n, env_now = Aware (int n) 0, env_actor = ''op''\<rparr>"

definition sample_requests :: "(switch_env \<times> switch_request) list" where
  "sample_requests =
     [(sample_env 1, Activate ''GLOBAL''), (sample_env 2, Activate ''ACCOUNT:a''),
      (sample_env 3, Deactivate ''GLOBAL'' False), (sample_env 4, Deactivate ''ACCOUNT:a'' True)]"

lemmas switch_eval = sample_env_def sql_activate_def sql_deactivate_def
  sql_append_def pg_activate_def pg_deactivate_def pg_append_def validate_kill_switch_scope_def
  scope_prefixes_def blank_iff is_space_def mem_activate_def mem_deactivate_def pg_fit_def sql_fit_def
  Let_def

theorem kill_switch_registries_agree_witness:
  "pg_scopes (perform_all pg_perform sample_requests []) = {''GLOBAL''}"
proof -
  have f: "all_fit pg_perform pg_fit sample_requests []"
    unfolding sample_requests_def by (simp add: switch_eval)
  have m: "mem_all (map snd sample_requests) {} = {''GLOBAL''}"
    unfolding sample_requests_def by (auto simp: switch_eval)
  show ?thesis using kill_switch_registries_agree [OF f] m by simp
qed

text \<open>
  C22: a switch once active in a durable registry blocks every request whose candidates include its
  scope, through any later requests, until a deactivation of that scope is explicitly approved.
\<close>

theorem kill_switch_never_auto_reactivates:
  assumes "sql_inv evs" "Deactivate scope True \<notin> set (map snd es)"
    and "scope \<in> kill_switch_candidates i v a b x c"
  shows "(all_fit sql_perform sql_fit es evs \<and> scope \<in> sql_active_scopes evs \<longrightarrow>
      sql_blocks i v a b x c (perform_all sql_perform es evs)) \<and>
    (all_fit pg_perform pg_fit es evs \<and> scope \<in> pg_scopes evs \<longrightarrow>
      pg_blocks True i v a b x c (perform_all pg_perform es evs) = Inr True)"
  using assms(3) sqlite_switches.stays_active [OF assms(1) _ _ assms(2)]
    postgres_switches.stays_active [OF assms(1) _ _ assms(2)]
  unfolding sql_blocks_def pg_blocks_def pg_active_scopes_def by auto

theorem kill_switch_never_auto_reactivates_witness:
  "sql_blocks ''BTC'' ''v1'' None None None None
     (perform_all sql_perform [(sample_env 9, Deactivate ''INSTRUMENT:BTC'' False)]
       (perform_all sql_perform [(sample_env 1, Activate ''INSTRUMENT:BTC'')] []))"
proof -
  let ?evs = "perform_all sql_perform [(sample_env 1, Activate ''INSTRUMENT:BTC'')] []"
  let ?es = "[(sample_env 9, Deactivate ''INSTRUMENT:BTC'' False)]"
  have a: "?evs = [\<lparr>kse_event_id = 1, kse_scope = ''INSTRUMENT:BTC'', kse_active = True,
      kse_actor = ''op'', kse_occurred_at = Aware 1 0\<rparr>]"
    by (simp add: switch_eval)
  have b: "sql_inv ?evs" "''INSTRUMENT:BTC'' \<in> sql_active_scopes ?evs"
    unfolding a by (simp_all add: sql_inv_def sql_active_scopes_def)
  have c: "all_fit sql_perform sql_fit ?es ?evs"
    unfolding a by (simp add: switch_eval)
  have d: "''INSTRUMENT:BTC'' \<in> kill_switch_candidates ''BTC'' ''v1'' None None None None"
    by (simp add: kill_switch_candidates_def)
  show ?thesis
    using kill_switch_never_auto_reactivates [OF b(1) _ d, of ?es] b(2) c by simp
qed

text \<open>
  Rows of one scope with equal timestamps are ordered by their random identifiers: an activation
  recorded after a deactivation in the same microsecond may leave the switch off.
\<close>

lemma postgres_tie_break:
  "\<exists>evs e. pg_scopes evs = {} \<and> kse_active e \<and> pg_scopes (evs @ [e]) = {} \<and>
     sql_active_scopes (evs @ [e]) = {''GLOBAL''}"
proof (intro exI conjI)
  let ?e = "\<lambda>n b. \<lparr>kse_event_id = n, kse_scope = ''GLOBAL'', kse_active = b,
      kse_actor = ''op'', kse_occurred_at = Aware 1 0\<rparr>"
  show "pg_scopes [?e 2 False] = {}" "kse_active (?e 1 True)"
    "pg_scopes ([?e 2 False] @ [?e 1 True]) = {}"
    "sql_active_scopes ([?e 2 False] @ [?e 1 True]) = {''GLOBAL''}"
    by (simp_all add: pg_scopes_def pg_scope_active_def pg_before_def sql_active_scopes_def)
qed

end
