(* ===== verification/PaperExecution.thy ===== *)
theory PaperExecution
  imports Domain
begin

text \<open>
  \<open>paper_execution.py\<close>: the lifecycle table of paper orders, fills, positions and cash,
  margin and venue checks, and the comparison of internal with external positions.
\<close>

section \<open>Order lifecycle\<close>

text \<open>The table \<open>_TRANSITIONS\<close>; statuses without an entry allow nothing.\<close>

fun transitions :: "order_status \<Rightarrow> order_status set" where
  "transitions PROPOSED = {RISK_PENDING, CANCELLED}"
| "transitions RISK_PENDING = {APPROVED, RISK_REJECTED}"
| "transitions APPROVED = {SUBMISSION_PENDING, CANCELLED}"
| "transitions SUBMISSION_PENDING = {SUBMITTED, REJECTED, UNKNOWN}"
| "transitions SUBMITTED = {ACKNOWLEDGED, REJECTED, UNKNOWN}"
| "transitions ACKNOWLEDGED = {PARTIALLY_FILLED, FILLED, CANCEL_PENDING, EXPIRED}"
| "transitions PARTIALLY_FILLED = {PARTIALLY_FILLED, FILLED, CANCEL_PENDING}"
| "transitions CANCEL_PENDING = {CANCELLED, UNKNOWN}"
| "transitions _ = {}"

record paper_order =
  po_intent :: order_intent
  po_status :: order_status
  po_filled_quantity :: decimal
  po_average_fill_price :: "decimal option"

text \<open>\<open>PaperOrder(intent)\<close>: the defaults of a new order.\<close>

definition new_order :: "order_intent \<Rightarrow> paper_order" where
  "new_order i = \<lparr>po_intent = i, po_status = PROPOSED, po_filled_quantity = Dec 0 0,
                  po_average_fill_price = None\<rparr>"

definition remaining_quantity :: "paper_order \<Rightarrow> decimal" where
  "remaining_quantity o1 = oi_quantity (po_intent o1) - po_filled_quantity o1"

definition order_transition :: "paper_order \<Rightarrow> order_status \<Rightarrow> paper_order result" where
  "order_transition o1 next_status =
     (if next_status \<notin> transitions (po_status o1)
      then Inl (Exc OrderTransitionError ''transition is not allowed'')
      else Inr (o1\<lparr>po_status := next_status\<rparr>))"

definition order_fill :: "paper_order \<Rightarrow> decimal \<Rightarrow> decimal \<Rightarrow> paper_order result" where
  "order_fill o1 quantity price =
     (if po_status o1 \<notin> {ACKNOWLEDGED, PARTIALLY_FILLED}
      then Inl (Exc OrderTransitionError ''fill requires acknowledged order'')
      else if quantity \<le> 0 \<or> price \<le> 0 \<or> remaining_quantity o1 < quantity
      then Inl (Exc OrderTransitionError ''invalid_fill'')
      else
        let filled = po_filled_quantity o1 + quantity;
            weighted = (case po_average_fill_price o1 of
                          None \<Rightarrow> quantity * price
                        | Some avg \<Rightarrow> avg * po_filled_quantity o1 + quantity * price);
            status = (if deq filled (oi_quantity (po_intent o1)) then FILLED else PARTIALLY_FILLED)
        in case ddiv weighted filled of
             Inl e \<Rightarrow> Inl e
           | Inr avg \<Rightarrow> Inr (o1\<lparr>po_status := status, po_filled_quantity := filled,
                                po_average_fill_price := Some avg\<rparr>))"

definition progress_to_acknowledged :: "paper_order \<Rightarrow> paper_order result" where
  "progress_to_acknowledged o1 =
     fold_result (\<lambda>status ord. order_transition ord status)
       [RISK_PENDING, APPROVED, SUBMISSION_PENDING, SUBMITTED, ACKNOWLEDGED] o1"

section \<open>Positions and cash\<close>

record position =
  pos_instrument_id :: string
  pos_quantity :: decimal
  pos_average_cost :: decimal

record cash_balance =
  cash_currency :: string
  cash_amount :: decimal

abbreviation mk_position :: "string \<Rightarrow> decimal \<Rightarrow> decimal \<Rightarrow> position" where
  "mk_position i q c \<equiv> \<lparr>pos_instrument_id = i, pos_quantity = q, pos_average_cost = c\<rparr>"

abbreviation mk_cash :: "string \<Rightarrow> decimal \<Rightarrow> cash_balance" where
  "mk_cash c a \<equiv> \<lparr>cash_currency = c, cash_amount = a\<rparr>"

record split_action =
  sa_instrument_id :: string
  sa_ratio :: decimal

record dividend_action =
  da_instrument_id :: string
  da_amount_per_share :: decimal
  da_currency :: string

definition apply_split :: "position \<Rightarrow> split_action \<Rightarrow> position result" where
  "apply_split p a =
     (if pos_instrument_id p \<noteq> sa_instrument_id a \<or> sa_ratio a \<le> 0
      then Inl (Exc ValueError ''invalid_split_action'')
      else Inr (mk_position (pos_instrument_id p) (pos_quantity p * sa_ratio a)
                  (dquot (pos_average_cost p) (sa_ratio a))))"

definition apply_dividend :: "position \<Rightarrow> cash_balance \<Rightarrow> dividend_action \<Rightarrow> cash_balance result" where
  "apply_dividend p cash a =
     (if pos_instrument_id p \<noteq> da_instrument_id a \<or> cash_currency cash \<noteq> da_currency a \<or>
         da_amount_per_share a < 0
      then Inl (Exc ValueError ''invalid_dividend_action'')
      else Inr (mk_cash (cash_currency cash) (cash_amount cash + pos_quantity p * da_amount_per_share a)))"

definition apply_funding :: "position \<Rightarrow> cash_balance \<Rightarrow> decimal \<Rightarrow> decimal \<Rightarrow> cash_balance result" where
  "apply_funding p cash mark_price funding_rate =
     (if deq (pos_quantity p) 0 \<or> mark_price \<le> 0
      then Inl (Exc ValueError ''invalid_funding_inputs'')
      else Inr (mk_cash (cash_currency cash)
                  (cash_amount cash - pos_quantity p * mark_price * funding_rate)))"

definition apply_borrow_cost :: "position \<Rightarrow> cash_balance \<Rightarrow> decimal \<Rightarrow> decimal \<Rightarrow> cash_balance result" where
  "apply_borrow_cost p cash mark_price daily_borrow_rate =
     (if 0 \<le> pos_quantity p \<or> mark_price \<le> 0 \<or> daily_borrow_rate < 0
      then Inl (Exc ValueError ''invalid_borrow_inputs'')
      else Inr (mk_cash (cash_currency cash)
                  (cash_amount cash - dabs (pos_quantity p) * mark_price * daily_borrow_rate)))"

section \<open>Margin and venue checks\<close>

record margin_policy =
  mp_maximum_gross_notional :: decimal
  mp_maximum_leverage :: decimal

definition margin_permits :: "margin_policy \<Rightarrow> decimal \<Rightarrow> decimal \<Rightarrow> bool" where
  "margin_permits p gross_after equity =
     (if equity \<le> 0 \<or> gross_after < 0 then False
      else gross_after \<le> mp_maximum_gross_notional p \<and> dquot gross_after equity \<le> mp_maximum_leverage p)"

record venue_constraints =
  vc_tick_size :: decimal
  vc_lot_size :: decimal
  vc_maximum_order_notional :: decimal

text \<open>\<open>PaperVenueConstraints.validate\<close>: the remainder may itself raise on an oversized quotient.\<close>

definition venue_validate ::
  "venue_constraints \<Rightarrow> decimal \<Rightarrow> decimal \<Rightarrow> bool \<Rightarrow> string list result" where
  "venue_validate v quantity price session_open =
     (let reasons1 = (if \<not> session_open then [''invalid_trading_session''] else []);
          reasons2 = (if quantity \<le> 0 \<or> price \<le> 0 then [''invalid_quantity_or_price''] else []);
          size_check =
            (if vc_tick_size v \<le> 0 \<or> vc_lot_size v \<le> 0 then Inr [''invalid_venue_constraints'']
             else bind_result (drem quantity (vc_lot_size v)) (\<lambda>lot.
               if \<not> deq lot 0 then Inr [''lot_size_violation'']
               else bind_result (drem price (vc_tick_size v)) (\<lambda>tick.
                 if \<not> deq tick 0 then Inr [''tick_size_violation''] else Inr [])));
          reasons4 = (if vc_maximum_order_notional v < quantity * price
                      then [''venue_order_notional_limit''] else [])
      in bind_result size_check (\<lambda>reasons3. Inr (reasons1 @ reasons2 @ reasons3 @ reasons4)))"

section \<open>Reconciliation\<close>

record reconciliation_result =
  rr_complete :: bool
  rr_discrepancies :: "string list"

text \<open>
  \<open>reconcile\<close> iterates over the union of two key sets, in an order Python does not fix: \<open>ids\<close> is
  that order.
\<close>

definition position_mismatch ::
  "(string, position) dict \<Rightarrow> (string, position) dict \<Rightarrow> decimal \<Rightarrow> string \<Rightarrow> bool" where
  "position_mismatch internal external tolerance i =
     (case (dict_get internal i, dict_get external i) of
        (Some l, Some r) \<Rightarrow>
          \<not> deq (pos_quantity l) (pos_quantity r) \<or>
          tolerance < dabs (pos_average_cost l - pos_average_cost r)
      | _ \<Rightarrow> True)"

definition reconcile ::
  "string list \<Rightarrow> (string, position) dict \<Rightarrow> (string, position) dict \<Rightarrow> cash_balance \<Rightarrow> cash_balance \<Rightarrow>
   decimal \<Rightarrow> reconciliation_result" where
  "reconcile ids internal external internal_cash external_cash tolerance =
     (let cash = (if cash_currency internal_cash \<noteq> cash_currency external_cash \<or>
                     tolerance < dabs (cash_amount internal_cash - cash_amount external_cash)
                  then [''cash_mismatch''] else []);
          ds = cash @ map (\<lambda>i. ''position_mismatch:'' @ i)
                        (filter (position_mismatch internal external tolerance) ids)
      in \<lparr>rr_complete = (ds = []), rr_discrepancies = ds\<rparr>)"

text \<open>The iteration order of a union of key sets: each key of either dictionary once.\<close>

definition union_order :: "string list \<Rightarrow> (string, 'a) dict \<Rightarrow> (string, 'b) dict \<Rightarrow> bool" where
  "union_order ids d e \<longleftrightarrow> distinct ids \<and> set ids = set (dict_keys d) \<union> set (dict_keys e)"

definition position_notionals :: "(string, position) dict \<Rightarrow> (string, decimal) dict" where
  "position_notionals ps = map (\<lambda>(k, v). (k, pos_quantity v * pos_average_cost v)) ps"

definition portfolio_state_from_reconciliation ::
  "string \<Rightarrow> (string, position) dict \<Rightarrow> reconciliation_result \<Rightarrow> portfolio_state" where
  "portfolio_state_from_reconciliation account_id ps r = \<lparr>
     ps_account_id = account_id, ps_position_notionals = position_notionals ps,
     ps_reconciliation_complete = rr_complete r, ps_risk_increase_allowed = rr_complete r\<rparr>"

section \<open>Facts about single operations\<close>

named_theorems order_simps "the order operations, case by case"

lemma order_transition_Inr [order_simps]:
  "order_transition o1 n = Inr o2 \<longleftrightarrow> n \<in> transitions (po_status o1) \<and> o2 = o1\<lparr>po_status := n\<rparr>"
  by (auto simp: order_transition_def)

definition fillable :: "order_status \<Rightarrow> bool" where
  "fillable s \<longleftrightarrow> s = ACKNOWLEDGED \<or> s = PARTIALLY_FILLED"

lemma order_fill_ok:
  assumes "order_fill o1 q p = Inr o2"
  shows "fillable (po_status o1)" "0 < dval q" "0 < dval p" "dval q \<le> dval (remaining_quantity o1)"
    "po_intent o2 = po_intent o1" "po_filled_quantity o2 = po_filled_quantity o1 + q"
    "po_status o2 = (if deq (po_filled_quantity o2) (oi_quantity (po_intent o1)) then FILLED
                     else PARTIALLY_FILLED)"
    "\<exists>a. po_average_fill_price o2 = Some a \<and> a = dquot
       (case po_average_fill_price o1 of None \<Rightarrow> q * p
        | Some avg \<Rightarrow> avg * po_filled_quantity o1 + q * p) (po_filled_quantity o2)"
  using assms
  by (auto simp: order_fill_def fillable_def dec_order Let_def ddiv_Inr_iff
      split: if_splits sum.splits option.splits)

text \<open>Every refusal of a fill is one of the two named errors when nothing has been filled below zero.\<close>

lemma order_fill_cases:
  assumes "0 \<le> dval (po_filled_quantity o1)"
  shows "(\<exists>o2. order_fill o1 q p = Inr o2) \<longleftrightarrow>
     fillable (po_status o1) \<and> 0 < dval q \<and> 0 < dval p \<and> dval q \<le> dval (remaining_quantity o1)"
proof
  assume "\<exists>o2. order_fill o1 q p = Inr o2"
  then show "fillable (po_status o1) \<and> 0 < dval q \<and> 0 < dval p \<and> dval q \<le> dval (remaining_quantity o1)"
    using order_fill_ok by blast
next
  assume h: "fillable (po_status o1) \<and> 0 < dval q \<and> 0 < dval p \<and> dval q \<le> dval (remaining_quantity o1)"
  then have "dval (po_filled_quantity o1 + q) \<noteq> 0" using assms by simp
  with h show "\<exists>o2. order_fill o1 q p = Inr o2"
    by (auto simp: order_fill_def fillable_def dec_order Let_def ddiv_ok)
qed

section \<open>Reachable orders\<close>

text \<open>
  An order's life: it starts as proposed and moves by transitions and fills. \<open>Q\<close> restricts the
  fill quantities and \<open>h\<close> collects the statuses the order has had, the latest first.
\<close>

inductive order_reach ::
  "(decimal \<Rightarrow> bool) \<Rightarrow> order_intent \<Rightarrow> order_status list \<Rightarrow> paper_order \<Rightarrow> bool"
  for Q :: "decimal \<Rightarrow> bool" and i :: order_intent where
  start: "order_reach Q i [PROPOSED] (new_order i)"
| transition: "order_reach Q i h o1 \<Longrightarrow> order_transition o1 n = Inr o2 \<Longrightarrow>
    order_reach Q i (n # h) o2"
| fill: "order_reach Q i h o1 \<Longrightarrow> Q q \<Longrightarrow> order_fill o1 q p = Inr o2 \<Longrightarrow>
    order_reach Q i (po_status o2 # h) o2"

inductive_cases order_reach_Nil: "order_reach Q i [] o1"

lemma order_reach_intent: "order_reach Q i h o1 \<Longrightarrow> po_intent o1 = i"
  by (induction rule: order_reach.induct) (auto simp: new_order_def order_simps dest: order_fill_ok)

lemma order_reach_head: "order_reach Q i h o1 \<Longrightarrow> h \<noteq> [] \<and> hd h = po_status o1"
  by (induction rule: order_reach.induct) (auto simp: new_order_def order_simps)

text \<open>The quantities: nothing filled below zero, an average price exactly when something is filled.\<close>

lemma order_reach_quantities:
  "order_reach Q i h o1 \<Longrightarrow>
   0 \<le> dval (po_filled_quantity o1) \<and>
   (case po_average_fill_price o1 of None \<Rightarrow> dval (po_filled_quantity o1) = 0
    | Some a \<Rightarrow> 0 < dval (po_filled_quantity o1) \<and> 0 < dval a)"
proof (induction rule: order_reach.induct)
  case start
  then show ?case by (simp add: new_order_def)
next
  case (transition h o1 n o2)
  then show ?case by (auto simp: order_simps split: option.splits)
next
  case (fill h o1 q p o2)
  note f = order_fill_ok [OF fill.hyps(3)]
  have pos: "0 < dval (po_filled_quantity o2)" using fill.IH f(2,6) by simp
  obtain a where a: "po_average_fill_price o2 = Some a"
    "a = dquot (case po_average_fill_price o1 of None \<Rightarrow> q * p
       | Some avg \<Rightarrow> avg * po_filled_quantity o1 + q * p) (po_filled_quantity o2)"
    using f(8) by blast
  have "0 < dval a"
    unfolding a(2) using pos f(2,3) fill.IH
    by (cases "po_average_fill_price o1") (simp_all add: add_pos_pos)
  with a(1) pos show ?case by simp
qed

text \<open>Where an order can be, once something has been filled.\<close>

lemma order_reach_filled_status:
  "order_reach Q i h o1 \<Longrightarrow> po_average_fill_price o1 \<noteq> None \<Longrightarrow>
   po_status o1 \<in> {PARTIALLY_FILLED, FILLED, CANCEL_PENDING, CANCELLED, UNKNOWN}"
proof (induction rule: order_reach.induct)
  case start
  then show ?case by (simp add: new_order_def)
next
  case (transition h o1 n o2)
  then show ?case by (auto simp: order_simps)
next
  case (fill h o1 q p o2)
  then show ?case using order_fill_ok(7) [OF fill.hyps(3)] by auto
qed

text \<open>The statuses behind the risk gate are only reached through it.\<close>

definition behind_gate :: "order_status set" where
  "behind_gate = {SUBMISSION_PENDING, SUBMITTED, ACKNOWLEDGED, PARTIALLY_FILLED, FILLED,
                  CANCEL_PENDING, REJECTED, EXPIRED, UNKNOWN}"

lemma order_reach_gate:
  "order_reach Q i h o1 \<Longrightarrow>
   RECONCILIATION_REQUIRED \<notin> set h \<and> (APPROVED \<in> set h \<longrightarrow> RISK_PENDING \<in> set h) \<and>
   (set h \<inter> behind_gate \<noteq> {} \<longrightarrow> APPROVED \<in> set h)"
proof (induction rule: order_reach.induct)
  case start
  then show ?case by (simp add: behind_gate_def)
next
  case (transition h o1 n o2)
  have hd: "po_status o1 \<in> set h"
    using order_reach_head [OF transition.hyps(1)] by (metis hd_in_set)
  from transition.hyps(2) have "n \<in> transitions (po_status o1)" by (simp add: order_simps)
  with transition.IH hd show ?case
    by (cases "po_status o1") (auto simp: behind_gate_def)
next
  case (fill h o1 q p o2)
  have "po_status o1 \<in> set h" using order_reach_head [OF fill.hyps(1)] by (metis hd_in_set)
  with fill.IH order_fill_ok(1,7) [OF fill.hyps(3)] show ?case
    by (auto simp: behind_gate_def fillable_def)
qed

text \<open>On a grid, quantities add exactly and an order is never filled beyond its quantity.\<close>

lemma grid_between:
  assumes "on_grid k x" "0 \<le> x" "x \<le> y" "y < 10 ^ prec * 10 powi (- k)"
  shows "representable x"
  using assms by (intro on_grid_representable [of k]) auto

lemma order_reach_grid:
  assumes "order_reach (\<lambda>q. on_grid k (dval q)) i h o1"
    and "on_grid k (dval (oi_quantity i))" and "0 \<le> dval (oi_quantity i)"
    and "dval (oi_quantity i) < 10 ^ prec * 10 powi (- k)"
  shows "on_grid k (dval (po_filled_quantity o1)) \<and>
    dval (po_filled_quantity o1) \<le> dval (oi_quantity i)"
  using assms(1)
proof (induction rule: order_reach.induct)
  case start
  then show ?case using assms(3) by (simp add: new_order_def)
next
  case (transition h o1 n o2)
  then show ?case by (simp add: order_simps)
next
  case (fill h o1 q p o2)
  let ?f = "dval (po_filled_quantity o1)" and ?Q = "dval (oi_quantity i)"
  note f = order_fill_ok [OF fill.hyps(3)]
  have i1: "po_intent o1 = i" by (rule order_reach_intent [OF fill.hyps(1)])
  have nn: "0 \<le> ?f" using order_reach_quantities [OF fill.hyps(1)] by blast
  have gr: "on_grid k ?f" "?f \<le> ?Q" using fill.IH by auto
  have "dval (remaining_quantity o1) = ?Q - ?f"
    unfolding remaining_quantity_def i1
    by (rule dval_minus_exact, rule grid_between [OF on_grid_minus [OF assms(2) gr(1)] _ _ assms(4)])
       (use gr nn in auto)
  then have le: "?f + dval q \<le> ?Q" using f(4) by linarith
  have g2: "on_grid k (?f + dval q)" by (rule on_grid_plus [OF gr(1) fill.hyps(2)])
  have "dval (po_filled_quantity o2) = ?f + dval q"
    unfolding f(6)
    by (rule dval_plus_exact, rule grid_between [OF g2 _ le assms(4)]) (use nn f(2) in auto)
  then show ?case using g2 le by simp
qed

section \<open>Properties of the lifecycle\<close>

text \<open>
  C20: an order reached from its proposal by lifecycle transitions and fills keeps its intent, and
  has been filled by no less than zero and no more than its quantity, provided quantities lie on
  one decimal grid of at most 28 digits (so that sums are exact); it has an average fill price
  exactly when something was filled, and that price is positive.
\<close>

theorem order_fills_bounded:
  assumes "order_reach (\<lambda>q. on_grid k (dval q)) i h o1"
    and "on_grid k (dval (oi_quantity i))" and "0 \<le> dval (oi_quantity i)"
    and "dval (oi_quantity i) < 10 ^ prec * 10 powi (- k)"
  shows "po_intent o1 = i \<and> 0 \<le> dval (po_filled_quantity o1) \<and>
    dval (po_filled_quantity o1) \<le> dval (oi_quantity i) \<and>
    (po_average_fill_price o1 = None \<longleftrightarrow> dval (po_filled_quantity o1) = 0) \<and>
    (\<forall>a. po_average_fill_price o1 = Some a \<longrightarrow> 0 < dval a)"
  using order_reach_intent [OF assms(1)] order_reach_grid [OF assms]
    order_reach_quantities [OF assms(1)]
  by (auto split: option.splits)

definition sample_intent :: order_intent where
  "sample_intent = \<lparr>oi_intent_id = 1, oi_signal_id = 2, oi_instrument_id = ''BTC'', oi_account_id = ''acc'',
     oi_side = BUY, oi_quantity = Dec 10 0, oi_limit_price = Dec 100 0, oi_created_at = Aware 0 0\<rparr>"

definition sample_acknowledged :: paper_order where
  "sample_acknowledged = (new_order sample_intent)\<lparr>po_status := ACKNOWLEDGED\<rparr>"

definition sample_history :: "order_status list" where
  "sample_history = [ACKNOWLEDGED, SUBMITTED, SUBMISSION_PENDING, APPROVED, RISK_PENDING, PROPOSED]"

lemma sample_reach: "order_reach Q sample_intent sample_history sample_acknowledged"
proof -
  let ?o = "\<lambda>s. (new_order sample_intent)\<lparr>po_status := s\<rparr>"
  have s0: "?o PROPOSED = new_order sample_intent" by (simp add: new_order_def)
  have st: "order_reach Q sample_intent h (?o s) \<Longrightarrow> n \<in> transitions s \<Longrightarrow>
      order_reach Q sample_intent (n # h) (?o n)" for h s n
    by (rule order_reach.transition) (auto simp: order_simps)
  have "order_reach Q sample_intent [PROPOSED] (?o PROPOSED)"
    unfolding s0 by (rule order_reach.start)
  note st [OF this, of RISK_PENDING, simplified]
  note st [OF this, of APPROVED, simplified]
  note st [OF this, of SUBMISSION_PENDING, simplified]
  note st [OF this, of SUBMITTED, simplified]
  note st [OF this, of ACKNOWLEDGED, simplified]
  then show ?thesis unfolding sample_history_def sample_acknowledged_def .
qed

lemma sample_fill:
  "order_fill sample_acknowledged (Dec 4 0) (Dec 101 0) =
     Inr (sample_acknowledged\<lparr>po_status := PARTIALLY_FILLED, po_filled_quantity := Dec 4 0,
       po_average_fill_price := Some (Dec 101 0)\<rparr>)"
  by (simp add: order_fill_def sample_acknowledged_def new_order_def sample_intent_def
      remaining_quantity_def dec_eval)

theorem order_fills_bounded_witness:
  "dval (Dec 4 0) \<le> dval (oi_quantity sample_intent) \<and>
   order_reach (\<lambda>q. on_grid 0 (dval q)) sample_intent (PARTIALLY_FILLED # sample_history)
     (sample_acknowledged\<lparr>po_status := PARTIALLY_FILLED, po_filled_quantity := Dec 4 0,
       po_average_fill_price := Some (Dec 101 0)\<rparr>)"
proof -
  let ?o = "sample_acknowledged\<lparr>po_status := PARTIALLY_FILLED, po_filled_quantity := Dec 4 0,
       po_average_fill_price := Some (Dec 101 0)\<rparr>"
  have g: "on_grid 0 (dval (Dec m 0))" for m by (simp add: on_grid_def)
  have r: "order_reach (\<lambda>q. on_grid 0 (dval q)) sample_intent (PARTIALLY_FILLED # sample_history) ?o"
    using order_reach.fill [OF sample_reach [where Q = "\<lambda>q. on_grid 0 (dval q)"] g sample_fill]
    by simp
  from order_fills_bounded [OF r] r g [of 10] show ?thesis
    by (simp add: sample_intent_def prec_def)
qed

text \<open>
  Risk gating. An order whose history contains any status behind the risk gate (submitted,
  acknowledged, filled, cancelled at the broker, rejected, expired or unknown) was pending risk and
  approved before, and no order ever becomes \<open>RECONCILIATION_REQUIRED\<close>.
\<close>

theorem order_risk_gate:
  assumes "order_reach Q i h o1"
  shows "(set h \<inter> behind_gate \<noteq> {} \<longrightarrow> APPROVED \<in> set h \<and> RISK_PENDING \<in> set h) \<and>
    RECONCILIATION_REQUIRED \<notin> set h"
  using order_reach_gate [OF assms] by blast

theorem order_risk_gate_witness:
  "APPROVED \<in> set sample_history \<and> RECONCILIATION_REQUIRED \<notin> set sample_history"
  using order_risk_gate [OF sample_reach] by (auto simp: sample_history_def behind_gate_def)

text \<open>
  The statuses in which an order can no longer change, by transition or by fill, are exactly
  the risk-rejected, filled, cancelled, rejected, expired, unknown and reconciliation-required ones.
\<close>

theorem order_terminal_statuses:
  "(\<forall>n. \<not> ok (order_transition o1 n)) \<and> (\<forall>q p. \<not> ok (order_fill o1 q p)) \<longleftrightarrow>
   po_status o1 \<in> {RISK_REJECTED, FILLED, CANCELLED, REJECTED, EXPIRED, UNKNOWN,
                    RECONCILIATION_REQUIRED}"
proof
  assume a: "(\<forall>n. \<not> ok (order_transition o1 n)) \<and> (\<forall>q p. \<not> ok (order_fill o1 q p))"
  have "n \<notin> transitions (po_status o1)" for n
  proof -
    from a have "\<not> ok (order_transition o1 n)" by blast
    then show ?thesis by (simp add: order_transition_def split: if_splits)
  qed
  then have "transitions (po_status o1) = {}" by blast
  then show "po_status o1 \<in> {RISK_REJECTED, FILLED, CANCELLED, REJECTED, EXPIRED, UNKNOWN,
      RECONCILIATION_REQUIRED}" by (cases "po_status o1") simp_all
next
  assume "po_status o1 \<in> {RISK_REJECTED, FILLED, CANCELLED, REJECTED, EXPIRED, UNKNOWN,
      RECONCILIATION_REQUIRED}"
  then show "(\<forall>n. \<not> ok (order_transition o1 n)) \<and> (\<forall>q p. \<not> ok (order_fill o1 q p))"
    by (auto simp: order_transition_def order_fill_def)
qed

text \<open>
  Without the grid the bound fails at the 28th digit: the remaining quantity is itself rounded,
  and an order for an odd number of 28 digits can be filled beyond its quantity.
\<close>

definition limit_order :: paper_order where
  "limit_order = (new_order (sample_intent\<lparr>oi_quantity := Dec 2000000000000000000000000001 0\<rparr>))
     \<lparr>po_status := PARTIALLY_FILLED, po_filled_quantity := Dec 15 (- 1),
      po_average_fill_price := Some (Dec 1 0)\<rparr>"

lemma overfill_at_precision_limit:
  "\<exists>o2. order_fill limit_order (Dec 2000000000000000000000000000 0) (Dec 1 0) = Inr o2 \<and>
     oi_quantity (po_intent o2) < po_filled_quantity o2"
  by (simp add: order_fill_def remaining_quantity_def limit_order_def new_order_def dec_eval)

section \<open>Properties of the checks\<close>

text \<open>
  The venue check of a paper order returns no reason exactly when the session is open, quantity
  and price are positive whole multiples of a positive lot and tick size, and the notional is within
  the venue's limit (for quantities and prices below ten to the 28 lots and ticks, where the
  remainder of \<open>decimal\<close> is defined).
\<close>

theorem venue_accepts_iff:
  assumes "0 < vc_lot_size v \<Longrightarrow> dval q < 10 ^ prec * dval (vc_lot_size v)"
    and "0 < vc_tick_size v \<Longrightarrow> dval p < 10 ^ prec * dval (vc_tick_size v)"
  shows "venue_validate v q p opened = Inr [] \<longleftrightarrow>
    opened \<and> 0 < q \<and> 0 < p \<and> 0 < vc_tick_size v \<and> 0 < vc_lot_size v \<and>
    (\<exists>n. dval q = of_int n * dval (vc_lot_size v)) \<and> (\<exists>n. dval p = of_int n * dval (vc_tick_size v)) \<and>
    q * p \<le> vc_maximum_order_notional v"
proof (cases "0 < q \<and> 0 < p \<and> 0 < vc_tick_size v \<and> 0 < vc_lot_size v")
  case False
  then have "q \<le> 0 \<or> p \<le> 0 \<or> vc_tick_size v \<le> 0 \<or> vc_lot_size v \<le> 0" by simp
  then consider "q \<le> 0 \<or> p \<le> 0" | "vc_tick_size v \<le> 0 \<or> vc_lot_size v \<le> 0" by blast
  then have "venue_validate v q p opened \<noteq> Inr []"
    unfolding venue_validate_def Let_def by cases (simp_all only: simp_thms if_True if_False append_is_Nil_conv bind_result_Inr_iff, auto)
  then show ?thesis using False by blast
next
  case True
  then have pos: "0 < dval q" "0 < dval p" "0 < dval (vc_tick_size v)" "0 < dval (vc_lot_size v)"
    by (simp_all add: dec_order)
  obtain r1 where r1: "drem q (vc_lot_size v) = Inr r1"
    using drem_ok_iff [of "vc_lot_size v" q] assms(1) True pos by (auto simp: ok_iff)
  obtain r2 where r2: "drem p (vc_tick_size v) = Inr r2"
    using drem_ok_iff [of "vc_tick_size v" p] assms(2) True pos by (auto simp: ok_iff)
  have ng: "\<not> (q \<le> 0 \<or> p \<le> 0)" "\<not> (vc_tick_size v \<le> 0 \<or> vc_lot_size v \<le> 0)"
    using True by simp_all
  have "venue_validate v q p opened = Inr [] \<longleftrightarrow>
      opened \<and> deq r1 0 \<and> deq r2 0 \<and> \<not> vc_maximum_order_notional v < q * p"
    unfolding venue_validate_def Let_def r1 r2 bind_result_simps if_not_P [OF ng(1)] if_not_P [OF ng(2)]
    by auto
  then show ?thesis using True drem_zero [OF r1] drem_zero [OF r2] by auto
qed

theorem venue_accepts_iff_witness:
  "venue_validate \<lparr>vc_tick_size = Dec 5 (- 1), vc_lot_size = Dec 1 (- 1), vc_maximum_order_notional = Dec 1000 0\<rparr>
     (Dec 3 0) (Dec 100 0) True = Inr []"
proof -
  let ?v = "\<lparr>vc_tick_size = Dec 5 (- 1), vc_lot_size = Dec 1 (- 1), vc_maximum_order_notional = Dec 1000 0\<rparr>"
  have d: "dval (Dec 3 0) < 10 ^ prec * dval (vc_lot_size ?v)"
    "dval (Dec 100 0) < 10 ^ prec * dval (vc_tick_size ?v)"
    by (simp_all add: prec_def power_int_minus)
  have n: "dval (Dec 3 0) = of_int 30 * dval (vc_lot_size ?v)"
    "dval (Dec 100 0) = of_int 200 * dval (vc_tick_size ?v)"
    by (simp_all add: power_int_minus)
  have c: "(0::decimal) < Dec 3 0" "(0::decimal) < Dec 100 0" "(0::decimal) < vc_tick_size ?v"
    "(0::decimal) < vc_lot_size ?v" "Dec 3 0 * Dec 100 0 \<le> vc_maximum_order_notional ?v"
    by (simp_all add: dec_eval)
  have ex: "\<exists>m::int. dval (Dec 3 0) = of_int m * dval (vc_lot_size ?v)"
    "\<exists>m::int. dval (Dec 100 0) = of_int m * dval (vc_tick_size ?v)"
    using n by blast+
  show ?thesis
    by (rule iffD2 [OF venue_accepts_iff [of ?v, OF d]]) (intro conjI TrueI c ex)
qed

lemma reconcile_complete_parts:
  assumes "union_order ids internal external"
  shows "rr_complete (reconcile ids internal external ic ec tol) \<longleftrightarrow>
    cash_currency ic = cash_currency ec \<and> dabs (cash_amount ic - cash_amount ec) \<le> tol \<and>
    dom (map_of internal) = dom (map_of external) \<and>
    (\<forall>i l r. map_of internal i = Some l \<longrightarrow> map_of external i = Some r \<longrightarrow>
       deq (pos_quantity l) (pos_quantity r) \<and>
       dabs (pos_average_cost l - pos_average_cost r) \<le> tol)"
proof -
  have ids: "set ids = dom (map_of internal) \<union> dom (map_of external)"
    using assms by (simp add: union_order_def dict_keys_def dom_map_of_conv_image_fst)
  have "rr_complete (reconcile ids internal external ic ec tol) \<longleftrightarrow>
      cash_currency ic = cash_currency ec \<and> dabs (cash_amount ic - cash_amount ec) \<le> tol \<and>
      (\<forall>i \<in> set ids. \<not> position_mismatch internal external tol i)"
    by (auto simp: reconcile_def Let_def filter_empty_conv)
  also have "(\<forall>i \<in> set ids. \<not> position_mismatch internal external tol i) \<longleftrightarrow>
      dom (map_of internal) = dom (map_of external) \<and>
      (\<forall>i l r. map_of internal i = Some l \<longrightarrow> map_of external i = Some r \<longrightarrow>
         deq (pos_quantity l) (pos_quantity r) \<and>
         dabs (pos_average_cost l - pos_average_cost r) \<le> tol)"
  proof -
    have *: "\<not> position_mismatch internal external tol i \<longleftrightarrow>
        (i \<in> dom (map_of internal) \<longleftrightarrow> i \<in> dom (map_of external)) \<and>
        (\<forall>l r. map_of internal i = Some l \<longrightarrow> map_of external i = Some r \<longrightarrow>
           deq (pos_quantity l) (pos_quantity r) \<and>
           dabs (pos_average_cost l - pos_average_cost r) \<le> tol)" if "i \<in> set ids" for i
      using that unfolding ids position_mismatch_def
      by (cases "map_of internal i"; cases "map_of external i") (auto simp: domIff)
    show ?thesis using * ids by (auto simp: set_eq_iff) blast+
  qed
  finally show ?thesis .
qed

text \<open>
  Reconciliation is complete exactly when the currencies agree, cash is within tolerance, and
  both sides hold the same instruments with equal quantities and average costs within tolerance;
  the order in which Python walks the union of the key sets does not matter.
\<close>

theorem reconcile_complete_iff:
  assumes "union_order ids internal external"
  shows "rr_complete (reconcile ids internal external ic ec tol) \<longleftrightarrow>
    cash_currency ic = cash_currency ec \<and> dabs (cash_amount ic - cash_amount ec) \<le> tol \<and>
    dom (map_of internal) = dom (map_of external) \<and>
    (\<forall>i l r. map_of internal i = Some l \<longrightarrow> map_of external i = Some r \<longrightarrow>
       deq (pos_quantity l) (pos_quantity r) \<and>
       dabs (pos_average_cost l - pos_average_cost r) \<le> tol)"
  by (rule reconcile_complete_parts [OF assms])

theorem reconcile_complete_iff_witness:
  "rr_complete (reconcile [''BTC''] [(''BTC'', mk_position ''BTC'' (Dec 10 (- 1)) (Dec 100 0))]
     [(''BTC'', mk_position ''BTC'' (Dec 1 0) (Dec 100005 (- 3)))] (mk_cash ''USD'' (Dec 5 0))
     (mk_cash ''USD'' (Dec 5 0)) (Dec 1 (- 2)))"
proof -
  let ?d = "[(''BTC'', mk_position ''BTC'' (Dec 10 (- 1)) (Dec 100 0))]"
  let ?e = "[(''BTC'', mk_position ''BTC'' (Dec 1 0) (Dec 100005 (- 3)))]"
  have u: "union_order [''BTC''] ?d ?e" by (simp add: union_order_def dict_keys_def)
  have e: "dabs (Dec 100 0 - Dec 100005 (- 3)) \<le> Dec 1 (- 2)" "deq (Dec 10 (- 1)) (Dec 1 0)"
    "dabs (Dec 5 0 - Dec 5 0) \<le> Dec 1 (- 2)"
    by (simp_all add: dec_eval)
  have m: "\<forall>i l r. map_of ?d i = Some l \<longrightarrow> map_of ?e i = Some r \<longrightarrow>
      deq (pos_quantity l) (pos_quantity r) \<and>
      dabs (pos_average_cost l - pos_average_cost r) \<le> Dec 1 (- 2)"
    using e(1,2) by (simp del: deq_def)
  show ?thesis
    by (rule iffD2 [OF reconcile_complete_iff [OF u]]) (intro conjI m, simp_all add: e(3))
qed

end
