(* ===== verification/OperationalAlerts.thy ===== *)
theory OperationalAlerts
  imports PaperExecution "HOL-Library.Product_Lexorder"
begin

text \<open>
  \<open>operational_alerts.py\<close> and the comparisons of \<open>shadow_mode.py\<close>: alerts that are opened once per
  active condition and move forward only, with their append-only events, in the Postgres and in the
  SQLite store; the locale \<open>alert_store\<close> states what both promise. Failure drills are an insert-only
  table.
\<close>

section \<open>Alerts\<close>

datatype alert_severity = WARNING | CRITICAL

datatype alert_status = ALERT_OPEN | ALERT_ACKNOWLEDGED | RESOLVED

type_synonym details = "(string, string) dict"

record operational_alert =
  al_alert_id :: uuid
  al_fingerprint :: string
  al_source :: string
  al_code :: string
  al_severity :: alert_severity
  al_resource :: string
  al_details :: details
  al_status :: alert_status
  al_created_at :: datetime
  al_updated_at :: datetime

record alert_event =
  av_event_id :: uuid
  av_alert_id :: uuid
  av_status :: alert_status
  av_actor :: string
  av_occurred_at :: datetime
  av_details :: details

text \<open>\<open>f"{source}:{code}:{resource}"\<close>\<close>

definition fingerprint_of :: "string \<Rightarrow> string \<Rightarrow> string \<Rightarrow> string" where
  "fingerprint_of source code resource = source @ '':'' @ code @ '':'' @ resource"

definition alert_fields_valid :: "string \<Rightarrow> string \<Rightarrow> string \<Rightarrow> bool" where
  "alert_fields_valid source code resource \<longleftrightarrow> \<not> (blank source \<or> blank code \<or> blank resource)"

text \<open>What a caller passes to \<open>raise_alert\<close>, and the fresh identifiers and clock readings.\<close>

record alert_request =
  ar_source :: string
  ar_code :: string
  ar_severity :: alert_severity
  ar_resource :: string
  ar_details :: details

record alert_env =
  le_alert_id :: uuid
  le_event_id :: uuid
  le_now :: datetime
  le_event_now :: datetime

definition request_fingerprint :: "alert_request \<Rightarrow> string" where
  "request_fingerprint q = fingerprint_of (ar_source q) (ar_code q) (ar_resource q)"

definition opened_alert :: "alert_env \<Rightarrow> datetime \<Rightarrow> alert_request \<Rightarrow> operational_alert" where
  "opened_alert e t q =
     \<lparr>al_alert_id = le_alert_id e, al_fingerprint = request_fingerprint q, al_source = ar_source q,
      al_code = ar_code q, al_severity = ar_severity q, al_resource = ar_resource q,
      al_details = ar_details q, al_status = ALERT_OPEN, al_created_at = t, al_updated_at = t\<rparr>"

section \<open>The SQLite store\<close>

record alert_db =
  db_alerts :: "operational_alert list"
  db_events :: "alert_event list"

definition unresolved :: "string \<Rightarrow> operational_alert \<Rightarrow> bool" where
  "unresolved fp a \<longleftrightarrow> al_fingerprint a = fp \<and> al_status a \<noteq> RESOLVED"

text \<open>Both tables refuse a repeated identifier; the connection keeps what it wrote before.\<close>

definition append_event ::
  "alert_env \<Rightarrow> uuid \<Rightarrow> alert_status \<Rightarrow> string \<Rightarrow> details \<Rightarrow> (alert_db, unit) operation" where
  "append_event e alert_id status actor details db =
     (if le_event_id e \<in> av_event_id ` set (db_events db)
      then (Inl (Exc IntegrityError ''UNIQUE constraint failed''), db)
      else (Inr (), db\<lparr>db_events := db_events db @
        [\<lparr>av_event_id = le_event_id e, av_alert_id = alert_id, av_status = status, av_actor = actor,
          av_occurred_at = le_event_now e, av_details = details\<rparr>]\<rparr>))"

definition sql_raise_alert :: "alert_env \<Rightarrow> alert_request \<Rightarrow> (alert_db, operational_alert) operation" where
  "sql_raise_alert e q db =
     (if \<not> alert_fields_valid (ar_source q) (ar_code q) (ar_resource q)
      then (Inl (Exc AlertError ''alert_requires_source_code_resource''), db)
      else case find (unresolved (request_fingerprint q)) (db_alerts db) of
        Some a \<Rightarrow> (Inr a, db)
      | None \<Rightarrow>
          if le_alert_id e \<in> al_alert_id ` set (db_alerts db)
          then (Inl (Exc IntegrityError ''UNIQUE constraint failed''), db)
          else
            let alert = opened_alert e (le_now e) q;
                db1 = db\<lparr>db_alerts := db_alerts db @ [alert]\<rparr>
            in case append_event e (al_alert_id alert) ALERT_OPEN ''system'' (ar_details q) db1 of
                 (Inl x, db2) \<Rightarrow> (Inl x, db2)
               | (Inr _, db2) \<Rightarrow> (Inr alert, db2))"

definition sql_get_alert :: "uuid \<Rightarrow> alert_db \<Rightarrow> operational_alert result" where
  "sql_get_alert alert_id db =
     (case find (\<lambda>a. al_alert_id a = alert_id) (db_alerts db) of
        None \<Rightarrow> Inl (Exc KeyError ''alert_id'')
      | Some a \<Rightarrow> Inr a)"

definition sql_transition ::
  "alert_env \<Rightarrow> uuid \<Rightarrow> alert_status \<Rightarrow> string \<Rightarrow> details option \<Rightarrow> (alert_db, operational_alert) operation" where
  "sql_transition e alert_id status actor details db =
     (case sql_get_alert alert_id db of
        Inl x \<Rightarrow> (Inl x, db)
      | Inr alert \<Rightarrow>
          if blank actor \<or> status = ALERT_OPEN \<or> al_status alert = RESOLVED
          then (Inl (Exc AlertError ''invalid_alert_transition''), db)
          else
            let db1 = db\<lparr>db_alerts := map (\<lambda>a. if al_alert_id a = alert_id
                        then a\<lparr>al_status := status, al_updated_at := le_now e\<rparr> else a) (db_alerts db)\<rparr>
            in case append_event e alert_id status actor (case details of None \<Rightarrow> [] | Some d \<Rightarrow> d) db1 of
                 (Inl x, db2) \<Rightarrow> (Inl x, db2)
               | (Inr _, db2) \<Rightarrow> (sql_get_alert alert_id db2, db2))"

text \<open>\<open>ORDER BY created_at\<close>, on texts.\<close>

definition sql_active_alerts :: "alert_db \<Rightarrow> operational_alert list" where
  "sql_active_alerts db =
     sort_key (\<lambda>a. iso_key (al_created_at a)) (filter (\<lambda>a. al_status a \<noteq> RESOLVED) (db_alerts db))"

section \<open>The Postgres store\<close>

text \<open>
  The tables as SQLite's, but \<open>updated_at\<close> is not stored: it is computed from the events. An exception
  inside a transaction leaves the tables as they were. The locks serialise the transactions.
\<close>

definition pg_updated_at :: "alert_event list \<Rightarrow> operational_alert \<Rightarrow> datetime" where
  "pg_updated_at evs a =
     fold (\<lambda>v m. if instant m < instant (av_occurred_at v) then av_occurred_at v else m)
       (tl (filter (\<lambda>v. av_alert_id v = al_alert_id a) evs))
       (case filter (\<lambda>v. av_alert_id v = al_alert_id a) evs of
          [] \<Rightarrow> al_created_at a | v # _ \<Rightarrow> av_occurred_at v)"

definition pg_alert_row :: "alert_db \<Rightarrow> operational_alert \<Rightarrow> operational_alert" where
  "pg_alert_row db a = a\<lparr>al_updated_at := pg_updated_at (db_events db) a\<rparr>"

text \<open>\<open>raise_alert_in_transaction\<close>: \<open>occurred_at\<close> defaults to the clock.\<close>

definition pg_raise_in_transaction ::
  "alert_env \<Rightarrow> datetime option \<Rightarrow> alert_request \<Rightarrow> (alert_db, operational_alert) operation" where
  "pg_raise_in_transaction e occurred_at q db =
     (let when = (case occurred_at of None \<Rightarrow> le_now e | Some t \<Rightarrow> t) in
      if \<not> alert_fields_valid (ar_source q) (ar_code q) (ar_resource q)
      then (Inl (Exc AlertError ''alert_requires_source_code_resource''), db)
      else if \<not> aware when then (Inl (Exc AlertError ''alert_time_must_be_timezone_aware''), db)
      else case find (unresolved (request_fingerprint q)) (db_alerts db) of
        Some a \<Rightarrow> (Inr (pg_alert_row db a), db)
      | None \<Rightarrow>
          if le_alert_id e \<in> al_alert_id ` set (db_alerts db) \<or>
             le_event_id e \<in> av_event_id ` set (db_events db)
          then (Inl (Exc IntegrityError ''duplicate key value''), db)
          else
            let alert = opened_alert e when q
            in (Inr alert, db\<lparr>db_alerts := db_alerts db @ [alert],
                 db_events := db_events db @
                   [\<lparr>av_event_id = le_event_id e, av_alert_id = le_alert_id e, av_status = ALERT_OPEN,
                     av_actor = ''system'', av_occurred_at = when, av_details = ar_details q\<rparr>]\<rparr>))"

text \<open>\<open>raise_alert\<close>: a refused row and a failed commit are errors of the database, made a \<open>PersistenceError\<close>.\<close>

definition uncertain :: "string \<Rightarrow> py_exc \<Rightarrow> py_exc" where
  "uncertain msg x =
     (if exc_class x = IntegrityError then transaction_failed
      else if exc_class x = AlertError \<or> exc_class x = KeyError \<or> is_persistence_error x then x
      else Exc PersistenceError msg)"

definition pg_raise_alert ::
  "bool \<Rightarrow> alert_env \<Rightarrow> datetime option \<Rightarrow> alert_request \<Rightarrow> (alert_db, operational_alert) operation" where
  "pg_raise_alert reply_lost e occurred_at q db =
     (case pg_raise_in_transaction e occurred_at q db of
        (Inl x, _) \<Rightarrow> (Inl (uncertain ''operational_alert_persistence_uncertain'' x), db)
      | (Inr a, db1) \<Rightarrow>
          if reply_lost then (Inl transaction_failed, db1)
          else (Inr a, db1))"

definition pg_transition_in_transaction ::
  "alert_env \<Rightarrow> uuid \<Rightarrow> alert_status \<Rightarrow> string \<Rightarrow> details option \<Rightarrow> datetime option \<Rightarrow> (alert_db, unit) operation" where
  "pg_transition_in_transaction e alert_id status actor details occurred_at db =
     (let when = (case occurred_at of None \<Rightarrow> le_now e | Some t \<Rightarrow> t) in
      if blank actor \<or> status = ALERT_OPEN
      then (Inl (Exc AlertError ''invalid_alert_transition''), db)
      else if \<not> aware when then (Inl (Exc AlertError ''alert_time_must_be_timezone_aware''), db)
      else case find (\<lambda>a. al_alert_id a = alert_id) (db_alerts db) of
        None \<Rightarrow> (Inl (Exc KeyError ''alert_id''), db)
      | Some a \<Rightarrow>
          if al_status a = RESOLVED then (Inl (Exc AlertError ''invalid_alert_transition''), db)
          else if instant when < instant (al_created_at a) \<or>
                  instant when < instant (pg_updated_at (db_events db) a)
          then (Inl (Exc AlertError ''alert_transition_time_regression''), db)
          else if le_event_id e \<in> av_event_id ` set (db_events db)
          then (Inl (Exc IntegrityError ''duplicate key value''), db)
          else (Inr (), db\<lparr>
            db_alerts := map (\<lambda>x. if al_alert_id x = alert_id then x\<lparr>al_status := status\<rparr> else x) (db_alerts db),
            db_events := db_events db @
              [\<lparr>av_event_id = le_event_id e, av_alert_id = alert_id, av_status = status, av_actor = actor,
                av_occurred_at = when, av_details = (case details of None \<Rightarrow> [] | Some d \<Rightarrow> d)\<rparr>]\<rparr>))"

definition pg_get_alert :: "uuid \<Rightarrow> alert_db \<Rightarrow> operational_alert result" where
  "pg_get_alert alert_id db =
     (case find (\<lambda>a. al_alert_id a = alert_id) (db_alerts db) of
        None \<Rightarrow> Inl (Exc KeyError ''alert_id'')
      | Some a \<Rightarrow> Inr (pg_alert_row db a))"

definition pg_transition ::
  "bool \<Rightarrow> alert_env \<Rightarrow> uuid \<Rightarrow> alert_status \<Rightarrow> string \<Rightarrow> details option \<Rightarrow> (alert_db, operational_alert) operation" where
  "pg_transition reply_lost e alert_id status actor details db =
     (case pg_transition_in_transaction e alert_id status actor details None db of
        (Inl x, _) \<Rightarrow> (Inl (uncertain ''operational_alert_transition_uncertain'' x), db)
      | (Inr _, db1) \<Rightarrow>
          if reply_lost then (Inl transaction_failed, db1)
          else (pg_get_alert alert_id db1, db1))"

text \<open>\<open>ORDER BY opened_at\<close> and \<open>ORDER BY occurred_at, event_id\<close>.\<close>

definition pg_active_alerts :: "alert_db \<Rightarrow> operational_alert list" where
  "pg_active_alerts db =
     sort_key (\<lambda>a. instant (al_created_at a))
       (map (pg_alert_row db) (filter (\<lambda>a. al_status a \<noteq> RESOLVED) (db_alerts db)))"

definition pg_alert_events :: "uuid \<Rightarrow> alert_db \<Rightarrow> alert_event list" where
  "pg_alert_events alert_id db =
     sort_key (\<lambda>v. (instant (av_occurred_at v), av_event_id v))
       (filter (\<lambda>v. av_alert_id v = alert_id) (db_events db))"

section \<open>What both stores promise\<close>

datatype alert_call = Raise alert_request | Move uuid alert_status string "details option"

type_synonym alert_view = "(uuid \<times> string \<times> alert_status) list"

definition alert_view :: "alert_db \<Rightarrow> alert_view" where
  "alert_view db = map (\<lambda>a. (al_alert_id a, al_fingerprint a, al_status a)) (db_alerts db)"

definition set_status :: "uuid \<Rightarrow> alert_status \<Rightarrow> alert_view \<Rightarrow> alert_view" where
  "set_status i st v = map (\<lambda>(j, f, q). (j, f, if j = i then st else q)) v"

text \<open>One row per identifier, one unresolved row per fingerprint.\<close>

definition view_ok :: "alert_view \<Rightarrow> bool" where
  "view_ok v \<longleftrightarrow> distinct (map fst v) \<and>
     (\<forall>x \<in> set v. \<forall>y \<in> set v. fst (snd x) = fst (snd y) \<and> snd (snd x) \<noteq> RESOLVED \<and>
        snd (snd y) \<noteq> RESOLVED \<longrightarrow> fst x = fst y)"

fun alert_calls ::
  "('e \<Rightarrow> alert_request \<Rightarrow> ('s, 'r) operation) \<Rightarrow>
   ('e \<Rightarrow> uuid \<Rightarrow> alert_status \<Rightarrow> string \<Rightarrow> details option \<Rightarrow> ('s, 'r) operation) \<Rightarrow>
   ('e \<times> alert_call) list \<Rightarrow> 's \<Rightarrow> 's" where
  "alert_calls f g [] s = s"
| "alert_calls f g ((e, Raise q) # cs) s = alert_calls f g cs (snd (f e q s))"
| "alert_calls f g ((e, Move i st actor d) # cs) s = alert_calls f g cs (snd (g e i st actor d s))"

lemma set_status_keys [simp]: "map fst (set_status i st v) = map fst v"
  by (auto simp: set_status_def)

lemma map_of_set_status:
  "map_of (set_status i st v) j =
   (case map_of v j of None \<Rightarrow> None | Some (f, q) \<Rightarrow> Some (f, if j = i then st else q))"
  by (induction v) (auto simp: set_status_def)

lemma view_ok_snoc:
  assumes "view_ok v" "i \<notin> fst ` set v" "\<forall>(j, g, st) \<in> set v. g = f \<longrightarrow> st = RESOLVED"
  shows "view_ok (v @ [(i, f, st)])"
proof -
  have r: "snd (snd x) = RESOLVED" if "x \<in> set v" "fst (snd x) = f" for x
    using assms(3) that by (cases x) auto
  have "distinct (map fst (v @ [(i, f, st)]))" using assms(1,2) by (simp add: view_ok_def)
  moreover have "fst x = fst y"
    if xy: "x \<in> set (v @ [(i, f, st)])" "y \<in> set (v @ [(i, f, st)])"
      "fst (snd x) = fst (snd y) \<and> snd (snd x) \<noteq> RESOLVED \<and> snd (snd y) \<noteq> RESOLVED" for x y
  proof (cases "x \<in> set v")
    case True
    then have "fst (snd x) \<noteq> f" using r xy(3) by blast
    then have "y \<in> set v" using xy(2,3) by auto
    with True show ?thesis using assms(1) xy(3) unfolding view_ok_def by blast
  next
    case False
    then have x: "x = (i, f, st)" using xy(1) by simp
    then have "y \<notin> set v" using r xy(3) by (metis fst_conv snd_conv)
    with x show ?thesis using xy(2) by simp
  qed
  ultimately show ?thesis unfolding view_ok_def by blast
qed

lemma view_ok_set_status:
  assumes "view_ok v" "map_of v i = Some (f, old)" "old \<noteq> RESOLVED"
  shows "view_ok (set_status i st v)"
proof -
  have d: "distinct (map fst v)" using assms(1) by (simp add: view_ok_def)
  have old: "snd (snd x) \<noteq> RESOLVED" if "x \<in> set v" "fst x = i" for x
    using map_of_is_SomeI [OF d, of i "snd x"] that assms(2,3) by (cases x) auto
  have ex: "\<exists>x' \<in> set v. fst x' = fst x \<and> fst (snd x') = fst (snd x) \<and>
      (snd (snd x) \<noteq> RESOLVED \<longrightarrow> snd (snd x') \<noteq> RESOLVED)" if "x \<in> set (set_status i st v)" for x
  proof -
    have "\<exists>x' \<in> set v. x = (fst x', fst (snd x'), if fst x' = i then st else snd (snd x'))"
      using that unfolding set_status_def by (simp add: split_beta image_iff)
    then obtain x' where x': "x' \<in> set v"
      "x = (fst x', fst (snd x'), if fst x' = i then st else snd (snd x'))" by blast
    then show ?thesis using old [OF x'(1)] by (cases "fst x' = i") (auto intro!: bexI [of _ x'])
  qed
  have "fst x = fst y" if "x \<in> set (set_status i st v)" "y \<in> set (set_status i st v)"
    "fst (snd x) = fst (snd y)" "snd (snd x) \<noteq> RESOLVED" "snd (snd y) \<noteq> RESOLVED" for x y
    using ex [OF that(1)] ex [OF that(2)] that(3-5) assms(1) unfolding view_ok_def by metis
  then show ?thesis using d unfolding view_ok_def set_status_keys by blast
qed

locale alert_store =
  fixes raise_op :: "'e \<Rightarrow> alert_request \<Rightarrow> ('s, 'r) operation"
    and move_op :: "'e \<Rightarrow> uuid \<Rightarrow> alert_status \<Rightarrow> string \<Rightarrow> details option \<Rightarrow> ('s, 'r) operation"
    and view :: "'s \<Rightarrow> alert_view"
  assumes raise_law: "raise_op e q s = (r, t) \<Longrightarrow>
      view t = view s \<or>
      (\<exists>i. i \<notin> fst ` set (view s) \<and>
        (\<forall>(j, g, st) \<in> set (view s). g = request_fingerprint q \<longrightarrow> st = RESOLVED) \<and>
        view t = view s @ [(i, request_fingerprint q, ALERT_OPEN)])"
    and move_law: "move_op e i st actor d s = (r, t) \<Longrightarrow>
      view t = view s \<or>
      (\<exists>f old. map_of (view s) i = Some (f, old) \<and> old \<noteq> RESOLVED \<and> st \<noteq> ALERT_OPEN \<and>
        view t = set_status i st (view s))"
begin

lemma calls_keep:
  assumes "view_ok (view s)"
  shows "view_ok (view (alert_calls raise_op move_op cs s)) \<and>
    (\<forall>i f st. map_of (view s) i = Some (f, st) \<longrightarrow>
      (\<exists>st'. map_of (view (alert_calls raise_op move_op cs s)) i = Some (f, st') \<and>
        (st = RESOLVED \<longrightarrow> st' = RESOLVED) \<and> (st \<noteq> ALERT_OPEN \<longrightarrow> st' \<noteq> ALERT_OPEN)))"
  using assms
proof (induction cs arbitrary: s)
  case Nil
  then show ?case by simp
next
  case (Cons c cs)
  obtain e k where c: "c = (e, k)" by (cases c)
  define t where "t = snd (case k of Raise q \<Rightarrow> raise_op e q s | Move i st a d \<Rightarrow> move_op e i st a d s)"
  have run: "alert_calls raise_op move_op (c # cs) s = alert_calls raise_op move_op cs t"
    by (cases k) (simp_all add: c t_def)
  have step: "view_ok (view t) \<and> (\<forall>i f st. map_of (view s) i = Some (f, st) \<longrightarrow>
      (\<exists>st'. map_of (view t) i = Some (f, st') \<and> (st = RESOLVED \<longrightarrow> st' = RESOLVED) \<and>
        (st \<noteq> ALERT_OPEN \<longrightarrow> st' \<noteq> ALERT_OPEN)))"
  proof (cases k)
    case (Raise q)
    then have "raise_op e q s = (fst (raise_op e q s), t)" by (simp add: t_def)
    from raise_law [OF this] show ?thesis
    proof
      assume "view t = view s"
      then show ?thesis using Cons.prems by simp
    next
      assume "\<exists>i. i \<notin> fst ` set (view s) \<and>
        (\<forall>(j, g, st) \<in> set (view s). g = request_fingerprint q \<longrightarrow> st = RESOLVED) \<and>
        view t = view s @ [(i, request_fingerprint q, ALERT_OPEN)]"
      then show ?thesis using view_ok_snoc [OF Cons.prems] by (auto simp: map_add_Some_iff)
    qed
  next
    case (Move i st a d)
    then have "move_op e i st a d s = (fst (move_op e i st a d s), t)" by (simp add: t_def)
    from move_law [OF this] show ?thesis
    proof
      assume "view t = view s"
      then show ?thesis using Cons.prems by simp
    next
      assume "\<exists>f old. map_of (view s) i = Some (f, old) \<and> old \<noteq> RESOLVED \<and> st \<noteq> ALERT_OPEN \<and>
        view t = set_status i st (view s)"
      then obtain f old where m: "map_of (view s) i = Some (f, old)" "old \<noteq> RESOLVED" "st \<noteq> ALERT_OPEN"
        "view t = set_status i st (view s)" by blast
      then show ?thesis
        using view_ok_set_status [OF Cons.prems m(1,2)] by (auto simp: map_of_set_status)
    qed
  qed
  note ih = Cons.IH [of t, folded run]
  show ?case
    using ih step by meson
qed

end

lemma find_first:
  "find (\<lambda>a. al_alert_id a = i) xs = Some a \<Longrightarrow>
   map_of (map (\<lambda>a. (al_alert_id a, al_fingerprint a, al_status a)) xs) i = Some (al_fingerprint a, al_status a)"
  by (induction xs) (auto split: if_splits)

lemma view_of_update:
  "alert_view (db\<lparr>db_alerts := map (\<lambda>a. if al_alert_id a = i then f a else a) (db_alerts db), db_events := evs\<rparr>) =
   set_status i st (alert_view db)"
  if "\<And>a. al_alert_id (f a) = al_alert_id a \<and> al_fingerprint (f a) = al_fingerprint a \<and> al_status (f a) = st"
  using that by (auto simp: alert_view_def set_status_def)

lemma append_event_view:
  "append_event e i st actor d db = (r, t) \<Longrightarrow> db_alerts t = db_alerts db"
  by (auto simp: append_event_def split: if_splits)

lemma find_none_resolved:
  "find (unresolved f) xs = None \<Longrightarrow>
   \<forall>(j, g, st) \<in> set (map (\<lambda>a. (al_alert_id a, al_fingerprint a, al_status a)) xs). g = f \<longrightarrow> st = RESOLVED"
  by (induction xs) (auto simp: unresolved_def split: if_splits)

lemma view_of_db_alerts: "db_alerts t = db_alerts s \<Longrightarrow> alert_view t = alert_view s"
  by (simp add: alert_view_def)

interpretation sql_alerts: alert_store sql_raise_alert sql_transition alert_view
proof unfold_locales
  fix e q s r t
  assume a: "sql_raise_alert e q s = (r, t)"
  show "alert_view t = alert_view s \<or>
      (\<exists>i. i \<notin> fst ` set (alert_view s) \<and>
        (\<forall>(j, g, st) \<in> set (alert_view s). g = request_fingerprint q \<longrightarrow> st = RESOLVED) \<and>
        alert_view t = alert_view s @ [(i, request_fingerprint q, ALERT_OPEN)])"
    using a find_none_resolved [of "request_fingerprint q" "db_alerts s"]
    by (auto simp: sql_raise_alert_def Let_def alert_view_def opened_alert_def image_image
        dest!: append_event_view split: if_splits option.splits prod.splits sum.splits)
next
  fix e i st actor d s r t
  assume a: "sql_transition e i st actor d s = (r, t)"
  show "alert_view t = alert_view s \<or>
      (\<exists>f old. map_of (alert_view s) i = Some (f, old) \<and> old \<noteq> RESOLVED \<and> st \<noteq> ALERT_OPEN \<and>
        alert_view t = set_status i st (alert_view s))"
  proof (cases "find (\<lambda>a. al_alert_id a = i) (db_alerts s)")
    case None
    then show ?thesis using a by (auto simp: sql_transition_def sql_get_alert_def)
  next
    case (Some al)
    note m = find_first [OF Some, folded alert_view_def]
    show ?thesis
    proof (cases "blank actor \<or> st = ALERT_OPEN \<or> al_status al = RESOLVED")
      case True
      then show ?thesis using a Some by (auto simp: sql_transition_def sql_get_alert_def)
    next
      case False
      define u where "u = s\<lparr>db_alerts := map (\<lambda>a. if al_alert_id a = i
          then a\<lparr>al_status := st, al_updated_at := le_now e\<rparr> else a) (db_alerts s)\<rparr>"
      have "db_alerts t = db_alerts u"
        using a Some False
        by (auto simp: sql_transition_def sql_get_alert_def Let_def u_def
            dest!: append_event_view split: prod.splits sum.splits)
      then have "alert_view t = alert_view u" by (rule view_of_db_alerts)
      also have "\<dots> = set_status i st (alert_view s)"
        by (auto simp: u_def alert_view_def set_status_def)
      finally show ?thesis using m False by auto
    qed
  qed
qed

type_synonym pg_alert_env = "bool \<times> alert_env \<times> datetime option"

definition pg_raise_call :: "pg_alert_env \<Rightarrow> alert_request \<Rightarrow> (alert_db, operational_alert) operation" where
  "pg_raise_call = (\<lambda>(lost, e, oc). pg_raise_alert lost e oc)"

definition pg_move_call ::
  "pg_alert_env \<Rightarrow> uuid \<Rightarrow> alert_status \<Rightarrow> string \<Rightarrow> details option \<Rightarrow> (alert_db, operational_alert) operation" where
  "pg_move_call = (\<lambda>(lost, e, oc). pg_transition lost e)"

lemma pg_raise_view:
  assumes "pg_raise_in_transaction e oc q s = (r, t)"
  shows "alert_view t = alert_view s \<or>
      (\<exists>i. i \<notin> fst ` set (alert_view s) \<and>
        (\<forall>(j, g, st) \<in> set (alert_view s). g = request_fingerprint q \<longrightarrow> st = RESOLVED) \<and>
        alert_view t = alert_view s @ [(i, request_fingerprint q, ALERT_OPEN)])"
  using assms find_none_resolved [of "request_fingerprint q" "db_alerts s"]
  by (auto simp: pg_raise_in_transaction_def Let_def alert_view_def opened_alert_def image_image
      split: if_splits option.splits)

lemma pg_transition_view:
  assumes "pg_transition_in_transaction e i st actor d oc s = (r, t)"
  shows "alert_view t = alert_view s \<or>
      (\<exists>f old. map_of (alert_view s) i = Some (f, old) \<and> old \<noteq> RESOLVED \<and> st \<noteq> ALERT_OPEN \<and>
        alert_view t = set_status i st (alert_view s))"
proof (cases "find (\<lambda>a. al_alert_id a = i) (db_alerts s)")
  case None
  then show ?thesis
    using assms by (auto simp: pg_transition_in_transaction_def Let_def split: if_splits)
next
  case (Some al)
  note m = find_first [OF Some, folded alert_view_def]
  show ?thesis
    using assms Some m
    by (auto simp: pg_transition_in_transaction_def Let_def alert_view_def set_status_def
        split: if_splits)
qed

interpretation pg_alerts: alert_store pg_raise_call pg_move_call alert_view
proof unfold_locales
  fix e q s r t
  assume "pg_raise_call e q s = (r, t)"
  then show "alert_view t = alert_view s \<or>
      (\<exists>i. i \<notin> fst ` set (alert_view s) \<and>
        (\<forall>(j, g, st) \<in> set (alert_view s). g = request_fingerprint q \<longrightarrow> st = RESOLVED) \<and>
        alert_view t = alert_view s @ [(i, request_fingerprint q, ALERT_OPEN)])"
    by (cases e, cases "pg_raise_in_transaction (fst (snd e)) (snd (snd e)) q s")
      (auto simp: pg_raise_call_def pg_raise_alert_def dest!: pg_raise_view
        split: sum.splits if_splits)
next
  fix e i st actor d s r t
  assume "pg_move_call e i st actor d s = (r, t)"
  then show "alert_view t = alert_view s \<or>
      (\<exists>f old. map_of (alert_view s) i = Some (f, old) \<and> old \<noteq> RESOLVED \<and> st \<noteq> ALERT_OPEN \<and>
        alert_view t = set_status i st (alert_view s))"
    by (cases e, cases "pg_transition_in_transaction (fst (snd e)) i st actor d None s")
      (auto simp: pg_move_call_def pg_transition_def dest!: pg_transition_view
        split: sum.splits if_splits)
qed

section \<open>The Postgres events are the history\<close>

definition events_of :: "alert_db \<Rightarrow> uuid \<Rightarrow> alert_event list" where
  "events_of db i = filter (\<lambda>v. av_alert_id v = i) (db_events db)"

definition pg_history_ok :: "alert_db \<Rightarrow> operational_alert \<Rightarrow> bool" where
  "pg_history_ok db a \<longleftrightarrow>
     (let es = events_of db (al_alert_id a) in
      es \<noteq> [] \<and> al_status a = av_status (last es) \<and> al_created_at a = av_occurred_at (hd es) \<and>
      sorted (map (\<lambda>v. instant (av_occurred_at v)) es))"

definition pg_log_ok :: "alert_db \<Rightarrow> bool" where
  "pg_log_ok db \<longleftrightarrow> distinct (map al_alert_id (db_alerts db)) \<and>
     av_alert_id ` set (db_events db) \<subseteq> al_alert_id ` set (db_alerts db) \<and>
     (\<forall>a \<in> set (db_alerts db). pg_history_ok db a)"

lemma fold_latest:
  fixes ts :: "alert_event list"
  defines "later \<equiv> \<lambda>v m. if instant m < instant (av_occurred_at v) then av_occurred_at v else m"
  shows "instant m \<le> instant (fold later ts m) \<and> (\<forall>v \<in> set ts. instant (av_occurred_at v) \<le> instant (fold later ts m))"
proof (induction ts arbitrary: m)
  case Nil
  then show ?case by simp
next
  case (Cons v ts)
  show ?case using Cons [of "later v m"] by (auto simp: later_def split: if_splits)
qed

lemma pg_updated_at_ge:
  "v \<in> set (events_of db (al_alert_id a)) \<Longrightarrow>
   instant (av_occurred_at v) \<le> instant (pg_updated_at (db_events db) a)"
  using fold_latest [of "case events_of db (al_alert_id a) of [] \<Rightarrow> al_created_at a | v # _ \<Rightarrow> av_occurred_at v"
      "tl (events_of db (al_alert_id a))"]
  unfolding pg_updated_at_def events_of_def
  by (cases "filter (\<lambda>v. av_alert_id v = al_alert_id a) (db_events db)") auto

lemma sorted_snoc: "sorted xs \<Longrightarrow> \<forall>x \<in> set xs. x \<le> y \<Longrightarrow> sorted (xs @ [y])" for y :: int
  by (simp add: sorted_append)

lemma pg_raise_keeps_log:
  assumes "pg_log_ok s" "pg_raise_in_transaction e oc q s = (r, t)"
  shows "pg_log_ok t"
proof -
  consider "t = s"
    | w where "t = s\<lparr>db_alerts := db_alerts s @ [opened_alert e w q], db_events := db_events s @
        [\<lparr>av_event_id = le_event_id e, av_alert_id = le_alert_id e, av_status = ALERT_OPEN,
          av_actor = ''system'', av_occurred_at = w, av_details = ar_details q\<rparr>]\<rparr>"
      "le_alert_id e \<notin> al_alert_id ` set (db_alerts s)"
    using assms(2) by (auto simp: pg_raise_in_transaction_def Let_def split: if_splits option.splits)
  then show ?thesis
  proof cases
    case 1
    then show ?thesis using assms(1) by simp
  next
    case 2
    have none: "filter (\<lambda>v. av_alert_id v = le_alert_id e) (db_events s) = []"
      using assms(1) 2(2) by (force simp: pg_log_ok_def filter_empty_conv)
    have "pg_history_ok t a" if "a \<in> set (db_alerts s)" for a
      using assms(1) that 2(2) by (auto simp: 2(1) pg_log_ok_def pg_history_ok_def events_of_def Let_def)
    moreover have "pg_history_ok t (opened_alert e w q)"
      using none by (simp add: 2(1) pg_history_ok_def events_of_def opened_alert_def Let_def)
    ultimately show ?thesis
      using assms(1) 2(2) by (auto simp: 2(1) pg_log_ok_def opened_alert_def)
  qed
qed

lemma pg_transition_step:
  assumes "pg_transition_in_transaction e i st actor d oc s = (r, t)" "t \<noteq> s"
  shows "\<exists>a v. find (\<lambda>a. al_alert_id a = i) (db_alerts s) = Some a \<and>
      \<not> instant (av_occurred_at v) < instant (pg_updated_at (db_events s) a) \<and>
      av_alert_id v = i \<and> av_status v = st \<and>
      t = s\<lparr>db_alerts := map (\<lambda>x. if al_alert_id x = i then x\<lparr>al_status := st\<rparr> else x) (db_alerts s),
             db_events := db_events s @ [v]\<rparr>"
proof -
  obtain a where a: "find (\<lambda>a. al_alert_id a = i) (db_alerts s) = Some a"
    using assms by (cases "find (\<lambda>a. al_alert_id a = i) (db_alerts s)")
      (auto simp: pg_transition_in_transaction_def Let_def split: if_splits)
  define w where "w = (case oc of None \<Rightarrow> le_now e | Some t \<Rightarrow> t)"
  define v where "v = \<lparr>av_event_id = le_event_id e, av_alert_id = i, av_status = st, av_actor = actor,
      av_occurred_at = w, av_details = (case d of None \<Rightarrow> [] | Some d \<Rightarrow> d)\<rparr>"
  have c: "\<not> instant w < instant (pg_updated_at (db_events s) a)"
    and t: "t = s\<lparr>db_alerts := map (\<lambda>x. if al_alert_id x = i then x\<lparr>al_status := st\<rparr> else x) (db_alerts s),
             db_events := db_events s @ [v]\<rparr>"
    using assms unfolding pg_transition_in_transaction_def Let_def a option.case w_def [symmetric] v_def [symmetric]
    by (simp_all split: if_splits)
  have v: "av_alert_id v = i" "av_status v = st" "av_occurred_at v = w" by (simp_all add: v_def)
  show ?thesis
    by (rule exI [of _ a], rule exI [of _ v], intro conjI a v t) (simp only: v c not_False_eq_True)
qed

lemma pg_transition_keeps_log:
  assumes "pg_log_ok s" "pg_transition_in_transaction e i st actor d oc s = (r, t)"
  shows "pg_log_ok t"
proof -
  consider "t = s"
    | a w v where "find (\<lambda>a. al_alert_id a = i) (db_alerts s) = Some a"
      "\<not> instant w < instant (pg_updated_at (db_events s) a)"
      "av_alert_id v = i" "av_status v = st" "av_occurred_at v = w"
      "t = s\<lparr>db_alerts := map (\<lambda>x. if al_alert_id x = i then x\<lparr>al_status := st\<rparr> else x) (db_alerts s),
             db_events := db_events s @ [v]\<rparr>"
    using pg_transition_step [OF assms(2)] by blast
  then show ?thesis
  proof cases
    case 1
    then show ?thesis using assms(1) by simp
  next
    case 2
    have a: "a \<in> set (db_alerts s)" "al_alert_id a = i"
      using 2(1) by (auto simp: find_Some_iff)
    have ids: "map al_alert_id (db_alerts t) = map al_alert_id (db_alerts s)"
      by (simp add: 2(6))
    have hist: "pg_history_ok s b" if "b \<in> set (db_alerts s)" for b
      using assms(1) that by (simp add: pg_log_ok_def)
    have ge: "\<forall>x \<in> set (events_of s i). instant (av_occurred_at x) \<le> instant w"
      using pg_updated_at_ge [of _ s a] 2(2) a(2) by fastforce
    have new: "pg_history_ok t (b\<lparr>al_status := st\<rparr>)" if b: "b \<in> set (db_alerts s)" "al_alert_id b = i" for b
      using hist [OF b(1)] b(2) ge 2(3-5)
      by (auto simp: pg_history_ok_def events_of_def 2(6) Let_def sorted_append hd_append)
    have old: "pg_history_ok t b" if b: "b \<in> set (db_alerts s)" "al_alert_id b \<noteq> i" for b
      using hist [OF b(1)] b(2) 2(3) by (simp add: pg_history_ok_def events_of_def 2(6) Let_def)
    have "\<forall>b \<in> set (db_alerts t). pg_history_ok t b"
      using new old by (auto simp: 2(6))
    moreover have "av_alert_id ` set (db_events t) \<subseteq> al_alert_id ` set (db_alerts t)"
    proof -
      have k: "al_alert_id ` set (db_alerts t) = al_alert_id ` set (db_alerts s)"
        using ids by (metis list.set_map)
      have "db_events t = db_events s @ [v]" by (simp add: 2(6))
      then show ?thesis unfolding k using assms(1) a 2(3) by (auto simp: pg_log_ok_def)
    qed
    ultimately show ?thesis using assms(1) ids by (simp add: pg_log_ok_def)
  qed
qed

lemma pg_calls_keep_log:
  "pg_log_ok s \<Longrightarrow> pg_log_ok (alert_calls pg_raise_call pg_move_call cs s)"
proof (induction cs arbitrary: s)
  case Nil
  then show ?case by simp
next
  case (Cons c cs)
  obtain lost e oc k where c: "c = ((lost, e, oc), k)" by (metis prod.exhaust)
  show ?case
  proof (cases k)
    case (Raise q)
    have "pg_log_ok (snd (pg_raise_call (lost, e, oc) q s))"
      using pg_raise_keeps_log [OF Cons.prems] Cons.prems
      by (auto simp: pg_raise_call_def pg_raise_alert_def split: prod.splits sum.splits)
    then show ?thesis using Cons.IH by (simp add: c Raise)
  next
    case (Move i st a d)
    have "pg_log_ok (snd (pg_move_call (lost, e, oc) i st a d s))"
      using pg_transition_keeps_log [OF Cons.prems] Cons.prems
      by (auto simp: pg_move_call_def pg_transition_def split: prod.splits sum.splits)
    then show ?thesis using Cons.IH by (simp add: c Move)
  qed
qed

section \<open>Failure drills and shadow comparison\<close>

record failure_drill =
  fd_drill_id :: uuid
  fd_scenario :: string
  fd_expected_protection :: string
  fd_observed_protection :: string
  fd_passed :: bool
  fd_recorded_at :: datetime

definition record_failure_drill :: "uuid \<Rightarrow> datetime \<Rightarrow> string \<Rightarrow> string \<Rightarrow> string \<Rightarrow> failure_drill result" where
  "record_failure_drill new_id now scenario expected observed =
     (if scenario = [] \<or> expected = [] \<or> observed = []
      then Inl (Exc ShadowModeValidationError ''invalid_failure_drill'')
      else Inr \<lparr>fd_drill_id = new_id, fd_scenario = scenario, fd_expected_protection = expected,
                fd_observed_protection = observed, fd_passed = (expected = observed),
                fd_recorded_at = now\<rparr>)"

definition drill_append :: "failure_drill \<Rightarrow> (failure_drill list, unit) operation" where
  "drill_append d rows =
     (if fd_drill_id d \<in> fd_drill_id ` set rows
      then (Inl (Exc IntegrityError ''UNIQUE constraint failed''), rows)
      else (Inr (), rows @ [d]))"

definition drill_get :: "uuid \<Rightarrow> failure_drill list \<Rightarrow> failure_drill result" where
  "drill_get i rows =
     (case find (\<lambda>d. fd_drill_id d = i) rows of None \<Rightarrow> Inl (Exc KeyError ''drill_id'') | Some d \<Rightarrow> Inr d)"

record shadow_comparison =
  sc_comparison_id :: uuid
  sc_primary_intent_id :: uuid
  sc_shadow_intent_id :: uuid
  sc_matched :: bool
  sc_differences :: "string list"
  sc_compared_at :: datetime

definition compare_paper_orders ::
  "uuid \<Rightarrow> datetime \<Rightarrow> paper_order \<Rightarrow> paper_order \<Rightarrow> decimal \<Rightarrow> decimal \<Rightarrow> shadow_comparison result" where
  "compare_paper_orders new_id now p s quantity_tolerance price_tolerance =
     (if quantity_tolerance < 0 \<or> price_tolerance < 0
      then Inl (Exc ShadowModeValidationError ''invalid_shadow_tolerance'')
      else
        let identity = (if oi_instrument_id (po_intent p) \<noteq> oi_instrument_id (po_intent s) \<or>
                           oi_side (po_intent p) \<noteq> oi_side (po_intent s)
                        then [''intent_identity_mismatch''] else []);
            status = (if po_status p \<noteq> po_status s then [''order_status_mismatch''] else []);
            filled = (if quantity_tolerance < dabs (po_filled_quantity p - po_filled_quantity s)
                      then [''filled_quantity_mismatch''] else []);
            price = (case (po_average_fill_price p, po_average_fill_price s) of
                       (None, None) \<Rightarrow> []
                     | (Some a, Some b) \<Rightarrow>
                         if price_tolerance < dabs (a - b) then [''fill_price_mismatch''] else []
                     | _ \<Rightarrow> [''fill_price_availability_mismatch'']);
            differences = identity @ status @ filled @ price
        in Inr \<lparr>sc_comparison_id = new_id, sc_primary_intent_id = oi_intent_id (po_intent p),
                sc_shadow_intent_id = oi_intent_id (po_intent s), sc_matched = (differences = []),
                sc_differences = differences, sc_compared_at = now\<rparr>)"

definition requires_incident :: "shadow_comparison \<Rightarrow> bool" where
  "requires_incident c \<longleftrightarrow> \<not> sc_matched c \<or>
     (\<exists>r \<in> {''intent_identity_mismatch'', ''order_status_mismatch''}. r \<in> set (sc_differences c))"

lemma requires_incident_iff:
  "compare_paper_orders i t p s q x = Inr c \<Longrightarrow> requires_incident c \<longleftrightarrow> sc_differences c \<noteq> []"
  by (auto simp: compare_paper_orders_def requires_incident_def Let_def split: if_splits)

section \<open>Properties\<close>

definition empty_alerts :: alert_db where
  "empty_alerts = \<lparr>db_alerts = [], db_events = []\<rparr>"

text \<open>
  C25: in both stores, whatever is raised and moved, at most one alert per fingerprint is unresolved,
  identifiers are unique, and an alert never leaves the resolved status nor returns to open.
\<close>

theorem alerts_deduplicated_and_forward:
  "view_ok (alert_view (alert_calls sql_raise_alert sql_transition (cs @ ds) empty_alerts)) \<and>
   view_ok (alert_view (alert_calls pg_raise_call pg_move_call (es @ fs) empty_alerts)) \<and>
   (\<forall>i f st. map_of (alert_view (alert_calls sql_raise_alert sql_transition cs empty_alerts)) i = Some (f, st) \<longrightarrow>
     (\<exists>st'. map_of (alert_view (alert_calls sql_raise_alert sql_transition (cs @ ds) empty_alerts)) i = Some (f, st') \<and>
       (st = RESOLVED \<longrightarrow> st' = RESOLVED) \<and> (st \<noteq> ALERT_OPEN \<longrightarrow> st' \<noteq> ALERT_OPEN))) \<and>
   (\<forall>i f st. map_of (alert_view (alert_calls pg_raise_call pg_move_call es empty_alerts)) i = Some (f, st) \<longrightarrow>
     (\<exists>st'. map_of (alert_view (alert_calls pg_raise_call pg_move_call (es @ fs) empty_alerts)) i = Some (f, st') \<and>
       (st = RESOLVED \<longrightarrow> st' = RESOLVED) \<and> (st \<noteq> ALERT_OPEN \<longrightarrow> st' \<noteq> ALERT_OPEN)))"
proof -
  have app: "alert_calls f g (xs @ ys) s = alert_calls f g ys (alert_calls f g xs s)"
    for f :: "'e \<Rightarrow> alert_request \<Rightarrow> (alert_db, operational_alert) operation" and g xs ys s
  proof (induction xs arbitrary: s)
    case (Cons x xs)
    obtain e k where "x = (e, k)" by (cases x)
    then show ?case using Cons by (cases k) simp_all
  qed simp
  have z: "view_ok (alert_view empty_alerts)" by (simp add: empty_alerts_def alert_view_def view_ok_def)
  note sql0 = conjunct1 [OF sql_alerts.calls_keep [OF z]] and pg0 = conjunct1 [OF pg_alerts.calls_keep [OF z]]
  note s = sql_alerts.calls_keep [OF sql0 [of cs], of ds] and p = pg_alerts.calls_keep [OF pg0 [of es], of fs]
  show ?thesis
    unfolding app
    by (intro conjI s [THEN conjunct1] p [THEN conjunct1] s [THEN conjunct2] p [THEN conjunct2])
qed

theorem alerts_deduplicated_and_forward_witness:
  "view_ok (alert_view (alert_calls sql_raise_alert sql_transition
     [(\<lparr>le_alert_id = 1, le_event_id = 1, le_now = Aware 0 0, le_event_now = Aware 0 0\<rparr>,
       Raise \<lparr>ar_source = ''s'', ar_code = ''c'', ar_severity = WARNING, ar_resource = ''r'', ar_details = []\<rparr>)]
     empty_alerts))"
  using alerts_deduplicated_and_forward [of "[(\<lparr>le_alert_id = 1, le_event_id = 1, le_now = Aware 0 0, le_event_now = Aware 0 0\<rparr>,
       Raise \<lparr>ar_source = ''s'', ar_code = ''c'', ar_severity = WARNING, ar_resource = ''r'', ar_details = []\<rparr>)]" "[]" "[]" "[]"]
  by simp

text \<open>
  The Postgres events are the full history of every alert: identifiers are unique, each alert's
  status is that of its last event, its opening time is that of its first, and its events never go
  back in time, whatever is called and whatever replies are lost.
\<close>

theorem postgres_alert_log_is_history:
  "pg_log_ok (alert_calls pg_raise_call pg_move_call cs empty_alerts)"
  by (rule pg_calls_keep_log) (simp add: empty_alerts_def pg_log_ok_def)

end
