(* ===== verification/Rendering.thy ===== *)
theory Rendering
  imports DecimalText
begin

text \<open>
  Texts the source writes into payloads: \<open>str(UUID)\<close>, \<open>date.isoformat()\<close> and \<open>json.dumps\<close> of a
  list of strings with code points below 256.
\<close>

definition hex_digit :: "nat \<Rightarrow> char" where
  "hex_digit k = (if k < 10 then digit_char k else char_of (87 + k))"

fun hex_fixed :: "nat \<Rightarrow> nat \<Rightarrow> string" where
  "hex_fixed 0 n = []"
| "hex_fixed (Suc k) n = hex_fixed k (n div 16) @ [hex_digit (n mod 16)]"

definition uuid_str :: "nat \<Rightarrow> string" where
  "uuid_str u =
     (let h = hex_fixed 32 u
      in take 8 h @ ''-'' @ take 4 (drop 8 h) @ ''-'' @ take 4 (drop 12 h) @ ''-'' @
         take 4 (drop 16 h) @ ''-'' @ drop 20 h)"

definition pad :: "nat \<Rightarrow> nat \<Rightarrow> string" where
  "pad k n = (let s = nat_str n in replicate (k - length s) (digit_char 0) @ s)"

text \<open>Day numbers count from 1970-01-01, in the proleptic Gregorian calendar.\<close>

definition iso_date :: "int \<Rightarrow> string" where
  "iso_date day =
     (let z = day + 719468;
          era = z div 146097;
          doe = z mod 146097;
          yoe = (doe - doe div 1460 + doe div 36524 - doe div 146096) div 365;
          doy = doe - (365 * yoe + yoe div 4 - yoe div 100);
          mp = (5 * doy + 2) div 153;
          d = doy - (153 * mp + 2) div 5 + 1;
          m = (if mp < 10 then mp + 3 else mp - 9);
          y = yoe + era * 400 + (if m \<le> 2 then 1 else 0)
      in pad 4 (nat y) @ ''-'' @ pad 2 (nat m) @ ''-'' @ pad 2 (nat d))"

text \<open>\<open>datetime.isoformat()\<close>, for years one to 9999.\<close>

definition iso_clock :: "int \<Rightarrow> string" where
  "iso_clock us =
     (let s = us div 1000000
      in pad 2 (nat (s div 3600)) @ '':'' @ pad 2 (nat (s div 60 mod 60)) @ '':'' @ pad 2 (nat (s mod 60)) @
         (if us mod 1000000 = 0 then [] else ''.'' @ pad 6 (nat (us mod 1000000))))"

definition iso_offset :: "int \<Rightarrow> string" where
  "iso_offset off =
     (if off < 0 then ''-'' else ''+'') @
     (let c = iso_clock \<bar>off\<bar> in if \<bar>off\<bar> mod 60000000 = 0 then take 5 c else c)"

definition iso_wall :: "int \<Rightarrow> string" where
  "iso_wall w = iso_date (w div 86400000000) @ ''T'' @ iso_clock (w mod 86400000000)"

fun iso_datetime :: "datetime \<Rightarrow> string" where
  "iso_datetime (Naive w) = iso_wall w"
| "iso_datetime (Aware w off) = iso_wall w @ iso_offset off"

definition json_char :: "char \<Rightarrow> string" where
  "json_char c =
     (let n = of_char c :: nat
      in if n = 34 then [char_of (92::nat), c]
         else if n = 92 then [c, c]
         else if n = 10 then [char_of (92::nat), CHR ''n'']
         else if n = 13 then [char_of (92::nat), CHR ''r'']
         else if n = 9 then [char_of (92::nat), CHR ''t'']
         else if n = 8 then [char_of (92::nat), CHR ''b'']
         else if n = 12 then [char_of (92::nat), CHR ''f'']
         else if n < 32 \<or> 126 < n then char_of (92::nat) # ''u'' @ hex_fixed 4 n
         else [c])"

definition json_string :: "string \<Rightarrow> string" where
  "json_string s = char_of (34::nat) # concat (map json_char s) @ [char_of (34::nat)]"

fun join :: "string \<Rightarrow> string list \<Rightarrow> string" where
  "join sep [] = []"
| "join sep [x] = x"
| "join sep (x # y # xs) = x @ sep @ join sep (y # xs)"

text \<open>With \<open>separators=(",", ":")\<close>.\<close>

definition json_strings :: "string list \<Rightarrow> string" where
  "json_strings xs = ''['' @ join '','' (map json_string xs) @ '']''"

lemma rendering_examples:
  "iso_date 11016 = ''2000-02-29''"
  by code_simp

lemma rendering_examples_datetime:
  "iso_datetime (Aware 60000000 (- 19800000000)) = ''1970-01-01T00:01:00-05:30''"
  by code_simp

lemma rendering_examples_uuid:
  "uuid_str 255 = ''00000000-0000-0000-0000-0000000000ff''"
  by code_simp

end
