(* ===== verification/PostgresRiskStore.thy ===== *)
theory PostgresRiskStore
  imports KillSwitch OperationalAlerts Rendering
begin

text \<open>
  \<open>PostgresRiskStore\<close> of \<open>risk.py\<close>: one transaction decides idempotency, the daily reservation, the
  immutable decision and the alert of a rejection. The tables are those of \<open>postgres_schema.py\<close>; the
  locks make each transaction a step of its own.
\<close>

section \<open>Tables\<close>

record reservation =
  rv_reservation_id :: uuid
  rv_account_id :: string
  rv_intent_id :: uuid
  rv_business_date :: int
  rv_notional :: decimal
  rv_created_at :: datetime

text \<open>\<open>NUMERIC(30,12)\<close>: an input is rounded to twelve places, half away from zero.\<close>

definition numeric12 :: "decimal \<Rightarrow> decimal" where
  "numeric12 d =
     (if - 12 \<le> dexp d then d
      else let k = 10 ^ nat (- 12 - dexp d) in Dec (sgn (coef d) * ((\<bar>coef d\<bar> + k div 2) div k)) (- 12))"

definition numeric_fits :: "decimal \<Rightarrow> bool" where
  "numeric_fits d \<longleftrightarrow> - Dec 1 18 < d \<and> d < Dec 1 18"

text \<open>\<open>SUM\<close> over a numeric column is exact.\<close>

definition exact_plus :: "decimal \<Rightarrow> decimal \<Rightarrow> decimal" where
  "exact_plus a b = (let e = min (dexp a) (dexp b) in Dec (align e a + align e b) e)"

definition numeric_sum :: "decimal list \<Rightarrow> decimal" where
  "numeric_sum xs = foldl exact_plus (Dec 0 0) xs"

record pg_risk =
  pr_policy_version_id :: uuid
  pr_has_alert_store :: bool
  pr_decisions :: "risk_decision list"
  pr_reservations :: "reservation list"
  pr_alerts :: alert_db

text \<open>What one call takes from outside: the commit's fate, fresh identifiers and clock readings.\<close>

record persist_env =
  pe_tx :: tx
  pe_reservation_id :: uuid
  pe_limit_decision_id :: uuid
  pe_limit_decided_at :: datetime
  pe_alert :: alert_env

section \<open>The transaction\<close>

definition reserved_total :: "string \<Rightarrow> int \<Rightarrow> pg_risk \<Rightarrow> decimal" where
  "reserved_total account day s =
     numeric_sum (map rv_notional
       (filter (\<lambda>r. rv_account_id r = account \<and> rv_business_date r = day) (pr_reservations s)))"

definition insert_reservation ::
  "persist_env \<Rightarrow> order_intent \<Rightarrow> risk_decision \<Rightarrow> int \<Rightarrow> (pg_risk, unit) operation" where
  "insert_reservation e intent decision day s =
     (let amount = numeric12 (notional intent) in
      if pe_reservation_id e \<in> rv_reservation_id ` set (pr_reservations s) \<or>
         oi_intent_id intent \<in> rv_intent_id ` set (pr_reservations s)
      then (Inl (Exc IntegrityError ''duplicate key value''), s)
      else if amount < 0 \<or> \<not> numeric_fits amount
      then (Inl (Exc IntegrityError ''numeric check violated''), s)
      else (Inr (), s\<lparr>pr_reservations := pr_reservations s @
        [\<lparr>rv_reservation_id = pe_reservation_id e, rv_account_id = oi_account_id intent,
          rv_intent_id = oi_intent_id intent, rv_business_date = day, rv_notional = amount,
          rv_created_at = rd_decided_at decision\<rparr>]\<rparr>))"

definition insert_decision :: "risk_decision \<Rightarrow> (pg_risk, unit) operation" where
  "insert_decision d s =
     (if rd_decision_id d \<in> rd_decision_id ` set (pr_decisions s) \<or>
         rd_intent_id d \<in> rd_intent_id ` set (pr_decisions s)
      then (Inl (Exc IntegrityError ''duplicate key value''), s)
      else (Inr (), s\<lparr>pr_decisions := pr_decisions s @ [d]\<rparr>))"

definition rejection_alert ::
  "order_intent \<Rightarrow> risk_decision \<Rightarrow> int \<Rightarrow> string list \<Rightarrow> uuid \<Rightarrow> alert_request" where
  "rejection_alert intent decision day final_reasons policy_version = \<lparr>
     ar_source = ''risk_engine'', ar_code = ''PRETRADE_RISK_REJECTED'',
     ar_severity = (if ''kill_switch_active'' \<in> set final_reasons then CRITICAL else WARNING),
     ar_resource = ''intent:'' @ uuid_str (oi_intent_id intent),
     ar_details =
       [(''account_id'', oi_account_id intent), (''business_day'', iso_date day),
        (''decision_id'', uuid_str (rd_decision_id decision)),
        (''instrument_id'', oi_instrument_id intent), (''notional'', dec_str (notional intent)),
        (''policy_version_id'', uuid_str policy_version), (''reasons'', json_strings final_reasons),
        (''signal_id'', uuid_str (oi_signal_id intent))]\<rparr>"

definition raise_rejection ::
  "persist_env \<Rightarrow> order_intent \<Rightarrow> risk_decision \<Rightarrow> int \<Rightarrow> bool \<Rightarrow> string list \<Rightarrow> (pg_risk, unit) operation" where
  "raise_rejection e intent decision day final_approved final_reasons s =
     (if \<not> final_approved \<and> pr_has_alert_store s then
        case pg_raise_in_transaction (pe_alert e) (Some (rd_decided_at decision))
               (rejection_alert intent decision day final_reasons (pr_policy_version_id s)) (pr_alerts s) of
          (Inl x, _) \<Rightarrow> (Inl x, s)
        | (Inr _, db) \<Rightarrow> (Inr (), s\<lparr>pr_alerts := db\<rparr>)
      else (Inr (), s))"

text \<open>The body of the \<open>with\<close> block, when no decision of the intent is stored yet.\<close>

definition persist_new ::
  "persist_env \<Rightarrow> order_intent \<Rightarrow> risk_decision \<Rightarrow> int \<Rightarrow> decimal \<Rightarrow> bool \<Rightarrow> string list \<Rightarrow>
   (pg_risk, risk_decision) operation" where
  "persist_new e intent decision day daily_limit final_approved final_reasons s =
     (let approved = (rd_decision decision = APPROVE);
          finish = (\<lambda>d final reasons.
            bind_method (insert_decision d) (\<lambda>_.
            bind_method (raise_rejection e intent d day final reasons) (\<lambda>_ t. (Inr d, t))))
      in if approved \<and> final_approved then
           if daily_limit < reserved_total (oi_account_id intent) day s + notional intent then
             let d = create_risk_decision (pe_limit_decision_id e) (pe_limit_decided_at e)
                       (oi_intent_id intent) REJECT [''daily_order_notional_limit'']
             in finish d False (rd_reasons d) s
           else bind_method (insert_reservation e intent decision day)
                  (\<lambda>_. finish decision final_approved final_reasons) s
         else finish decision final_approved final_reasons s)"

definition persist_transaction ::
  "persist_env \<Rightarrow> order_intent \<Rightarrow> risk_decision \<Rightarrow> int \<Rightarrow> decimal \<Rightarrow> bool \<Rightarrow> string list \<Rightarrow>
   (pg_risk, risk_decision) operation" where
  "persist_transaction e intent decision day daily_limit final_approved final_reasons s =
     (case find (\<lambda>d. rd_intent_id d = oi_intent_id intent) (pr_decisions s) of
        Some d \<Rightarrow> (Inr d, s)
      | None \<Rightarrow> persist_new e intent decision day daily_limit final_approved final_reasons s)"

definition pg_persist ::
  "persist_env \<Rightarrow> order_intent \<Rightarrow> risk_decision \<Rightarrow> int \<Rightarrow> decimal \<Rightarrow> bool option \<Rightarrow> string list option \<Rightarrow>
   (pg_risk, risk_decision) operation" where
  "pg_persist e intent decision day daily_limit submission_approved violation_reasons s =
     (let fail = (\<lambda>msg. Inl (Exc PostgresRiskStoreError msg));
          final_approved = (case submission_approved of
            None \<Rightarrow> rd_decision decision = APPROVE | Some b \<Rightarrow> b);
          final_reasons = (case violation_reasons of None \<Rightarrow> rd_reasons decision | Some r \<Rightarrow> r)
      in if rd_intent_id decision \<noteq> oi_intent_id intent \<or> daily_limit \<le> 0
         then (fail ''invalid_risk_persistence_request'', s)
         else if final_approved \<and> rd_decision decision = REJECT
         then (fail ''invalid_risk_persistence_request'', s)
         else if \<not> final_approved \<and> final_reasons = []
         then (fail ''risk_violation_reasons_required'', s)
         else case persist_transaction e intent decision day daily_limit final_approved final_reasons s of
           (Inl x, _) \<Rightarrow> (fail ''risk_persistence_uncertain'', s)
         | (Inr d, t) \<Rightarrow>
             (case pe_tx e of
                TxCommitted \<Rightarrow> (Inr d, t)
              | TxRolledBack \<Rightarrow> (fail ''risk_persistence_uncertain'', s)
              | TxReplyLost \<Rightarrow> (fail ''risk_persistence_uncertain'', t)))"

section \<open>Facts\<close>

lemma dval_exact_plus [simp]: "dval (exact_plus a b) = dval a + dval b"
  by (simp add: exact_plus_def Let_def distrib_right align_value)

lemma numeric_sum_snoc [simp]: "numeric_sum (xs @ [x]) = exact_plus (numeric_sum xs) x"
  by (simp add: numeric_sum_def)

lemma numeric_sum_Nil [simp]: "dval (numeric_sum []) = 0"
  by (simp add: numeric_sum_def)

lemma dval_numeric_sum: "dval (numeric_sum xs) = sum_list (map dval xs)"
  by (induction xs rule: rev_induct) simp_all

lemma numeric12_grid: "on_grid 12 (dval d) \<Longrightarrow> dval (numeric12 d) = dval d"
proof (cases "- 12 \<le> dexp d")
  case False
  assume "on_grid 12 (dval d)"
  then obtain m where m: "dval d = of_int m * 10 powi (- 12)" by (auto simp: on_grid_def)
  define j where "j = nat (- 12 - dexp d)"
  have p: "(10 :: rat) powi (- 12) = 10 ^ j * 10 powi dexp d"
    using powi10_split [of "dexp d" "- 12"] False by (simp add: j_def)
  have "dval d = of_int (m * 10 ^ j) * 10 powi dexp d"
    unfolding m p by (simp add: mult.assoc)
  then have "of_int (coef d) * 10 powi dexp d = (of_int (m * 10 ^ j) * 10 powi dexp d :: rat)"
    unfolding dval_def .
  then have c: "coef d = m * 10 ^ j" by (metis mult_right_cancel of_int_eq_iff powi10_nz)
  have h: "(10 ^ j :: int) div 2 < 10 ^ j" by (intro int_div_less_self) auto
  have "(\<bar>coef d\<bar> + 10 ^ j div 2) div 10 ^ j = \<bar>m\<bar>"
    using h by (simp add: c abs_mult)
  moreover have "sgn (coef d) * \<bar>m\<bar> = m" by (simp add: c sgn_mult) (simp add: sgn_if)
  ultimately show ?thesis
    using False by (simp add: numeric12_def Let_def m j_def [symmetric])
qed (simp add: numeric12_def)

text \<open>A decision is stored at most once per intent, and a stored one is final.\<close>

lemma insert_decision_ok:
  "insert_decision d s = (Inr x, t) \<longleftrightarrow>
   rd_decision_id d \<notin> rd_decision_id ` set (pr_decisions s) \<and>
   rd_intent_id d \<notin> rd_intent_id ` set (pr_decisions s) \<and> t = s\<lparr>pr_decisions := pr_decisions s @ [d]\<rparr>"
  by (auto simp: insert_decision_def)

lemma raise_rejection_frame:
  "raise_rejection e i d day f r s = (x, t) \<Longrightarrow>
   pr_decisions t = pr_decisions s \<and> pr_reservations t = pr_reservations s \<and>
   pr_policy_version_id t = pr_policy_version_id s"
  by (auto simp: raise_rejection_def split: if_splits prod.splits sum.splits)

lemma insert_reservation_ok:
  assumes "insert_reservation e i d day s = (Inr x, t)"
  shows "t = s\<lparr>pr_reservations := pr_reservations s @
      [\<lparr>rv_reservation_id = pe_reservation_id e, rv_account_id = oi_account_id i,
        rv_intent_id = oi_intent_id i, rv_business_date = day, rv_notional = numeric12 (notional i),
        rv_created_at = rd_decided_at d\<rparr>]\<rparr>"
    and "oi_intent_id i \<notin> rv_intent_id ` set (pr_reservations s)"
  using assms by (auto simp: insert_reservation_def Let_def split: if_splits)

text \<open>What one successful transaction does to decisions and reservations.\<close>

lemma persist_transaction_cases:
  assumes "persist_transaction e i d day l f r s = (Inr x, t)"
    and "f \<longrightarrow> rd_decision d = APPROVE" and "rd_intent_id d = oi_intent_id i"
  shows "t = s \<and> x \<in> set (pr_decisions s) \<and> rd_intent_id x = oi_intent_id i \<or>
    pr_decisions t = pr_decisions s @ [x] \<and> rd_intent_id x = oi_intent_id i \<and>
    oi_intent_id i \<notin> rd_intent_id ` set (pr_decisions s) \<and>
    (if rd_decision x = APPROVE \<and> f
     then x = d \<and> reserved_total (oi_account_id i) day s + notional i \<le> l \<and>
       oi_intent_id i \<notin> rv_intent_id ` set (pr_reservations s) \<and>
       (\<exists>v. pr_reservations t = pr_reservations s @ [v] \<and> rv_account_id v = oi_account_id i \<and>
         rv_business_date v = day \<and> rv_intent_id v = oi_intent_id i \<and> rv_notional v = numeric12 (notional i))
     else pr_reservations t = pr_reservations s)"
proof (cases "find (\<lambda>d. rd_intent_id d = oi_intent_id i) (pr_decisions s)")
  case (Some y)
  have "y \<in> set (pr_decisions s) \<and> rd_intent_id y = oi_intent_id i"
    using Some by (induction "pr_decisions s") (auto simp: find_Some_iff)
  then show ?thesis using assms(1) Some by (simp add: persist_transaction_def)
next
  case None
  have run: "persist_new e i d day l f r s = (Inr x, t)"
    using assms(1) None by (simp add: persist_transaction_def)
  have fin: "pr_decisions v = pr_decisions u @ [y] \<and> z = y \<and> pr_reservations v = pr_reservations u \<and>
      rd_intent_id y \<notin> rd_intent_id ` set (pr_decisions u)"
    if "bind_method (insert_decision y) (\<lambda>_. bind_method (raise_rejection e i y day g q) (\<lambda>_ t. (Inr y, t))) u = (Inr z, v)"
    for y z g q u v
    using that by (auto simp: bind_method_Inr_iff insert_decision_ok dest!: raise_rejection_frame)
  consider (over) "rd_decision d = APPROVE" f "l < reserved_total (oi_account_id i) day s + notional i"
    | (within) "rd_decision d = APPROVE" f "\<not> l < reserved_total (oi_account_id i) day s + notional i"
    | (none) "\<not> (rd_decision d = APPROVE \<and> f)" by blast
  then show ?thesis
  proof cases
    case over
    let ?d = "create_risk_decision (pe_limit_decision_id e) (pe_limit_decided_at e) (oi_intent_id i) REJECT
      [''daily_order_notional_limit'']"
    have "pr_decisions t = pr_decisions s @ [?d] \<and> x = ?d \<and> pr_reservations t = pr_reservations s \<and>
        rd_intent_id ?d \<notin> rd_intent_id ` set (pr_decisions s)"
      using run over by (intro fin) (simp add: persist_new_def Let_def)
    then show ?thesis by (simp add: create_risk_decision_def)
  next
    case within
    then obtain u where u: "insert_reservation e i d day s = (Inr (), u)"
      "bind_method (insert_decision d) (\<lambda>_. bind_method (raise_rejection e i d day f r) (\<lambda>_ t. (Inr d, t))) u = (Inr x, t)"
      using run by (auto simp: persist_new_def Let_def bind_method_Inr_iff [of "insert_reservation e i d day"])
    note v = insert_reservation_ok [OF u(1)]
    from fin [OF u(2)] within v show ?thesis by (auto simp: assms(3))
  next
    case none
    have "pr_decisions t = pr_decisions s @ [d] \<and> x = d \<and> pr_reservations t = pr_reservations s \<and>
        rd_intent_id d \<notin> rd_intent_id ` set (pr_decisions s)"
      using run none by (intro fin) (auto simp: persist_new_def Let_def)
    then show ?thesis using none by (auto simp: assms(3))
  qed
qed

section \<open>Properties\<close>

text \<open>Runs of calls, whatever each call is given and however its transaction ends.\<close>

record persist_call =
  pc_env :: persist_env
  pc_intent :: order_intent
  pc_decision :: risk_decision
  pc_day :: int
  pc_submission_approved :: "bool option"
  pc_violation_reasons :: "string list option"

definition persist_step :: "decimal \<Rightarrow> persist_call \<Rightarrow> (pg_risk, risk_decision) operation" where
  "persist_step daily_limit c =
     pg_persist (pc_env c) (pc_intent c) (pc_decision c) (pc_day c) daily_limit
       (pc_submission_approved c) (pc_violation_reasons c)"

fun persist_all :: "decimal \<Rightarrow> persist_call list \<Rightarrow> pg_risk \<Rightarrow> pg_risk" where
  "persist_all l [] s = s"
| "persist_all l (c # cs) s = persist_all l cs (snd (persist_step l c s))"

text \<open>
  One decision per intent, one reservation per intent, only approved intents hold reservations, and
  no account's reservations of a day exceed the limit.
\<close>

definition pg_risk_ok :: "decimal \<Rightarrow> pg_risk \<Rightarrow> bool" where
  "pg_risk_ok l s \<longleftrightarrow> distinct (map rd_intent_id (pr_decisions s)) \<and>
     distinct (map rv_intent_id (pr_reservations s)) \<and>
     (\<forall>v \<in> set (pr_reservations s). \<exists>d \<in> set (pr_decisions s).
        rd_intent_id d = rv_intent_id v \<and> rd_decision d = APPROVE) \<and>
     (\<forall>a day. dval (reserved_total a day s) \<le> dval l)"

lemma persist_step_cases:
  assumes "persist_step l c s = (r, t)" "t \<noteq> s"
  shows "\<exists>x. pr_decisions t = pr_decisions s @ [x] \<and> rd_intent_id x = oi_intent_id (pc_intent c) \<and>
    oi_intent_id (pc_intent c) \<notin> rd_intent_id ` set (pr_decisions s) \<and>
    (pr_reservations t = pr_reservations s \<or>
     rd_decision x = APPROVE \<and>
     reserved_total (oi_account_id (pc_intent c)) (pc_day c) s + notional (pc_intent c) \<le> l \<and>
     oi_intent_id (pc_intent c) \<notin> rv_intent_id ` set (pr_reservations s) \<and>
     (\<exists>v. pr_reservations t = pr_reservations s @ [v] \<and> rv_account_id v = oi_account_id (pc_intent c) \<and>
        rv_business_date v = pc_day c \<and> rv_intent_id v = oi_intent_id (pc_intent c) \<and>
        rv_notional v = numeric12 (notional (pc_intent c)))) \<and>
    (\<forall>y. r = Inr y \<longrightarrow> y = x)"
proof -
  define f where "f = (case pc_submission_approved c of None \<Rightarrow> rd_decision (pc_decision c) = APPROVE | Some b \<Rightarrow> b)"
  define q where "q = (case pc_violation_reasons c of None \<Rightarrow> rd_reasons (pc_decision c) | Some r \<Rightarrow> r)"
  obtain x u where tr: "persist_transaction (pc_env c) (pc_intent c) (pc_decision c) (pc_day c) l f q s = (Inr x, u)"
    and id: "rd_intent_id (pc_decision c) = oi_intent_id (pc_intent c)"
    and f: "f \<longrightarrow> rd_decision (pc_decision c) = APPROVE" and u: "t = u" "\<forall>y. r = Inr y \<longrightarrow> y = x"
    using assms unfolding persist_step_def pg_persist_def Let_def f_def [symmetric] q_def [symmetric]
    by (cases "rd_decision (pc_decision c)") (auto split: if_splits prod.splits sum.splits tx.splits)
  from persist_transaction_cases [OF tr f id] assms(2) u show ?thesis by (auto split: if_splits)
qed

text \<open>
  A call within the grid keeps the invariant: the amounts that a total can reach are whole multiples
  of the twelfth decimal place below ten to the 16, so sums and stored amounts are exact.
\<close>

lemma reserved_total_snoc:
  "pr_reservations t = pr_reservations s @ [v] \<Longrightarrow>
   dval (reserved_total a d t) = dval (reserved_total a d s) +
     (if rv_account_id v = a \<and> rv_business_date v = d then dval (rv_notional v) else 0)"
  by (simp add: reserved_total_def dval_numeric_sum)

definition grid_reservations :: "pg_risk \<Rightarrow> bool" where
  "grid_reservations s \<longleftrightarrow>
     (\<forall>v \<in> set (pr_reservations s). on_grid 12 (dval (rv_notional v)) \<and> 0 \<le> dval (rv_notional v))"

lemma on_grid_sum:
  "(\<forall>x \<in> set xs. on_grid k (dval x) \<and> 0 \<le> dval x) \<Longrightarrow>
   on_grid k (dval (numeric_sum xs)) \<and> 0 \<le> dval (numeric_sum xs)"
  by (induction xs rule: rev_induct) (auto intro: on_grid_plus)

lemma reserved_total_grid:
  "grid_reservations s \<Longrightarrow> on_grid 12 (dval (reserved_total a d s)) \<and> 0 \<le> dval (reserved_total a d s)"
  unfolding reserved_total_def by (rule on_grid_sum) (auto simp: grid_reservations_def)

lemma persist_step_keeps:
  assumes "pg_risk_ok l s" "grid_reservations s"
    and n: "on_grid 12 (dval (notional (pc_intent c)))" "0 \<le> dval (notional (pc_intent c))"
      "dval (notional (pc_intent c)) < 10 ^ 15"
    and l: "dval l < 10 ^ 15"
    and st: "persist_step l c s = (r, t)"
  shows "pg_risk_ok l t \<and> grid_reservations t"
proof (cases "t = s")
  case True
  then show ?thesis using assms by simp
next
  case False
  let ?i = "pc_intent c"
  obtain x where x: "pr_decisions t = pr_decisions s @ [x]" "rd_intent_id x = oi_intent_id ?i"
    "oi_intent_id ?i \<notin> rd_intent_id ` set (pr_decisions s)"
    and v: "pr_reservations t = pr_reservations s \<or>
     rd_decision x = APPROVE \<and>
     reserved_total (oi_account_id ?i) (pc_day c) s + notional ?i \<le> l \<and>
     oi_intent_id ?i \<notin> rv_intent_id ` set (pr_reservations s) \<and>
     (\<exists>v. pr_reservations t = pr_reservations s @ [v] \<and> rv_account_id v = oi_account_id ?i \<and>
        rv_business_date v = pc_day c \<and> rv_intent_id v = oi_intent_id ?i \<and>
        rv_notional v = numeric12 (notional ?i))"
    using persist_step_cases [OF st False] by blast
  have dist: "distinct (map rd_intent_id (pr_decisions t))"
    using assms(1) x by (simp add: pg_risk_ok_def)
  from v show ?thesis
  proof
    assume e: "pr_reservations t = pr_reservations s"
    then have "reserved_total a d t = reserved_total a d s" for a d by (simp add: reserved_total_def)
    then show ?thesis
      using assms(1,2) dist e x(1) by (auto simp: pg_risk_ok_def grid_reservations_def)
  next
    assume e: "rd_decision x = APPROVE \<and>
     reserved_total (oi_account_id ?i) (pc_day c) s + notional ?i \<le> l \<and>
     oi_intent_id ?i \<notin> rv_intent_id ` set (pr_reservations s) \<and>
     (\<exists>v. pr_reservations t = pr_reservations s @ [v] \<and> rv_account_id v = oi_account_id ?i \<and>
        rv_business_date v = pc_day c \<and> rv_intent_id v = oi_intent_id ?i \<and>
        rv_notional v = numeric12 (notional ?i))"
    then obtain v where v: "pr_reservations t = pr_reservations s @ [v]" "rv_account_id v = oi_account_id ?i"
      "rv_business_date v = pc_day c" "rv_intent_id v = oi_intent_id ?i" "rv_notional v = numeric12 (notional ?i)"
      by blast
    have amount: "dval (rv_notional v) = dval (notional ?i)" by (simp add: v(5) numeric12_grid [OF n(1)])
    let ?T = "reserved_total (oi_account_id ?i) (pc_day c) s"
    note g = reserved_total_grid [OF assms(2), of "oi_account_id ?i" "pc_day c"]
    have le: "dval ?T \<le> dval l" using assms(1) by (simp add: pg_risk_ok_def)
    have g2: "on_grid 12 (dval ?T + dval (notional ?i))" using g n(1) by (intro on_grid_plus) auto
    have "representable (dval ?T + dval (notional ?i))"
      using g2 g n le l by (intro on_grid_representable [of 12]) (auto simp: prec_def power_int_minus)
    then have "dval ?T + dval (notional ?i) \<le> dval l"
      using e by (simp add: dle_iff dval_plus_exact)
    then have "dval (reserved_total a d t) \<le> dval l" for a d
      using reserved_total_snoc [OF v(1), of a d] amount v(2,3) assms(1) by (auto simp: pg_risk_ok_def)
    moreover have "grid_reservations t"
      using assms(2) n amount by (auto simp: grid_reservations_def v(1))
    moreover have "distinct (map rv_intent_id (pr_reservations t))"
      using assms(1) e by (simp add: pg_risk_ok_def v(1,4))
    moreover have "\<forall>w \<in> set (pr_reservations t). \<exists>d \<in> set (pr_decisions t).
        rd_intent_id d = rv_intent_id w \<and> rd_decision d = APPROVE"
      using assms(1) e x v(1,4) by (auto simp: pg_risk_ok_def)
    ultimately show ?thesis using dist by (simp add: pg_risk_ok_def)
  qed
qed

lemma pg_persist_Inr:
  assumes "pg_persist e i d day l sa vr s = (Inr x, t)"
  shows "\<exists>f r. persist_transaction e i d day l f r s = (Inr x, t) \<and>
    (f \<longrightarrow> rd_decision d = APPROVE) \<and> rd_intent_id d = oi_intent_id i"
proof -
  define f where "f = (case sa of None \<Rightarrow> rd_decision d = APPROVE | Some b \<Rightarrow> b)"
  define q where "q = (case vr of None \<Rightarrow> rd_reasons d | Some r \<Rightarrow> r)"
  have "persist_transaction e i d day l f q s = (Inr x, t) \<and>
    (f \<longrightarrow> rd_decision d = APPROVE) \<and> rd_intent_id d = oi_intent_id i"
    using assms unfolding pg_persist_def Let_def f_def [symmetric] q_def [symmetric]
    by (cases "rd_decision d") (auto split: if_splits prod.splits sum.splits tx.splits)
  then show ?thesis by blast
qed

lemma persist_transaction_found:
  assumes "persist_transaction e i d day l f r s = (Inr x, t)"
    and "f \<longrightarrow> rd_decision d = APPROVE" and "rd_intent_id d = oi_intent_id i"
  shows "find (\<lambda>d. rd_intent_id d = oi_intent_id i) (pr_decisions t) = Some x"
proof (cases "find (\<lambda>d. rd_intent_id d = oi_intent_id i) (pr_decisions s)")
  case (Some y)
  then show ?thesis using assms(1) by (simp add: persist_transaction_def)
next
  case None
  then have "oi_intent_id i \<notin> rd_intent_id ` set (pr_decisions s)"
    by (auto simp: find_None_iff)
  then have "pr_decisions t = pr_decisions s @ [x] \<and> rd_intent_id x = oi_intent_id i"
    using persist_transaction_cases [OF assms] by (metis image_eqI)
  moreover have "find P (xs @ [y]) = Some y" if "find P xs = None" "P y" for P xs and y :: risk_decision
    using that by (induction xs) (auto split: if_splits)
  ultimately show ?thesis using None by simp
qed

definition empty_pg_risk :: "uuid \<Rightarrow> bool \<Rightarrow> pg_risk" where
  "empty_pg_risk v b = \<lparr>pr_policy_version_id = v, pr_has_alert_store = b, pr_decisions = [],
     pr_reservations = [], pr_alerts = empty_alerts\<rparr>"

text \<open>
  However often calls repeat an intent and however transactions end, the Postgres store holds one
  decision and at most one reservation per intent, reserves only for approved intents, and keeps every
  account's reservations of a day within the limit (amounts on the grid of twelve places).
\<close>

theorem postgres_risk_store_invariant:
  assumes "\<forall>c \<in> set cs. on_grid 12 (dval (notional (pc_intent c))) \<and> 0 \<le> dval (notional (pc_intent c)) \<and>
      dval (notional (pc_intent c)) < 10 ^ 15"
    and "0 \<le> dval l" "dval l < 10 ^ 15"
  shows "pg_risk_ok l (persist_all l cs (empty_pg_risk v b))"
proof -
  have "pg_risk_ok l s \<Longrightarrow> grid_reservations s \<Longrightarrow> pg_risk_ok l (persist_all l cs s)" for s
    using assms(1)
  proof (induction cs arbitrary: s)
    case Nil
    then show ?case by simp
  next
    case (Cons c cs)
    obtain r t where t: "persist_step l c s = (r, t)" by (cases "persist_step l c s")
    have "pg_risk_ok l t \<and> grid_reservations t"
      using Cons.prems by (intro persist_step_keeps [OF _ _ _ _ _ assms(3) t]) auto
    then show ?case using Cons.IH [of t] Cons.prems(3) by (simp add: t)
  qed
  then show ?thesis
    using assms(2) by (simp add: pg_risk_ok_def grid_reservations_def empty_pg_risk_def reserved_total_def)
qed

text \<open>
  The answer to a repeated intent is the stored one: once a call has stored a decision, every later
  call for that intent whose request is valid and whose commit is answered returns that decision and
  changes nothing.
\<close>

theorem postgres_persist_idempotent:
  assumes "pg_persist e i d day l sa vr s = (Inr x, t)"
    and "pg_persist e' i' d' day' l' sa' vr' t = (Inr y, u)"
    and "oi_intent_id i' = oi_intent_id i"
  shows "y = x \<and> u = t"
proof -
  obtain f r where 1: "persist_transaction e i d day l f r s = (Inr x, t)"
    "f \<longrightarrow> rd_decision d = APPROVE" "rd_intent_id d = oi_intent_id i"
    using pg_persist_Inr [OF assms(1)] by blast
  obtain f' r' where 2: "persist_transaction e' i' d' day' l' f' r' t = (Inr y, u)"
    using pg_persist_Inr [OF assms(2)] by blast
  show ?thesis using persist_transaction_found [OF 1] 2 assms(3) by (simp add: persist_transaction_def)
qed

definition demo_intent :: order_intent where
  "demo_intent = \<lparr>oi_intent_id = 1, oi_signal_id = 2, oi_instrument_id = ''BTC'', oi_account_id = ''acc'',
     oi_side = BUY, oi_quantity = Dec 10 0, oi_limit_price = Dec 100 0, oi_created_at = Aware 0 0\<rparr>"

definition demo_persist_env :: "nat \<Rightarrow> persist_env" where
  "demo_persist_env n = \<lparr>pe_tx = TxCommitted, pe_reservation_id = n, pe_limit_decision_id = n + 100,
     pe_limit_decided_at = Aware 0 0,
     pe_alert = \<lparr>le_alert_id = n, le_event_id = n, le_now = Aware 0 0, le_event_now = Aware 0 0\<rparr>\<rparr>"

definition demo_decision :: "uuid \<Rightarrow> risk_decision" where
  "demo_decision n = create_risk_decision n (Aware 0 0) 1 APPROVE []"

definition demo_store :: pg_risk where
  "demo_store = (empty_pg_risk 9 True)\<lparr>pr_decisions := [demo_decision 5], pr_reservations :=
     [\<lparr>rv_reservation_id = 3, rv_account_id = ''acc'', rv_intent_id = 1, rv_business_date = 0,
       rv_notional = Dec 1000 0, rv_created_at = Aware 0 0\<rparr>]\<rparr>"

lemmas demo_eval = demo_intent_def demo_persist_env_def demo_decision_def demo_store_def empty_pg_risk_def
  pg_persist_def persist_transaction_def persist_new_def bind_method_def insert_reservation_def
  insert_decision_def raise_rejection_def reserved_total_def numeric_sum_def exact_plus_def numeric12_def
  numeric_fits_def notional_def align_def create_risk_decision_def Let_def

lemma demo_first:
  "pg_persist (demo_persist_env 3) demo_intent (demo_decision 5) 0 (Dec 1500 0) None None (empty_pg_risk 9 True) =
   (Inr (demo_decision 5), demo_store)"
  by (simp add: demo_eval dec_eval)

theorem postgres_persist_idempotent_witness:
  "pg_persist (demo_persist_env 4) demo_intent (demo_decision 6) 0 (Dec 1500 0) None None demo_store =
   (Inr (demo_decision 5), demo_store)"
proof -
  obtain y u where r: "pg_persist (demo_persist_env 4) demo_intent (demo_decision 6) 0 (Dec 1500 0) None None
      demo_store = (Inr y, u)"
    by (simp add: demo_eval dec_eval)
  show ?thesis using postgres_persist_idempotent [OF demo_first r] r by simp
qed

theorem postgres_risk_store_invariant_witness:
  "pg_risk_ok (Dec 1500 0) (persist_all (Dec 1500 0)
     [\<lparr>pc_env = demo_persist_env 3, pc_intent = demo_intent, pc_decision = demo_decision 5, pc_day = 0,
       pc_submission_approved = None, pc_violation_reasons = None\<rparr>] (empty_pg_risk 9 True))"
proof -
  have g: "on_grid 12 1000"
    unfolding on_grid_def by (rule exI [of _ "1000 * 10 ^ 12"]) (simp add: power_int_minus)
  have n: "dval (notional demo_intent) = 1000" by (simp add: notional_def demo_intent_def dec_eval)
  show ?thesis
    by (rule postgres_risk_store_invariant) (simp_all add: n g)
qed

end
