(* ===== verification/RiskEngine.thy ===== *)
theory RiskEngine
  imports PerTradeRisk RiskLedgers PostgresRiskStore
begin

text \<open>
  \<open>RiskEngine\<close> of \<open>risk.py\<close>: the assessment of an intent against signal, market, portfolio and
  execution evidence, over whichever stores the engine was built with. The stores again keep the
  ledger interfaces, so what the ledgers promise carries over to runs of assessments.
\<close>

section \<open>Execution context\<close>

record execution_context =
  ec_session_open :: bool
  ec_instrument_halted :: bool
  ec_quote_available :: bool
  ec_expected_slippage_fraction :: decimal
  ec_event_risk :: decimal
  ec_available_buying_power :: decimal
  ec_broker_state_certain :: bool
  ec_strategy_enabled :: bool
  ec_model_approved :: bool

definition validate_execution :: "execution_context \<Rightarrow> unit result" where
  "validate_execution x =
     (if ec_expected_slippage_fraction x < 0 \<or> \<not> (0 \<le> ec_event_risk x \<and> ec_event_risk x \<le> 1) \<or>
         ec_available_buying_power x < 0
      then Inl (Exc ValueError ''invalid_pre_trade_execution_context'')
      else Inr ())"

section \<open>The engine and its stores\<close>

datatype switch_store =
    MemorySwitches "string set"
  | SqliteSwitches "kill_switch_event list"
  | PostgresSwitches bool "kill_switch_event list"

datatype claim_store = MemoryClaims "uuid set" | SqliteClaims "(uuid \<times> datetime) list"

datatype daily_store = MemoryDaily daily_notional | SqliteDaily "notional_row list"

record risk_engine =
  re_policy :: risk_policy
  re_switches :: switch_store
  re_claims :: claim_store
  re_daily :: daily_store
  re_decisions :: "risk_decision list option"
  re_postgres :: "pg_risk option"

text \<open>The call the engine makes: only the account is passed besides instrument and strategy.\<close>

definition engine_blocks :: "switch_store \<Rightarrow> string \<Rightarrow> string \<Rightarrow> string \<Rightarrow> bool result" where
  "engine_blocks store instrument_id strategy_version account_id =
     (case store of
        MemorySwitches s \<Rightarrow> Inr (mem_blocks instrument_id strategy_version (Some account_id) None None None s)
      | SqliteSwitches evs \<Rightarrow> Inr (sql_blocks instrument_id strategy_version (Some account_id) None None None evs)
      | PostgresSwitches available evs \<Rightarrow>
          pg_blocks available instrument_id strategy_version (Some account_id) None None None evs)"

definition engine_claim :: "datetime \<Rightarrow> uuid \<Rightarrow> (claim_store, bool) operation" where
  "engine_claim now i store =
     (case store of
        MemoryClaims s \<Rightarrow> (case mem_claim i s of (r, t) \<Rightarrow> (r, MemoryClaims t))
      | SqliteClaims rows \<Rightarrow> (case sql_claim now i rows of (r, t) \<Rightarrow> (r, SqliteClaims t)))"

definition engine_reserve :: "int \<Rightarrow> decimal \<Rightarrow> order_intent \<Rightarrow> (daily_store, bool) operation" where
  "engine_reserve day maximum intent store =
     (case store of
        MemoryDaily s \<Rightarrow> (case mem_reserve day maximum intent s of (r, t) \<Rightarrow> (r, MemoryDaily t))
      | SqliteDaily rows \<Rightarrow> (case sql_reserve day maximum intent rows of (r, t) \<Rightarrow> (r, SqliteDaily t)))"

text \<open>\<open>_record\<close>\<close>

definition record_decision :: "risk_decision \<Rightarrow> (risk_engine, unit) operation" where
  "record_decision d e =
     (case re_decisions e of
        None \<Rightarrow> (Inr (), e)
      | Some rows \<Rightarrow> (case store_append d rows of (r, t) \<Rightarrow> (r, e\<lparr>re_decisions := Some t\<rparr>)))"

section \<open>Assessment\<close>

text \<open>Fresh identifiers and clock readings of one call, in the order the code takes them.\<close>

record assess_env =
  ae_claimed_at :: datetime
  ae_now :: datetime
  ae_signal_now :: datetime
  ae_decision_id :: uuid
  ae_decided_at :: datetime
  ae_persist :: persist_env
  ae_fallback_id :: uuid
  ae_fallback_at :: datetime

definition reason_if :: "bool \<Rightarrow> string \<Rightarrow> string list" where
  "reason_if b r = (if b then [r] else [])"

definition input_reasons ::
  "assess_env \<Rightarrow> risk_policy \<Rightarrow> order_intent \<Rightarrow> signal \<Rightarrow> market_snapshot \<Rightarrow> string list" where
  "input_reasons env p i s m =
     reason_if (sig_signal_id s \<noteq> oi_signal_id i) ''signal_intent_mismatch'' @
     reason_if (sig_instrument_id s \<noteq> oi_instrument_id i) ''signal_instrument_mismatch'' @
     reason_if (sig_status s \<noteq> VALIDATED \<or> is_expired s (ae_signal_now env)) ''signal_not_validated_or_expired'' @
     reason_if (ms_instrument_id m \<noteq> oi_instrument_id i) ''market_instrument_mismatch'' @
     reason_if (instant (ms_observed_at m) < instant (ae_now env) - seconds (rp_max_market_age_seconds p))
       ''stale_market_data'' @
     reason_if (dmin (ms_data_quality_score m) (sig_data_quality_score s) < rp_minimum_data_quality p)
       ''insufficient_data_quality'' @
     reason_if (xgt (spread_fraction m) (rp_maximum_spread_fraction p)) ''excessive_spread'' @
     reason_if (oi_quantity i \<le> 0 \<or> oi_limit_price i \<le> 0) ''invalid_order_quantity_or_price'' @
     reason_if (rp_maximum_order_notional p < notional i) ''order_notional_limit''"

definition projected_notional :: "order_intent \<Rightarrow> portfolio_state \<Rightarrow> decimal" where
  "projected_notional i ps =
     position_notional ps (oi_instrument_id i) + (if oi_side i = BUY then notional i else - notional i)"

definition portfolio_reasons :: "risk_policy \<Rightarrow> order_intent \<Rightarrow> portfolio_state \<Rightarrow> string list" where
  "portfolio_reasons p i ps =
     reason_if (rp_maximum_position_notional p < dabs (projected_notional i ps)) ''position_notional_limit'' @
     reason_if (\<not> ps_reconciliation_complete ps \<or> \<not> ps_risk_increase_allowed ps)
       ''reconciliation_or_risk_increase_block''"

definition switch_reasons :: "switch_store \<Rightarrow> order_intent \<Rightarrow> signal \<Rightarrow> string list result" where
  "switch_reasons store i s =
     (case engine_blocks store (oi_instrument_id i) (sig_strategy_version s) (oi_account_id i) of
        Inr b \<Rightarrow> Inr (reason_if b ''kill_switch_active'')
      | Inl x \<Rightarrow> if is_persistence_error x then Inr [''kill_switch_state_uncertain''] else Inl x)"

definition execution_reasons :: "risk_policy \<Rightarrow> order_intent \<Rightarrow> execution_context option \<Rightarrow> string list result" where
  "execution_reasons p i ex =
     (case ex of
        None \<Rightarrow> Inr [''missing_execution_context'']
      | Some x \<Rightarrow> bind_result (validate_execution x) (\<lambda>_. Inr (
          reason_if (\<not> ec_session_open x) ''invalid_trading_session'' @
          reason_if (ec_instrument_halted x) ''instrument_halted'' @
          reason_if (\<not> ec_quote_available x) ''quote_missing'' @
          reason_if (rp_maximum_expected_slippage_fraction p < ec_expected_slippage_fraction x)
            ''expected_slippage_limit'' @
          reason_if (rp_maximum_event_risk p < ec_event_risk x) ''event_risk_limit'' @
          reason_if (oi_side i = BUY \<and> ec_available_buying_power x < notional i) ''insufficient_buying_power'' @
          reason_if (\<not> ec_broker_state_certain x) ''broker_state_uncertain'' @
          reason_if (\<not> ec_strategy_enabled x) ''strategy_disabled'' @
          reason_if (\<not> ec_model_approved x) ''model_not_approved'')))"

definition assess_reasons ::
  "assess_env \<Rightarrow> risk_policy \<Rightarrow> switch_store \<Rightarrow> order_intent \<Rightarrow> signal \<Rightarrow> market_snapshot \<Rightarrow> portfolio_state \<Rightarrow>
   execution_context option \<Rightarrow> string list result" where
  "assess_reasons env p store i s m ps ex =
     bind_result (evaluate_per_trade_risk i s p) (\<lambda>(_, per_trade).
     bind_result (switch_reasons store i s) (\<lambda>switches.
     bind_result (execution_reasons p i ex) (\<lambda>execution.
       Inr (input_reasons env p i s m @ per_trade @ portfolio_reasons p i ps @ switches @ execution))))"

text \<open>The last gate: the daily reservation, only for an intent without a reason against it.\<close>

definition reserve_if_clear ::
  "assess_env \<Rightarrow> order_intent \<Rightarrow> string list \<Rightarrow> (risk_engine, string list) operation" where
  "reserve_if_clear env i reasons e =
     (if reasons = [] \<and> re_postgres e = None then
        case engine_reserve (date_of (ae_now env)) (rp_maximum_daily_order_notional (re_policy e)) i (re_daily e) of
          (Inl x, t) \<Rightarrow> (Inl x, e\<lparr>re_daily := t\<rparr>)
        | (Inr granted, t) \<Rightarrow>
            (Inr (reason_if (\<not> granted) ''daily_order_notional_limit''), e\<lparr>re_daily := t\<rparr>)
      else (Inr reasons, e))"

definition conclude :: "assess_env \<Rightarrow> order_intent \<Rightarrow> string list \<Rightarrow> (risk_engine, risk_decision) operation" where
  "conclude env i reasons e =
     (let d = create_risk_decision (ae_decision_id env) (ae_decided_at env) (oi_intent_id i)
                (if reasons = [] then APPROVE else REJECT) reasons
      in case re_postgres e of
           Some pg \<Rightarrow>
             (case pg_persist (ae_persist env) i d (date_of (ae_now env))
                     (rp_maximum_daily_order_notional (re_policy e)) None None pg of
                (Inr x, t) \<Rightarrow> (Inr x, e\<lparr>re_postgres := Some t\<rparr>)
              | (Inl x, t) \<Rightarrow>
                  (if exc_class x = PostgresRiskStoreError
                   then Inr (create_risk_decision (ae_fallback_id env) (ae_fallback_at env) (oi_intent_id i)
                               REJECT [''risk_persistence_uncertain''])
                   else Inl x, e\<lparr>re_postgres := Some t\<rparr>))
         | None \<Rightarrow> bind_method (record_decision d) (\<lambda>_ t. (Inr d, t)) e)"

definition assess_body ::
  "assess_env \<Rightarrow> order_intent \<Rightarrow> signal \<Rightarrow> market_snapshot \<Rightarrow> portfolio_state \<Rightarrow> execution_context option \<Rightarrow>
   (risk_engine, risk_decision) operation" where
  "assess_body env i s m ps ex e =
     (case assess_reasons env (re_policy e) (re_switches e) i s m ps ex of
        Inl x \<Rightarrow> (Inl x, e)
      | Inr reasons \<Rightarrow> bind_method (reserve_if_clear env i reasons) (conclude env i) e)"

definition assess ::
  "assess_env \<Rightarrow> order_intent \<Rightarrow> signal \<Rightarrow> market_snapshot \<Rightarrow> portfolio_state \<Rightarrow> execution_context option \<Rightarrow>
   (risk_engine, risk_decision) operation" where
  "assess env i s m ps ex e =
     (if re_postgres e \<noteq> None then assess_body env i s m ps ex e
      else case engine_claim (ae_claimed_at env) (oi_intent_id i) (re_claims e) of
        (Inl x, t) \<Rightarrow> (Inl x, e\<lparr>re_claims := t\<rparr>)
      | (Inr claimed, t) \<Rightarrow>
          let e1 = e\<lparr>re_claims := t\<rparr> in
          if \<not> claimed then
            let d = create_risk_decision (ae_decision_id env) (ae_decided_at env) (oi_intent_id i) REJECT
                      [''duplicate_intent'']
            in bind_method (record_decision d) (\<lambda>_ u. (Inr d, u)) e1
          else assess_body env i s m ps ex e1)"

definition reject_unassessable ::
  "uuid \<Rightarrow> datetime \<Rightarrow> uuid \<Rightarrow> string \<Rightarrow> (risk_engine, risk_decision) operation" where
  "reject_unassessable new_id now intent_id reason e =
     (if blank reason then (Inl (Exc ValueError ''unassessable_rejection_reason_required''), e)
      else let d = create_risk_decision new_id now intent_id REJECT [reason]
           in bind_method (record_decision d) (\<lambda>_ t. (Inr d, t)) e)"

section \<open>The stores keep the ledger interfaces\<close>

fun claimed_ids :: "claim_store \<Rightarrow> uuid set" where
  "claimed_ids (MemoryClaims s) = s"
| "claimed_ids (SqliteClaims rows) = fst ` set rows"

interpretation engine_claims: idempotency_ledger engine_claim claimed_ids
proof unfold_locales
  fix e i s r t
  assume a: "engine_claim e i s = (r, t)"
  show "r = Inr (i \<notin> claimed_ids s) \<and> claimed_ids t = insert i (claimed_ids s)"
  proof (cases s)
    case (MemoryClaims x)
    then obtain y where "mem_claim i x = (r, y)" "t = MemoryClaims y"
      using a by (auto simp: engine_claim_def split: prod.splits)
    with mem_claims.claim_law [OF this(1)] MemoryClaims show ?thesis by simp
  next
    case (SqliteClaims x)
    then obtain y where "sql_claim e i x = (r, y)" "t = SqliteClaims y"
      using a by (auto simp: engine_claim_def split: prod.splits)
    with sql_claims.claim_law [OF this(1)] SqliteClaims show ?thesis by simp
  qed
qed

fun daily_total :: "daily_store \<Rightarrow> string \<times> int \<Rightarrow> decimal" where
  "daily_total (MemoryDaily s) = mem_total s"
| "daily_total (SqliteDaily rows) = rows_total rows"

fun daily_ids :: "daily_store \<Rightarrow> uuid set" where
  "daily_ids (MemoryDaily s) = dn_intent_ids s"
| "daily_ids (SqliteDaily rows) = nr_intent_id ` set rows"

fun daily_ok :: "daily_store \<Rightarrow> bool" where
  "daily_ok (MemoryDaily s) = True"
| "daily_ok (SqliteDaily rows) = rows_readable rows"

interpretation engine_daily: daily_ledger engine_reserve daily_total daily_ids daily_ok
proof unfold_locales
  fix s m d i r t
  assume a: "daily_ok s" "0 < m" "engine_reserve d m i s = (r, t)"
  show "let k = (oi_account_id i, d); granted = (oi_intent_id i \<notin> daily_ids s \<and> daily_total s k + notional i \<le> m)
     in r = Inr granted \<and> daily_ok t \<and>
        (if granted then daily_ids t = insert (oi_intent_id i) (daily_ids s) \<and>
                         daily_total t = (daily_total s)(k := daily_total s k + notional i)
         else t = s)"
  proof (cases s)
    case (MemoryDaily x)
    obtain y where "mem_reserve d m i x = (r, y)" "t = MemoryDaily y"
      using a(3) MemoryDaily by (auto simp: engine_reserve_def split: prod.splits)
    then show ?thesis using mem_daily.reserve_law [OF TrueI a(2)] MemoryDaily by (auto simp: Let_def)
  next
    case (SqliteDaily x)
    obtain y where "sql_reserve d m i x = (r, y)" "t = SqliteDaily y"
      using a(3) SqliteDaily by (auto simp: engine_reserve_def split: prod.splits)
    then show ?thesis
      using sql_daily.reserve_law [OF _ a(2), of x d i r y] a(1) SqliteDaily by (auto simp: Let_def)
  qed
qed

section \<open>Facts\<close>

named_theorems reason_simps "when a reason is absent"

lemma reason_if_Nil [reason_simps]: "reason_if b r = [] \<longleftrightarrow> \<not> b"
  by (simp add: reason_if_def)

lemma record_decision_frame:
  "record_decision d e = (r, t) \<Longrightarrow>
   re_policy t = re_policy e \<and> re_switches t = re_switches e \<and> re_claims t = re_claims e \<and>
   re_daily t = re_daily e \<and> re_postgres t = re_postgres e"
  by (auto simp: record_decision_def split: option.splits prod.splits)

lemma record_decision_ok:
  "record_decision d e = (Inr x, t) \<Longrightarrow>
   (case re_decisions e of None \<Rightarrow> t = e | Some rows \<Rightarrow> re_decisions t = Some (rows @ [d]))"
  by (auto simp: record_decision_def store_append_def split: option.splits prod.splits if_splits)

text \<open>Without Postgres: what the body of an assessment returns and keeps.\<close>

lemma reserve_if_clear_local:
  assumes "reserve_if_clear env i rs e = (Inr out, t)" "re_postgres e = None"
    and "daily_ok (re_daily e)" "0 < rp_maximum_daily_order_notional (re_policy e)"
  defines "k \<equiv> (oi_account_id i, date_of (ae_now env))"
  defines "granted \<equiv> oi_intent_id i \<notin> daily_ids (re_daily e) \<and>
      daily_total (re_daily e) k + notional i \<le> rp_maximum_daily_order_notional (re_policy e)"
  shows "(out = [] \<longleftrightarrow> rs = [] \<and> granted) \<and> t = e\<lparr>re_daily := re_daily t\<rparr> \<and> daily_ok (re_daily t) \<and>
    (if out = [] then daily_total (re_daily t) = (daily_total (re_daily e))(k := daily_total (re_daily e) k + notional i)
     else re_daily t = re_daily e)"
proof (cases "rs = []")
  case False
  then show ?thesis using assms(1,3) by (simp add: reserve_if_clear_def)
next
  case True
  obtain r u where u: "engine_reserve (date_of (ae_now env)) (rp_maximum_daily_order_notional (re_policy e)) i (re_daily e) = (r, u)"
    by (metis surj_pair)
  note law = engine_daily.reserve_law [OF assms(3,4) u, folded k_def, unfolded Let_def, folded granted_def]
  then have r: "r = Inr granted" by blast
  have t: "t = e\<lparr>re_daily := u\<rparr>" "out = reason_if (\<not> granted) ''daily_order_notional_limit''"
    using assms(1,2) True u r by (auto simp: reserve_if_clear_def)
  show ?thesis using law True t by (auto simp: reason_if_def)
qed

lemma reserve_if_clear_never_raises:
  assumes "daily_ok (re_daily e)" "0 < rp_maximum_daily_order_notional (re_policy e)"
  shows "\<exists>out t. reserve_if_clear env i rs e = (Inr out, t)"
proof -
  obtain r u where u: "engine_reserve (date_of (ae_now env)) (rp_maximum_daily_order_notional (re_policy e)) i (re_daily e) = (r, u)"
    by (metis surj_pair)
  from engine_daily.reserve_law [OF assms u] obtain b where "r = Inr b" by (auto simp: Let_def)
  with u show ?thesis by (auto simp: reserve_if_clear_def)
qed

lemma conclude_local:
  assumes "conclude env i rs e = (Inr d, t)" "re_postgres e = None"
  shows "(rd_decision d = APPROVE \<longleftrightarrow> rs = []) \<and> rd_intent_id d = oi_intent_id i \<and> rd_reasons d = rs \<and>
    re_policy t = re_policy e \<and> re_switches t = re_switches e \<and> re_claims t = re_claims e \<and>
    re_daily t = re_daily e \<and> re_postgres t = None \<and>
    (case re_decisions e of None \<Rightarrow> re_decisions t = None | Some rows \<Rightarrow> re_decisions t = Some (rows @ [d]))"
proof -
  let ?d = "create_risk_decision (ae_decision_id env) (ae_decided_at env) (oi_intent_id i)
      (if rs = [] then APPROVE else REJECT) rs"
  have "record_decision ?d e = (Inr (), t)" "d = ?d"
    using assms by (auto simp: conclude_def Let_def bind_method_Inr_iff)
  with record_decision_frame [OF this(1)] record_decision_ok [OF this(1)] assms(2) show ?thesis
    by (auto simp: create_risk_decision_def split: option.splits)
qed

text \<open>What one assessment without Postgres returns and keeps.\<close>

definition engine_ok :: "risk_engine \<Rightarrow> bool" where
  "engine_ok e \<longleftrightarrow> re_postgres e = None \<and> daily_ok (re_daily e) \<and>
     0 < rp_maximum_daily_order_notional (re_policy e)"

lemma assess_cases:
  assumes e: "engine_ok e" and a: "assess env i s m ps ex e = (Inr d, t)"
  defines "k \<equiv> (oi_account_id i, date_of (ae_now env))"
  shows "(rd_decision d = APPROVE \<longleftrightarrow>
      oi_intent_id i \<notin> claimed_ids (re_claims e) \<and>
      assess_reasons env (re_policy e) (re_switches e) i s m ps ex = Inr [] \<and>
      oi_intent_id i \<notin> daily_ids (re_daily e) \<and>
      daily_total (re_daily e) k + notional i \<le> rp_maximum_daily_order_notional (re_policy e)) \<and>
    rd_intent_id d = oi_intent_id i \<and> engine_ok t \<and>
    claimed_ids (re_claims t) = insert (oi_intent_id i) (claimed_ids (re_claims e)) \<and>
    re_policy t = re_policy e \<and>
    (if rd_decision d = APPROVE
     then daily_total (re_daily t) = (daily_total (re_daily e))(k := daily_total (re_daily e) k + notional i)
     else re_daily t = re_daily e) \<and>
    (case re_decisions e of None \<Rightarrow> re_decisions t = None | Some rows \<Rightarrow> re_decisions t = Some (rows @ [d]))"
proof -
  have pg: "re_postgres e = None" and dok: "daily_ok (re_daily e)"
    and mx: "0 < rp_maximum_daily_order_notional (re_policy e)"
    using e by (auto simp: engine_ok_def)
  obtain r c where c: "engine_claim (ae_claimed_at env) (oi_intent_id i) (re_claims e) = (r, c)"
    by (metis surj_pair)
  note cl = engine_claims.claim_law [OF c]
  let ?e1 = "e\<lparr>re_claims := c\<rparr>"
  show ?thesis
  proof (cases "oi_intent_id i \<in> claimed_ids (re_claims e)")
    case True
    let ?d = "create_risk_decision (ae_decision_id env) (ae_decided_at env) (oi_intent_id i) REJECT [''duplicate_intent'']"
    have "record_decision ?d ?e1 = (Inr (), t)" "d = ?d"
      using a True cl c pg by (auto simp: assess_def Let_def bind_method_Inr_iff)
    with record_decision_frame [OF this(1)] record_decision_ok [OF this(1)] True cl e show ?thesis
      by (auto simp: create_risk_decision_def engine_ok_def split: option.splits)
  next
    case False
    then have "assess_body env i s m ps ex ?e1 = (Inr d, t)"
      using a cl c pg by (simp add: assess_def Let_def)
    then obtain rs where rs: "assess_reasons env (re_policy e) (re_switches e) i s m ps ex = Inr rs"
      and b: "bind_method (reserve_if_clear env i rs) (conclude env i) ?e1 = (Inr d, t)"
      by (auto simp: assess_body_def split: sum.splits)
    obtain out u where o: "reserve_if_clear env i rs ?e1 = (Inr out, u)" "conclude env i out u = (Inr d, t)"
      using b by (auto simp: bind_method_Inr_iff)
    note rl = reserve_if_clear_local [OF o(1), simplified, OF pg dok mx]
    have u: "re_postgres u = None" "re_policy u = re_policy e" "re_claims u = c" "re_decisions u = re_decisions e"
      using rl pg by (metis risk_engine.select_convs risk_engine.surjective risk_engine.update_convs)+
    note co = conclude_local [OF o(2) u(1)]
    show ?thesis
      using rl co u rs cl False e unfolding k_def engine_ok_def by (auto split: if_splits option.splits)
  qed
qed

section \<open>Runs of assessments\<close>

record assess_call =
  ac_env :: assess_env
  ac_intent :: order_intent
  ac_signal :: signal
  ac_market :: market_snapshot
  ac_portfolio :: portfolio_state
  ac_execution :: "execution_context option"

definition assess_call :: "assess_call \<Rightarrow> (risk_engine, risk_decision) operation" where
  "assess_call c = assess (ac_env c) (ac_intent c) (ac_signal c) (ac_market c) (ac_portfolio c) (ac_execution c)"

text \<open>The decisions returned by the calls that did not raise, and the engine afterwards.\<close>

fun assess_all :: "assess_call list \<Rightarrow> risk_engine \<Rightarrow> risk_decision list \<times> risk_engine" where
  "assess_all [] e = ([], e)"
| "assess_all (c # cs) e =
     (case assess_call c e of
        (Inl x, t) \<Rightarrow> assess_all cs t
      | (Inr d, t) \<Rightarrow> (case assess_all cs t of (ds, u) \<Rightarrow> (d # ds, u)))"

definition approved_ids :: "risk_decision list \<Rightarrow> uuid list" where
  "approved_ids ds = map rd_intent_id (filter (\<lambda>d. rd_decision d = APPROVE) ds)"

text \<open>A call that raises leaves the budget alone and keeps its claim.\<close>

lemma assess_raised:
  assumes "engine_ok e" "assess env i s m ps ex e = (Inl x, t)"
  shows "engine_ok t \<and> claimed_ids (re_claims t) = insert (oi_intent_id i) (claimed_ids (re_claims e)) \<and>
    re_policy t = re_policy e \<and>
    (\<forall>k. daily_total (re_daily t) k = daily_total (re_daily e) k \<or>
         daily_total (re_daily t) k \<le> rp_maximum_daily_order_notional (re_policy e))"
proof -
  have pg: "re_postgres e = None" and dok: "daily_ok (re_daily e)"
    and mx: "0 < rp_maximum_daily_order_notional (re_policy e)"
    using assms(1) by (auto simp: engine_ok_def)
  obtain r c where c: "engine_claim (ae_claimed_at env) (oi_intent_id i) (re_claims e) = (r, c)"
    by (metis surj_pair)
  note cl = engine_claims.claim_law [OF c]
  let ?e1 = "e\<lparr>re_claims := c\<rparr>"
  show ?thesis
  proof (cases "oi_intent_id i \<in> claimed_ids (re_claims e)")
    case True
    have "record_decision (create_risk_decision (ae_decision_id env) (ae_decided_at env) (oi_intent_id i) REJECT
        [''duplicate_intent'']) ?e1 = (Inl x, t)"
      using assms(2) True cl c pg by (auto simp: assess_def Let_def bind_method_def split: prod.splits sum.splits)
    from record_decision_frame [OF this] cl assms(1) show ?thesis by (auto simp: engine_ok_def)
  next
    case False
    then have b: "assess_body env i s m ps ex ?e1 = (Inl x, t)"
      using assms(2) cl c pg by (simp add: assess_def Let_def)
    show ?thesis
    proof (cases "assess_reasons env (re_policy e) (re_switches e) i s m ps ex")
      case (Inl y)
      then have "t = ?e1" using b by (simp add: assess_body_def)
      then show ?thesis using cl assms(1) by (simp add: engine_ok_def)
    next
      case (Inr rs)
      obtain out u where o: "reserve_if_clear env i rs ?e1 = (Inr out, u)"
        using reserve_if_clear_never_raises [of ?e1 env i rs] dok mx by auto
      note rl = reserve_if_clear_local [OF o, simplified, OF pg dok mx]
      have u: "re_postgres u = None" "re_policy u = re_policy e" "re_claims u = c"
        using rl pg by (metis risk_engine.select_convs risk_engine.surjective risk_engine.update_convs)+
      have "conclude env i out u = (Inl x, t)"
        using b Inr o by (simp add: assess_body_def bind_method_def)
      then have "record_decision (create_risk_decision (ae_decision_id env) (ae_decided_at env) (oi_intent_id i)
          (if out = [] then APPROVE else REJECT) out) u = (Inl x, t)"
        using u(1) by (auto simp: conclude_def Let_def bind_method_def split: prod.splits sum.splits)
      from record_decision_frame [OF this] rl u cl assms(1) show ?thesis
        by (auto simp: engine_ok_def split: if_splits)
    qed
  qed
qed

lemma assess_all_invariant:
  assumes "engine_ok e"
    and "\<forall>k. daily_total (re_daily e) k \<le> rp_maximum_daily_order_notional (re_policy e)"
    and "assess_all cs e = (ds, t)"
  shows "distinct (approved_ids ds) \<and> set (approved_ids ds) \<inter> claimed_ids (re_claims e) = {} \<and>
    engine_ok t \<and> re_policy t = re_policy e \<and>
    (\<forall>k. daily_total (re_daily t) k \<le> rp_maximum_daily_order_notional (re_policy e))"
  using assms
proof (induction cs arbitrary: e ds)
  case Nil
  then show ?case by (simp add: approved_ids_def)
next
  case (Cons c cs)
  let ?i = "ac_intent c"
  obtain r u where u: "assess_call c e = (r, u)" by (metis surj_pair)
  show ?case
  proof (cases r)
    case (Inl x)
    have run: "assess_all cs u = (ds, t)" using Cons.prems(3) u Inl by simp
    note rz = assess_raised [OF Cons.prems(1), of "ac_env c" ?i "ac_signal c" "ac_market c"
        "ac_portfolio c" "ac_execution c" x u]
    have z: "engine_ok u" "claimed_ids (re_claims u) = insert (oi_intent_id ?i) (claimed_ids (re_claims e))"
      "re_policy u = re_policy e" "\<forall>k. daily_total (re_daily u) k \<le> rp_maximum_daily_order_notional (re_policy u)"
      using rz u Inl Cons.prems(2) by (auto simp: assess_call_def) metis
    from Cons.IH [OF z(1,4) run] z show ?thesis by auto
  next
    case (Inr d)
    obtain ds' where run: "assess_all cs u = (ds', t)" "ds = d # ds'"
      using Cons.prems(3) u Inr by (auto split: prod.splits)
    note ac = assess_cases [OF Cons.prems(1) u [unfolded assess_call_def Inr]]
    have lim: "\<forall>k. daily_total (re_daily u) k \<le> rp_maximum_daily_order_notional (re_policy u)"
      using ac Cons.prems(2) by (auto split: if_splits)
    have z: "engine_ok u" "re_policy u = re_policy e"
      "claimed_ids (re_claims u) = insert (oi_intent_id ?i) (claimed_ids (re_claims e))"
      using ac by auto
    note ih = Cons.IH [OF z(1) lim run(1)]
    have "approved_ids ds = (if rd_decision d = APPROVE then [oi_intent_id ?i] else []) @ approved_ids ds'"
      using ac run(2) by (simp add: approved_ids_def)
    then show ?thesis using ih z ac by auto
  qed
qed

text \<open>Reading every list of reasons as the conditions under which it is empty.\<close>

lemma assess_approves_iff:
  assumes "engine_ok e" and "assess env i s m ps ex e = (Inr d, t)"
  defines "p \<equiv> re_policy e"
  shows "rd_decision d = APPROVE \<longleftrightarrow>
    oi_intent_id i \<notin> claimed_ids (re_claims e) \<and>
    sig_signal_id s = oi_signal_id i \<and> sig_instrument_id s = oi_instrument_id i \<and>
    sig_status s = VALIDATED \<and> instant (ae_signal_now env) < instant (sig_expires_at s) \<and>
    ms_instrument_id m = oi_instrument_id i \<and>
    instant (ae_now env) - seconds (rp_max_market_age_seconds p) \<le> instant (ms_observed_at m) \<and>
    rp_minimum_data_quality p \<le> ms_data_quality_score m \<and>
    rp_minimum_data_quality p \<le> sig_data_quality_score s \<and>
    \<not> xgt (spread_fraction m) (rp_maximum_spread_fraction p) \<and>
    0 < oi_quantity i \<and> 0 < oi_limit_price i \<and> notional i \<le> rp_maximum_order_notional p \<and>
    (\<exists>ev. evaluate_per_trade_risk i s p = Inr (ev, [])) \<and>
    dabs (projected_notional i ps) \<le> rp_maximum_position_notional p \<and>
    ps_reconciliation_complete ps \<and> ps_risk_increase_allowed ps \<and>
    engine_blocks (re_switches e) (oi_instrument_id i) (sig_strategy_version s) (oi_account_id i) = Inr False \<and>
    (\<exists>x. ex = Some x \<and> 0 \<le> ec_expected_slippage_fraction x \<and>
       ec_expected_slippage_fraction x \<le> rp_maximum_expected_slippage_fraction p \<and>
       0 \<le> ec_event_risk x \<and> ec_event_risk x \<le> 1 \<and> ec_event_risk x \<le> rp_maximum_event_risk p \<and>
       0 \<le> ec_available_buying_power x \<and>
       (oi_side i = BUY \<longrightarrow> notional i \<le> ec_available_buying_power x) \<and>
       ec_session_open x \<and> \<not> ec_instrument_halted x \<and> ec_quote_available x \<and>
       ec_broker_state_certain x \<and> ec_strategy_enabled x \<and> ec_model_approved x) \<and>
    oi_intent_id i \<notin> daily_ids (re_daily e) \<and>
    daily_total (re_daily e) (oi_account_id i, date_of (ae_now env)) + notional i
      \<le> rp_maximum_daily_order_notional p"
proof -
  have q: "\<not> dmin (ms_data_quality_score m) (sig_data_quality_score s) < rp_minimum_data_quality p \<longleftrightarrow>
      rp_minimum_data_quality p \<le> ms_data_quality_score m \<and> rp_minimum_data_quality p \<le> sig_data_quality_score s"
    by (auto simp: dec_order not_less simp del: not_dlt)
  have inp: "input_reasons env p i s m = [] \<longleftrightarrow>
      sig_signal_id s = oi_signal_id i \<and> sig_instrument_id s = oi_instrument_id i \<and>
      sig_status s = VALIDATED \<and> instant (ae_signal_now env) < instant (sig_expires_at s) \<and>
      ms_instrument_id m = oi_instrument_id i \<and>
      instant (ae_now env) - seconds (rp_max_market_age_seconds p) \<le> instant (ms_observed_at m) \<and>
      rp_minimum_data_quality p \<le> ms_data_quality_score m \<and> rp_minimum_data_quality p \<le> sig_data_quality_score s \<and>
      \<not> xgt (spread_fraction m) (rp_maximum_spread_fraction p) \<and>
      0 < oi_quantity i \<and> 0 < oi_limit_price i \<and> notional i \<le> rp_maximum_order_notional p"
    unfolding input_reasons_def append_is_Nil_conv reason_if_Nil q is_expired_def by auto
  have port: "portfolio_reasons p i ps = [] \<longleftrightarrow> dabs (projected_notional i ps) \<le> rp_maximum_position_notional p \<and>
      ps_reconciliation_complete ps \<and> ps_risk_increase_allowed ps"
    unfolding portfolio_reasons_def append_is_Nil_conv reason_if_Nil by auto
  have sw: "switch_reasons (re_switches e) i s = Inr [] \<longleftrightarrow>
      engine_blocks (re_switches e) (oi_instrument_id i) (sig_strategy_version s) (oi_account_id i) = Inr False"
    by (auto simp: switch_reasons_def reason_if_def split: sum.splits)
  have exe: "execution_reasons p i ex = Inr [] \<longleftrightarrow>
      (\<exists>x. ex = Some x \<and> 0 \<le> ec_expected_slippage_fraction x \<and>
       ec_expected_slippage_fraction x \<le> rp_maximum_expected_slippage_fraction p \<and>
       0 \<le> ec_event_risk x \<and> ec_event_risk x \<le> 1 \<and> ec_event_risk x \<le> rp_maximum_event_risk p \<and>
       0 \<le> ec_available_buying_power x \<and>
       (oi_side i = BUY \<longrightarrow> notional i \<le> ec_available_buying_power x) \<and>
       ec_session_open x \<and> \<not> ec_instrument_halted x \<and> ec_quote_available x \<and>
       ec_broker_state_certain x \<and> ec_strategy_enabled x \<and> ec_model_approved x)"
    by (cases ex) (auto simp: execution_reasons_def bind_result_Inr_iff validate_execution_def reason_simps)
  have "assess_reasons env p (re_switches e) i s m ps ex = Inr [] \<longleftrightarrow>
      (\<exists>ev. evaluate_per_trade_risk i s p = Inr (ev, [])) \<and> switch_reasons (re_switches e) i s = Inr [] \<and>
      execution_reasons p i ex = Inr [] \<and> input_reasons env p i s m = [] \<and> portfolio_reasons p i ps = []"
    by (auto simp: assess_reasons_def bind_result_Inr_iff)
  then show ?thesis
    using assess_cases [OF assms(1,2)] unfolding p_def inp [unfolded p_def] port [unfolded p_def] sw exe [unfolded p_def]
    by blast
qed

section \<open>Properties\<close>

text \<open>
  C26: an engine on in-memory or SQLite stores that returns a decision approves exactly when the intent
  was not seen before and everything holds at once: signal and market belong to the intent, the signal
  is validated and not expired, the market is fresh, of sufficient quality and narrow enough, quantity
  and price are positive, order and projected position are within their limits, the per-trade controls
  give no reason, the book is reconciled, no kill switch in the intent's scopes is known or suspected
  to be active, a complete and valid execution context permits it, and the daily budget has room.
\<close>

theorem engine_approves_iff:
  assumes "engine_ok e" and "assess env i s m ps ex e = (Inr d, t)"
  defines "p \<equiv> re_policy e"
  shows "rd_decision d = APPROVE \<longleftrightarrow>
    oi_intent_id i \<notin> claimed_ids (re_claims e) \<and>
    sig_signal_id s = oi_signal_id i \<and> sig_instrument_id s = oi_instrument_id i \<and>
    sig_status s = VALIDATED \<and> instant (ae_signal_now env) < instant (sig_expires_at s) \<and>
    ms_instrument_id m = oi_instrument_id i \<and>
    instant (ae_now env) - seconds (rp_max_market_age_seconds p) \<le> instant (ms_observed_at m) \<and>
    rp_minimum_data_quality p \<le> ms_data_quality_score m \<and>
    rp_minimum_data_quality p \<le> sig_data_quality_score s \<and>
    \<not> xgt (spread_fraction m) (rp_maximum_spread_fraction p) \<and>
    0 < oi_quantity i \<and> 0 < oi_limit_price i \<and> notional i \<le> rp_maximum_order_notional p \<and>
    (\<exists>ev. evaluate_per_trade_risk i s p = Inr (ev, [])) \<and>
    dabs (projected_notional i ps) \<le> rp_maximum_position_notional p \<and>
    ps_reconciliation_complete ps \<and> ps_risk_increase_allowed ps \<and>
    engine_blocks (re_switches e) (oi_instrument_id i) (sig_strategy_version s) (oi_account_id i) = Inr False \<and>
    (\<exists>x. ex = Some x \<and> 0 \<le> ec_expected_slippage_fraction x \<and>
       ec_expected_slippage_fraction x \<le> rp_maximum_expected_slippage_fraction p \<and>
       0 \<le> ec_event_risk x \<and> ec_event_risk x \<le> 1 \<and> ec_event_risk x \<le> rp_maximum_event_risk p \<and>
       0 \<le> ec_available_buying_power x \<and>
       (oi_side i = BUY \<longrightarrow> notional i \<le> ec_available_buying_power x) \<and>
       ec_session_open x \<and> \<not> ec_instrument_halted x \<and> ec_quote_available x \<and>
       ec_broker_state_certain x \<and> ec_strategy_enabled x \<and> ec_model_approved x) \<and>
    oi_intent_id i \<notin> daily_ids (re_daily e) \<and>
    daily_total (re_daily e) (oi_account_id i, date_of (ae_now env)) + notional i
      \<le> rp_maximum_daily_order_notional p"
  unfolding p_def by (rule assess_approves_iff [OF assms(1,2)])

definition calm_market :: market_snapshot where
  "calm_market = \<lparr>ms_instrument_id = ''BTC'', ms_observed_at = Aware 0 0, ms_bid = Dec 100 0,
     ms_ask = Dec 100 0, ms_last = Dec 100 0, ms_data_quality_score = Dec 99 (- 2)\<rparr>"

definition open_context :: execution_context where
  "open_context = \<lparr>ec_session_open = True, ec_instrument_halted = False, ec_quote_available = True,
     ec_expected_slippage_fraction = Dec 0 0, ec_event_risk = Dec 0 0, ec_available_buying_power = Dec 5000 0,
     ec_broker_state_certain = True, ec_strategy_enabled = True, ec_model_approved = True\<rparr>"

definition flat_book :: portfolio_state where
  "flat_book = \<lparr>ps_account_id = ''acc'', ps_position_notionals = [], ps_reconciliation_complete = True,
     ps_risk_increase_allowed = True\<rparr>"

definition fresh_engine :: risk_engine where
  "fresh_engine = \<lparr>re_policy = default_risk_policy, re_switches = MemorySwitches {''BROKER:sandbox''},
     re_claims = MemoryClaims {}, re_daily = MemoryDaily \<lparr>dn_reserved = [], dn_intent_ids = {}\<rparr>,
     re_decisions = Some [], re_postgres = None\<rparr>"

definition sample_assess_env :: assess_env where
  "sample_assess_env = \<lparr>ae_claimed_at = Aware 0 0, ae_now = Aware 0 0, ae_signal_now = Aware 0 0,
     ae_decision_id = 77, ae_decided_at = Aware 0 0, ae_persist = demo_persist_env 1,
     ae_fallback_id = 78, ae_fallback_at = Aware 0 0\<rparr>"

definition sample_call :: assess_call where
  "sample_call = \<lparr>ac_env = sample_assess_env, ac_intent = sample_buy, ac_signal = sample_signal,
     ac_market = calm_market, ac_portfolio = flat_book, ac_execution = Some open_context\<rparr>"

lemmas engine_eval = sample_assess_env_def fresh_engine_def flat_book_def open_context_def calm_market_def
  sample_buy_def sample_signal_def default_risk_policy_def

lemma sample_assess:
  "\<exists>d t. assess sample_assess_env sample_buy sample_signal calm_market flat_book (Some open_context) fresh_engine =
     (Inr d, t) \<and> rd_decision d = APPROVE"
  by (simp add: engine_eval assess_def engine_claim_def mem_claim_def assess_body_def assess_reasons_def
      evaluate_per_trade_risk_def switch_reasons_def engine_blocks_def mem_blocks_def kill_switch_candidates_def
      optional_candidate_def execution_reasons_def validate_execution_def input_reasons_def portfolio_reasons_def
      reason_if_def projected_notional_def position_notional_def dict_get_or_def notional_def is_expired_def
      spread_fraction_def seconds_def reserve_if_clear_def engine_reserve_def mem_reserve_def bind_method_def
      conclude_def record_decision_def store_append_def create_risk_decision_def Let_def dec_eval)

lemma fresh_engine_ok: "engine_ok fresh_engine"
  by (simp add: engine_ok_def fresh_engine_def default_risk_policy_def dlt_iff)

theorem engine_approves_iff_witness:
  "\<exists>d t. assess sample_assess_env sample_buy sample_signal calm_market flat_book (Some open_context) fresh_engine =
     (Inr d, t) \<and> rd_decision d = APPROVE \<and> 0 < oi_quantity sample_buy"
proof -
  obtain d t where a: "assess sample_assess_env sample_buy sample_signal calm_market flat_book (Some open_context)
      fresh_engine = (Inr d, t)" "rd_decision d = APPROVE"
    using sample_assess by blast
  show ?thesis using engine_approves_iff [OF fresh_engine_ok a(1)] a by blast
qed

text \<open>
  C27: in any run of assessments, raising ones included, no intent is approved twice and the
  reservations of every account and day stay within the daily limit.
\<close>

theorem engine_run_safe:
  assumes "engine_ok e"
    and "\<forall>k. daily_total (re_daily e) k \<le> rp_maximum_daily_order_notional (re_policy e)"
    and "assess_all cs e = (ds, t)"
  shows "distinct (approved_ids ds) \<and> set (approved_ids ds) \<inter> claimed_ids (re_claims e) = {} \<and>
    (\<forall>k. daily_total (re_daily t) k \<le> rp_maximum_daily_order_notional (re_policy e))"
  using assess_all_invariant [OF assms] by blast

theorem engine_run_safe_witness:
  "\<exists>ds t. assess_all [sample_call, sample_call] fresh_engine = (ds, t) \<and> distinct (approved_ids ds)"
proof -
  obtain ds t where r: "assess_all [sample_call, sample_call] fresh_engine = (ds, t)" by (metis surj_pair)
  have "\<forall>k. daily_total (re_daily fresh_engine) k \<le> rp_maximum_daily_order_notional (re_policy fresh_engine)"
    by (simp add: fresh_engine_def default_risk_policy_def mem_total_def dict_get_or_def dle_iff)
  from engine_run_safe [OF fresh_engine_ok this r] r show ?thesis by blast
qed

text \<open>
  With a decision store, every decision an engine returns, approval or rejection, is the newest
  row of the store and can be read back by its identifier.
\<close>

theorem engine_records_every_decision:
  assumes "engine_ok e" and "assess env i s m ps ex e = (Inr d, t)" and "re_decisions e = Some rows"
    and "rd_decision_id d \<notin> rd_decision_id ` set rows"
  shows "re_decisions t = Some (rows @ [d]) \<and> store_get (rd_decision_id d) (rows @ [d]) = Inr d"
proof -
  have "store_append d rows = (Inr (), rows @ [d])" using assms(4) by (simp add: store_append_def)
  from store_get_append [OF this, of "rd_decision_id d"] assess_cases [OF assms(1,2)] assms(3) show ?thesis
    by auto
qed

theorem engine_records_every_decision_witness:
  "\<exists>d t. assess sample_assess_env sample_buy sample_signal calm_market flat_book (Some open_context) fresh_engine =
     (Inr d, t) \<and> re_decisions t = Some [d]"
proof -
  obtain d t where a: "assess sample_assess_env sample_buy sample_signal calm_market flat_book (Some open_context)
      fresh_engine = (Inr d, t)"
    using sample_assess by blast
  have r: "re_decisions fresh_engine = Some []" by (simp add: fresh_engine_def)
  show ?thesis using engine_records_every_decision [OF fresh_engine_ok a r] a by auto
qed

text \<open>
  C28: with the Postgres store the engine fails closed: an approval is returned only when its
  transaction committed and the decision is in the store; a lost reply or a failure is a rejection.
\<close>

theorem engine_fails_closed:
  assumes "re_postgres e = Some pg" and "assess env i s m ps ex e = (Inr d, t)" and "rd_decision d = APPROVE"
  shows "pe_tx (ae_persist env) = TxCommitted \<and>
    (\<exists>pg'. re_postgres t = Some pg' \<and> d \<in> set (pr_decisions pg') \<and> rd_intent_id d = oi_intent_id i)"
proof -
  obtain rs where rs: "bind_method (reserve_if_clear env i rs) (conclude env i) e = (Inr d, t)"
    using assms(1,2) by (auto simp: assess_def assess_body_def split: sum.splits)
  then have co: "conclude env i rs e = (Inr d, t)"
    using assms(1) by (simp add: reserve_if_clear_def bind_method_def)
  let ?d = "create_risk_decision (ae_decision_id env) (ae_decided_at env) (oi_intent_id i)
      (if rs = [] then APPROVE else REJECT) rs"
  obtain u where u: "pg_persist (ae_persist env) i ?d (date_of (ae_now env))
      (rp_maximum_daily_order_notional (re_policy e)) None None pg = (Inr d, u)" "t = e\<lparr>re_postgres := Some u\<rparr>"
    using co assms(1,3) unfolding conclude_def Let_def
    by (auto simp: create_risk_decision_def split: prod.splits sum.splits if_splits)
  have tx: "pe_tx (ae_persist env) = TxCommitted"
    using u(1) unfolding pg_persist_def Let_def by (auto split: if_splits prod.splits sum.splits tx.splits)
  from pg_persist_Inr [OF u(1)] obtain f r where
    "persist_transaction (ae_persist env) i ?d (date_of (ae_now env)) (rp_maximum_daily_order_notional (re_policy e)) f r pg = (Inr d, u)"
    "f \<longrightarrow> rd_decision ?d = APPROVE" "rd_intent_id ?d = oi_intent_id i" by blast
  from persist_transaction_cases [OF this] tx u(2) show ?thesis by auto
qed

definition postgres_engine :: risk_engine where
  "postgres_engine = fresh_engine\<lparr>re_postgres := Some (empty_pg_risk 9 True)\<rparr>"

theorem engine_fails_closed_witness:
  "\<exists>d t pg'. assess sample_assess_env sample_buy sample_signal calm_market flat_book (Some open_context)
     postgres_engine = (Inr d, t) \<and> re_postgres t = Some pg' \<and> d \<in> set (pr_decisions pg')"
proof -
  obtain d t where a: "assess sample_assess_env sample_buy sample_signal calm_market flat_book (Some open_context)
      postgres_engine = (Inr d, t)" "rd_decision d = APPROVE"
    by (simp add: postgres_engine_def engine_eval assess_def assess_body_def assess_reasons_def
      evaluate_per_trade_risk_def switch_reasons_def engine_blocks_def mem_blocks_def kill_switch_candidates_def
      optional_candidate_def execution_reasons_def validate_execution_def input_reasons_def portfolio_reasons_def
      reason_if_def projected_notional_def position_notional_def dict_get_or_def is_expired_def
      spread_fraction_def seconds_def reserve_if_clear_def conclude_def date_of_def demo_eval dec_eval)
  have p: "re_postgres postgres_engine = Some (empty_pg_risk 9 True)" by (simp add: postgres_engine_def)
  show ?thesis using engine_fails_closed [OF p a] a by blast
qed

text \<open>
  Switches on brokers, exchanges and asset classes never stop the engine: it does not pass those
  fields on, so such active scopes do not change the outcome of any assessment.
\<close>

definition unseen_scope :: "string \<Rightarrow> bool" where
  "unseen_scope s \<longleftrightarrow> (\<exists>v. s = ''BROKER:'' @ v \<or> s = ''EXCHANGE:'' @ v \<or> s = ''ASSET_CLASS:'' @ v)"

lemma engine_candidates_seen:
  "x \<in> kill_switch_candidates i v (Some a) None None None \<Longrightarrow> \<not> unseen_scope x"
  by (auto simp: kill_switch_candidates_def optional_candidate_def unseen_scope_def split: if_splits)

theorem engine_ignores_venue_switches:
  assumes "\<forall>x \<in> extra. unseen_scope x"
  shows "assess_reasons env p (MemorySwitches (scopes \<union> extra)) i s m ps ex =
    assess_reasons env p (MemorySwitches scopes) i s m ps ex"
proof -
  have "kill_switch_candidates (oi_instrument_id i) (sig_strategy_version s) (Some (oi_account_id i)) None None None
      \<inter> extra = {}"
    using assms engine_candidates_seen by blast
  then have "engine_blocks (MemorySwitches (scopes \<union> extra)) (oi_instrument_id i) (sig_strategy_version s) (oi_account_id i)
      = engine_blocks (MemorySwitches scopes) (oi_instrument_id i) (sig_strategy_version s) (oi_account_id i)"
    by (simp add: engine_blocks_def mem_blocks_def Int_Un_distrib)
  then show ?thesis unfolding assess_reasons_def switch_reasons_def by simp
qed

theorem engine_ignores_venue_switches_witness:
  "assess_reasons sample_assess_env default_risk_policy (MemorySwitches ({} \<union> {''BROKER:sandbox'', ''EXCHANGE:NYSE''}))
     sample_buy sample_signal calm_market flat_book (Some open_context) =
   assess_reasons sample_assess_env default_risk_policy (MemorySwitches {})
     sample_buy sample_signal calm_market flat_book (Some open_context)"
  by (rule engine_ignores_venue_switches) (simp add: unseen_scope_def)

text \<open>
  An assessment that raises has used up its intent: every later assessment of the same intent by
  the same engine is a rejection as a duplicate, whatever evidence it brings.
\<close>

theorem raised_assessment_burns_intent:
  assumes "engine_ok e" and "assess env i s m ps ex e = (Inl x, t)"
    and "oi_intent_id i' = oi_intent_id i" and "assess env' i' s' m' ps' ex' t = (Inr d, u)"
  shows "rd_decision d = REJECT"
proof -
  have "engine_ok t" "oi_intent_id i' \<in> claimed_ids (re_claims t)"
    using assess_raised [OF assms(1,2)] assms(3) by auto
  with assess_cases [OF this(1) assms(4)] have "rd_decision d \<noteq> APPROVE" by blast
  then show ?thesis by (cases "rd_decision d") simp_all
qed

definition bad_context :: execution_context where
  "bad_context = open_context\<lparr>ec_event_risk := Dec 2 0\<rparr>"

theorem raised_assessment_burns_intent_witness:
  "\<exists>x t d u. assess sample_assess_env sample_buy sample_signal calm_market flat_book (Some bad_context) fresh_engine =
      (Inl x, t) \<and>
    assess sample_assess_env sample_buy sample_signal calm_market flat_book (Some open_context) t = (Inr d, u) \<and>
    rd_decision d = REJECT"
proof -
  have a: "assess sample_assess_env sample_buy sample_signal calm_market flat_book (Some bad_context) fresh_engine =
      (Inl (Exc ValueError ''invalid_pre_trade_execution_context''), fresh_engine\<lparr>re_claims := MemoryClaims {1}\<rparr>)"
    by (simp add: bad_context_def engine_eval assess_def engine_claim_def mem_claim_def assess_body_def assess_reasons_def
      evaluate_per_trade_risk_def switch_reasons_def engine_blocks_def mem_blocks_def kill_switch_candidates_def
      optional_candidate_def execution_reasons_def validate_execution_def Let_def dec_eval)
  obtain d u where b: "assess sample_assess_env sample_buy sample_signal calm_market flat_book (Some open_context)
      (fresh_engine\<lparr>re_claims := MemoryClaims {1}\<rparr>) = (Inr d, u)"
    by (simp add: engine_eval assess_def engine_claim_def mem_claim_def Let_def bind_method_def record_decision_def
        store_append_def)
  show ?thesis
    using raised_assessment_burns_intent [OF fresh_engine_ok a refl b] a b by blast
qed

end
