(* ===== verification/SqlOrder.thy ===== *)
theory SqlOrder
  imports Prelude "HOL-Library.Product_Lexorder" "HOL-Library.List_Lexorder" "HOL-Library.Char_ord"
begin

text \<open>
  What the stores ask of SQLite: \<open>ORDER BY key DESC, rowid DESC LIMIT 1\<close> over a table in the order of
  its rowids, and the law of a point-in-time store, that rows which become known later do not change
  what was known before.
\<close>

definition keep_newer :: "('a \<Rightarrow> 'k :: linorder) \<Rightarrow> 'a \<Rightarrow> 'a option \<Rightarrow> 'a option" where
  "keep_newer k r best =
     (case best of None \<Rightarrow> Some r | Some b \<Rightarrow> if k b \<le> k r then Some r else Some b)"

definition newest :: "('a \<Rightarrow> 'k :: linorder) \<Rightarrow> 'a list \<Rightarrow> 'a option" where
  "newest k rows = fold (keep_newer k) rows None"

lemma newest_Nil [simp]: "newest k [] = None"
  by (simp add: newest_def)

lemma newest_append: "newest k (rows @ [r]) = keep_newer k r (newest k rows)"
  by (simp add: newest_def)

lemma newest_None [simp]: "newest k rows = None \<longleftrightarrow> rows = []"
  by (induction rows rule: rev_induct) (auto simp: newest_append keep_newer_def split: option.splits)

lemma newest_max:
  "newest k rows = Some r \<Longrightarrow> r \<in> set rows \<and> (\<forall>x \<in> set rows. k x \<le> k r)"
proof (induction rows arbitrary: r rule: rev_induct)
  case Nil
  then show ?case by simp
next
  case (snoc x xs)
  show ?case
  proof (cases "newest k xs")
    case None
    then have "xs = []" by simp
    then show ?thesis using snoc.prems by (simp add: newest_def keep_newer_def)
  next
    case (Some b)
    then show ?thesis using snoc.IH [OF Some] snoc.prems
      by (fastforce simp: newest_append keep_newer_def split: if_splits)
  qed
qed

text \<open>A row written last wins against rows with no greater key, in particular on a tie.\<close>

lemma newest_snoc: "\<forall>y \<in> set rows. k y \<le> k r \<Longrightarrow> newest k (rows @ [r]) = Some r"
  using newest_max [of k rows] by (auto simp: newest_append keep_newer_def split: option.splits)

section \<open>Point-in-time stores\<close>

text \<open>
  \<open>lookup key t s\<close> answers for a decision taken at \<open>t\<close>; \<open>append r s\<close> writes a row that becomes known at
  \<open>known_at r\<close>.
\<close>

locale point_in_time =
  fixes lookup :: "'k \<Rightarrow> datetime \<Rightarrow> 's \<Rightarrow> 'r option"
    and append :: "'r \<Rightarrow> 's \<Rightarrow> 's"
    and known_at :: "'r \<Rightarrow> datetime"
  assumes later_invisible: "\<not> iso_le (known_at r) t \<Longrightarrow> lookup key t (append r s) = lookup key t s"
    and found_known: "lookup key t s = Some r \<Longrightarrow> iso_le (known_at r) t"
begin

lemma no_look_ahead:
  "\<forall>r \<in> set rs. \<not> iso_le (known_at r) t \<Longrightarrow> lookup key t (fold append rs s) = lookup key t s"
  by (induction rs arbitrary: s) (auto simp: later_invisible)

lemma replay_unchanged:
  assumes "\<forall>r \<in> set rs. \<not> iso_le (known_at r) t" and "lookup key t s = Some r"
  shows "lookup key t (fold append rs s) = Some r \<and> iso_le (known_at r) t"
  using no_look_ahead [OF assms(1)] assms(2) found_known by metis

end

section \<open>Rows known at a decision time\<close>

text \<open>
  \<open>WHERE P AND observed_at <= ? AND ingested_at <= ? ORDER BY observed_at DESC, ingested_at DESC, rowid DESC LIMIT 1\<close>,
  on the texts of the times.
\<close>

definition visible_at :: "('r \<Rightarrow> datetime) \<Rightarrow> ('r \<Rightarrow> datetime) \<Rightarrow> datetime \<Rightarrow> 'r \<Rightarrow> bool" where
  "visible_at observed ingested t r \<longleftrightarrow> iso_le (observed r) t \<and> iso_le (ingested r) t"

definition newest_as_of ::
  "('r \<Rightarrow> datetime) \<Rightarrow> ('r \<Rightarrow> datetime) \<Rightarrow> ('r \<Rightarrow> bool) \<Rightarrow> datetime \<Rightarrow> 'r list \<Rightarrow> 'r option" where
  "newest_as_of observed ingested matches t rows =
     newest (\<lambda>r. (iso_key (observed r), iso_key (ingested r)))
       (filter (\<lambda>r. matches r \<and> visible_at observed ingested t r) rows)"

lemma newest_as_of_Some:
  assumes "newest_as_of observed ingested matches t rows = Some r"
  shows "r \<in> set rows \<and> matches r \<and> iso_le (observed r) t \<and> iso_le (ingested r) t \<and>
    (\<forall>q \<in> set rows. matches q \<longrightarrow> iso_le (observed q) t \<longrightarrow> iso_le (ingested q) t \<longrightarrow>
       (iso_key (observed q), iso_key (ingested q)) \<le> (iso_key (observed r), iso_key (ingested r)))"
  using newest_max [OF assms [unfolded newest_as_of_def]] by (auto simp: visible_at_def)

lemma newest_as_of_later:
  "\<not> iso_le (ingested r) t \<Longrightarrow> newest_as_of observed ingested matches t (rows @ [r]) = newest_as_of observed ingested matches t rows"
  by (simp add: newest_as_of_def visible_at_def)

lemma newest_as_of_None:
  "newest_as_of observed ingested matches t rows = None \<longleftrightarrow> (\<forall>r \<in> set rows. \<not> (matches r \<and> visible_at observed ingested t r))"
  by (simp add: newest_as_of_def filter_empty_conv)

end
