(* ===== verification/SignalEngine.thy ===== *)
theory SignalEngine
  imports Domain Rendering SqlOrder
begin

text \<open>
  \<open>signal_engine.py\<close>: signal proposals, their validation over nine stages, and the durable store with
  the lifecycle of every signal.
\<close>

section \<open>Proposals\<close>

datatype detailed_status =
    S_CANDIDATE
  | S_VALIDATED
  | S_BLOCKED_BY_RISK
  | S_BLOCKED_BY_DATA
  | WAITING_FOR_ENTRY
  | S_ACTIVE
  | S_PARTIALLY_FILLED
  | S_FILLED
  | S_INVALIDATED
  | S_EXPIRED
  | S_CLOSED
  | S_CANCELLED

datatype validation_stage = DATA | STRATEGY | REGIME | LIQUIDITY | PORTFOLIO | RISK | BROKER | EXECUTION | USER_POLICY

fun detailed_value :: "detailed_status \<Rightarrow> string" where
  "detailed_value S_CANDIDATE = ''CANDIDATE''"
| "detailed_value S_VALIDATED = ''VALIDATED''"
| "detailed_value S_BLOCKED_BY_RISK = ''BLOCKED_BY_RISK''"
| "detailed_value S_BLOCKED_BY_DATA = ''BLOCKED_BY_DATA''"
| "detailed_value WAITING_FOR_ENTRY = ''WAITING_FOR_ENTRY''"
| "detailed_value S_ACTIVE = ''ACTIVE''"
| "detailed_value S_PARTIALLY_FILLED = ''PARTIALLY_FILLED''"
| "detailed_value S_FILLED = ''FILLED''"
| "detailed_value S_INVALIDATED = ''INVALIDATED''"
| "detailed_value S_EXPIRED = ''EXPIRED''"
| "detailed_value S_CLOSED = ''CLOSED''"
| "detailed_value S_CANCELLED = ''CANCELLED''"

fun stage_value :: "validation_stage \<Rightarrow> string" where
  "stage_value DATA = ''data''"
| "stage_value STRATEGY = ''strategy''"
| "stage_value REGIME = ''regime''"
| "stage_value LIQUIDITY = ''liquidity''"
| "stage_value PORTFOLIO = ''portfolio''"
| "stage_value RISK = ''risk''"
| "stage_value BROKER = ''broker''"
| "stage_value EXECUTION = ''execution''"
| "stage_value USER_POLICY = ''user_policy''"

definition all_stages :: "validation_stage list" where
  "all_stages = [DATA, STRATEGY, REGIME, LIQUIDITY, PORTFOLIO, RISK, BROKER, EXECUTION, USER_POLICY]"

record signal_proposal =
  sp_signal_id :: uuid
  sp_instrument_id :: string
  sp_asset_class :: asset_class
  sp_strategy_version :: string
  sp_direction :: order_side
  sp_entry_low :: decimal
  sp_entry_high :: decimal
  sp_invalidation_level :: decimal
  sp_stop_level :: decimal
  sp_target_logic :: string
  sp_expected_holding_period :: timedelta
  sp_strength :: decimal
  sp_confidence :: decimal
  sp_expected_return :: decimal
  sp_expected_volatility :: decimal
  sp_expected_downside :: decimal
  sp_risk_reward_estimate :: decimal
  sp_regime :: string
  sp_liquidity_score :: decimal
  sp_data_quality_score :: decimal
  sp_news_risk :: decimal
  sp_event_risk :: decimal
  sp_correlation_impact :: decimal
  sp_recommended_quantity :: decimal
  sp_expires_at :: datetime
  sp_explanation :: string
  sp_contradicting_evidence :: "string list"
  sp_created_at :: datetime

abbreviation signal_error :: "string \<Rightarrow> py_exc" where
  "signal_error m \<equiv> Exc SignalEngineError m"

definition unit_interval :: "decimal \<Rightarrow> bool" where
  "unit_interval v \<longleftrightarrow> 0 \<le> v \<and> v \<le> 1"

definition validate_proposal :: "signal_proposal \<Rightarrow> unit result" where
  "validate_proposal p =
     (if \<exists>v \<in> set [sp_instrument_id p, sp_strategy_version p, sp_target_logic p, sp_regime p, sp_explanation p]. blank v
      then Inl (signal_error ''signal_requires_text_fields'')
      else if \<not> aware (sp_created_at p) \<or> \<not> aware (sp_expires_at p) \<or>
              instant (sp_expires_at p) \<le> instant (sp_created_at p)
      then Inl (signal_error ''signal_requires_future_timezone_aware_expiry'')
      else if sp_entry_low p \<le> 0 \<or> sp_entry_high p < sp_entry_low p \<or> sp_invalidation_level p \<le> 0 \<or> sp_stop_level p \<le> 0
      then Inl (signal_error ''invalid_signal_price_levels'')
      else if sp_expected_holding_period p \<le> 0 \<or> sp_recommended_quantity p \<le> 0
      then Inl (signal_error ''invalid_holding_period_or_quantity'')
      else if \<exists>v \<in> set [sp_strength p, sp_confidence p, sp_liquidity_score p, sp_data_quality_score p,
                 sp_news_risk p, sp_event_risk p]. \<not> unit_interval v
      then Inl (signal_error ''signal_scores_must_be_unit_interval'')
      else if sp_expected_volatility p < 0 \<or> 0 < sp_expected_downside p \<or> sp_risk_reward_estimate p < 0
      then Inl (signal_error ''invalid_signal_risk_estimates'')
      else Inr ())"

section \<open>Validation\<close>

record validation_result =
  vr_assessment_id :: uuid
  vr_signal_id :: uuid
  vr_status :: detailed_status
  vr_passed_stages :: "validation_stage list"
  vr_failures :: "validation_stage list"
  vr_assessed_at :: datetime

record lifecycle_event =
  le_id :: uuid
  le_signal_id :: uuid
  le_from_status :: detailed_status
  le_to_status :: detailed_status
  le_actor :: string
  le_reason :: string
  le_evidence_references :: "string list"
  le_occurred_at :: datetime

text \<open>The table \<open>_SIGNAL_TRANSITIONS\<close>.\<close>

fun signal_transitions :: "detailed_status \<Rightarrow> detailed_status set" where
  "signal_transitions S_CANDIDATE = {S_VALIDATED, S_BLOCKED_BY_DATA, S_BLOCKED_BY_RISK}"
| "signal_transitions S_VALIDATED = {WAITING_FOR_ENTRY, S_EXPIRED, S_INVALIDATED, S_CANCELLED}"
| "signal_transitions WAITING_FOR_ENTRY = {S_ACTIVE, S_EXPIRED, S_INVALIDATED, S_CANCELLED}"
| "signal_transitions S_ACTIVE = {S_PARTIALLY_FILLED, S_FILLED, S_EXPIRED, S_INVALIDATED, S_CANCELLED}"
| "signal_transitions S_PARTIALLY_FILLED = {S_FILLED, S_INVALIDATED, S_CANCELLED}"
| "signal_transitions S_FILLED = {S_CLOSED}"
| "signal_transitions _ = {}"

text \<open>\<open>SignalEngine.validate\<close>: every stage must be reported; data failures come first.\<close>

definition engine_validate ::
  "uuid \<Rightarrow> datetime \<Rightarrow> signal_proposal \<Rightarrow> (validation_stage, bool) dict \<Rightarrow> validation_result result" where
  "engine_validate new_id now p stage_results =
     bind_result (validate_proposal p) (\<lambda>_.
       if set (dict_keys stage_results) \<noteq> set all_stages
       then Inl (signal_error ''signal_validation_requires_all_stages'')
       else
         let passed = filter (\<lambda>st. dict_get stage_results st = Some True) all_stages;
             failures = filter (\<lambda>st. dict_get stage_results st \<noteq> Some True) all_stages;
             status = (if DATA \<in> set failures then S_BLOCKED_BY_DATA
                       else if failures \<noteq> [] then S_BLOCKED_BY_RISK else S_VALIDATED)
         in Inr \<lparr>vr_assessment_id = new_id, vr_signal_id = sp_signal_id p, vr_status = status,
                 vr_passed_stages = passed, vr_failures = failures, vr_assessed_at = now\<rparr>)"

section \<open>The store\<close>

text \<open>
  A signal's payload is written once as texts that read back as they were; the row is the proposal and
  its current status. Lifecycle events are in the order of their \<open>sequence\<close>.
\<close>

record signal_row =
  sr_proposal :: signal_proposal
  sr_status :: detailed_status

record signal_store =
  sg_signals :: "signal_row list"
  sg_validations :: "validation_result list"
  sg_events :: "lifecycle_event list"

definition empty_signal_store :: signal_store where
  "empty_signal_store = \<lparr>sg_signals = [], sg_validations = [], sg_events = []\<rparr>"

definition row_id :: "signal_row \<Rightarrow> uuid" where
  "row_id r = sp_signal_id (sr_proposal r)"

definition find_signal :: "uuid \<Rightarrow> signal_store \<Rightarrow> signal_row option" where
  "find_signal i s = find (\<lambda>r. row_id r = i) (sg_signals s)"

definition signal_append :: "signal_proposal \<Rightarrow> (signal_store, unit) operation" where
  "signal_append p s =
     (case validate_proposal p of
        Inl e \<Rightarrow> (Inl e, s)
      | Inr _ \<Rightarrow>
          if find_signal (sp_signal_id p) s \<noteq> None then (Inl (signal_error ''duplicate_signal''), s)
          else (Inr (), s\<lparr>sg_signals := sg_signals s @ [\<lparr>sr_proposal = p, sr_status = S_CANDIDATE\<rparr>]\<rparr>))"

definition stored_status :: "uuid \<Rightarrow> signal_store \<Rightarrow> detailed_status result" where
  "stored_status i s =
     (case find_signal i s of
        None \<Rightarrow> Inl (signal_error ''unknown_signal'') | Some r \<Rightarrow> Inr (sr_status r))"

definition signal_events :: "uuid \<Rightarrow> signal_store \<Rightarrow> lifecycle_event list" where
  "signal_events i s = filter (\<lambda>e. le_signal_id e = i) (sg_events s)"

definition set_status :: "uuid \<Rightarrow> detailed_status \<Rightarrow> signal_store \<Rightarrow> signal_store" where
  "set_status i st s =
     s\<lparr>sg_signals := map (\<lambda>r. if row_id r = i then r\<lparr>sr_status := st\<rparr> else r) (sg_signals s)\<rparr>"

text \<open>The fresh identifier and clock reading a transition takes.\<close>

record signal_env =
  ge_event_id :: uuid
  ge_now :: datetime

definition signal_transition ::
  "signal_env \<Rightarrow> uuid \<Rightarrow> detailed_status \<Rightarrow> string \<Rightarrow> string \<Rightarrow> string list \<Rightarrow> datetime option \<Rightarrow>
   (signal_store, lifecycle_event) operation" where
  "signal_transition e i to_status actor reason refs occurred_at s =
     (if blank actor then (Inl (signal_error ''signal_transition_actor_required''), s)
      else if blank reason then (Inl (signal_error ''signal_transition_reason_required''), s)
      else if \<exists>r \<in> set refs. blank r
      then (Inl (signal_error ''signal_transition_evidence_reference_invalid''), s)
      else case stored_status i s of
        Inl x \<Rightarrow> (Inl x, s)
      | Inr current \<Rightarrow>
          let timestamp = (case occurred_at of None \<Rightarrow> ge_now e | Some t \<Rightarrow> t)
          in if to_status \<notin> signal_transitions current
             then (Inl (signal_error (''invalid_signal_transition:'' @ detailed_value current @ '':'' @ detailed_value to_status)), s)
             else if \<not> aware timestamp then (Inl (signal_error ''signal_transition_time_must_be_timezone_aware''), s)
             else if signal_events i s \<noteq> [] \<and> instant timestamp < instant (le_occurred_at (last (signal_events i s)))
             then (Inl (signal_error ''signal_transition_time_regression''), s)
             else if ge_event_id e \<in> le_id ` set (sg_events s)
             then (Inl (Exc IntegrityError ''UNIQUE constraint failed: signal_lifecycle_events.event_id''), s)
             else
               let event = \<lparr>le_id = ge_event_id e, le_signal_id = i, le_from_status = current,
                     le_to_status = to_status, le_actor = strip actor, le_reason = strip reason,
                     le_evidence_references = refs, le_occurred_at = timestamp\<rparr>
               in (Inr event, set_status i to_status (s\<lparr>sg_events := sg_events s @ [event]\<rparr>)))"

definition validation_reason :: "validation_result \<Rightarrow> string" where
  "validation_reason r =
     (let failures = join '','' (map stage_value (vr_failures r))
      in if failures = [] then ''all_validation_stages_passed'' else ''validation_failed:'' @ failures)"

text \<open>The validation row is committed before the transition that may still raise.\<close>

definition append_validation :: "signal_env \<Rightarrow> validation_result \<Rightarrow> (signal_store, unit) operation" where
  "append_validation e r s =
     (if \<not> aware (vr_assessed_at r)
      then (Inl (signal_error ''signal_validation_time_must_be_timezone_aware''), s)
      else case stored_status (vr_signal_id r) s of
        Inl x \<Rightarrow> (Inl x, s)
      | Inr st \<Rightarrow>
          if st \<noteq> S_CANDIDATE then (Inl (signal_error ''signal_already_validated''), s)
          else if vr_assessment_id r \<in> vr_assessment_id ` set (sg_validations s)
          then (Inl (signal_error ''duplicate_signal_validation''), s)
          else bind_method
            (signal_transition e (vr_signal_id r) (vr_status r) ''signal_validation'' (validation_reason r)
               [''signal-validation:'' @ uuid_str (vr_assessment_id r)] (Some (vr_assessed_at r)))
            (\<lambda>_ t. (Inr (), t))
            (s\<lparr>sg_validations := sg_validations s @ [r]\<rparr>))"

definition lifecycle_events :: "uuid \<Rightarrow> signal_store \<Rightarrow> lifecycle_event list result" where
  "lifecycle_events i s = bind_result (stored_status i s) (\<lambda>_. Inr (signal_events i s))"

definition expirable :: "detailed_status set" where
  "expirable = {S_VALIDATED, WAITING_FOR_ENTRY, S_ACTIVE}"

definition due_order :: "signal_row \<Rightarrow> (int \<times> int \<times> int) \<times> nat" where
  "due_order r = (iso_key (sp_created_at (sr_proposal r)), row_id r)"

text \<open>The loop over the selected rows; \<open>env\<close> gives the draws of each transition.\<close>

fun expire_rows :: "(nat \<Rightarrow> signal_env) \<Rightarrow> nat \<Rightarrow> datetime \<Rightarrow> string \<Rightarrow> signal_row list \<Rightarrow>
  (signal_store, lifecycle_event list) operation" where
  "expire_rows env n as_of actor [] s = (Inr [], s)"
| "expire_rows env n as_of actor (r # rs) s =
     (if instant (sp_expires_at (sr_proposal r)) \<le> instant as_of
      then case signal_transition (env n) (row_id r) S_EXPIRED actor ''signal_expiry_reached''
             [''signal-expiry:'' @ iso_datetime (sp_expires_at (sr_proposal r))] (Some as_of) s of
          (Inl x, t) \<Rightarrow> (Inl x, t)
        | (Inr v, t) \<Rightarrow>
            (case expire_rows env (Suc n) as_of actor rs t of
               (Inl x, u) \<Rightarrow> (Inl x, u) | (Inr vs, u) \<Rightarrow> (Inr (v # vs), u))
      else expire_rows env n as_of actor rs s)"

definition due_rows :: "signal_store \<Rightarrow> signal_row list" where
  "due_rows s = sort_key due_order (filter (\<lambda>r. sr_status r \<in> expirable) (sg_signals s))"

definition expire_due :: "(nat \<Rightarrow> signal_env) \<Rightarrow> datetime \<Rightarrow> string \<Rightarrow> (signal_store, lifecycle_event list) operation" where
  "expire_due env as_of actor s =
     (if \<not> aware as_of then (Inl (signal_error ''signal_expiry_as_of_must_be_timezone_aware''), s)
      else if blank actor then (Inl (signal_error ''signal_transition_actor_required''), s)
      else expire_rows env 0 as_of actor (due_rows s) s)"

text \<open>\<open>risk_signal\<close>: only a current, validated, unexpired proposal is exposed.\<close>

definition risk_signal :: "uuid \<Rightarrow> datetime \<Rightarrow> signal_store \<Rightarrow> signal result" where
  "risk_signal i as_of s =
     (if \<not> aware as_of then Inl (signal_error ''risk_signal_as_of_must_be_timezone_aware'')
      else case find_signal i s of
        None \<Rightarrow> Inl (signal_error ''unknown_signal'')
      | Some r \<Rightarrow>
          if sr_status r \<noteq> S_VALIDATED
          then Inl (signal_error ''risk_signal_requires_current_validated_status'')
          else if instant (sp_expires_at (sr_proposal r)) \<le> instant as_of
          then Inl (signal_error ''risk_signal_is_expired'')
          else let p = sr_proposal r in Inr
            \<lparr>sig_signal_id = i, sig_instrument_id = sp_instrument_id p, sig_strategy_version = sp_strategy_version p,
             sig_status = VALIDATED, sig_created_at = sp_created_at p, sig_expires_at = sp_expires_at p,
             sig_data_quality_score = sp_data_quality_score p, sig_direction = sp_direction p,
             sig_explanation = sp_explanation p, sig_entry_low = Some (sp_entry_low p),
             sig_entry_high = Some (sp_entry_high p), sig_stop_level = Some (sp_stop_level p)\<rparr>)"

definition get_validation :: "uuid \<Rightarrow> signal_store \<Rightarrow> validation_result result" where
  "get_validation i s =
     (case find (\<lambda>r. vr_assessment_id r = i) (sg_validations s) of
        None \<Rightarrow> Inl (Exc KeyError ''assessment_id'') | Some r \<Rightarrow> Inr r)"

section \<open>The store as a state machine\<close>

text \<open>
  Every operation is a sequence of three steps: a new candidate, a validation row, a transition with its
  event.
\<close>

inductive signal_step :: "signal_store \<Rightarrow> signal_store \<Rightarrow> bool" where
  enters: "validate_proposal p = Inr () \<Longrightarrow> find_signal (sp_signal_id p) s = None \<Longrightarrow>
    signal_step s (s\<lparr>sg_signals := sg_signals s @ [\<lparr>sr_proposal = p, sr_status = S_CANDIDATE\<rparr>]\<rparr>)"
| assessed: "signal_step s (s\<lparr>sg_validations := sg_validations s @ [r]\<rparr>)"
| moves: "find_signal (le_signal_id e) s = Some r \<Longrightarrow> le_from_status e = sr_status r \<Longrightarrow>
    le_to_status e \<in> signal_transitions (sr_status r) \<Longrightarrow>
    signal_events (le_signal_id e) s = [] \<or>
    instant (le_occurred_at (last (signal_events (le_signal_id e) s))) \<le> instant (le_occurred_at e) \<Longrightarrow>
    signal_step s (set_status (le_signal_id e) (le_to_status e) (s\<lparr>sg_events := sg_events s @ [e]\<rparr>))"

abbreviation signal_steps :: "signal_store \<Rightarrow> signal_store \<Rightarrow> bool" where
  "signal_steps \<equiv> signal_step\<^sup>*\<^sup>*"

datatype signal_call =
    SgAppend signal_proposal
  | SgValidate signal_env validation_result
  | SgTransition signal_env uuid detailed_status string string "string list" "datetime option"
  | SgExpire "nat \<Rightarrow> signal_env" datetime string

fun signal_perform :: "signal_call \<Rightarrow> signal_store \<Rightarrow> signal_store" where
  "signal_perform (SgAppend p) s = snd (signal_append p s)"
| "signal_perform (SgValidate e r) s = snd (append_validation e r s)"
| "signal_perform (SgTransition e i st actor reason refs t) s = snd (signal_transition e i st actor reason refs t s)"
| "signal_perform (SgExpire env as_of actor) s = snd (expire_due env as_of actor s)"

text \<open>A transition leaves the store as it is, or is one step with its event.\<close>

lemma signal_transition_cases:
  obtains (refused) x where "signal_transition e i st actor reason refs t s = (Inl x, s)"
  | (moved) v r where "signal_transition e i st actor reason refs t s =
        (Inr v, set_status i st (s\<lparr>sg_events := sg_events s @ [v]\<rparr>))"
      "le_signal_id v = i" "le_from_status v = sr_status r" "le_to_status v = st"
      "find_signal i s = Some r" "st \<in> signal_transitions (sr_status r)"
      "le_occurred_at v = (case t of None \<Rightarrow> ge_now e | Some w \<Rightarrow> w)"
      "signal_events i s = [] \<or> instant (le_occurred_at (last (signal_events i s))) \<le> instant (le_occurred_at v)"
proof (cases "fst (signal_transition e i st actor reason refs t s)")
  case (Inl x)
  moreover have "case fst (signal_transition e i st actor reason refs t s) of
      Inl x \<Rightarrow> snd (signal_transition e i st actor reason refs t s) = s | Inr _ \<Rightarrow> True"
    unfolding signal_transition_def Let_def by (simp split: if_split sum.split)
  ultimately have "signal_transition e i st actor reason refs t s = (Inl x, s)"
    by (simp add: prod_eq_iff)
  then show ?thesis by (rule refused)
next
  case (Inr v)
  then obtain r where r: "find_signal i s = Some r"
    by (auto simp: signal_transition_def stored_status_def split: if_splits option.splits)
  let ?w = "case t of None \<Rightarrow> ge_now e | Some w \<Rightarrow> w"
  have st: "stored_status i s = Inr (sr_status r)" using r by (simp add: stored_status_def)
  note res = Inr [unfolded signal_transition_def st Let_def sum.case]
  have f: "\<not> blank actor" "\<not> blank reason" "\<not> (\<exists>r \<in> set refs. blank r)"
    using res by (simp_all split: if_splits)
  note res = res [unfolded if_not_P [OF f(1)] if_not_P [OF f(2)] if_not_P [OF f(3)]]
  have g: "\<not> (st \<notin> signal_transitions (sr_status r))" "\<not> \<not> aware ?w"
    "\<not> (signal_events i s \<noteq> [] \<and> instant ?w < instant (le_occurred_at (last (signal_events i s))))"
    "\<not> (ge_event_id e \<in> le_id ` set (sg_events s))"
    using res by (simp_all split: if_splits)
  have eq: "signal_transition e i st actor reason refs t s =
      (Inr v, set_status i st (s\<lparr>sg_events := sg_events s @ [v]\<rparr>))"
    "v = \<lparr>le_id = ge_event_id e, le_signal_id = i, le_from_status = sr_status r, le_to_status = st,
      le_actor = strip actor, le_reason = strip reason, le_evidence_references = refs, le_occurred_at = ?w\<rparr>"
    using Inr unfolding signal_transition_def st Let_def sum.case if_not_P [OF f(1)] if_not_P [OF f(2)]
      if_not_P [OF f(3)] if_not_P [OF g(1)] if_not_P [OF g(2)] if_not_P [OF g(3)] if_not_P [OF g(4)]
    by simp_all
  show ?thesis by (rule moved [OF eq(1), of r]) (use eq(2) r g in auto)
qed

lemma signal_transition_step: "signal_steps s (snd (signal_transition e i st actor reason refs t s))"
proof (cases e i st actor reason refs t s rule: signal_transition_cases)
  case (refused x)
  then show ?thesis by simp
next
  case (moved v r)
  have "signal_step s (set_status (le_signal_id v) (le_to_status v) (s\<lparr>sg_events := sg_events s @ [v]\<rparr>))"
    by (rule moves) (use moved in auto)
  then show ?thesis using moved(1,2,4) by auto
qed

lemma expire_rows_steps: "signal_steps s (snd (expire_rows env n as_of actor rs s))"
proof (induction env n as_of actor rs s rule: expire_rows.induct)
  case (2 env n as_of actor r rs s)
  let ?tr = "signal_transition (env n) (row_id r) S_EXPIRED actor ''signal_expiry_reached''
             [''signal-expiry:'' @ iso_datetime (sp_expires_at (sr_proposal r))] (Some as_of) s"
  show ?case
  proof (cases "instant (sp_expires_at (sr_proposal r)) \<le> instant as_of")
    case True
    have step: "signal_steps s (snd ?tr)" by (rule signal_transition_step)
    show ?thesis
    proof (cases "fst ?tr")
      case (Inl x)
      then have "snd (expire_rows env n as_of actor (r # rs) s) = snd ?tr"
        using True by (auto split: prod.splits sum.splits)
      then show ?thesis using step by simp
    next
      case (Inr v)
      then have "(Inr v, snd ?tr) = ?tr" by (simp add: prod_eq_iff)
      from "2.IH"(1) [OF True this refl] have "signal_steps (snd ?tr) (snd (expire_rows env (Suc n) as_of actor rs (snd ?tr)))"
        by simp
      moreover have "snd (expire_rows env n as_of actor (r # rs) s) = snd (expire_rows env (Suc n) as_of actor rs (snd ?tr))"
        using True Inr by (auto split: prod.splits sum.splits)
      ultimately show ?thesis using step by auto
    qed
  next
    case False
    then show ?thesis using "2.IH"(2) by simp
  qed
qed simp

lemma signal_perform_steps: "signal_steps s (signal_perform c s)"
proof (cases c)
  case (SgAppend p)
  show ?thesis
  proof (cases "signal_perform c s = s")
    case False
    then have "validate_proposal p = Inr ()" "find_signal (sp_signal_id p) s = None"
      by (auto simp: SgAppend signal_append_def split: sum.splits if_splits)
    then show ?thesis using enters [of p s] by (simp add: SgAppend signal_append_def)
  qed simp
next
  case (SgValidate e r)
  show ?thesis
  proof (cases "signal_perform c s = s")
    case False
    let ?t = "s\<lparr>sg_validations := sg_validations s @ [r]\<rparr>"
    let ?m = "signal_transition e (vr_signal_id r) (vr_status r) ''signal_validation'' (validation_reason r)
               [''signal-validation:'' @ uuid_str (vr_assessment_id r)] (Some (vr_assessed_at r))"
    have "signal_perform c s = snd (bind_method ?m (\<lambda>_ t. (Inr (), t)) ?t)"
      using False by (auto simp: SgValidate append_validation_def split: sum.splits if_splits)
    also have "\<dots> = snd (?m ?t)" by (simp add: bind_method_fst split: sum.splits)
    finally show ?thesis
      using converse_rtranclp_into_rtranclp [of signal_step s ?t, OF assessed signal_transition_step] by simp
  qed simp
next
  case (SgTransition e i st actor reason refs t)
  then show ?thesis using signal_transition_step by simp
next
  case (SgExpire env as_of actor)
  then show ?thesis using expire_rows_steps by (simp add: expire_due_def)
qed

section \<open>Histories\<close>

fun linked :: "detailed_status \<Rightarrow> lifecycle_event list \<Rightarrow> detailed_status \<Rightarrow> bool" where
  "linked st [] st' \<longleftrightarrow> st = st'"
| "linked st (e # es) st' \<longleftrightarrow> le_from_status e = st \<and> le_to_status e \<in> signal_transitions st \<and>
     linked (le_to_status e) es st'"

lemma linked_snoc:
  "linked st (es @ [e]) st' \<longleftrightarrow>
   le_to_status e = st' \<and> le_to_status e \<in> signal_transitions (le_from_status e) \<and> linked st es (le_from_status e)"
  by (induction es arbitrary: st) auto

definition event_times :: "lifecycle_event list \<Rightarrow> int list" where
  "event_times es = map (\<lambda>e. instant (le_occurred_at e)) es"

definition signal_inv :: "signal_store \<Rightarrow> bool" where
  "signal_inv s \<longleftrightarrow>
     distinct (map row_id (sg_signals s)) \<and>
     (\<forall>e \<in> set (sg_events s). find_signal (le_signal_id e) s \<noteq> None) \<and>
     (\<forall>i r. find_signal i s = Some r \<longrightarrow>
        validate_proposal (sr_proposal r) = Inr () \<and>
        linked S_CANDIDATE (signal_events i s) (sr_status r) \<and> sorted (event_times (signal_events i s)))"

lemma find_signal_id: "find_signal i s = Some r \<Longrightarrow> row_id r = i \<and> r \<in> set (sg_signals s)"
  by (auto simp: find_signal_def find_Some_iff)

lemma find_signal_set:
  "find_signal j (set_status i st s) =
     (case find_signal j s of None \<Rightarrow> None | Some r \<Rightarrow> Some (if j = i then r\<lparr>sr_status := st\<rparr> else r))"
proof -
  have "find (\<lambda>r. row_id r = j) (map (\<lambda>r. if row_id r = i then r\<lparr>sr_status := st\<rparr> else r) rs) =
      (case find (\<lambda>r. row_id r = j) rs of None \<Rightarrow> None | Some r \<Rightarrow> Some (if j = i then r\<lparr>sr_status := st\<rparr> else r))" for rs
    by (induction rs) (auto simp: row_id_def)
  then show ?thesis by (simp add: find_signal_def set_status_def)
qed

lemma find_signal_frame [simp]:
  "find_signal i (s\<lparr>sg_events := es\<rparr>) = find_signal i s" "find_signal i (s\<lparr>sg_validations := vs\<rparr>) = find_signal i s"
  by (simp_all add: find_signal_def)

lemma set_status_frame [simp]:
  "sg_events (set_status i st s) = sg_events s" "sg_validations (set_status i st s) = sg_validations s"
  "map row_id (sg_signals (set_status i st s)) = map row_id (sg_signals s)"
  "signal_events j (set_status i st s) = signal_events j s"
  by (auto simp: set_status_def signal_events_def row_id_def)

lemma find_signal_snoc:
  "find_signal i (s\<lparr>sg_signals := sg_signals s @ [r]\<rparr>) =
     (case find_signal i s of None \<Rightarrow> if row_id r = i then Some r else None | Some q \<Rightarrow> Some q)"
proof -
  have "find P (xs @ [y]) = (case find P xs of None \<Rightarrow> if P y then Some y else None | Some q \<Rightarrow> Some q)"
    for P :: "signal_row \<Rightarrow> bool" and xs y by (induction xs) auto
  then show ?thesis by (simp add: find_signal_def)
qed

lemma find_signal_None: "find_signal i s = None \<longleftrightarrow> i \<notin> row_id ` set (sg_signals s)"
  by (auto simp: find_signal_def find_None_iff)

lemma signal_step_inv: "signal_step s t \<Longrightarrow> signal_inv s \<Longrightarrow> signal_inv t"
proof (induction rule: signal_step.induct)
  case (enters p s)
  let ?r = "\<lparr>sr_proposal = p, sr_status = S_CANDIDATE\<rparr>"
  let ?t = "s\<lparr>sg_signals := sg_signals s @ [?r]\<rparr>"
  have id: "row_id ?r = sp_signal_id p" by (simp add: row_id_def)
  have none: "signal_events (sp_signal_id p) s = []"
    using enters.prems enters.hyps(2) by (auto simp: signal_inv_def signal_events_def filter_empty_conv)
  have ev: "signal_events i ?t = signal_events i s" for i by (simp add: signal_events_def)
  show ?case
    unfolding signal_inv_def ev
    using enters.prems enters.hyps none id enters.hyps(2) [unfolded find_signal_None]
    by (auto simp: signal_inv_def find_signal_snoc event_times_def split: option.splits if_splits)
next
  case (assessed s r)
  then show ?case by (simp add: signal_inv_def signal_events_def)
next
  case (moves e s r)
  let ?i = "le_signal_id e"
  let ?t = "set_status ?i (le_to_status e) (s\<lparr>sg_events := sg_events s @ [e]\<rparr>)"
  have ev: "signal_events j ?t = signal_events j s @ (if j = ?i then [e] else [])" for j
    by (simp add: signal_events_def)
  have old: "linked S_CANDIDATE (signal_events ?i s) (sr_status r)" "sorted (event_times (signal_events ?i s))"
    using moves.prems moves.hyps(1) by (auto simp: signal_inv_def)
  have srt: "sorted (event_times (signal_events ?i s @ [e]))"
  proof (cases "signal_events ?i s = []")
    case False
    have "x \<le> instant (le_occurred_at e)" if "x \<in> set (event_times (signal_events ?i s))" for x
    proof -
      have "x \<le> instant (le_occurred_at (last (signal_events ?i s)))"
        using that old(2) sorted_last [of "\<lambda>e. instant (le_occurred_at e)" "signal_events ?i s"]
        by (auto simp: event_times_def)
      then show ?thesis using moves.hyps(4) False by simp
    qed
    then show ?thesis using old(2) by (auto simp: event_times_def sorted_append)
  qed (simp add: event_times_def)
  show ?case
    unfolding signal_inv_def
  proof (intro conjI allI impI ballI)
    show "distinct (map row_id (sg_signals ?t))"
      using moves.prems by (simp add: signal_inv_def)
    fix v assume "v \<in> set (sg_events ?t)"
    then show "find_signal (le_signal_id v) ?t \<noteq> None"
      using moves.prems moves.hyps(1) by (auto simp: signal_inv_def find_signal_set split: option.splits)
  next
    fix j q assume q: "find_signal j ?t = Some q"
    then obtain q0 where q0: "find_signal j s = Some q0"
      "q = (if j = ?i then q0\<lparr>sr_status := le_to_status e\<rparr> else q0)"
      by (auto simp: find_signal_set split: option.splits)
    show "validate_proposal (sr_proposal q) = Inr ()" "linked S_CANDIDATE (signal_events j ?t) (sr_status q)"
      "sorted (event_times (signal_events j ?t))"
      unfolding ev using moves.prems moves.hyps q0 srt old by (auto simp: signal_inv_def linked_snoc)
  qed
qed

lemma signal_steps_inv: "signal_steps s t \<Longrightarrow> signal_inv s \<Longrightarrow> signal_inv t"
  by (induction rule: rtranclp_induct) (auto intro: signal_step_inv)

lemma signal_run_steps: "signal_steps s (fold signal_perform cs s)"
proof (induction cs arbitrary: s)
  case (Cons c cs)
  show ?case using rtranclp_trans [OF signal_perform_steps [of s c] Cons.IH [of "signal_perform c s"]] by simp
qed simp

lemma empty_signal_inv: "signal_inv empty_signal_store"
  by (simp add: signal_inv_def empty_signal_store_def find_signal_def)

lemma signal_run_inv: "signal_inv (fold signal_perform cs empty_signal_store)"
  by (rule signal_steps_inv [OF signal_run_steps empty_signal_inv])

lemma signal_step_keeps:
  "signal_step s t \<Longrightarrow> find_signal i s = Some r \<Longrightarrow>
   \<exists>q. find_signal i t = Some q \<and> sr_proposal q = sr_proposal r \<and> (signal_transitions (sr_status r) = {} \<longrightarrow> q = r)"
  by (induction rule: signal_step.induct)
    (auto simp: find_signal_snoc find_signal_set split: option.splits)

lemma signal_steps_keep:
  "signal_steps s t \<Longrightarrow> find_signal i s = Some r \<Longrightarrow>
   \<exists>q. find_signal i t = Some q \<and> sr_proposal q = sr_proposal r \<and> (signal_transitions (sr_status r) = {} \<longrightarrow> q = r)"
proof (induction rule: rtranclp_induct)
  case (step t u)
  then obtain q where q: "find_signal i t = Some q" "sr_proposal q = sr_proposal r"
    "signal_transitions (sr_status r) = {} \<longrightarrow> q = r" by blast
  from signal_step_keeps [OF step.hyps(2) q(1)] q(2,3) show ?case by auto
qed auto

section \<open>Expiry\<close>

lemma head_differs: "distinct (map f (x # xs)) \<Longrightarrow> y \<in> set xs \<Longrightarrow> f y \<noteq> f x"
  by (metis distinct.simps(2) image_eqI list.simps(9) set_map)

text \<open>What one expiry does to the rows: due rows expire, all others stay.\<close>

lemma expire_rows_effect:
  assumes "expire_rows env n as_of actor rs s = (Inr vs, t)"
    and "distinct (map row_id rs)" "\<forall>r \<in> set rs. find_signal (row_id r) s = Some r"
  shows "find_signal i t =
    (case find_signal i s of None \<Rightarrow> None
     | Some r \<Rightarrow> Some (if r \<in> set rs \<and> instant (sp_expires_at (sr_proposal r)) \<le> instant as_of
                        then r\<lparr>sr_status := S_EXPIRED\<rparr> else r))"
  using assms
proof (induction rs arbitrary: n s vs)
  case Nil
  then show ?case by (simp split: option.splits)
next
  case (Cons r rs)
  have rest: "find_signal (row_id q) s = Some q" "row_id q \<noteq> row_id r" if "q \<in> set rs" for q
    using Cons.prems(3) head_differs [OF Cons.prems(2) that] that by simp_all
  have row: "row_id q = i" if "find_signal i s = Some q" for q using find_signal_id [OF that] by simp
  show ?case
  proof (cases "instant (sp_expires_at (sr_proposal r)) \<le> instant as_of")
    case True
    obtain v s1 vs1 where tr: "signal_transition (env n) (row_id r) S_EXPIRED actor ''signal_expiry_reached''
        [''signal-expiry:'' @ iso_datetime (sp_expires_at (sr_proposal r))] (Some as_of) s = (Inr v, s1)"
      and more: "expire_rows env (Suc n) as_of actor rs s1 = (Inr vs1, t)"
      using Cons.prems(1) True by (auto split: prod.splits sum.splits)
    obtain w where s1: "s1 = set_status (row_id r) S_EXPIRED (s\<lparr>sg_events := sg_events s @ [w]\<rparr>)"
      using tr by (cases "env n" "row_id r" S_EXPIRED actor "''signal_expiry_reached''"
          "[''signal-expiry:'' @ iso_datetime (sp_expires_at (sr_proposal r))]" "Some as_of" s
          rule: signal_transition_cases) auto
    have f: "find_signal j s1 = (case find_signal j s of None \<Rightarrow> None
        | Some q \<Rightarrow> Some (if j = row_id r then q\<lparr>sr_status := S_EXPIRED\<rparr> else q))" for j
      unfolding s1 by (simp add: find_signal_set)
    have pre: "\<forall>q \<in> set rs. find_signal (row_id q) s1 = Some q"
      using rest by (simp add: f)
    have r: "find_signal (row_id r) s = Some r" using Cons.prems(3) by simp
    have new: "r\<lparr>sr_status := S_EXPIRED\<rparr> \<notin> set rs"
      using head_differs [OF Cons.prems(2), of "r\<lparr>sr_status := S_EXPIRED\<rparr>"] by (auto simp: row_id_def)
    have dr: "distinct (map row_id rs)" using Cons.prems(2) by simp
    note ih = Cons.IH [OF more dr pre, unfolded f]
    show ?thesis
    proof (cases "find_signal i s")
      case None
      then show ?thesis using ih by simp
    next
      case (Some q)
      have qi: "row_id q = i" by (rule row [OF Some])
      show ?thesis
      proof (cases "i = row_id r")
        case True
        then have "q = r" using Some r by simp
        then show ?thesis using ih Some new True \<open>instant (sp_expires_at (sr_proposal r)) \<le> instant as_of\<close> by simp
      next
        case False
        then have "q \<noteq> r" using qi by auto
        then show ?thesis using ih Some False by simp
      qed
    qed
  next
    case False
    then show ?thesis using Cons by (auto split: option.splits)
  qed
qed

lemma due_rows_facts:
  assumes "signal_inv s"
  shows "distinct (map row_id (due_rows s))" "\<forall>r \<in> set (due_rows s). find_signal (row_id r) s = Some r"
    "r \<in> set (due_rows s) \<longleftrightarrow> r \<in> set (sg_signals s) \<and> sr_status r \<in> expirable"
proof -
  have d: "distinct (map row_id (sg_signals s))" using assms by (simp add: signal_inv_def)
  have "inj_on row_id (set (sg_signals s))" "distinct (sg_signals s)"
    using d by (simp_all add: distinct_map)
  then show "distinct (map row_id (due_rows s))"
    by (auto simp: due_rows_def distinct_map intro: inj_on_subset)
  have find: "find (\<lambda>q. row_id q = row_id r) rs = Some r" if "r \<in> set rs" "distinct (map row_id rs)" for r rs
    using that by (induction rs) (auto simp: image_iff)
  show "\<forall>r \<in> set (due_rows s). find_signal (row_id r) s = Some r"
    using find [OF _ d] by (auto simp: due_rows_def find_signal_def)
  show "r \<in> set (due_rows s) \<longleftrightarrow> r \<in> set (sg_signals s) \<and> sr_status r \<in> expirable"
    by (auto simp: due_rows_def)
qed

text \<open>When nothing is due the loop does nothing.\<close>

lemma expire_rows_idle:
  "\<forall>r \<in> set rs. \<not> instant (sp_expires_at (sr_proposal r)) \<le> instant as_of \<Longrightarrow>
   expire_rows env n as_of actor rs s = (Inr [], s)"
  by (induction rs arbitrary: n) auto

text \<open>With fresh identifiers and no event after the scan time every due row can expire.\<close>

definition ready :: "(nat \<Rightarrow> signal_env) \<Rightarrow> nat \<Rightarrow> datetime \<Rightarrow> signal_store \<Rightarrow> signal_row list \<Rightarrow> bool" where
  "ready env n as_of s rs \<longleftrightarrow>
     (\<forall>k \<ge> n. ge_event_id (env k) \<notin> le_id ` set (sg_events s)) \<and> inj (\<lambda>k. ge_event_id (env k)) \<and>
     (\<forall>r \<in> set rs. \<forall>e \<in> set (sg_events s). le_signal_id e = row_id r \<longrightarrow>
        instant (le_occurred_at e) \<le> instant as_of)"

lemma not_blank_reference: "\<not> blank (''signal-expiry:'' @ x)"
  by (simp add: blank_iff is_space_def)

lemma expire_rows_succeed:
  assumes "aware as_of" "\<not> blank actor" "distinct (map row_id rs)"
    and "\<forall>r \<in> set rs. find_signal (row_id r) s = Some r \<and> sr_status r \<in> expirable" "ready env n as_of s rs"
  shows "\<exists>vs t. expire_rows env n as_of actor rs s = (Inr vs, t)"
  using assms(3-)
proof (induction rs arbitrary: n s)
  case Nil
  then show ?case by simp
next
  case (Cons r rs)
  show ?case
  proof (cases "instant (sp_expires_at (sr_proposal r)) \<le> instant as_of")
    case True
    let ?refs = "[''signal-expiry:'' @ iso_datetime (sp_expires_at (sr_proposal r))]"
    have st: "stored_status (row_id r) s = Inr (sr_status r)" using Cons.prems(2) by (simp add: stored_status_def)
    have al: "S_EXPIRED \<in> signal_transitions (sr_status r)" using Cons.prems(2) by (auto simp: expirable_def)
    have tm: "\<not> (signal_events (row_id r) s \<noteq> [] \<and>
        instant as_of < instant (le_occurred_at (last (signal_events (row_id r) s))))"
    proof
      assume a: "signal_events (row_id r) s \<noteq> [] \<and>
        instant as_of < instant (le_occurred_at (last (signal_events (row_id r) s)))"
      then have "last (signal_events (row_id r) s) \<in> set (signal_events (row_id r) s)" by simp
      then have "instant (le_occurred_at (last (signal_events (row_id r) s))) \<le> instant as_of"
        using Cons.prems(3) by (auto simp: ready_def signal_events_def)
      with a show False by simp
    qed
    have fr: "ge_event_id (env n) \<notin> le_id ` set (sg_events s)" using Cons.prems(3) by (simp add: ready_def)
    let ?v = "\<lparr>le_id = ge_event_id (env n), le_signal_id = row_id r, le_from_status = sr_status r,
        le_to_status = S_EXPIRED, le_actor = strip actor, le_reason = strip ''signal_expiry_reached'',
        le_evidence_references = ?refs, le_occurred_at = as_of\<rparr>"
    let ?t = "set_status (row_id r) S_EXPIRED (s\<lparr>sg_events := sg_events s @ [?v]\<rparr>)"
    have br: "\<not> blank ''signal_expiry_reached''" by (simp add: blank_iff is_space_def)
    have nr: "\<not> (\<exists>x \<in> set ?refs. blank x)" using not_blank_reference by simp
    have tr: "signal_transition (env n) (row_id r) S_EXPIRED actor ''signal_expiry_reached'' ?refs (Some as_of) s = (Inr ?v, ?t)"
      unfolding signal_transition_def st Let_def sum.case option.case if_not_P [OF assms(2)] if_not_P [OF br] if_not_P [OF nr]
      using al assms(1) tm fr by simp
    have rest: "find_signal (row_id q) s = Some q" "row_id q \<noteq> row_id r" "sr_status q \<in> expirable" if "q \<in> set rs" for q
      using Cons.prems(2) head_differs [OF Cons.prems(1) that] that by simp_all
    have "\<forall>q \<in> set rs. find_signal (row_id q) ?t = Some q \<and> sr_status q \<in> expirable"
      using rest by (simp add: find_signal_set)
    moreover have "ready env (Suc n) as_of ?t rs"
      using Cons.prems(3) rest(2) by (auto simp: ready_def dest: injD)
    ultimately obtain vs u where "expire_rows env (Suc n) as_of actor rs ?t = (Inr vs, u)"
      using Cons.IH [of ?t "Suc n"] Cons.prems(1) by auto
    then show ?thesis using True tr by simp
  next
    case False
    then show ?thesis using Cons by (auto simp: ready_def)
  qed
qed

section \<open>Properties\<close>

text \<open>
  C32: after any calls on a fresh store, the status of every signal is where its recorded events lead
  from \<open>CANDIDATE\<close>, each event an allowed transition out of the status before it, in time order; and its
  stored proposal passes validation.
\<close>

theorem signal_lifecycle_is_history:
  assumes "s = fold signal_perform cs empty_signal_store" "find_signal i s = Some r"
  shows "linked S_CANDIDATE (signal_events i s) (sr_status r) \<and> sorted (event_times (signal_events i s)) \<and>
    validate_proposal (sr_proposal r) = Inr ()"
  using signal_run_inv [of cs] assms unfolding signal_inv_def by blast

definition sample_proposal :: signal_proposal where
  "sample_proposal = \<lparr>sp_signal_id = 2, sp_instrument_id = ''BTC'', sp_asset_class = CRYPTO, sp_strategy_version = ''v1'',
     sp_direction = BUY, sp_entry_low = Dec 99 0, sp_entry_high = Dec 101 0, sp_invalidation_level = Dec 90 0,
     sp_stop_level = Dec 95 0, sp_target_logic = ''t'', sp_expected_holding_period = 1, sp_strength = Dec 5 (- 1),
     sp_confidence = Dec 5 (- 1), sp_expected_return = Dec 1 0, sp_expected_volatility = Dec 1 0,
     sp_expected_downside = Dec 0 0, sp_risk_reward_estimate = Dec 1 0, sp_regime = ''r'', sp_liquidity_score = Dec 1 0,
     sp_data_quality_score = Dec 1 0, sp_news_risk = Dec 0 0, sp_event_risk = Dec 0 0, sp_correlation_impact = Dec 0 0,
     sp_recommended_quantity = Dec 1 0, sp_expires_at = Aware 10 0, sp_explanation = ''e'',
     sp_contradicting_evidence = [], sp_created_at = Aware 0 0\<rparr>"

definition sample_signal_env :: "nat \<Rightarrow> signal_env" where
  "sample_signal_env n = \<lparr>ge_event_id = n, ge_now = Aware 1 0\<rparr>"

definition sample_signal_calls :: "signal_call list" where
  "sample_signal_calls = [SgAppend sample_proposal,
     SgTransition (sample_signal_env 0) 2 S_VALIDATED ''a'' ''r'' [] (Some (Aware 1 0))]"

definition sample_signal_event :: lifecycle_event where
  "sample_signal_event = \<lparr>le_id = 0, le_signal_id = 2, le_from_status = S_CANDIDATE, le_to_status = S_VALIDATED,
     le_actor = ''a'', le_reason = ''r'', le_evidence_references = [], le_occurred_at = Aware 1 0\<rparr>"

definition sample_signal_store :: signal_store where
  "sample_signal_store = \<lparr>sg_signals = [\<lparr>sr_proposal = sample_proposal, sr_status = S_VALIDATED\<rparr>],
     sg_validations = [], sg_events = [sample_signal_event]\<rparr>"

lemma sample_proposal_valid: "validate_proposal sample_proposal = Inr ()"
  by (simp add: validate_proposal_def sample_proposal_def blank_def strip_def is_space_def dec_order unit_interval_def)

lemma sample_signal_run: "fold signal_perform sample_signal_calls empty_signal_store = sample_signal_store"
proof -
  have v: "signal_append sample_proposal empty_signal_store =
      (Inr (), \<lparr>sg_signals = [\<lparr>sr_proposal = sample_proposal, sr_status = S_CANDIDATE\<rparr>], sg_validations = [], sg_events = []\<rparr>)"
    by (simp add: signal_append_def sample_proposal_valid empty_signal_store_def find_signal_def)
  have i: "sp_signal_id sample_proposal = 2" by (simp add: sample_proposal_def)
  show ?thesis
    by (simp add: sample_signal_calls_def v signal_transition_def stored_status_def find_signal_def row_id_def i
        signal_events_def set_status_def blank_def strip_def is_space_def sample_signal_env_def Let_def
        sample_signal_store_def sample_signal_event_def)
qed

lemma sample_find: "find_signal 2 sample_signal_store = Some \<lparr>sr_proposal = sample_proposal, sr_status = S_VALIDATED\<rparr>"
  by (simp add: find_signal_def sample_signal_store_def row_id_def sample_proposal_def)

theorem signal_lifecycle_is_history_witness:
  "linked S_CANDIDATE (signal_events 2 sample_signal_store) S_VALIDATED"
  using signal_lifecycle_is_history [OF sample_signal_run [symmetric] sample_find] by simp

text \<open>
  A signal that is blocked, invalidated, expired, closed or cancelled never changes again, and no
  signal's proposal ever changes, whatever is called.
\<close>

theorem terminal_signals_final:
  assumes "find_signal i s = Some r"
  shows "\<exists>q. find_signal i (fold signal_perform cs s) = Some q \<and> sr_proposal q = sr_proposal r \<and>
    (sr_status r \<in> {S_BLOCKED_BY_RISK, S_BLOCKED_BY_DATA, S_INVALIDATED, S_EXPIRED, S_CLOSED, S_CANCELLED} \<longrightarrow> q = r)"
  using signal_steps_keep [OF signal_run_steps assms, of cs] by auto

theorem terminal_signals_final_witness:
  "\<exists>q. find_signal 2 (fold signal_perform sample_signal_calls sample_signal_store) = Some q \<and>
     sr_proposal q = sample_proposal"
  using terminal_signals_final [OF sample_find, of sample_signal_calls] by auto

text \<open>
  The risk engine only ever sees a signal that is validated now and not expired, and such a signal
  has exactly one event: from candidate to validated.
\<close>

theorem risk_signal_current:
  assumes "s = fold signal_perform cs empty_signal_store" "risk_signal i t s = Inr sig"
  shows "instant t < instant (sig_expires_at sig) \<and> sig_signal_id sig = i \<and>
    (\<exists>e. signal_events i s = [e] \<and> le_from_status e = S_CANDIDATE \<and> le_to_status e = S_VALIDATED)"
proof -
  obtain r where r: "find_signal i s = Some r" "sr_status r = S_VALIDATED"
    and sig: "instant t < instant (sig_expires_at sig)" "sig_signal_id sig = i"
    using assms(2) by (auto simp: risk_signal_def Let_def split: if_splits option.splits)
  have l: "linked S_CANDIDATE (signal_events i s) S_VALIDATED"
    using signal_run_inv [of cs] assms(1) r unfolding signal_inv_def by metis
  have "\<exists>e. signal_events i s = [e] \<and> le_from_status e = S_CANDIDATE \<and> le_to_status e = S_VALIDATED"
  proof (cases "signal_events i s" rule: rev_cases)
    case Nil
    then show ?thesis using l by simp
  next
    case (snoc es e)
    have "le_from_status e = S_CANDIDATE" using l unfolding snoc linked_snoc by (cases "le_from_status e") auto
    moreover have "linked S_CANDIDATE es (le_from_status e)" using l snoc by (simp add: linked_snoc)
    moreover have "es = []"
    proof (cases es rule: rev_cases)
      case (snoc fs f)
      then have "le_to_status f = S_CANDIDATE" "le_to_status f \<in> signal_transitions (le_from_status f)"
        using calculation by (auto simp: linked_snoc)
      then show ?thesis by (cases "le_from_status f") auto
    qed
    ultimately show ?thesis using l snoc by (simp add: linked_snoc)
  qed
  with sig show ?thesis by blast
qed

theorem risk_signal_current_witness:
  "\<exists>sig. risk_signal 2 (Aware 5 0) sample_signal_store = Inr sig \<and> instant (Aware 5 0) < instant (sig_expires_at sig)"
proof -
  obtain sig where "risk_signal 2 (Aware 5 0) sample_signal_store = Inr sig"
    by (simp add: risk_signal_def sample_find sample_proposal_def)
  with risk_signal_current [OF sample_signal_run [symmetric] this] show ?thesis by blast
qed

text \<open>
  Expiry makes progress: when the drawn identifiers are fresh and no pending signal has an event
  after the scan time, the scan returns, leaves no validated, waiting or active signal past its expiry,
  and a second scan at the same time finds nothing to do.
\<close>

theorem expiry_makes_progress:
  assumes "signal_inv s" "aware as_of" "\<not> blank actor" "ready env 0 as_of s (due_rows s)"
  shows "\<exists>vs t. expire_due env as_of actor s = (Inr vs, t) \<and>
    (\<forall>i r. find_signal i t = Some r \<longrightarrow> sr_status r \<in> expirable \<longrightarrow> instant as_of < instant (sp_expires_at (sr_proposal r))) \<and>
    expire_due env' as_of actor t = (Inr [], t)"
proof -
  note d = due_rows_facts [OF assms(1)]
  obtain vs t where t: "expire_rows env 0 as_of actor (due_rows s) s = (Inr vs, t)"
    using expire_rows_succeed [OF assms(2,3) d(1) _ assms(4)] d(2,3) by blast
  have inv: "signal_inv t"
    using signal_steps_inv [OF expire_rows_steps assms(1), of env 0 as_of actor "due_rows s"] t by simp
  have left: "instant as_of < instant (sp_expires_at (sr_proposal q))"
    if q: "find_signal i t = Some q" "sr_status q \<in> expirable" for i q
  proof (rule ccontr)
    assume late: "\<not> instant as_of < instant (sp_expires_at (sr_proposal q))"
    obtain r where r: "find_signal i s = Some r"
      "q = (if r \<in> set (due_rows s) \<and> instant (sp_expires_at (sr_proposal r)) \<le> instant as_of
            then r\<lparr>sr_status := S_EXPIRED\<rparr> else r)"
      using expire_rows_effect [OF t d(1,2), of i] q(1) by (auto split: option.splits)
    have "r \<notin> set (due_rows s)" using r(2) q(2) late by (auto simp: expirable_def split: if_splits)
    then show False using r q(2) find_signal_id [OF r(1)] d(3) by (auto split: if_splits)
  qed
  have "expire_due env' as_of actor t = (Inr [], t)"
    unfolding expire_due_def using assms(2,3)
    by (simp, intro expire_rows_idle) (use due_rows_facts [OF inv] left in fastforce)
  moreover have "expire_due env as_of actor s = (Inr vs, t)" using t assms(2,3) by (simp add: expire_due_def)
  ultimately show ?thesis using left by blast
qed

theorem expiry_makes_progress_witness:
  "\<exists>t. expire_due sample_signal_env (Aware 20 0) ''scheduler'' t = (Inr [], t)"
proof -
  have inv: "signal_inv sample_signal_store" using signal_run_inv [of sample_signal_calls] sample_signal_run by simp
  have due: "due_rows sample_signal_store = [\<lparr>sr_proposal = sample_proposal, sr_status = S_VALIDATED\<rparr>]"
    by (simp add: due_rows_def sample_signal_store_def expirable_def)
  have ready: "ready (\<lambda>k. sample_signal_env (Suc k)) 0 (Aware 20 0) sample_signal_store (due_rows sample_signal_store)"
    by (auto simp: ready_def sample_signal_store_def sample_signal_event_def sample_signal_env_def inj_def)
  have b: "\<not> blank ''scheduler''" by (simp add: blank_iff is_space_def)
  show ?thesis using expiry_makes_progress [OF inv _ b ready, of sample_signal_env] by auto
qed

text \<open>
  One pending signal with an event after the scan time stops the whole scan: it raises, and the signals
  behind it in creation order stay unexpired however long they are due.
\<close>

lemma future_event_blocks_expiry:
  assumes "find_signal (row_id r) s = Some r" "sr_status r \<in> expirable" "aware as_of" "\<not> blank actor"
    and "instant (sp_expires_at (sr_proposal r)) \<le> instant as_of"
    and "signal_events (row_id r) s \<noteq> []" "instant as_of < instant (le_occurred_at (last (signal_events (row_id r) s)))"
  shows "expire_rows env n as_of actor (r # rs) s = (Inl (signal_error ''signal_transition_time_regression''), s)"
proof -
  have st: "stored_status (row_id r) s = Inr (sr_status r)" using assms(1) by (simp add: stored_status_def)
  have al: "S_EXPIRED \<in> signal_transitions (sr_status r)" using assms(2) by (auto simp: expirable_def)
  have br: "\<not> blank ''signal_expiry_reached''" by (simp add: blank_iff is_space_def)
  let ?refs = "[''signal-expiry:'' @ iso_datetime (sp_expires_at (sr_proposal r))]"
  have nr: "\<not> (\<exists>x \<in> set ?refs. blank x)" using not_blank_reference by simp
  have "signal_transition (env n) (row_id r) S_EXPIRED actor ''signal_expiry_reached'' ?refs (Some as_of) s =
      (Inl (signal_error ''signal_transition_time_regression''), s)"
    unfolding signal_transition_def st Let_def sum.case option.case if_not_P [OF assms(4)] if_not_P [OF br] if_not_P [OF nr]
    using al assms(3,6,7) by simp
  then show ?thesis using assms(5) by simp
qed

end
