(* ===== verification/Binary64.thy ===== *)
theory Binary64
  imports PyDecimal
begin

text \<open>
  The part of binary64 arithmetic the source uses: \<open>ceil(n * float(d))\<close> for a length and a positive
  decimal. A value is a natural mantissa of at most 53 bits times a power of two; conversion and
  product round to nearest, ties to even. Underflow is not modelled: it can only replace a tiny
  positive product by zero, and the source takes the maximum with one.
\<close>

fun bitlen :: "nat \<Rightarrow> int" where
  "bitlen n = (if n = 0 then 0 else 1 + bitlen (n div 2))"

declare bitlen.simps [simp del]

text \<open>\<open>n / d\<close> rounded to 53 bits: a mantissa, and the exponent it is scaled by.\<close>

definition round53_to :: "nat \<Rightarrow> nat \<Rightarrow> int \<Rightarrow> nat \<times> int" where
  "round53_to n d s = (rhe (n * 2 ^ nat s) (d * 2 ^ nat (- s)), - s)"

definition round53_fit :: "nat \<Rightarrow> nat \<Rightarrow> int \<Rightarrow> nat \<times> int" where
  "round53_fit n d s =
     (if 2 ^ 53 \<le> (n * 2 ^ nat s) div (d * 2 ^ nat (- s)) then round53_to n d (s - 1)
      else round53_to n d s)"

definition round53 :: "nat \<Rightarrow> nat \<Rightarrow> nat \<times> int" where
  "round53 n d = round53_fit n d (53 - (bitlen n - bitlen d))"

text \<open>\<open>float(d)\<close> of a positive decimal and the product of a length with it.\<close>

definition float_of :: "decimal \<Rightarrow> nat \<times> int" where
  "float_of d = round53 (nat (coef d) * 10 ^ nat (dexp d)) (10 ^ nat (- dexp d))"

fun times_float :: "nat \<Rightarrow> nat \<times> int \<Rightarrow> nat \<times> int" where
  "times_float n (m, k) = round53 (n * m * 2 ^ nat k) (2 ^ nat (- k))"

fun ceil_float :: "nat \<times> int \<Rightarrow> nat" where
  "ceil_float (m, k) = (if 0 \<le> k then m * 2 ^ nat k else (m + 2 ^ nat (- k) - 1) div 2 ^ nat (- k))"

definition ceil_times :: "nat \<Rightarrow> decimal \<Rightarrow> nat" where
  "ceil_times n d = ceil_float (times_float n (float_of d))"

lemmas float_eval = ceil_times_def float_of_def round53_def
  round53_fit_def round53_to_def bitlen.simps rhe_eval rhe_at_def

text \<open>Exact products keep their ceiling, but not every product is exact in binary.\<close>

lemma ceil_times_exact: "ceil_times 100 (Dec 5 (- 2)) = 5"
  by (simp add: float_eval)

lemma ceil_times_inexact: "ceil_times 100 (Dec 7 (- 2)) = 8"
  by (simp add: float_eval)

end
