(* ===== verification/PortfolioRisk.thy ===== *)
theory PortfolioRisk
  imports Domain Binary64 "HOL-Library.Multiset"
begin

text \<open>
  \<open>portfolio_risk.py\<close>: exposures, stress scenarios, concentration and group limits, historical
  value at risk and drawdown, and the portfolio decision over all of them.
\<close>

section \<open>Data\<close>

record portfolio_exposure =
  pe_instrument_id :: string
  pe_notional :: decimal
  pe_asset_class :: string
  pe_sector :: string
  pe_country :: string
  pe_currency :: string
  pe_broker :: string
  pe_exchange :: string
  pe_correlation_cluster :: string
  pe_beta :: decimal
  pe_duration :: decimal
  pe_factors :: "(string, decimal) dict"

record stress_scenario =
  ss_name :: string
  ss_shocks :: "(string, decimal) dict"

record stress_result =
  sr_scenario :: string
  sr_loss :: decimal
  sr_contributions :: "(string, decimal) dict"

record portfolio_risk_policy =
  pp_maximum_gross_notional :: decimal
  pp_maximum_single_weight :: decimal
  pp_maximum_scenario_loss :: decimal
  pp_maximum_net_notional :: "decimal option"
  pp_maximum_var_loss :: "decimal option"
  pp_maximum_cvar_loss :: "decimal option"
  pp_maximum_group_notionals :: "(string, decimal) dict"
  pp_maximum_factor_notionals :: "(string, decimal) dict"
  pp_maximum_beta_notional :: "decimal option"
  pp_maximum_duration_notional :: "decimal option"
  pp_maximum_drawdown_loss :: "decimal option"
  pp_minimum_historical_observations :: "int option"
  pp_return_history_window_observations :: "int option"
  pp_maximum_return_history_age_seconds :: "int option"

record portfolio_risk_decision =
  prd_approved :: bool
  prd_reasons :: "string list"
  prd_gross :: decimal
  prd_net :: decimal
  prd_stress_loss :: decimal
  prd_var_loss :: "decimal option"
  prd_cvar_loss :: "decimal option"
  prd_drawdown_loss :: "decimal option"
  prd_stress_results :: "stress_result list"

record historical_risk =
  hr_confidence :: decimal
  hr_observations :: nat
  hr_var_loss :: decimal
  hr_cvar_loss :: decimal

section \<open>Metrics\<close>

definition gross_and_net :: "portfolio_exposure list \<Rightarrow> decimal \<times> decimal" where
  "gross_and_net xs = (dsum (map (\<lambda>x. dabs (pe_notional x)) xs), dsum (map pe_notional xs))"

text \<open>A dict comprehension: a repeated instrument overwrites its earlier contribution.\<close>

definition shock_of :: "stress_scenario \<Rightarrow> portfolio_exposure \<Rightarrow> decimal" where
  "shock_of sc x =
     dict_get_or (ss_shocks sc) (pe_instrument_id x)
       (dict_get_or (ss_shocks sc) (pe_asset_class x) (Dec 0 0))"

definition stress :: "portfolio_exposure list \<Rightarrow> stress_scenario \<Rightarrow> stress_result" where
  "stress xs sc =
     (let contributions = dict_of pe_instrument_id (\<lambda>x. pe_notional x * shock_of sc x) xs
      in \<lparr>sr_scenario = ss_name sc, sr_loss = dsum (map snd contributions),
          sr_contributions = contributions\<rparr>)"

definition concentration_breaches ::
  "portfolio_exposure list \<Rightarrow> decimal \<Rightarrow> decimal \<Rightarrow> string list result" where
  "concentration_breaches xs equity maximum_single_weight =
     (if equity \<le> 0 \<or> maximum_single_weight \<le> 0
      then Inl (Exc ValueError ''invalid_concentration_limits'')
      else Inr (map pe_instrument_id
        (filter (\<lambda>x. maximum_single_weight < dquot (dabs (pe_notional x)) equity) xs)))"

definition group_field :: "string \<Rightarrow> (portfolio_exposure \<Rightarrow> string) option" where
  "group_field g =
     (if g = ''asset_class'' then Some pe_asset_class
      else if g = ''sector'' then Some pe_sector
      else if g = ''country'' then Some pe_country
      else if g = ''currency'' then Some pe_currency
      else if g = ''broker'' then Some pe_broker
      else if g = ''exchange'' then Some pe_exchange
      else if g = ''correlation_cluster'' then Some pe_correlation_cluster
      else None)"

definition add_total :: "string \<Rightarrow> decimal \<Rightarrow> (string, decimal) dict \<Rightarrow> (string, decimal) dict" where
  "add_total k v totals = dict_set k (dict_get_or totals k (Dec 0 0) + v) totals"

definition grouped_exposures :: "portfolio_exposure list \<Rightarrow> string \<Rightarrow> (string, decimal) dict result" where
  "grouped_exposures xs grp =
     (case group_field grp of
        None \<Rightarrow> Inl (Exc ValueError ''unsupported_exposure_group'')
      | Some f \<Rightarrow> Inr (fold (\<lambda>x totals. if f x = [] then totals else add_total (f x) (pe_notional x) totals) xs []))"

definition factor_exposures :: "portfolio_exposure list \<Rightarrow> (string, decimal) dict" where
  "factor_exposures xs =
     fold (\<lambda>x totals. fold (\<lambda>(factor, loading). add_total factor (pe_notional x * loading)) (pe_factors x) totals) xs []"

definition weighted_exposure :: "portfolio_exposure list \<Rightarrow> string \<Rightarrow> decimal result" where
  "weighted_exposure xs field_name =
     (if field_name = ''beta'' then Inr (dsum (map (\<lambda>x. pe_notional x * pe_beta x) xs))
      else if field_name = ''duration'' then Inr (dsum (map (\<lambda>x. pe_notional x * pe_duration x) xs))
      else Inl (Exc ValueError ''unsupported_weighted_exposure''))"

text \<open>The loop state of the drawdown: equity, peak, and the largest drawdown so far.\<close>

definition drawdown_step :: "decimal \<Rightarrow> decimal \<times> decimal \<times> decimal \<Rightarrow> (decimal \<times> decimal \<times> decimal) result" where
  "drawdown_step r st =
     (case st of (equity, peak, drawdown) \<Rightarrow>
        if r \<le> Dec (- 1) 0 then Inl (Exc ValueError ''return_below_negative_one'')
        else
          let equity = equity * (1 + r); peak = dmax peak equity
          in bind_result (ddiv equity peak) (\<lambda>q. Inr (equity, peak, dmax drawdown (1 - q))))"

definition maximum_drawdown_loss :: "decimal list \<Rightarrow> decimal result" where
  "maximum_drawdown_loss returns =
     (if returns = [] then Inl (Exc ValueError ''missing_drawdown_history'')
      else bind_result (fold_result drawdown_step returns (1, 1, Dec 0 0)) (\<lambda>(_, _, d). Inr d))"

text \<open>\<open>sorted\<close> is stable; only the size of the tail passes through binary floating point.\<close>

definition tail_count :: "nat \<Rightarrow> decimal \<Rightarrow> nat" where
  "tail_count n confidence = max 1 (ceil_times n confidence)"

definition return_tail :: "decimal list \<Rightarrow> decimal \<Rightarrow> decimal list" where
  "return_tail returns confidence =
     (let ordered = sort_key dval returns in take (tail_count (length ordered) confidence) ordered)"

definition historical_var_cvar :: "decimal list \<Rightarrow> decimal \<Rightarrow> historical_risk result" where
  "historical_var_cvar returns confidence =
     (if returns = [] \<or> \<not> (0 < confidence \<and> confidence < 1)
      then Inl (Exc ValueError ''invalid_historical_risk_inputs'')
      else
        let tail = return_tail returns confidence
        in Inr \<lparr>hr_confidence = confidence, hr_observations = length returns,
                hr_var_loss = dmax (Dec 0 0) (- last tail),
                hr_cvar_loss = dmax (Dec 0 0) (dquot (- dsum tail) (Dec (int (length tail)) 0))\<rparr>)"

section \<open>The portfolio decision\<close>

definition exceeds :: "decimal \<Rightarrow> decimal option \<Rightarrow> bool" where
  "exceeds v limit = (case limit of None \<Rightarrow> False | Some l \<Rightarrow> l < v)"

definition group_limit_reasons ::
  "portfolio_exposure list \<Rightarrow> string \<times> decimal \<Rightarrow> string list result" where
  "group_limit_reasons xs kl =
     (case kl of (key, limit) \<Rightarrow> case partition_colon key of (grp, separator, name) \<Rightarrow>
        if \<not> separator \<or> name = [] \<or> limit < 0
        then Inl (Exc ValueError ''invalid_group_exposure_limit'')
        else bind_result (grouped_exposures xs grp) (\<lambda>totals.
          Inr (if limit < dabs (dict_get_or totals name (Dec 0 0))
               then [''group_exposure_limit:'' @ key] else [])))"

definition factor_limit_reasons ::
  "portfolio_exposure list \<Rightarrow> string \<times> decimal \<Rightarrow> string list result" where
  "factor_limit_reasons xs kl =
     (case kl of (factor, limit) \<Rightarrow>
        if limit < 0 then Inl (Exc ValueError ''invalid_factor_exposure_limit'')
        else Inr (if limit < dabs (dict_get_or (factor_exposures xs) factor (Dec 0 0))
                  then [''factor_exposure_limit:'' @ factor] else []))"

text \<open>Collecting the reasons of a loop whose body may raise.\<close>

definition collect :: "('a \<Rightarrow> string list result) \<Rightarrow> 'a list \<Rightarrow> string list result" where
  "collect f xs = fold_result (\<lambda>x acc. bind_result (f x) (\<lambda>rs. Inr (acc @ rs))) xs []"

definition weighted_reasons :: "portfolio_exposure list \<Rightarrow> string \<Rightarrow> decimal option \<Rightarrow> string \<Rightarrow> string list" where
  "weighted_reasons xs field_name limit reason =
     (case weighted_exposure xs field_name of
        Inl _ \<Rightarrow> [] | Inr v \<Rightarrow> if exceeds (dabs v) limit then [reason] else [])"

text \<open>One configured historical limit: no history, too little history, or a loss above it.\<close>

definition history_reasons ::
  "decimal option \<Rightarrow> decimal option \<Rightarrow> bool \<Rightarrow> string \<Rightarrow> string \<Rightarrow> string list" where
  "history_reasons limit loss insufficient missing breach =
     (case limit of None \<Rightarrow> []
      | Some l \<Rightarrow>
          (case loss of None \<Rightarrow> [missing]
           | Some v \<Rightarrow> if insufficient then [''insufficient_historical_return_observations'']
                       else if l < v then [breach] else []))"

definition bad_count :: "int option \<Rightarrow> int \<Rightarrow> bool" where
  "bad_count v least = (case v of None \<Rightarrow> False | Some n \<Rightarrow> n < least)"

text \<open>\<open>tuple(dict.fromkeys(reasons))\<close>: the first occurrence of each reason.\<close>

definition first_occurrences :: "'a list \<Rightarrow> 'a list" where
  "first_occurrences xs = rev (remdups (rev xs))"

definition portfolio_inputs_error ::
  "decimal \<Rightarrow> stress_scenario list \<Rightarrow> portfolio_risk_policy \<Rightarrow> py_exc option" where
  "portfolio_inputs_error equity scenarios p =
     (if equity \<le> 0 then Some (Exc ValueError ''portfolio_equity_must_be_positive'')
      else if bad_count (pp_minimum_historical_observations p) 1 \<or>
              bad_count (pp_return_history_window_observations p) 1 \<or>
              bad_count (pp_maximum_return_history_age_seconds p) 0
      then Some (Exc ValueError ''invalid_minimum_historical_observations'')
      else if scenarios = [] \<or> (\<exists>sc \<in> set scenarios. blank (ss_name sc)) \<or>
              \<not> distinct (map ss_name scenarios)
      then Some (Exc ValueError ''invalid_stress_scenarios'')
      else None)"

definition portfolio_metrics :: "decimal list option \<Rightarrow> decimal \<Rightarrow> historical_risk option result" where
  "portfolio_metrics returns confidence =
     (case returns of None \<Rightarrow> Inr None
      | Some rs \<Rightarrow> if rs = [] then Inr None
                   else bind_result (historical_var_cvar rs confidence) (\<lambda>m. Inr (Some m)))"

definition portfolio_drawdown :: "decimal list option \<Rightarrow> decimal option result" where
  "portfolio_drawdown returns =
     (case returns of None \<Rightarrow> Inr None
      | Some rs \<Rightarrow> bind_result (maximum_drawdown_loss rs) (\<lambda>d. Inr (Some d)))"

definition insufficient_history :: "portfolio_risk_policy \<Rightarrow> decimal list option \<Rightarrow> bool" where
  "insufficient_history p returns =
     (case pp_minimum_historical_observations p of None \<Rightarrow> False
      | Some n \<Rightarrow> (case returns of None \<Rightarrow> True | Some rs \<Rightarrow> int (length rs) < n))"

definition exposure_reasons ::
  "portfolio_exposure list \<Rightarrow> decimal \<Rightarrow> stress_result list \<Rightarrow> portfolio_risk_policy \<Rightarrow> string list result" where
  "exposure_reasons xs equity stresses p =
     bind_result (concentration_breaches xs equity (pp_maximum_single_weight p)) (\<lambda>concentrated.
     bind_result (collect (group_limit_reasons xs) (pp_maximum_group_notionals p)) (\<lambda>groups.
     bind_result (collect (factor_limit_reasons xs) (pp_maximum_factor_notionals p)) (\<lambda>factors.
     Inr ((if pp_maximum_gross_notional p < fst (gross_and_net xs) then [''gross_exposure_limit''] else []) @
          map (\<lambda>i. ''concentration:'' @ i) concentrated @
          (if exceeds (dabs (snd (gross_and_net xs))) (pp_maximum_net_notional p)
           then [''net_exposure_limit''] else []) @
          groups @ factors @
          weighted_reasons xs ''beta'' (pp_maximum_beta_notional p) ''beta_exposure_limit'' @
          weighted_reasons xs ''duration'' (pp_maximum_duration_notional p) ''duration_exposure_limit'' @
          map (\<lambda>r. ''scenario_loss_limit:'' @ sr_scenario r)
            (filter (\<lambda>r. sr_loss r < - pp_maximum_scenario_loss p) stresses)))))"

definition evaluate_portfolio ::
  "portfolio_exposure list \<Rightarrow> decimal \<Rightarrow> stress_scenario list \<Rightarrow> portfolio_risk_policy \<Rightarrow>
   decimal list option \<Rightarrow> decimal \<Rightarrow> portfolio_risk_decision result" where
  "evaluate_portfolio xs equity scenarios p returns confidence =
     (case portfolio_inputs_error equity scenarios p of
        Some e \<Rightarrow> Inl e
      | None \<Rightarrow>
          let stresses = map (stress xs) scenarios;
              worst = foldl dmin (sr_loss (hd stresses)) (map sr_loss (tl stresses));
              few = insufficient_history p returns
          in bind_result (exposure_reasons xs equity stresses p) (\<lambda>exposure.
             bind_result (portfolio_metrics returns confidence) (\<lambda>metrics.
             bind_result (portfolio_drawdown returns) (\<lambda>drawdown.
               let var = map_option hr_var_loss metrics;
                   cvar = map_option hr_cvar_loss metrics;
                   reasons = exposure @
                     history_reasons (pp_maximum_var_loss p) var few ''missing_var_history'' ''var_limit'' @
                     history_reasons (pp_maximum_cvar_loss p) cvar few ''missing_cvar_history'' ''cvar_limit'' @
                     history_reasons (pp_maximum_drawdown_loss p) drawdown few
                       ''missing_drawdown_history'' ''drawdown_limit''
               in Inr \<lparr>prd_approved = (reasons = []), prd_reasons = first_occurrences reasons,
                       prd_gross = fst (gross_and_net xs), prd_net = snd (gross_and_net xs),
                       prd_stress_loss = worst, prd_var_loss = var, prd_cvar_loss = cvar,
                       prd_drawdown_loss = drawdown, prd_stress_results = stresses\<rparr>))))"

section \<open>Facts\<close>

lemma on_grid_Dec: "on_grid (- e) (dval (Dec c e))"
  by (auto simp: on_grid_def)

lemma dsum_exact:
  assumes "\<forall>x \<in> set xs. on_grid k (dval x)"
    and "sum_list (map (\<lambda>x. \<bar>dval x\<bar>) xs) < 10 ^ prec * 10 powi (- k)"
  shows "dval (dsum xs) = sum_list (map dval xs)"
  using assms
proof (induction xs rule: rev_induct)
  case Nil
  then show ?case by simp
next
  case (snoc x xs)
  have nn: "0 \<le> \<bar>dval x\<bar>" "0 \<le> sum_list (map (\<lambda>x. \<bar>dval x\<bar>) xs)"
    by (auto intro!: sum_list_nonneg)
  have ih: "dval (dsum xs) = sum_list (map dval xs)" using snoc nn by simp
  have "on_grid k (sum_list (map dval ys))" if "\<forall>x \<in> set ys. on_grid k (dval x)" for ys
    using that by (induction ys) (auto intro: on_grid_plus)
  then have g: "on_grid k (sum_list (map dval xs) + dval x)" using snoc.prems(1) by (intro on_grid_plus) auto
  have tri: "\<bar>sum_list (map dval ys)\<bar> \<le> sum_list (map (\<lambda>x. \<bar>dval x\<bar>) ys)" for ys
    by (induction ys) auto
  have "\<bar>sum_list (map dval xs) + dval x\<bar> < 10 ^ prec * 10 powi (- k)"
    using tri [of "xs @ [x]"] snoc.prems(2) by simp
  then have "representable (dval (dsum xs) + dval x)"
    unfolding ih using g by (intro on_grid_representable [of k]) auto
  then show ?case by (simp add: dval_plus_exact ih)
qed

text \<open>The loop of the drawdown keeps a positive equity below its peak and a drawdown in the unit interval.\<close>

definition drawdown_ok :: "decimal \<times> decimal \<times> decimal \<Rightarrow> bool" where
  "drawdown_ok st \<longleftrightarrow>
     (case st of (equity, peak, d) \<Rightarrow> 0 < dval equity \<and> 0 < dval peak \<and> 0 \<le> dval d \<and> dval d \<le> 1)"

lemma drawdown_step_ok:
  assumes "drawdown_ok st" "Dec (- 1) 0 < r"
  shows "\<exists>st'. drawdown_step r st = Inr st' \<and> drawdown_ok st'"
proof -
  obtain e p d where st: "st = (e, p, d)" by (cases st)
  let ?e = "e * (1 + r)" and ?p = "dmax p (e * (1 + r))"
  have r: "- 1 < dval r" using assms(2) by (simp add: dlt_iff)
  have pos: "0 < dval ?e" "0 < dval ?p" "dval ?e \<le> dval ?p"
    using assms(1) r by (auto simp: drawdown_ok_def st)
  have q: "0 < dval (dquot ?e ?p)" "dval (dquot ?e ?p) \<le> 1"
    using pos by (simp, intro dquot_le) auto
  have "0 \<le> dval (1 - dquot ?e ?p)" "dval (1 - dquot ?e ?p) \<le> 1"
    using q by (simp, intro minus_le) auto
  then have "drawdown_ok (?e, ?p, dmax d (1 - dquot ?e ?p))"
    using pos assms(1) by (auto simp: drawdown_ok_def st)
  moreover have "drawdown_step r st = Inr (?e, ?p, dmax d (1 - dquot ?e ?p))"
    using assms(2) pos by (simp add: drawdown_step_def st Let_def ddiv_ok)
  ultimately show ?thesis by blast
qed

lemma drawdown_run:
  "drawdown_ok st \<Longrightarrow>
   (case fold_result drawdown_step rs st of
      Inl _ \<Rightarrow> \<exists>r \<in> set rs. r \<le> Dec (- 1) 0
    | Inr st' \<Rightarrow> (\<forall>r \<in> set rs. Dec (- 1) 0 < r) \<and> drawdown_ok st')"
proof (induction rs arbitrary: st)
  case Nil
  then show ?case by simp
next
  case (Cons r rs)
  show ?case
  proof (cases "Dec (- 1) 0 < r")
    case True
    obtain st' where "drawdown_step r st = Inr st'" "drawdown_ok st'"
      using drawdown_step_ok [OF Cons.prems True] by blast
    with Cons.IH [of st'] True show ?thesis by (auto split: sum.splits)
  next
    case False
    then have "r \<le> Dec (- 1) 0" by simp
    then show ?thesis by (cases st) (auto simp: drawdown_step_def)
  qed
qed

lemma first_occurrences_Nil [simp]: "first_occurrences xs = [] \<longleftrightarrow> xs = []"
  by (simp add: first_occurrences_def)

lemma set_first_occurrences [simp]: "set (first_occurrences xs) = set xs"
  by (simp add: first_occurrences_def)

lemma collect_Inr:
  "collect f xs = Inr rs \<Longrightarrow> (rs = [] \<longleftrightarrow> (\<forall>x \<in> set xs. f x = Inr []))"
proof -
  have "fold_result (\<lambda>x acc. bind_result (f x) (\<lambda>rs. Inr (acc @ rs))) xs a = Inr rs \<Longrightarrow>
      (rs = [] \<longleftrightarrow> a = [] \<and> (\<forall>x \<in> set xs. f x = Inr []))" for a
    by (induction xs arbitrary: a) (auto simp: bind_result_def split: sum.splits)
  then show "collect f xs = Inr rs \<Longrightarrow> ?thesis" unfolding collect_def by blast
qed

lemma abs_sum_nonneg: "0 \<le> sum_list (map (\<lambda>x. \<bar>dval x\<bar>) xs)"
  by (induction xs) auto

lemma tail_facts:
  assumes "returns \<noteq> []"
  shows "return_tail returns c \<noteq> []" "\<forall>x \<in> set (return_tail returns c). dval x \<le> dval (last (return_tail returns c))"
    "set (return_tail returns c) \<subseteq> set returns"
    "sum_list (map (\<lambda>x. \<bar>dval x\<bar>) (return_tail returns c)) \<le> sum_list (map (\<lambda>x. \<bar>dval x\<bar>) returns)"
proof -
  let ?o = "sort_key dval returns" and ?n = "tail_count (length (sort_key dval returns)) c"
  have t: "return_tail returns c = take ?n ?o" by (simp add: return_tail_def Let_def)
  have "?o \<noteq> []" using assms by (metis set_empty set_sort)
  then show ne: "return_tail returns c \<noteq> []" by (simp add: t tail_count_def)
  have "sorted (map dval (take ?n ?o))" by (simp add: sorted_wrt_take take_map [symmetric])
  then show "\<forall>x \<in> set (return_tail returns c). dval x \<le> dval (last (return_tail returns c))"
    using sorted_last by (fastforce simp: t)
  show "set (return_tail returns c) \<subseteq> set returns"
    unfolding t by (metis set_sort set_take_subset)
  have "sum_list (map (\<lambda>x. \<bar>dval x\<bar>) (take ?n ?o)) \<le> sum_list (map (\<lambda>x. \<bar>dval x\<bar>) (take ?n ?o)) +
      sum_list (map (\<lambda>x. \<bar>dval x\<bar>) (drop ?n ?o))"
    using abs_sum_nonneg by simp
  also have "\<dots> = sum_list (map (\<lambda>x. \<bar>dval x\<bar>) ?o)"
    by (metis append_take_drop_id map_append sum_list_append)
  also have "\<dots> = sum_list (map (\<lambda>x. \<bar>dval x\<bar>) returns)"
    by (simp only: sum_mset_sum_list [symmetric] mset_map mset_sort)
  finally show "sum_list (map (\<lambda>x. \<bar>dval x\<bar>) (return_tail returns c)) \<le> sum_list (map (\<lambda>x. \<bar>dval x\<bar>) returns)"
    unfolding t .
qed

text \<open>What an approval says: every configured limit holds.\<close>

definition under_limit :: "decimal \<Rightarrow> decimal option \<Rightarrow> bool" where
  "under_limit v limit \<longleftrightarrow> \<not> exceeds v limit"

definition loss_within :: "decimal option \<Rightarrow> decimal option \<Rightarrow> bool \<Rightarrow> bool" where
  "loss_within limit loss few \<longleftrightarrow>
     (\<forall>l. limit = Some l \<longrightarrow> \<not> few \<and> (\<exists>v. loss = Some v \<and> v \<le> l))"

lemma history_reasons_Nil [simp]: "history_reasons limit loss few m b = [] \<longleftrightarrow> loss_within limit loss few"
  by (auto simp: history_reasons_def loss_within_def split: option.splits)

lemma weighted_reasons_Nil:
  "weighted_reasons xs ''beta'' limit r = [] \<longleftrightarrow>
     under_limit (dabs (dsum (map (\<lambda>x. pe_notional x * pe_beta x) xs))) limit"
  "weighted_reasons xs ''duration'' limit r = [] \<longleftrightarrow>
     under_limit (dabs (dsum (map (\<lambda>x. pe_notional x * pe_duration x) xs))) limit"
  by (simp_all add: weighted_reasons_def weighted_exposure_def under_limit_def)

lemma factor_reasons_Nil:
  "factor_limit_reasons xs (f, l) = Inr rs \<Longrightarrow>
   rs = [] \<longleftrightarrow> dabs (dict_get_or (factor_exposures xs) f (Dec 0 0)) \<le> l"
  by (auto simp: factor_limit_reasons_def split: if_splits)

definition limits_hold ::
  "portfolio_exposure list \<Rightarrow> decimal \<Rightarrow> stress_scenario list \<Rightarrow> portfolio_risk_policy \<Rightarrow> bool" where
  "limits_hold xs equity scenarios p \<longleftrightarrow>
     dsum (map (\<lambda>x. dabs (pe_notional x)) xs) \<le> pp_maximum_gross_notional p \<and>
     (\<forall>x \<in> set xs. dquot (dabs (pe_notional x)) equity \<le> pp_maximum_single_weight p) \<and>
     under_limit (dabs (dsum (map pe_notional xs))) (pp_maximum_net_notional p) \<and>
     (\<forall>kl \<in> set (pp_maximum_group_notionals p). group_limit_reasons xs kl = Inr []) \<and>
     (\<forall>(f, l) \<in> set (pp_maximum_factor_notionals p).
        0 \<le> l \<and> dabs (dict_get_or (factor_exposures xs) f (Dec 0 0)) \<le> l) \<and>
     under_limit (dabs (dsum (map (\<lambda>x. pe_notional x * pe_beta x) xs))) (pp_maximum_beta_notional p) \<and>
     under_limit (dabs (dsum (map (\<lambda>x. pe_notional x * pe_duration x) xs))) (pp_maximum_duration_notional p) \<and>
     (\<forall>sc \<in> set scenarios. - pp_maximum_scenario_loss p \<le> sr_loss (stress xs sc))"

lemma exposure_reasons_Nil:
  assumes "exposure_reasons xs equity (map (stress xs) scenarios) p = Inr rs"
  shows "rs = [] \<longleftrightarrow> limits_hold xs equity scenarios p"
proof -
  obtain cs gs fs where c: "concentration_breaches xs equity (pp_maximum_single_weight p) = Inr cs"
    and g: "collect (group_limit_reasons xs) (pp_maximum_group_notionals p) = Inr gs"
    and f: "collect (factor_limit_reasons xs) (pp_maximum_factor_notionals p) = Inr fs"
    using assms by (auto simp: exposure_reasons_def bind_result_Inr_iff)
  have cs: "cs = [] \<longleftrightarrow> (\<forall>x \<in> set xs. dquot (dabs (pe_notional x)) equity \<le> pp_maximum_single_weight p)"
    using c by (auto simp: concentration_breaches_def filter_empty_conv split: if_splits)
  have "factor_limit_reasons xs (n, l) = Inr [] \<longleftrightarrow>
      0 \<le> l \<and> dabs (dict_get_or (factor_exposures xs) n (Dec 0 0)) \<le> l" for n l
    by (simp add: factor_limit_reasons_def)
  then have fs: "fs = [] \<longleftrightarrow> (\<forall>(n, l) \<in> set (pp_maximum_factor_notionals p).
      0 \<le> l \<and> dabs (dict_get_or (factor_exposures xs) n (Dec 0 0)) \<le> l)"
    using collect_Inr [OF f] by (simp only: split_paired_Ball_Sigma split_def prod.collapse) (metis prod.collapse)
  have rs: "rs = (if pp_maximum_gross_notional p < dsum (map (\<lambda>x. dabs (pe_notional x)) xs)
           then [''gross_exposure_limit''] else []) @
          map (\<lambda>i. ''concentration:'' @ i) cs @
          (if exceeds (dabs (dsum (map pe_notional xs))) (pp_maximum_net_notional p)
           then [''net_exposure_limit''] else []) @
          gs @ fs @
          weighted_reasons xs ''beta'' (pp_maximum_beta_notional p) ''beta_exposure_limit'' @
          weighted_reasons xs ''duration'' (pp_maximum_duration_notional p) ''duration_exposure_limit'' @
          map (\<lambda>r. ''scenario_loss_limit:'' @ sr_scenario r)
            (filter (\<lambda>r. sr_loss r < - pp_maximum_scenario_loss p) (map (stress xs) scenarios))"
    using assms unfolding exposure_reasons_def c g f bind_result_simps gross_and_net_def fst_conv snd_conv
    by (simp only: sum.inject)
  have net: "((if e then [r] else []) = []) \<longleftrightarrow> \<not> e" for e and r :: string
    by auto
  show ?thesis
    unfolding rs append_is_Nil_conv map_is_Nil_conv net cs fs collect_Inr [OF g] weighted_reasons_Nil
      under_limit_def limits_hold_def filter_empty_conv set_map ball_simps not_dlt
    by blast
qed

section \<open>Properties\<close>

text \<open>
  The drawdown of a history is defined exactly for a non-empty history without a total loss, and
  then lies between zero and one.
\<close>

theorem drawdown_defined_and_bounded:
  "(ok (maximum_drawdown_loss rs) \<longleftrightarrow> rs \<noteq> [] \<and> (\<forall>r \<in> set rs. Dec (- 1) 0 < r)) \<and>
   (\<forall>d. maximum_drawdown_loss rs = Inr d \<longrightarrow> 0 \<le> dval d \<and> dval d \<le> 1)"
proof -
  have "drawdown_ok (1, 1, Dec 0 0)" by (simp add: drawdown_ok_def)
  from drawdown_run [OF this, of rs] show ?thesis
    by (auto simp: maximum_drawdown_loss_def ok_def drawdown_ok_def bind_result_def split: sum.splits)
qed

theorem drawdown_defined_and_bounded_witness:
  "ok (maximum_drawdown_loss [Dec 1 (- 1), Dec (- 5) (- 1)])"
  using drawdown_defined_and_bounded [of "[Dec 1 (- 1), Dec (- 5) (- 1)]"] by (simp add: dlt_iff)

text \<open>
  The expected loss of the tail is at least the value at risk, for returns on one decimal grid
  whose absolute sum is below ten to the 28 steps (so that sums are exact).
\<close>

theorem cvar_at_least_var:
  assumes "historical_var_cvar returns c = Inr h"
    and "\<forall>r \<in> set returns. on_grid k (dval r)"
    and "sum_list (map (\<lambda>r. \<bar>dval r\<bar>) returns) < 10 ^ prec * 10 powi (- k)"
  shows "0 \<le> dval (hr_var_loss h) \<and> dval (hr_var_loss h) \<le> dval (hr_cvar_loss h)"
proof -
  have ne: "returns \<noteq> []" using assms(1) by (auto simp: historical_var_cvar_def)
  define tail where "tail = return_tail returns c"
  note tf = tail_facts [OF ne, of c, folded tail_def]
  let ?n = "of_nat (length tail) :: rat" and ?s = "sum_list (map dval tail)" and ?l = "dval (last tail)"
  have h: "hr_var_loss h = dmax (Dec 0 0) (- last tail)"
    "hr_cvar_loss h = dmax (Dec 0 0) (dquot (- dsum tail) (Dec (int (length tail)) 0))"
    using assms(1) by (auto simp: historical_var_cvar_def Let_def tail_def split: if_splits)
  have len: "0 < ?n" using tf(1) by simp
  have tb: "sum_list (map (\<lambda>x. \<bar>dval x\<bar>) tail) < 10 ^ prec * 10 powi (- k)"
    using tf(4) assms(3) by simp
  have ex: "dval (dsum tail) = ?s" using tf(3) assms(2) by (intro dsum_exact [OF _ tb]) auto
  have lt: "last tail \<in> set tail" using tf(1) by simp
  have one: "\<bar>dval x\<bar> \<le> sum_list (map (\<lambda>x. \<bar>dval x\<bar>) ys)" if "x \<in> set ys" for x ys
    using that by (induction ys) (auto intro: add_increasing simp: abs_sum_nonneg)
  have rl: "representable ?l"
    using lt tf(3) assms(2) order.strict_trans1 [OF one [OF lt] tb] by (intro on_grid_representable [of k]) auto
  have rs: "representable ?s" by (metis ex representable_ops(1) dsum_Nil dsum_snoc append_butlast_last_id tf(1))
  have "sum_list (map dval tail) \<le> sum_list (map (\<lambda>_. ?l) tail)"
    using tf(2) by (intro sum_list_mono) auto
  then have le: "?s \<le> ?n * ?l" by (simp add: sum_list_triv)
  have neg: "dval (- dsum tail) = - ?s" "dval (- last tail) = - ?l"
    using rs rl by (simp_all add: dval_uminus_exact ex)
  have "- ?l \<le> dval (dquot (- dsum tail) (Dec (int (length tail)) 0))" if "0 < - ?l"
  proof (rule dquot_ge)
    have "0 \<le> ?n * - ?l" using that len by (intro mult_nonneg_nonneg) auto
    then show "0 \<le> dval (- dsum tail)" using le neg(1) by simp
    show "- ?l \<le> dval (- dsum tail) / dval (Dec (int (length tail)) 0)"
      using le len neg(1) by (simp add: pos_divide_le_eq mult.commute)
  qed (use len rl in auto)
  then show ?thesis unfolding h by (cases "dval (last tail) = 0") (auto simp: neg max_def)
qed

text \<open>Three days, ten exact hundredths each: the worst of them is the tail at half confidence.\<close>

definition sample_returns :: "decimal list" where
  "sample_returns = [Dec 3 (- 2), Dec (- 2) (- 2), Dec (- 5) (- 2)]"

theorem cvar_at_least_var_witness:
  "\<exists>h. historical_var_cvar sample_returns (Dec 5 (- 1)) = Inr h \<and>
       0 \<le> dval (hr_var_loss h) \<and> dval (hr_var_loss h) \<le> dval (hr_cvar_loss h)"
proof -
  obtain h where h: "historical_var_cvar sample_returns (Dec 5 (- 1)) = Inr h"
    by (auto simp: historical_var_cvar_def sample_returns_def Let_def dlt_iff)
  have "\<forall>r \<in> set sample_returns. on_grid 2 (dval r)"
    using on_grid_Dec [of "- 2" 3] on_grid_Dec [of "- 2" "- 2"] on_grid_Dec [of "- 2" "- 5"]
    by (simp add: sample_returns_def)
  moreover have "sum_list (map (\<lambda>r. \<bar>dval r\<bar>) sample_returns) < 10 ^ prec * 10 powi (- 2)"
    by (simp add: sample_returns_def prec_def power_int_minus)
  ultimately show ?thesis using cvar_at_least_var [OF h] h by blast
qed

text \<open>
  C29: a portfolio is approved exactly when every limit holds: gross and net notional, single weights,
  groups, factors, beta and duration, every stress scenario, and the historical losses on enough history.
\<close>

theorem portfolio_approved_iff:
  assumes "evaluate_portfolio xs equity scenarios p returns c = Inr d"
  shows "(prd_approved d \<longleftrightarrow> prd_reasons d = []) \<and> (prd_approved d \<longleftrightarrow>
     limits_hold xs equity scenarios p \<and>
     loss_within (pp_maximum_var_loss p) (prd_var_loss d) (insufficient_history p returns) \<and>
     loss_within (pp_maximum_cvar_loss p) (prd_cvar_loss d) (insufficient_history p returns) \<and>
     loss_within (pp_maximum_drawdown_loss p) (prd_drawdown_loss d) (insufficient_history p returns))"
  using assms exposure_reasons_Nil
  by (auto simp: evaluate_portfolio_def Let_def bind_result_Inr_iff split: option.splits)

definition sample_portfolio_policy :: portfolio_risk_policy where
  "sample_portfolio_policy = \<lparr>
     pp_maximum_gross_notional = Dec 100 0, pp_maximum_single_weight = Dec 1 0, pp_maximum_scenario_loss = Dec 10 0,
     pp_maximum_net_notional = Some (Dec 50 0), pp_maximum_var_loss = None, pp_maximum_cvar_loss = None,
     pp_maximum_group_notionals = [], pp_maximum_factor_notionals = [(''growth'', Dec 5 0)],
     pp_maximum_beta_notional = None, pp_maximum_duration_notional = None, pp_maximum_drawdown_loss = None,
     pp_minimum_historical_observations = None, pp_return_history_window_observations = None,
     pp_maximum_return_history_age_seconds = None\<rparr>"

theorem portfolio_approved_iff_witness:
  "\<exists>d. evaluate_portfolio [] (Dec 10 0) [\<lparr>ss_name = ''crash'', ss_shocks = []\<rparr>] sample_portfolio_policy None 1 = Inr d \<and>
       (prd_approved d \<longleftrightarrow> prd_reasons d = []) \<and>
       (limits_hold [] (Dec 10 0) [\<lparr>ss_name = ''crash'', ss_shocks = []\<rparr>] sample_portfolio_policy \<longrightarrow> prd_approved d)"
proof -
  let ?sc = "[\<lparr>ss_name = ''crash'', ss_shocks = []\<rparr>]"
  have "portfolio_inputs_error (Dec 10 0) ?sc sample_portfolio_policy = None"
    by (simp add: portfolio_inputs_error_def sample_portfolio_policy_def bad_count_def blank_def strip_def is_space_def dle_iff)
  moreover have "ok (exposure_reasons [] (Dec 10 0) (map (stress []) ?sc) sample_portfolio_policy)"
    by (simp add: ok_def exposure_reasons_def concentration_breaches_def collect_def factor_limit_reasons_def
        sample_portfolio_policy_def dle_iff dlt_iff)
  ultimately obtain d where d: "evaluate_portfolio [] (Dec 10 0) ?sc sample_portfolio_policy None 1 = Inr d"
    by (auto simp: evaluate_portfolio_def Let_def portfolio_metrics_def portfolio_drawdown_def ok_def
        split: sum.splits)
  have "loss_within None l f" for l f by (simp add: loss_within_def)
  then have "loss_within (pp_maximum_var_loss sample_portfolio_policy) l f"
    "loss_within (pp_maximum_cvar_loss sample_portfolio_policy) l f"
    "loss_within (pp_maximum_drawdown_loss sample_portfolio_policy) l f" for l f
    by (simp_all add: sample_portfolio_policy_def)
  with portfolio_approved_iff [OF d] d show ?thesis by metis
qed

text \<open>
  An empty return history (as opposed to no history) makes the whole evaluation raise, whatever the
  limits: the value at risk treats it as missing, the drawdown does not.
\<close>

theorem empty_history_raises:
  "\<not> ok (evaluate_portfolio xs equity scenarios p (Some []) c)"
  by (auto simp: evaluate_portfolio_def ok_def Let_def portfolio_drawdown_def maximum_drawdown_loss_def
      bind_result_def split: option.splits sum.splits)

end
