(* ===== verification/PolicyRegistry.thy ===== *)
theory PolicyRegistry
  imports Domain Rendering SqlOrder PortfolioRisk "HOL-Library.Countable"
begin

text \<open>
  \<open>policy_registry.py\<close>: immutable, content-addressed policy documents, and their decoding into risk
  limits, portfolio limits and stress scenarios. SHA-256 over the canonical JSON text is the parameter
  \<open>sha\<close>, applied to the payload with its keys sorted.
\<close>

section \<open>JSON values\<close>

text \<open>What \<open>json.loads\<close> returns; a float is kept as its \<open>repr\<close>.\<close>

datatype json =
    JNull
  | JBool bool
  | JInt int
  | JFloat string
  | JStr string
  | JList "json list"
  | JObj "(string \<times> json) list"

type_synonym payload = "(string, json) dict"

text \<open>\<open>sort_keys\<close>, at every level.\<close>

primrec json_sorted :: "json \<Rightarrow> json" where
  "json_sorted JNull = JNull"
| "json_sorted (JBool b) = JBool b"
| "json_sorted (JInt i) = JInt i"
| "json_sorted (JFloat t) = JFloat t"
| "json_sorted (JStr s) = JStr s"
| "json_sorted (JList xs) = JList (map json_sorted xs)"
| "json_sorted (JObj kvs) = JObj (sort_key fst (map (map_prod id json_sorted) kvs))"

definition canonical :: "payload \<Rightarrow> payload" where
  "canonical p = sort_key fst (map (map_prod id json_sorted) p)"

text \<open>
  \<open>Decimal(str(v))\<close>, \<open>None\<close> where it raises: the texts of \<open>None\<close>, booleans, lists and dicts are no
  numbers.
\<close>

fun json_decimal :: "json \<Rightarrow> xdecimal option" where
  "json_decimal (JInt i) = Some (Finite (Dec i 0))"
| "json_decimal (JFloat t) = dec_parse t"
| "json_decimal (JStr t) = dec_parse t"
| "json_decimal _ = None"

text \<open>\<open>int(str(v))\<close>: digits with an optional sign, single underscores between digits.\<close>

fun digit_groups :: "string \<Rightarrow> bool" where
  "digit_groups [] = False"
| "digit_groups [c] = is_digit c"
| "digit_groups (c # d # cs) =
     (is_digit c \<and> (if d = CHR ''_'' then digit_groups cs else digit_groups (d # cs)))"

definition int_parse :: "string \<Rightarrow> int option" where
  "int_parse s =
     (case parse_sign (strip s) of
        (neg, r) \<Rightarrow>
          if digit_groups r then Some ((if neg then - 1 else 1) * int (digits_value (filter is_digit r))) else None)"

fun json_int :: "json \<Rightarrow> int option" where
  "json_int (JInt i) = Some i"
| "json_int (JFloat t) = int_parse t"
| "json_int (JStr t) = int_parse t"
| "json_int _ = None"

section \<open>Documents\<close>

record policy_document =
  pd_policy_type :: string
  pd_version :: string
  pd_payload :: payload
  pd_approved_by :: string
  pd_approved_at :: datetime

abbreviation policy_error :: "string \<Rightarrow> py_exc" where
  "policy_error m \<equiv> Exc PolicyRegistryError m"

definition policy_digest :: "(payload \<Rightarrow> string) \<Rightarrow> policy_document \<Rightarrow> string" where
  "policy_digest sha d = sha (canonical (pd_payload d))"

text \<open>A row: the document as its JSON text reads back, and the digest written with it.\<close>

record policy_row =
  pw_document :: policy_document
  pw_digest :: string

definition row_key :: "policy_row \<Rightarrow> string \<times> string" where
  "row_key r = (pd_policy_type (pw_document r), pd_version (pw_document r))"

definition policy_append :: "(payload \<Rightarrow> string) \<Rightarrow> policy_document \<Rightarrow> (policy_row list, unit) operation" where
  "policy_append sha d rows =
     (if pd_policy_type d \<notin> {''risk'', ''portfolio''} \<or> blank (pd_version d) \<or> blank (pd_approved_by d) \<or>
         pd_payload d = [] \<or> \<not> aware (pd_approved_at d)
      then (Inl (policy_error ''invalid_policy_document''), rows)
      else if (pd_policy_type d, pd_version d) \<in> row_key ` set rows
      then (Inl (policy_error ''duplicate_policy_version''), rows)
      else (Inr (), rows @ [\<lparr>pw_document = d\<lparr>pd_payload := canonical (pd_payload d)\<rparr>, pw_digest = policy_digest sha d\<rparr>]))"

definition policy_get :: "(payload \<Rightarrow> string) \<Rightarrow> string \<Rightarrow> string \<Rightarrow> policy_row list \<Rightarrow> policy_document result" where
  "policy_get sha policy_type version rows =
     (case find (\<lambda>r. row_key r = (policy_type, version)) rows of
        None \<Rightarrow> Inl (policy_error ''unknown_policy_version'')
      | Some r \<Rightarrow>
          if policy_digest sha (pw_document r) \<noteq> pw_digest r
          then Inl (policy_error ''policy_document_digest_mismatch'')
          else Inr (pw_document r))"

section \<open>Risk limits\<close>

text \<open>
  The limits as decoded: \<open>Decimal\<close> also reads infinities and NaN, so the fields are extended decimals.
\<close>

record risk_limits =
  rl_minimum_data_quality :: xdecimal
  rl_maximum_spread_fraction :: xdecimal
  rl_maximum_order_notional :: xdecimal
  rl_maximum_position_notional :: xdecimal
  rl_maximum_daily_order_notional :: xdecimal
  rl_maximum_event_risk :: xdecimal
  rl_maximum_expected_slippage_fraction :: xdecimal
  rl_max_market_age_seconds :: int
  rl_maximum_per_trade_loss :: "xdecimal option"
  rl_maximum_stop_distance_fraction :: "xdecimal option"
  rl_stop_gap_buffer_fraction :: "xdecimal option"

definition base_fields :: "string list" where
  "base_fields = [''minimum_data_quality'', ''maximum_spread_fraction'', ''maximum_order_notional'',
     ''maximum_position_notional'', ''maximum_daily_order_notional'', ''maximum_event_risk'',
     ''maximum_expected_slippage_fraction'', ''max_market_age_seconds'']"

definition per_trade_fields :: "string list" where
  "per_trade_fields = [''maximum_per_trade_loss'', ''maximum_stop_distance_fraction'', ''stop_gap_buffer_fraction'']"

definition payload_keys :: "payload \<Rightarrow> string set" where
  "payload_keys p = set (dict_keys p)"

definition decimal_value :: "payload \<Rightarrow> string \<Rightarrow> xdecimal option" where
  "decimal_value p name = (case dict_get p name of None \<Rightarrow> None | Some v \<Rightarrow> json_decimal v)"

text \<open>An optional field: absent is \<open>None\<close>, present must decode.\<close>

definition optional_value :: "payload \<Rightarrow> string \<Rightarrow> xdecimal option option" where
  "optional_value p name =
     (case dict_get p name of None \<Rightarrow> Some None | Some v \<Rightarrow> map_option Some (json_decimal v))"

fun per_trade_ok :: "xdecimal option \<Rightarrow> xdecimal option \<Rightarrow> xdecimal option \<Rightarrow> bool" where
  "per_trade_ok (Some (Finite loss)) (Some (Finite distance)) (Some (Finite gap)) =
     (0 < loss \<and> 0 < distance \<and> distance \<le> 1 \<and> 0 \<le> gap \<and> gap < 1)"
| "per_trade_ok (Some _) (Some _) (Some _) = False"
| "per_trade_ok _ _ _ = True"

definition decode_risk_limits :: "payload \<Rightarrow> risk_limits option" where
  "decode_risk_limits p =
     (if payload_keys p \<inter> set per_trade_fields \<noteq> {} \<and> \<not> set per_trade_fields \<subseteq> payload_keys p then None
      else case (those (map (decimal_value p) (butlast base_fields)),
                 (case dict_get p ''max_market_age_seconds'' of None \<Rightarrow> None | Some v \<Rightarrow> json_int v),
                 those (map (optional_value p) per_trade_fields)) of
        (Some ds, Some age, Some os) \<Rightarrow>
          if per_trade_ok (os ! 0) (os ! 1) (os ! 2)
          then Some \<lparr>rl_minimum_data_quality = ds ! 0, rl_maximum_spread_fraction = ds ! 1,
            rl_maximum_order_notional = ds ! 2, rl_maximum_position_notional = ds ! 3,
            rl_maximum_daily_order_notional = ds ! 4, rl_maximum_event_risk = ds ! 5,
            rl_maximum_expected_slippage_fraction = ds ! 6, rl_max_market_age_seconds = age,
            rl_maximum_per_trade_loss = os ! 0, rl_maximum_stop_distance_fraction = os ! 1,
            rl_stop_gap_buffer_fraction = os ! 2\<rparr>
          else None
      | _ \<Rightarrow> None)"

definition resolve_risk_policy :: "(payload \<Rightarrow> string) \<Rightarrow> string \<Rightarrow> policy_row list \<Rightarrow> risk_limits result" where
  "resolve_risk_policy sha version rows =
     bind_result (policy_get sha ''risk'' version rows) (\<lambda>d.
       let p = pd_payload d;
           missing = sort (filter (\<lambda>f. f \<notin> payload_keys p) base_fields)
       in if \<not> payload_keys p \<subseteq> set base_fields \<union> set per_trade_fields
          then Inl (policy_error ''invalid_risk_policy_payload'')
          else if missing \<noteq> [] then Inl (policy_error (''risk_policy_field_missing:'' @ join '','' missing))
          else case decode_risk_limits p of
            None \<Rightarrow> Inl (policy_error ''invalid_risk_policy_payload'')
          | Some l \<Rightarrow> Inr l)"

section \<open>Portfolio limits\<close>

text \<open>The decoded keyword arguments of \<open>PortfolioRiskPolicy(**values)\<close>.\<close>

datatype portfolio_value =
    PDecimal "xdecimal option"
  | PInteger int
  | PMapping "(string, xdecimal) dict"

definition required_fields :: "string set" where
  "required_fields = {''maximum_gross_notional'', ''maximum_single_weight'', ''maximum_scenario_loss''}"

definition decimal_fields :: "string set" where
  "decimal_fields = required_fields \<union> {''maximum_net_notional'', ''maximum_var_loss'', ''maximum_cvar_loss'',
     ''maximum_beta_notional'', ''maximum_duration_notional'', ''maximum_drawdown_loss''}"

definition integer_fields :: "string set" where
  "integer_fields = {''minimum_historical_observations'', ''return_history_window_observations'',
     ''maximum_return_history_age_seconds''}"

definition mapping_fields :: "string set" where
  "mapping_fields = {''maximum_group_notionals'', ''maximum_factor_notionals''}"

definition historical_fields :: "string set" where
  "historical_fields = {''maximum_var_loss'', ''maximum_cvar_loss'', ''maximum_drawdown_loss''}"

definition decode_mapping :: "json \<Rightarrow> (string, xdecimal) dict option" where
  "decode_mapping v =
     (case v of
        JObj kvs \<Rightarrow>
          if \<exists>kv \<in> set kvs. blank (fst kv) then None
          else those (map (\<lambda>kv. map_option (\<lambda>d. (fst kv, d)) (json_decimal (snd kv))) kvs)
      | _ \<Rightarrow> None)"

definition decode_portfolio_field :: "string \<times> json \<Rightarrow> (string \<times> portfolio_value) option" where
  "decode_portfolio_field kv =
     (case kv of (name, v) \<Rightarrow>
        if name \<in> decimal_fields
        then (if v = JNull then (if name \<in> required_fields then None else Some (name, PDecimal None))
              else map_option (\<lambda>d. (name, PDecimal (Some d))) (json_decimal v))
        else if name \<in> integer_fields then map_option (\<lambda>i. (name, PInteger i)) (json_int v)
        else map_option (\<lambda>m. (name, PMapping m)) (decode_mapping v))"

definition resolve_portfolio_policy ::
  "(payload \<Rightarrow> string) \<Rightarrow> string \<Rightarrow> policy_row list \<Rightarrow> (string, portfolio_value) dict result" where
  "resolve_portfolio_policy sha version rows =
     bind_result (policy_get sha ''portfolio'' version rows) (\<lambda>d.
       let p = pd_payload d
       in if \<not> required_fields \<subseteq> payload_keys p \<or>
             \<not> payload_keys p \<subseteq> decimal_fields \<union> integer_fields \<union> mapping_fields \<union> {''stress_scenarios''}
          then Inl (policy_error ''invalid_portfolio_policy_payload'')
          else case those (map decode_portfolio_field (filter (\<lambda>kv. fst kv \<noteq> ''stress_scenarios'') p)) of
            None \<Rightarrow> Inl (policy_error ''invalid_portfolio_policy_payload'')
          | Some vs \<Rightarrow>
              if (\<exists>f \<in> historical_fields. f \<in> set (dict_keys vs)) \<and> \<not> integer_fields \<subseteq> set (dict_keys vs)
              then Inl (policy_error ''invalid_portfolio_policy_payload'')
              else Inr vs)"

section \<open>Stress scenarios\<close>

fun finite_value :: "xdecimal \<Rightarrow> decimal option" where
  "finite_value (Finite d) = Some d"
| "finite_value _ = None"

text \<open>One scenario: a non-blank name with at least one shock, every shock key non-blank and finite.\<close>

definition decode_scenario :: "string \<times> json \<Rightarrow> stress_scenario option" where
  "decode_scenario kv =
     (case kv of
        (name, JObj shocks) \<Rightarrow>
          (case those (map (\<lambda>s. case json_decimal (snd s) of
                 None \<Rightarrow> None | Some d \<Rightarrow> map_option (\<lambda>v. (fst s, v)) (finite_value d)) shocks) of
             None \<Rightarrow> None
           | Some vs \<Rightarrow>
               if blank name \<or> vs = [] \<or> (\<exists>s \<in> set vs. blank (fst s)) then None
               else Some \<lparr>ss_name = name, ss_shocks = vs\<rparr>)
      | _ \<Rightarrow> None)"

definition resolve_portfolio_scenarios ::
  "(payload \<Rightarrow> string) \<Rightarrow> string \<Rightarrow> policy_row list \<Rightarrow> stress_scenario list result" where
  "resolve_portfolio_scenarios sha version rows =
     bind_result (policy_get sha ''portfolio'' version rows) (\<lambda>d.
       case dict_get (pd_payload d) ''stress_scenarios'' of
         Some (JObj kvs) \<Rightarrow>
           if kvs = [] then Inl (policy_error ''portfolio_stress_scenarios_unavailable'')
           else (case those (map decode_scenario (sort_key fst kvs)) of
                   None \<Rightarrow> Inl (policy_error ''invalid_portfolio_stress_scenarios'')
                 | Some scs \<Rightarrow> Inr scs)
       | _ \<Rightarrow> Inl (policy_error ''portfolio_stress_scenarios_unavailable''))"

section \<open>Facts\<close>

lemma json_sorted_idem: "json_sorted (json_sorted j) = json_sorted j"
proof (induction j)
  case (JObj kvs)
  have "map (map_prod id json_sorted) (sort_key fst (map (map_prod id json_sorted) kvs)) =
      sort_key fst (map (map_prod id json_sorted) kvs)"
  proof (rule map_idI)
    fix kv assume "kv \<in> set (sort_key fst (map (map_prod id json_sorted) kvs))"
    then obtain k v where kv: "(k, v) \<in> set kvs" "kv = (k, json_sorted v)" by auto
    have "v \<in> Basic_BNFs.snds (k, v)" by simp
    then have "json_sorted (json_sorted v) = json_sorted v" using JObj [OF kv(1)] by simp
    then show "map_prod id json_sorted kv = kv" using kv(2) by simp
  qed
  then show ?case by (simp add: sort_key_id_if_sorted)
qed simp_all

lemma canonical_idem: "canonical (canonical p) = canonical p"
proof -
  have "map (map_prod id json_sorted) (canonical p) = canonical p"
    by (rule map_idI) (auto simp: canonical_def json_sorted_idem)
  then show ?thesis by (simp add: canonical_def [of "canonical p"]) (simp add: canonical_def sort_key_id_if_sorted)
qed

lemma policy_append_Inr:
  "policy_append sha d rows = (Inr u, rows') \<Longrightarrow>
   (pd_policy_type d, pd_version d) \<notin> row_key ` set rows \<and>
   rows' = rows @ [\<lparr>pw_document = d\<lparr>pd_payload := canonical (pd_payload d)\<rparr>, pw_digest = policy_digest sha d\<rparr>]"
  by (auto simp: policy_append_def split: if_splits)

lemma find_later:
  "(case find P xs of None \<Rightarrow> find P ys | Some x \<Rightarrow> Some x) = find P (xs @ ys)"
  by (induction xs) auto

lemma policy_append_prefix: "\<exists>more. snd (policy_append sha d rows) = rows @ more"
  by (auto simp: policy_append_def)

lemma policy_run_prefix: "\<exists>more. fold (\<lambda>d rows. snd (policy_append sha d rows)) ds rows = rows @ more"
proof (induction ds arbitrary: rows)
  case (Cons d ds)
  obtain m where m: "snd (policy_append sha d rows) = rows @ m" using policy_append_prefix by blast
  obtain m' where "fold (\<lambda>d rows. snd (policy_append sha d rows)) ds (rows @ m) = (rows @ m) @ m'"
    using Cons.IH by blast
  then show ?case using m by simp
qed simp

lemma optional_value_None: "optional_value p n = Some w \<Longrightarrow> w = None \<longleftrightarrow> n \<notin> payload_keys p"
  by (auto simp: optional_value_def payload_keys_def dict_keys_def map_of_eq_None_iff [symmetric] split: option.splits)

text \<open>A document with exactly the base limits.\<close>

definition base_payload :: "(string \<Rightarrow> json) \<Rightarrow> payload" where
  "base_payload g = map (\<lambda>f. (f, g f)) base_fields"

lemma base_payload_keys [simp]: "payload_keys (base_payload g) = set base_fields"
  by (simp add: payload_keys_def dict_keys_def base_payload_def o_def)

lemma base_payload_get: "dict_get (base_payload g) f = (if f \<in> set base_fields then Some (g f) else None)"
proof -
  have "dict_get (map (\<lambda>f. (f, g f)) fs) f = (if f \<in> set fs then Some (g f) else None)" for fs
    by (induction fs) auto
  then show ?thesis by (simp add: base_payload_def)
qed

lemma those_map_if: "(\<forall>x \<in> set xs. f x = Some (g x)) \<Longrightarrow> those (map f xs) = Some (map g xs)"
  by (induction xs) auto

lemma decode_base_payload:
  assumes "\<forall>f \<in> set base_fields. json_decimal (g f) = Some (h f)" "json_int (g ''max_market_age_seconds'') = Some a"
  shows "decode_risk_limits (base_payload g) = Some \<lparr>rl_minimum_data_quality = h (base_fields ! 0),
    rl_maximum_spread_fraction = h (base_fields ! 1), rl_maximum_order_notional = h (base_fields ! 2),
    rl_maximum_position_notional = h (base_fields ! 3), rl_maximum_daily_order_notional = h (base_fields ! 4),
    rl_maximum_event_risk = h (base_fields ! 5), rl_maximum_expected_slippage_fraction = h (base_fields ! 6),
    rl_max_market_age_seconds = a, rl_maximum_per_trade_loss = None, rl_maximum_stop_distance_fraction = None,
    rl_stop_gap_buffer_fraction = None\<rparr>"
proof -
  have dis: "set base_fields \<inter> set per_trade_fields = {}" by (simp add: base_fields_def per_trade_fields_def)
  have "those (map (decimal_value (base_payload g)) (butlast base_fields)) = Some (map h (butlast base_fields))"
    by (rule those_map_if) (auto simp: decimal_value_def base_payload_get assms(1) dest: in_set_butlastD)
  moreover have "those (map (optional_value (base_payload g)) per_trade_fields) = Some (map (\<lambda>_. None) per_trade_fields)"
    using dis by (intro those_map_if) (auto simp: optional_value_def base_payload_get)
  moreover have "''max_market_age_seconds'' \<in> set base_fields" by (simp add: base_fields_def)
  moreover have "map h (butlast base_fields) ! k = h (base_fields ! k)" if "k < 7" for k
  proof -
    have "length base_fields = 8" by (simp add: base_fields_def)
    then show ?thesis using that by (simp add: nth_butlast)
  qed
  moreover have "map (\<lambda>_. None :: xdecimal option) per_trade_fields = [None, None, None]" by (simp add: per_trade_fields_def)
  ultimately show ?thesis
    using dis assms(2) by (simp add: decode_risk_limits_def base_payload_get)
qed

section \<open>Properties\<close>

text \<open>
  A policy version is written once and for all: after a successful append, whatever is appended
  later, the version reads back as the document that was approved, with its payload keys sorted.
\<close>

theorem policy_version_immutable:
  assumes "policy_append sha d rows = (Inr u, rows')"
  shows "policy_get sha (pd_policy_type d) (pd_version d)
      (fold (\<lambda>d rows. snd (policy_append sha d rows)) ds rows') = Inr (d\<lparr>pd_payload := canonical (pd_payload d)\<rparr>)"
proof -
  note a = policy_append_Inr [OF assms]
  let ?d = "d\<lparr>pd_payload := canonical (pd_payload d)\<rparr>"
  let ?r = "\<lparr>pw_document = ?d, pw_digest = policy_digest sha d\<rparr>"
  let ?P = "\<lambda>r. row_key r = (pd_policy_type d, pd_version d)"
  obtain m where m: "fold (\<lambda>d rows. snd (policy_append sha d rows)) ds rows' = rows' @ m"
    using policy_run_prefix by blast
  have "find ?P rows = None" using a unfolding find_None_iff by (metis imageI)
  then have "find ?P ((rows @ [?r]) @ m) = Some ?r"
    by (simp add: find_later [symmetric] row_key_def)
  moreover have "policy_digest sha ?d = policy_digest sha d"
    by (simp add: policy_digest_def canonical_idem)
  ultimately show ?thesis unfolding m using a by (simp add: policy_get_def)
qed

definition sample_document :: policy_document where
  "sample_document = \<lparr>pd_policy_type = ''risk'', pd_version = ''v1'', pd_payload = [(''b'', JInt 1), (''a'', JInt 2)],
     pd_approved_by = ''op'', pd_approved_at = Aware 0 0\<rparr>"

theorem policy_version_immutable_witness:
  "policy_get (\<lambda>_. ''d'') ''risk'' ''v1'' (snd (policy_append (\<lambda>_. ''d'') sample_document [])) =
     Inr (sample_document\<lparr>pd_payload := canonical [(''b'', JInt 1), (''a'', JInt 2)]\<rparr>)"
proof -
  obtain rows' where r: "policy_append (\<lambda>_. ''d'') sample_document [] = (Inr (), rows')"
    by (simp add: policy_append_def sample_document_def blank_iff is_space_def)
  from policy_version_immutable [OF r, of "[]"] r show ?thesis by (simp add: sample_document_def)
qed

text \<open>
  Policy documents are tamper-evident: when the digest separates canonical payloads, a row whose
  stored payload was changed after its digest was written is refused, and refuses every resolution.
\<close>

theorem policy_tamper_evident:
  assumes "\<And>p q. sha p = sha q \<Longrightarrow> p = q"
    and "find (\<lambda>r. row_key r = (ty, v)) rows = Some r" "pw_digest r = policy_digest sha original"
    and "canonical (pd_payload (pw_document r)) \<noteq> canonical (pd_payload original)"
  shows "policy_get sha ty v rows = Inl (policy_error ''policy_document_digest_mismatch'')"
  using assms by (auto simp: policy_get_def policy_digest_def)

text \<open>An instance of the digest that separates payloads: the length of an injective coding as a unary text.\<close>

instance json :: countable by countable_datatype

definition unary_digest :: "payload \<Rightarrow> string" where
  "unary_digest p = replicate (to_nat p) CHR ''x''"

lemma unary_digest_inj: "unary_digest p = unary_digest q \<Longrightarrow> p = q"
  unfolding unary_digest_def by (metis length_replicate from_nat_to_nat)

theorem policy_tamper_evident_witness:
  "policy_get unary_digest ''risk'' ''v1''
     [\<lparr>pw_document = sample_document\<lparr>pd_payload := [(''a'', JInt 3)]\<rparr>, pw_digest = policy_digest unary_digest sample_document\<rparr>] =
   Inl (policy_error ''policy_document_digest_mismatch'')"
  by (rule policy_tamper_evident [where original = sample_document and
        r = "\<lparr>pw_document = sample_document\<lparr>pd_payload := [(''a'', JInt 3)]\<rparr>, pw_digest = policy_digest unary_digest sample_document\<rparr>",
        OF unary_digest_inj])
     (simp_all add: sample_document_def row_key_def canonical_def)

text \<open>
  C33: a resolved risk policy has all three per-trade controls or none, and where it has them they are
  finite: a positive loss, a stop distance in (0, 1] and a gap buffer in [0, 1).
\<close>

theorem resolved_per_trade_controls:
  assumes "resolve_risk_policy sha v rows = Inr l"
  shows "(rl_maximum_per_trade_loss l = None \<longleftrightarrow> rl_maximum_stop_distance_fraction l = None) \<and>
    (rl_maximum_per_trade_loss l = None \<longleftrightarrow> rl_stop_gap_buffer_fraction l = None) \<and>
    (rl_maximum_per_trade_loss l \<noteq> None \<longrightarrow>
      (\<exists>loss distance gap. rl_maximum_per_trade_loss l = Some (Finite loss) \<and>
         rl_maximum_stop_distance_fraction l = Some (Finite distance) \<and>
         rl_stop_gap_buffer_fraction l = Some (Finite gap) \<and>
         0 < loss \<and> 0 < distance \<and> distance \<le> 1 \<and> 0 \<le> gap \<and> gap < 1))"
proof -
  obtain p where p: "decode_risk_limits p = Some l"
    using assms by (auto simp: resolve_risk_policy_def bind_result_Inr_iff Let_def split: if_splits option.splits)
  obtain o0 o1 o2 where os: "optional_value p ''maximum_per_trade_loss'' = Some o0"
    "optional_value p ''maximum_stop_distance_fraction'' = Some o1" "optional_value p ''stop_gap_buffer_fraction'' = Some o2"
    and ok: "per_trade_ok o0 o1 o2"
    and l: "rl_maximum_per_trade_loss l = o0" "rl_maximum_stop_distance_fraction l = o1" "rl_stop_gap_buffer_fraction l = o2"
    using p by (auto simp: decode_risk_limits_def per_trade_fields_def split: if_splits option.splits)
  have all: "payload_keys p \<inter> set per_trade_fields = {} \<or> set per_trade_fields \<subseteq> payload_keys p"
    using p by (auto simp: decode_risk_limits_def split: if_splits)
  have "(o0 = None \<longleftrightarrow> o1 = None) \<and> (o0 = None \<longleftrightarrow> o2 = None)"
    using all optional_value_None [OF os(1)] optional_value_None [OF os(2)] optional_value_None [OF os(3)]
    by (auto simp: per_trade_fields_def)
  then show ?thesis unfolding l using ok by (cases "(o0, o1, o2)" rule: per_trade_ok.cases) auto
qed

theorem resolved_per_trade_controls_witness:
  "\<exists>l. resolve_risk_policy unary_digest ''v1''
       [\<lparr>pw_document = sample_document\<lparr>pd_payload := base_payload (\<lambda>_. JInt 1)\<rparr>,
         pw_digest = unary_digest (canonical (base_payload (\<lambda>_. JInt 1)))\<rparr>] = Inr l \<and>
     (rl_maximum_per_trade_loss l = None \<longleftrightarrow> rl_stop_gap_buffer_fraction l = None)"
proof -
  let ?p = "base_payload (\<lambda>_. JInt 1)"
  let ?rows = "[\<lparr>pw_document = sample_document\<lparr>pd_payload := ?p\<rparr>, pw_digest = unary_digest (canonical ?p)\<rparr>]"
  have g: "policy_get unary_digest ''risk'' ''v1'' ?rows = Inr (sample_document\<lparr>pd_payload := ?p\<rparr>)"
    by (simp add: policy_get_def row_key_def sample_document_def policy_digest_def)
  have v: "\<forall>f \<in> set base_fields. json_decimal ((\<lambda>_. JInt 1) f) = Some (Finite (Dec 1 0))" by simp
  note d = decode_base_payload [OF v, of 1, simplified]
  obtain l where l: "resolve_risk_policy unary_digest ''v1'' ?rows = Inr l"
    unfolding resolve_risk_policy_def g by (simp add: d)
  show ?thesis
    by (rule exI [of _ l], rule conjI [OF l resolved_per_trade_controls [OF l, THEN conjunct2, THEN conjunct1]])
qed

text \<open>
  C43: the base limits are not checked for finiteness: a document whose order limit is the text
  \<open>Infinity\<close> resolves to a policy without an order limit.
\<close>

definition unlimited_payload :: payload where
  "unlimited_payload = base_payload (\<lambda>f. if f = ''maximum_order_notional'' then JStr ''Infinity'' else JInt 1)"

theorem infinite_limit_accepted:
  "map_option rl_maximum_order_notional (decode_risk_limits unlimited_payload) = Some PosInf"
proof -
  have "map lower ''Infinity'' = ''infinity''" by code_simp
  then have "dec_parse ''Infinity'' = Some PosInf"
    by (simp add: dec_parse_def strip_def is_space_def parse_sign_def parse_number_def is_digit_def
        parse_exponent_def parse_special_def Let_def del: list.map)
  then have v: "\<forall>f \<in> set base_fields. json_decimal (if f = ''maximum_order_notional'' then JStr ''Infinity'' else JInt 1) =
      Some (if f = ''maximum_order_notional'' then PosInf else Finite (Dec 1 0))"
    by simp
  show ?thesis unfolding unlimited_payload_def
    by (subst decode_base_payload [OF v, of 1]) (simp_all add: base_fields_def)
qed

end
