(* ===== verification/PretradeEvidence.thy ===== *)
theory PretradeEvidence
  imports PolicyRegistry PerTradeRisk
begin

text \<open>
  The records of \<open>pretrade_assessment.py\<close>: the provenance of the inputs of an assessment, the assessment
  with its digest, and the store that keeps one assessment per intent under a digest and, with a key, a
  message authentication code. SHA-256 of a canonical JSON text is the parameter \<open>sha\<close>, HMAC-SHA-256 the
  parameter \<open>mac\<close>.
\<close>

section \<open>Input evidence\<close>

record input_evidence =
  ie_market_reference :: string
  ie_market_observed_at :: datetime
  ie_halt_reference :: string
  ie_halt_observed_at :: datetime
  ie_event_reference :: string
  ie_event_observed_at :: datetime
  ie_slippage_reference :: string
  ie_slippage_observed_at :: datetime
  ie_exposure_reference :: string
  ie_exposure_observed_at :: datetime
  ie_projected_exposure_digest :: string
  ie_return_history_reference :: string
  ie_return_history_observed_at :: "datetime option"

text \<open>
  The values of the payload: \<open>EvTime\<close> is a text in ISO format, named by the time it denotes, \<open>EvText\<close>
  any other text, \<open>EvNull\<close> is \<open>None\<close>.
\<close>

datatype evidence_value = EvText string | EvTime datetime | EvNull

type_synonym evidence_payload = "(string, evidence_value) dict"

fun ev_time :: "datetime option \<Rightarrow> evidence_value" where
  "ev_time None = EvNull"
| "ev_time (Some t) = EvTime t"

definition input_to_payload :: "input_evidence \<Rightarrow> evidence_payload" where
  "input_to_payload e =
     [(''market_reference'', EvText (ie_market_reference e)), (''market_observed_at'', EvTime (ie_market_observed_at e)),
      (''halt_reference'', EvText (ie_halt_reference e)), (''halt_observed_at'', EvTime (ie_halt_observed_at e)),
      (''event_reference'', EvText (ie_event_reference e)), (''event_observed_at'', EvTime (ie_event_observed_at e)),
      (''slippage_reference'', EvText (ie_slippage_reference e)),
      (''slippage_observed_at'', EvTime (ie_slippage_observed_at e)),
      (''exposure_reference'', EvText (ie_exposure_reference e)),
      (''exposure_observed_at'', EvTime (ie_exposure_observed_at e)),
      (''projected_exposure_digest'', EvText (ie_projected_exposure_digest e)),
      (''return_history_reference'', EvText (ie_return_history_reference e)),
      (''return_history_observed_at'', ev_time (ie_return_history_observed_at e))]"

text \<open>\<open>str(payload[name])\<close> and \<open>datetime.fromisoformat(str(payload[name]))\<close>; \<open>None\<close> where they raise.\<close>

definition text_of :: "evidence_payload \<Rightarrow> string \<Rightarrow> string option" where
  "text_of p name =
     (case dict_get p name of
        None \<Rightarrow> None
      | Some (EvText s) \<Rightarrow> Some s
      | Some (EvTime t) \<Rightarrow> Some (iso_datetime t)
      | Some EvNull \<Rightarrow> Some ''None'')"

definition time_of :: "evidence_payload \<Rightarrow> string \<Rightarrow> datetime option" where
  "time_of p name = (case dict_get p name of Some (EvTime t) \<Rightarrow> Some t | _ \<Rightarrow> None)"

definition optional_time_of :: "evidence_payload \<Rightarrow> string \<Rightarrow> datetime option option" where
  "optional_time_of p name =
     (case dict_get p name of None \<Rightarrow> Some None | Some EvNull \<Rightarrow> Some None | Some (EvTime t) \<Rightarrow> Some (Some t)
      | Some (EvText _) \<Rightarrow> None)"

definition input_from_payload :: "evidence_payload \<Rightarrow> input_evidence result" where
  "input_from_payload p =
     (case (text_of p ''market_reference'', time_of p ''market_observed_at'',
            text_of p ''halt_reference'', time_of p ''halt_observed_at'',
            text_of p ''event_reference'', time_of p ''event_observed_at'',
            text_of p ''slippage_reference'', time_of p ''slippage_observed_at'',
            text_of p ''exposure_reference'', time_of p ''exposure_observed_at'',
            text_of p ''projected_exposure_digest'', optional_time_of p ''return_history_observed_at'') of
        (Some mr, Some mt, Some hr, Some ht, Some er, Some et, Some sr, Some st, Some xr, Some xt, Some d, Some rt) \<Rightarrow>
          Inr \<lparr>ie_market_reference = mr, ie_market_observed_at = mt, ie_halt_reference = hr,
               ie_halt_observed_at = ht, ie_event_reference = er, ie_event_observed_at = et,
               ie_slippage_reference = sr, ie_slippage_observed_at = st, ie_exposure_reference = xr,
               ie_exposure_observed_at = xt, ie_projected_exposure_digest = d,
               ie_return_history_reference =
                 (case text_of p ''return_history_reference'' of None \<Rightarrow> [] | Some r \<Rightarrow> r),
               ie_return_history_observed_at = rt\<rparr>
      | _ \<Rightarrow> Inl (Exc ValueError ''invalid_persisted_pretrade_input_evidence''))"

section \<open>Fingerprints\<close>

definition decimals_json :: "(string, decimal) dict \<Rightarrow> json" where
  "decimals_json d = JObj (map (\<lambda>(k, v). (k, JStr (dec_str v))) (sort_key fst d))"

definition exposure_json :: "portfolio_exposure \<Rightarrow> json" where
  "exposure_json x = JObj
     [(''instrument_id'', JStr (pe_instrument_id x)), (''notional'', JStr (dec_str (pe_notional x))),
      (''asset_class'', JStr (pe_asset_class x)), (''sector'', JStr (pe_sector x)), (''country'', JStr (pe_country x)),
      (''currency'', JStr (pe_currency x)), (''broker'', JStr (pe_broker x)), (''exchange'', JStr (pe_exchange x)),
      (''cluster'', JStr (pe_correlation_cluster x)), (''beta'', JStr (dec_str (pe_beta x))),
      (''duration'', JStr (dec_str (pe_duration x))), (''factors'', decimals_json (pe_factors x))]"

definition projected_exposure_fingerprint :: "(json \<Rightarrow> string) \<Rightarrow> portfolio_exposure list \<Rightarrow> string" where
  "projected_exposure_fingerprint sha xs =
     sha (json_sorted (JList (map exposure_json (sort_key pe_instrument_id xs))))"

text \<open>\<open>PreTradeInputEvidence.validate\<close>\<close>

definition stale_time :: "datetime \<Rightarrow> timedelta \<Rightarrow> datetime \<Rightarrow> bool" where
  "stale_time now max_age t \<longleftrightarrow> \<not> aware t \<or> instant now < instant t \<or> max_age < instant now - instant t"

definition validate_input_evidence ::
  "(json \<Rightarrow> string) \<Rightarrow> input_evidence \<Rightarrow> datetime \<Rightarrow> market_snapshot \<Rightarrow> portfolio_exposure list \<Rightarrow> timedelta \<Rightarrow> bool \<Rightarrow>
   unit result" where
  "validate_input_evidence sha e observed_at market exposures maximum_age requires_return_history =
     (if maximum_age \<le> 0 \<or> \<not> aware observed_at
      then Inl (Exc ValueError ''invalid_pretrade_evidence_time'')
      else if \<exists>r \<in> set [ie_market_reference e, ie_halt_reference e, ie_event_reference e, ie_slippage_reference e,
                 ie_exposure_reference e, ie_projected_exposure_digest e]. blank r
      then Inl (Exc ValueError ''missing_pretrade_input_provenance'')
      else if \<exists>t \<in> set [ie_market_observed_at e, ie_halt_observed_at e, ie_event_observed_at e,
                 ie_slippage_observed_at e, ie_exposure_observed_at e]. stale_time observed_at maximum_age t
      then Inl (Exc ValueError ''stale_or_invalid_pretrade_input_evidence'')
      else if \<not> (aware (ms_observed_at market) \<and> instant (ie_market_observed_at e) = instant (ms_observed_at market))
      then Inl (Exc ValueError ''market_evidence_timestamp_mismatch'')
      else if ie_projected_exposure_digest e \<noteq> projected_exposure_fingerprint sha exposures
      then Inl (Exc ValueError ''projected_exposure_evidence_mismatch'')
      else if requires_return_history
      then (case ie_return_history_observed_at e of
              None \<Rightarrow> Inl (Exc ValueError ''missing_return_history_provenance'')
            | Some t \<Rightarrow>
                if blank (ie_return_history_reference e) then Inl (Exc ValueError ''missing_return_history_provenance'')
                else if \<not> aware t \<or> instant observed_at < instant t
                then Inl (Exc ValueError ''invalid_return_history_evidence_time'')
                else Inr ())
      else Inr ())"

section \<open>Assessments\<close>

record assessment =
  pa_assessment_id :: uuid
  pa_risk_decision :: risk_decision
  pa_portfolio_decision :: "portfolio_risk_decision option"
  pa_evidence_block_reason :: "string option"
  pa_assessed_at :: datetime
  pa_risk_policy_version :: string
  pa_portfolio_policy_version :: string
  pa_risk_policy_digest :: string
  pa_portfolio_policy_digest :: string
  pa_input_evidence :: "input_evidence option"
  pa_per_trade_risk :: "per_trade_evidence option"

definition pa_approved :: "assessment \<Rightarrow> bool" where
  "pa_approved a \<longleftrightarrow>
     pa_evidence_block_reason a = None \<and> rd_decision (pa_risk_decision a) = APPROVE \<and>
     (case pa_portfolio_decision a of None \<Rightarrow> False | Some p \<Rightarrow> prd_approved p)"

fun decision_value :: "risk_decision_type \<Rightarrow> string" where
  "decision_value APPROVE = ''APPROVE''"
| "decision_value REJECT = ''REJECT''"

fun json_option :: "('a \<Rightarrow> json) \<Rightarrow> 'a option \<Rightarrow> json" where
  "json_option f None = JNull"
| "json_option f (Some x) = f x"

definition stress_json :: "stress_result \<Rightarrow> json" where
  "stress_json r = JObj [(''scenario'', JStr (sr_scenario r)), (''loss'', JStr (dec_str (sr_loss r))),
     (''contributions'', decimals_json (sr_contributions r))]"

definition portfolio_json :: "portfolio_risk_decision \<Rightarrow> json" where
  "portfolio_json p = JObj
     [(''approved'', JBool (prd_approved p)), (''reasons'', JList (map JStr (prd_reasons p))),
      (''gross'', JStr (dec_str (prd_gross p))), (''net'', JStr (dec_str (prd_net p))),
      (''stress_loss'', JStr (dec_str (prd_stress_loss p))),
      (''var_loss'', json_option (\<lambda>d. JStr (dec_str d)) (prd_var_loss p)),
      (''cvar_loss'', json_option (\<lambda>d. JStr (dec_str d)) (prd_cvar_loss p)),
      (''drawdown_loss'', json_option (\<lambda>d. JStr (dec_str d)) (prd_drawdown_loss p)),
      (''stress_results'', JList (map stress_json (prd_stress_results p)))]"

fun ev_json :: "evidence_value \<Rightarrow> json" where
  "ev_json (EvText s) = JStr s"
| "ev_json (EvTime t) = JStr (iso_datetime t)"
| "ev_json EvNull = JNull"

definition assessment_json :: "assessment \<Rightarrow> json" where
  "assessment_json a = JObj
     [(''assessment_id'', JStr (uuid_str (pa_assessment_id a))),
      (''risk_decision'', JObj
         [(''decision_id'', JStr (uuid_str (rd_decision_id (pa_risk_decision a)))),
          (''intent_id'', JStr (uuid_str (rd_intent_id (pa_risk_decision a)))),
          (''decision'', JStr (decision_value (rd_decision (pa_risk_decision a)))),
          (''reasons'', JList (map JStr (rd_reasons (pa_risk_decision a))))]),
      (''portfolio_decision'', json_option portfolio_json (pa_portfolio_decision a)),
      (''evidence_block_reason'', json_option JStr (pa_evidence_block_reason a)),
      (''assessed_at'', JStr (iso_datetime (pa_assessed_at a))),
      (''risk_policy_version'', JStr (pa_risk_policy_version a)),
      (''portfolio_policy_version'', JStr (pa_portfolio_policy_version a)),
      (''risk_policy_digest'', JStr (pa_risk_policy_digest a)),
      (''portfolio_policy_digest'', JStr (pa_portfolio_policy_digest a)),
      (''input_evidence'',
         json_option (\<lambda>e. JObj (map (map_prod id ev_json) (input_to_payload e))) (pa_input_evidence a)),
      (''per_trade_risk'',
         json_option (\<lambda>e. JObj (map (map_prod id JStr) (evidence_to_payload e))) (pa_per_trade_risk a))]"

definition assessment_digest :: "(json \<Rightarrow> string) \<Rightarrow> assessment \<Rightarrow> string" where
  "assessment_digest sha a = sha (json_sorted (assessment_json a))"

section \<open>The store\<close>

text \<open>
  A row: the columns of the assessment as they read back, the two JSON payloads, the digest and the MAC.
\<close>

record assessment_row =
  aw_columns :: assessment
  aw_input_payload :: "evidence_payload option"
  aw_per_trade_payload :: "(string, string) dict option"
  aw_digest :: string
  aw_mac :: string

record assessment_store =
  as_key :: "string option"
  as_rows :: "assessment_row list"

definition new_assessment_store :: "string option \<Rightarrow> assessment_store result" where
  "new_assessment_store key =
     (if key = Some [] then Inl (Exc ValueError ''invalid_assessment_integrity_key'')
      else Inr \<lparr>as_key = key, as_rows = []\<rparr>)"

definition keyed_integrity_enabled :: "assessment_store \<Rightarrow> bool" where
  "keyed_integrity_enabled s = (as_key s \<noteq> None)"

definition store_mac :: "(string \<Rightarrow> string \<Rightarrow> string) \<Rightarrow> assessment_store \<Rightarrow> string \<Rightarrow> string" where
  "store_mac mac s digest = (case as_key s of None \<Rightarrow> [] | Some k \<Rightarrow> mac k digest)"

text \<open>
  What the columns keep: the decision time is not a column and is read back as the assessment's time;
  the contributions of a stress result are sorted by name.
\<close>

definition stored_columns :: "assessment \<Rightarrow> assessment" where
  "stored_columns a =
     a\<lparr>pa_risk_decision := (pa_risk_decision a)\<lparr>rd_decided_at := pa_assessed_at a\<rparr>,
       pa_portfolio_decision := map_option (\<lambda>p. p\<lparr>prd_stress_results :=
         map (\<lambda>r. r\<lparr>sr_contributions := sort_key fst (sr_contributions r)\<rparr>) (prd_stress_results p)\<rparr>)
         (pa_portfolio_decision a),
       pa_input_evidence := None, pa_per_trade_risk := None\<rparr>"

definition row_intent :: "assessment_row \<Rightarrow> uuid" where
  "row_intent r = rd_intent_id (pa_risk_decision (aw_columns r))"

definition assessment_append ::
  "(json \<Rightarrow> string) \<Rightarrow> (string \<Rightarrow> string \<Rightarrow> string) \<Rightarrow> assessment \<Rightarrow> (assessment_store, unit) operation" where
  "assessment_append sha mac a s =
     (if pa_assessment_id a \<in> (pa_assessment_id \<circ> aw_columns) ` set (as_rows s) \<or>
         rd_intent_id (pa_risk_decision a) \<in> row_intent ` set (as_rows s)
      then (Inl (Exc ValueError ''duplicate_pretrade_assessment_intent''), s)
      else (Inr (), s\<lparr>as_rows := as_rows s @
        [\<lparr>aw_columns = stored_columns a,
          aw_input_payload = map_option input_to_payload (pa_input_evidence a),
          aw_per_trade_payload = map_option evidence_to_payload (pa_per_trade_risk a),
          aw_digest = assessment_digest sha a, aw_mac = store_mac mac s (assessment_digest sha a)\<rparr>]\<rparr>))"

text \<open>An optional payload, decoded when it is there.\<close>

definition decode_optional :: "('p \<Rightarrow> 'a result) \<Rightarrow> 'p option \<Rightarrow> 'a option result" where
  "decode_optional f p = (case p of None \<Rightarrow> Inr None | Some x \<Rightarrow> bind_result (f x) (\<lambda>v. Inr (Some v)))"

definition read_assessment ::
  "(json \<Rightarrow> string) \<Rightarrow> (string \<Rightarrow> string \<Rightarrow> string) \<Rightarrow> assessment_store \<Rightarrow> assessment_row \<Rightarrow> assessment result" where
  "read_assessment sha mac s r =
     bind_result (decode_optional input_from_payload (aw_input_payload r)) (\<lambda>input.
     bind_result (decode_optional evidence_from_payload (aw_per_trade_payload r)) (\<lambda>per_trade.
       let a = (aw_columns r)\<lparr>pa_input_evidence := input, pa_per_trade_risk := per_trade\<rparr>
       in if assessment_digest sha a \<noteq> aw_digest r
          then Inl (Exc ValueError ''pretrade_assessment_digest_mismatch'')
          else if as_key s \<noteq> None \<and> store_mac mac s (assessment_digest sha a) \<noteq> aw_mac r
          then Inl (Exc ValueError ''pretrade_assessment_mac_mismatch'')
          else Inr a))"

definition get_for_intent ::
  "(json \<Rightarrow> string) \<Rightarrow> (string \<Rightarrow> string \<Rightarrow> string) \<Rightarrow> uuid \<Rightarrow> assessment_store \<Rightarrow> assessment option result" where
  "get_for_intent sha mac intent_id s =
     (case find (\<lambda>r. row_intent r = intent_id) (as_rows s) of
        None \<Rightarrow> Inr None
      | Some r \<Rightarrow> bind_result (read_assessment sha mac s r) (\<lambda>a. Inr (Some a)))"

section \<open>Facts\<close>

lemma input_payload_lookup:
  "text_of (input_to_payload e) ''market_reference'' = Some (ie_market_reference e)"
  "text_of (input_to_payload e) ''halt_reference'' = Some (ie_halt_reference e)"
  "text_of (input_to_payload e) ''event_reference'' = Some (ie_event_reference e)"
  "text_of (input_to_payload e) ''slippage_reference'' = Some (ie_slippage_reference e)"
  "text_of (input_to_payload e) ''exposure_reference'' = Some (ie_exposure_reference e)"
  "text_of (input_to_payload e) ''projected_exposure_digest'' = Some (ie_projected_exposure_digest e)"
  "text_of (input_to_payload e) ''return_history_reference'' = Some (ie_return_history_reference e)"
  "time_of (input_to_payload e) ''market_observed_at'' = Some (ie_market_observed_at e)"
  "time_of (input_to_payload e) ''halt_observed_at'' = Some (ie_halt_observed_at e)"
  "time_of (input_to_payload e) ''event_observed_at'' = Some (ie_event_observed_at e)"
  "time_of (input_to_payload e) ''slippage_observed_at'' = Some (ie_slippage_observed_at e)"
  "time_of (input_to_payload e) ''exposure_observed_at'' = Some (ie_exposure_observed_at e)"
  "optional_time_of (input_to_payload e) ''return_history_observed_at'' = Some (ie_return_history_observed_at e)"
  by (simp_all add: text_of_def time_of_def optional_time_of_def input_to_payload_def)
     (cases "ie_return_history_observed_at e"; simp)

lemma input_payload_inverse: "input_from_payload (input_to_payload e) = Inr e"
  by (simp add: input_from_payload_def input_payload_lookup)

lemma sort_key_idem: "sort_key f (sort_key f xs) = sort_key f xs"
  by (simp add: sort_key_id_if_sorted)

lemma stress_json_sorted: "stress_json (r\<lparr>sr_contributions := sort_key fst (sr_contributions r)\<rparr>) = stress_json r"
  by (simp add: stress_json_def decimals_json_def sort_key_idem)

lemma portfolio_json_sorted:
  "portfolio_json (p\<lparr>prd_stress_results := map (\<lambda>r. r\<lparr>sr_contributions := sort_key fst (sr_contributions r)\<rparr>)
     (prd_stress_results p)\<rparr>) = portfolio_json p"
  by (simp add: portfolio_json_def o_def stress_json_sorted)

text \<open>What an intact row gives back: the columns kept, with both payloads decoded.\<close>

definition stored_assessment :: "assessment \<Rightarrow> assessment" where
  "stored_assessment a = (stored_columns a)\<lparr>pa_input_evidence := pa_input_evidence a, pa_per_trade_risk := pa_per_trade_risk a\<rparr>"

lemma stored_json: "assessment_json (stored_assessment a) = assessment_json a"
proof -
  have "json_option portfolio_json (map_option (\<lambda>p. p\<lparr>prd_stress_results :=
         map (\<lambda>r. r\<lparr>sr_contributions := sort_key fst (sr_contributions r)\<rparr>) (prd_stress_results p)\<rparr>) q) =
      json_option portfolio_json q" for q
    by (cases q) (simp_all add: portfolio_json_sorted)
  then show ?thesis by (simp add: assessment_json_def stored_assessment_def stored_columns_def)
qed

lemma stored_digest: "assessment_digest sha (stored_assessment a) = assessment_digest sha a"
  by (simp add: assessment_digest_def stored_json)

definition row_of ::
  "(json \<Rightarrow> string) \<Rightarrow> (string \<Rightarrow> string \<Rightarrow> string) \<Rightarrow> assessment_store \<Rightarrow> assessment \<Rightarrow> assessment_row" where
  "row_of sha mac s a =
     \<lparr>aw_columns = stored_columns a, aw_input_payload = map_option input_to_payload (pa_input_evidence a),
      aw_per_trade_payload = map_option evidence_to_payload (pa_per_trade_risk a),
      aw_digest = assessment_digest sha a, aw_mac = store_mac mac s (assessment_digest sha a)\<rparr>"

lemma read_row:
  assumes "\<forall>e. pa_per_trade_risk a = Some e \<longrightarrow> evidence_valid e"
  shows "read_assessment sha mac s (row_of sha mac s a) = Inr (stored_assessment a)"
proof -
  have i: "decode_optional input_from_payload (map_option input_to_payload x) = Inr x" for x
    by (cases x) (simp_all add: decode_optional_def input_payload_inverse)
  have p: "decode_optional evidence_from_payload (map_option evidence_to_payload (pa_per_trade_risk a)) = Inr (pa_per_trade_risk a)"
    using assms by (cases "pa_per_trade_risk a") (simp_all add: decode_optional_def evidence_payload_inverse make_evidence_def)
  show ?thesis
    by (simp add: read_assessment_def row_of_def i p stored_assessment_def [symmetric] stored_digest)
qed

lemma read_assessment_key:
  assumes "as_key s = as_key t"
  shows "read_assessment sha mac s r = read_assessment sha mac t r"
  unfolding read_assessment_def store_mac_def assms by (rule refl)

lemma assessment_append_Inr:
  "assessment_append sha mac a s = (Inr u, s') \<Longrightarrow>
   rd_intent_id (pa_risk_decision a) \<notin> row_intent ` set (as_rows s) \<and> as_key s' = as_key s \<and>
   as_rows s' = as_rows s @ [row_of sha mac s a]"
  by (auto simp: assessment_append_def row_of_def split: if_splits)

lemma row_intent_row_of [simp]: "row_intent (row_of sha mac s a) = rd_intent_id (pa_risk_decision a)"
  by (simp add: row_intent_def row_of_def stored_columns_def)

lemma assessment_run_prefix:
  "\<exists>more. fold (\<lambda>a s. snd (assessment_append sha mac a s)) as s = s\<lparr>as_rows := as_rows s @ more\<rparr>"
proof (induction as arbitrary: s)
  case (Cons a as)
  have "\<exists>m. snd (assessment_append sha mac a s) = s\<lparr>as_rows := as_rows s @ m\<rparr>"
    by (auto simp: assessment_append_def intro: exI [of _ "[]"])
  then obtain m where m: "snd (assessment_append sha mac a s) = s\<lparr>as_rows := as_rows s @ m\<rparr>" by blast
  obtain m' where "fold (\<lambda>a s. snd (assessment_append sha mac a s)) as (s\<lparr>as_rows := as_rows s @ m\<rparr>) =
      s\<lparr>as_rows := (as_rows s @ m) @ m'\<rparr>"
    using Cons.IH [of "s\<lparr>as_rows := as_rows s @ m\<rparr>"] by auto
  then show ?case using m by auto
qed (auto intro: exI [of _ "[]"])

section \<open>Properties\<close>

lemma assessment_appended_read:
  assumes "assessment_append sha mac a s = (Inr u, s')" "\<forall>e. pa_per_trade_risk a = Some e \<longrightarrow> evidence_valid e"
  shows "get_for_intent sha mac (rd_intent_id (pa_risk_decision a)) (s'\<lparr>as_rows := as_rows s' @ m\<rparr>) =
    Inr (Some (stored_assessment a))"
proof -
  note ap = assessment_append_Inr [OF assms(1)]
  let ?i = "rd_intent_id (pa_risk_decision a)" and ?r = "row_of sha mac s a"
  have "find (\<lambda>r. row_intent r = ?i) (as_rows s) = None" using ap unfolding find_None_iff by (metis imageI)
  then have f: "find (\<lambda>r. row_intent r = ?i) ((as_rows s @ [?r]) @ m) = Some ?r"
    by (simp add: find_later [symmetric])
  have "read_assessment sha mac (s'\<lparr>as_rows := as_rows s' @ m\<rparr>) ?r = read_assessment sha mac s ?r"
    using ap by (intro read_assessment_key) simp
  then show ?thesis using ap f read_row [OF assms(2)] by (simp add: get_for_intent_def)
qed

text \<open>
  An assessment is written once per intent: after a successful append, whatever is appended later,
  the intent reads back as that assessment (its decision time replaced by the assessment time, its stress
  contributions sorted by name), digest and code verified.
\<close>

theorem assessment_round_trip:
  assumes "assessment_append sha mac a s = (Inr u, s')" "\<forall>e. pa_per_trade_risk a = Some e \<longrightarrow> evidence_valid e"
  shows "get_for_intent sha mac (rd_intent_id (pa_risk_decision a))
      (fold (\<lambda>a s. snd (assessment_append sha mac a s)) later s') = Inr (Some (stored_assessment a))"
proof -
  obtain m where "fold (\<lambda>a s. snd (assessment_append sha mac a s)) later s' = s'\<lparr>as_rows := as_rows s' @ m\<rparr>"
    using assessment_run_prefix by blast
  then show ?thesis using assessment_appended_read [OF assms, of m] by simp
qed

text \<open>
  What the store returns is authenticated: its digest is the stored one, with a key its code is the
  stored one, and when the digest separates canonical texts, a row written for one assessment never
  returns an assessment with any other content.
\<close>

theorem assessment_authenticated:
  assumes "get_for_intent sha mac i s = Inr (Some b)"
  shows "\<exists>r \<in> set (as_rows s). row_intent r = i \<and> assessment_digest sha b = aw_digest r \<and>
    (\<forall>k. as_key s = Some k \<longrightarrow> mac k (assessment_digest sha b) = aw_mac r) \<and>
    ((\<forall>x y. sha x = sha y \<longrightarrow> x = y) \<longrightarrow>
      (\<forall>a. aw_digest r = assessment_digest sha a \<longrightarrow> json_sorted (assessment_json b) = json_sorted (assessment_json a)))"
proof -
  obtain r where f: "find (\<lambda>r. row_intent r = i) (as_rows s) = Some r" and rd: "read_assessment sha mac s r = Inr b"
    using assms by (auto simp: get_for_intent_def bind_result_Inr_iff split: option.splits)
  have r: "r \<in> set (as_rows s)" "row_intent r = i" using f by (auto simp: find_Some_iff)
  have d: "assessment_digest sha b = aw_digest r" "\<forall>k. as_key s = Some k \<longrightarrow> mac k (assessment_digest sha b) = aw_mac r"
    using rd by (auto simp: read_assessment_def bind_result_Inr_iff Let_def store_mac_def split: if_splits)
  have "json_sorted (assessment_json b) = json_sorted (assessment_json a)"
    if "\<forall>x y. sha x = sha y \<longrightarrow> x = y" "aw_digest r = assessment_digest sha a" for a
    using d(1) that unfolding assessment_digest_def by metis
  then show ?thesis using r d by blast
qed

definition sample_assessment :: assessment where
  "sample_assessment = \<lparr>pa_assessment_id = 1,
     pa_risk_decision = \<lparr>rd_decision_id = 2, rd_intent_id = 1, rd_decision = APPROVE, rd_reasons = [], rd_decided_at = Aware 0 0\<rparr>,
     pa_portfolio_decision = None, pa_evidence_block_reason = None, pa_assessed_at = Aware 1 0,
     pa_risk_policy_version = ''v1'', pa_portfolio_policy_version = ''v1'', pa_risk_policy_digest = ''d'',
     pa_portfolio_policy_digest = ''d'', pa_input_evidence = None, pa_per_trade_risk = None\<rparr>"

lemma sample_assessment_stored:
  "\<exists>s'. assessment_append sha mac sample_assessment \<lparr>as_key = Some ''k'', as_rows = []\<rparr> = (Inr (), s')"
  by (simp add: assessment_append_def)

theorem assessment_round_trip_witness:
  "\<exists>s. get_for_intent (\<lambda>_. ''d'') (\<lambda>k _. k) 1 s = Inr (Some (stored_assessment sample_assessment))"
proof -
  obtain s' where s': "assessment_append (\<lambda>_. ''d'') (\<lambda>k _. k) sample_assessment \<lparr>as_key = Some ''k'', as_rows = []\<rparr> = (Inr (), s')"
    using sample_assessment_stored by blast
  from assessment_round_trip [OF s', of "[]"] show ?thesis by (auto simp: sample_assessment_def)
qed

theorem assessment_authenticated_witness:
  "\<exists>s b. get_for_intent (\<lambda>_. ''d'') (\<lambda>k _. k) 1 s = Inr (Some b) \<and>
    (\<exists>r \<in> set (as_rows s). assessment_digest (\<lambda>_. ''d'') b = aw_digest r)"
proof -
  obtain s' where "assessment_append (\<lambda>_. ''d'') (\<lambda>k _. k) sample_assessment \<lparr>as_key = Some ''k'', as_rows = []\<rparr> = (Inr (), s')"
    using sample_assessment_stored by blast
  from assessment_appended_read [OF this, of "[]"]
  have g: "get_for_intent (\<lambda>_. ''d'') (\<lambda>k _. k) (rd_intent_id (pa_risk_decision sample_assessment)) (s'\<lparr>as_rows := as_rows s' @ []\<rparr>) =
      Inr (Some (stored_assessment sample_assessment))"
    by (simp add: sample_assessment_def)
  moreover have "rd_intent_id (pa_risk_decision sample_assessment) = 1" by (simp add: sample_assessment_def)
  ultimately show ?thesis using assessment_authenticated [OF g] by metis
qed

end
