(* ===== verification/OrderStore.thy ===== *)
theory OrderStore
  imports PaperExecution
begin

text \<open>
  What every holder of paper orders (the fixture broker, the sandbox broker, the order management
  store) promises: an order enters well-formed, moves only by lifecycle transitions, fills and
  amendments, and is never dropped. The locale \<open>order_store\<close> states it and derives what a client
  may rely on over any sequence of calls.
\<close>

section \<open>Amendments and well-formed orders\<close>

text \<open>\<open>replace(order, intent=replace(order.intent, quantity=..., limit_price=...))\<close>\<close>

definition amend_order :: "paper_order \<Rightarrow> decimal \<Rightarrow> decimal \<Rightarrow> paper_order" where
  "amend_order o1 quantity limit_price =
     o1\<lparr>po_intent := (po_intent o1)\<lparr>oi_quantity := quantity, oi_limit_price := limit_price\<rparr>\<rparr>"

text \<open>The guard the sandbox broker and the order management store share.\<close>

definition amendable :: "paper_order \<Rightarrow> decimal \<Rightarrow> decimal \<Rightarrow> bool" where
  "amendable o1 quantity limit_price \<longleftrightarrow>
     po_status o1 \<in> {ACKNOWLEDGED, PARTIALLY_FILLED} \<and>
     \<not> (quantity < po_filled_quantity o1 \<or> limit_price \<le> 0)"

text \<open>A quantity on a grid of \<open>10 powi (- k)\<close> that sums exactly in 28 digits.\<close>

definition grid_quantity :: "int \<Rightarrow> decimal \<Rightarrow> bool" where
  "grid_quantity k q \<longleftrightarrow> on_grid k (dval q) \<and> dval q < 10 ^ prec * 10 powi (- k)"

text \<open>
  How much is asked of the calls of a store: nothing; that their quantities lie on one grid; or, further, that
  nothing but its fills makes an order filled, which enters with nothing filled and is not moved to \<open>FILLED\<close> by a
  caller (the lifecycle allows that move).
\<close>

datatype discipline = AnyCalls | GridCalls | FillsOnly

text \<open>
  A well-formed order. On the grid it is filled within its quantity; where only fills fill it, it has an average price
  exactly when something is filled, and \<open>FILLED\<close> means full.
\<close>

definition order_sound :: "discipline \<Rightarrow> int \<Rightarrow> paper_order \<Rightarrow> bool" where
  "order_sound d k o1 \<longleftrightarrow>
     representable (dval (po_filled_quantity o1)) \<and> 0 \<le> dval (po_filled_quantity o1) \<and>
     (\<forall>a. po_average_fill_price o1 = Some a \<longrightarrow> 0 < dval a) \<and>
     (d \<noteq> AnyCalls \<longrightarrow>
        grid_quantity k (oi_quantity (po_intent o1)) \<and> on_grid k (dval (po_filled_quantity o1)) \<and>
        dval (po_filled_quantity o1) \<le> dval (oi_quantity (po_intent o1))) \<and>
     (d = FillsOnly \<longrightarrow>
        (po_average_fill_price o1 = None \<longleftrightarrow> dval (po_filled_quantity o1) = 0) \<and>
        (po_status o1 = FILLED \<longrightarrow> dval (po_filled_quantity o1) = dval (oi_quantity (po_intent o1))))"

abbreviation order_inv :: "int \<Rightarrow> paper_order \<Rightarrow> bool" where
  "order_inv \<equiv> order_sound FillsOnly"

inductive order_move :: "discipline \<Rightarrow> int \<Rightarrow> paper_order \<Rightarrow> paper_order \<Rightarrow> bool" for d :: discipline and k :: int where
  step_transition: "order_transition o1 n = Inr o2 \<Longrightarrow> (d = FillsOnly \<Longrightarrow> n \<noteq> FILLED) \<Longrightarrow> order_move d k o1 o2"
| step_fill: "order_fill o1 q p = Inr o2 \<Longrightarrow> (d \<noteq> AnyCalls \<Longrightarrow> on_grid k (dval q)) \<Longrightarrow> order_move d k o1 o2"
| step_amend: "amendable o1 q p \<Longrightarrow> (d \<noteq> AnyCalls \<Longrightarrow> grid_quantity k q) \<Longrightarrow> order_move d k o1 (amend_order o1 q p)"

abbreviation order_moves :: "discipline \<Rightarrow> int \<Rightarrow> paper_order \<Rightarrow> paper_order \<Rightarrow> bool" where
  "order_moves d k \<equiv> (order_move d k)\<^sup>*\<^sup>*"

abbreviation order_step :: "int \<Rightarrow> paper_order \<Rightarrow> paper_order \<Rightarrow> bool" where
  "order_step \<equiv> order_move FillsOnly"

abbreviation order_steps :: "int \<Rightarrow> paper_order \<Rightarrow> paper_order \<Rightarrow> bool" where
  "order_steps \<equiv> order_moves FillsOnly"

definition order_closed :: "paper_order \<Rightarrow> bool" where
  "order_closed o1 \<longleftrightarrow> transitions (po_status o1) = {}"

lemma new_order_inv:
  "grid_quantity k (oi_quantity i) \<Longrightarrow> 0 \<le> dval (oi_quantity i) \<Longrightarrow> order_sound d k (new_order i)"
  by (simp add: order_sound_def new_order_def)

lemma transition_inv:
  "order_transition o1 n = Inr o2 \<Longrightarrow> (d = FillsOnly \<Longrightarrow> n \<noteq> FILLED) \<Longrightarrow> order_sound d k o1 \<Longrightarrow> order_sound d k o2"
  by (auto simp: order_simps order_sound_def)

text \<open>On the grid a fill is exact: the new filled quantity is the sum, and stays within the order.\<close>

lemma fill_exact:
  assumes f: "order_fill o1 q p = Inr o2" and q: "on_grid k (dval q)" and inv: "order_sound d k o1" and d: "d \<noteq> AnyCalls"
  shows "dval (po_filled_quantity o2) = dval (po_filled_quantity o1) + dval q"
    "dval (po_filled_quantity o2) \<le> dval (oi_quantity (po_intent o1))"
    "on_grid k (dval (po_filled_quantity o2))"
proof -
  let ?f = "dval (po_filled_quantity o1)" and ?Q = "dval (oi_quantity (po_intent o1))"
  note r = order_fill_ok [OF f]
  have i: "on_grid k ?Q" "?Q < 10 ^ prec * 10 powi (- k)" "on_grid k ?f" "0 \<le> ?f" "?f \<le> ?Q"
    using inv d by (auto simp: order_sound_def grid_quantity_def)
  have "dval (remaining_quantity o1) = ?Q - ?f"
    unfolding remaining_quantity_def
    by (rule dval_minus_exact, rule grid_between [OF on_grid_minus [OF i(1,3)] _ _ i(2)])
       (use i in auto)
  then have le: "?f + dval q \<le> ?Q" using r(4) by linarith
  have g: "on_grid k (?f + dval q)" by (rule on_grid_plus [OF i(3) q])
  show eq: "dval (po_filled_quantity o2) = ?f + dval q"
    unfolding r(6)
    by (rule dval_plus_exact, rule grid_between [OF g _ le i(2)]) (use i r(2) in auto)
  show "dval (po_filled_quantity o2) \<le> ?Q" "on_grid k (dval (po_filled_quantity o2))"
    unfolding eq using le g by auto
qed

lemma fill_grows:
  assumes "order_fill o1 q p = Inr o2" "order_sound d k o1"
  shows "dval (po_filled_quantity o1) \<le> dval (po_filled_quantity o2)" "0 < dval (po_filled_quantity o2)"
    "representable (dval (po_filled_quantity o2))"
proof -
  note r = order_fill_ok [OF assms(1)]
  have f: "representable (dval (po_filled_quantity o1))" "0 \<le> dval (po_filled_quantity o1)"
    using assms(2) by (auto simp: order_sound_def)
  show "dval (po_filled_quantity o1) \<le> dval (po_filled_quantity o2)"
    unfolding r(6) by (rule plus_ge [OF f(1)]) (use r(2) in simp)
  show "0 < dval (po_filled_quantity o2)" "representable (dval (po_filled_quantity o2))"
    unfolding r(6) using f(2) r(2) by simp_all
qed

lemma fill_inv:
  assumes f: "order_fill o1 q p = Inr o2" and q: "d \<noteq> AnyCalls \<Longrightarrow> on_grid k (dval q)" and inv: "order_sound d k o1"
  shows "order_sound d k o2"
proof -
  note r = order_fill_ok [OF f] and g = fill_grows [OF f inv]
  obtain a where a: "po_average_fill_price o2 = Some a"
    "a = dquot (case po_average_fill_price o1 of None \<Rightarrow> q * p
       | Some avg \<Rightarrow> avg * po_filled_quantity o1 + q * p) (po_filled_quantity o2)"
    using r(8) by blast
  have "0 < dval a"
    unfolding a(2) using g(2) r(2,3) inv
    by (cases "po_average_fill_price o1") (simp_all add: order_sound_def add_nonneg_pos)
  moreover have "po_status o2 = FILLED \<longrightarrow> dval (po_filled_quantity o2) = dval (oi_quantity (po_intent o1))"
    unfolding r(7) by (simp add: dec_order)
  moreover have "dval (po_filled_quantity o2) \<le> dval (oi_quantity (po_intent o1)) \<and> on_grid k (dval (po_filled_quantity o2))"
    if "d \<noteq> AnyCalls" using fill_exact(2,3) [OF f q [OF that] inv that] by simp
  ultimately show ?thesis
    using g inv a(1) by (simp add: order_sound_def r(5))
qed

lemma amend_inv:
  "amendable o1 q p \<Longrightarrow> (d \<noteq> AnyCalls \<Longrightarrow> grid_quantity k q) \<Longrightarrow> order_sound d k o1 \<Longrightarrow> order_sound d k (amend_order o1 q p)"
  by (auto simp: amendable_def amend_order_def order_sound_def dec_order)

lemma transition_moves: "order_transition o1 n = Inr o2 \<Longrightarrow> (d = FillsOnly \<Longrightarrow> n \<noteq> FILLED) \<Longrightarrow> order_moves d k o1 o2"
  by (rule r_into_rtranclp) (rule step_transition)

lemma fill_moves: "order_fill o1 q p = Inr o2 \<Longrightarrow> (d \<noteq> AnyCalls \<Longrightarrow> on_grid k (dval q)) \<Longrightarrow> order_moves d k o1 o2"
  by (rule r_into_rtranclp) (rule step_fill)

lemma amend_moves: "amendable o1 q p \<Longrightarrow> (d \<noteq> AnyCalls \<Longrightarrow> grid_quantity k q) \<Longrightarrow> order_moves d k o1 (amend_order o1 q p)"
  by (rule r_into_rtranclp) (rule step_amend)

lemma order_step_inv: "order_move d k o1 o2 \<Longrightarrow> order_sound d k o1 \<Longrightarrow> order_sound d k o2"
  by (induction rule: order_move.induct) (auto intro: transition_inv fill_inv amend_inv)

lemma order_step_filled_mono:
  "order_move d k o1 o2 \<Longrightarrow> order_sound d k o1 \<Longrightarrow> dval (po_filled_quantity o1) \<le> dval (po_filled_quantity o2)"
proof (induction rule: order_move.induct)
  case (step_fill o1 q p o2)
  show ?case by (rule fill_grows(1) [OF step_fill.hyps(1) step_fill.prems])
qed (auto simp: order_simps amend_order_def)

lemma order_step_identity:
  "order_move d k o1 o2 \<Longrightarrow>
   oi_intent_id (po_intent o2) = oi_intent_id (po_intent o1) \<and>
   oi_side (po_intent o2) = oi_side (po_intent o1) \<and>
   oi_instrument_id (po_intent o2) = oi_instrument_id (po_intent o1)"
  by (induction rule: order_move.induct) (auto simp: order_simps amend_order_def dest: order_fill_ok)

lemma order_step_open: "order_move d k o1 o2 \<Longrightarrow> \<not> order_closed o1"
  by (induction rule: order_move.induct)
     (auto simp: order_simps order_closed_def amendable_def fillable_def dest!: order_fill_ok(1))

lemma order_steps_facts:
  assumes "order_moves d k o1 o2"
  shows "order_sound d k o1 \<Longrightarrow> order_sound d k o2 \<and> dval (po_filled_quantity o1) \<le> dval (po_filled_quantity o2)"
    and "oi_intent_id (po_intent o2) = oi_intent_id (po_intent o1)"
    and "order_closed o1 \<Longrightarrow> o2 = o1"
proof -
  show "order_sound d k o1 \<Longrightarrow> order_sound d k o2 \<and> dval (po_filled_quantity o1) \<le> dval (po_filled_quantity o2)"
    using assms
    by (induction rule: rtranclp_induct) (auto dest: order_step_inv order_step_filled_mono)
  show "oi_intent_id (po_intent o2) = oi_intent_id (po_intent o1)"
    using assms by (induction rule: rtranclp_induct) (auto dest: order_step_identity)
  show "order_closed o1 \<Longrightarrow> o2 = o1"
    using assms order_step_open by (metis converse_rtranclpE)
qed

text \<open>
  An amendment down to exactly the filled quantity is allowed and leaves an open order that no fill
  can ever complete: only a cancellation (or a further amendment) ends it.
\<close>

lemma amended_to_filled_is_stuck:
  assumes "amendable o1 q p" "dval q = dval (po_filled_quantity o1)" "representable 0"
  shows "\<not> order_closed (amend_order o1 q p)" "\<not> ok (order_fill (amend_order o1 q p) q' p')"
proof -
  show "\<not> order_closed (amend_order o1 q p)"
    using assms(1) by (auto simp: order_closed_def amend_order_def amendable_def)
  have "dval (remaining_quantity (amend_order o1 q p)) = 0"
    using assms(2,3) by (simp add: remaining_quantity_def amend_order_def dval_minus_exact)
  then show "\<not> ok (order_fill (amend_order o1 q p) q' p')"
    using order_fill_ok(2,4) [of "amend_order o1 q p" q' p'] by (force simp: ok_iff)
qed

section \<open>The contract of an order store\<close>

definition book_sound :: "discipline \<Rightarrow> int \<Rightarrow> (uuid, paper_order) dict \<Rightarrow> bool" where
  "book_sound d k b \<longleftrightarrow>
     (\<forall>i o1. dict_get b i = Some o1 \<longrightarrow> order_sound d k o1 \<and> oi_intent_id (po_intent o1) = i)"

abbreviation book_inv :: "int \<Rightarrow> (uuid, paper_order) dict \<Rightarrow> bool" where
  "book_inv \<equiv> book_sound FillsOnly"

lemma book_sound_Nil [simp]: "book_sound d k []"
  by (simp add: book_sound_def)

text \<open>
  \<open>book\<close> reads the orders of a state, \<open>op\<close> performs a call (whether it returns or raises), \<open>good k\<close>
  says that a call's quantities lie on the grid and that the call respects the discipline \<open>d\<close>.
\<close>

locale order_store =
  fixes d :: discipline
    and book :: "'s \<Rightarrow> (uuid, paper_order) dict"
    and op :: "'c \<Rightarrow> 's \<Rightarrow> 's"
    and good :: "int \<Rightarrow> 'c \<Rightarrow> bool"
  assumes advances: "good k c \<Longrightarrow> book_sound d k (book s) \<Longrightarrow> dict_get (book s) i = Some o1 \<Longrightarrow>
      \<exists>o2. dict_get (book (op c s)) i = Some o2 \<and> order_moves d k o1 o2"
    and enters: "good k c \<Longrightarrow> book_sound d k (book s) \<Longrightarrow> dict_get (book s) i = None \<Longrightarrow> dict_get (book (op c s)) i = Some o2 \<Longrightarrow>
      order_sound d k o2 \<and> oi_intent_id (po_intent o2) = i"
begin

lemma op_inv:
  assumes "good k c" "book_sound d k (book s)"
  shows "book_sound d k (book (op c s))"
  unfolding book_sound_def
proof (intro allI impI)
  fix i o2 assume o2: "dict_get (book (op c s)) i = Some o2"
  show "order_sound d k o2 \<and> oi_intent_id (po_intent o2) = i"
  proof (cases "dict_get (book s) i")
    case None
    then show ?thesis using enters [OF assms None o2] by simp
  next
    case (Some o1)
    then have "order_moves d k o1 o2" using advances [OF assms Some] o2 by auto
    moreover have "order_sound d k o1" "oi_intent_id (po_intent o1) = i"
      using assms(2) Some by (auto simp: book_sound_def)
    ultimately show ?thesis using order_steps_facts by metis
  qed
qed

lemma run_inv:
  "\<forall>c \<in> set cs. good k c \<Longrightarrow> book_sound d k (book s) \<Longrightarrow> book_sound d k (book (fold op cs s))"
  by (induction cs arbitrary: s) (auto intro: op_inv)

lemma run_advances:
  "\<forall>c \<in> set cs. good k c \<Longrightarrow> book_sound d k (book s) \<Longrightarrow> dict_get (book s) i = Some o1 \<Longrightarrow>
   \<exists>o2. dict_get (book (fold op cs s)) i = Some o2 \<and> order_moves d k o1 o2"
proof (induction cs arbitrary: s o1)
  case Nil
  then show ?case by auto
next
  case (Cons c cs)
  obtain o2 where o2: "dict_get (book (op c s)) i = Some o2" "order_moves d k o1 o2"
    using advances [OF _ Cons.prems(2,3), of c] Cons.prems(1) by auto
  obtain o3 where "dict_get (book (fold op cs (op c s))) i = Some o3" "order_moves d k o2 o3"
    using Cons.IH [OF _ op_inv o2(1)] Cons.prems(1,2) by auto
  with o2(2) show ?case by auto
qed

lemma run_orders:
  assumes "\<forall>c \<in> set cs. good k c" "book_sound d k (book s)" "dict_get (book s) i = Some o1"
  shows "\<exists>o2. dict_get (book (fold op cs s)) i = Some o2 \<and> order_sound d k o2 \<and>
    dval (po_filled_quantity o1) \<le> dval (po_filled_quantity o2) \<and> (order_closed o1 \<longrightarrow> o2 = o1)"
  using run_advances [OF assms] order_steps_facts assms(2,3) unfolding book_sound_def by metis

end

end
