(* ===== verification/PaperBroker.thy ===== *)
theory PaperBroker
  imports OrderStore DecimalText
begin

text \<open>
  The two paper brokers: the fixture of \<open>paper_broker.py\<close> and the sandbox adapter of
  \<open>broker_adapter.py\<close> with its account, event log and reconciliation. Both are order stores.
\<close>

section \<open>Steps both brokers share\<close>

text \<open>\<open>order.transition(SUBMISSION_PENDING).transition(SUBMITTED).transition(ACKNOWLEDGED)\<close>\<close>

definition acknowledge :: "paper_order \<Rightarrow> paper_order result" where
  "acknowledge o1 =
     bind_result (order_transition o1 SUBMISSION_PENDING) (\<lambda>a.
     bind_result (order_transition a SUBMITTED) (\<lambda>b. order_transition b ACKNOWLEDGED))"

text \<open>\<open>order.transition(CANCEL_PENDING).transition(CANCELLED)\<close>\<close>

definition withdraw :: "paper_order \<Rightarrow> paper_order result" where
  "withdraw o1 = bind_result (order_transition o1 CANCEL_PENDING) (\<lambda>a. order_transition a CANCELLED)"

abbreviation intent_id_of :: "paper_order \<Rightarrow> uuid" where
  "intent_id_of o1 \<equiv> oi_intent_id (po_intent o1)"

lemma acknowledge_approved:
  "po_status o1 = APPROVED \<Longrightarrow> acknowledge o1 = Inr (o1\<lparr>po_status := ACKNOWLEDGED\<rparr>)"
  by (simp add: acknowledge_def order_transition_def)

lemma withdraw_iff:
  "withdraw o1 = Inr o2 \<longleftrightarrow> fillable (po_status o1) \<and> o2 = o1\<lparr>po_status := CANCELLED\<rparr>"
  by (cases "po_status o1") (auto simp: withdraw_def order_transition_def fillable_def)

lemma withdraw_Inl: "withdraw o1 = Inl e \<Longrightarrow> \<exists>m. e = Exc OrderTransitionError m"
  by (cases "po_status o1") (auto simp: withdraw_def order_transition_def)

section \<open>Execution quality\<close>

record execution_quality_report =
  eq_intent_id :: uuid
  eq_requested_quantity :: decimal
  eq_filled_quantity :: decimal
  eq_fill_rate :: decimal
  eq_benchmark_price :: decimal
  eq_average_fill_price :: "decimal option"
  eq_absolute_slippage :: "decimal option"
  eq_final_status :: order_status

definition execution_quality :: "paper_order \<Rightarrow> decimal \<Rightarrow> execution_quality_report result" where
  "execution_quality o1 benchmark_price =
     (if benchmark_price \<le> 0
      then Inl (Exc PaperBrokerValidationError ''invalid_execution_benchmark'')
      else bind_result (ddiv (po_filled_quantity o1) (oi_quantity (po_intent o1))) (\<lambda>fill_rate.
        let slippage = (case po_average_fill_price o1 of None \<Rightarrow> None
              | Some avg \<Rightarrow> Some (dquot (dabs (avg - benchmark_price)) benchmark_price))
        in Inr \<lparr>eq_intent_id = intent_id_of o1, eq_requested_quantity = oi_quantity (po_intent o1),
                eq_filled_quantity = po_filled_quantity o1, eq_fill_rate = fill_rate,
                eq_benchmark_price = benchmark_price, eq_average_fill_price = po_average_fill_price o1,
                eq_absolute_slippage = slippage, eq_final_status = po_status o1\<rparr>))"

section \<open>The fixture broker\<close>

type_synonym order_book = "(uuid, paper_order) dict"

definition fx_get :: "uuid \<Rightarrow> order_book \<Rightarrow> paper_order result" where
  "fx_get i b =
     (case dict_get b i of
        None \<Rightarrow> Inl (Exc PaperBrokerValidationError ''unknown_paper_broker_intent'')
      | Some o1 \<Rightarrow> Inr o1)"

definition fx_submit :: "paper_order \<Rightarrow> (order_book, paper_order) operation" where
  "fx_submit o1 b =
     (if dict_get b (intent_id_of o1) \<noteq> None
      then (Inl (Exc PaperBrokerValidationError ''duplicate_paper_broker_intent''), b)
      else if po_status o1 \<noteq> APPROVED
      then (Inl (Exc PaperBrokerValidationError ''paper_submission_requires_risk_approved_order''), b)
      else case acknowledge o1 of
        Inl e \<Rightarrow> (Inl e, b)
      | Inr submitted \<Rightarrow> (Inr submitted, dict_set (intent_id_of o1) submitted b))"

text \<open>Only \<open>OrderTransitionError\<close> is translated; an arithmetic signal passes through.\<close>

definition translate_fill :: "py_exc \<Rightarrow> py_exc" where
  "translate_fill e =
     (if exc_class e = OrderTransitionError then Exc PaperBrokerValidationError ''invalid_fixture_fill'' else e)"

definition fx_fill :: "uuid \<Rightarrow> decimal \<Rightarrow> decimal \<Rightarrow> (order_book, paper_order) operation" where
  "fx_fill i quantity price b =
     (case fx_get i b of
        Inl e \<Rightarrow> (Inl e, b)
      | Inr o1 \<Rightarrow>
          (case order_fill o1 quantity price of
             Inl e \<Rightarrow> (Inl (translate_fill e), b)
           | Inr filled \<Rightarrow> (Inr filled, dict_set i filled b)))"

definition fx_cancel :: "uuid \<Rightarrow> (order_book, paper_order) operation" where
  "fx_cancel i b =
     (case fx_get i b of
        Inl e \<Rightarrow> (Inl e, b)
      | Inr o1 \<Rightarrow>
          (case withdraw o1 of
             Inl e \<Rightarrow> (Inl (Exc PaperBrokerValidationError ''invalid_fixture_cancellation''), b)
           | Inr cancelled \<Rightarrow> (Inr cancelled, dict_set i cancelled b)))"

datatype fixture_call =
    FxSubmit paper_order
  | FxFill uuid decimal decimal
  | FxCancel uuid

fun fx_perform :: "fixture_call \<Rightarrow> order_book \<Rightarrow> order_book" where
  "fx_perform (FxSubmit o1) b = snd (fx_submit o1 b)"
| "fx_perform (FxFill i q p) b = snd (fx_fill i q p b)"
| "fx_perform (FxCancel i) b = snd (fx_cancel i b)"

fun fx_good :: "int \<Rightarrow> fixture_call \<Rightarrow> bool" where
  "fx_good k (FxSubmit o1) = order_inv k o1"
| "fx_good k (FxFill i q p) = on_grid k (dval q)"
| "fx_good k (FxCancel i) = True"

section \<open>Broker configuration, events and accounts\<close>

datatype broker_mode = SIMULATED_PAPER | SANDBOX_PAPER

fun mode_value :: "broker_mode \<Rightarrow> string" where
  "mode_value SIMULATED_PAPER = ''SIMULATED_PAPER''"
| "mode_value SANDBOX_PAPER = ''SANDBOX_PAPER''"

record broker_capabilities =
  cap_supports_paper_orders :: bool
  cap_supports_cancel_replace :: bool
  cap_supports_order_events :: bool
  cap_supports_account_sync :: bool
  cap_supports_fill_sync :: bool
  cap_network_connected :: bool

definition sandbox_capabilities :: broker_capabilities where
  "sandbox_capabilities =
     \<lparr>cap_supports_paper_orders = True, cap_supports_cancel_replace = True,
      cap_supports_order_events = True, cap_supports_account_sync = True,
      cap_supports_fill_sync = True, cap_network_connected = False\<rparr>"

record broker_configuration =
  bc_broker_name :: string
  bc_mode :: broker_mode
  bc_account_id :: string
  bc_credential_reference :: "string option"

definition validate_configuration :: "broker_configuration \<Rightarrow> unit result" where
  "validate_configuration c =
     (if blank (bc_broker_name c) \<or> blank (bc_account_id c)
      then Inl (Exc BrokerAdapterError ''broker_name_and_account_required'')
      else case bc_credential_reference c of
        None \<Rightarrow> Inr ()
      | Some r \<Rightarrow> if blank r then Inl (Exc BrokerAdapterError ''invalid_credential_reference'') else Inr ())"

record broker_order_event =
  boe_sequence :: int
  boe_event_id :: uuid
  boe_client_intent_id :: uuid
  boe_status :: order_status
  boe_event_type :: string
  boe_occurred_at :: datetime
  boe_external_event_id :: string
  boe_details :: "(string, string) dict"

record broker_account_snapshot =
  bas_account_id :: string
  bas_source :: string
  bas_as_of :: datetime
  bas_cash :: cash_balance
  bas_buying_power :: decimal
  bas_positions :: "(string, position) dict"
  bas_open_intent_ids :: "uuid list"
  bas_fill_ids :: "string list"
  bas_realized_pnl :: decimal
  bas_fees :: decimal

record internal_account_state =
  ias_cash :: cash_balance
  ias_positions :: "(string, position) dict"
  ias_open_intent_ids :: "uuid list"
  ias_fill_ids :: "string list"
  ias_realized_pnl :: decimal
  ias_fees :: decimal

record broker_reconciliation_result =
  brr_complete :: bool
  brr_discrepancies :: "string list"

definition reconcile_broker_account ::
  "string list \<Rightarrow> internal_account_state \<Rightarrow> broker_account_snapshot \<Rightarrow> decimal \<Rightarrow> broker_reconciliation_result" where
  "reconcile_broker_account ids internal snapshot tolerance =
     (let base = reconcile ids (ias_positions internal) (bas_positions snapshot)
                   (ias_cash internal) (bas_cash snapshot) tolerance;
          differences = rr_discrepancies base @
            (if set (ias_open_intent_ids internal) \<noteq> set (bas_open_intent_ids snapshot)
             then [''open_order_mismatch''] else []) @
            (if set (ias_fill_ids internal) \<noteq> set (bas_fill_ids snapshot) then [''fill_mismatch''] else []) @
            (if tolerance < dabs (ias_realized_pnl internal - bas_realized_pnl snapshot)
             then [''realized_pnl_mismatch''] else []) @
            (if tolerance < dabs (ias_fees internal - bas_fees snapshot) then [''fee_mismatch''] else [])
      in \<lparr>brr_complete = (differences = []), brr_discrepancies = differences\<rparr>)"

section \<open>The sandbox adapter\<close>

record sandbox =
  sb_configuration :: broker_configuration
  sb_cash :: cash_balance
  sb_orders :: order_book
  sb_positions :: "(string, position) dict"
  sb_events :: "broker_order_event list"
  sb_fill_ids :: "string list"
  sb_realized_pnl :: decimal
  sb_fees :: decimal

text \<open>The identifier and clock reading an event takes.\<close>

record event_env =
  ee_event_id :: uuid
  ee_now :: datetime

definition new_sandbox :: "broker_configuration \<Rightarrow> cash_balance \<Rightarrow> sandbox result" where
  "new_sandbox c cash =
     bind_result (validate_configuration c) (\<lambda>_.
       Inr \<lparr>sb_configuration = c, sb_cash = cash, sb_orders = [], sb_positions = [], sb_events = [],
            sb_fill_ids = [], sb_realized_pnl = Dec 0 0, sb_fees = Dec 0 0\<rparr>)"

definition sb_health :: "sandbox \<Rightarrow> bool" where
  "sb_health s = True"

text \<open>\<open>BrokerAdapterError(BrokerErrorCode.X.value)\<close>\<close>

abbreviation adapter_error :: "string \<Rightarrow> py_exc" where
  "adapter_error code \<equiv> Exc BrokerAdapterError code"

definition sb_order :: "uuid \<Rightarrow> sandbox \<Rightarrow> paper_order result" where
  "sb_order i s =
     (case dict_get (sb_orders s) i of
        None \<Rightarrow> Inl (adapter_error ''UNKNOWN_ORDER'') | Some o1 \<Rightarrow> Inr o1)"

definition sb_event ::
  "event_env \<Rightarrow> paper_order \<Rightarrow> string \<Rightarrow> (string, string) dict \<Rightarrow> sandbox \<Rightarrow> sandbox" where
  "sb_event e o1 event_type details s =
     (let sequence = length (sb_events s) + 1
      in s\<lparr>sb_events := sb_events s @
            [\<lparr>boe_sequence = int sequence, boe_event_id = ee_event_id e,
              boe_client_intent_id = intent_id_of o1, boe_status = po_status o1,
              boe_event_type = event_type, boe_occurred_at = ee_now e,
              boe_external_event_id = ''sandbox:'' @ nat_str sequence, boe_details = details\<rparr>]\<rparr>)"

text \<open>Store an order under its intent and log the event.\<close>

definition sb_put :: "uuid \<Rightarrow> paper_order \<Rightarrow> sandbox \<Rightarrow> sandbox" where
  "sb_put i o1 s = s\<lparr>sb_orders := dict_set i o1 (sb_orders s)\<rparr>"

definition sb_submit :: "event_env \<Rightarrow> paper_order \<Rightarrow> (sandbox, paper_order) operation" where
  "sb_submit e o1 s =
     (if dict_get (sb_orders s) (intent_id_of o1) \<noteq> None
      then (Inl (adapter_error ''DUPLICATE_INTENT''), s)
      else if po_status o1 \<noteq> APPROVED then (Inl (adapter_error ''INVALID_STATE''), s)
      else case acknowledge o1 of
        Inl x \<Rightarrow> (Inl x, s)
      | Inr submitted \<Rightarrow>
          (Inr submitted,
           sb_event e submitted ''ORDER_ACKNOWLEDGED'' [(''mode'', mode_value (bc_mode (sb_configuration s)))]
             (sb_put (intent_id_of submitted) submitted s)))"

definition sb_cancel :: "event_env \<Rightarrow> uuid \<Rightarrow> (sandbox, paper_order) operation" where
  "sb_cancel e i s =
     (case sb_order i s of
        Inl x \<Rightarrow> (Inl x, s)
      | Inr o1 \<Rightarrow>
          (case withdraw o1 of
             Inl x \<Rightarrow> (Inl (adapter_error ''INVALID_STATE''), s)
           | Inr cancelled \<Rightarrow> (Inr cancelled, sb_event e cancelled ''ORDER_CANCELLED'' [] (sb_put i cancelled s))))"

definition sb_replace :: "event_env \<Rightarrow> uuid \<Rightarrow> decimal \<Rightarrow> decimal \<Rightarrow> (sandbox, paper_order) operation" where
  "sb_replace e i quantity limit_price s =
     (case sb_order i s of
        Inl x \<Rightarrow> (Inl x, s)
      | Inr o1 \<Rightarrow>
          if \<not> amendable o1 quantity limit_price then (Inl (adapter_error ''INVALID_REPLACEMENT''), s)
          else
            let amended = amend_order o1 quantity limit_price
            in (Inr amended,
                sb_event e amended ''ORDER_REPLACED''
                  [(''quantity'', dec_str quantity), (''limit_price'', dec_str limit_price)] (sb_put i amended s)))"

text \<open>
  The account side of a fill: position, average cost, realised profit, cash and fees. The divisor
  of the average cost is not zero in its branch (\<open>settle_divisor\<close> below).
\<close>

definition settle_fill :: "order_intent \<Rightarrow> decimal \<Rightarrow> decimal \<Rightarrow> decimal \<Rightarrow> sandbox \<Rightarrow> sandbox" where
  "settle_fill i quantity price fee s =
     (let notional = quantity * price;
          position = (case dict_get (sb_positions s) (oi_instrument_id i) of
              None \<Rightarrow> mk_position (oi_instrument_id i) (Dec 0 0) (Dec 0 0) | Some p \<Rightarrow> p);
          signed_quantity = (if oi_side i = BUY then quantity else - quantity);
          new_quantity = pos_quantity position + signed_quantity;
          opening = (deq (pos_quantity position) 0 \<or> 0 < pos_quantity position * signed_quantity);
          average_cost =
            (if opening
             then dquot (pos_average_cost position * dabs (pos_quantity position) + price * quantity) (dabs new_quantity)
             else if \<not> deq new_quantity 0 then pos_average_cost position else Dec 0 0);
          realized =
            (if opening then sb_realized_pnl s
             else sb_realized_pnl s +
               (price - pos_average_cost position) * dmin (dabs (pos_quantity position)) quantity *
               (if 0 < pos_quantity position then Dec 1 0 else Dec (- 1) 0));
          cash_delta = (if oi_side i = BUY then - notional else notional)
      in s\<lparr>sb_realized_pnl := realized,
           sb_positions := dict_set (oi_instrument_id i)
             (mk_position (oi_instrument_id i) new_quantity average_cost) (sb_positions s),
           sb_cash := mk_cash (cash_currency (sb_cash s)) (cash_amount (sb_cash s) + cash_delta - fee),
           sb_fees := sb_fees s + fee\<rparr>)"

definition sb_fill ::
  "event_env \<Rightarrow> string \<Rightarrow> uuid \<Rightarrow> decimal \<Rightarrow> decimal \<Rightarrow> decimal \<Rightarrow> (sandbox, paper_order) operation" where
  "sb_fill e external_fill_id i quantity price fee s =
     (if blank external_fill_id \<or> fee < 0 \<or> external_fill_id \<in> set (sb_fill_ids s)
      then (Inl (adapter_error ''INVALID_FILL''), s)
      else case sb_order i s of
        Inl x \<Rightarrow> (Inl x, s)
      | Inr o1 \<Rightarrow>
          (case order_fill o1 quantity price of
             Inl x \<Rightarrow> (Inl (if is_value_error x then adapter_error ''INVALID_FILL'' else x), s)
           | Inr filled \<Rightarrow>
               let s1 = sb_put i filled (settle_fill (po_intent o1) quantity price fee s);
                   s2 = s1\<lparr>sb_fill_ids := sb_fill_ids s1 @ [external_fill_id]\<rparr>
               in (Inr filled,
                   sb_event e filled ''FILL''
                     [(''external_fill_id'', external_fill_id), (''quantity'', dec_str quantity),
                      (''price'', dec_str price), (''fee'', dec_str fee)] s2)))"

definition open_statuses :: "order_status set" where
  "open_statuses = {SUBMISSION_PENDING, SUBMITTED, ACKNOWLEDGED, PARTIALLY_FILLED, CANCEL_PENDING}"

definition sb_sync_account :: "datetime \<Rightarrow> sandbox \<Rightarrow> broker_account_snapshot" where
  "sb_sync_account now s =
     \<lparr>bas_account_id = bc_account_id (sb_configuration s), bas_source = bc_broker_name (sb_configuration s),
      bas_as_of = now, bas_cash = sb_cash s, bas_buying_power = cash_amount (sb_cash s),
      bas_positions = sb_positions s,
      bas_open_intent_ids = map fst (filter (\<lambda>(_, o1). po_status o1 \<in> open_statuses) (sb_orders s)),
      bas_fill_ids = sb_fill_ids s, bas_realized_pnl = sb_realized_pnl s, bas_fees = sb_fees s\<rparr>"

definition sb_order_events :: "int \<Rightarrow> sandbox \<Rightarrow> broker_order_event list result" where
  "sb_order_events after_sequence s =
     (if after_sequence < 0 then Inl (adapter_error ''invalid_event_sequence'')
      else Inr (filter (\<lambda>e. after_sequence < boe_sequence e) (sb_events s)))"

datatype sandbox_call =
    SbSubmit event_env paper_order
  | SbCancel event_env uuid
  | SbReplace event_env uuid decimal decimal
  | SbFill event_env string uuid decimal decimal decimal

fun sb_perform :: "sandbox_call \<Rightarrow> sandbox \<Rightarrow> sandbox" where
  "sb_perform (SbSubmit e o1) s = snd (sb_submit e o1 s)"
| "sb_perform (SbCancel e i) s = snd (sb_cancel e i s)"
| "sb_perform (SbReplace e i q p) s = snd (sb_replace e i q p s)"
| "sb_perform (SbFill e x i q p fee) s = snd (sb_fill e x i q p fee s)"

fun sb_good :: "int \<Rightarrow> sandbox_call \<Rightarrow> bool" where
  "sb_good k (SbSubmit e o1) = order_inv k o1"
| "sb_good k (SbCancel e i) = True"
| "sb_good k (SbReplace e i q p) = grid_quantity k q"
| "sb_good k (SbFill e x i q p fee) = on_grid k (dval q)"

section \<open>Both brokers are order stores\<close>

lemma sb_order_Inr: "sb_order i s = Inr o1 \<longleftrightarrow> dict_get (sb_orders s) i = Some o1"
  by (simp add: sb_order_def split: option.splits)

lemma fx_get_Inr: "fx_get i b = Inr o1 \<longleftrightarrow> dict_get b i = Some o1"
  by (simp add: fx_get_def split: option.splits)

lemma sb_frame [simp]:
  "sb_orders (sb_event e o1 t d s) = sb_orders s" "sb_orders (sb_put i o1 s) = dict_set i o1 (sb_orders s)"
  "sb_orders (settle_fill a q p fee s) = sb_orders s"
  "sb_events (sb_put i o1 s) = sb_events s" "sb_events (settle_fill a q p fee s) = sb_events s"
  "sb_fill_ids (sb_event e o1 t d s) = sb_fill_ids s" "sb_fill_ids (sb_put i o1 s) = sb_fill_ids s"
  "sb_fill_ids (settle_fill a q p fee s) = sb_fill_ids s"
  "sb_configuration (sb_event e o1 t d s) = sb_configuration s"
  "sb_configuration (sb_put i o1 s) = sb_configuration s"
  "sb_configuration (settle_fill a q p fee s) = sb_configuration s"
  by (simp_all add: sb_event_def sb_put_def settle_fill_def Let_def)

text \<open>What a call does to the orders: nothing, or one order set to the result of its step.\<close>

inductive book_change :: "int \<Rightarrow> order_book \<Rightarrow> order_book \<Rightarrow> bool" for k :: int where
  unchanged: "book_change k b b"
| entered: "dict_get b (intent_id_of o1) = None \<Longrightarrow> order_inv k o1 \<Longrightarrow>
    book_change k b (dict_set (intent_id_of o1) o1 b)"
| moved: "dict_get b i = Some o1 \<Longrightarrow> order_steps k o1 o2 \<Longrightarrow> book_change k b (dict_set i o2 b)"

lemma book_change_advances:
  "book_change k b b' \<Longrightarrow> dict_get b i = Some o1 \<Longrightarrow>
   \<exists>o2. dict_get b' i = Some o2 \<and> order_steps k o1 o2"
  by (induction rule: book_change.induct) (auto simp: dict_simps)

lemma book_change_enters:
  "book_change k b b' \<Longrightarrow> dict_get b i = None \<Longrightarrow> dict_get b' i = Some o2 \<Longrightarrow>
   order_inv k o2 \<and> oi_intent_id (po_intent o2) = i"
  by (induction rule: book_change.induct) (auto simp: dict_simps split: if_splits)

lemma withdraw_steps: "withdraw o1 = Inr o2 \<Longrightarrow> order_steps k o1 o2"
proof -
  assume w: "withdraw o1 = Inr o2"
  then obtain a where "order_transition o1 CANCEL_PENDING = Inr a" "order_transition a CANCELLED = Inr o2"
    by (auto simp: withdraw_def bind_result_Inr_iff)
  then have "order_step k o1 a" "order_step k a o2" by (auto intro: step_transition)
  then show ?thesis by auto
qed

lemma fill_steps: "order_fill o1 q p = Inr o2 \<Longrightarrow> on_grid k (dval q) \<Longrightarrow> order_steps k o1 o2"
  by (auto intro: step_fill)

lemma amend_steps: "amendable o1 q p \<Longrightarrow> grid_quantity k q \<Longrightarrow> order_steps k o1 (amend_order o1 q p)"
  by (auto intro: step_amend)

lemma acknowledged_inv:
  assumes "order_inv k o1" "po_status o1 = APPROVED"
  shows "order_inv k (o1\<lparr>po_status := ACKNOWLEDGED\<rparr>)"
  using assms by (simp add: order_sound_def)

lemma fx_perform_change: "fx_good k c \<Longrightarrow> book_change k b (fx_perform c b)"
proof (cases c)
  case (FxSubmit o1)
  assume "fx_good k c"
  then show ?thesis
    using entered [of b "o1\<lparr>po_status := ACKNOWLEDGED\<rparr>" k] acknowledged_inv
    by (auto simp: FxSubmit fx_submit_def acknowledge_approved intro: unchanged)
next
  case (FxFill i q p)
  assume "fx_good k c"
  then show ?thesis
    by (auto simp: FxFill fx_fill_def fx_get_Inr intro: unchanged moved fill_steps split: sum.splits)
next
  case (FxCancel i)
  then show ?thesis
    by (auto simp: fx_cancel_def fx_get_Inr intro: unchanged moved withdraw_steps split: sum.splits)
qed

interpretation fixture: order_store FillsOnly "\<lambda>b. b" fx_perform fx_good
  by unfold_locales
    (blast dest: book_change_advances [OF fx_perform_change] book_change_enters [OF fx_perform_change])+

lemma sb_perform_change: "sb_good k c \<Longrightarrow> book_change k (sb_orders s) (sb_orders (sb_perform c s))"
proof (cases c)
  case (SbSubmit e o1)
  assume "sb_good k c"
  then show ?thesis
    using entered [of "sb_orders s" "o1\<lparr>po_status := ACKNOWLEDGED\<rparr>" k] acknowledged_inv
    by (auto simp: SbSubmit sb_submit_def acknowledge_approved intro: unchanged)
next
  case (SbCancel e i)
  then show ?thesis
    by (auto simp: sb_cancel_def sb_order_Inr intro: unchanged moved withdraw_steps split: sum.splits)
next
  case (SbReplace e i q p)
  assume "sb_good k c"
  then show ?thesis
    by (auto simp: SbReplace sb_replace_def sb_order_Inr Let_def intro: unchanged moved amend_steps
        split: sum.splits)
next
  case (SbFill e x i q p fee)
  assume "sb_good k c"
  then show ?thesis
    by (auto simp: SbFill sb_fill_def sb_order_Inr Let_def intro: unchanged moved fill_steps
        split: sum.splits)
qed

interpretation sandbox: order_store FillsOnly sb_orders sb_perform sb_good
  by unfold_locales
    (blast dest: book_change_advances [OF sb_perform_change] book_change_enters [OF sb_perform_change])+

section \<open>The event log of the sandbox\<close>

text \<open>What a call does to the log: nothing, or one event about an order of the book.\<close>

definition is_fill :: "broker_order_event \<Rightarrow> bool" where
  "is_fill e \<longleftrightarrow> boe_event_type e = ''FILL''"

definition event_fill_id :: "broker_order_event \<Rightarrow> string" where
  "event_fill_id e = dict_get_or (boe_details e) ''external_fill_id'' []"

definition logged :: "sandbox \<Rightarrow> broker_order_event \<Rightarrow> sandbox \<Rightarrow> bool" where
  "logged s e t \<longleftrightarrow>
     sb_events t = sb_events s @ [e] \<and> boe_sequence e = int (length (sb_events s)) + 1 \<and>
     boe_external_event_id e = ''sandbox:'' @ nat_str (length (sb_events s) + 1) \<and>
     (\<exists>o1. sb_orders t = dict_set (boe_client_intent_id e) o1 (sb_orders s) \<and> boe_status e = po_status o1 \<and>
        intent_id_of o1 = boe_client_intent_id e) \<and>
     sb_fill_ids t = sb_fill_ids s @ (if is_fill e then [event_fill_id e] else []) \<and>
     (is_fill e \<longrightarrow> event_fill_id e \<notin> set (sb_fill_ids s))"

definition keyed :: "order_book \<Rightarrow> bool" where
  "keyed b \<longleftrightarrow> (\<forall>i o1. dict_get b i = Some o1 \<longrightarrow> intent_id_of o1 = i)"

lemma logged_sb_event:
  assumes "sb_orders s1 = dict_set (intent_id_of o1) o1 (sb_orders s)" "sb_events s1 = sb_events s"
    and "ty = ''FILL'' \<Longrightarrow> sb_fill_ids s1 = sb_fill_ids s @ [dict_get_or d ''external_fill_id'' []] \<and>
      dict_get_or d ''external_fill_id'' [] \<notin> set (sb_fill_ids s)"
    and "ty \<noteq> ''FILL'' \<Longrightarrow> sb_fill_ids s1 = sb_fill_ids s"
  shows "\<exists>v. logged s v (sb_event e o1 ty d s1)"
proof -
  define v where "v = \<lparr>boe_sequence = int (length (sb_events s) + 1), boe_event_id = ee_event_id e,
      boe_client_intent_id = intent_id_of o1, boe_status = po_status o1, boe_event_type = ty,
      boe_occurred_at = ee_now e, boe_external_event_id = ''sandbox:'' @ nat_str (length (sb_events s) + 1),
      boe_details = d\<rparr>"
  have "sb_events (sb_event e o1 ty d s1) = sb_events s @ [v]"
    using assms(2) by (simp add: sb_event_def v_def Let_def)
  then have "logged s v (sb_event e o1 ty d s1)"
    using assms by (cases "ty = ''FILL''") (auto simp: logged_def v_def is_fill_def event_fill_id_def)
  then show ?thesis by blast
qed

text \<open>A call changes nothing, or performs one of the four steps and logs it.\<close>

lemma sb_perform_cases:
  obtains (same) "sb_perform c s = s"
  | (submit) e o1 d where "dict_get (sb_orders s) (intent_id_of o1) = None" "po_status o1 = ACKNOWLEDGED"
      "sb_perform c s = sb_event e o1 ''ORDER_ACKNOWLEDGED'' d (sb_put (intent_id_of o1) o1 s)"
  | (cancel) e i o1 o2 where "dict_get (sb_orders s) i = Some o1" "withdraw o1 = Inr o2"
      "sb_perform c s = sb_event e o2 ''ORDER_CANCELLED'' [] (sb_put i o2 s)"
  | (replace) e i o1 q p where "dict_get (sb_orders s) i = Some o1" "amendable o1 q p"
      "sb_perform c s = sb_event e (amend_order o1 q p) ''ORDER_REPLACED''
         [(''quantity'', dec_str q), (''limit_price'', dec_str p)] (sb_put i (amend_order o1 q p) s)"
  | (fill) e x i o1 o2 q p fee s1 where "dict_get (sb_orders s) i = Some o1" "order_fill o1 q p = Inr o2"
      "x \<notin> set (sb_fill_ids s)" "\<not> blank x"
      "s1 = (sb_put i o2 (settle_fill (po_intent o1) q p fee s))\<lparr>sb_fill_ids := sb_fill_ids s @ [x]\<rparr>"
      "sb_perform c s = sb_event e o2 ''FILL'' [(''external_fill_id'', x), (''quantity'', dec_str q),
         (''price'', dec_str p), (''fee'', dec_str fee)] s1"
proof (cases "sb_perform c s = s")
  case True
  then show ?thesis by (rule same)
next
  case False
  show ?thesis
  proof (cases c)
    case (SbSubmit e o1)
    let ?o = "o1\<lparr>po_status := ACKNOWLEDGED\<rparr>"
    show ?thesis
      using False submit [of ?o e "[(''mode'', mode_value (bc_mode (sb_configuration s)))]"]
      by (auto simp: SbSubmit sb_submit_def acknowledge_approved split: if_splits)
  next
    case (SbCancel e i)
    then obtain o1 o2 where o: "dict_get (sb_orders s) i = Some o1" "withdraw o1 = Inr o2"
      using False by (auto simp: sb_cancel_def sb_order_Inr split: sum.splits)
    then show ?thesis using cancel [OF o, of e] by (simp add: SbCancel sb_cancel_def sb_order_def)
  next
    case (SbReplace e i q p)
    then obtain o1 where o: "dict_get (sb_orders s) i = Some o1" "amendable o1 q p"
      using False by (auto simp: sb_replace_def sb_order_Inr split: sum.splits if_splits)
    then show ?thesis using replace [OF o, of e] by (simp add: SbReplace sb_replace_def sb_order_def Let_def)
  next
    case (SbFill e x i q p fee)
    then obtain o1 o2 where o: "dict_get (sb_orders s) i = Some o1" "order_fill o1 q p = Inr o2"
      "\<not> (blank x \<or> fee < 0 \<or> x \<in> set (sb_fill_ids s))"
      using False by (auto simp: sb_fill_def sb_order_Inr split: sum.splits if_splits)
    then have x: "x \<notin> set (sb_fill_ids s)" "\<not> blank x" by simp_all
    show ?thesis
      by (rule fill [OF o(1,2) x refl, of e fee])
         (unfold SbFill sb_perform.simps sb_fill_def sb_order_def Let_def, use o in simp)
  qed
qed

lemma sb_perform_logged:
  assumes "keyed (sb_orders s)"
  shows "sb_perform c s = s \<or> (\<exists>v. logged s v (sb_perform c s))"
proof (cases c s rule: sb_perform_cases)
  case same
  then show ?thesis by simp
next
  case (submit e o1 d)
  then show ?thesis
    using logged_sb_event [of "sb_put (intent_id_of o1) o1 s" o1 s "''ORDER_ACKNOWLEDGED''"] by simp
next
  case (cancel e i o1 o2)
  have "intent_id_of o2 = i" using cancel(1,2) assms by (auto simp: keyed_def withdraw_iff)
  then show ?thesis
    using logged_sb_event [of "sb_put i o2 s" o2 s "''ORDER_CANCELLED''"] cancel(3) by simp
next
  case (replace e i o1 q p)
  let ?o = "amend_order o1 q p"
  have "intent_id_of ?o = i" using replace(1) assms by (auto simp: keyed_def amend_order_def)
  then show ?thesis
    using logged_sb_event [of "sb_put i ?o s" ?o s "''ORDER_REPLACED''"] replace(3) by simp
next
  case (fill e x i o1 o2 q p fee s1)
  have "intent_id_of o2 = i" using fill(1) assms order_fill_ok(5) [OF fill(2)] by (auto simp: keyed_def)
  then show ?thesis
    unfolding fill(6) using fill(3)
    by (intro disjI2 logged_sb_event) (simp_all add: fill(5) dict_get_or_def)
qed

definition log_inv :: "sandbox \<Rightarrow> bool" where
  "log_inv s \<longleftrightarrow>
     map boe_sequence (sb_events s) = map (\<lambda>n. int n + 1) [0..<length (sb_events s)] \<and>
     distinct (sb_fill_ids s) \<and> map event_fill_id (filter is_fill (sb_events s)) = sb_fill_ids s \<and>
     keyed (sb_orders s) \<and>
     (\<forall>i. dict_get (sb_orders s) i = None \<longleftrightarrow> (\<forall>e \<in> set (sb_events s). boe_client_intent_id e \<noteq> i)) \<and>
     (\<forall>i o1. dict_get (sb_orders s) i = Some o1 \<longrightarrow>
        po_status o1 = boe_status (last (filter (\<lambda>e. boe_client_intent_id e = i) (sb_events s))))"

lemma logged_inv: "logged s e t \<Longrightarrow> log_inv s \<Longrightarrow> log_inv t"
  by (auto simp: logged_def log_inv_def dict_simps keyed_def split: if_splits)

lemma sb_perform_log_inv: "log_inv s \<Longrightarrow> log_inv (sb_perform c s)"
  using sb_perform_logged [of s c] logged_inv [of s _ "sb_perform c s"]
  by (auto simp: log_inv_def)

lemma new_sandbox_log_inv: "new_sandbox cfg cash = Inr s \<Longrightarrow> log_inv s"
  by (auto simp: new_sandbox_def log_inv_def bind_result_Inr_iff keyed_def)

lemma sb_run_log_inv: "log_inv s \<Longrightarrow> log_inv (fold sb_perform cs s)"
  by (induction cs arbitrary: s) (auto intro: sb_perform_log_inv)

lemma numbered_filter:
  "map boe_sequence es = map (\<lambda>n. int n + 1) [m..<m + length es] \<Longrightarrow> m \<le> k \<Longrightarrow>
   filter (\<lambda>e. int k < boe_sequence e) es = drop (k - m) es"
proof (induction es arbitrary: m)
  case Nil
  then show ?case by simp
next
  case (Cons e es)
  have e: "boe_sequence e = int m + 1" and es: "map boe_sequence es = map (\<lambda>n. int n + 1) [Suc m..<Suc m + length es]"
    using Cons.prems(1) by (simp_all add: upt_rec [of m] del: upt_Suc)
  show ?case
  proof (cases "m = k")
    case True
    have "\<forall>x \<in> set es. int k < boe_sequence x"
    proof
      fix x assume "x \<in> set es"
      then have "boe_sequence x \<in> set (map boe_sequence es)" by simp
      then show "int k < boe_sequence x" unfolding es using True by auto
    qed
    then show ?thesis using True e by (simp add: filter_id_conv)
  next
    case False
    then show ?thesis using Cons.IH [OF es] Cons.prems(2) e by (simp add: Suc_diff_le drop_Cons' )
  qed
qed

section \<open>Replaying the account\<close>

definition account_of :: "sandbox \<Rightarrow> cash_balance \<times> (string, position) dict \<times> decimal \<times> decimal" where
  "account_of s = (sb_cash s, sb_positions s, sb_realized_pnl s, sb_fees s)"

text \<open>An event's amounts, read back from the texts of its details.\<close>

definition event_amount :: "broker_order_event \<Rightarrow> string \<Rightarrow> decimal" where
  "event_amount e key =
     (case dict_get (boe_details e) key of
        Some t \<Rightarrow> (case dec_parse t of Some (Finite d) \<Rightarrow> d | _ \<Rightarrow> Dec 0 0)
      | None \<Rightarrow> Dec 0 0)"

definition replay_event :: "order_book \<Rightarrow> broker_order_event \<Rightarrow> sandbox \<Rightarrow> sandbox" where
  "replay_event b e s =
     (if is_fill e
      then case dict_get b (boe_client_intent_id e) of
          Some o1 \<Rightarrow> settle_fill (po_intent o1) (event_amount e ''quantity'') (event_amount e ''price'')
                       (event_amount e ''fee'') s
        | None \<Rightarrow> s
      else s)"

lemma settle_congr:
  assumes "account_of s = account_of t" "oi_side i = oi_side j" "oi_instrument_id i = oi_instrument_id j"
  shows "account_of (settle_fill i q p fee s) = account_of (settle_fill j q p fee t)"
proof -
  have eq: "sb_cash s = sb_cash t" "sb_positions s = sb_positions t" "sb_realized_pnl s = sb_realized_pnl t"
    "sb_fees s = sb_fees t" using assms(1) by (simp_all add: account_of_def)
  show ?thesis
    unfolding settle_fill_def Let_def eq assms(2,3) account_of_def by simp
qed

definition same_identity :: "order_book \<Rightarrow> order_book \<Rightarrow> bool" where
  "same_identity b b' \<longleftrightarrow>
     (\<forall>i o1. dict_get b i = Some o1 \<longrightarrow> (\<exists>o2. dict_get b' i = Some o2 \<and>
        oi_side (po_intent o2) = oi_side (po_intent o1) \<and>
        oi_instrument_id (po_intent o2) = oi_instrument_id (po_intent o1)))"

lemma replay_congr:
  assumes "account_of s = account_of t" "same_identity b b'" "dict_get b (boe_client_intent_id e) \<noteq> None"
  shows "account_of (replay_event b e s) = account_of (replay_event b' e t)"
proof -
  obtain o1 where o1: "dict_get b (boe_client_intent_id e) = Some o1" using assms(3) by auto
  obtain o2 where o2: "dict_get b' (boe_client_intent_id e) = Some o2"
    "oi_side (po_intent o2) = oi_side (po_intent o1)"
    "oi_instrument_id (po_intent o2) = oi_instrument_id (po_intent o1)"
    using assms(2) o1 unfolding same_identity_def by metis
  show ?thesis using assms(1) o1 o2 by (auto simp: replay_event_def intro: settle_congr)
qed

lemma replay_run_congr:
  "account_of s = account_of t \<Longrightarrow> same_identity b b' \<Longrightarrow>
   \<forall>e \<in> set es. dict_get b (boe_client_intent_id e) \<noteq> None \<Longrightarrow>
   account_of (fold (replay_event b) es s) = account_of (fold (replay_event b') es t)"
  proof (induction es arbitrary: s t)
  case (Cons e es)
  have "account_of (replay_event b e s) = account_of (replay_event b' e t)"
    using Cons.prems by (intro replay_congr) auto
  then show ?case using Cons.IH Cons.prems by simp
qed simp

definition replayed :: "sandbox \<Rightarrow> sandbox \<Rightarrow> bool" where
  "replayed s0 s \<longleftrightarrow> account_of s = account_of (fold (replay_event (sb_orders s)) (sb_events s) s0)"

lemma identity_set:
  "dict_get b i = Some o1 \<Longrightarrow> oi_side (po_intent o2) = oi_side (po_intent o1) \<Longrightarrow>
   oi_instrument_id (po_intent o2) = oi_instrument_id (po_intent o1) \<Longrightarrow> same_identity b (dict_set i o2 b)"
  by (auto simp: same_identity_def dict_simps)

lemma identity_new: "dict_get b i = None \<Longrightarrow> same_identity b (dict_set i o2 b)"
  by (auto simp: same_identity_def dict_simps)

lemma account_frame [simp]:
  "account_of (sb_event e o1 t d s) = account_of s" "account_of (sb_put i o1 s) = account_of s"
  "account_of (s\<lparr>sb_fill_ids := xs\<rparr>) = account_of s"
  by (simp_all add: account_of_def sb_event_def sb_put_def Let_def)

lemma replayed_extend:
  assumes "replayed s0 s" "log_inv s" "same_identity (sb_orders s) b"
  shows "account_of s = account_of (fold (replay_event b) (sb_events s) s0)"
proof -
  have "\<forall>e \<in> set (sb_events s). dict_get (sb_orders s) (boe_client_intent_id e) \<noteq> None"
    using assms(2) by (auto simp: log_inv_def)
  then show ?thesis using assms(1) replay_run_congr [OF refl assms(3)] by (simp add: replayed_def)
qed

lemma sb_event_events:
  "sb_events s1 = es \<Longrightarrow> \<exists>v. sb_events (sb_event e o1 t d s1) = es @ [v] \<and> boe_event_type v = t \<and>
     boe_details v = d \<and> boe_client_intent_id v = intent_id_of o1"
  by (simp add: sb_event_def Let_def)

text \<open>An event that is no fill leaves the account as it was.\<close>

lemma replayed_silent:
  assumes "replayed s0 s" "log_inv s" "t \<noteq> ''FILL''" "same_identity (sb_orders s) (sb_orders s1)"
    and "sb_events s1 = sb_events s" "account_of s1 = account_of s"
  shows "replayed s0 (sb_event e o1 t d s1)"
proof -
  obtain v where v: "sb_events (sb_event e o1 t d s1) = sb_events s @ [v]" "boe_event_type v = t"
    using sb_event_events [OF assms(5)] by blast
  show ?thesis
    unfolding replayed_def v(1)
    using replayed_extend [OF assms(1,2,4)] assms(3,6) v(2) by (simp add: replay_event_def is_fill_def)
qed

lemma sb_perform_replayed:
  assumes "replayed s0 s" "log_inv s"
  shows "replayed s0 (sb_perform c s)"
proof (cases c s rule: sb_perform_cases)
  case same
  then show ?thesis using assms by simp
next
  case (submit e o1 d)
  show ?thesis unfolding submit(3)
    by (rule replayed_silent [OF assms]) (use submit(1) identity_new in auto)
next
  case (cancel e i o1 o2)
  show ?thesis unfolding cancel(3)
    by (rule replayed_silent [OF assms]) (use cancel(1,2) identity_set in \<open>auto simp: withdraw_iff\<close>)
next
  case (replace e i o1 q p)
  show ?thesis unfolding replace(3)
    by (rule replayed_silent [OF assms]) (use replace(1) identity_set in \<open>auto simp: amend_order_def\<close>)
next
  case (fill e x i o1 o2 q p fee s1)
  let ?t = "sb_perform c s"
  have id: "po_intent o2 = po_intent o1" by (rule order_fill_ok(5) [OF fill(2)])
  have i: "intent_id_of o2 = i" using assms(2) fill(1) id by (auto simp: log_inv_def keyed_def)
  have ob: "sb_orders ?t = dict_set i o2 (sb_orders s)" unfolding fill(5,6) by simp
  have ev: "sb_events s1 = sb_events s" by (simp add: fill(5))
  let ?d = "[(''external_fill_id'', x), (''quantity'', dec_str q), (''price'', dec_str p), (''fee'', dec_str fee)]"
  obtain v where w: "sb_events ?t = sb_events s @ [v]" "boe_event_type v = ''FILL''" "boe_details v = ?d"
    "boe_client_intent_id v = intent_id_of o2"
    using sb_event_events [OF ev, of e o2 "''FILL''" ?d] unfolding fill(6) by blast
  have v: "sb_events ?t = sb_events s @ [v]" "is_fill v" "boe_client_intent_id v = i"
    "event_amount v ''quantity'' = q" "event_amount v ''price'' = p" "event_amount v ''fee'' = fee"
    using w by (simp_all add: is_fill_def event_amount_def i)
  have same: "same_identity (sb_orders s) (sb_orders ?t)"
    unfolding ob using fill(1) id by (intro identity_set) auto
  have "account_of ?t = account_of (settle_fill (po_intent o1) q p fee s)"
    unfolding fill(5,6) by simp
  also have "\<dots> = account_of (settle_fill (po_intent o1) q p fee (fold (replay_event (sb_orders ?t)) (sb_events s) s0))"
    by (rule settle_congr [OF replayed_extend [OF assms same] refl refl])
  finally show ?thesis
    unfolding replayed_def v(1) using v(2-6) by (simp add: replay_event_def ob dict_simps id)
qed

section \<open>Properties\<close>

definition sample_configuration :: broker_configuration where
  "sample_configuration = \<lparr>bc_broker_name = ''sandbox'', bc_mode = SANDBOX_PAPER, bc_account_id = ''acc'',
     bc_credential_reference = None\<rparr>"

definition sample_sandbox :: sandbox where
  "sample_sandbox = \<lparr>sb_configuration = sample_configuration, sb_cash = mk_cash ''USD'' (Dec 1000 0),
     sb_orders = [], sb_positions = [], sb_events = [], sb_fill_ids = [], sb_realized_pnl = Dec 0 0,
     sb_fees = Dec 0 0\<rparr>"

definition sample_env :: "nat \<Rightarrow> event_env" where
  "sample_env n = \<lparr>ee_event_id = n, ee_now = Aware 0 0\<rparr>"

definition sample_approved :: paper_order where
  "sample_approved = (new_order sample_intent)\<lparr>po_status := APPROVED\<rparr>"

definition sample_calls :: "sandbox_call list" where
  "sample_calls = [SbSubmit (sample_env 1) sample_approved,
     SbFill (sample_env 2) ''fill-1'' 1 (Dec 10 0) (Dec 101 0) (Dec 1 0)]"

lemma new_sample_sandbox: "new_sandbox sample_configuration (mk_cash ''USD'' (Dec 1000 0)) = Inr sample_sandbox"
  by (simp add: new_sandbox_def validate_configuration_def sample_configuration_def sample_sandbox_def
      blank_def strip_def is_space_def)

lemma sample_calls_good: "\<forall>c \<in> set sample_calls. sb_good 0 c"
  by (auto simp: sample_calls_def sample_approved_def new_order_def sample_intent_def order_sound_def
      grid_quantity_def on_grid_def prec_def)

definition sample_filled :: paper_order where
  "sample_filled = sample_approved\<lparr>po_status := FILLED, po_filled_quantity := Dec 10 0,
     po_average_fill_price := Some (Dec 101 0)\<rparr>"

lemma sample_filled:
  "order_fill (sample_approved\<lparr>po_status := ACKNOWLEDGED\<rparr>) (Dec 10 0) (Dec 101 0) = Inr sample_filled"
  by (simp add: order_fill_def sample_approved_def sample_filled_def new_order_def sample_intent_def
      remaining_quantity_def dec_eval) (simp add: Let_def)

lemma sb_submit_orders:
  assumes "dict_get (sb_orders s) (intent_id_of o1) = None" "po_status o1 = APPROVED"
  shows "sb_orders (snd (sb_submit e o1 s)) =
      dict_set (intent_id_of o1) (o1\<lparr>po_status := ACKNOWLEDGED\<rparr>) (sb_orders s)"
    "sb_fill_ids (snd (sb_submit e o1 s)) = sb_fill_ids s"
  using assms by (simp_all add: sb_submit_def acknowledge_approved)

lemma sb_fill_orders:
  assumes "\<not> (blank x \<or> fee < 0 \<or> x \<in> set (sb_fill_ids s))" "dict_get (sb_orders s) i = Some o1"
    "order_fill o1 q p = Inr o2"
  shows "sb_orders (snd (sb_fill e x i q p fee s)) = dict_set i o2 (sb_orders s)"
  unfolding sb_fill_def sb_order_def Let_def using assms by simp

lemma sample_run_order:
  "dict_get (sb_orders (fold sb_perform sample_calls sample_sandbox)) 1 = Some sample_filled"
proof -
  let ?s = "sb_perform (SbSubmit (sample_env 1) sample_approved) sample_sandbox"
  have s: "sb_orders ?s = [(1, sample_approved\<lparr>po_status := ACKNOWLEDGED\<rparr>)]" "sb_fill_ids ?s = []"
    using sb_submit_orders [of sample_sandbox sample_approved "sample_env 1"]
    by (simp_all add: sample_sandbox_def sample_approved_def new_order_def sample_intent_def)
  have "\<not> (blank ''fill-1'' \<or> Dec 1 0 < 0 \<or> ''fill-1'' \<in> set (sb_fill_ids ?s))"
    unfolding s(2) by (simp add: blank_def strip_def is_space_def dlt_iff)
  from sb_fill_orders [OF this _ sample_filled, of 1] show ?thesis
    by (simp only: sample_calls_def fold.simps o_apply id_apply sb_perform.simps s) (simp add: s(1) [simplified])
qed

text \<open>
  The orders of a sandbox broker after any sequence of submissions, cancellations, replacements and
  fills (returning or raising), with quantities on one decimal grid: each is filed under its own intent,
  filled within its quantity with an average price exactly when filled, and full when it says so.
\<close>

theorem sandbox_orders_bounded:
  assumes "new_sandbox cfg cash = Inr s" "\<forall>c \<in> set cs. sb_good k c"
    and "dict_get (sb_orders (fold sb_perform cs s)) i = Some o1"
  shows "oi_intent_id (po_intent o1) = i \<and> 0 \<le> dval (po_filled_quantity o1) \<and>
    dval (po_filled_quantity o1) \<le> dval (oi_quantity (po_intent o1)) \<and>
    (po_average_fill_price o1 = None \<longleftrightarrow> dval (po_filled_quantity o1) = 0) \<and>
    (po_status o1 = FILLED \<longrightarrow> dval (po_filled_quantity o1) = dval (oi_quantity (po_intent o1)))"
proof -
  have "book_inv k (sb_orders s)" using assms(1) by (auto simp: new_sandbox_def bind_result_Inr_iff)
  from sandbox.run_inv [OF assms(2) this] show ?thesis
    using assms(3) by (auto simp: book_sound_def order_sound_def)
qed

theorem sandbox_orders_bounded_witness:
  "dval (Dec 10 0) \<le> dval (oi_quantity sample_intent) \<and>
   dict_get (sb_orders (fold sb_perform sample_calls sample_sandbox)) 1 \<noteq> None"
  using sandbox_orders_bounded [OF new_sample_sandbox sample_calls_good sample_run_order] sample_run_order
  by (simp add: sample_filled_def sample_approved_def new_order_def)

text \<open>
  No order of a sandbox broker is lost, its filled quantity never falls, and once filled or
  cancelled it never changes again, whatever is called.
\<close>

theorem sandbox_closed_orders_final:
  assumes "\<forall>c \<in> set cs. sb_good k c" "book_inv k (sb_orders s)" "dict_get (sb_orders s) i = Some o1"
  shows "\<exists>o2. dict_get (sb_orders (fold sb_perform cs s)) i = Some o2 \<and>
    dval (po_filled_quantity o1) \<le> dval (po_filled_quantity o2) \<and> (order_closed o1 \<longrightarrow> o2 = o1)"
  using sandbox.run_orders [OF assms] by blast

theorem sandbox_closed_orders_final_witness:
  "dict_get (sb_orders (fold sb_perform [SbCancel (sample_env 3) 1] (fold sb_perform sample_calls sample_sandbox))) 1 =
     dict_get (sb_orders (fold sb_perform sample_calls sample_sandbox)) 1"
proof -
  have g: "\<forall>c \<in> set [SbCancel (sample_env 3) 1]. sb_good 0 c" by simp
  have "book_inv 0 (sb_orders (fold sb_perform sample_calls sample_sandbox))"
    by (rule sandbox.run_inv [OF sample_calls_good]) (simp add: sample_sandbox_def)
  from sandbox_closed_orders_final [OF g this sample_run_order] show ?thesis
    by (simp only: sample_run_order) (auto simp: order_closed_def sample_filled_def)
qed

text \<open>
  Polling misses nothing and repeats nothing: from a new sandbox on, the events after sequence k
  are the log without its first k entries, the status of every order is the one its last event
  reports, and every accepted fill identifier occurs exactly once, in order, in the log.
\<close>

theorem sandbox_event_log:
  assumes "new_sandbox cfg cash = Inr s0" "s = fold sb_perform cs s0"
  shows "sb_order_events (int k) s = Inr (drop k (sb_events s)) \<and>
    (\<forall>i o1. dict_get (sb_orders s) i = Some o1 \<longrightarrow>
       po_status o1 = boe_status (last (filter (\<lambda>e. boe_client_intent_id e = i) (sb_events s)))) \<and>
    map event_fill_id (filter is_fill (sb_events s)) = sb_fill_ids s \<and> distinct (sb_fill_ids s)"
proof -
  have inv: "log_inv s" unfolding assms(2) by (rule sb_run_log_inv [OF new_sandbox_log_inv [OF assms(1)]])
  then have "filter (\<lambda>e. int k < boe_sequence e) (sb_events s) = drop (k - 0) (sb_events s)"
    by (intro numbered_filter) (auto simp: log_inv_def)
  then show ?thesis using inv by (simp add: sb_order_events_def log_inv_def)
qed

theorem sandbox_event_log_witness:
  "\<exists>es. sb_order_events 1 (fold sb_perform sample_calls sample_sandbox) = Inr es \<and>
     es = drop 1 (sb_events (fold sb_perform sample_calls sample_sandbox))"
  using sandbox_event_log [OF new_sample_sandbox refl, of 1 sample_calls] by simp

text \<open>
  C30: the account is a function of the event log: replaying the fills of the log, with the amounts
  read back from the texts of the events, rebuilds cash, positions, realised profit and fees.
\<close>

theorem sandbox_account_replay:
  assumes "new_sandbox cfg cash = Inr s0" "s = fold sb_perform cs s0"
  shows "account_of s = account_of (fold (replay_event (sb_orders s)) (sb_events s) s0)"
proof -
  have "log_inv (fold sb_perform cs t) \<and> replayed s0 (fold sb_perform cs t)"
    if "log_inv t" "replayed s0 t" for t
    using that by (induction cs arbitrary: t) (auto intro: sb_perform_log_inv sb_perform_replayed)
  moreover have "replayed s0 s0" using assms(1)
    by (auto simp: replayed_def new_sandbox_def bind_result_Inr_iff)
  ultimately show ?thesis
    using new_sandbox_log_inv [OF assms(1)] unfolding assms(2) replayed_def by blast
qed

theorem sandbox_account_replay_witness:
  "sb_fees (fold sb_perform sample_calls sample_sandbox) =
   sb_fees (fold (replay_event (sb_orders (fold sb_perform sample_calls sample_sandbox)))
     (sb_events (fold sb_perform sample_calls sample_sandbox)) sample_sandbox)"
  using sandbox_account_replay [OF new_sample_sandbox refl, of sample_calls] by (simp add: account_of_def)

text \<open>
  A fill that carries a position through zero keeps the average cost of the closed side: one unit
  bought at 100, three sold at 200, leaves two sold units whose cost is still 100.
\<close>

theorem flip_keeps_old_cost:
  "dict_get (sb_positions (settle_fill (sample_intent\<lparr>oi_side := SELL\<rparr>) (Dec 3 0) (Dec 200 0) (Dec 0 0)
     (settle_fill sample_intent (Dec 1 0) (Dec 100 0) (Dec 0 0) sample_sandbox))) ''BTC'' =
   Some (mk_position ''BTC'' (Dec (- 2) 0) (Dec 100 0))"
  by (simp add: settle_fill_def sample_intent_def sample_sandbox_def dict_simps dec_eval)

text \<open>
  Reconciliation with a broker's snapshot is complete exactly when currencies, cash, instruments,
  quantities and costs agree within tolerance, open orders and fills agree as sets, and realised profit
  and fees are within tolerance.
\<close>

theorem broker_reconciliation_complete_iff:
  assumes "union_order ids (ias_positions internal) (bas_positions snap)"
  shows "brr_complete (reconcile_broker_account ids internal snap tol) \<longleftrightarrow>
    cash_currency (ias_cash internal) = cash_currency (bas_cash snap) \<and>
    dabs (cash_amount (ias_cash internal) - cash_amount (bas_cash snap)) \<le> tol \<and>
    dom (map_of (ias_positions internal)) = dom (map_of (bas_positions snap)) \<and>
    (\<forall>i l r. map_of (ias_positions internal) i = Some l \<longrightarrow> map_of (bas_positions snap) i = Some r \<longrightarrow>
       deq (pos_quantity l) (pos_quantity r) \<and> dabs (pos_average_cost l - pos_average_cost r) \<le> tol) \<and>
    set (ias_open_intent_ids internal) = set (bas_open_intent_ids snap) \<and>
    set (ias_fill_ids internal) = set (bas_fill_ids snap) \<and>
    dabs (ias_realized_pnl internal - bas_realized_pnl snap) \<le> tol \<and>
    dabs (ias_fees internal - bas_fees snap) \<le> tol"
proof -
  let ?r = "reconcile ids (ias_positions internal) (bas_positions snap) (ias_cash internal) (bas_cash snap) tol"
  have "rr_complete ?r \<longleftrightarrow> rr_discrepancies ?r = []" by (simp add: reconcile_def Let_def)
  then have "brr_complete (reconcile_broker_account ids internal snap tol) \<longleftrightarrow>
      rr_complete ?r \<and> set (ias_open_intent_ids internal) = set (bas_open_intent_ids snap) \<and>
      set (ias_fill_ids internal) = set (bas_fill_ids snap) \<and>
      dabs (ias_realized_pnl internal - bas_realized_pnl snap) \<le> tol \<and>
      dabs (ias_fees internal - bas_fees snap) \<le> tol"
    by (simp add: reconcile_broker_account_def Let_def not_dlt)
  then show ?thesis unfolding reconcile_complete_parts [OF assms] by blast
qed

end
