(* ===== verification/PaperOms.thy ===== *)
theory PaperOms
  imports PaperBroker SqlOrder
begin

text \<open>
  \<open>paper_oms.py\<close>: the durable store of paper orders with its append-only events, fills and
  reconciliation records. Amounts and times are stored as texts that read back unchanged
  (\<open>DecimalText.dec_parse_str\<close>), so a row is modelled by the values its texts denote, and texts are
  equal exactly when the values are structurally equal.
\<close>

section \<open>Tables\<close>

record oms_event =
  ov_sequence :: nat
  ov_event_id :: uuid
  ov_intent_id :: uuid
  ov_event_type :: string
  ov_occurred_at :: datetime
  ov_payload :: "(string, string) dict"

record recorded_fill =
  rf_fill_id :: uuid
  rf_external_fill_id :: string
  rf_intent_id :: uuid
  rf_occurred_at :: datetime
  rf_quantity :: decimal
  rf_price :: decimal

record recorded_reconciliation =
  rec_run_id :: uuid
  rec_account_id :: string
  rec_source :: string
  rec_occurred_at :: datetime
  rec_complete :: bool
  rec_discrepancies :: "string list"

record recorded_account =
  ra_evidence_id :: uuid
  ra_reconciliation_id :: uuid
  ra_snapshot :: broker_account_snapshot
  ra_healthy :: bool
  ra_ingested_at :: datetime

record oms =
  om_orders :: order_book
  om_events :: "oms_event list"
  om_fills :: "recorded_fill list"
  om_runs :: "recorded_reconciliation list"
  om_accounts :: "recorded_account list"

definition empty_oms :: oms where
  "empty_oms = \<lparr>om_orders = [], om_events = [], om_fills = [], om_runs = [], om_accounts = []\<rparr>"

text \<open>The identifiers and clock readings an operation takes.\<close>

record oms_env =
  oe_event_id :: uuid
  oe_event_now :: datetime
  oe_row_id :: uuid
  oe_evidence_id :: uuid
  oe_now :: datetime

fun status_value :: "order_status \<Rightarrow> string" where
  "status_value PROPOSED = ''PROPOSED''"
| "status_value RISK_PENDING = ''RISK_PENDING''"
| "status_value RISK_REJECTED = ''RISK_REJECTED''"
| "status_value APPROVED = ''APPROVED''"
| "status_value SUBMISSION_PENDING = ''SUBMISSION_PENDING''"
| "status_value SUBMITTED = ''SUBMITTED''"
| "status_value ACKNOWLEDGED = ''ACKNOWLEDGED''"
| "status_value PARTIALLY_FILLED = ''PARTIALLY_FILLED''"
| "status_value FILLED = ''FILLED''"
| "status_value CANCEL_PENDING = ''CANCEL_PENDING''"
| "status_value CANCELLED = ''CANCELLED''"
| "status_value REJECTED = ''REJECTED''"
| "status_value EXPIRED = ''EXPIRED''"
| "status_value UNKNOWN = ''UNKNOWN''"
| "status_value RECONCILIATION_REQUIRED = ''RECONCILIATION_REQUIRED''"

abbreviation oms_error :: "string \<Rightarrow> py_exc" where
  "oms_error m \<equiv> Exc PaperOmsError m"

abbreviation unique_violation :: py_exc where
  "unique_violation \<equiv> Exc IntegrityError ''UNIQUE constraint failed''"

section \<open>Orders\<close>

definition oms_get :: "uuid \<Rightarrow> oms \<Rightarrow> paper_order result" where
  "oms_get i s =
     (case dict_get (om_orders s) i of
        None \<Rightarrow> Inl (oms_error ''unknown_order_intent'') | Some o1 \<Rightarrow> Inr o1)"

text \<open>
  Rows are never deleted, so \<open>AUTOINCREMENT\<close> numbers them from one. A repeated \<open>event_id\<close> raises; what
  the operation wrote before stays in the open transaction and is what the connection sees.
  The payloads list their keys as \<open>sort_keys\<close> does.
\<close>

definition oms_append_event :: "oms_env \<Rightarrow> uuid \<Rightarrow> string \<Rightarrow> (string, string) dict \<Rightarrow> (oms, unit) operation" where
  "oms_append_event e i event_type payload s =
     (if oe_event_id e \<in> ov_event_id ` set (om_events s) then (Inl unique_violation, s)
      else (Inr (), s\<lparr>om_events := om_events s @
        [\<lparr>ov_sequence = length (om_events s) + 1, ov_event_id = oe_event_id e, ov_intent_id = i,
          ov_event_type = event_type, ov_occurred_at = oe_event_now e, ov_payload = payload\<rparr>]\<rparr>))"

text \<open>The columns \<open>_write_order\<close> updates; the others keep what the insert wrote.\<close>

definition oms_write_order :: "paper_order \<Rightarrow> (oms, unit) operation" where
  "oms_write_order o1 s =
     (case dict_get (om_orders s) (intent_id_of o1) of
        None \<Rightarrow> (Inl (oms_error ''unknown_order_intent''), s)
      | Some row \<Rightarrow>
          (Inr (), s\<lparr>om_orders := dict_set (intent_id_of o1)
             ((amend_order row (oi_quantity (po_intent o1)) (oi_limit_price (po_intent o1)))
                \<lparr>po_status := po_status o1, po_filled_quantity := po_filled_quantity o1,
                 po_average_fill_price := po_average_fill_price o1\<rparr>) (om_orders s)\<rparr>))"

text \<open>Write an order, then its event, then return it: the tail of every update.\<close>

definition write_and_log ::
  "oms_env \<Rightarrow> paper_order \<Rightarrow> string \<Rightarrow> (string, string) dict \<Rightarrow> (oms, paper_order) operation" where
  "write_and_log e o1 event_type payload =
     bind_method (oms_write_order o1) (\<lambda>_.
     bind_method (oms_append_event e (intent_id_of o1) event_type payload) (\<lambda>_ s. (Inr o1, s)))"

definition oms_create :: "oms_env \<Rightarrow> paper_order \<Rightarrow> (oms, paper_order) operation" where
  "oms_create e o1 s =
     (if po_status o1 \<noteq> PROPOSED then (Inl (oms_error ''new_order_must_be_proposed''), s)
      else case oms_get (intent_id_of o1) s of
        Inr existing \<Rightarrow>
          if \<not> intent_eq (po_intent existing) (po_intent o1)
          then (Inl (oms_error ''idempotency_key_payload_conflict''), s)
          else (Inr existing, s)
      | Inl _ \<Rightarrow>
          bind_method
            (oms_append_event e (intent_id_of o1) ''ORDER_CREATED'' [(''status'', status_value (po_status o1))])
            (\<lambda>_ t. (Inr o1, t))
            (s\<lparr>om_orders := om_orders s @ [(intent_id_of o1, o1\<lparr>po_average_fill_price := None\<rparr>)]\<rparr>))"

definition oms_transition :: "oms_env \<Rightarrow> uuid \<Rightarrow> order_status \<Rightarrow> string \<Rightarrow> (oms, paper_order) operation" where
  "oms_transition e i next_status actor s =
     (case oms_get i s of
        Inl x \<Rightarrow> (Inl x, s)
      | Inr o1 \<Rightarrow>
          (case order_transition o1 next_status of
             Inl x \<Rightarrow> (Inl (oms_error ''invalid_order_transition''), s)
           | Inr updated \<Rightarrow>
               write_and_log e updated ''ORDER_STATUS_CHANGED''
                 [(''actor'', actor), (''from'', status_value (po_status o1)), (''to'', status_value next_status)] s))"

definition oms_ingest_fill ::
  "oms_env \<Rightarrow> string \<Rightarrow> uuid \<Rightarrow> decimal \<Rightarrow> decimal \<Rightarrow> datetime option \<Rightarrow> (oms, paper_order) operation" where
  "oms_ingest_fill e external_fill_id i quantity price occurred_at s =
     (let occurred = (case occurred_at of None \<Rightarrow> oe_now e | Some t \<Rightarrow> t)
      in if blank external_fill_id \<or> quantity \<le> 0 \<or> price \<le> 0 then (Inl (oms_error ''invalid_fill''), s)
      else if \<not> aware occurred then (Inl (oms_error ''fill_timestamp_must_be_timezone_aware''), s)
      else case find (\<lambda>f. rf_external_fill_id f = external_fill_id) (om_fills s) of
        Some f \<Rightarrow>
          if (rf_intent_id f, rf_quantity f, rf_price f) \<noteq> (i, quantity, price)
          then (Inl (oms_error ''external_fill_id_conflict''), s)
          else (oms_get i s, s)
      | None \<Rightarrow>
          (case oms_get i s of
             Inl x \<Rightarrow> (Inl x, s)
           | Inr o1 \<Rightarrow>
               (case order_fill o1 quantity price of
                  Inl x \<Rightarrow> (Inl (if is_value_error x then oms_error ''fill_rejected_by_order_state'' else x), s)
                | Inr updated \<Rightarrow>
                    if oe_row_id e \<in> rf_fill_id ` set (om_fills s) then (Inl unique_violation, s)
                    else write_and_log e updated ''FILL_INGESTED''
                      [(''external_fill_id'', external_fill_id), (''price'', dec_str price),
                       (''quantity'', dec_str quantity), (''status'', status_value (po_status updated))]
                      (s\<lparr>om_fills := om_fills s @
                         [\<lparr>rf_fill_id = oe_row_id e, rf_external_fill_id = external_fill_id, rf_intent_id = i,
                           rf_occurred_at = occurred, rf_quantity = quantity, rf_price = price\<rparr>]\<rparr>))))"

definition oms_cancel :: "oms_env \<Rightarrow> oms_env \<Rightarrow> uuid \<Rightarrow> string \<Rightarrow> (oms, paper_order) operation" where
  "oms_cancel e e' i actor =
     bind_method (oms_transition e i CANCEL_PENDING actor)
       (\<lambda>pending. oms_transition e' (intent_id_of pending) CANCELLED actor)"

definition oms_amend ::
  "oms_env \<Rightarrow> uuid \<Rightarrow> decimal \<Rightarrow> decimal \<Rightarrow> string \<Rightarrow> (oms, paper_order) operation" where
  "oms_amend e i quantity limit_price actor s =
     (case oms_get i s of
        Inl x \<Rightarrow> (Inl x, s)
      | Inr o1 \<Rightarrow>
          if \<not> amendable o1 quantity limit_price then (Inl (oms_error ''invalid_order_amendment''), s)
          else write_and_log e (amend_order o1 quantity limit_price) ''ORDER_AMENDED''
            [(''actor'', actor), (''limit_price'', dec_str limit_price),
             (''previous_limit_price'', dec_str (oi_limit_price (po_intent o1))),
             (''previous_quantity'', dec_str (oi_quantity (po_intent o1))),
             (''quantity'', dec_str quantity)] s)"

definition oms_events :: "uuid \<Rightarrow> oms \<Rightarrow> oms_event list" where
  "oms_events i s = filter (\<lambda>v. ov_intent_id v = i) (om_events s)"

text \<open>\<open>ORDER BY occurred_at, sequence\<close>, on the text of the time.\<close>

definition oms_fills :: "uuid \<Rightarrow> oms \<Rightarrow> recorded_fill list" where
  "oms_fills i s = sort_key (\<lambda>f. iso_key (rf_occurred_at f)) (filter (\<lambda>f. rf_intent_id f = i) (om_fills s))"

section \<open>Reconciliation records\<close>

definition oms_record_reconciliation ::
  "oms_env \<Rightarrow> string \<Rightarrow> string \<Rightarrow> reconciliation_result \<Rightarrow> datetime option \<Rightarrow> (oms, recorded_reconciliation) operation" where
  "oms_record_reconciliation e account_id source r occurred_at s =
     (let occurred = (case occurred_at of None \<Rightarrow> oe_now e | Some t \<Rightarrow> t)
      in if blank account_id \<or> blank source
      then (Inl (oms_error ''reconciliation_requires_account_and_source''), s)
      else if \<not> aware occurred
      then (Inl (oms_error ''reconciliation_timestamp_must_be_timezone_aware''), s)
      else
        let record_row = \<lparr>rec_run_id = oe_row_id e, rec_account_id = account_id, rec_source = source,
              rec_occurred_at = occurred, rec_complete = rr_complete r, rec_discrepancies = rr_discrepancies r\<rparr>
        in if oe_row_id e \<in> rec_run_id ` set (om_runs s) then (Inl unique_violation, s)
           else (Inr record_row, s\<lparr>om_runs := om_runs s @ [record_row]\<rparr>))"

text \<open>
  What the JSON text of a snapshot keeps: positions are stored under their key only, sorted by it.
\<close>

definition stored_snapshot :: "broker_account_snapshot \<Rightarrow> broker_account_snapshot" where
  "stored_snapshot snap =
     snap\<lparr>bas_positions := map (\<lambda>(k, v). (k, mk_position k (pos_quantity v) (pos_average_cost v)))
        (sort_key fst (bas_positions snap))\<rparr>"

text \<open>One transaction: a repeated identifier rolls both inserts back.\<close>

definition oms_record_account ::
  "oms_env \<Rightarrow> broker_account_snapshot \<Rightarrow> reconciliation_result \<Rightarrow> bool \<Rightarrow> datetime \<Rightarrow>
   (oms, recorded_reconciliation \<times> recorded_account option) operation" where
  "oms_record_account e snap r healthy ingested_at s =
     (if blank (bas_account_id snap) \<or> blank (bas_source snap) \<or> \<not> aware (bas_as_of snap) \<or>
         \<not> aware ingested_at \<or> instant ingested_at < instant (bas_as_of snap)
      then (Inl (oms_error ''invalid_reconciled_account_snapshot''), s)
      else
        let record_row = \<lparr>rec_run_id = oe_row_id e, rec_account_id = bas_account_id snap,
              rec_source = bas_source snap, rec_occurred_at = bas_as_of snap,
              rec_complete = rr_complete r, rec_discrepancies = rr_discrepancies r\<rparr>;
            evidence = \<lparr>ra_evidence_id = oe_evidence_id e, ra_reconciliation_id = oe_row_id e,
              ra_snapshot = snap, ra_healthy = healthy, ra_ingested_at = ingested_at\<rparr>
        in if oe_row_id e \<in> rec_run_id ` set (om_runs s) \<or>
              rr_complete r \<and> (oe_evidence_id e \<in> ra_evidence_id ` set (om_accounts s) \<or>
                oe_row_id e \<in> ra_reconciliation_id ` set (om_accounts s))
           then (Inl (oms_error ''reconciled_account_transaction_failed''), s)
           else
             let s1 = s\<lparr>om_runs := om_runs s @ [record_row]\<rparr>
             in if rr_complete r
                then (Inr (record_row, Some evidence),
                      s1\<lparr>om_accounts := om_accounts s1 @ [evidence\<lparr>ra_snapshot := stored_snapshot snap\<rparr>]\<rparr>)
                else (Inr (record_row, None), s1))"

definition account_visible :: "string \<Rightarrow> datetime \<Rightarrow> recorded_account \<Rightarrow> bool" where
  "account_visible account_id decision_at a \<longleftrightarrow>
     bas_account_id (ra_snapshot a) = account_id \<and> iso_le (ra_ingested_at a) decision_at \<and>
     iso_le (bas_as_of (ra_snapshot a)) decision_at"

definition account_key :: "recorded_account \<Rightarrow> (int \<times> int \<times> int) \<times> (int \<times> int \<times> int)" where
  "account_key a = (iso_key (bas_as_of (ra_snapshot a)), iso_key (ra_ingested_at a))"

definition visible_account :: "string \<Rightarrow> datetime \<Rightarrow> recorded_account list \<Rightarrow> recorded_account option" where
  "visible_account account_id decision_at rows =
     newest account_key (filter (account_visible account_id decision_at) rows)"

definition oms_latest_account :: "string \<Rightarrow> datetime \<Rightarrow> oms \<Rightarrow> recorded_account option result" where
  "oms_latest_account account_id decision_at s =
     (if \<not> aware decision_at
      then Inl (oms_error ''reconciled_account_decision_time_must_be_timezone_aware'')
      else Inr (visible_account account_id decision_at (om_accounts s)))"

definition oms_latest_reconciliation :: "string \<Rightarrow> oms \<Rightarrow> recorded_reconciliation option" where
  "oms_latest_reconciliation account_id s =
     newest (\<lambda>r. iso_key (rec_occurred_at r)) (filter (\<lambda>r. rec_account_id r = account_id) (om_runs s))"

definition oms_reconciliation :: "uuid \<Rightarrow> oms \<Rightarrow> recorded_reconciliation result" where
  "oms_reconciliation run_id s =
     (case find (\<lambda>r. rec_run_id r = run_id) (om_runs s) of
        None \<Rightarrow> Inl (oms_error ''unknown_reconciliation_run'') | Some r \<Rightarrow> Inr r)"

section \<open>The order management store is an order store\<close>

datatype oms_call =
    OmCreate oms_env paper_order
  | OmTransition oms_env uuid order_status string
  | OmFill oms_env string uuid decimal decimal "datetime option"
  | OmCancel oms_env oms_env uuid string
  | OmAmend oms_env uuid decimal decimal string
  | OmReconcile oms_env string string reconciliation_result "datetime option"
  | OmAccount oms_env broker_account_snapshot reconciliation_result bool datetime

fun oms_perform :: "oms_call \<Rightarrow> oms \<Rightarrow> oms" where
  "oms_perform (OmCreate e o1) s = snd (oms_create e o1 s)"
| "oms_perform (OmTransition e i n actor) s = snd (oms_transition e i n actor s)"
| "oms_perform (OmFill e x i q p t) s = snd (oms_ingest_fill e x i q p t s)"
| "oms_perform (OmCancel e e' i actor) s = snd (oms_cancel e e' i actor s)"
| "oms_perform (OmAmend e i q p actor) s = snd (oms_amend e i q p actor s)"
| "oms_perform (OmReconcile e a src r t) s = snd (oms_record_reconciliation e a src r t s)"
| "oms_perform (OmAccount e snap r h t) s = snd (oms_record_account e snap r h t s)"

text \<open>
  The discipline of a call: \<open>create\<close> stores whatever filled quantity the new order carries, on the grid one within its
  quantity, and none where only fills fill orders; then no call moves an order to \<open>FILLED\<close> either.
\<close>

fun oms_good :: "discipline \<Rightarrow> int \<Rightarrow> oms_call \<Rightarrow> bool" where
  "oms_good d k (OmCreate e o1) =
     (representable (dval (po_filled_quantity o1)) \<and> 0 \<le> dval (po_filled_quantity o1) \<and>
      (d \<noteq> AnyCalls \<longrightarrow>
         grid_quantity k (oi_quantity (po_intent o1)) \<and> on_grid k (dval (po_filled_quantity o1)) \<and>
         dval (po_filled_quantity o1) \<le> dval (oi_quantity (po_intent o1))) \<and>
      (d = FillsOnly \<longrightarrow> po_filled_quantity o1 = Dec 0 0))"
| "oms_good d k (OmTransition e i n actor) = (d = FillsOnly \<longrightarrow> n \<noteq> FILLED)"
| "oms_good d k (OmFill e x i q p t) = (d \<noteq> AnyCalls \<longrightarrow> on_grid k (dval q))"
| "oms_good d k (OmAmend e i q p actor) = (d \<noteq> AnyCalls \<longrightarrow> grid_quantity k q)"
| "oms_good d k _ = True"

definition row_update :: "paper_order \<Rightarrow> paper_order \<Rightarrow> paper_order" where
  "row_update row o1 =
     (amend_order row (oi_quantity (po_intent o1)) (oi_limit_price (po_intent o1)))
       \<lparr>po_status := po_status o1, po_filled_quantity := po_filled_quantity o1,
        po_average_fill_price := po_average_fill_price o1\<rparr>"

lemma row_update_same: "po_intent row = po_intent o1 \<Longrightarrow> row_update row o1 = o1"
  by (simp add: row_update_def amend_order_def)

lemma row_update_amended: "row_update row (amend_order row q p) = amend_order row q p"
  by (simp add: row_update_def amend_order_def)

lemma oms_get_Inr: "oms_get i s = Inr o1 \<longleftrightarrow> dict_get (om_orders s) i = Some o1"
  by (simp add: oms_get_def split: option.splits)

lemma append_event_frame [simp]:
  "om_orders (snd (oms_append_event e i t p s)) = om_orders s"
  "om_fills (snd (oms_append_event e i t p s)) = om_fills s"
  "om_accounts (snd (oms_append_event e i t p s)) = om_accounts s"
  "om_runs (snd (oms_append_event e i t p s)) = om_runs s"
  by (simp_all add: oms_append_event_def)

lemma snd_bind_return: "snd (bind_method m (\<lambda>_ s. (Inr x, s)) s) = snd (m s)"
  by (auto simp: bind_method_def split: prod.splits sum.splits)

lemma write_and_log_state:
  assumes "dict_get (om_orders s) (intent_id_of o1) = Some row" "row_update row o1 = o1"
  shows "snd (write_and_log e o1 t p s) =
    snd (oms_append_event e (intent_id_of o1) t p (s\<lparr>om_orders := dict_set (intent_id_of o1) o1 (om_orders s)\<rparr>))"
proof -
  have "oms_write_order o1 s = (Inr (), s\<lparr>om_orders := dict_set (intent_id_of o1) o1 (om_orders s)\<rparr>)"
    using assms by (simp add: oms_write_order_def row_update_def)
  then show ?thesis unfolding write_and_log_def by (simp add: bind_method_def [of "oms_write_order o1"] snd_bind_return)
qed

lemma write_and_log_result:
  assumes "dict_get (om_orders s) (intent_id_of o1) = Some row" "row_update row o1 = o1"
    and "oe_event_id e \<notin> ov_event_id ` set (om_events s)"
  shows "fst (write_and_log e o1 t p s) = Inr o1"
  using assms by (simp add: write_and_log_def oms_write_order_def row_update_def bind_method_def oms_append_event_def)

text \<open>A call leaves the orders and fills as they are, or makes one of five changes.\<close>

lemma oms_transition_state:
  assumes "dict_get (om_orders s) i = Some o1" "order_transition o1 n = Inr o2" "intent_id_of o1 = i"
  shows "om_orders (snd (oms_transition e i n actor s)) = dict_set i o2 (om_orders s)"
    "om_fills (snd (oms_transition e i n actor s)) = om_fills s"
proof -
  have w: "dict_get (om_orders s) (intent_id_of o2) = Some o1" "row_update o1 o2 = o2" "intent_id_of o2 = i"
    using assms by (auto simp: order_simps intro: row_update_same)
  show "om_orders (snd (oms_transition e i n actor s)) = dict_set i o2 (om_orders s)"
    "om_fills (snd (oms_transition e i n actor s)) = om_fills s"
    unfolding oms_transition_def using assms(1,2) w
    by (simp_all add: oms_get_def write_and_log_state [OF w(1,2)])
qed

lemma oms_transition_refused:
  assumes "\<nexists>o1 o2. dict_get (om_orders s) i = Some o1 \<and> order_transition o1 n = Inr o2"
  shows "snd (oms_transition e i n actor s) = s" "\<not> ok (fst (oms_transition e i n actor s))"
  using assms by (auto simp: oms_transition_def oms_get_Inr split: sum.splits)

text \<open>The change the call \<open>c\<close> makes to orders and fills; \<open>good\<close> says that the call was good.\<close>

inductive oms_change :: "discipline \<Rightarrow> int \<Rightarrow> bool \<Rightarrow> oms_call \<Rightarrow> oms \<Rightarrow> oms \<Rightarrow> bool"
  for d :: discipline and k :: int and good :: bool and c :: oms_call where
  none: "om_orders t = om_orders s \<Longrightarrow> om_fills t = om_fills s \<Longrightarrow> oms_change d k good c s t"
| created: "dict_get (om_orders s) (intent_id_of o1) = None \<Longrightarrow> c = OmCreate e o1 \<Longrightarrow>
    o2 = o1\<lparr>po_average_fill_price := None\<rparr> \<Longrightarrow> (good \<Longrightarrow> order_sound d k o2) \<Longrightarrow>
    om_orders t = om_orders s @ [(intent_id_of o1, o2)] \<Longrightarrow> om_fills t = om_fills s \<Longrightarrow> oms_change d k good c s t"
| moved: "dict_get (om_orders s) i = Some o1 \<Longrightarrow> (good \<Longrightarrow> order_moves d k o1 o2) \<Longrightarrow>
    po_filled_quantity o2 = po_filled_quantity o1 \<Longrightarrow> intent_id_of o2 = intent_id_of o1 \<Longrightarrow>
    om_orders t = dict_set i o2 (om_orders s) \<Longrightarrow> om_fills t = om_fills s \<Longrightarrow> oms_change d k good c s t"
| filled: "dict_get (om_orders s) i = Some o1 \<Longrightarrow> order_fill o1 (rf_quantity f) (rf_price f) = Inr o2 \<Longrightarrow>
    (good \<Longrightarrow> d \<noteq> AnyCalls \<Longrightarrow> on_grid k (dval (rf_quantity f))) \<Longrightarrow> rf_intent_id f = i \<Longrightarrow>
    rf_external_fill_id f \<notin> rf_external_fill_id ` set (om_fills s) \<Longrightarrow>
    om_orders t = dict_set i o2 (om_orders s) \<Longrightarrow> om_fills t = om_fills s @ [f] \<Longrightarrow> oms_change d k good c s t"

lemma transition_change:
  assumes "keyed (om_orders s)" "good \<Longrightarrow> d = FillsOnly \<Longrightarrow> n \<noteq> FILLED"
  shows "oms_change d k good c s (snd (oms_transition e i n actor s))"
proof (cases "\<exists>o1 o2. dict_get (om_orders s) i = Some o1 \<and> order_transition o1 n = Inr o2")
  case True
  then obtain o1 o2 where o: "dict_get (om_orders s) i = Some o1" "order_transition o1 n = Inr o2" by blast
  then have "intent_id_of o1 = i" using assms(1) by (simp add: keyed_def)
  note st = oms_transition_state [OF o this, of e actor]
  have "po_filled_quantity o2 = po_filled_quantity o1" using o(2) by (simp add: order_simps)
  moreover have "intent_id_of o2 = intent_id_of o1" using o(2) by (simp add: order_simps)
  moreover have "order_moves d k o1 o2" if good using step_transition [OF o(2) assms(2) [OF that]] by blast
  ultimately show ?thesis using moved [OF o(1) _ _ _ st] by blast
next
  case False
  then show ?thesis using oms_transition_refused(1) [OF False] by (simp add: none)
qed

lemma keyed_set: "keyed b \<Longrightarrow> intent_id_of o2 = i \<Longrightarrow> keyed (dict_set i o2 b)"
  by (auto simp: keyed_def dict_simps)

lemma cancel_change:
  assumes "keyed (om_orders s)"
  shows "oms_change d k good c s (snd (oms_cancel e e' i actor s))"
proof (cases "fst (oms_transition e i CANCEL_PENDING actor s)")
  case (Inl x)
  then have "snd (oms_cancel e e' i actor s) = snd (oms_transition e i CANCEL_PENDING actor s)"
    by (simp add: oms_cancel_def bind_method_fst)
  then show ?thesis using transition_change [OF assms] by simp
next
  case (Inr pending)
  let ?s1 = "snd (oms_transition e i CANCEL_PENDING actor s)"
  have c: "oms_cancel e e' i actor s = oms_transition e' (intent_id_of pending) CANCELLED actor ?s1"
    using Inr by (simp add: oms_cancel_def bind_method_fst)
  obtain o1 o2 where o: "dict_get (om_orders s) i = Some o1" "order_transition o1 CANCEL_PENDING = Inr o2"
    using Inr oms_transition_refused(2) [of s i CANCEL_PENDING e actor] by (auto simp: ok_iff)
  have id: "intent_id_of o1 = i" "intent_id_of o2 = i" using o assms by (auto simp: keyed_def order_simps)
  have "pending = o2"
    using Inr o by (auto simp: oms_transition_def oms_get_def write_and_log_def bind_method_def
        oms_write_order_def oms_append_event_def split: prod.splits sum.splits option.splits if_splits)
  then have p: "intent_id_of pending = i" using id by simp
  note st = oms_transition_state [OF o id(1), of e actor]
  let ?o3 = "o2\<lparr>po_status := CANCELLED\<rparr>"
  have o2: "dict_get (om_orders ?s1) i = Some o2" "order_transition o2 CANCELLED = Inr ?o3"
    using o by (auto simp: st dict_simps order_simps)
  note st2 = oms_transition_state [OF o2 id(2), of e' actor]
  have "order_move d k o1 o2" "order_move d k o2 ?o3"
    using o(2) o2(2) by (auto intro: step_transition)
  then have "order_moves d k o1 ?o3" by auto
  moreover have "po_filled_quantity ?o3 = po_filled_quantity o1" using o(2) by (simp add: order_simps)
  ultimately show ?thesis
    unfolding c p by (intro moved [where ?o2.0 = ?o3, OF o(1)]) (simp_all add: st2 st id)
qed

lemma fill_change:
  assumes "keyed (om_orders s)" "good \<Longrightarrow> d \<noteq> AnyCalls \<Longrightarrow> on_grid k (dval q)"
  shows "oms_change d k good c s (snd (oms_ingest_fill e x i q p t s))"
proof (cases "snd (oms_ingest_fill e x i q p t s) = s")
  case True
  then show ?thesis by (simp add: none)
next
  case False
  let ?t = "case t of None \<Rightarrow> oe_now e | Some t \<Rightarrow> t"
  let ?f = "\<lparr>rf_fill_id = oe_row_id e, rf_external_fill_id = x, rf_intent_id = i,
      rf_occurred_at = ?t, rf_quantity = q, rf_price = p\<rparr>"
  obtain o1 o2 where o: "dict_get (om_orders s) i = Some o1" "order_fill o1 q p = Inr o2"
      "find (\<lambda>f. rf_external_fill_id f = x) (om_fills s) = None" and
    st: "snd (oms_ingest_fill e x i q p t s) = snd (write_and_log e o2 ''FILL_INGESTED''
        [(''external_fill_id'', x), (''price'', dec_str p), (''quantity'', dec_str q),
         (''status'', status_value (po_status o2))] (s\<lparr>om_fills := om_fills s @ [?f]\<rparr>))"
    using False unfolding oms_ingest_fill_def Let_def
    by (auto simp: oms_get_Inr split: if_split_asm option.split_asm sum.split_asm)
  have id: "intent_id_of o1 = i" "po_intent o2 = po_intent o1"
    using o(1) assms(1) order_fill_ok(5) [OF o(2)] by (auto simp: keyed_def)
  have w: "dict_get (om_orders (s\<lparr>om_fills := om_fills s @ [?f]\<rparr>)) (intent_id_of o2) = Some o1"
    "row_update o1 o2 = o2"
    using o(1) id by (auto intro: row_update_same)
  have "x \<notin> rf_external_fill_id ` set (om_fills s)" using o(3) by (auto simp: find_None_iff)
  then show ?thesis
    unfolding st write_and_log_state [OF w]
    by (intro filled [OF o(1), of ?f o2]) (use o(2) assms(2) id in auto)
qed

lemma create_change:
  assumes "good \<Longrightarrow> oms_good d k (OmCreate e o1)" "c = OmCreate e o1"
  shows "oms_change d k good c s (snd (oms_create e o1 s))"
proof (cases "snd (oms_create e o1 s) = s")
  case True
  then show ?thesis by (simp add: none)
next
  case False
  let ?o = "o1\<lparr>po_average_fill_price := None\<rparr>"
  have n: "po_status o1 = PROPOSED" "dict_get (om_orders s) (intent_id_of o1) = None"
    using False by (auto simp: oms_create_def oms_get_def split: if_splits option.splits)
  have "order_sound d k ?o" if good using assms(1) [OF that] n(1) by (simp add: order_sound_def)
  moreover have "om_orders (snd (oms_create e o1 s)) = om_orders s @ [(intent_id_of ?o, ?o)]"
      "om_fills (snd (oms_create e o1 s)) = om_fills s"
    using n by (simp_all add: oms_create_def oms_get_def bind_method_def oms_append_event_def)
  ultimately show ?thesis using n(2) assms(2) by (intro created [of s o1 c e ?o]) simp_all
qed

lemma amend_change:
  assumes "keyed (om_orders s)" "good \<Longrightarrow> d \<noteq> AnyCalls \<Longrightarrow> grid_quantity k q"
  shows "oms_change d k good c s (snd (oms_amend e i q p actor s))"
proof (cases "snd (oms_amend e i q p actor s) = s")
  case True
  then show ?thesis by (simp add: none)
next
  case False
  then obtain o1 pl where o: "dict_get (om_orders s) i = Some o1" "amendable o1 q p" and
    st: "snd (oms_amend e i q p actor s) = snd (write_and_log e (amend_order o1 q p) ''ORDER_AMENDED'' pl s)"
    unfolding oms_amend_def by (auto simp: oms_get_Inr split: sum.splits if_splits)
  have id: "intent_id_of (amend_order o1 q p) = i" using o(1) assms(1) by (auto simp: keyed_def amend_order_def)
  then have w: "dict_get (om_orders s) (intent_id_of (amend_order o1 q p)) = Some o1" using o(1) by simp
  have "po_filled_quantity (amend_order o1 q p) = po_filled_quantity o1" by (simp add: amend_order_def)
  moreover have "order_moves d k o1 (amend_order o1 q p)" if good
    using step_amend [OF o(2) assms(2) [OF that]] by blast
  moreover have "intent_id_of (amend_order o1 q p) = intent_id_of o1" by (simp add: amend_order_def)
  ultimately show ?thesis
    unfolding st write_and_log_state [OF w row_update_amended]
    by (intro moved [OF o(1)]) (simp_all add: id)
qed

lemma oms_perform_change:
  assumes "good \<Longrightarrow> oms_good d k c" "keyed (om_orders s)"
  shows "oms_change d k good c s (oms_perform c s)"
proof (cases c)
  case (OmCreate e o1)
  then show ?thesis using create_change assms(1) by auto
next
  case (OmTransition e i n actor)
  then show ?thesis using transition_change assms by auto
next
  case (OmFill e x i q p t)
  then show ?thesis using fill_change assms by auto
next
  case (OmCancel e e' i actor)
  then show ?thesis using cancel_change assms by auto
next
  case (OmAmend e i q p actor)
  then show ?thesis using amend_change assms by auto
next
  case (OmReconcile e a src r t)
  then show ?thesis by (auto simp: oms_record_reconciliation_def Let_def intro: none)
next
  case (OmAccount e snap r h t)
  then show ?thesis by (auto simp: oms_record_account_def Let_def intro: none)
qed

lemma book_inv_keyed: "book_sound d k b \<Longrightarrow> keyed b"
  by (simp add: book_sound_def keyed_def)

lemma oms_change_advances:
  "oms_change d k True c s t \<Longrightarrow> dict_get (om_orders s) i = Some o1 \<Longrightarrow>
   \<exists>o2. dict_get (om_orders t) i = Some o2 \<and> order_moves d k o1 o2"
  by (induction rule: oms_change.induct) (auto simp: dict_simps map_add_Some_iff intro: fill_moves)

lemma oms_change_enters:
  "oms_change d k True c s t \<Longrightarrow> dict_get (om_orders s) i = None \<Longrightarrow> dict_get (om_orders t) i = Some o2 \<Longrightarrow>
   order_sound d k o2 \<and> oi_intent_id (po_intent o2) = i"
  by (induction rule: oms_change.induct) (auto simp: dict_simps map_add_def split: if_splits)

lemma oms_perform_advances:
  "oms_good d k c \<Longrightarrow> book_sound d k (om_orders s) \<Longrightarrow> dict_get (om_orders s) i = Some o1 \<Longrightarrow>
   \<exists>o2. dict_get (om_orders (oms_perform c s)) i = Some o2 \<and> order_moves d k o1 o2"
  by (rule oms_change_advances [OF oms_perform_change [OF _ book_inv_keyed]])

lemma oms_perform_enters:
  "oms_good d k c \<Longrightarrow> book_sound d k (om_orders s) \<Longrightarrow> dict_get (om_orders s) i = None \<Longrightarrow>
   dict_get (om_orders (oms_perform c s)) i = Some o2 \<Longrightarrow> order_sound d k o2 \<and> oi_intent_id (po_intent o2) = i"
  by (rule oms_change_enters [OF oms_perform_change [OF _ book_inv_keyed]])

interpretation oms: order_store d om_orders oms_perform "oms_good d" for d
  by unfold_locales (erule (2) oms_perform_advances, erule (3) oms_perform_enters)

section \<open>Fills and their orders\<close>

text \<open>
  The filled quantity of every order is what it entered with (\<open>entered i x\<close> says that the order \<open>i\<close> was created
  with \<open>x\<close>) and its recorded fills, added up in the order of their arrival; no external identifier is recorded twice.
\<close>

definition fills_of :: "uuid \<Rightarrow> oms \<Rightarrow> recorded_fill list" where
  "fills_of i s = filter (\<lambda>f. rf_intent_id f = i) (om_fills s)"

definition filled_from :: "decimal \<Rightarrow> recorded_fill list \<Rightarrow> decimal" where
  "filled_from x fs = foldl (+) x (map rf_quantity fs)"

definition fills_inv :: "(uuid \<Rightarrow> decimal \<Rightarrow> bool) \<Rightarrow> oms \<Rightarrow> bool" where
  "fills_inv entered s \<longleftrightarrow>
     keyed (om_orders s) \<and> distinct (map rf_external_fill_id (om_fills s)) \<and>
     (\<forall>f \<in> set (om_fills s). dict_get (om_orders s) (rf_intent_id f) \<noteq> None) \<and>
     (\<forall>i o1. dict_get (om_orders s) i = Some o1 \<longrightarrow>
        (\<exists>x. entered i x \<and> po_filled_quantity o1 = filled_from x (fills_of i s)))"

text \<open>What the creations among the calls \<open>cs\<close> entered.\<close>

definition created_with :: "oms_call list \<Rightarrow> uuid \<Rightarrow> decimal \<Rightarrow> bool" where
  "created_with cs i x \<longleftrightarrow> (\<exists>e o1. OmCreate e o1 \<in> set cs \<and> intent_id_of o1 = i \<and> po_filled_quantity o1 = x)"

lemma oms_change_fills_inv:
  assumes "oms_change d k good c s t" "fills_inv entered s"
    "\<And>e o1. c = OmCreate e o1 \<Longrightarrow> entered (intent_id_of o1) (po_filled_quantity o1)"
  shows "fills_inv entered t"
  using assms
proof (induction rule: oms_change.induct)
  case (none t s)
  then show ?case by (simp add: fills_inv_def fills_of_def)
next
  case (created s o1 e o2 t)
  have "fills_of (intent_id_of o1) s = []"
    using created.prems(1) created.hyps(1) by (auto simp: fills_inv_def fills_of_def filter_empty_conv)
  moreover have "entered (intent_id_of o1) (po_filled_quantity o1)" using created.prems(2) created.hyps(2) .
  moreover have "intent_id_of o2 = intent_id_of o1" "po_filled_quantity o2 = po_filled_quantity o1"
    using created.hyps(3) by simp_all
  ultimately show ?case
    using created.prems(1) created.hyps(1,5,6)
    by (auto simp: fills_inv_def fills_of_def filled_from_def map_add_Some_iff keyed_def intro!: exI [of _ "po_filled_quantity o1"])
next
  case (moved s i o1 o2 t)
  then have "intent_id_of o2 = i" by (auto simp: fills_inv_def keyed_def)
  then show ?case using moved keyed_set [of "om_orders s" o2 i] by (auto simp: fills_inv_def fills_of_def dict_simps)
next
  case (filled s i o1 f o2 t)
  have add: "po_filled_quantity o2 = po_filled_quantity o1 + rf_quantity f"
    by (rule order_fill_ok(6) [OF filled.hyps(2)])
  have own: "fills_of j t = fills_of j s @ (if j = i then [f] else [])" for j
    using filled.hyps(4,7) by (simp add: fills_of_def)
  have id: "intent_id_of o2 = i"
    using filled.prems(1) filled.hyps(1) order_fill_ok(5) [OF filled.hyps(2)] by (simp add: fills_inv_def keyed_def)
  obtain x where x: "entered i x" "po_filled_quantity o1 = filled_from x (fills_of i s)"
    using filled.prems(1) filled.hyps(1) unfolding fills_inv_def by blast
  have "po_filled_quantity o2 = filled_from x (fills_of i t)" by (simp add: add x(2) own filled_from_def)
  moreover have "\<exists>y. entered j y \<and> po_filled_quantity p = filled_from y (fills_of j t)"
    if "j \<noteq> i" "dict_get (om_orders s) j = Some p" for j p
    using filled.prems(1) that own [of j] by (auto simp: fills_inv_def)
  ultimately show ?case
    using filled.prems(1) filled.hyps(1,4,5,6,7) x(1) keyed_set [of "om_orders s" o2 i] id
    by (auto simp: fills_inv_def dict_simps)
qed

lemma oms_run_fills_inv:
  "set cs \<subseteq> set all_calls \<Longrightarrow> fills_inv (created_with all_calls) s \<Longrightarrow> fills_inv (created_with all_calls) (fold oms_perform cs s)"
proof (induction cs arbitrary: s)
  case (Cons c cs)
  have "oms_change AnyCalls 0 False c s (oms_perform c s)"
    using Cons.prems by (intro oms_perform_change) (simp_all add: fills_inv_def)
  then have "fills_inv (created_with all_calls) (oms_perform c s)"
    by (rule oms_change_fills_inv [OF _ Cons.prems(2)]) (use Cons.prems(1) in \<open>auto simp: created_with_def\<close>)
  then show ?case using Cons by simp
qed simp

lemma empty_oms_inv [simp]: "fills_inv entered empty_oms" "om_orders empty_oms = []"
  by (simp_all add: fills_inv_def empty_oms_def keyed_def)

lemma filled_from_exact:
  "filled_from (Dec 0 0) fs = dsum (map rf_quantity fs)"
  by (simp add: filled_from_def dsum_def zero_decimal_def)

lemma find_snoc: "find P xs = None \<Longrightarrow> find P (xs @ [y]) = (if P y then Some y else None)"
  by (induction xs) (auto split: if_splits)

text \<open>An accepted fill is in the table under its identifier, whether it was new or known.\<close>

lemma oms_accepted_fill:
  assumes "oms_ingest_fill e x i q p t s = (Inr o1, s')" "keyed (om_orders s)"
  shows "\<exists>f. find (\<lambda>f. rf_external_fill_id f = x) (om_fills s') = Some f \<and> rf_intent_id f = i \<and>
    rf_quantity f = q \<and> rf_price f = p"
proof (cases "find (\<lambda>f. rf_external_fill_id f = x) (om_fills s)")
  case (Some f)
  then have "s' = s" "(rf_intent_id f, rf_quantity f, rf_price f) = (i, q, p)"
    using assms(1) by (auto simp: oms_ingest_fill_def Let_def split: if_splits)
  then show ?thesis using Some by simp
next
  case None
  let ?f = "\<lparr>rf_fill_id = oe_row_id e, rf_external_fill_id = x, rf_intent_id = i,
      rf_occurred_at = case t of None \<Rightarrow> oe_now e | Some t \<Rightarrow> t, rf_quantity = q, rf_price = p\<rparr>"
  let ?d = "\<lambda>o3. [(''external_fill_id'', x), (''price'', dec_str p), (''quantity'', dec_str q),
         (''status'', status_value (po_status o3))]"
  obtain o2 o3 where o: "dict_get (om_orders s) i = Some o2" "order_fill o2 q p = Inr o3" and
    st: "write_and_log e o3 ''FILL_INGESTED'' (?d o3) (s\<lparr>om_fills := om_fills s @ [?f]\<rparr>) = (Inr o1, s')"
    using assms(1) None unfolding oms_ingest_fill_def Let_def
    by (auto simp: oms_get_Inr split: if_splits sum.splits)
  have id: "intent_id_of o2 = i" "po_intent o3 = po_intent o2"
    using o(1) assms(2) order_fill_ok(5) [OF o(2)] by (auto simp: keyed_def)
  have w: "dict_get (om_orders (s\<lparr>om_fills := om_fills s @ [?f]\<rparr>)) (intent_id_of o3) = Some o2"
    "row_update o2 o3 = o3"
    using o(1) id by (auto intro: row_update_same)
  have "om_fills s' = om_fills s @ [?f]"
    using write_and_log_state [OF w, of e "''FILL_INGESTED''" "?d o3"] arg_cong [OF st, of snd] by simp
  then show ?thesis using None by (simp add: find_snoc)
qed

section \<open>Properties\<close>

definition sample_oms_env :: "nat \<Rightarrow> oms_env" where
  "sample_oms_env n = \<lparr>oe_event_id = n, oe_event_now = Aware 0 0, oe_row_id = n, oe_evidence_id = n, oe_now = Aware 0 0\<rparr>"

definition sample_oms :: oms where
  "sample_oms = empty_oms\<lparr>om_orders := [(1, sample_acknowledged)]\<rparr>"

definition sample_part_filled :: paper_order where
  "sample_part_filled = sample_acknowledged\<lparr>po_status := PARTIALLY_FILLED, po_filled_quantity := Dec 4 0,
     po_average_fill_price := Some (Dec 101 0)\<rparr>"

lemma sample_oms_fill:
  "\<exists>s'. oms_ingest_fill (sample_oms_env 1) ''f1'' 1 (Dec 4 0) (Dec 101 0) None sample_oms = (Inr sample_part_filled, s')"
proof -
  have g: "\<not> (blank ''f1'' \<or> Dec 4 0 \<le> 0 \<or> Dec 101 0 \<le> 0)"
    by (simp add: blank_def strip_def is_space_def dle_iff)
  have i: "intent_id_of sample_part_filled = 1"
    by (simp add: sample_part_filled_def sample_acknowledged_def new_order_def sample_intent_def)
  show ?thesis
    unfolding oms_ingest_fill_def Let_def if_not_P [OF g]
    by (simp add: sample_oms_def empty_oms_def oms_get_def sample_oms_env_def sample_fill
        sample_part_filled_def [symmetric] write_and_log_def bind_method_def oms_write_order_def
        i [simplified] oms_append_event_def)
qed

text \<open>
  C31: after any calls on a fresh store, moves to \<open>FILLED\<close> and creations of orders that carry a filled quantity
  included, the filled quantity of every stored order is the one a creation of it carried plus exactly its recorded fills,
  added in their order, and every external fill identifier is recorded once. If all quantities lie on one decimal grid
  and the creations are filled within their quantities, the order is filled within its quantity; if, further, new
  orders carry no fill and no call moves an order to \<open>FILLED\<close>, it is filled by exactly the sum of its
  fills, and \<open>FILLED\<close> means full.
\<close>

theorem oms_orders_match_fills:
  assumes "dict_get (om_orders (fold oms_perform cs empty_oms)) i = Some o1"
  defines "fs \<equiv> fills_of i (fold oms_perform cs empty_oms)"
  shows "(\<exists>e o0. OmCreate e o0 \<in> set cs \<and> intent_id_of o0 = i \<and>
      po_filled_quantity o1 = foldl (+) (po_filled_quantity o0) (map rf_quantity fs)) \<and>
    distinct (map rf_external_fill_id (om_fills (fold oms_perform cs empty_oms))) \<and>
    (\<forall>k. (\<forall>c \<in> set cs. oms_good GridCalls k c) \<longrightarrow> dval (po_filled_quantity o1) \<le> dval (oi_quantity (po_intent o1))) \<and>
    (\<forall>k. (\<forall>c \<in> set cs. oms_good FillsOnly k c) \<longrightarrow>
       po_filled_quantity o1 = dsum (map rf_quantity fs) \<and> dval (po_filled_quantity o1) \<le> dval (oi_quantity (po_intent o1)) \<and>
       (po_status o1 = FILLED \<longrightarrow> dval (po_filled_quantity o1) = dval (oi_quantity (po_intent o1))))"
proof -
  have inv: "fills_inv (created_with cs) (fold oms_perform cs empty_oms)" by (rule oms_run_fills_inv) simp_all
  then obtain x where x: "created_with cs i x" "po_filled_quantity o1 = filled_from x fs"
    using assms(1) unfolding fs_def fills_inv_def by blast
  have sound: "order_sound d k o1" if "\<forall>c \<in> set cs. oms_good d k c" for d k
    using oms.run_inv [OF that, of empty_oms] assms(1) by (auto simp: book_sound_def)
  have "po_filled_quantity o1 = dsum (map rf_quantity fs)" if "\<forall>c \<in> set cs. oms_good FillsOnly k c" for k
    using x that filled_from_exact by (fastforce simp: created_with_def)
  then show ?thesis using inv x sound
    by (auto simp: fills_inv_def created_with_def filled_from_def order_sound_def)
qed

text \<open>An order taken through its lifecycle, with a fill of four of its ten.\<close>

definition sample_oms_calls :: "oms_call list" where
  "sample_oms_calls = OmCreate (sample_oms_env 1) (new_order sample_intent) #
     map (\<lambda>n. OmTransition (sample_oms_env 2) 1 n ''a'') [RISK_PENDING, APPROVED, SUBMISSION_PENDING, SUBMITTED, ACKNOWLEDGED] @
     [OmFill (sample_oms_env 3) ''f1'' 1 (Dec 4 0) (Dec 101 0) None]"

lemma single_transition:
  assumes "om_orders s = [(1, o1)]" "om_fills s = fs" "intent_id_of o1 = 1" "n \<in> transitions (po_status o1)"
  shows "om_orders (oms_perform (OmTransition e 1 n actor) s) = [(1, o1\<lparr>po_status := n\<rparr>)] \<and>
    om_fills (oms_perform (OmTransition e 1 n actor) s) = fs"
proof -
  have "order_transition o1 n = Inr (o1\<lparr>po_status := n\<rparr>)" using assms(4) by (simp add: order_simps)
  from oms_transition_state [OF _ this assms(3), of s e actor] assms(1,2) show ?thesis by simp
qed

lemma sample_fill_performed:
  assumes "om_orders s = [(1, sample_acknowledged)]" "om_fills s = []"
  shows "om_orders (oms_perform (OmFill (sample_oms_env 3) ''f1'' 1 (Dec 4 0) (Dec 101 0) None) s) = [(1, sample_part_filled)] \<and>
    map rf_quantity (fills_of 1 (oms_perform (OmFill (sample_oms_env 3) ''f1'' 1 (Dec 4 0) (Dec 101 0) None) s)) = [Dec 4 0]"
proof -
  have g: "\<not> (blank ''f1'' \<or> Dec 4 0 \<le> 0 \<or> Dec 101 0 \<le> 0)"
    by (simp add: blank_def strip_def is_space_def dle_iff)
  have i: "intent_id_of sample_part_filled = 1" "row_update sample_acknowledged sample_part_filled = sample_part_filled"
    by (auto simp: sample_part_filled_def sample_acknowledged_def new_order_def sample_intent_def intro: row_update_same)
  note w = write_and_log_state [of _ sample_part_filled sample_acknowledged, unfolded i(1), OF _ i(2)]
  show ?thesis
    unfolding oms_perform.simps oms_ingest_fill_def Let_def if_not_P [OF g] using assms
    by (simp add: oms_get_def sample_oms_env_def sample_fill sample_part_filled_def [symmetric] w fills_of_def)
qed

lemma sample_oms_run:
  "dict_get (om_orders (fold oms_perform sample_oms_calls empty_oms)) 1 = Some sample_part_filled \<and>
   map rf_quantity (fills_of 1 (fold oms_perform sample_oms_calls empty_oms)) = [Dec 4 0]"
proof -
  let ?o = "new_order sample_intent"
  let ?t = "\<lambda>n. OmTransition (sample_oms_env 2) 1 n ''a''"
  let ?s0 = "oms_perform (OmCreate (sample_oms_env 1) ?o) empty_oms"
  have s0: "om_orders ?s0 = [(1, ?o)]" "om_fills ?s0 = []"
    by (simp_all add: oms_create_def empty_oms_def oms_get_def bind_method_def oms_append_event_def new_order_def sample_intent_def)
  have st: "po_status ?o = PROPOSED" "intent_id_of ?o = 1" by (simp_all add: new_order_def sample_intent_def)
  let ?s1 = "oms_perform (?t RISK_PENDING) ?s0" and ?o1 = "?o\<lparr>po_status := RISK_PENDING\<rparr>"
  have s1: "om_orders ?s1 = [(1, ?o1)]" "om_fills ?s1 = []" using single_transition [OF s0] st by auto
  let ?s2 = "oms_perform (?t APPROVED) ?s1" and ?o2 = "?o\<lparr>po_status := APPROVED\<rparr>"
  have s2: "om_orders ?s2 = [(1, ?o2)]" "om_fills ?s2 = []" using single_transition [OF s1, of APPROVED] st by auto
  let ?s3 = "oms_perform (?t SUBMISSION_PENDING) ?s2" and ?o3 = "?o\<lparr>po_status := SUBMISSION_PENDING\<rparr>"
  have s3: "om_orders ?s3 = [(1, ?o3)]" "om_fills ?s3 = []" using single_transition [OF s2, of SUBMISSION_PENDING] st by auto
  let ?s4 = "oms_perform (?t SUBMITTED) ?s3" and ?o4 = "?o\<lparr>po_status := SUBMITTED\<rparr>"
  have s4: "om_orders ?s4 = [(1, ?o4)]" "om_fills ?s4 = []" using single_transition [OF s3, of SUBMITTED] st by auto
  let ?s5 = "oms_perform (?t ACKNOWLEDGED) ?s4"
  have s5: "om_orders ?s5 = [(1, sample_acknowledged)]" "om_fills ?s5 = []"
    using single_transition [OF s4, of ACKNOWLEDGED] st by (auto simp: sample_acknowledged_def)
  show ?thesis
    using sample_fill_performed [OF s5] by (simp only: sample_oms_calls_def list.map append.simps fold.simps o_apply id_apply) simp
qed

lemma sample_oms_calls_good: "\<forall>c \<in> set sample_oms_calls. oms_good FillsOnly 0 c"
  by (simp add: sample_oms_calls_def new_order_def sample_intent_def grid_quantity_def on_grid_def prec_def)

theorem oms_orders_match_fills_witness:
  "po_filled_quantity sample_part_filled = dsum [Dec 4 0] \<and> dval (po_filled_quantity sample_part_filled) \<le> 10 \<and>
   map rf_quantity (fills_of 1 (fold oms_perform sample_oms_calls empty_oms)) = [Dec 4 0]"
proof -
  have "dict_get (om_orders (fold oms_perform sample_oms_calls empty_oms)) 1 = Some sample_part_filled" using sample_oms_run by blast
  from oms_orders_match_fills [OF this] sample_oms_calls_good have
    "po_filled_quantity sample_part_filled = dsum (map rf_quantity (fills_of 1 (fold oms_perform sample_oms_calls empty_oms)))"
    "dval (po_filled_quantity sample_part_filled) \<le> dval (oi_quantity (po_intent sample_part_filled))" by blast+
  then show ?thesis using sample_oms_run
    by (simp add: sample_part_filled_def sample_acknowledged_def new_order_def sample_intent_def)
qed

text \<open>
  The lifecycle allows an acknowledged order to be moved to \<open>FILLED\<close> by hand: the order is then \<open>FILLED\<close> with nothing filled.
  And a creation stores the filled quantity its order carries: an order filled by six with no fill on record.
\<close>

lemma filled_without_fills:
  "fst (oms_transition (sample_oms_env 1) 1 FILLED ''a'' sample_oms) =
     Inr (sample_acknowledged\<lparr>po_status := FILLED\<rparr>) \<and> deq (po_filled_quantity (sample_acknowledged\<lparr>po_status := FILLED\<rparr>)) 0"
  by (simp add: oms_transition_def sample_oms_def empty_oms_def oms_get_def order_transition_def write_and_log_def bind_method_def
      oms_write_order_def oms_append_event_def amend_order_def sample_acknowledged_def new_order_def sample_intent_def dec_order)

lemma created_filled:
  "fst (oms_create (sample_oms_env 1) ((new_order sample_intent)\<lparr>po_filled_quantity := Dec 6 0\<rparr>) empty_oms) =
     Inr ((new_order sample_intent)\<lparr>po_filled_quantity := Dec 6 0\<rparr>)"
  by (simp add: oms_create_def oms_get_def empty_oms_def bind_method_def oms_append_event_def new_order_def sample_intent_def)

text \<open>
  Fill ingestion is idempotent: once a fill is accepted, delivering it again with the same content
  returns the stored order and changes nothing, and with any other content is refused as a conflict.
\<close>

theorem oms_fill_idempotent:
  assumes "oms_ingest_fill e x i q p t s = (Inr o1, s')" "keyed (om_orders s)"
    and "aware (case t' of None \<Rightarrow> oe_now e' | Some w \<Rightarrow> w)"
  shows "oms_ingest_fill e' x i q p t' s' = (oms_get i s', s') \<and>
    (0 < q' \<longrightarrow> 0 < p' \<longrightarrow> (j, q', p') \<noteq> (i, q, p) \<longrightarrow>
      oms_ingest_fill e' x j q' p' t' s' = (Inl (oms_error ''external_fill_id_conflict''), s'))"
proof -
  obtain f where f: "find (\<lambda>f. rf_external_fill_id f = x) (om_fills s') = Some f" "rf_intent_id f = i"
    "rf_quantity f = q" "rf_price f = p"
    using oms_accepted_fill [OF assms(1,2)] by blast
  have g: "\<not> (blank x \<or> q \<le> 0 \<or> p \<le> 0)"
    using assms(1) by (auto simp: oms_ingest_fill_def Let_def split: if_splits)
  have "oms_ingest_fill e' x i q p t' s' = (oms_get i s', s')"
    unfolding oms_ingest_fill_def Let_def if_not_P [OF g] using assms(3) f by simp
  moreover have "oms_ingest_fill e' x j q' p' t' s' = (Inl (oms_error ''external_fill_id_conflict''), s')"
    if "0 < q'" "0 < p'" "(j, q', p') \<noteq> (i, q, p)"
  proof -
    have g': "\<not> (blank x \<or> q' \<le> 0 \<or> p' \<le> 0)" using g that(1,2) by (auto simp: dle_iff dlt_iff)
    show ?thesis
      unfolding oms_ingest_fill_def Let_def if_not_P [OF g'] using assms(3) f that(3) by auto
  qed
  ultimately show ?thesis by blast
qed

theorem oms_fill_idempotent_witness:
  "\<exists>s'. oms_ingest_fill (sample_oms_env 2) ''f1'' 1 (Dec 5 0) (Dec 101 0) None s' =
     (Inl (oms_error ''external_fill_id_conflict''), s')"
proof -
  obtain s' where s': "oms_ingest_fill (sample_oms_env 1) ''f1'' 1 (Dec 4 0) (Dec 101 0) None sample_oms =
      (Inr sample_part_filled, s')"
    using sample_oms_fill by blast
  have "keyed (om_orders sample_oms)"
    by (simp add: keyed_def sample_oms_def sample_acknowledged_def new_order_def sample_intent_def)
  from oms_fill_idempotent [OF s' this, where t' = None and e' = "sample_oms_env 2" and q' = "Dec 5 0"
      and p' = "Dec 101 0" and j = 1] show ?thesis
    by (auto simp: sample_oms_env_def dlt_iff)
qed

section \<open>Account evidence\<close>

definition account_append :: "recorded_account \<Rightarrow> oms \<Rightarrow> oms" where
  "account_append a s = s\<lparr>om_accounts := om_accounts s @ [a]\<rparr>"

definition account_lookup :: "string \<Rightarrow> datetime \<Rightarrow> oms \<Rightarrow> recorded_account option" where
  "account_lookup account_id t s = visible_account account_id t (om_accounts s)"

interpretation accounts: point_in_time account_lookup account_append ra_ingested_at
proof unfold_locales
  fix r :: recorded_account and t key s
  assume "\<not> iso_le (ra_ingested_at r) t"
  then show "account_lookup key t (account_append r s) = account_lookup key t s"
    by (simp add: account_lookup_def account_append_def visible_account_def account_visible_def)
next
  fix key t and s :: oms and r :: recorded_account
  assume "account_lookup key t s = Some r"
  then have "newest account_key (filter (account_visible key t) (om_accounts s)) = Some r"
    by (simp add: account_lookup_def visible_account_def)
  from newest_max [OF this] show "iso_le (ra_ingested_at r) t" by (simp add: account_visible_def)
qed

text \<open>What a successful recording does to the evidence: appends one row exactly when complete.\<close>

lemma record_account_rows:
  assumes "oms_record_account e snap r h t s = (Inr (rec_row, ev), s')"
  shows "rr_complete r \<Longrightarrow> ev = Some \<lparr>ra_evidence_id = oe_evidence_id e, ra_reconciliation_id = oe_row_id e,
      ra_snapshot = snap, ra_healthy = h, ra_ingested_at = t\<rparr>"
    "rr_complete r \<Longrightarrow> om_accounts s' = om_accounts s @ [(the ev)\<lparr>ra_snapshot := stored_snapshot snap\<rparr>]"
    "\<not> rr_complete r \<Longrightarrow> ev = None \<and> om_accounts s' = om_accounts s"
    "om_runs s' = om_runs s @ [rec_row]" "rec_complete rec_row = rr_complete r"
    "om_orders s' = om_orders s"
  using assms by (auto simp: oms_record_account_def Let_def split: if_splits)

text \<open>
  No look-ahead: account evidence recorded later than a decision time (by the text order SQLite
  compares), however much of it, leaves the evidence found for that decision as it was; and what is
  found was ingested, and taken, no later than the decision.
\<close>

theorem account_evidence_point_in_time:
  fixes s :: oms
  assumes "\<forall>a \<in> set later. \<not> iso_le (ra_ingested_at a) t"
  shows "visible_account account_id t (om_accounts s @ later) = visible_account account_id t (om_accounts s) \<and>
    (\<forall>a. visible_account account_id t (om_accounts s) = Some a \<longrightarrow>
       iso_le (ra_ingested_at a) t \<and> iso_le (bas_as_of (ra_snapshot a)) t)"
proof -
  have "fold account_append later s = s\<lparr>om_accounts := om_accounts s @ later\<rparr>"
    by (induction later arbitrary: s) (simp_all add: account_append_def)
  then have "visible_account account_id t (om_accounts s @ later) = visible_account account_id t (om_accounts s)"
    using accounts.no_look_ahead [OF assms, of account_id s] by (simp add: account_lookup_def)
  moreover have "iso_le (bas_as_of (ra_snapshot a)) t" "iso_le (ra_ingested_at a) t"
    if "visible_account account_id t (om_accounts s) = Some a" for a
    using newest_max [OF that [unfolded visible_account_def]] by (simp_all add: account_visible_def)
  ultimately show ?thesis by blast
qed

definition sample_snapshot :: broker_account_snapshot where
  "sample_snapshot = \<lparr>bas_account_id = ''acc'', bas_source = ''sandbox'', bas_as_of = Aware 5 0,
     bas_cash = mk_cash ''USD'' (Dec 1 0), bas_buying_power = Dec 1 0, bas_positions = [],
     bas_open_intent_ids = [], bas_fill_ids = [], bas_realized_pnl = Dec 0 0, bas_fees = Dec 0 0\<rparr>"

definition sample_account :: recorded_account where
  "sample_account = \<lparr>ra_evidence_id = 1, ra_reconciliation_id = 1, ra_snapshot = sample_snapshot,
     ra_healthy = True, ra_ingested_at = Aware 6 0\<rparr>"

theorem account_evidence_point_in_time_witness:
  "visible_account ''acc'' (Aware 6 0) (om_accounts (empty_oms\<lparr>om_accounts := [sample_account]\<rparr>) @
     [sample_account\<lparr>ra_ingested_at := Aware 7 0\<rparr>]) = Some sample_account"
proof -
  have "\<forall>a \<in> set [sample_account\<lparr>ra_ingested_at := Aware 7 0\<rparr>]. \<not> iso_le (ra_ingested_at a) (Aware 6 0)"
    by (simp add: iso_le_def)
  from account_evidence_point_in_time [OF this, of "''acc''" "empty_oms\<lparr>om_accounts := [sample_account]\<rparr>"]
  show ?thesis
    by (simp add: visible_account_def account_visible_def sample_account_def sample_snapshot_def iso_le_def
        newest_def keep_newer_def)
qed

text \<open>
  A complete reconciliation whose snapshot is the newest of its account is what a decision taken at
  or after its ingestion gets back, with the positions under their keys; an incomplete one never becomes
  account evidence.
\<close>

theorem reconciled_account_round_trip:
  assumes "oms_record_account e snap r h t s = (Inr (rec_row, ev), s')" "rr_complete r"
    and "iso_le t d" "iso_le (bas_as_of snap) d"
    and "\<forall>a \<in> set (om_accounts s). bas_account_id (ra_snapshot a) = bas_account_id snap \<longrightarrow>
      account_key a \<le> (iso_key (bas_as_of snap), iso_key t)"
  shows "visible_account (bas_account_id snap) d (om_accounts s') =
    Some \<lparr>ra_evidence_id = oe_evidence_id e, ra_reconciliation_id = oe_row_id e,
      ra_snapshot = stored_snapshot snap, ra_healthy = h, ra_ingested_at = t\<rparr>"
proof -
  note rows = record_account_rows [OF assms(1)]
  let ?a = "\<lparr>ra_evidence_id = oe_evidence_id e, ra_reconciliation_id = oe_row_id e,
      ra_snapshot = stored_snapshot snap, ra_healthy = h, ra_ingested_at = t\<rparr>"
  have acc: "om_accounts s' = om_accounts s @ [?a]" using rows(1,2) assms(2) by simp
  have vis: "account_visible (bas_account_id snap) d ?a"
    using assms(3,4) by (simp add: account_visible_def stored_snapshot_def)
  have key: "account_key ?a = (iso_key (bas_as_of snap), iso_key t)"
    by (simp add: account_key_def stored_snapshot_def)
  have "filter (account_visible (bas_account_id snap) d) (om_accounts s') =
      filter (account_visible (bas_account_id snap) d) (om_accounts s) @ [?a]"
    unfolding acc using vis by simp
  then show ?thesis
    unfolding visible_account_def by (simp only:) (rule newest_snoc, unfold key, use assms(5) in \<open>auto simp: account_visible_def\<close>)
qed

theorem reconciled_account_round_trip_witness:
  "\<exists>s' :: oms. visible_account ''acc'' (Aware 6 0) (om_accounts s') =
     Some (sample_account\<lparr>ra_snapshot := stored_snapshot sample_snapshot\<rparr>)"
proof -
  let ?r = "\<lparr>rr_complete = True, rr_discrepancies = []\<rparr>"
  obtain rr ev s' where s': "oms_record_account (sample_oms_env 1) sample_snapshot ?r True (Aware 6 0) empty_oms =
      (Inr (rr, ev), s')"
    by (simp add: oms_record_account_def sample_snapshot_def empty_oms_def blank_def strip_def is_space_def Let_def)
  have "visible_account (bas_account_id sample_snapshot) (Aware 6 0) (om_accounts s') =
      Some \<lparr>ra_evidence_id = oe_evidence_id (sample_oms_env 1), ra_reconciliation_id = oe_row_id (sample_oms_env 1),
        ra_snapshot = stored_snapshot sample_snapshot, ra_healthy = True, ra_ingested_at = Aware 6 0\<rparr>"
    by (rule reconciled_account_round_trip [OF s']) (simp_all add: iso_le_def sample_snapshot_def empty_oms_def)
  then show ?thesis by (auto simp: sample_snapshot_def sample_account_def sample_oms_env_def)
qed

end
