(* ===== verification/BrokerSync.thy ===== *)
theory BrokerSync
  imports PretradeEvidence PaperOms OperationalAlerts
begin

text \<open>
  \<open>broker_sync.py\<close>: the gate in front of the paper broker, the durable broker events with their cursor,
  and the service that submits orders, ingests what the broker reports and reconciles the account. The
  order management store is the SQLite one (without \<open>apply_broker_event\<close>), the adapter the sandbox.
\<close>

section \<open>The decision before a trade\<close>

abbreviation sync_error :: "string \<Rightarrow> py_exc" where
  "sync_error m \<equiv> Exc BrokerSyncError m"

record pretrade_decision =
  pt_decision_id :: uuid
  pt_intent_id :: uuid
  pt_approved :: bool
  pt_reasons :: "string list"
  pt_decided_at :: datetime

definition evaluate_pre_trade ::
  "uuid \<Rightarrow> datetime \<Rightarrow> order_intent \<Rightarrow> risk_decision \<Rightarrow> portfolio_risk_decision \<Rightarrow> pretrade_decision result" where
  "evaluate_pre_trade new_id now i risk portfolio =
     (if rd_intent_id risk \<noteq> oi_intent_id i then Inl (sync_error ''risk_decision_intent_mismatch'')
      else Inr \<lparr>pt_decision_id = new_id, pt_intent_id = oi_intent_id i,
        pt_approved = (rd_decision risk = APPROVE \<and> prd_approved portfolio),
        pt_reasons = map (\<lambda>r. ''individual_risk:'' @ r) (rd_reasons risk) @
          map (\<lambda>r. ''portfolio_risk:'' @ r) (prd_reasons portfolio),
        pt_decided_at = now\<rparr>)"

definition decision_append :: "pretrade_decision \<Rightarrow> (pretrade_decision list, unit) operation" where
  "decision_append d rows =
     (if pt_decision_id d \<in> pt_decision_id ` set rows then (Inl unique_violation, rows)
      else (Inr (), rows @ [d]))"

definition decision_get :: "uuid \<Rightarrow> pretrade_decision list \<Rightarrow> pretrade_decision result" where
  "decision_get i rows =
     (case find (\<lambda>d. pt_decision_id d = i) rows of
        None \<Rightarrow> Inl (Exc KeyError (uuid_str i)) | Some d \<Rightarrow> Inr d)"

definition latest_for_intent :: "uuid \<Rightarrow> pretrade_decision list \<Rightarrow> pretrade_decision result" where
  "latest_for_intent i rows =
     (case newest (\<lambda>d. iso_key (pt_decided_at d)) (filter (\<lambda>d. pt_intent_id d = i) rows) of
        None \<Rightarrow> Inl (Exc KeyError (uuid_str i)) | Some d \<Rightarrow> Inr d)"

section \<open>Durable broker events\<close>

record stored_event =
  se_event_id :: uuid
  se_broker_name :: string
  se_sequence :: int
  se_external_event_id :: string
  se_intent_id :: uuid
  se_event_type :: string
  se_status :: order_status
  se_occurred_at :: datetime

definition stored_of :: "string \<Rightarrow> broker_order_event \<Rightarrow> stored_event" where
  "stored_of broker_name v =
     \<lparr>se_event_id = boe_event_id v, se_broker_name = broker_name, se_sequence = boe_sequence v,
      se_external_event_id = boe_external_event_id v, se_intent_id = boe_client_intent_id v,
      se_event_type = boe_event_type v, se_status = boe_status v, se_occurred_at = boe_occurred_at v\<rparr>"

record event_store =
  es_events :: "stored_event list"
  es_cursors :: "(string, int) dict"

definition last_sequence :: "string \<Rightarrow> event_store \<Rightarrow> int" where
  "last_sequence broker_name s = dict_get_or (es_cursors s) broker_name 0"

text \<open>
  Both identifiers are unique over the whole table, whatever the broker; a row that repeats one is
  not written, and the caller is told so.
\<close>

definition event_append :: "string \<Rightarrow> broker_order_event \<Rightarrow> (event_store, bool) operation" where
  "event_append broker_name v s =
     (if boe_sequence v \<le> 0 \<or> blank (boe_external_event_id v)
      then (Inl (sync_error ''invalid_broker_event''), s)
      else if boe_event_id v \<in> se_event_id ` set (es_events s) \<or>
        boe_external_event_id v \<in> se_external_event_id ` set (es_events s)
      then (Inr False, s)
      else
        (Inr True,
         s\<lparr>es_events := es_events s @ [stored_of broker_name v],
           es_cursors := (if last_sequence broker_name s < boe_sequence v
             then dict_set broker_name (boe_sequence v) (es_cursors s) else es_cursors s)\<rparr>))"

section \<open>Applying an event to the order management store\<close>

text \<open>
  \<open>Decimal(event.details[name])\<close>. The adapter writes \<open>str\<close> of a finite decimal; any other text is
  taken like one the constructor refuses.
\<close>

definition details_text :: "broker_order_event \<Rightarrow> string \<Rightarrow> string result" where
  "details_text v name =
     (case dict_get (boe_details v) name of None \<Rightarrow> Inl (Exc KeyError name) | Some x \<Rightarrow> Inr x)"

definition details_decimal :: "broker_order_event \<Rightarrow> string \<Rightarrow> decimal result" where
  "details_decimal v name =
     bind_result (details_text v name) (\<lambda>x.
       case dec_parse x of
         Some (Finite d) \<Rightarrow> Inr d
       | _ \<Rightarrow> Inl (Exc ArithmeticError ''InvalidOperation''))"

text \<open>\<open>except (KeyError, ValueError, PaperOmsError) as error: raise BrokerSyncError(m) from error\<close>\<close>

definition reraise_as :: "string \<Rightarrow> py_exc \<Rightarrow> py_exc" where
  "reraise_as m x = (if is_key_error x \<or> is_value_error x then sync_error m else x)"

definition rename_error :: "string \<Rightarrow> 'a result \<times> 's \<Rightarrow> unit result \<times> 's" where
  "rename_error m r = (case r of (Inl x, s) \<Rightarrow> (Inl (reraise_as m x), s) | (Inr _, s) \<Rightarrow> (Inr (), s))"

definition ingest_event_fill :: "oms_env \<Rightarrow> broker_order_event \<Rightarrow> (oms, paper_order) operation" where
  "ingest_event_fill e v s =
     (case (details_text v ''external_fill_id'', details_decimal v ''quantity'', details_decimal v ''price'') of
        (Inl x, _, _) \<Rightarrow> (Inl x, s)
      | (Inr _, Inl x, _) \<Rightarrow> (Inl x, s)
      | (Inr _, Inr _, Inl x) \<Rightarrow> (Inl x, s)
      | (Inr fill_id, Inr quantity, Inr price) \<Rightarrow>
          oms_ingest_fill e fill_id (boe_client_intent_id v) quantity price (Some (boe_occurred_at v)) s)"

definition ingest_replacement :: "oms_env \<Rightarrow> broker_order_event \<Rightarrow> (oms, paper_order) operation" where
  "ingest_replacement e v s =
     (case (details_decimal v ''quantity'', details_decimal v ''limit_price'') of
        (Inl x, _) \<Rightarrow> (Inl x, s)
      | (Inr _, Inl x) \<Rightarrow> (Inl x, s)
      | (Inr quantity, Inr limit_price) \<Rightarrow>
          oms_amend e (boe_client_intent_id v) quantity limit_price ''broker_sync'' s)"

definition apply_event :: "oms_env \<times> oms_env \<Rightarrow> broker_order_event \<Rightarrow> (oms, unit) operation" where
  "apply_event e v s =
     (if boe_event_type v = ''FILL''
      then rename_error ''broker_fill_event_rejected'' (ingest_event_fill (fst e) v s)
      else if boe_event_type v = ''ORDER_CANCELLED''
      then (case oms_get (boe_client_intent_id v) s of
              Inl x \<Rightarrow> (Inl x, s)
            | Inr o1 \<Rightarrow>
                if po_status o1 \<in> {ACKNOWLEDGED, PARTIALLY_FILLED}
                then bind_method (oms_cancel (fst e) (snd e) (boe_client_intent_id v) ''broker_sync'')
                  (\<lambda>_ t. (Inr (), t)) s
                else (Inr (), s))
      else if boe_event_type v = ''ORDER_REPLACED''
      then rename_error ''broker_replace_event_rejected'' (ingest_replacement (fst e) v s)
      else (Inr (), s))"

section \<open>The synchronisation service\<close>

text \<open>The stores the service is given; the last four are optional.\<close>

record sync_service =
  sv_oms :: oms
  sv_adapter :: sandbox
  sv_events :: event_store
  sv_alerts :: "alert_db option"
  sv_decisions :: "pretrade_decision list option"
  sv_assessments :: "assessment_store option"
  sv_policies :: "policy_row list option"

definition new_sync_service :: "broker_capabilities \<Rightarrow> sync_service \<Rightarrow> sync_service result" where
  "new_sync_service capabilities s =
     (if cap_network_connected capabilities then Inl (sync_error ''network_connected_adapter_not_permitted'') else Inr s)"

text \<open>A method of one of the stores, seen from the service.\<close>

definition on_oms :: "(oms, 'a) operation \<Rightarrow> (sync_service, 'a) operation" where
  "on_oms m s = (case m (sv_oms s) of (r, m1) \<Rightarrow> (r, s\<lparr>sv_oms := m1\<rparr>))"

definition on_adapter :: "(sandbox, 'a) operation \<Rightarrow> (sync_service, 'a) operation" where
  "on_adapter m s = (case m (sv_adapter s) of (r, b) \<Rightarrow> (r, s\<lparr>sv_adapter := b\<rparr>))"

definition on_events :: "(event_store, 'a) operation \<Rightarrow> (sync_service, 'a) operation" where
  "on_events m s = (case m (sv_events s) of (r, es) \<Rightarrow> (r, s\<lparr>sv_events := es\<rparr>))"

fun sync_loop ::
  "(nat \<Rightarrow> oms_env \<times> oms_env) \<Rightarrow> nat \<Rightarrow> string \<Rightarrow> broker_order_event list \<Rightarrow> (sync_service, stored_event list) operation" where
  "sync_loop env n broker_name [] s = (Inr [], s)"
| "sync_loop env n broker_name (v # vs) s =
     (case on_events (event_append broker_name v) s of
        (Inl x, s1) \<Rightarrow> (Inl x, s1)
      | (Inr False, s1) \<Rightarrow> sync_loop env (Suc n) broker_name vs s1
      | (Inr True, s1) \<Rightarrow>
          (case on_oms (apply_event (env n) v) s1 of
             (Inl x, s2) \<Rightarrow> (Inl x, s2)
           | (Inr _, s2) \<Rightarrow>
               (case sync_loop env (Suc n) broker_name vs s2 of
                  (Inl x, s3) \<Rightarrow> (Inl x, s3)
                | (Inr stored, s3) \<Rightarrow> (Inr (stored_of broker_name v # stored), s3))))"

definition broker_name_of :: "sync_service \<Rightarrow> string" where
  "broker_name_of s = bc_broker_name (sb_configuration (sv_adapter s))"

definition sync_events :: "(nat \<Rightarrow> oms_env \<times> oms_env) \<Rightarrow> (sync_service, stored_event list) operation" where
  "sync_events env s =
     (case sb_order_events (last_sequence (broker_name_of s) (sv_events s)) (sv_adapter s) of
        Inl x \<Rightarrow> (Inl x, s)
      | Inr vs \<Rightarrow> sync_loop env 0 (broker_name_of s) vs s)"

text \<open>The identifiers and clock readings a submission takes, in the order of its calls.\<close>

record submit_env =
  su_decision_id :: uuid
  su_decided_at :: datetime
  su_oms :: "nat \<Rightarrow> oms_env"
  su_broker :: event_env
  su_sync :: "nat \<Rightarrow> oms_env \<times> oms_env"

definition store_decision :: "pretrade_decision \<Rightarrow> (sync_service, unit) operation" where
  "store_decision d s =
     (case sv_decisions s of
        None \<Rightarrow> (Inr (), s)
      | Some rows \<Rightarrow> (case decision_append d rows of (r, rows') \<Rightarrow> (r, s\<lparr>sv_decisions := Some rows'\<rparr>)))"

definition create_proposed :: "oms_env \<Rightarrow> order_intent \<Rightarrow> (sync_service, paper_order) operation" where
  "create_proposed e i s =
     (case on_oms (oms_create e (new_order i)) s of
        (Inl x, s1) \<Rightarrow>
          (Inl (if exc_class x = PaperOmsError then sync_error ''unable_to_create_oms_order'' else x), s1)
      | (Inr o1, s1) \<Rightarrow>
          if po_status o1 \<noteq> PROPOSED then (Inl (sync_error ''duplicate_or_non_proposed_oms_order''), s1)
          else (Inr o1, s1))"

text \<open>\<open>self._oms.transition(intent.intent_id, status, actor="broker_sync")\<close> for the statuses in turn.\<close>

fun transitions_in_turn ::
  "(nat \<Rightarrow> oms_env) \<Rightarrow> nat \<Rightarrow> uuid \<Rightarrow> order_status list \<Rightarrow> (sync_service, unit) operation" where
  "transitions_in_turn env n i [] s = (Inr (), s)"
| "transitions_in_turn env n i (status # rest) s =
     bind_method (on_oms (oms_transition (env n) i status ''broker_sync''))
       (\<lambda>_. transitions_in_turn env (Suc n) i rest) s"

text \<open>From the broker's answer on: record a failure, or advance the order and ingest the events.\<close>

definition after_submission :: "submit_env \<Rightarrow> uuid \<Rightarrow> paper_order result \<Rightarrow> (sync_service, paper_order) operation" where
  "after_submission e i answer =
     (case answer of
        Inl _ \<Rightarrow>
          bind_method (transitions_in_turn (su_oms e) 3 i [SUBMISSION_PENDING, REJECTED])
            (\<lambda>_ s. (Inl (sync_error ''paper_broker_submission_failed''), s))
      | Inr acknowledged \<Rightarrow>
          bind_method (transitions_in_turn (su_oms e) 3 i [SUBMISSION_PENDING, SUBMITTED, ACKNOWLEDGED]) (\<lambda>_ s.
            if po_status acknowledged \<noteq> ACKNOWLEDGED then (Inl (sync_error ''unexpected_paper_broker_status''), s)
            else bind_method (sync_events (su_sync e)) (\<lambda>_ t. (oms_get i (sv_oms t), t)) s))"

text \<open>After the decision is stored: creation, the risk gate and the submission.\<close>

definition gate_and_submit :: "submit_env \<Rightarrow> bool \<Rightarrow> order_intent \<Rightarrow> (sync_service, paper_order) operation" where
  "gate_and_submit e approved i =
     bind_method (create_proposed (su_oms e 0) i) (\<lambda>_.
     bind_method (on_oms (oms_transition (su_oms e 1) (oi_intent_id i) RISK_PENDING ''risk'')) (\<lambda>pending.
       if \<not> approved
       then on_oms (oms_transition (su_oms e 2) (intent_id_of pending) RISK_REJECTED ''pre_trade'')
       else
         bind_method (on_oms (oms_transition (su_oms e 2) (intent_id_of pending) APPROVED ''risk'')) (\<lambda>order t.
           (case on_adapter (sb_submit (su_broker e) order) t of
              (answer, t1) \<Rightarrow> after_submission e (oi_intent_id i) answer t1))))"

definition submit_checked ::
  "submit_env \<Rightarrow> order_intent \<Rightarrow> risk_decision \<Rightarrow> portfolio_risk_decision \<Rightarrow> (sync_service, paper_order) operation" where
  "submit_checked e i risk portfolio s =
     (case evaluate_pre_trade (su_decision_id e) (su_decided_at e) i risk portfolio of
        Inl x \<Rightarrow> (Inl x, s)
      | Inr decision \<Rightarrow>
          bind_method (store_decision decision) (\<lambda>_. gate_and_submit e (pt_approved decision) i) s)"

definition incomplete_portfolio_decision :: portfolio_risk_decision where
  "incomplete_portfolio_decision =
     \<lparr>prd_approved = False, prd_reasons = [''assessment_incomplete''], prd_gross = Dec 0 0, prd_net = Dec 0 0,
      prd_stress_loss = Dec 0 0, prd_var_loss = None, prd_cvar_loss = None, prd_drawdown_loss = None,
      prd_stress_results = []\<rparr>"

text \<open>
  The evidence a submission needs: the stored assessment of the intent, under a key, matching the one
  presented, with its inputs and with the digests of the registered policies.
\<close>

definition assessment_evidence ::
  "(json \<Rightarrow> string) \<Rightarrow> (string \<Rightarrow> string \<Rightarrow> string) \<Rightarrow> (payload \<Rightarrow> string) \<Rightarrow>
   order_intent \<Rightarrow> assessment \<Rightarrow> sync_service \<Rightarrow> assessment result" where
  "assessment_evidence sha mac psha i presented s =
     (case (sv_assessments s, sv_policies s) of
        (Some store, Some policies) \<Rightarrow>
          if \<not> keyed_integrity_enabled store then Inl (sync_error ''keyed_assessment_integrity_required'')
          else
            (case get_for_intent sha mac (oi_intent_id i) store of
               Inl x \<Rightarrow> Inl (if is_value_error x then sync_error ''durable_assessment_evidence_invalid'' else x)
             | Inr None \<Rightarrow> Inl (sync_error ''durable_assessment_evidence_unavailable'')
             | Inr (Some a) \<Rightarrow>
                 if pa_assessment_id a \<noteq> pa_assessment_id presented then Inl (sync_error ''assessment_evidence_mismatch'')
                 else if pa_input_evidence a = None then Inl (sync_error ''pretrade_input_evidence_unavailable'')
                 else
                   (case (policy_get psha ''risk'' (pa_risk_policy_version a) policies,
                          policy_get psha ''portfolio'' (pa_portfolio_policy_version a) policies) of
                      (Inl x, _) \<Rightarrow> Inl (if is_value_error x then sync_error ''policy_evidence_unavailable'' else x)
                    | (Inr _, Inl x) \<Rightarrow> Inl (if is_value_error x then sync_error ''policy_evidence_unavailable'' else x)
                    | (Inr risk_document, Inr portfolio_document) \<Rightarrow>
                        if pa_risk_policy_digest a \<noteq> policy_digest psha risk_document \<or>
                           pa_portfolio_policy_digest a \<noteq> policy_digest psha portfolio_document
                        then Inl (sync_error ''policy_evidence_mismatch'')
                        else if rd_intent_id (pa_risk_decision a) \<noteq> oi_intent_id i
                        then Inl (sync_error ''assessment_intent_mismatch'')
                        else Inr a))
      | _ \<Rightarrow> Inl (sync_error ''durable_assessment_and_policy_evidence_required''))"

definition submit_after_assessment ::
  "(json \<Rightarrow> string) \<Rightarrow> (string \<Rightarrow> string \<Rightarrow> string) \<Rightarrow> (payload \<Rightarrow> string) \<Rightarrow> submit_env \<Rightarrow>
   order_intent \<Rightarrow> assessment \<Rightarrow> (sync_service, paper_order) operation" where
  "submit_after_assessment sha mac psha e i presented s =
     (case assessment_evidence sha mac psha i presented s of
        Inl x \<Rightarrow> (Inl x, s)
      | Inr a \<Rightarrow>
          (case dict_get (om_orders (sv_oms s)) (oi_intent_id i) of
             Some existing \<Rightarrow>
               if \<not> intent_eq (po_intent existing) i
               then (Inl (sync_error ''assessment_intent_payload_conflict''), s)
               else (Inr existing, s)
           | None \<Rightarrow>
               submit_checked e i (pa_risk_decision a)
                 (case pa_portfolio_decision a of None \<Rightarrow> incomplete_portfolio_decision | Some p \<Rightarrow> p) s))"

text \<open>\<open>",".join(discrepancies)\<close>, and \<open>max(ingested_at, snapshot.as_of)\<close>.\<close>

definition reconciliation_alert :: "broker_account_snapshot \<Rightarrow> string list \<Rightarrow> alert_request" where
  "reconciliation_alert snap discrepancies =
     \<lparr>ar_source = ''broker_sync'', ar_code = ''RECONCILIATION_FAILED'', ar_severity = CRITICAL,
      ar_resource = ''account:'' @ bas_account_id snap,
      ar_details = [(''discrepancies'', join '','' discrepancies)]\<rparr>"

definition later_of :: "datetime \<Rightarrow> datetime \<Rightarrow> datetime" where
  "later_of a b = (if instant a < instant b then b else a)"

text \<open>\<open>ids\<close> is the order in which the instruments of both sides are visited, \<open>as_of\<close> the broker's clock.\<close>

definition sync_reconcile ::
  "oms_env \<Rightarrow> alert_env \<Rightarrow> datetime \<Rightarrow> string list \<Rightarrow> internal_account_state \<Rightarrow>
   (sync_service, reconciliation_result) operation" where
  "sync_reconcile e ae as_of ids internal s =
     (let snap = sb_sync_account as_of (sv_adapter s);
          result = reconcile_broker_account ids internal snap (Dec 1 (- 2));
          recorded = \<lparr>rr_complete = brr_complete result, rr_discrepancies = brr_discrepancies result\<rparr>;
          ingested_at = later_of (oe_now e) (bas_as_of snap)
      in case on_oms (oms_record_account e snap recorded (sb_health (sv_adapter s)) ingested_at) s of
           (Inl x, s1) \<Rightarrow> (Inl x, s1)
         | (Inr _, s1) \<Rightarrow>
             (case (rr_complete recorded, sv_alerts s1) of
                (False, Some db) \<Rightarrow>
                  (case sql_raise_alert ae (reconciliation_alert snap (rr_discrepancies recorded)) db of
                     (Inl x, db') \<Rightarrow> (Inl x, s1\<lparr>sv_alerts := Some db'\<rparr>)
                   | (Inr _, db') \<Rightarrow> (Inr recorded, s1\<lparr>sv_alerts := Some db'\<rparr>))
              | _ \<Rightarrow> (Inr recorded, s1)))"

section \<open>Replaying events on an order\<close>

text \<open>What an event of the broker says about its order; \<open>None\<close> where it cannot have happened.\<close>

definition order_after :: "broker_order_event \<Rightarrow> paper_order \<Rightarrow> paper_order option" where
  "order_after v o1 =
     (if boe_event_type v = ''FILL''
      then (case (details_decimal v ''quantity'', details_decimal v ''price'') of
              (Inr q, Inr p) \<Rightarrow> (case order_fill o1 q p of Inr o2 \<Rightarrow> Some o2 | Inl _ \<Rightarrow> None)
            | _ \<Rightarrow> None)
      else if boe_event_type v = ''ORDER_CANCELLED''
      then (case withdraw o1 of Inr o2 \<Rightarrow> Some o2 | Inl _ \<Rightarrow> None)
      else if boe_event_type v = ''ORDER_REPLACED''
      then (case (details_decimal v ''quantity'', details_decimal v ''limit_price'') of
              (Inr q, Inr p) \<Rightarrow> (if amendable o1 q p then Some (amend_order o1 q p) else None)
            | _ \<Rightarrow> None)
      else Some o1)"

fun replay_order :: "broker_order_event list \<Rightarrow> paper_order \<Rightarrow> paper_order option" where
  "replay_order [] o1 = Some o1"
| "replay_order (v # vs) o1 = (case order_after v o1 of None \<Rightarrow> None | Some o2 \<Rightarrow> replay_order vs o2)"

lemma replay_append:
  "replay_order (vs @ ws) o1 = (case replay_order vs o1 of None \<Rightarrow> None | Some o2 \<Rightarrow> replay_order ws o2)"
  by (induction vs arbitrary: o1) (auto split: option.splits)

definition submitted :: "paper_order \<Rightarrow> bool" where
  "submitted o1 \<longleftrightarrow> po_status o1 \<in> {ACKNOWLEDGED, PARTIALLY_FILLED, FILLED, CANCELLED}"

text \<open>The three events that change an order, and the rest.\<close>

lemma order_after_cases:
  assumes "order_after v o1 = Some o2"
  obtains (fill) q p where "boe_event_type v = ''FILL''" "details_decimal v ''quantity'' = Inr q"
      "details_decimal v ''price'' = Inr p" "order_fill o1 q p = Inr o2"
  | (cancel) "boe_event_type v = ''ORDER_CANCELLED''" "fillable (po_status o1)" "o2 = o1\<lparr>po_status := CANCELLED\<rparr>"
  | (replace) q p where "boe_event_type v = ''ORDER_REPLACED''" "details_decimal v ''quantity'' = Inr q"
      "details_decimal v ''limit_price'' = Inr p" "amendable o1 q p" "o2 = amend_order o1 q p"
  | (other) "boe_event_type v \<notin> {''FILL'', ''ORDER_CANCELLED'', ''ORDER_REPLACED''}" "o2 = o1"
proof -
  consider "boe_event_type v = ''FILL''" | "boe_event_type v = ''ORDER_CANCELLED''" | "boe_event_type v = ''ORDER_REPLACED''"
    | "boe_event_type v \<notin> {''FILL'', ''ORDER_CANCELLED'', ''ORDER_REPLACED''}" by blast
  then show ?thesis
  proof cases
    case 1
    then show ?thesis using assms fill by (simp add: order_after_def split: sum.splits)
  next
    case 2
    then show ?thesis using assms cancel withdraw_iff [of o1] by (simp add: order_after_def split: sum.splits)
  next
    case 3
    then show ?thesis using assms replace by (simp add: order_after_def split: sum.splits if_splits)
  next
    case 4
    then show ?thesis using assms other by (simp add: order_after_def)
  qed
qed

lemma order_after_facts:
  assumes "order_after v o1 = Some o2"
  shows "intent_id_of o2 = intent_id_of o1" "submitted o1 \<Longrightarrow> submitted o2"
  using assms
  by (cases rule: order_after_cases; simp add: submitted_def amend_order_def order_fill_ok(5,7))+

section \<open>Fresh identifiers\<close>

text \<open>\<open>uuid4\<close> never repeats an identifier: the draws of a call are distinct and not yet in the tables.\<close>

definition draw_id :: "(nat \<Rightarrow> oms_env \<times> oms_env) \<Rightarrow> nat \<Rightarrow> bool \<Rightarrow> uuid" where
  "draw_id env k second = oe_event_id (if second then snd (env k) else fst (env k))"

definition distinct_draws :: "(nat \<Rightarrow> oms_env \<times> oms_env) \<Rightarrow> bool" where
  "distinct_draws env \<longleftrightarrow>
     (\<forall>j k b c. draw_id env j b = draw_id env k c \<longrightarrow> j = k \<and> b = c) \<and>
     (\<forall>j k. oe_row_id (fst (env j)) = oe_row_id (fst (env k)) \<longrightarrow> j = k)"

definition unused_draws :: "(nat \<Rightarrow> oms_env \<times> oms_env) \<Rightarrow> nat \<Rightarrow> oms \<Rightarrow> bool" where
  "unused_draws env n m \<longleftrightarrow>
     (\<forall>k \<ge> n. (\<forall>b. draw_id env k b \<notin> ov_event_id ` set (om_events m)) \<and>
        oe_row_id (fst (env k)) \<notin> rf_fill_id ` set (om_fills m))"

text \<open>What one step of ingestion adds to the tables: only its own draws.\<close>

definition adds_draw :: "oms_env \<times> oms_env \<Rightarrow> oms \<Rightarrow> oms \<Rightarrow> bool" where
  "adds_draw e m m' \<longleftrightarrow>
     ov_event_id ` set (om_events m') \<subseteq> {oe_event_id (fst e), oe_event_id (snd e)} \<union> ov_event_id ` set (om_events m) \<and>
     rf_fill_id ` set (om_fills m') \<subseteq> insert (oe_row_id (fst e)) (rf_fill_id ` set (om_fills m))"

lemma unused_after_step:
  assumes "distinct_draws env" "unused_draws env n m" "adds_draw (env n) m m'"
  shows "unused_draws env (Suc n) m'"
  unfolding unused_draws_def
proof (intro allI impI conjI)
  fix k b assume k: "Suc n \<le> k"
  have d: "draw_id env k b \<noteq> draw_id env n c" for c
  proof
    assume "draw_id env k b = draw_id env n c"
    then have "k = n" using assms(1) unfolding distinct_draws_def by blast
    with k show False by simp
  qed
  have "draw_id env k b \<notin> ov_event_id ` set (om_events m)" using assms(2) k by (simp add: unused_draws_def)
  moreover have "draw_id env k b \<noteq> oe_event_id (fst (env n))" "draw_id env k b \<noteq> oe_event_id (snd (env n))"
    using d [of False] d [of True] by (simp_all add: draw_id_def)
  ultimately show "draw_id env k b \<notin> ov_event_id ` set (om_events m')"
    using assms(3) unfolding adds_draw_def by blast
next
  fix k assume k: "Suc n \<le> k"
  have "oe_row_id (fst (env k)) \<noteq> oe_row_id (fst (env n))"
    using assms(1) k unfolding distinct_draws_def by (metis not_less_eq_eq order_refl)
  moreover have "oe_row_id (fst (env k)) \<notin> rf_fill_id ` set (om_fills m)" using assms(2) k by (simp add: unused_draws_def)
  ultimately show "oe_row_id (fst (env k)) \<notin> rf_fill_id ` set (om_fills m')"
    using assms(3) unfolding adds_draw_def by blast
qed

section \<open>Ingesting one event\<close>

text \<open>An update of a stored order with a fresh event identifier returns.\<close>

lemma write_and_log_run:
  assumes "dict_get (om_orders s) (intent_id_of o1) = Some row" "row_update row o1 = o1"
    and "oe_event_id e \<notin> ov_event_id ` set (om_events s)"
  obtains v where "write_and_log e o1 t p s =
      (Inr o1, s\<lparr>om_orders := dict_set (intent_id_of o1) o1 (om_orders s), om_events := om_events s @ [v]\<rparr>)"
    "ov_event_id v = oe_event_id e"
proof -
  let ?v = "\<lparr>ov_sequence = length (om_events s) + 1, ov_event_id = oe_event_id e, ov_intent_id = intent_id_of o1,
      ov_event_type = t, ov_occurred_at = oe_event_now e, ov_payload = p\<rparr>"
  have w: "oms_write_order o1 s = (Inr (), s\<lparr>om_orders := dict_set (intent_id_of o1) o1 (om_orders s)\<rparr>)"
    using assms(1,2) by (simp add: oms_write_order_def row_update_def)
  have "write_and_log e o1 t p s =
      (Inr o1, s\<lparr>om_orders := dict_set (intent_id_of o1) o1 (om_orders s), om_events := om_events s @ [?v]\<rparr>)"
    using assms(3) by (simp add: write_and_log_def bind_method_def w oms_append_event_def)
  then show ?thesis using that by simp
qed

lemma oms_transition_run:
  assumes "dict_get (om_orders s) i = Some o1" "intent_id_of o1 = i" "order_transition o1 n = Inr o2"
    and "oe_event_id e \<notin> ov_event_id ` set (om_events s)"
  obtains v where "oms_transition e i n actor s =
      (Inr o2, s\<lparr>om_orders := dict_set i o2 (om_orders s), om_events := om_events s @ [v]\<rparr>)"
    "ov_event_id v = oe_event_id e" "intent_id_of o2 = i"
proof -
  have o2: "intent_id_of o2 = i" "row_update o1 o2 = o2" using assms(2,3) by (auto simp: order_simps intro: row_update_same)
  have row: "dict_get (om_orders s) (intent_id_of o2) = Some o1" using assms(1) o2(1) by simp
  obtain v where "write_and_log e o2 ''ORDER_STATUS_CHANGED''
        [(''actor'', actor), (''from'', status_value (po_status o1)), (''to'', status_value n)] s =
      (Inr o2, s\<lparr>om_orders := dict_set (intent_id_of o2) o2 (om_orders s), om_events := om_events s @ [v]\<rparr>)"
    "ov_event_id v = oe_event_id e"
    by (rule write_and_log_run [OF row o2(2) assms(4)])
  then show ?thesis using that o2(1) assms(1,3) by (simp add: oms_transition_def oms_get_def)
qed

text \<open>An event the adapter can have written, and what its ingestion does to the tables.\<close>

definition proper_event :: "broker_order_event \<Rightarrow> bool" where
  "proper_event v \<longleftrightarrow>
     aware (boe_occurred_at v) \<and> (is_fill v \<longrightarrow> (\<exists>x. dict_get (boe_details v) ''external_fill_id'' = Some x \<and> \<not> blank x))"

definition ingests :: "broker_order_event \<Rightarrow> paper_order \<Rightarrow> oms \<Rightarrow> oms \<Rightarrow> bool" where
  "ingests v o2 m m' \<longleftrightarrow>
     (\<forall>j. dict_get (om_orders m') j = (if j = boe_client_intent_id v then Some o2 else dict_get (om_orders m) j)) \<and>
     map rf_external_fill_id (om_fills m') =
       map rf_external_fill_id (om_fills m) @ (if is_fill v then [event_fill_id v] else [])"

lemma ingest_fill_run:
  assumes "dict_get (om_orders m) i = Some o1" "intent_id_of o1 = i" "order_fill o1 q p = Inr o2"
    and "\<not> blank x" "aware t" "x \<notin> rf_external_fill_id ` set (om_fills m)"
    and "oe_row_id e \<notin> rf_fill_id ` set (om_fills m)" "oe_event_id e \<notin> ov_event_id ` set (om_events m)"
  obtains v f where "oms_ingest_fill e x i q p (Some t) m =
      (Inr o2, m\<lparr>om_orders := dict_set i o2 (om_orders m), om_events := om_events m @ [v], om_fills := om_fills m @ [f]\<rparr>)"
    "ov_event_id v = oe_event_id e" "rf_external_fill_id f = x" "rf_fill_id f = oe_row_id e"
proof -
  note f = order_fill_ok [OF assms(3)]
  let ?f = "\<lparr>rf_fill_id = oe_row_id e, rf_external_fill_id = x, rf_intent_id = i, rf_occurred_at = t,
      rf_quantity = q, rf_price = p\<rparr>"
  let ?m = "m\<lparr>om_fills := om_fills m @ [?f]\<rparr>"
  have o2: "intent_id_of o2 = i" "row_update o1 o2 = o2" using f(5) assms(2) by (auto intro: row_update_same)
  have guard: "\<not> (blank x \<or> q \<le> 0 \<or> p \<le> 0)" using assms(4) f(2,3) by (simp add: dec_order)
  have new: "find (\<lambda>f. rf_external_fill_id f = x) (om_fills m) = None" using assms(6) by (auto simp: find_None_iff)
  obtain v where v: "write_and_log e o2 ''FILL_INGESTED''
        [(''external_fill_id'', x), (''price'', dec_str p), (''quantity'', dec_str q), (''status'', status_value (po_status o2))] ?m =
      (Inr o2, ?m\<lparr>om_orders := dict_set (intent_id_of o2) o2 (om_orders ?m), om_events := om_events ?m @ [v]\<rparr>)"
    "ov_event_id v = oe_event_id e"
    by (rule write_and_log_run [of ?m o2 o1 e]) (use assms(1,8) o2 in auto)
  have "oms_ingest_fill e x i q p (Some t) m =
      (Inr o2, m\<lparr>om_orders := dict_set i o2 (om_orders m), om_events := om_events m @ [v], om_fills := om_fills m @ [?f]\<rparr>)"
    unfolding oms_ingest_fill_def Let_def option.case if_not_P [OF guard]
    using assms(1,3,5,7) new v(1) o2(1) by (simp add: oms_get_def)
  then show ?thesis using that v(2) by simp
qed

lemma cancel_run:
  assumes "dict_get (om_orders m) i = Some o1" "intent_id_of o1 = i" "fillable (po_status o1)"
    and "oe_event_id e \<notin> ov_event_id ` set (om_events m)" "oe_event_id e' \<notin> ov_event_id ` set (om_events m)"
    and "oe_event_id e \<noteq> oe_event_id e'"
  obtains o3 d v w where "oms_cancel e e' i actor m = (Inr o3, m\<lparr>om_orders := d, om_events := om_events m @ [v, w]\<rparr>)"
    "\<And>j. dict_get d j = (if j = i then Some (o1\<lparr>po_status := CANCELLED\<rparr>) else dict_get (om_orders m) j)"
    "ov_event_id v = oe_event_id e" "ov_event_id w = oe_event_id e'"
proof -
  let ?o2 = "o1\<lparr>po_status := CANCEL_PENDING\<rparr>" and ?o3 = "o1\<lparr>po_status := CANCELLED\<rparr>"
  have t: "order_transition o1 CANCEL_PENDING = Inr ?o2" "order_transition ?o2 CANCELLED = Inr ?o3"
    using assms(3) by (auto simp: order_simps fillable_def)
  obtain v where v: "oms_transition e i CANCEL_PENDING actor m =
      (Inr ?o2, m\<lparr>om_orders := dict_set i ?o2 (om_orders m), om_events := om_events m @ [v]\<rparr>)"
    "ov_event_id v = oe_event_id e"
    by (rule oms_transition_run [OF assms(1,2) t(1) assms(4)])
  let ?m = "m\<lparr>om_orders := dict_set i ?o2 (om_orders m), om_events := om_events m @ [v]\<rparr>"
  obtain w where w: "oms_transition e' i CANCELLED actor ?m =
      (Inr ?o3, ?m\<lparr>om_orders := dict_set i ?o3 (om_orders ?m), om_events := om_events ?m @ [w]\<rparr>)"
    "ov_event_id w = oe_event_id e'"
    by (rule oms_transition_run [of ?m i ?o2 CANCELLED ?o3 e']) (use assms(2,5,6) t(2) v(2) in \<open>auto simp: dict_simps\<close>)
  have "oms_cancel e e' i actor m = (Inr ?o3, ?m\<lparr>om_orders := dict_set i ?o3 (om_orders ?m), om_events := om_events ?m @ [w]\<rparr>)"
    using v(1) w(1) assms(2) by (simp add: oms_cancel_def bind_method_def)
  then have "oms_cancel e e' i actor m =
      (Inr ?o3, m\<lparr>om_orders := dict_set i ?o3 (dict_set i ?o2 (om_orders m)), om_events := om_events m @ [v, w]\<rparr>)"
    by simp
  then show ?thesis by (rule that) (use v(2) w(2) in \<open>auto simp: dict_simps\<close>)
qed

lemma amend_run:
  assumes "dict_get (om_orders m) i = Some o1" "intent_id_of o1 = i" "amendable o1 q p"
    and "oe_event_id e \<notin> ov_event_id ` set (om_events m)"
  obtains v where "oms_amend e i q p actor m =
      (Inr (amend_order o1 q p), m\<lparr>om_orders := dict_set i (amend_order o1 q p) (om_orders m), om_events := om_events m @ [v]\<rparr>)"
    "ov_event_id v = oe_event_id e"
proof -
  let ?o2 = "amend_order o1 q p"
  let ?d = "[(''actor'', actor), (''limit_price'', dec_str p), (''previous_limit_price'', dec_str (oi_limit_price (po_intent o1))),
             (''previous_quantity'', dec_str (oi_quantity (po_intent o1))), (''quantity'', dec_str q)]"
  have o2: "intent_id_of ?o2 = i" using assms(2) by (simp add: amend_order_def)
  obtain v where "write_and_log e ?o2 ''ORDER_AMENDED'' ?d m =
      (Inr ?o2, m\<lparr>om_orders := dict_set (intent_id_of ?o2) ?o2 (om_orders m), om_events := om_events m @ [v]\<rparr>)"
    "ov_event_id v = oe_event_id e"
    by (rule write_and_log_run [of m ?o2 o1 e]) (use assms(1,4) o2 row_update_amended in auto)
  then show ?thesis using that assms(1,3) o2 by (simp add: oms_amend_def oms_get_def)
qed

lemma apply_event_run:
  assumes o1: "dict_get (om_orders m) (boe_client_intent_id v) = Some o1" "intent_id_of o1 = boe_client_intent_id v"
    and after: "order_after v o1 = Some o2" and "proper_event v"
    and new: "is_fill v \<Longrightarrow> event_fill_id v \<notin> rf_external_fill_id ` set (om_fills m)"
    and d: "distinct_draws env" "unused_draws env n m"
  obtains m' where "apply_event (env n) v m = (Inr (), m')" "ingests v o2 m m'" "adds_draw (env n) m m'"
proof -
  let ?e = "fst (env n)" and ?e' = "snd (env n)" and ?i = "boe_client_intent_id v"
  have u: "oe_event_id ?e \<notin> ov_event_id ` set (om_events m)" "oe_event_id ?e' \<notin> ov_event_id ` set (om_events m)"
    "oe_row_id ?e \<notin> rf_fill_id ` set (om_fills m)"
    using d(2) unfolding unused_draws_def draw_id_def by (metis order_refl)+
  have ne: "oe_event_id ?e \<noteq> oe_event_id ?e'"
    using d(1) unfolding distinct_draws_def draw_id_def by metis
  show ?thesis
    using after
  proof (cases rule: order_after_cases)
    case (fill q p)
    then obtain x where x: "dict_get (boe_details v) ''external_fill_id'' = Some x" "\<not> blank x" "aware (boe_occurred_at v)"
      using assms(4) by (auto simp: proper_event_def is_fill_def)
    have xn: "x \<notin> rf_external_fill_id ` set (om_fills m)"
      using new x(1) fill(1) by (simp add: is_fill_def event_fill_id_def dict_get_or_def)
    obtain w f where r: "oms_ingest_fill ?e x ?i q p (Some (boe_occurred_at v)) m =
        (Inr o2, m\<lparr>om_orders := dict_set ?i o2 (om_orders m), om_events := om_events m @ [w], om_fills := om_fills m @ [f]\<rparr>)"
      "ov_event_id w = oe_event_id ?e" "rf_external_fill_id f = x" "rf_fill_id f = oe_row_id ?e"
      by (rule ingest_fill_run [OF o1 fill(4) x(2,3) xn u(3,1)])
    have "apply_event (env n) v m =
        (Inr (), m\<lparr>om_orders := dict_set ?i o2 (om_orders m), om_events := om_events m @ [w], om_fills := om_fills m @ [f]\<rparr>)"
      using fill x(1) r(1) by (simp add: apply_event_def ingest_event_fill_def details_text_def rename_error_def)
    then show ?thesis
      by (rule that) (use r(2-4) x(1) fill(1) in
        \<open>auto simp: ingests_def adds_draw_def dict_simps is_fill_def event_fill_id_def dict_get_or_def\<close>)
  next
    case cancel
    obtain o3 c w w' where r:
      "oms_cancel ?e ?e' ?i ''broker_sync'' m = (Inr o3, m\<lparr>om_orders := c, om_events := om_events m @ [w, w']\<rparr>)"
      "\<And>j. dict_get c j = (if j = ?i then Some (o1\<lparr>po_status := CANCELLED\<rparr>) else dict_get (om_orders m) j)"
      "ov_event_id w = oe_event_id ?e" "ov_event_id w' = oe_event_id ?e'"
      by (rule cancel_run [OF o1 cancel(2) u(1,2) ne, of "''broker_sync''"]) blast
    have "apply_event (env n) v m = (Inr (), m\<lparr>om_orders := c, om_events := om_events m @ [w, w']\<rparr>)"
      using cancel(1,2) o1(1) r(1) by (simp add: apply_event_def oms_get_def fillable_def bind_method_def)
    then show ?thesis
      by (rule that) (use r(2-4) cancel in \<open>auto simp: ingests_def adds_draw_def is_fill_def\<close>)
  next
    case (replace q p)
    obtain w where r: "oms_amend ?e ?i q p ''broker_sync'' m =
        (Inr (amend_order o1 q p), m\<lparr>om_orders := dict_set ?i (amend_order o1 q p) (om_orders m), om_events := om_events m @ [w]\<rparr>)"
      "ov_event_id w = oe_event_id ?e"
      by (rule amend_run [OF o1 replace(4) u(1)])
    have "apply_event (env n) v m =
        (Inr (), m\<lparr>om_orders := dict_set ?i (amend_order o1 q p) (om_orders m), om_events := om_events m @ [w]\<rparr>)"
      using replace r(1) by (simp add: apply_event_def ingest_replacement_def rename_error_def)
    then show ?thesis
      by (rule that) (use r(2) replace in \<open>auto simp: ingests_def adds_draw_def dict_simps is_fill_def\<close>)
  next
    case other
    then have "apply_event (env n) v m = (Inr (), m)" by (simp add: apply_event_def)
    then show ?thesis
      by (rule that) (use other o1 in \<open>auto simp: ingests_def adds_draw_def is_fill_def\<close>)
  qed
qed

end
