(* ===== verification/BrokerMirror.thy ===== *)
theory BrokerMirror
  imports BrokerSync
begin

text \<open>
  What the synchronisation of \<open>broker_sync.py\<close> achieves: a coupling between the broker's order book and
  the order management store that every call keeps, the progress of a synchronisation under it, the
  reachable states of the service and the properties that hold in all of them.
\<close>

section \<open>The order book follows the broker\<close>

definition cursor :: "sync_service \<Rightarrow> nat" where
  "cursor s = nat (last_sequence (broker_name_of s) (sv_events s))"

definition pending_events :: "sync_service \<Rightarrow> broker_order_event list" where
  "pending_events s = drop (cursor s) (sb_events (sv_adapter s))"

definition known_events :: "sync_service \<Rightarrow> broker_order_event list" where
  "known_events s = take (cursor s) (sb_events (sv_adapter s))"

definition about :: "uuid \<Rightarrow> broker_order_event list \<Rightarrow> broker_order_event list" where
  "about i vs = filter (\<lambda>v. boe_client_intent_id v = i) vs"

text \<open>The adapter's log: numbered, named after the number, with distinct identifiers.\<close>

definition adapter_log :: "sandbox \<Rightarrow> bool" where
  "adapter_log b \<longleftrightarrow> log_inv b \<and>
     map boe_external_event_id (sb_events b) = map (\<lambda>n. ''sandbox:'' @ nat_str (Suc n)) [0..<length (sb_events b)] \<and>
     distinct (map boe_event_id (sb_events b)) \<and> (\<forall>v \<in> set (sb_events b). proper_event v)"

text \<open>
  The coupling: the event store holds exactly the events up to the cursor, the fills those events
  report are the fills of the order store, and every order of the broker is its counterpart in the
  order store moved on by the events still pending.
\<close>

definition stores_known :: "sync_service \<Rightarrow> bool" where
  "stores_known s \<longleftrightarrow>
     0 \<le> last_sequence (broker_name_of s) (sv_events s) \<and> cursor s \<le> length (sb_events (sv_adapter s)) \<and>
     es_events (sv_events s) = map (stored_of (broker_name_of s)) (known_events s) \<and>
     map rf_external_fill_id (om_fills (sv_oms s)) = map event_fill_id (filter is_fill (known_events s))"

definition behind :: "sync_service \<Rightarrow> uuid \<Rightarrow> bool" where
  "behind s i \<longleftrightarrow>
     (\<forall>o2. dict_get (sb_orders (sv_adapter s)) i = Some o2 \<longrightarrow>
        (\<exists>o1. dict_get (om_orders (sv_oms s)) i = Some o1 \<and> submitted o1 \<and>
           replay_order (about i (pending_events s)) o1 = Some o2))"

definition mirrored :: "sync_service \<Rightarrow> bool" where
  "mirrored s \<longleftrightarrow> adapter_log (sv_adapter s) \<and> stores_known s \<and> keyed (om_orders (sv_oms s)) \<and> (\<forall>i. behind s i)"

lemma nat_str_inject [simp]: "nat_str m = nat_str n \<longleftrightarrow> m = n"
  by (metis nat_str_value)

lemma nth_by_index:
  assumes "map f xs = map g [0..<length xs]" "n < length xs"
  shows "f (xs ! n) = g n"
proof -
  have "map f xs ! n = map g [0..<length xs] ! n" unfolding assms(1) ..
  then show ?thesis using assms(2) by simp
qed

lemma adapter_logD:
  assumes "adapter_log b" "n < length (sb_events b)"
  shows "boe_sequence (sb_events b ! n) = int n + 1"
    "boe_external_event_id (sb_events b ! n) = ''sandbox:'' @ nat_str (Suc n)" "proper_event (sb_events b ! n)"
  using assms nth_by_index [of boe_sequence "sb_events b" "\<lambda>n. int n + 1" n]
    nth_by_index [of boe_external_event_id "sb_events b" "\<lambda>n. ''sandbox:'' @ nat_str (Suc n)" n]
  by (simp_all add: adapter_log_def log_inv_def)

lemma polled_events:
  assumes "adapter_log (sv_adapter s)" "stores_known s"
  shows "sb_order_events (last_sequence (broker_name_of s) (sv_events s)) (sv_adapter s) = Inr (pending_events s)"
proof -
  let ?c = "last_sequence (broker_name_of s) (sv_events s)"
  have c: "0 \<le> ?c" using assms(2) by (simp add: stores_known_def)
  then have "?c = int (cursor s)" by (simp add: cursor_def)
  moreover have "filter (\<lambda>e. int (cursor s) < boe_sequence e) (sb_events (sv_adapter s)) = pending_events s"
    using numbered_filter [of "sb_events (sv_adapter s)" 0 "cursor s"] assms(1)
    by (simp add: adapter_log_def log_inv_def pending_events_def)
  ultimately show ?thesis using c by (simp add: sb_order_events_def)
qed

lemma pending_head:
  assumes "stores_known s" "pending_events s = v # vs"
  shows "cursor s < length (sb_events (sv_adapter s))" "v = sb_events (sv_adapter s) ! cursor s"
    "vs = drop (Suc (cursor s)) (sb_events (sv_adapter s))"
    "take (Suc (cursor s)) (sb_events (sv_adapter s)) = known_events s @ [v]"
    "v \<in> set (sb_events (sv_adapter s))"
proof -
  show l: "cursor s < length (sb_events (sv_adapter s))"
    using assms(2) by (cases "cursor s < length (sb_events (sv_adapter s))") (auto simp: pending_events_def)
  show v: "v = sb_events (sv_adapter s) ! cursor s" and "vs = drop (Suc (cursor s)) (sb_events (sv_adapter s))"
    using assms(2) l by (auto simp: pending_events_def Cons_nth_drop_Suc [symmetric])
  show "take (Suc (cursor s)) (sb_events (sv_adapter s)) = known_events s @ [v]"
    unfolding known_events_def v by (rule take_Suc_conv_app_nth [OF l])
  show "v \<in> set (sb_events (sv_adapter s))" using v l by simp
qed

text \<open>The next pending event is new to the event store, which takes it and moves the cursor to it.\<close>

lemma event_append_next:
  assumes "adapter_log (sv_adapter s)" "stores_known s" "pending_events s = v # vs"
  obtains es where "event_append (broker_name_of s) v (sv_events s) = (Inr True, es)"
    "es_events es = es_events (sv_events s) @ [stored_of (broker_name_of s) v]"
    "last_sequence (broker_name_of s) es = int (cursor s) + 1"
proof -
  let ?b = "sb_events (sv_adapter s)" and ?n = "broker_name_of s"
  note h = pending_head [OF assms(2,3)] and ad = adapter_logD [OF assms(1)]
  have sq: "boe_sequence v = int (cursor s) + 1" "boe_external_event_id v = ''sandbox:'' @ nat_str (Suc (cursor s))"
    using ad(1,2) [OF h(1)] h(2) by simp_all
  have last: "last_sequence ?n (sv_events s) = int (cursor s)" using assms(2) by (simp add: stores_known_def cursor_def)
  have ev: "es_events (sv_events s) = map (stored_of ?n) (known_events s)" using assms(2) by (simp add: stores_known_def)
  have kn: "\<exists>m < cursor s. m < length ?b \<and> w = ?b ! m" if "w \<in> set (known_events s)" for w
    using that h(1) by (auto simp: known_events_def in_set_conv_nth)
  have x: "boe_external_event_id v \<noteq> boe_external_event_id w" if "w \<in> set (known_events s)" for w
    using kn [OF that] ad(2) sq(2) by auto
  have y: "boe_event_id v \<noteq> boe_event_id w" if w: "w \<in> set (known_events s)" for w
  proof -
    obtain m where m: "m < cursor s" "w = ?b ! m" using kn [OF w] by blast
    have "distinct (map boe_event_id ?b)" using assms(1) by (simp add: adapter_log_def)
    then have "map boe_event_id ?b ! m \<noteq> map boe_event_id ?b ! cursor s"
      using m(1) h(1) by (subst nth_eq_iff_index_eq) auto
    then show ?thesis using m h(1,2) by simp
  qed
  have "boe_event_id v \<notin> se_event_id ` set (es_events (sv_events s))"
    "boe_external_event_id v \<notin> se_external_event_id ` set (es_events (sv_events s))"
    unfolding ev using x y by (simp_all add: stored_of_def image_iff)
  moreover have "\<not> (boe_sequence v \<le> 0 \<or> blank (boe_external_event_id v))"
    unfolding sq by (simp add: blank_iff is_space_def)
  ultimately show ?thesis
    using that [of "(sv_events s)\<lparr>es_events := es_events (sv_events s) @ [stored_of ?n v],
        es_cursors := dict_set ?n (boe_sequence v) (es_cursors (sv_events s))\<rparr>"] last sq(1)
    by (simp add: event_append_def last_sequence_def dict_get_or_def dict_simps)
qed

lemma event_order_known:
  assumes "mirrored s" "v \<in> set (sb_events (sv_adapter s))"
  obtains o1 o2 where "dict_get (sb_orders (sv_adapter s)) (boe_client_intent_id v) = Some o2"
    "dict_get (om_orders (sv_oms s)) (boe_client_intent_id v) = Some o1" "submitted o1"
    "intent_id_of o1 = boe_client_intent_id v"
    "replay_order (about (boe_client_intent_id v) (pending_events s)) o1 = Some o2"
proof -
  have "dict_get (sb_orders (sv_adapter s)) (boe_client_intent_id v) \<noteq> None"
    using assms unfolding mirrored_def adapter_log_def log_inv_def by blast
  then obtain o2 where o2: "dict_get (sb_orders (sv_adapter s)) (boe_client_intent_id v) = Some o2" by blast
  have "behind s (boe_client_intent_id v)" using assms(1) by (simp add: mirrored_def)
  then obtain o1 where o1: "dict_get (om_orders (sv_oms s)) (boe_client_intent_id v) = Some o1" "submitted o1"
    "replay_order (about (boe_client_intent_id v) (pending_events s)) o1 = Some o2"
    using o2 unfolding behind_def by blast
  have "intent_id_of o1 = boe_client_intent_id v" using assms(1) o1(1) by (simp add: mirrored_def keyed_def)
  then show ?thesis using that o2 o1 by blast
qed

lemma new_fill_id:
  assumes "mirrored s" "pending_events s = v # vs" "is_fill v"
  shows "event_fill_id v \<notin> rf_external_fill_id ` set (om_fills (sv_oms s))"
proof -
  have "sb_events (sv_adapter s) = known_events s @ v # vs"
    using assms(2) by (metis known_events_def pending_events_def append_take_drop_id)
  moreover have "distinct (map event_fill_id (filter is_fill (sb_events (sv_adapter s))))"
    using assms(1) by (simp add: mirrored_def adapter_log_def log_inv_def)
  ultimately have "event_fill_id v \<notin> set (map event_fill_id (filter is_fill (known_events s)))"
    using assms(3) by simp
  moreover have "map rf_external_fill_id (om_fills (sv_oms s)) = map event_fill_id (filter is_fill (known_events s))"
    using assms(1) by (simp add: mirrored_def stores_known_def)
  ultimately show ?thesis by (metis set_map)
qed

text \<open>Ingesting the next pending event keeps the coupling, with one event less pending.\<close>

lemma mirrored_next:
  assumes m: "mirrored s" and p: "pending_events s = v # vs" and d: "distinct_draws env" "unused_draws env n (sv_oms s)"
  obtains es m' where "event_append (broker_name_of s) v (sv_events s) = (Inr True, es)"
    "apply_event (env n) v (sv_oms s) = (Inr (), m')" "unused_draws env (Suc n) m'"
    "mirrored (s\<lparr>sv_events := es, sv_oms := m'\<rparr>)" "pending_events (s\<lparr>sv_events := es, sv_oms := m'\<rparr>) = vs"
proof -
  let ?i = "boe_client_intent_id v"
  have al: "adapter_log (sv_adapter s)" and st: "stores_known s" using m by (simp_all add: mirrored_def)
  note h = pending_head [OF st p]
  obtain es where es: "event_append (broker_name_of s) v (sv_events s) = (Inr True, es)"
    "es_events es = es_events (sv_events s) @ [stored_of (broker_name_of s) v]"
    "last_sequence (broker_name_of s) es = int (cursor s) + 1"
    by (rule event_append_next [OF al st p])
  obtain o1 o2 where o: "dict_get (sb_orders (sv_adapter s)) ?i = Some o2" "dict_get (om_orders (sv_oms s)) ?i = Some o1"
    "submitted o1" "intent_id_of o1 = ?i" "replay_order (about ?i (pending_events s)) o1 = Some o2"
    by (rule event_order_known [OF m h(5)])
  obtain o1' where o1': "order_after v o1 = Some o1'" "replay_order (about ?i vs) o1' = Some o2"
    using o(5) by (auto simp: p about_def split: option.splits)
  have pv: "proper_event v" using al h(5) by (simp add: adapter_log_def)
  obtain m' where m': "apply_event (env n) v (sv_oms s) = (Inr (), m')" "ingests v o1' (sv_oms s) m'" "adds_draw (env n) (sv_oms s) m'"
    by (rule apply_event_run [OF o(2,4) o1'(1) pv new_fill_id [OF m p] d])
  let ?t = "s\<lparr>sv_events := es, sv_oms := m'\<rparr>"
  have nm: "broker_name_of ?t = broker_name_of s" by (simp add: broker_name_of_def)
  have "cursor ?t = nat (last_sequence (broker_name_of s) es)" by (simp add: cursor_def nm)
  then have c: "cursor ?t = Suc (cursor s)" unfolding es(3) by simp
  have pe: "pending_events ?t = vs" using h(3) by (simp add: pending_events_def c)
  have ke: "known_events ?t = known_events s @ [v]" using h(4) by (simp add: known_events_def c)
  have "stores_known ?t"
    using st h(1) es(2,3) m'(2) unfolding stores_known_def nm ke c ingests_def by simp
  moreover have "keyed (om_orders m')"
    using m m'(2) order_after_facts(1) [OF o1'(1)] o(4) by (auto simp: mirrored_def keyed_def ingests_def)
  moreover have "behind ?t i" for i
  proof (cases "i = ?i")
    case True
    then show ?thesis
      using o(1) o1' m'(2) order_after_facts(2) [OF o1'(1) o(3)] by (simp add: behind_def pe ingests_def)
  next
    case False
    have "behind s i" using m by (simp add: mirrored_def)
    then show ?thesis using False m'(2) by (simp add: behind_def pe p ingests_def about_def)
  qed
  ultimately have "mirrored ?t" using al by (simp add: mirrored_def)
  then show ?thesis using that es(1) m'(1) pe unused_after_step [OF d m'(3)] by blast
qed

text \<open>So the whole loop runs through, stores every pending event and leaves nothing pending.\<close>

lemma sync_loop_run:
  "\<lbrakk>mirrored s; pending_events s = vs; distinct_draws env; unused_draws env n (sv_oms s)\<rbrakk> \<Longrightarrow>
   \<exists>t. sync_loop env n (broker_name_of s) vs s = (Inr (map (stored_of (broker_name_of s)) vs), t) \<and>
     mirrored t \<and> pending_events t = [] \<and> sv_adapter t = sv_adapter s \<and>
     sv_alerts t = sv_alerts s \<and> sv_decisions t = sv_decisions s \<and> sv_assessments t = sv_assessments s \<and>
     sv_policies t = sv_policies s"
proof (induction vs arbitrary: s n)
  case Nil
  then show ?case by simp
next
  case (Cons v vs)
  obtain es m' where st: "event_append (broker_name_of s) v (sv_events s) = (Inr True, es)"
    "apply_event (env n) v (sv_oms s) = (Inr (), m')" "unused_draws env (Suc n) m'"
    "mirrored (s\<lparr>sv_events := es, sv_oms := m'\<rparr>)" "pending_events (s\<lparr>sv_events := es, sv_oms := m'\<rparr>) = vs"
    by (rule mirrored_next [OF Cons.prems])
  let ?t = "s\<lparr>sv_events := es, sv_oms := m'\<rparr>"
  have nm: "broker_name_of ?t = broker_name_of s" by (simp add: broker_name_of_def)
  have "unused_draws env (Suc n) (sv_oms ?t)" using st(3) by simp
  from Cons.IH [OF st(4,5) Cons.prems(3) this] obtain t where t:
    "sync_loop env (Suc n) (broker_name_of s) vs ?t = (Inr (map (stored_of (broker_name_of s)) vs), t)"
    "mirrored t" "pending_events t = []" "sv_adapter t = sv_adapter s" "sv_alerts t = sv_alerts s"
    "sv_decisions t = sv_decisions s" "sv_assessments t = sv_assessments s" "sv_policies t = sv_policies s"
    by (auto simp: nm)
  have "sync_loop env n (broker_name_of s) (v # vs) s = (Inr (map (stored_of (broker_name_of s)) (v # vs)), t)"
    using st(1,2) t(1) by (simp add: on_events_def on_oms_def)
  then show ?case using t by blast
qed

lemma sync_run:
  assumes "mirrored s" "distinct_draws env" "unused_draws env 0 (sv_oms s)"
  obtains t where "sync_events env s = (Inr (map (stored_of (broker_name_of s)) (pending_events s)), t)"
    "mirrored t" "pending_events t = []" "sv_adapter t = sv_adapter s" "sv_alerts t = sv_alerts s"
    "sv_decisions t = sv_decisions s" "sv_assessments t = sv_assessments s" "sv_policies t = sv_policies s"
proof -
  have "sync_events env s = sync_loop env 0 (broker_name_of s) (pending_events s) s"
    using assms(1) by (simp add: sync_events_def polled_events mirrored_def)
  then show ?thesis using sync_loop_run [OF assms(1) refl assms(2,3)] that by auto
qed

text \<open>With nothing pending, the order store holds exactly the broker's orders.\<close>

lemma caught_up:
  assumes "mirrored s" "pending_events s = []" "dict_get (sb_orders (sv_adapter s)) i = Some o1"
  shows "dict_get (om_orders (sv_oms s)) i = Some o1"
proof -
  have "behind s i" using assms(1) by (simp add: mirrored_def)
  then show ?thesis using assms(2,3) by (auto simp: behind_def about_def)
qed

section \<open>Calls on the broker's side\<close>

fun call_env :: "sandbox_call \<Rightarrow> event_env" where
  "call_env (SbSubmit e o1) = e"
| "call_env (SbCancel e i) = e"
| "call_env (SbReplace e i q p) = e"
| "call_env (SbFill e x i q p fee) = e"

definition fresh_event :: "event_env \<Rightarrow> sandbox \<Rightarrow> bool" where
  "fresh_event e b \<longleftrightarrow> ee_event_id e \<notin> boe_event_id ` set (sb_events b) \<and> aware (ee_now e)"

lemma call_event_env:
  assumes "sb_events (sb_perform c b) = sb_events b @ [v]"
  shows "boe_event_id v = ee_event_id (call_env c)" "boe_occurred_at v = ee_now (call_env c)"
  using assms
  by (cases c; auto simp: sb_submit_def sb_cancel_def sb_replace_def sb_fill_def sb_event_def sb_put_def settle_fill_def Let_def
      split: if_splits sum.splits)+

lemma adapter_log_extend:
  assumes "adapter_log b" "log_inv b'" "sb_events b' = sb_events b @ [v]"
    and "boe_external_event_id v = ''sandbox:'' @ nat_str (length (sb_events b) + 1)"
    and "boe_event_id v \<notin> boe_event_id ` set (sb_events b)" "proper_event v"
  shows "adapter_log b'"
  using assms by (auto simp: adapter_log_def)

text \<open>A call on an order the broker has changes nothing, or appends the event of the change it made.\<close>

lemma sb_event_appended:
  "sb_events (sb_event e o2 ty d s1) = sb_events s1 @ [\<lparr>boe_sequence = int (length (sb_events s1) + 1),
     boe_event_id = ee_event_id e, boe_client_intent_id = intent_id_of o2, boe_status = po_status o2, boe_event_type = ty,
     boe_occurred_at = ee_now e, boe_external_event_id = ''sandbox:'' @ nat_str (length (sb_events s1) + 1), boe_details = d\<rparr>]"
  by (simp add: sb_event_def Let_def)

lemma broker_call_event:
  assumes "adapter_log b" "\<forall>e o1. c \<noteq> SbSubmit e o1" "fresh_event (call_env c) b"
  shows "sb_perform c b = b \<or>
    (\<exists>v o1 o2. adapter_log (sb_perform c b) \<and> sb_configuration (sb_perform c b) = sb_configuration b \<and>
       sb_events (sb_perform c b) = sb_events b @ [v] \<and> dict_get (sb_orders b) (boe_client_intent_id v) = Some o1 \<and>
       order_after v o1 = Some o2 \<and> sb_orders (sb_perform c b) = dict_set (boe_client_intent_id v) o2 (sb_orders b))"
proof -
  have li: "log_inv (sb_perform c b)" "keyed (sb_orders b)"
    using assms(1) sb_perform_log_inv by (auto simp: adapter_log_def log_inv_def)
  have conclude: ?thesis
    if p: "sb_perform c b = sb_event e o2 ty d s1" and s1: "sb_events s1 = sb_events b" "sb_configuration s1 = sb_configuration b"
        "sb_orders s1 = dict_set (intent_id_of o2) o2 (sb_orders b)"
      and o1: "dict_get (sb_orders b) (intent_id_of o2) = Some o1"
        "\<And>v. boe_event_type v = ty \<Longrightarrow> boe_details v = d \<Longrightarrow> order_after v o1 = Some o2"
      and x: "ty = ''FILL'' \<Longrightarrow> \<exists>x. dict_get d ''external_fill_id'' = Some x \<and> \<not> blank x" for e o1 o2 ty d s1
  proof -
    obtain v where v: "sb_events (sb_perform c b) = sb_events b @ [v]" and
      f: "boe_external_event_id v = ''sandbox:'' @ nat_str (length (sb_events b) + 1)" "boe_client_intent_id v = intent_id_of o2"
        "boe_event_type v = ty" "boe_details v = d"
      using sb_event_appended [of e o2 ty d s1] unfolding p s1(1) by auto
    note e = call_event_env [OF v]
    have "proper_event v" using x assms(3) f(3,4) by (auto simp: proper_event_def is_fill_def e fresh_event_def)
    moreover have "boe_event_id v \<notin> boe_event_id ` set (sb_events b)" using assms(3) by (simp add: e fresh_event_def)
    ultimately have "adapter_log (sb_perform c b)" using adapter_log_extend [OF assms(1) li(1) v f(1)] by blast
    moreover have "sb_configuration (sb_perform c b) = sb_configuration b" "sb_orders (sb_perform c b) = dict_set (intent_id_of o2) o2 (sb_orders b)"
      unfolding p by (simp_all add: s1)
    ultimately show ?thesis using v o1(1) o1(2) [OF f(3,4)] unfolding f(2) [symmetric] by blast
  qed
  show ?thesis
  proof (cases c b rule: sb_perform_cases)
    case same
    then show ?thesis by simp
  next
    case (submit e o1 d)
    have "dict_get (sb_orders (sb_perform c b)) (intent_id_of o1) = Some o1"
      using submit(3) by (simp add: sb_put_def dict_simps)
    moreover have "dict_get (sb_orders (sb_perform c b)) (intent_id_of o1) = None"
      using submit(1) assms(2)
      by (cases c) (auto simp: sb_cancel_def sb_replace_def sb_fill_def sb_order_Inr sb_put_def Let_def dict_simps
          split: if_splits sum.splits)
    ultimately show ?thesis by simp
  next
    case (cancel e i o1 o2)
    have i: "intent_id_of o2 = i" using cancel(1,2) li(2) by (auto simp: keyed_def withdraw_iff)
    show ?thesis
      by (rule conclude [OF cancel(3)]) (use cancel(1,2) i in \<open>auto simp: sb_put_def order_after_def\<close>)
  next
    case (replace e i o1 q p)
    have i: "intent_id_of (amend_order o1 q p) = i" using replace(1) li(2) by (auto simp: keyed_def amend_order_def)
    show ?thesis
      by (rule conclude [OF replace(3)])
         (use replace(1,2) i in \<open>auto simp: sb_put_def order_after_def details_decimal_def details_text_def\<close>)
  next
    case (fill e x i o1 o2 q p fee s1)
    have i: "intent_id_of o2 = i" using fill(1) li(2) order_fill_ok(5) [OF fill(2)] by (auto simp: keyed_def)
    have s1: "sb_events s1 = sb_events b" "sb_orders s1 = dict_set i o2 (sb_orders b)" "sb_configuration s1 = sb_configuration b"
      by (simp_all add: fill(5) sb_put_def settle_fill_def Let_def)
    show ?thesis
      by (rule conclude [OF fill(6)])
         (use fill(1,2,4) i s1 in \<open>auto simp: order_after_def details_decimal_def details_text_def\<close>)
  qed
qed

section \<open>The coupling is kept\<close>

lemma known_submitted:
  "mirrored s \<Longrightarrow> dict_get (sb_orders (sv_adapter s)) i \<noteq> None \<Longrightarrow>
   \<exists>o1. dict_get (om_orders (sv_oms s)) i = Some o1 \<and> submitted o1"
  unfolding mirrored_def behind_def by blast

text \<open>A change of an order the broker does not know.\<close>

lemma mirrored_local:
  assumes "mirrored s" "dict_get (sb_orders (sv_adapter s)) i = None" "keyed (om_orders m')" "om_fills m' = om_fills (sv_oms s)"
    and "\<And>j. j \<noteq> i \<Longrightarrow> dict_get (om_orders m') j = dict_get (om_orders (sv_oms s)) j"
  shows "mirrored (s\<lparr>sv_oms := m'\<rparr>)"
proof -
  let ?t = "s\<lparr>sv_oms := m'\<rparr>"
  have e: "cursor ?t = cursor s" "pending_events ?t = pending_events s" "known_events ?t = known_events s" "broker_name_of ?t = broker_name_of s"
    by (simp_all add: cursor_def pending_events_def known_events_def broker_name_of_def)
  have "behind ?t j" for j
  proof -
    have "behind s j" using assms(1) by (simp add: mirrored_def)
    then show ?thesis using assms(2,5) by (cases "j = i") (simp_all add: behind_def e)
  qed
  then show ?thesis using assms(1,3,4) by (simp add: mirrored_def stores_known_def e)
qed

text \<open>A new event of the broker about one order, with whatever happened to that order in the order store.\<close>

lemma mirrored_extend:
  assumes m: "mirrored s" and b: "adapter_log b" "sb_configuration b = sb_configuration (sv_adapter s)"
      "sb_events b = sb_events (sv_adapter s) @ [v]"
      "sb_orders b = dict_set (boe_client_intent_id v) o2 (sb_orders (sv_adapter s))"
    and m': "keyed (om_orders m')" "om_fills m' = om_fills (sv_oms s)"
      "\<And>j. j \<noteq> boe_client_intent_id v \<Longrightarrow> dict_get (om_orders m') j = dict_get (om_orders (sv_oms s)) j"
    and o1: "dict_get (om_orders m') (boe_client_intent_id v) = Some o1" "submitted o1"
      "replay_order (about (boe_client_intent_id v) (pending_events s) @ [v]) o1 = Some o2"
  shows "mirrored (s\<lparr>sv_adapter := b, sv_oms := m'\<rparr>)"
proof -
  let ?t = "s\<lparr>sv_adapter := b, sv_oms := m'\<rparr>"
  have c: "cursor s \<le> length (sb_events (sv_adapter s))" using m by (simp add: mirrored_def stores_known_def)
  have nm: "broker_name_of ?t = broker_name_of s" using b(2) by (simp add: broker_name_of_def)
  have e: "cursor ?t = cursor s" by (simp add: cursor_def nm)
  have p: "pending_events ?t = pending_events s @ [v]" "known_events ?t = known_events s"
    using c by (simp_all add: pending_events_def known_events_def e b(3))
  have "behind ?t j" for j
  proof (cases "j = boe_client_intent_id v")
    case True
    then show ?thesis using o1 by (simp add: behind_def p b(4) dict_simps about_def)
  next
    case False
    have "behind s j" using m by (simp add: mirrored_def)
    then show ?thesis using False m'(3) by (simp add: behind_def p b(4) dict_simps about_def)
  qed
  then show ?thesis using m b(1,3) c m'(1,2) by (simp add: mirrored_def stores_known_def e p nm)
qed

lemma mirrored_broker_call:
  assumes "mirrored s" "\<forall>e o1. c \<noteq> SbSubmit e o1" "fresh_event (call_env c) (sv_adapter s)"
  shows "mirrored (s\<lparr>sv_adapter := sb_perform c (sv_adapter s)\<rparr>)"
proof -
  have al: "adapter_log (sv_adapter s)" using assms(1) by (simp add: mirrored_def)
  consider "sb_perform c (sv_adapter s) = sv_adapter s"
    | v o1 o2 where "adapter_log (sb_perform c (sv_adapter s))" "sb_configuration (sb_perform c (sv_adapter s)) = sb_configuration (sv_adapter s)"
      "sb_events (sb_perform c (sv_adapter s)) = sb_events (sv_adapter s) @ [v]"
      "dict_get (sb_orders (sv_adapter s)) (boe_client_intent_id v) = Some o1" "order_after v o1 = Some o2"
      "sb_orders (sb_perform c (sv_adapter s)) = dict_set (boe_client_intent_id v) o2 (sb_orders (sv_adapter s))"
    using broker_call_event [OF al assms(2,3)] by blast
  then show ?thesis
  proof cases
    case 1
    then show ?thesis using assms(1) by simp
  next
    case (2 v o1 o2)
    have "behind s (boe_client_intent_id v)" using assms(1) by (simp add: mirrored_def)
    then obtain o0 where o0: "dict_get (om_orders (sv_oms s)) (boe_client_intent_id v) = Some o0" "submitted o0"
      "replay_order (about (boe_client_intent_id v) (pending_events s)) o0 = Some o1"
      using 2(4) by (auto simp: behind_def)
    have "replay_order (about (boe_client_intent_id v) (pending_events s) @ [v]) o0 = Some o2"
      using o0(3) 2(5) by (simp add: replay_append)
    from mirrored_extend [OF assms(1) 2(1-3,6), of "sv_oms s" o0] o0(1,2) this assms(1)
    show ?thesis by (simp add: mirrored_def)
  qed
qed

section \<open>Submission keeps the coupling\<close>

definition fresh_from :: "submit_env \<Rightarrow> nat \<Rightarrow> oms \<Rightarrow> bool" where
  "fresh_from e n m \<longleftrightarrow>
     distinct_draws (su_sync e) \<and> unused_draws (su_sync e) 0 m \<and>
     (\<forall>j k. oe_event_id (su_oms e j) = oe_event_id (su_oms e k) \<longrightarrow> j = k) \<and>
     (\<forall>j k b. oe_event_id (su_oms e j) \<noteq> draw_id (su_sync e) k b) \<and>
     (\<forall>k \<ge> n. oe_event_id (su_oms e k) \<notin> ov_event_id ` set (om_events m))"

lemma fresh_from_step:
  assumes "fresh_from e n m" "om_events m' = om_events m @ [v]" "ov_event_id v = oe_event_id (su_oms e n)" "om_fills m' = om_fills m"
  shows "fresh_from e (Suc n) m'"
  unfolding fresh_from_def
proof (intro conjI)
  show "distinct_draws (su_sync e)" "\<forall>j k. oe_event_id (su_oms e j) = oe_event_id (su_oms e k) \<longrightarrow> j = k"
    "\<forall>j k b. oe_event_id (su_oms e j) \<noteq> draw_id (su_sync e) k b"
    using assms(1) unfolding fresh_from_def by blast+
  have "draw_id (su_sync e) k b \<noteq> ov_event_id v" for k b
    using assms(1,3) unfolding fresh_from_def by metis
  then show "unused_draws (su_sync e) 0 m'"
    using assms(1,2,4) by (simp add: fresh_from_def unused_draws_def)
  have "oe_event_id (su_oms e k) \<noteq> ov_event_id v" if "Suc n \<le> k" for k
  proof
    assume "oe_event_id (su_oms e k) = ov_event_id v"
    then have "k = n" using assms(1,3) unfolding fresh_from_def by metis
    then show False using that by simp
  qed
  then show "\<forall>k \<ge> Suc n. oe_event_id (su_oms e k) \<notin> ov_event_id ` set (om_events m')"
    using assms(1,2) by (simp add: fresh_from_def)
qed

lemma transition_step:
  assumes "dict_get (om_orders m) i = Some o1" "intent_id_of o1 = i" "st \<in> transitions (po_status o1)" "fresh_from e n m"
  obtains m' where "oms_transition (su_oms e n) i st actor m = (Inr (o1\<lparr>po_status := st\<rparr>), m')"
    "om_orders m' = dict_set i (o1\<lparr>po_status := st\<rparr>) (om_orders m)" "om_fills m' = om_fills m" "fresh_from e (Suc n) m'"
proof -
  have f: "oe_event_id (su_oms e n) \<notin> ov_event_id ` set (om_events m)" using assms(4) by (simp add: fresh_from_def)
  have t: "order_transition o1 st = Inr (o1\<lparr>po_status := st\<rparr>)" using assms(3) by (simp add: order_transition_Inr)
  obtain v where v: "oms_transition (su_oms e n) i st actor m = (Inr (o1\<lparr>po_status := st\<rparr>),
      m\<lparr>om_orders := dict_set i (o1\<lparr>po_status := st\<rparr>) (om_orders m), om_events := om_events m @ [v]\<rparr>)"
    "ov_event_id v = oe_event_id (su_oms e n)"
    by (rule oms_transition_run [OF assms(1,2) t f])
  show ?thesis by (rule that [OF v(1)]) (use fresh_from_step [OF assms(4) _ v(2)] in simp_all)
qed

lemma transitions_run:
  "\<lbrakk>dict_get (om_orders (sv_oms s)) i = Some o1; intent_id_of o1 = i; fresh_from e n (sv_oms s);
    fold_result (\<lambda>st r. order_transition r st) sts o1 = Inr o2\<rbrakk> \<Longrightarrow>
   \<exists>m'. transitions_in_turn (su_oms e) n i sts s = (Inr (), s\<lparr>sv_oms := m'\<rparr>) \<and> dict_get (om_orders m') i = Some o2 \<and>
     (\<forall>j. j \<noteq> i \<longrightarrow> dict_get (om_orders m') j = dict_get (om_orders (sv_oms s)) j) \<and>
     om_fills m' = om_fills (sv_oms s) \<and> fresh_from e (n + length sts) m' \<and> intent_id_of o2 = i"
proof (induction sts arbitrary: s n o1)
  case Nil
  then show ?case by (auto intro: exI [of _ "sv_oms s"])
next
  case (Cons st sts)
  have st: "st \<in> transitions (po_status o1)" and
    rest: "fold_result (\<lambda>st r. order_transition r st) sts (o1\<lparr>po_status := st\<rparr>) = Inr o2"
    using Cons.prems(4) by (auto simp: order_simps split: sum.splits)
  obtain m1 where m1: "oms_transition (su_oms e n) i st ''broker_sync'' (sv_oms s) = (Inr (o1\<lparr>po_status := st\<rparr>), m1)"
    "om_orders m1 = dict_set i (o1\<lparr>po_status := st\<rparr>) (om_orders (sv_oms s))" "om_fills m1 = om_fills (sv_oms s)" "fresh_from e (Suc n) m1"
    by (rule transition_step [OF Cons.prems(1,2) st Cons.prems(3)])
  let ?s = "s\<lparr>sv_oms := m1\<rparr>"
  from Cons.IH [of ?s "o1\<lparr>po_status := st\<rparr>" "Suc n"] m1 rest Cons.prems(2)
  obtain m' where m': "transitions_in_turn (su_oms e) (Suc n) i sts ?s = (Inr (), ?s\<lparr>sv_oms := m'\<rparr>)" "dict_get (om_orders m') i = Some o2"
    "\<forall>j. j \<noteq> i \<longrightarrow> dict_get (om_orders m') j = dict_get (om_orders m1) j" "om_fills m' = om_fills m1"
    "fresh_from e (Suc n + length sts) m'" "intent_id_of o2 = i"
    by (auto simp: dict_simps)
  have "transitions_in_turn (su_oms e) n i (st # sts) s = (Inr (), s\<lparr>sv_oms := m'\<rparr>)"
    using m'(1) m1(1) by (simp add: bind_method_def on_oms_def)
  then show ?case using m' m1(2,3) by (auto simp: dict_simps)
qed

text \<open>The create step returns a stored proposal, new or old, or changes nothing.\<close>

lemma create_proposed_run:
  assumes "fresh_from e 0 (sv_oms s)" "keyed (om_orders (sv_oms s))"
  obtains (error) x where "create_proposed (su_oms e 0) i s = (Inl x, s)" "dict_get (om_orders (sv_oms s)) (oi_intent_id i) \<noteq> None"
  | (proposed) o1 m' where "create_proposed (su_oms e 0) i s = (Inr o1, s\<lparr>sv_oms := m'\<rparr>)" "po_status o1 = PROPOSED"
      "dict_get (om_orders m') (oi_intent_id i) = Some o1" "intent_id_of o1 = oi_intent_id i"
      "\<And>o0. dict_get (om_orders (sv_oms s)) (oi_intent_id i) = Some o0 \<Longrightarrow> o0 = o1" "fresh_from e 1 m'" "keyed (om_orders m')"
      "om_fills m' = om_fills (sv_oms s)"
      "\<And>j. j \<noteq> oi_intent_id i \<Longrightarrow> dict_get (om_orders m') j = dict_get (om_orders (sv_oms s)) j"
proof (cases "dict_get (om_orders (sv_oms s)) (oi_intent_id i)")
  case (Some o0)
  let ?r = "oms_create (su_oms e 0) (new_order i) (sv_oms s)"
  have id: "intent_id_of o0 = oi_intent_id i" using Some assms(2) by (simp add: keyed_def)
  have f1: "fresh_from e 1 (sv_oms s)" using assms(1) by (simp add: fresh_from_def)
  have r: "?r = (if intent_eq (po_intent o0) i then Inr o0 else Inl (oms_error ''idempotency_key_payload_conflict''), sv_oms s)"
    using Some by (simp add: oms_create_def oms_get_def new_order_def)
  show ?thesis
  proof (cases "intent_eq (po_intent o0) i \<and> po_status o0 = PROPOSED")
    case True
    then have "create_proposed (su_oms e 0) i s = (Inr o0, s\<lparr>sv_oms := sv_oms s\<rparr>)" by (simp add: create_proposed_def on_oms_def r)
    then show ?thesis by (rule proposed) (use True Some id f1 assms(2) in auto)
  next
    case False
    then have "\<exists>x. create_proposed (su_oms e 0) i s = (Inl x, s)" by (auto simp: create_proposed_def on_oms_def r)
    then show ?thesis using error Some by blast
  qed
next
  case None
  let ?m = "(sv_oms s)\<lparr>om_orders := om_orders (sv_oms s) @ [(oi_intent_id i, new_order i)]\<rparr>"
  let ?v = "\<lparr>ov_sequence = length (om_events (sv_oms s)) + 1, ov_event_id = oe_event_id (su_oms e 0), ov_intent_id = oi_intent_id i,
      ov_event_type = ''ORDER_CREATED'', ov_occurred_at = oe_event_now (su_oms e 0),
      ov_payload = [(''status'', status_value PROPOSED)]\<rparr>"
  let ?m' = "?m\<lparr>om_events := om_events (sv_oms s) @ [?v]\<rparr>"
  have f: "oe_event_id (su_oms e 0) \<notin> ov_event_id ` set (om_events (sv_oms s))" using assms(1) by (simp add: fresh_from_def)
  have "oms_create (su_oms e 0) (new_order i) (sv_oms s) = (Inr (new_order i), ?m')"
    using None f by (simp add: oms_create_def oms_get_def new_order_def bind_method_def oms_append_event_def)
  then have "create_proposed (su_oms e 0) i s = (Inr (new_order i), s\<lparr>sv_oms := ?m'\<rparr>)"
    by (simp add: create_proposed_def on_oms_def new_order_def)
  then show ?thesis
  proof (rule proposed)
    have "fresh_from e (Suc 0) ?m'" by (rule fresh_from_step [OF assms(1), of _ ?v]) simp_all
    then show "fresh_from e 1 ?m'" by simp
    show "keyed (om_orders ?m')" using None assms(2) by (auto simp: keyed_def map_add_Some_iff new_order_def split: if_splits)
  qed (use None in \<open>auto simp: new_order_def map_add_def split: option.splits\<close>)
qed

definition fresh_submit :: "submit_env \<Rightarrow> sync_service \<Rightarrow> bool" where
  "fresh_submit e s \<longleftrightarrow> fresh_from e 0 (sv_oms s) \<and> fresh_event (su_broker e) (sv_adapter s)"

text \<open>The broker takes an approved order it does not have.\<close>

lemma sb_submit_run:
  assumes "adapter_log b" "dict_get (sb_orders b) (intent_id_of o1) = None" "po_status o1 = APPROVED" "fresh_event e b"
  obtains b' v where "sb_submit e o1 b = (Inr (o1\<lparr>po_status := ACKNOWLEDGED\<rparr>), b')" "adapter_log b'"
    "sb_configuration b' = sb_configuration b" "sb_events b' = sb_events b @ [v]" "boe_client_intent_id v = intent_id_of o1"
    "boe_event_type v = ''ORDER_ACKNOWLEDGED''"
    "sb_orders b' = dict_set (intent_id_of o1) (o1\<lparr>po_status := ACKNOWLEDGED\<rparr>) (sb_orders b)"
proof -
  let ?o = "o1\<lparr>po_status := ACKNOWLEDGED\<rparr>"
  define b' where "b' = sb_event e ?o ''ORDER_ACKNOWLEDGED'' [(''mode'', mode_value (bc_mode (sb_configuration b)))] (sb_put (intent_id_of ?o) ?o b)"
  have r: "sb_submit e o1 b = (Inr ?o, b')"
    using assms(2,3) by (simp add: sb_submit_def acknowledge_approved b'_def)
  have "sb_events (sb_put (intent_id_of ?o) ?o b) = sb_events b" by (simp add: sb_put_def)
  then obtain v where v: "sb_events b' = sb_events b @ [v]" "boe_client_intent_id v = intent_id_of o1"
    "boe_event_type v = ''ORDER_ACKNOWLEDGED''" "boe_external_event_id v = ''sandbox:'' @ nat_str (length (sb_events b) + 1)"
    "boe_event_id v = ee_event_id e" "boe_occurred_at v = ee_now e"
    using sb_event_appended [of e ?o "''ORDER_ACKNOWLEDGED''"] unfolding b'_def by simp
  have "b' = sb_perform (SbSubmit e o1) b" using r by simp
  then have "log_inv b'" using assms(1) sb_perform_log_inv [of b "SbSubmit e o1"] unfolding adapter_log_def by simp
  moreover have "proper_event v" using v assms(4) by (simp add: proper_event_def is_fill_def fresh_event_def)
  moreover have "boe_event_id v \<notin> boe_event_id ` set (sb_events b)" using v(5) assms(4) by (simp add: fresh_event_def)
  ultimately have "adapter_log b'" using adapter_log_extend [OF assms(1) _ v(1,4)] by blast
  then show ?thesis using that [OF r] v by (simp add: b'_def sb_put_def)
qed

text \<open>From an approved order the broker does not have: submission, acknowledgement and the first synchronisation.\<close>

lemma submission_run:
  assumes m: "mirrored s" and o1: "dict_get (om_orders (sv_oms s)) i = Some o1" "intent_id_of o1 = i" "po_status o1 = APPROVED"
    and b: "dict_get (sb_orders (sv_adapter s)) i = None" and f: "fresh_from e 3 (sv_oms s)" "fresh_event (su_broker e) (sv_adapter s)"
  obtains t b' where "(case on_adapter (sb_submit (su_broker e) o1) s of (answer, t1) \<Rightarrow> after_submission e i answer t1) =
      (Inr (o1\<lparr>po_status := ACKNOWLEDGED\<rparr>), t)" "mirrored t" "pending_events t = []" "sv_adapter t = b'"
    "sb_orders b' = dict_set i (o1\<lparr>po_status := ACKNOWLEDGED\<rparr>) (sb_orders (sv_adapter s))"
    "sv_alerts t = sv_alerts s" "sv_decisions t = sv_decisions s" "sv_assessments t = sv_assessments s" "sv_policies t = sv_policies s"
proof -
  let ?o = "o1\<lparr>po_status := ACKNOWLEDGED\<rparr>"
  have al: "adapter_log (sv_adapter s)" using m by (simp add: mirrored_def)
  have b0: "dict_get (sb_orders (sv_adapter s)) (intent_id_of o1) = None" using b o1(2) by simp
  obtain b' v where bv: "sb_submit (su_broker e) o1 (sv_adapter s) = (Inr ?o, b')" "adapter_log b'"
    "sb_configuration b' = sb_configuration (sv_adapter s)" "sb_events b' = sb_events (sv_adapter s) @ [v]"
    "boe_client_intent_id v = intent_id_of o1" "boe_event_type v = ''ORDER_ACKNOWLEDGED''"
    "sb_orders b' = dict_set (intent_id_of o1) ?o (sb_orders (sv_adapter s))"
    by (rule sb_submit_run [OF al b0 o1(3) f(2)])
  let ?s1 = "s\<lparr>sv_adapter := b'\<rparr>"
  have "fold_result (\<lambda>st r. order_transition r st) [SUBMISSION_PENDING, SUBMITTED, ACKNOWLEDGED] o1 = Inr ?o"
    using o1(3) by (simp add: order_transition_def)
  with transitions_run [of ?s1 i o1 e 3 "[SUBMISSION_PENDING, SUBMITTED, ACKNOWLEDGED]" ?o] o1(1,2) f(1)
  obtain m' where m': "transitions_in_turn (su_oms e) 3 i [SUBMISSION_PENDING, SUBMITTED, ACKNOWLEDGED] ?s1 = (Inr (), ?s1\<lparr>sv_oms := m'\<rparr>)"
    "dict_get (om_orders m') i = Some ?o" "\<forall>j. j \<noteq> i \<longrightarrow> dict_get (om_orders m') j = dict_get (om_orders (sv_oms s)) j"
    "om_fills m' = om_fills (sv_oms s)" "fresh_from e (3 + 3) m'"
    by auto
  let ?s2 = "s\<lparr>sv_adapter := b', sv_oms := m'\<rparr>"
  have ms: "mirrored ?s2"
  proof (rule mirrored_extend [OF m bv(2-4)])
    show "sb_orders b' = dict_set (boe_client_intent_id v) ?o (sb_orders (sv_adapter s))" using bv(5,7) by simp
    show "keyed (om_orders m')"
      unfolding keyed_def
    proof (intro allI impI)
      fix j o2 assume "dict_get (om_orders m') j = Some o2"
      then show "intent_id_of o2 = j"
        by (cases "j = i") (use m m'(2,3) o1(2) in \<open>auto simp: mirrored_def keyed_def\<close>)
    qed
    show "om_fills m' = om_fills (sv_oms s)" by (rule m'(4))
    show "dict_get (om_orders m') j = dict_get (om_orders (sv_oms s)) j" if "j \<noteq> boe_client_intent_id v" for j
      using that m'(3) bv(5) o1(2) by simp
    show "dict_get (om_orders m') (boe_client_intent_id v) = Some ?o" using m'(2) bv(5) o1(2) by simp
    show "submitted ?o" by (simp add: submitted_def)
    have "\<forall>w \<in> set (sb_events (sv_adapter s)). boe_client_intent_id w \<noteq> i"
      using al b unfolding adapter_log_def log_inv_def by blast
    then have "about i (pending_events s) = []" by (auto simp: about_def pending_events_def filter_empty_conv dest: in_set_dropD)
    then show "replay_order (about (boe_client_intent_id v) (pending_events s) @ [v]) ?o = Some ?o"
      using bv(5,6) o1(2) by (simp add: order_after_def)
  qed
  have d: "distinct_draws (su_sync e)" "unused_draws (su_sync e) 0 (sv_oms ?s2)" using m'(5) by (simp_all add: fresh_from_def)
  obtain t where t: "sync_events (su_sync e) ?s2 = (Inr (map (stored_of (broker_name_of ?s2)) (pending_events ?s2)), t)"
    "mirrored t" "pending_events t = []" "sv_adapter t = sv_adapter ?s2" "sv_alerts t = sv_alerts ?s2" "sv_decisions t = sv_decisions ?s2"
    "sv_assessments t = sv_assessments ?s2" "sv_policies t = sv_policies ?s2"
    by (rule sync_run [OF ms d])
  have "dict_get (sb_orders (sv_adapter t)) i = Some ?o" using t(4) bv(7) o1(2) by (simp add: dict_simps)
  from caught_up [OF t(2,3) this] have g: "oms_get i (sv_oms t) = Inr ?o" by (simp add: oms_get_def)
  have "(case on_adapter (sb_submit (su_broker e) o1) s of (answer, t1) \<Rightarrow> after_submission e i answer t1) = (Inr ?o, t)"
    using bv(1) m'(1) t(1) g by (simp add: on_adapter_def after_submission_def bind_method_def)
  then show ?thesis using that t bv(7) o1(2) by simp
qed

lemma mirrored_decisions [simp]:
  "mirrored (s\<lparr>sv_decisions := d\<rparr>) = mirrored s" "mirrored (s\<lparr>sv_alerts := a\<rparr>) = mirrored s"
  by (simp_all add: mirrored_def stores_known_def behind_def cursor_def pending_events_def known_events_def broker_name_of_def)

lemma mirrored_tables:
  "om_orders m' = om_orders (sv_oms s) \<Longrightarrow> om_fills m' = om_fills (sv_oms s) \<Longrightarrow> mirrored (s\<lparr>sv_oms := m'\<rparr>) = mirrored s"
  by (simp add: mirrored_def stores_known_def behind_def cursor_def pending_events_def known_events_def broker_name_of_def)

text \<open>The stores no call of the service writes.\<close>

definition same_evidence :: "sync_service \<Rightarrow> sync_service \<Rightarrow> bool" where
  "same_evidence s t \<longleftrightarrow> sv_assessments t = sv_assessments s \<and> sv_policies t = sv_policies s"

definition reached_broker :: "order_intent \<Rightarrow> paper_order result \<Rightarrow> sync_service \<Rightarrow> sync_service \<Rightarrow> bool" where
  "reached_broker i r s t \<longleftrightarrow>
     (\<exists>o1. r = Inr o1 \<and> po_status o1 = ACKNOWLEDGED \<and> pending_events t = [] \<and>
        dict_get (sb_orders (sv_adapter s)) (oi_intent_id i) = None \<and>
        sb_orders (sv_adapter t) = dict_set (oi_intent_id i) o1 (sb_orders (sv_adapter s)))"

lemma store_decision_run:
  obtains q d where "store_decision decision s = (q, s\<lparr>sv_decisions := d\<rparr>)"
proof (cases "sv_decisions s")
  case None
  then show ?thesis using that [of "Inr ()" None] by (simp add: store_decision_def)
next
  case (Some rows)
  then show ?thesis using that by (cases "decision_append decision rows") (simp add: store_decision_def)
qed

lemma gate_and_submit_outcome:
  assumes m: "mirrored s" and f: "fresh_submit e s" and r: "gate_and_submit e approved i s = (r, t)"
  shows "mirrored t \<and> same_evidence s t \<and> (sv_adapter t = sv_adapter s \<or> approved \<and> reached_broker i r s t) \<and>
    (approved \<and> dict_get (om_orders (sv_oms s)) (oi_intent_id i) = None \<longrightarrow> reached_broker i r s t)"
proof -
  have ms: "fresh_from e 0 (sv_oms s)" "keyed (om_orders (sv_oms s))"
    using m f by (simp_all add: fresh_submit_def mirrored_def)
  show ?thesis
    using ms
  proof (cases rule: create_proposed_run [where i = i])
    case (error x)
    then have "t = s" using r by (simp add: gate_and_submit_def bind_method_def [of "create_proposed _ _"])
    then show ?thesis using m error(2) by (auto simp: same_evidence_def)
  next
    case (proposed o1 m0)
    let ?i = "oi_intent_id i"
    have nb: "dict_get (sb_orders (sv_adapter s)) ?i = None"
      using known_submitted [OF m, of ?i] proposed(2,5) by (force simp: submitted_def)
    have t1: "RISK_PENDING \<in> transitions (po_status o1)" using proposed(2) by simp
    obtain m1 where m1: "oms_transition (su_oms e 1) ?i RISK_PENDING ''risk'' m0 = (Inr (o1\<lparr>po_status := RISK_PENDING\<rparr>), m1)"
      "om_orders m1 = dict_set ?i (o1\<lparr>po_status := RISK_PENDING\<rparr>) (om_orders m0)" "om_fills m1 = om_fills m0" "fresh_from e (Suc 1) m1"
      by (rule transition_step [OF proposed(3,4) t1 proposed(6)])
    let ?st = "if approved then APPROVED else RISK_REJECTED" and ?actor = "if approved then ''risk'' else ''pre_trade''"
    have o1: "dict_get (om_orders m1) ?i = Some (o1\<lparr>po_status := RISK_PENDING\<rparr>)" "intent_id_of (o1\<lparr>po_status := RISK_PENDING\<rparr>) = ?i"
      "?st \<in> transitions (po_status (o1\<lparr>po_status := RISK_PENDING\<rparr>))"
      using m1(2) proposed(4) by (simp_all add: dict_simps)
    have f2: "fresh_from e 2 m1" using m1(4) by (simp add: numeral_2_eq_2)
    obtain m2 where m2: "oms_transition (su_oms e 2) ?i ?st ?actor m1 = (Inr (o1\<lparr>po_status := RISK_PENDING, po_status := ?st\<rparr>), m2)"
      "om_orders m2 = dict_set ?i (o1\<lparr>po_status := RISK_PENDING, po_status := ?st\<rparr>) (om_orders m1)" "om_fills m2 = om_fills m1"
      "fresh_from e (Suc 2) m2"
      by (rule transition_step [OF o1 f2])
    have k2: "keyed (om_orders m2)" "om_fills m2 = om_fills (sv_oms s)"
      "dict_get (om_orders m2) ?i = Some (o1\<lparr>po_status := ?st\<rparr>)"
      "\<And>j. j \<noteq> ?i \<Longrightarrow> dict_get (om_orders m2) j = dict_get (om_orders (sv_oms s)) j"
      using proposed(4,7-9) m1(2,3) m2(2,3) by (auto simp: keyed_def dict_simps)
    let ?u = "s\<lparr>sv_oms := m2\<rparr>" and ?o = "o1\<lparr>po_status := APPROVED\<rparr>"
    have mm: "mirrored ?u"
      by (rule mirrored_local [OF m nb]) (use k2 in auto)
    show ?thesis
    proof (cases approved)
      case False
      then have "t = ?u"
        using r proposed(1,4) m1(1) m2(1) by (simp add: gate_and_submit_def bind_method_def on_oms_def)
      then show ?thesis using mm False by (simp add: same_evidence_def)
    next
      case True
      have pre: "dict_get (om_orders (sv_oms ?u)) ?i = Some ?o" "intent_id_of ?o = ?i" "po_status ?o = APPROVED"
        "dict_get (sb_orders (sv_adapter ?u)) ?i = None" "fresh_from e 3 (sv_oms ?u)" "fresh_event (su_broker e) (sv_adapter ?u)"
        using k2(3) True proposed(4) nb m2(4) f by (simp_all add: fresh_submit_def)
      obtain t' b' where s3: "(case on_adapter (sb_submit (su_broker e) ?o) ?u of (answer, t1) \<Rightarrow> after_submission e ?i answer t1) =
          (Inr (?o\<lparr>po_status := ACKNOWLEDGED\<rparr>), t')" "mirrored t'" "pending_events t' = []" "sv_adapter t' = b'"
        "sb_orders b' = dict_set ?i (?o\<lparr>po_status := ACKNOWLEDGED\<rparr>) (sb_orders (sv_adapter ?u))"
        "sv_alerts t' = sv_alerts ?u" "sv_decisions t' = sv_decisions ?u" "sv_assessments t' = sv_assessments ?u" "sv_policies t' = sv_policies ?u"
        by (rule submission_run [OF mm pre])
      have "(r, t) = (Inr (?o\<lparr>po_status := ACKNOWLEDGED\<rparr>), t')"
        using r proposed(1,4) m1(1) m2(1) True s3(1) by (simp add: gate_and_submit_def bind_method_def on_oms_def)
      then show ?thesis using s3(2-5,8,9) nb True by (simp add: same_evidence_def reached_broker_def)
    qed
  qed
qed

lemma submit_checked_outcome:
  assumes m: "mirrored s" and f: "fresh_submit e s" and r: "submit_checked e i risk portfolio s = (r, t)"
  shows "mirrored t" "same_evidence s t"
    "sv_adapter t = sv_adapter s \<or>
     rd_intent_id risk = oi_intent_id i \<and> rd_decision risk = APPROVE \<and> prd_approved portfolio \<and> reached_broker i r s t"
    "\<lbrakk>rd_intent_id risk = oi_intent_id i; rd_decision risk = APPROVE; prd_approved portfolio;
      dict_get (om_orders (sv_oms s)) (oi_intent_id i) = None; sv_decisions s = None\<rbrakk> \<Longrightarrow> reached_broker i r s t"
proof -
  let ?ready = "rd_intent_id risk = oi_intent_id i \<and> rd_decision risk = APPROVE \<and> prd_approved portfolio \<and>
      dict_get (om_orders (sv_oms s)) (oi_intent_id i) = None \<and> sv_decisions s = None"
  have "mirrored t \<and> same_evidence s t \<and> (sv_adapter t = sv_adapter s \<or>
     rd_intent_id risk = oi_intent_id i \<and> rd_decision risk = APPROVE \<and> prd_approved portfolio \<and> reached_broker i r s t) \<and>
     (?ready \<longrightarrow> reached_broker i r s t)"
  proof (cases "evaluate_pre_trade (su_decision_id e) (su_decided_at e) i risk portfolio")
    case (Inl x)
    then have "t = s" using r by (simp add: submit_checked_def)
    then show ?thesis using m Inl by (auto simp: same_evidence_def evaluate_pre_trade_def split: if_splits)
  next
    case ev: (Inr d)
    then have dec: "rd_intent_id risk = oi_intent_id i" "pt_approved d \<longleftrightarrow> rd_decision risk = APPROVE \<and> prd_approved portfolio"
      by (auto simp: evaluate_pre_trade_def split: if_splits)
    obtain q ds where sd: "store_decision d s = (q, s\<lparr>sv_decisions := ds\<rparr>)" by (rule store_decision_run)
    let ?s = "s\<lparr>sv_decisions := ds\<rparr>"
    show ?thesis
    proof (cases q)
      case (Inl x)
      then have "t = ?s" using r sd ev by (simp add: submit_checked_def bind_method_def)
      then show ?thesis using m sd Inl by (auto simp: same_evidence_def store_decision_def)
    next
      case (Inr u)
      then have "gate_and_submit e (pt_approved d) i ?s = (r, t)"
        using r sd ev by (simp add: submit_checked_def bind_method_def)
      from gate_and_submit_outcome [OF _ _ this] m f dec show ?thesis
        by (auto simp: fresh_submit_def same_evidence_def reached_broker_def)
    qed
  qed
  then show "mirrored t" "same_evidence s t" "sv_adapter t = sv_adapter s \<or>
     rd_intent_id risk = oi_intent_id i \<and> rd_decision risk = APPROVE \<and> prd_approved portfolio \<and> reached_broker i r s t"
    "\<lbrakk>rd_intent_id risk = oi_intent_id i; rd_decision risk = APPROVE; prd_approved portfolio;
      dict_get (om_orders (sv_oms s)) (oi_intent_id i) = None; sv_decisions s = None\<rbrakk> \<Longrightarrow> reached_broker i r s t"
    by blast+
qed

section \<open>Reachable states of the service\<close>

text \<open>What the evidence for a submission amounts to.\<close>

definition assessed_intent ::
  "(json \<Rightarrow> string) \<Rightarrow> (string \<Rightarrow> string \<Rightarrow> string) \<Rightarrow> sync_service \<Rightarrow> uuid \<Rightarrow> assessment \<Rightarrow> bool" where
  "assessed_intent sha mac s i a \<longleftrightarrow>
     (\<exists>store. sv_assessments s = Some store \<and> keyed_integrity_enabled store \<and> get_for_intent sha mac i store = Inr (Some a)) \<and>
     rd_intent_id (pa_risk_decision a) = i \<and> pa_input_evidence a \<noteq> None"

lemma assessment_evidence_Inr:
  assumes "assessment_evidence sha mac psha i presented s = Inr a"
  shows "assessed_intent sha mac s (oi_intent_id i) a"
  using assms
  by (auto simp: assessment_evidence_def assessed_intent_def split: option.splits if_splits sum.splits)

lemma assessment_append_keeps:
  assumes "get_for_intent sha mac i store = Inr (Some a)"
  shows "get_for_intent sha mac i (snd (assessment_append sha mac b store)) = Inr (Some a)"
    "keyed_integrity_enabled (snd (assessment_append sha mac b store)) = keyed_integrity_enabled store"
proof -
  obtain m where st: "snd (assessment_append sha mac b store) = store\<lparr>as_rows := as_rows store @ m\<rparr>"
    using assessment_run_prefix [of sha mac "[b]" store] by auto
  obtain r where r: "find (\<lambda>r. row_intent r = i) (as_rows store) = Some r" "read_assessment sha mac store r = Inr a"
    using assms by (auto simp: get_for_intent_def bind_result_Inr_iff split: option.splits)
  have "find (\<lambda>r. row_intent r = i) (as_rows store @ m) = Some r" by (simp add: find_later [symmetric] r(1))
  moreover have "read_assessment sha mac (store\<lparr>as_rows := as_rows store @ m\<rparr>) r = Inr a"
    using read_assessment_key [of "store\<lparr>as_rows := as_rows store @ m\<rparr>" store] r(2) by simp
  ultimately show "get_for_intent sha mac i (snd (assessment_append sha mac b store)) = Inr (Some a)"
    by (simp add: st get_for_intent_def)
  show "keyed_integrity_enabled (snd (assessment_append sha mac b store)) = keyed_integrity_enabled store"
    by (simp add: st keyed_integrity_enabled_def)
qed

text \<open>
  The service from an empty database: submissions, synchronisations, reconciliations, and between them
  whatever the broker does to its orders and whatever is assessed and registered. Identifiers are fresh.
\<close>

inductive sync_reach ::
  "(json \<Rightarrow> string) \<Rightarrow> (string \<Rightarrow> string \<Rightarrow> string) \<Rightarrow> (payload \<Rightarrow> string) \<Rightarrow> sync_service \<Rightarrow> bool"
  for sha :: "json \<Rightarrow> string" and mac :: "string \<Rightarrow> string \<Rightarrow> string" and psha :: "payload \<Rightarrow> string" where
  reach_start: "new_sandbox cfg cash = Inr b \<Longrightarrow> sv_adapter s = b \<Longrightarrow> sv_oms s = empty_oms \<Longrightarrow>
    sv_events s = \<lparr>es_events = [], es_cursors = []\<rparr> \<Longrightarrow> sync_reach sha mac psha s"
| reach_submit: "sync_reach sha mac psha s \<Longrightarrow> fresh_submit e s \<Longrightarrow>
    submit_after_assessment sha mac psha e i a s = (r, t) \<Longrightarrow> sync_reach sha mac psha t"
| reach_sync: "sync_reach sha mac psha s \<Longrightarrow> distinct_draws env \<Longrightarrow> unused_draws env 0 (sv_oms s) \<Longrightarrow>
    sync_events env s = (q, t) \<Longrightarrow> sync_reach sha mac psha t"
| reach_reconcile: "sync_reach sha mac psha s \<Longrightarrow> sync_reconcile oe ae as_of ids internal s = (p, t) \<Longrightarrow> sync_reach sha mac psha t"
| reach_broker: "sync_reach sha mac psha s \<Longrightarrow> \<forall>e o1. c \<noteq> SbSubmit e o1 \<Longrightarrow> fresh_event (call_env c) (sv_adapter s) \<Longrightarrow>
    sync_reach sha mac psha (s\<lparr>sv_adapter := sb_perform c (sv_adapter s)\<rparr>)"
| reach_assess: "sync_reach sha mac psha s \<Longrightarrow> sv_assessments s = Some store \<Longrightarrow>
    sync_reach sha mac psha (s\<lparr>sv_assessments := Some (snd (assessment_append sha mac a store))\<rparr>)"
| reach_register: "sync_reach sha mac psha s \<Longrightarrow> sv_policies s = Some rows \<Longrightarrow>
    sync_reach sha mac psha (s\<lparr>sv_policies := Some (snd (policy_append psha d rows))\<rparr>)"

lemma mirrored_evidence [simp]:
  "mirrored (s\<lparr>sv_assessments := x\<rparr>) = mirrored s" "mirrored (s\<lparr>sv_policies := y\<rparr>) = mirrored s"
  by (simp_all add: mirrored_def stores_known_def behind_def cursor_def pending_events_def known_events_def broker_name_of_def)

lemma mirrored_start:
  assumes "new_sandbox cfg cash = Inr b" "sv_adapter s = b" "sv_oms s = empty_oms" "sv_events s = \<lparr>es_events = [], es_cursors = []\<rparr>"
  shows "mirrored s"
proof -
  have "sb_events b = []" "sb_orders b = []" "log_inv b"
    using assms(1) new_sandbox_log_inv [OF assms(1)] by (auto simp: new_sandbox_def bind_result_Inr_iff)
  then show ?thesis
    using assms(2-4) by (simp add: mirrored_def adapter_log_def stores_known_def behind_def known_events_def cursor_def
        last_sequence_def dict_get_or_def empty_oms_def keyed_def)
qed

lemma record_account_frame:
  "om_orders (snd (oms_record_account e snap r h t m)) = om_orders m" "om_fills (snd (oms_record_account e snap r h t m)) = om_fills m"
  by (simp_all add: oms_record_account_def Let_def)

lemma reconcile_outcome:
  assumes "sync_reconcile oe ae as_of ids internal s = (p, t)"
  shows "mirrored t = mirrored s" "same_evidence s t" "sv_adapter t = sv_adapter s"
proof -
  obtain q m where q: "oms_record_account oe (sb_sync_account as_of (sv_adapter s))
      \<lparr>rr_complete = brr_complete (reconcile_broker_account ids internal (sb_sync_account as_of (sv_adapter s)) (Dec 1 (- 2))),
       rr_discrepancies = brr_discrepancies (reconcile_broker_account ids internal (sb_sync_account as_of (sv_adapter s)) (Dec 1 (- 2)))\<rparr>
      (sb_health (sv_adapter s)) (later_of (oe_now oe) (bas_as_of (sb_sync_account as_of (sv_adapter s)))) (sv_oms s) = (q, m)"
    by (rule prod.exhaust)
  have f: "om_orders m = om_orders (sv_oms s)" "om_fills m = om_fills (sv_oms s)"
    using record_account_frame [of oe "sb_sync_account as_of (sv_adapter s)" _ _ _ "sv_oms s"] q by (metis snd_conv)+
  have "\<exists>a. t = s\<lparr>sv_oms := m, sv_alerts := a\<rparr>"
    using assms q
    by (auto simp: sync_reconcile_def on_oms_def Let_def split: sum.splits option.splits prod.splits bool.splits
        intro: exI [of _ "sv_alerts s"])
  then obtain a where t: "t = s\<lparr>sv_oms := m, sv_alerts := a\<rparr>" by blast
  show "mirrored t = mirrored s" using mirrored_tables [OF f] by (simp add: t)
  show "same_evidence s t" "sv_adapter t = sv_adapter s" by (simp_all add: t same_evidence_def)
qed

lemma sync_reach_mirrored: "sync_reach sha mac psha s \<Longrightarrow> mirrored s"
proof (induction rule: sync_reach.induct)
  case (reach_start cfg cash b s)
  then show ?case by (rule mirrored_start)
next
  case (reach_submit s e i a r t)
  show ?case
  proof (cases "\<exists>risk portfolio. submit_checked e i risk portfolio s = (r, t)")
    case True
    then show ?thesis using submit_checked_outcome(1) [OF reach_submit.IH reach_submit.hyps(2)] by blast
  next
    case False
    then have "t = s" using reach_submit.hyps(3) by (auto simp: submit_after_assessment_def split: sum.splits option.splits if_splits)
    then show ?thesis using reach_submit.IH by simp
  qed
next
  case (reach_sync s env q t)
  then show ?case using sync_run [OF reach_sync.IH reach_sync.hyps(2,3)] by (metis prod.inject)
next
  case (reach_reconcile s oe ae as_of ids internal p t)
  then show ?case using reconcile_outcome(1) by blast
next
  case (reach_broker s c)
  then show ?case by (intro mirrored_broker_call)
qed simp_all

text \<open>Every order the broker has was approved by an assessment kept under a key.\<close>

definition broker_assessed :: "(json \<Rightarrow> string) \<Rightarrow> (string \<Rightarrow> string \<Rightarrow> string) \<Rightarrow> sync_service \<Rightarrow> bool" where
  "broker_assessed sha mac s \<longleftrightarrow>
     (\<forall>i. dict_get (sb_orders (sv_adapter s)) i \<noteq> None \<longrightarrow>
        (\<exists>a p. assessed_intent sha mac s i a \<and> rd_decision (pa_risk_decision a) = APPROVE \<and>
           pa_portfolio_decision a = Some p \<and> prd_approved p))"

lemma broker_assessed_same:
  "broker_assessed sha mac s \<Longrightarrow> same_evidence s t \<Longrightarrow>
   (\<And>i. dict_get (sb_orders (sv_adapter t)) i \<noteq> None \<Longrightarrow> dict_get (sb_orders (sv_adapter s)) i \<noteq> None) \<Longrightarrow>
   broker_assessed sha mac t"
  unfolding broker_assessed_def assessed_intent_def same_evidence_def by metis

lemma submit_assessed:
  assumes "broker_assessed sha mac s" "mirrored s" "fresh_submit e s" "submit_after_assessment sha mac psha e i presented s = (r, t)"
  shows "broker_assessed sha mac t"
proof (cases "sv_adapter t = sv_adapter s \<and> same_evidence s t")
  case True
  then show ?thesis using broker_assessed_same [OF assms(1), of t] by simp
next
  case changed: False
  then have "t \<noteq> s" by (auto simp: same_evidence_def)
  then obtain a where a: "assessment_evidence sha mac psha i presented s = Inr a" and
    sc: "submit_checked e i (pa_risk_decision a)
      (case pa_portfolio_decision a of None \<Rightarrow> incomplete_portfolio_decision | Some p \<Rightarrow> p) s = (r, t)"
    using assms(4) by (auto simp: submit_after_assessment_def split: sum.splits option.splits if_splits)
  note out = submit_checked_outcome [OF assms(2,3) sc]
  obtain p where ok: "rd_decision (pa_risk_decision a) = APPROVE" "pa_portfolio_decision a = Some p" "prd_approved p" "reached_broker i r s t"
    using out(2,3) changed by (cases "pa_portfolio_decision a") (auto simp: incomplete_portfolio_decision_def)
  have ev: "assessed_intent sha mac t j b = assessed_intent sha mac s j b" for j b
    using out(2) by (simp add: assessed_intent_def same_evidence_def)
  show ?thesis
    unfolding broker_assessed_def ev
  proof (intro allI impI)
    fix j assume j: "dict_get (sb_orders (sv_adapter t)) j \<noteq> None"
    show "\<exists>a p. assessed_intent sha mac s j a \<and> rd_decision (pa_risk_decision a) = APPROVE \<and> pa_portfolio_decision a = Some p \<and> prd_approved p"
    proof (cases "j = oi_intent_id i")
      case True
      then show ?thesis using assessment_evidence_Inr [OF a] ok(1-3) by blast
    next
      case False
      then have "dict_get (sb_orders (sv_adapter s)) j \<noteq> None" using j ok(4) by (auto simp: reached_broker_def dict_simps)
      then show ?thesis using assms(1) unfolding broker_assessed_def by blast
    qed
  qed
qed

lemma assessed_intent_append:
  assumes "assessed_intent sha mac s i a" "sv_assessments s = Some store"
  shows "assessed_intent sha mac (s\<lparr>sv_assessments := Some (snd (assessment_append sha mac b store))\<rparr>) i a"
  using assms assessment_append_keeps [of sha mac i store a b] by (auto simp: assessed_intent_def)

lemma broker_call_domain:
  assumes "\<forall>e o1. c \<noteq> SbSubmit e o1" "dict_get (sb_orders (sb_perform c b)) i \<noteq> None"
  shows "dict_get (sb_orders b) i \<noteq> None"
  using assms
  by (cases c) (auto simp: sb_cancel_def sb_replace_def sb_fill_def sb_order_Inr sb_put_def Let_def dict_simps
      split: if_splits sum.splits)

lemma sync_reach_assessed: "sync_reach sha mac psha s \<Longrightarrow> broker_assessed sha mac s"
proof (induction rule: sync_reach.induct)
  case (reach_start cfg cash b s)
  have "sb_orders b = []" using reach_start(1) by (auto simp: new_sandbox_def bind_result_Inr_iff)
  then show ?case using reach_start by (simp add: broker_assessed_def)
next
  case (reach_submit s e i a r t)
  then show ?case using submit_assessed sync_reach_mirrored by blast
next
  case (reach_sync s env q t)
  obtain t' where "sync_events env s = (Inr (map (stored_of (broker_name_of s)) (pending_events s)), t')"
    "sv_adapter t' = sv_adapter s" "same_evidence s t'"
    using sync_run [OF sync_reach_mirrored [OF reach_sync.hyps(1)] reach_sync.hyps(2,3)] unfolding same_evidence_def by metis
  then show ?case using reach_sync.hyps(4) broker_assessed_same [OF reach_sync.IH, of t'] by auto
next
  case (reach_reconcile s oe ae as_of ids internal p t)
  then show ?case using reconcile_outcome(2,3) broker_assessed_same by metis
next
  case (reach_broker s c)
  show ?case
    by (rule broker_assessed_same [OF reach_broker.IH])
       (use broker_call_domain [OF reach_broker.hyps(2)] in \<open>auto simp: same_evidence_def\<close>)
next
  case (reach_assess s store a)
  then show ?case using assessed_intent_append unfolding broker_assessed_def by fastforce
next
  case (reach_register s rows d)
  then show ?case by (simp add: broker_assessed_def assessed_intent_def)
qed

section \<open>Fresh identifiers exist\<close>




section \<open>Properties\<close>


text \<open>
  C3: no order reaches the broker without evidence: for every order the broker has in a reachable state
  there is a stored assessment of its intent, kept under an integrity key, that reads back with its
  digest and code intact, whose risk decision and portfolio decision both approved, and whose inputs
  are recorded.
\<close>

theorem broker_orders_assessed:
  assumes "sync_reach sha mac psha s" "dict_get (sb_orders (sv_adapter s)) i = Some o1"
  shows "\<exists>store a p. sv_assessments s = Some store \<and> keyed_integrity_enabled store \<and>
    get_for_intent sha mac i store = Inr (Some a) \<and> rd_intent_id (pa_risk_decision a) = i \<and>
    rd_decision (pa_risk_decision a) = APPROVE \<and> pa_portfolio_decision a = Some p \<and> prd_approved p \<and>
    pa_input_evidence a \<noteq> None"
  using sync_reach_assessed [OF assms(1)] assms(2) unfolding broker_assessed_def assessed_intent_def by blast

text \<open>
  C4: an intent with intact, approving evidence and no order yet goes all the way: the submission returns
  its order acknowledged, and broker and order management store both hold that order.
\<close>

theorem approved_intent_reaches_broker:
  assumes "sync_reach sha mac psha s" "fresh_submit e s" "assessment_evidence sha mac psha i presented s = Inr a"
    and "rd_decision (pa_risk_decision a) = APPROVE" "pa_portfolio_decision a = Some p" "prd_approved p"
    and "dict_get (om_orders (sv_oms s)) (oi_intent_id i) = None" "sv_decisions s = None"
  shows "\<exists>o1 t. submit_after_assessment sha mac psha e i presented s = (Inr o1, t) \<and> po_status o1 = ACKNOWLEDGED \<and>
    dict_get (sb_orders (sv_adapter t)) (oi_intent_id i) = Some o1 \<and> dict_get (om_orders (sv_oms t)) (oi_intent_id i) = Some o1"
proof -
  have id: "rd_intent_id (pa_risk_decision a) = oi_intent_id i"
    using assessment_evidence_Inr [OF assms(3)] by (simp add: assessed_intent_def)
  obtain r t where sc: "submit_checked e i (pa_risk_decision a) p s = (r, t)" by (rule prod.exhaust)
  then have sa: "submit_after_assessment sha mac psha e i presented s = (r, t)"
    using assms(3,5,7) by (simp add: submit_after_assessment_def)
  note out = submit_checked_outcome [OF sync_reach_mirrored [OF assms(1)] assms(2) sc]
  have rb: "reached_broker i r s t" by (rule out(4) [OF id assms(4,6,7,8)])
  then obtain o1 where o1: "r = Inr o1" "po_status o1 = ACKNOWLEDGED" "pending_events t = []"
    "dict_get (sb_orders (sv_adapter t)) (oi_intent_id i) = Some o1"
    by (auto simp: reached_broker_def dict_simps)
  then show ?thesis using sa caught_up [OF out(1) o1(3,4)] by auto
qed


lemma raised_alert_open:
  assumes "sql_raise_alert ae q db = (Inr a, db')"
  shows "a \<in> set (db_alerts db') \<and> unresolved (request_fingerprint q) a"
proof (cases "find (unresolved (request_fingerprint q)) (db_alerts db)")
  case (Some b)
  then have "b \<in> set (db_alerts db)" "unresolved (request_fingerprint q) b" by (auto simp: find_Some_iff)
  moreover have "a = b" "db' = db" using assms Some by (simp_all add: sql_raise_alert_def split: if_splits)
  ultimately show ?thesis by simp
next
  case None
  then show ?thesis
    using assms by (auto simp: sql_raise_alert_def append_event_def Let_def unresolved_def opened_alert_def split: if_splits)
qed

text \<open>
  A reconciliation that returns is complete exactly when the broker's account agrees with the internal
  one; a complete one becomes the newest account evidence, an incomplete one leaves an unresolved
  alert for the account whenever alerts are configured.
\<close>

theorem reconciliation_recorded:
  assumes "sync_reconcile e ae as_of ids internal s = (Inr p, t)"
  shows "rr_complete p = brr_complete (reconcile_broker_account ids internal (sb_sync_account as_of (sv_adapter s)) (Dec 1 (- 2))) \<and>
    (if rr_complete p
     then om_accounts (sv_oms t) = om_accounts (sv_oms s) @
       [\<lparr>ra_evidence_id = oe_evidence_id e, ra_reconciliation_id = oe_row_id e,
         ra_snapshot = stored_snapshot (sb_sync_account as_of (sv_adapter s)),
         ra_healthy = True, ra_ingested_at = later_of (oe_now e) as_of\<rparr>]
     else \<forall>db. sv_alerts s = Some db \<longrightarrow> (\<exists>db' a. sv_alerts t = Some db' \<and> a \<in> set (db_alerts db') \<and>
       unresolved (''broker_sync:RECONCILIATION_FAILED:account:'' @ bc_account_id (sb_configuration (sv_adapter s))) a))"
proof -
  let ?snap = "sb_sync_account as_of (sv_adapter s)"
  let ?b = "reconcile_broker_account ids internal ?snap (Dec 1 (- 2))"
  let ?r = "\<lparr>rr_complete = brr_complete ?b, rr_discrepancies = brr_discrepancies ?b\<rparr>"
  let ?q = "reconciliation_alert ?snap (brr_discrepancies ?b)"
  have snap: "bas_as_of ?snap = as_of" "bas_account_id ?snap = bc_account_id (sb_configuration (sv_adapter s))" "sb_health (sv_adapter s)"
    by (simp_all add: sb_sync_account_def sb_health_def)
  obtain q m where ra: "oms_record_account e ?snap ?r True (later_of (oe_now e) as_of) (sv_oms s) = (q, m)" by (rule prod.exhaust)
  obtain rec where q: "q = Inr rec" using assms ra by (cases q) (simp_all add: sync_reconcile_def on_oms_def Let_def snap)
  have p: "p = ?r" and al: "\<not> brr_complete ?b \<Longrightarrow> sv_alerts s = Some db \<Longrightarrow> \<exists>a db'. sql_raise_alert ae ?q db = (Inr a, db') \<and> sv_alerts t = Some db'"
    and om: "sv_oms t = m" for db
    using assms ra q
    by (auto simp: sync_reconcile_def on_oms_def Let_def snap split: bool.splits option.splits prod.splits sum.splits)
  have fp: "request_fingerprint ?q = ''broker_sync:RECONCILIATION_FAILED:account:'' @ bc_account_id (sb_configuration (sv_adapter s))"
    by (simp add: request_fingerprint_def fingerprint_of_def reconciliation_alert_def snap)
  have "om_accounts m = om_accounts (sv_oms s) @ [\<lparr>ra_evidence_id = oe_evidence_id e, ra_reconciliation_id = oe_row_id e,
      ra_snapshot = stored_snapshot ?snap, ra_healthy = True, ra_ingested_at = later_of (oe_now e) as_of\<rparr>]" if "brr_complete ?b"
    using ra q that by (auto simp: oms_record_account_def Let_def split: if_splits)
  moreover have "\<exists>db' a. sv_alerts t = Some db' \<and> a \<in> set (db_alerts db') \<and>
       unresolved (''broker_sync:RECONCILIATION_FAILED:account:'' @ bc_account_id (sb_configuration (sv_adapter s))) a"
    if "\<not> brr_complete ?b" "sv_alerts s = Some db" for db
    using al [OF that] raised_alert_open [of ae ?q db] fp by force
  ultimately show ?thesis using p om by simp
qed

text \<open>
  Two brokers that share the store collide: external identifiers are unique over the whole table, so an
  event that another broker already reported under the same identifier is dropped without an error.
\<close>

lemma shared_store_drops_event:
  assumes "0 < boe_sequence v" "\<not> blank (boe_external_event_id v)"
    and "w \<in> set (es_events s)" "se_broker_name w \<noteq> broker_name" "se_external_event_id w = boe_external_event_id v"
  shows "event_append broker_name v s = (Inr False, s)"
  using assms by (force simp: event_append_def)

section \<open>Witnesses\<close>

definition sample_inputs :: input_evidence where
  "sample_inputs = \<lparr>ie_market_reference = ''m'', ie_market_observed_at = Aware 0 0, ie_halt_reference = ''h'',
     ie_halt_observed_at = Aware 0 0, ie_event_reference = ''e'', ie_event_observed_at = Aware 0 0,
     ie_slippage_reference = ''s'', ie_slippage_observed_at = Aware 0 0, ie_exposure_reference = ''x'',
     ie_exposure_observed_at = Aware 0 0, ie_projected_exposure_digest = ''d'', ie_return_history_reference = ''r'',
     ie_return_history_observed_at = None\<rparr>"

definition approving_assessment :: assessment where
  "approving_assessment = sample_assessment\<lparr>pa_input_evidence := Some sample_inputs,
     pa_portfolio_decision := Some (incomplete_portfolio_decision\<lparr>prd_approved := True\<rparr>)\<rparr>"

abbreviation const_sha :: "json \<Rightarrow> string" where "const_sha \<equiv> \<lambda>_. ''d''"
abbreviation const_mac :: "string \<Rightarrow> string \<Rightarrow> string" where "const_mac \<equiv> \<lambda>k _. k"
abbreviation const_digest :: "payload \<Rightarrow> string" where "const_digest \<equiv> \<lambda>_. ''d''"

definition policy_row_of :: "string \<Rightarrow> policy_row" where
  "policy_row_of ty = \<lparr>pw_document = \<lparr>pd_policy_type = ty, pd_version = ''v1'', pd_payload = [], pd_approved_by = ''op'',
     pd_approved_at = Aware 0 0\<rparr>, pw_digest = ''d''\<rparr>"

definition assessed_store :: assessment_store where
  "assessed_store = snd (assessment_append const_sha const_mac approving_assessment \<lparr>as_key = Some ''k'', as_rows = []\<rparr>)"

definition sample_service :: sync_service where
  "sample_service = \<lparr>sv_oms = empty_oms, sv_adapter = sample_sandbox, sv_events = \<lparr>es_events = [], es_cursors = []\<rparr>,
     sv_alerts = None, sv_decisions = None, sv_assessments = Some assessed_store,
     sv_policies = Some [policy_row_of ''risk'', policy_row_of ''portfolio'']\<rparr>"

definition sample_submit_env :: submit_env where
  "sample_submit_env = \<lparr>su_decision_id = 0, su_decided_at = Aware 0 0,
     su_oms = (\<lambda>k. \<lparr>oe_event_id = 3 * k, oe_event_now = Aware 0 0, oe_row_id = 0, oe_evidence_id = 0, oe_now = Aware 0 0\<rparr>),
     su_broker = \<lparr>ee_event_id = 0, ee_now = Aware 0 0\<rparr>,
     su_sync = (\<lambda>k. let e = (\<lambda>j. \<lparr>oe_event_id = j, oe_event_now = Aware 0 0, oe_row_id = k, oe_evidence_id = 0, oe_now = Aware 0 0\<rparr>)
       in (e (3 * k + 1), e (3 * k + 2)))\<rparr>"

lemma sample_service_reach: "sync_reach const_sha const_mac const_digest sample_service"
  by (rule reach_start [OF new_sample_sandbox]) (simp_all add: sample_service_def)

lemma sample_fresh: "fresh_submit sample_submit_env sample_service"
proof -
  have n: "3 * j + 1 \<noteq> 3 * k" "3 * j + 2 \<noteq> 3 * k" "3 * j + 1 \<noteq> 3 * k + 2" for j k :: nat by presburger+
  have "draw_id (su_sync sample_submit_env) j b = draw_id (su_sync sample_submit_env) k c \<Longrightarrow> j = k \<and> b = c" for j k b c
    using n [of j k] n [of k j] by (cases b; cases c) (auto simp: draw_id_def sample_submit_env_def)
  moreover have "oe_event_id (su_oms sample_submit_env j) \<noteq> draw_id (su_sync sample_submit_env) k b" for j k b
    using n [of k j] by (cases b) (auto simp: draw_id_def sample_submit_env_def)
  ultimately have "fresh_from sample_submit_env 0 empty_oms"
    by (auto simp: fresh_from_def distinct_draws_def unused_draws_def empty_oms_def) (simp_all add: sample_submit_env_def)
  then show ?thesis
    by (simp add: fresh_submit_def sample_service_def fresh_event_def sample_sandbox_def) (simp add: sample_submit_env_def)
qed

lemma sample_evidence:
  "assessment_evidence const_sha const_mac const_digest sample_intent approving_assessment sample_service =
   Inr (stored_assessment approving_assessment)"
proof -
  have ap: "assessment_append const_sha const_mac approving_assessment \<lparr>as_key = Some ''k'', as_rows = []\<rparr> = (Inr (), assessed_store)"
    by (simp add: assessed_store_def assessment_append_def)
  have k: "as_key assessed_store = Some ''k''" using assessment_append_Inr [OF ap] by simp
  have "get_for_intent const_sha const_mac (rd_intent_id (pa_risk_decision approving_assessment))
      (assessed_store\<lparr>as_rows := as_rows assessed_store @ []\<rparr>) = Inr (Some (stored_assessment approving_assessment))"
    by (rule assessment_appended_read [OF ap]) (simp add: approving_assessment_def sample_assessment_def)
  then have "get_for_intent const_sha const_mac 1 assessed_store = Inr (Some (stored_assessment approving_assessment))"
    by (simp add: approving_assessment_def sample_assessment_def)
  then show ?thesis
    using k by (simp add: assessment_evidence_def sample_service_def sample_intent_def keyed_integrity_enabled_def
        policy_get_def row_key_def policy_row_of_def policy_digest_def stored_assessment_def stored_columns_def
        approving_assessment_def sample_assessment_def)
qed

lemma stored_approving:
  "rd_decision (pa_risk_decision (stored_assessment approving_assessment)) = APPROVE"
  "\<exists>p. pa_portfolio_decision (stored_assessment approving_assessment) = Some p \<and> prd_approved p"
  by (simp_all add: stored_assessment_def stored_columns_def approving_assessment_def sample_assessment_def incomplete_portfolio_decision_def)

lemma sample_oms_empty: "dict_get (om_orders (sv_oms sample_service)) i = None" "sv_decisions sample_service = None"
  by (simp_all add: sample_service_def empty_oms_def)

text \<open>The state after the submission of an approved intent.\<close>

lemma sample_submitted:
  obtains o1 t where "submit_after_assessment const_sha const_mac const_digest sample_submit_env sample_intent
      approving_assessment sample_service = (Inr o1, t)" "po_status o1 = ACKNOWLEDGED"
    "dict_get (sb_orders (sv_adapter t)) 1 = Some o1" "pending_events t = []" "sync_reach const_sha const_mac const_digest t"
    "intent_id_of o1 = 1"
proof -
  obtain p where p: "pa_portfolio_decision (stored_assessment approving_assessment) = Some p" "prd_approved p"
    using stored_approving(2) by blast
  obtain r t where sc: "submit_checked sample_submit_env sample_intent (pa_risk_decision (stored_assessment approving_assessment)) p sample_service = (r, t)"
    by (rule prod.exhaust)
  then have sa: "submit_after_assessment const_sha const_mac const_digest sample_submit_env sample_intent approving_assessment sample_service = (r, t)"
    using sample_evidence p(1) sample_oms_empty by (simp add: submit_after_assessment_def)
  have id: "rd_intent_id (pa_risk_decision (stored_assessment approving_assessment)) = oi_intent_id sample_intent"
    using assessment_evidence_Inr [OF sample_evidence] by (simp add: assessed_intent_def)
  have "reached_broker sample_intent r sample_service t"
    by (rule submit_checked_outcome(4) [OF sync_reach_mirrored [OF sample_service_reach] sample_fresh sc id stored_approving(1) p(2) sample_oms_empty])
  then obtain o1 where o1: "r = Inr o1" "po_status o1 = ACKNOWLEDGED" "pending_events t = []"
    "dict_get (sb_orders (sv_adapter t)) 1 = Some o1"
    by (auto simp: reached_broker_def dict_simps sample_intent_def)
  have re: "sync_reach const_sha const_mac const_digest t" by (rule reach_submit [OF sample_service_reach sample_fresh sa])
  have "intent_id_of o1 = 1"
    using sync_reach_mirrored [OF re] o1(4) by (auto simp: mirrored_def adapter_log_def log_inv_def keyed_def)
  then show ?thesis using that sa o1 re by blast
qed

text \<open>The same after the broker has cancelled the order: one event is pending.\<close>

lemma sample_cancelled:
  obtains s v o1 where "sync_reach const_sha const_mac const_digest s" "pending_events s = [v]"
    "boe_event_type v = ''ORDER_CANCELLED''" "boe_client_intent_id v = 1"
    "dict_get (sb_orders (sv_adapter s)) 1 = Some o1" "po_status o1 = CANCELLED"
proof -
  obtain o1 t where t: "po_status o1 = ACKNOWLEDGED" "dict_get (sb_orders (sv_adapter t)) 1 = Some o1" "pending_events t = []"
    "sync_reach const_sha const_mac const_digest t" "intent_id_of o1 = 1"
    by (rule sample_submitted)
  let ?b = "sv_adapter t" and ?o2 = "o1\<lparr>po_status := CANCELLED\<rparr>"
  have "finite (boe_event_id ` set (sb_events ?b))" by simp
  from ex_new_if_finite [OF _ this] obtain n where n: "n \<notin> boe_event_id ` set (sb_events ?b)" by blast
  let ?e = "\<lparr>ee_event_id = n, ee_now = Aware 0 0\<rparr>"
  have "withdraw o1 = Inr ?o2" using t(1) by (simp add: withdraw_iff fillable_def)
  then have c: "sb_perform (SbCancel ?e 1) ?b = sb_event ?e ?o2 ''ORDER_CANCELLED'' [] (sb_put 1 ?o2 ?b)"
    using t(2) by (simp add: sb_cancel_def sb_order_def)
  let ?s = "t\<lparr>sv_adapter := sb_perform (SbCancel ?e 1) ?b\<rparr>"
  have re: "sync_reach const_sha const_mac const_digest ?s"
    by (rule reach_broker [OF t(4)]) (use n in \<open>auto simp: fresh_event_def\<close>)
  obtain v where v: "sb_events (sb_perform (SbCancel ?e 1) ?b) = sb_events ?b @ [v]" "boe_event_type v = ''ORDER_CANCELLED''"
    "boe_client_intent_id v = 1"
    using sb_event_appended [of ?e ?o2 "''ORDER_CANCELLED''" "[]" "sb_put 1 ?o2 ?b"] t(5) unfolding c by (simp add: sb_put_def)
  have "sb_configuration (sb_perform (SbCancel ?e 1) ?b) = sb_configuration ?b" unfolding c by (simp add: sb_put_def)
  then have "cursor ?s = cursor t" by (simp add: cursor_def broker_name_of_def)
  moreover have "cursor t = length (sb_events ?b)"
    using t(3) sync_reach_mirrored [OF t(4)] by (simp add: pending_events_def mirrored_def stores_known_def)
  ultimately have "pending_events ?s = [v]" using v(1) by (simp add: pending_events_def)
  moreover have "dict_get (sb_orders (sv_adapter ?s)) 1 = Some ?o2" unfolding c by (simp add: sb_put_def dict_simps)
  ultimately show ?thesis using that re v(2,3) by simp
qed


theorem broker_orders_assessed_witness:
  "\<exists>s o1 store a. sync_reach const_sha const_mac const_digest s \<and> dict_get (sb_orders (sv_adapter s)) 1 = Some o1 \<and>
     sv_assessments s = Some store \<and> get_for_intent const_sha const_mac 1 store = Inr (Some a)"
proof -
  obtain s v o1 where s: "sync_reach const_sha const_mac const_digest s" "dict_get (sb_orders (sv_adapter s)) 1 = Some o1"
    by (rule sample_cancelled)
  from broker_orders_assessed [OF s] show ?thesis using s by blast
qed

theorem approved_intent_reaches_broker_witness:
  "\<exists>o1 t. submit_after_assessment const_sha const_mac const_digest sample_submit_env sample_intent
     approving_assessment sample_service = (Inr o1, t) \<and> po_status o1 = ACKNOWLEDGED"
proof -
  obtain p where p: "pa_portfolio_decision (stored_assessment approving_assessment) = Some p" "prd_approved p"
    using stored_approving(2) by blast
  from approved_intent_reaches_broker [OF sample_service_reach sample_fresh sample_evidence stored_approving(1) p sample_oms_empty]
  show ?thesis by blast
qed


definition empty_account :: internal_account_state where
  "empty_account = \<lparr>ias_cash = mk_cash ''EUR'' (Dec 1000 0), ias_positions = [], ias_open_intent_ids = [], ias_fill_ids = [],
     ias_realized_pnl = Dec 0 0, ias_fees = Dec 0 0\<rparr>"

definition alerting_service :: sync_service where
  "alerting_service = sample_service\<lparr>sv_alerts := Some \<lparr>db_alerts = [], db_events = []\<rparr>\<rparr>"

definition sample_oms_env :: oms_env where
  "sample_oms_env = \<lparr>oe_event_id = 0, oe_event_now = Aware 0 0, oe_row_id = 0, oe_evidence_id = 0, oe_now = Aware 0 0\<rparr>"

definition sample_alert_env :: alert_env where
  "sample_alert_env = \<lparr>le_alert_id = 0, le_event_id = 0, le_now = Aware 0 0, le_event_now = Aware 0 0\<rparr>"

lemma currency_mismatch:
  "\<not> brr_complete (reconcile_broker_account [] empty_account (sb_sync_account (Aware 0 0) sample_sandbox) (Dec 1 (- 2)))"
  by (simp add: reconcile_broker_account_def reconcile_def empty_account_def sb_sync_account_def sample_sandbox_def Let_def)

theorem reconciliation_recorded_witness:
  "\<exists>p t db' a. sync_reconcile sample_oms_env sample_alert_env (Aware 0 0) [] empty_account alerting_service = (Inr p, t) \<and>
     \<not> rr_complete p \<and> sv_alerts t = Some db' \<and> a \<in> set (db_alerts db') \<and> al_status a \<noteq> RESOLVED"
proof -
  have ad: "sv_adapter alerting_service = sample_sandbox" by (simp add: alerting_service_def sample_service_def)
  have "\<exists>p t. sync_reconcile sample_oms_env sample_alert_env (Aware 0 0) [] empty_account alerting_service = (Inr p, t)"
    using currency_mismatch
    by (simp add: sync_reconcile_def ad Let_def on_oms_def oms_record_account_def sb_sync_account_def sample_sandbox_def sample_configuration_def
        blank_def strip_def is_space_def alerting_service_def sample_service_def empty_oms_def sample_oms_env_def later_of_def
        sql_raise_alert_def reconciliation_alert_def alert_fields_valid_def append_event_def sample_alert_env_def
        opened_alert_def)
  then obtain p t where r: "sync_reconcile sample_oms_env sample_alert_env (Aware 0 0) [] empty_account alerting_service = (Inr p, t)" by blast
  note c = reconciliation_recorded [OF r]
  have "\<not> rr_complete p" using c currency_mismatch by (simp add: ad)
  moreover have "sv_alerts alerting_service = Some \<lparr>db_alerts = [], db_events = []\<rparr>" by (simp add: alerting_service_def)
  ultimately obtain db' a where "sv_alerts t = Some db'" "a \<in> set (db_alerts db')" "al_status a \<noteq> RESOLVED"
    using c by (auto simp: unresolved_def)
  then show ?thesis using r \<open>\<not> rr_complete p\<close> by blast
qed

end
