(* ===== verification/MarketEvidence.thy ===== *)
theory MarketEvidence
  imports PretradeEvidence
begin

text \<open>
  \<open>quotes.py\<close> and \<open>execution_evidence.py\<close>: append-only quotes, halts, event risks and slippage estimates,
  read as they were known at a decision time.
\<close>

section \<open>Quotes\<close>

record quote =
  q_quote_id :: uuid
  q_instrument_id :: string
  q_bid :: decimal
  q_ask :: decimal
  q_last :: decimal
  q_quality_score :: decimal
  q_provider :: string
  q_source_reference :: string
  q_observed_at :: datetime
  q_ingested_at :: datetime

abbreviation quote_error :: "string \<Rightarrow> py_exc" where
  "quote_error m \<equiv> Exc QuoteDataError m"

definition validate_quote :: "quote \<Rightarrow> unit result" where
  "validate_quote q =
     (if blank (q_instrument_id q) \<or> blank (q_provider q) \<or> blank (q_source_reference q) \<or>
         dmin (dmin (q_bid q) (q_ask q)) (q_last q) \<le> 0 \<or> q_ask q < q_bid q \<or>
         \<not> (Dec 0 0 \<le> q_quality_score q \<and> q_quality_score q \<le> Dec 1 0) \<or>
         \<not> aware (q_observed_at q) \<or> \<not> aware (q_ingested_at q) \<or>
         instant (q_ingested_at q) < instant (q_observed_at q)
      then Inl (quote_error ''invalid_quote_observation'') else Inr ())"

definition quote_snapshot :: "quote \<Rightarrow> market_snapshot" where
  "quote_snapshot q =
     \<lparr>ms_instrument_id = q_instrument_id q, ms_observed_at = q_observed_at q, ms_bid = q_bid q, ms_ask = q_ask q,
      ms_last = q_last q, ms_data_quality_score = q_quality_score q\<rparr>"

definition quote_append :: "quote \<Rightarrow> (quote list, unit) operation" where
  "quote_append q rows =
     (case validate_quote q of
        Inl x \<Rightarrow> (Inl x, rows)
      | Inr _ \<Rightarrow>
          if q_quote_id q \<in> q_quote_id ` set rows then (Inl (quote_error ''duplicate_quote_observation''), rows)
          else (Inr (), rows @ [q]))"

definition known_quote :: "string \<Rightarrow> datetime \<Rightarrow> quote list \<Rightarrow> quote option" where
  "known_quote instrument_id t rows =
     newest_as_of q_observed_at q_ingested_at (\<lambda>q. q_instrument_id q = instrument_id) t rows"

definition quote_latest :: "string \<Rightarrow> datetime \<Rightarrow> quote list \<Rightarrow> quote result" where
  "quote_latest instrument_id decision_at rows =
     (if \<not> aware decision_at then Inl (quote_error ''quote_decision_time_must_be_timezone_aware'')
      else case known_quote instrument_id decision_at rows of
        None \<Rightarrow> Inl (quote_error ''quote_unavailable_as_of'') | Some q \<Rightarrow> Inr q)"

interpretation quotes: point_in_time known_quote "\<lambda>q rows. rows @ [q]" q_ingested_at
  by unfold_locales (auto simp: known_quote_def newest_as_of_later dest: newest_as_of_Some)

section \<open>Execution evidence\<close>

record halt_observation =
  ho_observation_id :: uuid
  ho_instrument_id :: string
  ho_halted :: bool
  ho_source :: string
  ho_source_reference :: string
  ho_observed_at :: datetime
  ho_ingested_at :: datetime

record event_risk_observation =
  eo_observation_id :: uuid
  eo_instrument_id :: string
  eo_risk :: decimal
  eo_source :: string
  eo_source_reference :: string
  eo_observed_at :: datetime
  eo_ingested_at :: datetime

record slippage_estimate =
  sl_estimate_id :: uuid
  sl_instrument_id :: string
  sl_side :: order_side
  sl_expected_fraction :: decimal
  sl_source :: string
  sl_source_reference :: string
  sl_observed_at :: datetime
  sl_ingested_at :: datetime

abbreviation execution_error :: "string \<Rightarrow> py_exc" where
  "execution_error m \<equiv> Exc ExecutionEvidenceError m"

definition validate_record :: "string list \<Rightarrow> datetime \<Rightarrow> datetime \<Rightarrow> unit result" where
  "validate_record values observed_at ingested_at =
     (if (\<exists>v \<in> set values. blank v) \<or> \<not> aware observed_at \<or> \<not> aware ingested_at \<or> instant ingested_at < instant observed_at
      then Inl (execution_error ''invalid_execution_evidence_record'') else Inr ())"

record execution_store =
  xs_halts :: "halt_observation list"
  xs_events :: "event_risk_observation list"
  xs_slippages :: "slippage_estimate list"

text \<open>A repeated identifier raises \<open>sqlite3.IntegrityError\<close>, which these methods do not translate.\<close>

definition append_halt :: "halt_observation \<Rightarrow> (execution_store, unit) operation" where
  "append_halt h s =
     (case validate_record [ho_instrument_id h, ho_source h, ho_source_reference h] (ho_observed_at h) (ho_ingested_at h) of
        Inl x \<Rightarrow> (Inl x, s)
      | Inr _ \<Rightarrow>
          if ho_observation_id h \<in> ho_observation_id ` set (xs_halts s)
          then (Inl (Exc IntegrityError ''UNIQUE constraint failed''), s)
          else (Inr (), s\<lparr>xs_halts := xs_halts s @ [h]\<rparr>))"

definition append_event_risk :: "event_risk_observation \<Rightarrow> (execution_store, unit) operation" where
  "append_event_risk v s =
     (case validate_record [eo_instrument_id v, eo_source v, eo_source_reference v] (eo_observed_at v) (eo_ingested_at v) of
        Inl x \<Rightarrow> (Inl x, s)
      | Inr _ \<Rightarrow>
          if \<not> (Dec 0 0 \<le> eo_risk v \<and> eo_risk v \<le> Dec 1 0)
          then (Inl (execution_error ''event_risk_outside_unit_interval''), s)
          else if eo_observation_id v \<in> eo_observation_id ` set (xs_events s)
          then (Inl (Exc IntegrityError ''UNIQUE constraint failed''), s)
          else (Inr (), s\<lparr>xs_events := xs_events s @ [v]\<rparr>))"

definition append_slippage :: "slippage_estimate \<Rightarrow> (execution_store, unit) operation" where
  "append_slippage e s =
     (case validate_record [sl_instrument_id e, sl_source e, sl_source_reference e] (sl_observed_at e) (sl_ingested_at e) of
        Inl x \<Rightarrow> (Inl x, s)
      | Inr _ \<Rightarrow>
          if sl_expected_fraction e < 0 then (Inl (execution_error ''negative_slippage_estimate''), s)
          else if sl_estimate_id e \<in> sl_estimate_id ` set (xs_slippages s)
          then (Inl (Exc IntegrityError ''UNIQUE constraint failed''), s)
          else (Inr (), s\<lparr>xs_slippages := xs_slippages s @ [e]\<rparr>))"

record execution_snapshot =
  sn_halt :: halt_observation
  sn_event :: event_risk_observation
  sn_slippage :: slippage_estimate

definition known_halt :: "string \<Rightarrow> datetime \<Rightarrow> execution_store \<Rightarrow> halt_observation option" where
  "known_halt i t s = newest_as_of ho_observed_at ho_ingested_at (\<lambda>h. ho_instrument_id h = i) t (xs_halts s)"

definition known_event :: "string \<Rightarrow> datetime \<Rightarrow> execution_store \<Rightarrow> event_risk_observation option" where
  "known_event i t s = newest_as_of eo_observed_at eo_ingested_at (\<lambda>v. eo_instrument_id v = i) t (xs_events s)"

definition known_slippage :: "string \<times> order_side \<Rightarrow> datetime \<Rightarrow> execution_store \<Rightarrow> slippage_estimate option" where
  "known_slippage k t s =
     newest_as_of sl_observed_at sl_ingested_at (\<lambda>e. sl_instrument_id e = fst k \<and> sl_side e = snd k) t (xs_slippages s)"

definition execution_snapshot_as_of :: "string \<Rightarrow> order_side \<Rightarrow> datetime \<Rightarrow> execution_store \<Rightarrow> execution_snapshot result" where
  "execution_snapshot_as_of i side t s =
     (if \<not> aware t then Inl (execution_error ''decision_time_must_be_timezone_aware'')
      else case (known_halt i t s, known_event i t s, known_slippage (i, side) t s) of
        (Some h, Some v, Some e) \<Rightarrow> Inr \<lparr>sn_halt = h, sn_event = v, sn_slippage = e\<rparr>
      | _ \<Rightarrow> Inl (execution_error ''execution_evidence_unavailable_as_of''))"

text \<open>\<open>f"{source}:{source_reference}:{id}"\<close>\<close>

definition source_text :: "string \<Rightarrow> string \<Rightarrow> uuid \<Rightarrow> string" where
  "source_text source reference i = source @ '':'' @ reference @ '':'' @ uuid_str i"

definition snapshot_input_evidence ::
  "(json \<Rightarrow> string) \<Rightarrow> string \<Rightarrow> market_snapshot \<Rightarrow> string \<Rightarrow> datetime \<Rightarrow> portfolio_exposure list \<Rightarrow>
   execution_snapshot \<Rightarrow> input_evidence" where
  "snapshot_input_evidence sha market_reference market exposure_reference exposure_observed_at exposures sn =
     \<lparr>ie_market_reference = market_reference, ie_market_observed_at = ms_observed_at market,
      ie_halt_reference = source_text (ho_source (sn_halt sn)) (ho_source_reference (sn_halt sn)) (ho_observation_id (sn_halt sn)),
      ie_halt_observed_at = ho_observed_at (sn_halt sn),
      ie_event_reference = source_text (eo_source (sn_event sn)) (eo_source_reference (sn_event sn)) (eo_observation_id (sn_event sn)),
      ie_event_observed_at = eo_observed_at (sn_event sn),
      ie_slippage_reference = source_text (sl_source (sn_slippage sn)) (sl_source_reference (sn_slippage sn)) (sl_estimate_id (sn_slippage sn)),
      ie_slippage_observed_at = sl_observed_at (sn_slippage sn),
      ie_exposure_reference = exposure_reference, ie_exposure_observed_at = exposure_observed_at,
      ie_projected_exposure_digest = projected_exposure_fingerprint sha exposures,
      ie_return_history_reference = [], ie_return_history_observed_at = None\<rparr>"

section \<open>Point-in-time reads\<close>

interpretation halts: point_in_time known_halt "\<lambda>h s. s\<lparr>xs_halts := xs_halts s @ [h]\<rparr>" ho_ingested_at
  by unfold_locales (auto simp: known_halt_def newest_as_of_later dest: newest_as_of_Some)

interpretation events: point_in_time known_event "\<lambda>v s. s\<lparr>xs_events := xs_events s @ [v]\<rparr>" eo_ingested_at
  by unfold_locales (auto simp: known_event_def newest_as_of_later dest: newest_as_of_Some)

interpretation slippages: point_in_time known_slippage "\<lambda>e s. s\<lparr>xs_slippages := xs_slippages s @ [e]\<rparr>" sl_ingested_at
  by unfold_locales (auto simp: known_slippage_def newest_as_of_later dest: newest_as_of_Some)

datatype evidence_call = AppendHalt halt_observation | AppendEvent event_risk_observation | AppendSlippage slippage_estimate

fun evidence_perform :: "evidence_call \<Rightarrow> execution_store \<Rightarrow> execution_store" where
  "evidence_perform (AppendHalt h) s = snd (append_halt h s)"
| "evidence_perform (AppendEvent v) s = snd (append_event_risk v s)"
| "evidence_perform (AppendSlippage e) s = snd (append_slippage e s)"

fun evidence_ingested :: "evidence_call \<Rightarrow> datetime" where
  "evidence_ingested (AppendHalt h) = ho_ingested_at h"
| "evidence_ingested (AppendEvent v) = eo_ingested_at v"
| "evidence_ingested (AppendSlippage e) = sl_ingested_at e"

lemma evidence_call_unseen:
  assumes "\<not> iso_le (evidence_ingested c) t"
  shows "known_halt i t (evidence_perform c s) = known_halt i t s" "known_event i t (evidence_perform c s) = known_event i t s"
    "known_slippage k t (evidence_perform c s) = known_slippage k t s"
  using assms halts.later_invisible events.later_invisible slippages.later_invisible
  by (cases c; auto simp: append_halt_def append_event_risk_def append_slippage_def known_halt_def known_event_def known_slippage_def
      split: sum.splits)+

lemma evidence_run_unseen:
  "\<forall>c \<in> set cs. \<not> iso_le (evidence_ingested c) t \<Longrightarrow>
   execution_snapshot_as_of i side t (fold evidence_perform cs s) = execution_snapshot_as_of i side t s"
  by (induction cs arbitrary: s) (simp_all add: execution_snapshot_as_of_def evidence_call_unseen)

lemma quote_append_cases:
  "snd (quote_append q rows) = rows \<or> snd (quote_append q rows) = rows @ [q]"
  by (auto simp: quote_append_def split: sum.splits)

lemma quote_run_unseen:
  "\<forall>q \<in> set qs. \<not> iso_le (q_ingested_at q) t \<Longrightarrow>
   known_quote i t (fold (\<lambda>q rows. snd (quote_append q rows)) qs rows) = known_quote i t rows"
proof (induction qs arbitrary: rows)
  case (Cons q qs)
  then have "known_quote i t (snd (quote_append q rows)) = known_quote i t rows"
    using quote_append_cases [of q rows] quotes.later_invisible [of q t i rows] by auto
  then show ?case using Cons by simp
qed simp

lemma execution_snapshot_Inr:
  "execution_snapshot_as_of i side t s = Inr sn \<longleftrightarrow>
   aware t \<and> known_halt i t s = Some (sn_halt sn) \<and> known_event i t s = Some (sn_event sn) \<and>
   known_slippage (i, side) t s = Some (sn_slippage sn)"
  by (cases sn) (auto simp: execution_snapshot_as_of_def split: option.splits)

lemma quote_latest_Inr: "quote_latest i t rows = Inr q \<longleftrightarrow> aware t \<and> known_quote i t rows = Some q"
  by (simp add: quote_latest_def split: option.splits)

lemma quote_latest_unseen:
  "\<forall>q \<in> set qs. \<not> iso_le (q_ingested_at q) t \<Longrightarrow>
   quote_latest i t (fold (\<lambda>q rows. snd (quote_append q rows)) qs rows) = quote_latest i t rows"
  using quote_run_unseen [of qs t i rows] by (simp add: quote_latest_def)

lemma quote_latest_known: "quote_latest i t rows = Inr q \<Longrightarrow> iso_le (q_observed_at q) t \<and> iso_le (q_ingested_at q) t"
  by (auto simp: quote_latest_Inr known_quote_def dest: newest_as_of_Some)

text \<open>
  The cut-off compares the ISO texts of times. Times written with one UTC offset compare like their instants; the
  reference of a read is in instants: the newest matching row observed and ingested by \<open>t\<close>.
\<close>

fun in_offset :: "int \<Rightarrow> datetime \<Rightarrow> bool" where
  "in_offset off (Aware _ z) \<longleftrightarrow> z = off"
| "in_offset off (Naive _) \<longleftrightarrow> False"

definition newest_known :: "('r \<Rightarrow> datetime) \<Rightarrow> ('r \<Rightarrow> datetime) \<Rightarrow> ('r \<Rightarrow> bool) \<Rightarrow> datetime \<Rightarrow> 'r list \<Rightarrow> 'r \<Rightarrow> bool" where
  "newest_known observed ingested matches t rows r \<longleftrightarrow>
     r \<in> set rows \<and> matches r \<and> instant (observed r) \<le> instant t \<and> instant (ingested r) \<le> instant t \<and>
     (\<forall>q \<in> set rows. matches q \<and> instant (observed q) \<le> instant t \<and> instant (ingested q) \<le> instant t \<longrightarrow>
        instant (observed q) < instant (observed r) \<or>
        instant (observed q) = instant (observed r) \<and> instant (ingested q) \<le> instant (ingested r))"

lemma in_offset_le: "in_offset off a \<Longrightarrow> in_offset off b \<Longrightarrow> iso_le a b \<longleftrightarrow> instant a \<le> instant b"
  by (cases a; cases b) (simp_all add: iso_le_same_offset del: instant.simps)

lemma in_offset_key: "in_offset off a \<Longrightarrow> in_offset off b \<Longrightarrow> iso_key a \<le> iso_key b \<longleftrightarrow> instant a \<le> instant b"
  by (cases a; cases b) (auto simp: less_eq_prod_def)

lemma in_offset_aware: "in_offset off t \<Longrightarrow> aware t"
  by (cases t) simp_all

lemma newest_as_of_reference:
  assumes "newest_as_of observed ingested matches t rows = Some r" "in_offset off t"
    "\<forall>q \<in> set rows. in_offset off (observed q) \<and> in_offset off (ingested q)"
  shows "newest_known observed ingested matches t rows r"
proof -
  note n = newest_as_of_Some [OF assms(1)]
  have r: "in_offset off (observed r)" "in_offset off (ingested r)" using n assms(3) by auto
  have "instant (observed q) < instant (observed r) \<or>
      instant (observed q) = instant (observed r) \<and> instant (ingested q) \<le> instant (ingested r)"
    if "q \<in> set rows" "matches q" "instant (observed q) \<le> instant t" "instant (ingested q) \<le> instant t" for q
  proof -
    have q: "in_offset off (observed q)" "in_offset off (ingested q)" using assms(3) that(1) by auto
    have "iso_le (observed q) t" "iso_le (ingested q) t" using q that(3,4) assms(2) by (simp_all add: in_offset_le)
    then have "(iso_key (observed q), iso_key (ingested q)) \<le> (iso_key (observed r), iso_key (ingested r))"
      using n that(1,2) by blast
    then show ?thesis using q r
      by (cases "observed q"; cases "observed r"; cases "ingested q"; cases "ingested r") auto
  qed
  then show ?thesis using n r assms(2) in_offset_le unfolding newest_known_def by blast
qed

definition store_in_offset :: "int \<Rightarrow> execution_store \<Rightarrow> bool" where
  "store_in_offset off s \<longleftrightarrow>
     (\<forall>h \<in> set (xs_halts s). in_offset off (ho_observed_at h) \<and> in_offset off (ho_ingested_at h)) \<and>
     (\<forall>v \<in> set (xs_events s). in_offset off (eo_observed_at v) \<and> in_offset off (eo_ingested_at v)) \<and>
     (\<forall>e \<in> set (xs_slippages s). in_offset off (sl_observed_at e) \<and> in_offset off (sl_ingested_at e))"

definition snapshot_known :: "string \<Rightarrow> order_side \<Rightarrow> datetime \<Rightarrow> execution_store \<Rightarrow> execution_snapshot \<Rightarrow> bool" where
  "snapshot_known i side t s sn \<longleftrightarrow>
     newest_known ho_observed_at ho_ingested_at (\<lambda>h. ho_instrument_id h = i) t (xs_halts s) (sn_halt sn) \<and>
     newest_known eo_observed_at eo_ingested_at (\<lambda>v. eo_instrument_id v = i) t (xs_events s) (sn_event sn) \<and>
     newest_known sl_observed_at sl_ingested_at (\<lambda>e. sl_instrument_id e = i \<and> sl_side e = side) t (xs_slippages s) (sn_slippage sn)"

lemma execution_snapshot_reference:
  assumes "execution_snapshot_as_of i side t s = Inr sn" "in_offset off t" "store_in_offset off s"
  shows "snapshot_known i side t s sn"
  using assms
  by (auto simp: execution_snapshot_Inr known_halt_def known_event_def known_slippage_def store_in_offset_def snapshot_known_def
      intro!: newest_as_of_reference [where off = off])

lemma quote_latest_reference:
  assumes "quote_latest i t rows = Inr q" "in_offset off t" "\<forall>r \<in> set rows. in_offset off (q_observed_at r) \<and> in_offset off (q_ingested_at r)"
  shows "newest_known q_observed_at q_ingested_at (\<lambda>r. q_instrument_id r = i) t rows q"
  using assms by (auto simp: quote_latest_Inr known_quote_def intro!: newest_as_of_reference [where off = off])

section \<open>Properties\<close>

text \<open>
  C34: where all times are written with the decision's UTC offset, what a decision sees of the market is what was
  known then: observations and quotes ingested at a later instant, in whatever order and whether accepted or
  not, never change the snapshot or the quote read for it, and what is read is the instrument's newest observation
  among those observed and ingested no later than the decision. (With mixed offsets this fails:
  \<open>mixed_offsets_look_ahead\<close> below.)
\<close>

theorem market_evidence_no_look_ahead:
  assumes "in_offset off t"
    "\<forall>c \<in> set cs. in_offset off (evidence_ingested c) \<and> instant t < instant (evidence_ingested c)"
    "\<forall>q \<in> set qs. in_offset off (q_ingested_at q) \<and> instant t < instant (q_ingested_at q)"
  shows "execution_snapshot_as_of i side t (fold evidence_perform cs s) = execution_snapshot_as_of i side t s \<and>
    quote_latest i t (fold (\<lambda>q rows. snd (quote_append q rows)) qs rows) = quote_latest i t rows \<and>
    (\<forall>sn. store_in_offset off s \<and> execution_snapshot_as_of i side t s = Inr sn \<longrightarrow> snapshot_known i side t s sn) \<and>
    (\<forall>q. (\<forall>r \<in> set rows. in_offset off (q_observed_at r) \<and> in_offset off (q_ingested_at r)) \<and> quote_latest i t rows = Inr q \<longrightarrow>
       newest_known q_observed_at q_ingested_at (\<lambda>r. q_instrument_id r = i) t rows q)"
proof -
  have "\<forall>c \<in> set cs. \<not> iso_le (evidence_ingested c) t" "\<forall>q \<in> set qs. \<not> iso_le (q_ingested_at q) t"
    using assms in_offset_le by (auto simp: not_le)
  then have "execution_snapshot_as_of i side t (fold evidence_perform cs s) = execution_snapshot_as_of i side t s"
    "quote_latest i t (fold (\<lambda>q rows. snd (quote_append q rows)) qs rows) = quote_latest i t rows"
    by (simp_all add: evidence_run_unseen quote_latest_unseen)
  then show ?thesis using execution_snapshot_reference quote_latest_reference assms(1) by simp
qed

definition sample_quote :: quote where
  "sample_quote = \<lparr>q_quote_id = 1, q_instrument_id = ''BTC'', q_bid = Dec 99 0, q_ask = Dec 100 0, q_last = Dec 100 0,
     q_quality_score = Dec 1 0, q_provider = ''p'', q_source_reference = ''r'', q_observed_at = Aware 5 0, q_ingested_at = Aware 6 0\<rparr>"

lemma sample_quote_appended: "quote_append sample_quote [] = (Inr (), [sample_quote])"
  by (simp add: quote_append_def validate_quote_def sample_quote_def blank_iff is_space_def dmin_def dec_order dec_eval)

theorem market_evidence_no_look_ahead_witness:
  "quote_latest ''BTC'' (Aware 7 0)
     (fold (\<lambda>q rows. snd (quote_append q rows)) [sample_quote\<lparr>q_quote_id := 2, q_bid := Dec 1 0, q_ingested_at := Aware 8 0\<rparr>] [sample_quote]) =
   Inr sample_quote \<and>
   newest_known q_observed_at q_ingested_at (\<lambda>r. q_instrument_id r = ''BTC'') (Aware 7 0) [sample_quote] sample_quote"
proof -
  let ?late = "sample_quote\<lparr>q_quote_id := 2, q_bid := Dec 1 0, q_ingested_at := Aware 8 0\<rparr>"
  let ?halt = "\<lparr>ho_observation_id = 1, ho_instrument_id = ''BTC'', ho_halted = False,
    ho_source = ''s'', ho_source_reference = ''r'', ho_observed_at = Aware 8 0, ho_ingested_at = Aware 8 0\<rparr>"
  have q: "quote_latest ''BTC'' (Aware 7 0) [sample_quote] = Inr sample_quote"
    by (simp add: quote_latest_def known_quote_def newest_as_of_def newest_def keep_newer_def visible_at_def iso_le_def sample_quote_def)
  have off: "in_offset 0 (Aware 7 0)" "\<forall>c \<in> set [AppendHalt ?halt]. in_offset 0 (evidence_ingested c) \<and> instant (Aware 7 0) < instant (evidence_ingested c)"
    "\<forall>q \<in> set [?late]. in_offset 0 (q_ingested_at q) \<and> instant (Aware 7 0) < instant (q_ingested_at q)"
    "\<forall>r \<in> set [sample_quote]. in_offset 0 (q_observed_at r) \<and> in_offset 0 (q_ingested_at r)"
    by (simp_all add: sample_quote_def)
  show ?thesis
    using market_evidence_no_look_ahead [OF off(1-3), of "''BTC''" BUY _ "[sample_quote]"] off(4) q by metis
qed

text \<open>
  The times are compared as texts, so a quote stamped with another offset escapes the cut-off: a
  valid quote that is observed and ingested after the decision is read for it.
\<close>

theorem mixed_offsets_look_ahead:
  "\<exists>q t. fst (quote_append q []) = Inr () \<and> quote_latest (q_instrument_id q) t (snd (quote_append q [])) = Inr q \<and>
     instant t < instant (q_observed_at q) \<and> instant t < instant (q_ingested_at q)"
proof -
  let ?q = "sample_quote\<lparr>q_observed_at := Aware 5 (- 3600000000), q_ingested_at := Aware 6 (- 3600000000)\<rparr>"
  have "quote_append ?q [] = (Inr (), [?q])"
    by (simp add: quote_append_def validate_quote_def sample_quote_def blank_iff is_space_def dmin_def dec_order dec_eval)
  moreover have "quote_latest (q_instrument_id ?q) (Aware 7 0) [?q] = Inr ?q"
    by (simp add: quote_latest_def known_quote_def newest_as_of_def newest_def keep_newer_def visible_at_def iso_le_def)
  ultimately show ?thesis by (intro exI [of _ ?q] exI [of _ "Aware 7 0"]) simp
qed

end
