(* ===== verification/Instruments.thy ===== *)
theory Instruments
  imports Domain Rendering SqlOrder
begin

text \<open>
  \<open>instruments.py\<close>: the instrument master. Tables are lists of rows in the order of their rowids; times are
  stored by \<open>_utc_timestamp\<close>, so a row holds its times at offset zero. The time zone database is the
  parameter \<open>zone\<close>: the UTC offset of a zone at an instant, or the exception \<open>ZoneInfo(name)\<close> raises.
\<close>

section \<open>Records\<close>

record symbol_history =
  sh_instrument_id :: string
  sh_symbol :: string
  sh_venue :: string
  sh_valid_from :: datetime
  sh_valid_until :: "datetime option"

text \<open>\<open>time\<close> values are microseconds of the day, without a time zone.\<close>

record trading_session =
  ts_venue :: string
  ts_weekday :: int
  ts_opens_at :: int
  ts_closes_at :: int
  ts_timezone_name :: string

record risk_profile =
  ip_instrument_id :: string
  ip_sector :: string
  ip_country :: string
  ip_correlation_cluster :: string
  ip_beta :: decimal
  ip_duration :: decimal
  ip_factors :: "(string, decimal) dict"
  ip_effective_at :: datetime
  ip_ingested_at :: datetime

record instrument_identifier =
  id_instrument_id :: string
  id_namespace :: string
  id_value :: string

record instrument_store =
  im_instruments :: "instrument list"
  im_profiles :: "risk_profile list"
  im_identifiers :: "instrument_identifier list"
  im_history :: "symbol_history list"
  im_sessions :: "trading_session list"
  im_holidays :: "(string \<times> int) list"

definition empty_instruments :: instrument_store where
  "empty_instruments = \<lparr>im_instruments = [], im_profiles = [], im_identifiers = [], im_history = [], im_sessions = [], im_holidays = []\<rparr>"

type_synonym zones = "string \<Rightarrow> (int \<Rightarrow> int) result"

section \<open>Timestamps\<close>

definition utc_timestamp :: "datetime \<Rightarrow> datetime result" where
  "utc_timestamp t =
     (if aware t then Inr (Aware (instant t) 0) else Inl (Exc ValueError ''timestamps must be timezone-aware''))"

definition utc_optional :: "datetime option \<Rightarrow> datetime option result" where
  "utc_optional d = (case d of None \<Rightarrow> Inr None | Some t \<Rightarrow> bind_result (utc_timestamp t) (\<lambda>u. Inr (Some u)))"

text \<open>\<open>a < b\<close> of two timestamp texts.\<close>

definition text_before :: "datetime \<Rightarrow> datetime \<Rightarrow> bool" where
  "text_before a b = (\<not> iso_le b a)"

text \<open>\<open>'9999-12-31T23:59:59+00:00'\<close>\<close>

definition end_of_time :: datetime where
  "end_of_time = Aware 253402300799000000 0"

section \<open>Instruments\<close>

definition register_instrument :: "instrument \<Rightarrow> (instrument_store, unit) operation" where
  "register_instrument i s =
     (case utc_optional (ins_delisted_at i) of
        Inl x \<Rightarrow> (Inl x, s)
      | Inr d \<Rightarrow>
          if ins_instrument_id i \<in> ins_instrument_id ` set (im_instruments s)
          then (Inl (Exc InstrumentAlreadyExistsError (ins_instrument_id i)), s)
          else (Inr (), s\<lparr>im_instruments := im_instruments s @ [i\<lparr>ins_delisted_at := d\<rparr>]\<rparr>))"

definition get_instrument :: "string \<Rightarrow> instrument_store \<Rightarrow> instrument result" where
  "get_instrument i s =
     (case find (\<lambda>r. ins_instrument_id r = i) (im_instruments s) of
        None \<Rightarrow> Inl (Exc InstrumentNotFoundError i) | Some r \<Rightarrow> Inr r)"

definition invalid_profile :: "risk_profile \<Rightarrow> bool" where
  "invalid_profile p \<longleftrightarrow>
     blank (ip_sector p) \<or> blank (ip_country p) \<or> blank (ip_correlation_cluster p) \<or>
     \<not> aware (ip_effective_at p) \<or> \<not> aware (ip_ingested_at p) \<or>
     instant (ip_ingested_at p) < instant (ip_effective_at p) \<or> (\<exists>f \<in> set (dict_keys (ip_factors p)). blank f)"

definition stored_profile :: "risk_profile \<Rightarrow> risk_profile" where
  "stored_profile p = p\<lparr>ip_factors := sort_key fst (ip_factors p),
     ip_effective_at := Aware (instant (ip_effective_at p)) 0, ip_ingested_at := Aware (instant (ip_ingested_at p)) 0\<rparr>"

definition profile_key :: "risk_profile \<Rightarrow> string \<times> datetime \<times> datetime" where
  "profile_key p = (ip_instrument_id p, ip_effective_at p, ip_ingested_at p)"

definition append_risk_profile :: "risk_profile \<Rightarrow> (instrument_store, unit) operation" where
  "append_risk_profile p s =
     (case get_instrument (ip_instrument_id p) s of
        Inl x \<Rightarrow> (Inl x, s)
      | Inr _ \<Rightarrow>
          if invalid_profile p then (Inl (Exc ValueError ''invalid_instrument_risk_profile''), s)
          else if profile_key (stored_profile p) \<in> profile_key ` set (im_profiles s)
          then (Inl (Exc ValueError ''duplicate_instrument_risk_profile''), s)
          else (Inr (), s\<lparr>im_profiles := im_profiles s @ [stored_profile p]\<rparr>))"

definition risk_profile_as_of :: "string \<Rightarrow> datetime \<Rightarrow> instrument_store \<Rightarrow> risk_profile result" where
  "risk_profile_as_of i decision_at s =
     bind_result (utc_timestamp decision_at) (\<lambda>t.
       case newest_as_of ip_effective_at ip_ingested_at (\<lambda>p. ip_instrument_id p = i) t (im_profiles s) of
         None \<Rightarrow> Inl (Exc InstrumentNotFoundError (''risk profile unavailable: '' @ i)) | Some p \<Rightarrow> Inr p)"

text \<open>\<open>[self.get(row[0]) for row in identifiers]\<close>\<close>

fun get_all :: "string list \<Rightarrow> instrument_store \<Rightarrow> instrument list result" where
  "get_all [] s = Inr []"
| "get_all (i # is) s = bind_result (get_instrument i s) (\<lambda>r. bind_result (get_all is s) (\<lambda>rs. Inr (r # rs)))"

definition find_by_symbol :: "string \<Rightarrow> instrument_store \<Rightarrow> instrument list result" where
  "find_by_symbol symbol s =
     get_all (map ins_instrument_id
       (sort_key (\<lambda>r. (ins_venue r, ins_instrument_id r)) (filter (\<lambda>r. ins_symbol r = symbol) (im_instruments s)))) s"

definition add_identifier :: "instrument_identifier \<Rightarrow> (instrument_store, unit) operation" where
  "add_identifier d s =
     (case get_instrument (id_instrument_id d) s of
        Inl x \<Rightarrow> (Inl x, s)
      | Inr _ \<Rightarrow>
          if blank (id_namespace d) \<or> blank (id_value d)
          then (Inl (Exc ValueError ''identifier namespace and value are required''), s)
          else if (id_namespace d, id_value d) \<in> (\<lambda>r. (id_namespace r, id_value r)) ` set (im_identifiers s)
          then (Inl (Exc InstrumentIdentifierConflictError (id_namespace d @ '':'' @ id_value d)), s)
          else (Inr (), s\<lparr>im_identifiers := im_identifiers s @ [d]\<rparr>))"

definition find_by_identifier :: "string \<Rightarrow> string \<Rightarrow> instrument_store \<Rightarrow> instrument result" where
  "find_by_identifier namespace v s =
     (case find (\<lambda>r. id_namespace r = namespace \<and> id_value r = v) (im_identifiers s) of
        None \<Rightarrow> Inl (Exc InstrumentNotFoundError (namespace @ '':'' @ v)) | Some r \<Rightarrow> get_instrument (id_instrument_id r) s)"

section \<open>Symbol history\<close>

definition until_or_end :: "datetime option \<Rightarrow> datetime" where
  "until_or_end u = (case u of None \<Rightarrow> end_of_time | Some t \<Rightarrow> t)"

definition history_overlaps :: "symbol_history \<Rightarrow> symbol_history \<Rightarrow> bool" where
  "history_overlaps h r \<longleftrightarrow>
     sh_symbol r = sh_symbol h \<and> sh_venue r = sh_venue h \<and>
     text_before (sh_valid_from r) (until_or_end (sh_valid_until h)) \<and>
     text_before (sh_valid_from h) (until_or_end (sh_valid_until r))"

definition history_key :: "symbol_history \<Rightarrow> string \<times> string \<times> string \<times> datetime" where
  "history_key h = (sh_instrument_id h, sh_symbol h, sh_venue h, sh_valid_from h)"

text \<open>A repeated primary key raises \<open>sqlite3.IntegrityError\<close>, which this method does not translate.\<close>

definition insert_history :: "symbol_history \<Rightarrow> (instrument_store, unit) operation" where
  "insert_history h s =
     (if \<exists>r \<in> set (im_history s). history_overlaps h r
      then (Inl (Exc SymbolHistoryConflictError (''ambiguous symbol history: '' @ sh_venue h @ '':'' @ sh_symbol h)), s)
      else if history_key h \<in> history_key ` set (im_history s)
      then (Inl (Exc IntegrityError ''UNIQUE constraint failed''), s)
      else (Inr (), s\<lparr>im_history := im_history s @ [h]\<rparr>))"

definition add_symbol_history :: "symbol_history \<Rightarrow> (instrument_store, unit) operation" where
  "add_symbol_history h s =
     (case get_instrument (sh_instrument_id h) s of
        Inl x \<Rightarrow> (Inl x, s)
      | Inr _ \<Rightarrow>
          if blank (sh_symbol h) \<or> blank (sh_venue h) then (Inl (Exc ValueError ''symbol and venue are required''), s)
          else case utc_timestamp (sh_valid_from h) of
            Inl x \<Rightarrow> (Inl x, s)
          | Inr valid_from \<Rightarrow>
              (case utc_optional (sh_valid_until h) of
                 Inl x \<Rightarrow> (Inl x, s)
               | Inr valid_until \<Rightarrow>
                   if (case valid_until of None \<Rightarrow> False | Some u \<Rightarrow> iso_le u valid_from)
                   then (Inl (Exc ValueError ''symbol history valid_until must follow valid_from''), s)
                   else insert_history (h\<lparr>sh_valid_from := valid_from, sh_valid_until := valid_until\<rparr>) s))"

definition names_at :: "string \<Rightarrow> string \<Rightarrow> datetime \<Rightarrow> symbol_history \<Rightarrow> bool" where
  "names_at symbol venue t r \<longleftrightarrow>
     sh_symbol r = symbol \<and> sh_venue r = venue \<and> iso_le (sh_valid_from r) t \<and>
     (case sh_valid_until r of None \<Rightarrow> True | Some u \<Rightarrow> text_before t u)"

definition resolve_symbol :: "string \<Rightarrow> string \<Rightarrow> datetime \<Rightarrow> instrument_store \<Rightarrow> instrument result" where
  "resolve_symbol symbol venue as_of s =
     bind_result (utc_timestamp as_of) (\<lambda>t.
       case find (names_at symbol venue t) (im_history s) of
         None \<Rightarrow> Inl (Exc InstrumentNotFoundError (venue @ '':'' @ symbol @ '' at '' @ iso_datetime t))
       | Some r \<Rightarrow> get_instrument (sh_instrument_id r) s)"

definition close_history :: "string \<Rightarrow> datetime \<Rightarrow> symbol_history \<Rightarrow> symbol_history" where
  "close_history i t r =
     (if sh_instrument_id r = i \<and> text_before (sh_valid_from r) t \<and> sh_valid_until r = None then r\<lparr>sh_valid_until := Some t\<rparr> else r)"

definition delist_row :: "string \<Rightarrow> datetime \<Rightarrow> instrument \<Rightarrow> instrument" where
  "delist_row i t r = (if ins_instrument_id r = i then r\<lparr>ins_delisted_at := Some t\<rparr> else r)"

definition delist :: "string \<Rightarrow> datetime \<Rightarrow> (instrument_store, unit) operation" where
  "delist i delisted_at s =
     (case utc_timestamp delisted_at of
        Inl x \<Rightarrow> (Inl x, s)
      | Inr t \<Rightarrow>
          (case get_instrument i s of
             Inl x \<Rightarrow> (Inl x, s)
           | Inr r \<Rightarrow>
               if ins_delisted_at r \<noteq> None then (Inl (Exc ValueError (''instrument already delisted: '' @ i)), s)
               else (Inr (), s\<lparr>
                 im_instruments := map (delist_row i t) (im_instruments s),
                 im_history := map (close_history i t) (im_history s)\<rparr>)))"

section \<open>Trading calendar\<close>

definition session_key :: "trading_session \<Rightarrow> string \<times> int \<times> int \<times> int" where
  "session_key x = (ts_venue x, ts_weekday x, ts_opens_at x, ts_closes_at x)"

definition add_trading_session :: "zones \<Rightarrow> trading_session \<Rightarrow> (instrument_store, unit) operation" where
  "add_trading_session zone x s =
     (if blank (ts_venue x) \<or> \<not> (0 \<le> ts_weekday x \<and> ts_weekday x \<le> 6)
      then (Inl (Exc TradingCalendarError ''venue and weekday are required''), s)
      else if ts_closes_at x \<le> ts_opens_at x then (Inl (Exc TradingCalendarError ''overnight sessions are not supported''), s)
      else case zone (ts_timezone_name x) of
        Inl e \<Rightarrow>
          if exc_class e = ZoneInfoNotFoundError
          then (Inl (Exc TradingCalendarError (''unknown timezone: '' @ ts_timezone_name x)), s) else (Inl e, s)
      | Inr _ \<Rightarrow>
          if session_key x \<in> session_key ` set (im_sessions s)
          then (Inl (Exc TradingCalendarError ''duplicate trading session''), s)
          else (Inr (), s\<lparr>im_sessions := im_sessions s @ [x]\<rparr>))"

definition add_market_holiday :: "string \<Rightarrow> int \<Rightarrow> (instrument_store, unit) operation" where
  "add_market_holiday venue day s =
     (if blank venue then (Inl (Exc TradingCalendarError ''venue is required''), s)
      else (Inr (), if (venue, day) \<in> set (im_holidays s) then s else s\<lparr>im_holidays := im_holidays s @ [(venue, day)]\<rparr>))"

text \<open>\<open>date.weekday()\<close> of a day number: day zero is a Thursday. The local reading of an instant.\<close>

definition weekday_of :: "datetime \<Rightarrow> int" where
  "weekday_of t = (date_of t + 3) mod 7"

definition local_time :: "(int \<Rightarrow> int) \<Rightarrow> datetime \<Rightarrow> datetime" where
  "local_time offset t = Aware (instant t + offset (instant t)) (offset (instant t))"

definition session_contains :: "(string \<times> int) list \<Rightarrow> trading_session \<Rightarrow> datetime \<Rightarrow> bool" where
  "session_contains holidays x t \<longleftrightarrow>
     (ts_venue x, date_of t) \<notin> set holidays \<and> weekday_of t = ts_weekday x \<and>
     ts_opens_at x \<le> wall t mod 86400000000 \<and> wall t mod 86400000000 < ts_closes_at x"

fun session_scan :: "zones \<Rightarrow> (string \<times> int) list \<Rightarrow> datetime \<Rightarrow> trading_session list \<Rightarrow> bool result" where
  "session_scan zone holidays t [] = Inr False"
| "session_scan zone holidays t (x # xs) =
     (case zone (ts_timezone_name x) of
        Inl e \<Rightarrow> Inl e
      | Inr offset \<Rightarrow>
          if session_contains holidays x (local_time offset t) then Inr True else session_scan zone holidays t xs)"

definition is_trading_session :: "zones \<Rightarrow> string \<Rightarrow> datetime \<Rightarrow> instrument_store \<Rightarrow> bool result" where
  "is_trading_session zone venue observed_at s =
     (if \<not> aware observed_at then Inl (Exc TradingCalendarError ''observed_at must be timezone-aware'')
      else session_scan zone (im_holidays s) observed_at (filter (\<lambda>x. ts_venue x = venue) (im_sessions s)))"

section \<open>Runs\<close>

datatype instrument_call =
    RegisterInstrument instrument
  | AppendRiskProfile risk_profile
  | AddIdentifier instrument_identifier
  | AddSymbolHistory symbol_history
  | Delist string datetime
  | AddTradingSession trading_session
  | AddMarketHoliday string int

fun instrument_perform :: "zones \<Rightarrow> instrument_call \<Rightarrow> instrument_store \<Rightarrow> instrument_store" where
  "instrument_perform zone (RegisterInstrument i) s = snd (register_instrument i s)"
| "instrument_perform zone (AppendRiskProfile p) s = snd (append_risk_profile p s)"
| "instrument_perform zone (AddIdentifier d) s = snd (add_identifier d s)"
| "instrument_perform zone (AddSymbolHistory h) s = snd (add_symbol_history h s)"
| "instrument_perform zone (Delist i t) s = snd (delist i t s)"
| "instrument_perform zone (AddTradingSession x) s = snd (add_trading_session zone x s)"
| "instrument_perform zone (AddMarketHoliday v d) s = snd (add_market_holiday v d s)"

lemma get_instrument_Inr: "get_instrument i s = Inr r \<Longrightarrow> r \<in> set (im_instruments s) \<and> ins_instrument_id r = i"
  by (auto simp: get_instrument_def find_Some_iff split: option.splits)

lemma get_instrument_known:
  "(\<exists>r. get_instrument i s = Inr r) \<longleftrightarrow> i \<in> ins_instrument_id ` set (im_instruments s)"
  by (cases "get_instrument i s") (auto simp: get_instrument_def find_None_iff find_Some_iff split: option.splits)

lemma get_instrument_unique:
  "distinct (map ins_instrument_id (im_instruments s)) \<Longrightarrow>
   get_instrument i s = Inr r \<longleftrightarrow> r \<in> set (im_instruments s) \<and> ins_instrument_id r = i"
proof
  assume d: "distinct (map ins_instrument_id (im_instruments s))" and r: "r \<in> set (im_instruments s) \<and> ins_instrument_id r = i"
  then obtain q where q: "get_instrument i s = Inr q" using get_instrument_known [of i s] by blast
  then have "q = r" using get_instrument_Inr [OF q] d r by (metis distinct_map inj_onD)
  then show "get_instrument i s = Inr r" using q by simp
qed (rule get_instrument_Inr)

text \<open>What each call does to the instruments and to the symbol history.\<close>

lemma register_cases:
  "snd (register_instrument i s) = s \<or>
   (\<exists>d. ins_instrument_id i \<notin> ins_instrument_id ` set (im_instruments s) \<and>
      snd (register_instrument i s) = s\<lparr>im_instruments := im_instruments s @ [i\<lparr>ins_delisted_at := d\<rparr>]\<rparr>)"
  by (auto simp: register_instrument_def split: sum.splits)

lemma insert_history_cases:
  "snd (insert_history h s) = s \<or>
   (\<forall>r \<in> set (im_history s). \<not> history_overlaps h r) \<and> snd (insert_history h s) = s\<lparr>im_history := im_history s @ [h]\<rparr>"
  by (auto simp: insert_history_def)

lemma delist_cases:
  "snd (delist i t s) = s \<or>
   (\<exists>r. aware t \<and> get_instrument i s = Inr r \<and> ins_delisted_at r = None \<and>
     snd (delist i t s) = s\<lparr>
       im_instruments := map (delist_row i (Aware (instant t) 0)) (im_instruments s),
       im_history := map (close_history i (Aware (instant t) 0)) (im_history s)\<rparr>)"
  by (auto simp: delist_def utc_timestamp_def split: sum.splits if_splits)

lemma other_calls_cases:
  "im_instruments (snd (append_risk_profile p s)) = im_instruments s \<and> im_history (snd (append_risk_profile p s)) = im_history s"
  "im_instruments (snd (add_identifier d s)) = im_instruments s \<and> im_history (snd (add_identifier d s)) = im_history s"
  "im_instruments (snd (add_trading_session zone x s)) = im_instruments s \<and> im_history (snd (add_trading_session zone x s)) = im_history s"
  "im_instruments (snd (add_market_holiday v day s)) = im_instruments s \<and> im_history (snd (add_market_holiday v day s)) = im_history s"
  by (auto simp: append_risk_profile_def add_identifier_def add_trading_session_def add_market_holiday_def split: sum.splits)

section \<open>Validity intervals\<close>

text \<open>A stored row: UTC times, starting before the end of time, not empty.\<close>

definition history_row_ok :: "symbol_history \<Rightarrow> bool" where
  "history_row_ok h \<longleftrightarrow>
     (\<exists>f. sh_valid_from h = Aware f 0 \<and> f < 253402300799000000 \<and>
       (\<forall>u. sh_valid_until h = Some u \<longrightarrow> (\<exists>k. u = Aware k 0 \<and> f < k)))"

definition history_ok :: "instrument_store \<Rightarrow> bool" where
  "history_ok s \<longleftrightarrow>
     distinct (map ins_instrument_id (im_instruments s)) \<and>
     (\<forall>h \<in> set (im_history s). history_row_ok h \<and> sh_instrument_id h \<in> ins_instrument_id ` set (im_instruments s)) \<and>
     sorted_wrt (\<lambda>a b. \<not> history_overlaps b a) (im_history s)"

fun starts_in_time :: "instrument_call \<Rightarrow> bool" where
  "starts_in_time (AddSymbolHistory h) = (instant (sh_valid_from h) < 253402300799000000)"
| "starts_in_time _ = True"

lemma text_before_utc [simp]: "text_before (Aware a 0) (Aware b 0) \<longleftrightarrow> a < b"
  by (auto simp: text_before_def iso_le_def)

lemma iso_le_utc [simp]: "iso_le (Aware a 0) (Aware b 0) \<longleftrightarrow> a \<le> b"
  by (auto simp: iso_le_def)

lemma common_instant_overlaps:
  assumes "history_row_ok a" "history_row_ok b" "names_at symbol venue (Aware t 0) a" "names_at symbol venue (Aware t 0) b"
  shows "history_overlaps b a"
  using assms by (fastforce simp: history_row_ok_def names_at_def history_overlaps_def until_or_end_def end_of_time_def split: option.splits)

lemma close_history_overlaps:
  assumes "history_row_ok a" "history_row_ok b" "history_overlaps (close_history i (Aware t 0) b) (close_history i (Aware t 0) a)"
  shows "history_overlaps b a"
  using assms
  by (auto simp: history_row_ok_def close_history_def history_overlaps_def until_or_end_def end_of_time_def split: option.splits if_splits)

lemma close_history_row_ok: "history_row_ok a \<Longrightarrow> history_row_ok (close_history i (Aware t 0) a)"
  by (auto simp: history_row_ok_def close_history_def)

lemma close_history_id [simp]: "sh_instrument_id (close_history i t a) = sh_instrument_id a"
  by (simp add: close_history_def)

lemma delist_row_id [simp]: "ins_instrument_id (delist_row i t r) = ins_instrument_id r"
  by (simp add: delist_row_def)

lemma history_ok_empty: "history_ok empty_instruments"
  by (simp add: history_ok_def empty_instruments_def)

lemma history_ok_insert:
  assumes "history_ok s" "history_row_ok h" "sh_instrument_id h \<in> ins_instrument_id ` set (im_instruments s)"
  shows "history_ok (snd (insert_history h s))"
  using insert_history_cases [of h s] assms by (auto simp: history_ok_def sorted_wrt_append)

lemma history_ok_add:
  assumes "history_ok s" "instant (sh_valid_from h) < 253402300799000000"
  shows "history_ok (snd (add_symbol_history h s))"
proof -
  have *: "history_ok (snd (insert_history (h\<lparr>sh_valid_from := f, sh_valid_until := u\<rparr>) s))"
    if "get_instrument (sh_instrument_id h) s = Inr r" "utc_timestamp (sh_valid_from h) = Inr f" "utc_optional (sh_valid_until h) = Inr u"
      "\<not> (case u of None \<Rightarrow> False | Some u \<Rightarrow> iso_le u f)" for r f u
  proof (rule history_ok_insert [OF assms(1)])
    show "history_row_ok (h\<lparr>sh_valid_from := f, sh_valid_until := u\<rparr>)"
      using that assms(2)
      by (auto simp: history_row_ok_def utc_timestamp_def utc_optional_def split: if_splits option.splits)
    show "sh_instrument_id (h\<lparr>sh_valid_from := f, sh_valid_until := u\<rparr>) \<in> ins_instrument_id ` set (im_instruments s)"
      using that(1) get_instrument_known [of "sh_instrument_id h" s] by auto
  qed
  show ?thesis using assms(1) by (simp add: add_symbol_history_def split: sum.splits) (blast intro: *)
qed

lemma history_ok_delist:
  assumes "history_ok s"
  shows "history_ok (snd (delist i t s))"
proof -
  let ?c = "close_history i (Aware (instant t) 0)"
  have "sorted_wrt (\<lambda>a b. \<not> history_overlaps (?c b) (?c a)) (im_history s)"
  proof (rule sorted_wrt_mono_rel)
    show "sorted_wrt (\<lambda>a b. \<not> history_overlaps b a) (im_history s)" using assms by (simp add: history_ok_def)
    show "\<not> history_overlaps (?c b) (?c a)" if "a \<in> set (im_history s)" "b \<in> set (im_history s)" "\<not> history_overlaps b a" for a b
    proof -
      have "history_row_ok a" "history_row_ok b" using assms that(1,2) by (simp_all add: history_ok_def)
      from close_history_overlaps [OF this] show ?thesis using that(3) by blast
    qed
  qed
  then show ?thesis
    using delist_cases [of i t s] assms close_history_row_ok by (auto simp: history_ok_def sorted_wrt_map image_image comp_def)
qed

lemma history_ok_step: "history_ok s \<Longrightarrow> starts_in_time c \<Longrightarrow> history_ok (instrument_perform zone c s)"
proof (cases c)
  case (RegisterInstrument i)
  assume "history_ok s"
  then show ?thesis using RegisterInstrument register_cases [of i s] by (auto simp: history_ok_def)
qed (simp_all add: history_ok_add history_ok_delist, simp_all add: history_ok_def other_calls_cases)

lemma history_ok_run: "\<forall>c \<in> set cs. starts_in_time c \<Longrightarrow> history_ok s \<Longrightarrow> history_ok (fold (instrument_perform zone) cs s)"
  by (induction cs arbitrary: s) (simp_all add: history_ok_step)

lemma names_at_most_once:
  assumes "history_ok s"
  shows "length (filter (names_at symbol venue (Aware t 0)) (im_history s)) \<le> 1"
proof -
  let ?xs = "filter (names_at symbol venue (Aware t 0)) (im_history s)"
  have "sorted_wrt (\<lambda>a b. False) ?xs"
  proof (rule sorted_wrt_mono_rel)
    show "sorted_wrt (\<lambda>a b. \<not> history_overlaps b a) ?xs" using assms by (simp add: history_ok_def sorted_wrt_filter)
    show False if "a \<in> set ?xs" "b \<in> set ?xs" "\<not> history_overlaps b a" for a b
    proof -
      have "history_row_ok a" "history_row_ok b" using assms that(1,2) by (simp_all add: history_ok_def)
      from common_instant_overlaps [OF this, of symbol venue t] show ?thesis using that by simp
    qed
  qed
  then show ?thesis by (cases ?xs; cases "tl ?xs") auto
qed

lemma resolve_symbol_Inr:
  assumes "history_ok s"
  shows "resolve_symbol symbol venue as_of s = Inr i \<longleftrightarrow>
    aware as_of \<and> i \<in> set (im_instruments s) \<and>
    (\<exists>r \<in> set (im_history s). names_at symbol venue (Aware (instant as_of) 0) r \<and> sh_instrument_id r = ins_instrument_id i)"
proof -
  let ?p = "names_at symbol venue (Aware (instant as_of) 0)"
  have same: "q = r" if "q \<in> set (im_history s)" "r \<in> set (im_history s)" "?p q" "?p r" for q r
    using names_at_most_once [OF assms, of symbol venue "instant as_of"] that
    by (cases "filter ?p (im_history s)"; auto simp: filter_empty_conv dest!: arg_cong [of _ _ set])
       (metis (mono_tags, lifting) mem_Collect_eq singletonD)+
  have get: "get_instrument j s = Inr i \<longleftrightarrow> i \<in> set (im_instruments s) \<and> ins_instrument_id i = j" for j
    using assms by (intro get_instrument_unique) (simp add: history_ok_def)
  show ?thesis
  proof (cases "find ?p (im_history s)")
    case None
    then have "\<forall>r \<in> set (im_history s). \<not> ?p r" by (simp add: find_None_iff)
    then show ?thesis using None by (auto simp: resolve_symbol_def utc_timestamp_def)
  next
    case (Some r)
    then have r: "r \<in> set (im_history s)" "?p r" by (auto simp: find_Some_iff)
    have "(\<exists>q \<in> set (im_history s). ?p q \<and> sh_instrument_id q = j) \<longleftrightarrow> sh_instrument_id r = j" for j
      using same [OF _ r(1) _ r(2)] r by blast
    then show ?thesis using Some by (auto simp: resolve_symbol_def utc_timestamp_def get)
  qed
qed

section \<open>Identity over time\<close>

lemma find_map_delist:
  "find (\<lambda>r. ins_instrument_id r = j) (map (delist_row i t) xs) = map_option (delist_row i t) (find (\<lambda>r. ins_instrument_id r = j) xs)"
  by (induction xs) auto

definition same_instrument :: "instrument \<Rightarrow> instrument \<Rightarrow> bool" where
  "same_instrument a b \<longleftrightarrow>
     (\<exists>d. b = a\<lparr>ins_delisted_at := d\<rparr>) \<and> (ins_delisted_at a \<noteq> None \<longrightarrow> b = a)"

lemma same_instrument_refl [simp]: "same_instrument a a"
  by (auto simp: same_instrument_def intro: exI [of _ "ins_delisted_at a"])

lemma same_instrument_trans: "same_instrument a b \<Longrightarrow> same_instrument b c \<Longrightarrow> same_instrument a c"
  by (auto simp: same_instrument_def)

lemma get_instrument_step:
  assumes "get_instrument j s = Inr r"
  shows "\<exists>q. get_instrument j (instrument_perform zone c s) = Inr q \<and> same_instrument r q"
proof -
  have f: "find (\<lambda>r. ins_instrument_id r = j) (im_instruments s) = Some r"
    using assms by (auto simp: get_instrument_def split: option.splits)
  have keep: "im_instruments u = im_instruments s \<Longrightarrow> \<exists>q. get_instrument j u = Inr q \<and> same_instrument r q" for u
    using f by (simp add: get_instrument_def)
  show ?thesis
  proof (cases c)
    case (RegisterInstrument i)
    then show ?thesis using register_cases [of i s] keep find_kept [OF f] by (auto simp: get_instrument_def f)
  next
    case (AddSymbolHistory h)
    have "im_instruments (snd (add_symbol_history h s)) = im_instruments s"
      by (auto simp: add_symbol_history_def insert_history_def split: sum.splits)
    then show ?thesis using AddSymbolHistory keep by simp
  next
    case (Delist i t)
    have "same_instrument r (delist_row i (Aware (instant t) 0) r)" if "get_instrument i s = Inr q" "ins_delisted_at q = None" for q
    proof (cases "ins_instrument_id r = i")
      case True
      then show ?thesis using that assms get_instrument_Inr [OF assms] by (auto simp: delist_row_def same_instrument_def)
    qed (simp add: delist_row_def)
    then show ?thesis using Delist delist_cases [of i t s] keep [of s] by (auto simp: get_instrument_def [of j] find_map_delist f)
  qed (use keep other_calls_cases in simp_all)
qed

lemma get_instrument_run:
  "get_instrument j s = Inr r \<Longrightarrow> \<exists>q. get_instrument j (fold (instrument_perform zone) cs s) = Inr q \<and> same_instrument r q"
proof (induction cs arbitrary: s r)
  case (Cons c cs)
  from get_instrument_step [OF Cons.prems, of zone c] obtain q
    where q: "get_instrument j (instrument_perform zone c s) = Inr q" "same_instrument r q" by blast
  from Cons.IH [OF q(1)] q(2) show ?case by (auto intro: same_instrument_trans)
qed simp

lemma identifiers_step: "\<exists>ds. im_identifiers (instrument_perform zone c s) = im_identifiers s @ ds"
  by (cases c) (auto simp: register_instrument_def append_risk_profile_def add_identifier_def add_symbol_history_def insert_history_def
      delist_def add_trading_session_def add_market_holiday_def split: sum.splits)

lemma identifiers_run: "\<exists>ds. im_identifiers (fold (instrument_perform zone) cs s) = im_identifiers s @ ds"
proof (induction cs arbitrary: s)
  case (Cons c cs)
  from identifiers_step [of zone c s] Cons.IH [of "instrument_perform zone c s"] show ?case by auto
qed simp

lemma find_by_identifier_run:
  assumes "find_by_identifier n v s = Inr r"
  shows "\<exists>q. find_by_identifier n v (fold (instrument_perform zone) cs s) = Inr q \<and> same_instrument r q"
proof -
  from assms obtain d where d: "find (\<lambda>r. id_namespace r = n \<and> id_value r = v) (im_identifiers s) = Some d"
    "get_instrument (id_instrument_id d) s = Inr r"
    by (auto simp: find_by_identifier_def split: option.splits)
  from identifiers_run [of zone cs s] obtain ds where "im_identifiers (fold (instrument_perform zone) cs s) = im_identifiers s @ ds" ..
  then show ?thesis using find_kept [OF d(1)] get_instrument_run [OF d(2)] by (simp add: find_by_identifier_def)
qed

section \<open>The trading calendar\<close>

definition sessions_ok :: "zones \<Rightarrow> instrument_store \<Rightarrow> bool" where
  "sessions_ok zone s \<longleftrightarrow> (\<forall>x \<in> set (im_sessions s). \<exists>f. zone (ts_timezone_name x) = Inr f)"

lemma sessions_ok_step: "sessions_ok zone s \<Longrightarrow> sessions_ok zone (instrument_perform zone c s)"
  by (cases c) (auto simp: sessions_ok_def register_instrument_def append_risk_profile_def add_identifier_def add_symbol_history_def
      insert_history_def delist_def add_trading_session_def add_market_holiday_def split: sum.splits)

lemma sessions_ok_run: "sessions_ok zone s \<Longrightarrow> sessions_ok zone (fold (instrument_perform zone) cs s)"
  by (induction cs arbitrary: s) (simp_all add: sessions_ok_step)

lemma session_scan_iff:
  "\<forall>x \<in> set xs. \<exists>f. zone (ts_timezone_name x) = Inr f \<Longrightarrow>
   session_scan zone holidays t xs =
     Inr (\<exists>x \<in> set xs. \<exists>f. zone (ts_timezone_name x) = Inr f \<and> session_contains holidays x (local_time f t))"
  by (induction xs) auto

lemma find_by_symbol_all:
  assumes "distinct (map ins_instrument_id (im_instruments s))"
  shows "find_by_symbol symbol s =
    Inr (sort_key (\<lambda>r. (ins_venue r, ins_instrument_id r)) (filter (\<lambda>r. ins_symbol r = symbol) (im_instruments s)))"
proof -
  have "get_all (map ins_instrument_id xs) s = Inr xs" if "set xs \<subseteq> set (im_instruments s)" for xs
    using that
  proof (induction xs)
    case (Cons a xs)
    then have "get_instrument (ins_instrument_id a) s = Inr a" by (simp add: get_instrument_unique [OF assms])
    then show ?case using Cons by simp
  qed simp
  then show ?thesis by (simp add: find_by_symbol_def)
qed

section \<open>Properties\<close>

text \<open>
  C36: whatever is registered, delisted or added to the symbol history (with rows that start before the end of
  year 9999), a venue's symbol means at most one instrument at any time: at most one row of the history covers
  an instant, and resolving returns exactly the registered instrument of that row.
\<close>

theorem symbol_resolution_unambiguous:
  assumes "\<forall>c \<in> set cs. starts_in_time c" and s: "s = fold (instrument_perform zone) cs empty_instruments"
  shows "length (filter (names_at symbol venue (Aware t 0)) (im_history s)) \<le> 1 \<and>
    (resolve_symbol symbol venue (Aware w d) s = Inr i \<longleftrightarrow>
       i \<in> set (im_instruments s) \<and>
       (\<exists>r \<in> set (im_history s). names_at symbol venue (Aware (w - d) 0) r \<and> sh_instrument_id r = ins_instrument_id i))"
proof -
  have "history_ok s" unfolding s by (rule history_ok_run [OF assms(1) history_ok_empty])
  then show ?thesis using names_at_most_once by (auto simp: resolve_symbol_Inr)
qed

text \<open>
  An instrument is an identity: whatever happens later, its identifier and each external identifier
  keep naming it with the same contract fields; the only change is one delisting, and a delisted instrument
  never changes again.
\<close>

theorem instrument_identity_stable:
  assumes "get_instrument i s = Inr r" "find_by_identifier n v s = Inr q"
  shows "(\<exists>r'. get_instrument i (fold (instrument_perform zone) cs s) = Inr r' \<and> same_instrument r r') \<and>
    (\<exists>q'. find_by_identifier n v (fold (instrument_perform zone) cs s) = Inr q' \<and> same_instrument q q')"
  using get_instrument_run [OF assms(1)] find_by_identifier_run [OF assms(2)] by blast

text \<open>
  A venue trades exactly during its sessions: after any calls, the calendar never fails on an aware time
  and answers yes exactly when some stored session of the venue has the local weekday, contains the local time
  of day and the local date is no holiday.
\<close>

theorem trading_session_iff:
  assumes "s = fold (instrument_perform zone) cs empty_instruments" "aware t"
  shows "is_trading_session zone venue t s =
    Inr (\<exists>x \<in> set (im_sessions s). ts_venue x = venue \<and>
      (\<exists>f. zone (ts_timezone_name x) = Inr f \<and> session_contains (im_holidays s) x (local_time f t)))"
proof -
  have "sessions_ok zone s"
    unfolding assms(1) by (rule sessions_ok_run) (simp add: sessions_ok_def empty_instruments_def)
  then show ?thesis using assms(2) by (auto simp: is_trading_session_def sessions_ok_def session_scan_iff)
qed

section \<open>Witnesses\<close>

definition sample_instrument :: instrument where
  "sample_instrument = \<lparr>ins_instrument_id = ''I1'', ins_symbol = ''ABC'', ins_venue = ''X'', ins_asset_class = EQUITY,
     ins_quote_currency = ''USD'', ins_tick_size = Dec 1 (- 2), ins_lot_size = Dec 1 0, ins_delisted_at = None\<rparr>"

definition sample_instrument_calls :: "instrument_call list" where
  "sample_instrument_calls =
    [RegisterInstrument sample_instrument, AddIdentifier \<lparr>id_instrument_id = ''I1'', id_namespace = ''isin'', id_value = ''X1''\<rparr>,
     AddSymbolHistory \<lparr>sh_instrument_id = ''I1'', sh_symbol = ''ABC'', sh_venue = ''X'', sh_valid_from = Aware 5 0, sh_valid_until = None\<rparr>,
     AddSymbolHistory \<lparr>sh_instrument_id = ''I1'', sh_symbol = ''ABC'', sh_venue = ''X'', sh_valid_from = Aware 9 0, sh_valid_until = None\<rparr>,
     AddTradingSession \<lparr>ts_venue = ''X'', ts_weekday = 3, ts_opens_at = 0, ts_closes_at = 60, ts_timezone_name = ''UTC''\<rparr>]"

definition sample_zone :: zones where
  "sample_zone name = (if name = ''UTC'' then Inr (\<lambda>_. 0) else Inl (Exc ZoneInfoNotFoundError name))"

definition sample_store :: instrument_store where
  "sample_store = \<lparr>im_instruments = [sample_instrument], im_profiles = [],
     im_identifiers = [\<lparr>id_instrument_id = ''I1'', id_namespace = ''isin'', id_value = ''X1''\<rparr>],
     im_history = [\<lparr>sh_instrument_id = ''I1'', sh_symbol = ''ABC'', sh_venue = ''X'', sh_valid_from = Aware 5 0, sh_valid_until = None\<rparr>],
     im_sessions = [\<lparr>ts_venue = ''X'', ts_weekday = 3, ts_opens_at = 0, ts_closes_at = 60, ts_timezone_name = ''UTC''\<rparr>],
     im_holidays = []\<rparr>"

lemma sample_run: "fold (instrument_perform sample_zone) sample_instrument_calls empty_instruments = sample_store"
  by (simp add: sample_instrument_calls_def sample_store_def sample_instrument_def empty_instruments_def register_instrument_def utc_optional_def
      add_identifier_def get_instrument_def blank_iff is_space_def add_symbol_history_def utc_timestamp_def insert_history_def
      history_overlaps_def until_or_end_def end_of_time_def add_trading_session_def sample_zone_def)

theorem symbol_resolution_unambiguous_witness:
  "resolve_symbol ''ABC'' ''X'' (Aware 7 0) sample_store = Inr sample_instrument"
  using symbol_resolution_unambiguous [of sample_instrument_calls sample_store sample_zone "''ABC''" "''X''" 7 7 0 sample_instrument] sample_run
  by (simp add: sample_instrument_calls_def sample_store_def sample_instrument_def names_at_def)

theorem instrument_identity_stable_witness:
  "\<exists>r. get_instrument ''I1'' (fold (instrument_perform sample_zone) [Delist ''I1'' (Aware 8 0)] sample_store) = Inr r \<and>
    same_instrument sample_instrument r"
  using instrument_identity_stable [of "''I1''" sample_store sample_instrument "''isin''" "''X1''" sample_instrument sample_zone
      "[Delist ''I1'' (Aware 8 0)]"]
  by (simp add: sample_store_def get_instrument_def sample_instrument_def find_by_identifier_def)

theorem trading_session_iff_witness:
  "is_trading_session sample_zone ''X'' (Aware 30 0) sample_store = Inr True"
  using trading_session_iff [of sample_store sample_zone sample_instrument_calls "Aware 30 0" "''X''"] sample_run
  by (simp add: sample_store_def sample_zone_def session_contains_def local_time_def weekday_of_def date_of_def)

end
