(* ===== verification/ModelRegistry.thy ===== *)
theory ModelRegistry
  imports Domain Rendering SqlOrder
begin

text \<open>
  \<open>model_registry.py\<close>: model versions, their validations, approval events, drift observations and
  predictions. Tables are lists of rows in the order of their rowids. Fresh identifiers and clock readings are
  arguments.
\<close>

section \<open>Records\<close>

datatype model_status = MODEL_REGISTERED | MODEL_APPROVED | MODEL_DISABLED | MODEL_RETIRED

record model_version =
  mv_model_id :: uuid
  mv_name :: string
  mv_version :: string
  mv_task :: string
  mv_feature_version :: string
  mv_dataset_version :: string
  mv_artifact_reference :: string
  mv_created_at :: datetime

record model_validation =
  mw_validation_id :: uuid
  mw_model_id :: uuid
  mw_metrics :: "(string, xdecimal) dict"
  mw_economic_value_after_cost :: xdecimal
  mw_evidence_reference :: string
  mw_validated_at :: datetime

record model_approval_event =
  me_event_id :: uuid
  me_model_id :: uuid
  me_status :: model_status
  me_actor :: string
  me_reason :: string
  me_validation_id :: "uuid option"
  me_occurred_at :: datetime

record drift_observation =
  md_observation_id :: uuid
  md_model_id :: uuid
  md_metric :: string
  md_score :: xdecimal
  md_threshold :: xdecimal
  md_observed_at :: datetime

record model_prediction =
  mp_prediction_id :: uuid
  mp_model_id :: uuid
  mp_instrument_id :: string
  mp_horizon :: string
  mp_prediction :: xdecimal
  mp_confidence :: xdecimal
  mp_calibration :: xdecimal
  mp_feature_version :: string
  mp_data_version :: string
  mp_regime :: string
  mp_explanation :: string
  mp_uncertainty :: xdecimal
  mp_issued_at :: datetime
  mp_expires_at :: datetime

section \<open>Checked construction\<close>

definition create_model_version :: "uuid \<Rightarrow> datetime \<Rightarrow> string \<Rightarrow> string \<Rightarrow> string \<Rightarrow> string \<Rightarrow> string \<Rightarrow> string \<Rightarrow> model_version result" where
  "create_model_version new_id now name version task feature_version dataset_version artifact_reference =
     (if \<exists>v \<in> set [name, version, task, feature_version, dataset_version, artifact_reference]. blank v
      then Inl (Exc ValueError ''model_version_fields_are_required'')
      else Inr \<lparr>mv_model_id = new_id, mv_name = name, mv_version = version, mv_task = task, mv_feature_version = feature_version,
        mv_dataset_version = dataset_version, mv_artifact_reference = artifact_reference, mv_created_at = now\<rparr>)"

definition create_model_validation ::
  "uuid \<Rightarrow> datetime \<Rightarrow> uuid \<Rightarrow> (string, xdecimal) dict \<Rightarrow> xdecimal \<Rightarrow> string \<Rightarrow> model_validation result" where
  "create_model_validation new_id now model_id metrics economic_value evidence_reference =
     (if metrics = [] \<or> (\<exists>(name, v) \<in> set metrics. blank name \<or> \<not> is_finite v)
      then Inl (Exc ValueError ''finite_named_validation_metrics_are_required'')
      else if \<not> is_finite economic_value \<or> blank evidence_reference
      then Inl (Exc ValueError ''validation_evidence_is_required'')
      else Inr \<lparr>mw_validation_id = new_id, mw_model_id = model_id, mw_metrics = metrics,
        mw_economic_value_after_cost = economic_value, mw_evidence_reference = evidence_reference, mw_validated_at = now\<rparr>)"

definition create_drift_observation ::
  "uuid \<Rightarrow> datetime \<Rightarrow> uuid \<Rightarrow> string \<Rightarrow> xdecimal \<Rightarrow> xdecimal \<Rightarrow> drift_observation result" where
  "create_drift_observation new_id now model_id metric score threshold =
     (if blank metric \<or> \<not> is_finite score \<or> \<not> is_finite threshold \<or> finite_part score < 0 \<or> finite_part threshold \<le> 0
      then Inl (Exc ValueError ''invalid_drift_observation'')
      else Inr \<lparr>md_observation_id = new_id, md_model_id = model_id, md_metric = metric, md_score = score,
        md_threshold = threshold, md_observed_at = now\<rparr>)"

definition in_unit :: "decimal \<Rightarrow> bool" where
  "in_unit d \<longleftrightarrow> 0 \<le> d \<and> d \<le> 1"

text \<open>\<open>ModelPrediction.create\<close>: \<open>p\<close> has the arguments, the fresh identifier replaces its own.\<close>

definition create_model_prediction :: "uuid \<Rightarrow> model_prediction \<Rightarrow> model_prediction result" where
  "create_model_prediction new_id p =
     (if (\<exists>v \<in> set [mp_instrument_id p, mp_horizon p, mp_feature_version p, mp_data_version p, mp_regime p, mp_explanation p]. blank v) \<or>
         (\<exists>v \<in> set [mp_prediction p, mp_confidence p, mp_calibration p, mp_uncertainty p]. \<not> is_finite v)
      then Inl (Exc ValueError ''complete_finite_prediction_evidence_is_required'')
      else if \<not> in_unit (finite_part (mp_confidence p)) \<or> \<not> in_unit (finite_part (mp_calibration p)) \<or> finite_part (mp_uncertainty p) < 0
      then Inl (Exc ValueError ''invalid_prediction_confidence_or_uncertainty'')
      else if \<not> aware (mp_issued_at p) \<or> \<not> aware (mp_expires_at p) \<or> instant (mp_expires_at p) \<le> instant (mp_issued_at p)
      then Inl (Exc ValueError ''prediction_expiry_must_follow_timezone_aware_issue_time'')
      else Inr (p\<lparr>mp_prediction_id := new_id\<rparr>))"

section \<open>The registry\<close>

record model_registry =
  mr_versions :: "model_version list"
  mr_validations :: "model_validation list"
  mr_events :: "model_approval_event list"
  mr_drifts :: "drift_observation list"
  mr_predictions :: "model_prediction list"

definition empty_registry :: model_registry where
  "empty_registry = \<lparr>mr_versions = [], mr_validations = [], mr_events = [], mr_drifts = [], mr_predictions = []\<rparr>"

definition register_model :: "model_version \<Rightarrow> (model_registry, unit) operation" where
  "register_model m s =
     (if \<exists>v \<in> set (mr_versions s). mv_model_id v = mv_model_id m \<or> mv_name v = mv_name m \<and> mv_version v = mv_version m
      then (Inl (Exc ValueError ''duplicate_model_version''), s)
      else (Inr (), s\<lparr>mr_versions := mr_versions s @ [m]\<rparr>))"

definition get_model :: "uuid \<Rightarrow> model_registry \<Rightarrow> model_version result" where
  "get_model m s =
     (case find (\<lambda>v. mv_model_id v = m) (mr_versions s) of None \<Rightarrow> Inl (Exc KeyError (uuid_str m)) | Some v \<Rightarrow> Inr v)"

definition append_model_validation :: "model_validation \<Rightarrow> (model_registry, unit) operation" where
  "append_model_validation w s =
     (case get_model (mw_model_id w) s of
        Inl x \<Rightarrow> (Inl x, s)
      | Inr _ \<Rightarrow>
          if mw_validation_id w \<in> mw_validation_id ` set (mr_validations s)
          then (Inl (Exc ValueError ''duplicate_model_validation''), s)
          else (Inr (), s\<lparr>mr_validations := mr_validations s @ [w]\<rparr>))"

definition latest_status :: "uuid \<Rightarrow> model_registry \<Rightarrow> model_status" where
  "latest_status m s =
     (case filter (\<lambda>e. me_model_id e = m) (mr_events s) of [] \<Rightarrow> MODEL_REGISTERED | es \<Rightarrow> me_status (last es))"

definition model_status_of :: "uuid \<Rightarrow> model_registry \<Rightarrow> model_status result" where
  "model_status_of m s = bind_result (get_model m s) (\<lambda>_. Inr (latest_status m s))"

definition is_model_approved :: "uuid \<Rightarrow> model_registry \<Rightarrow> bool result" where
  "is_model_approved m s = bind_result (model_status_of m s) (\<lambda>st. Inr (st = MODEL_APPROVED))"

text \<open>A repeated event or observation identifier raises \<open>sqlite3.IntegrityError\<close>, which is not translated.\<close>

definition append_model_event ::
  "uuid \<times> datetime \<Rightarrow> uuid \<Rightarrow> model_status \<Rightarrow> string \<Rightarrow> string \<Rightarrow> uuid option \<Rightarrow> (model_registry, model_approval_event) operation" where
  "append_model_event env m st actor reason validation_id s =
     (let e = \<lparr>me_event_id = fst env, me_model_id = m, me_status = st, me_actor = actor, me_reason = reason,
                me_validation_id = validation_id, me_occurred_at = snd env\<rparr>
      in if fst env \<in> me_event_id ` set (mr_events s) then (Inl (Exc IntegrityError ''UNIQUE constraint failed''), s)
         else (Inr e, s\<lparr>mr_events := mr_events s @ [e]\<rparr>))"

definition approve_model ::
  "uuid \<times> datetime \<Rightarrow> uuid \<Rightarrow> uuid \<Rightarrow> string \<Rightarrow> string \<Rightarrow> bool \<Rightarrow> (model_registry, model_approval_event) operation" where
  "approve_model env m validation_id actor reason explicit_reapproval s =
     (case get_model m s of
        Inl x \<Rightarrow> (Inl x, s)
      | Inr _ \<Rightarrow>
          if blank actor \<or> blank reason then (Inl (Exc ValueError ''approval_actor_and_reason_are_required''), s)
          else if map_option mw_model_id (find (\<lambda>w. mw_validation_id w = validation_id) (mr_validations s)) \<noteq> Some m
          then (Inl (Exc ValueError ''approval_requires_matching_validation''), s)
          else if latest_status m s = MODEL_DISABLED \<and> \<not> explicit_reapproval
          then (Inl (Exc PermissionError ''disabled_model_requires_explicit_reapproval''), s)
          else append_model_event env m MODEL_APPROVED actor reason (Some validation_id) s)"

definition disable_model ::
  "uuid \<times> datetime \<Rightarrow> uuid \<Rightarrow> string \<Rightarrow> string \<Rightarrow> (model_registry, model_approval_event) operation" where
  "disable_model env m actor reason s =
     (case get_model m s of
        Inl x \<Rightarrow> (Inl x, s)
      | Inr _ \<Rightarrow>
          if blank actor \<or> blank reason then (Inl (Exc ValueError ''disable_actor_and_reason_are_required''), s)
          else append_model_event env m MODEL_DISABLED actor reason None s)"

text \<open>The observation is committed before the threshold is looked at.\<close>

definition record_drift :: "uuid \<times> datetime \<Rightarrow> drift_observation \<Rightarrow> string \<Rightarrow> (model_registry, bool) operation" where
  "record_drift env d actor s =
     (case get_model (md_model_id d) s of
        Inl x \<Rightarrow> (Inl x, s)
      | Inr _ \<Rightarrow>
          if md_observation_id d \<in> md_observation_id ` set (mr_drifts s)
          then (Inl (Exc IntegrityError ''UNIQUE constraint failed''), s)
          else
            let s1 = s\<lparr>mr_drifts := mr_drifts s @ [d]\<rparr>
            in case x_less (md_score d) (md_threshold d) of
                 None \<Rightarrow> (Inl (Exc ArithmeticError ''InvalidOperation''), s1)
               | Some True \<Rightarrow> (Inr False, s1)
               | Some False \<Rightarrow>
                   if latest_status (md_model_id d) s1 = MODEL_APPROVED
                   then bind_method (disable_model env (md_model_id d) actor (''drift_threshold_breached:'' @ md_metric d))
                          (\<lambda>_ t. (Inr True, t)) s1
                   else (Inr True, s1))"

definition append_prediction :: "model_prediction \<Rightarrow> (model_registry, unit) operation" where
  "append_prediction p s =
     (case get_model (mp_model_id p) s of
        Inl x \<Rightarrow> (Inl x, s)
      | Inr m \<Rightarrow>
          if latest_status (mp_model_id p) s \<noteq> MODEL_APPROVED
          then (Inl (Exc PermissionError ''prediction_requires_approved_model''), s)
          else if mp_feature_version p \<noteq> mv_feature_version m
          then (Inl (Exc ValueError ''prediction_feature_version_mismatch''), s)
          else if mp_prediction_id p \<in> mp_prediction_id ` set (mr_predictions s)
          then (Inl (Exc ValueError ''duplicate_model_prediction''), s)
          else (Inr (), s\<lparr>mr_predictions := mr_predictions s @ [p]\<rparr>))"

definition prediction_active :: "uuid \<Rightarrow> string \<Rightarrow> string \<Rightarrow> datetime \<Rightarrow> model_prediction \<Rightarrow> bool" where
  "prediction_active m instrument_id horizon as_of p \<longleftrightarrow>
     mp_model_id p = m \<and> mp_instrument_id p = instrument_id \<and> mp_horizon p = horizon \<and>
     iso_le (mp_issued_at p) as_of \<and> \<not> iso_le (mp_expires_at p) as_of"

definition active_prediction :: "uuid \<Rightarrow> string \<Rightarrow> string \<Rightarrow> datetime \<Rightarrow> model_registry \<Rightarrow> model_prediction result" where
  "active_prediction m instrument_id horizon as_of s =
     (if \<not> aware as_of then Inl (Exc ValueError ''prediction_as_of_must_be_timezone_aware'')
      else case newest (\<lambda>p. iso_key (mp_issued_at p)) (filter (prediction_active m instrument_id horizon as_of) (mr_predictions s)) of
        None \<Rightarrow> Inl (Exc KeyError ''no_active_model_prediction'') | Some p \<Rightarrow> Inr p)"

definition model_events :: "uuid \<Rightarrow> model_registry \<Rightarrow> model_approval_event list result" where
  "model_events m s = bind_result (get_model m s) (\<lambda>_. Inr (filter (\<lambda>e. me_model_id e = m) (mr_events s)))"

section \<open>Runs\<close>

datatype model_call =
    RegisterModel model_version
  | AppendModelValidation model_validation
  | ApproveModel "uuid \<times> datetime" uuid uuid string string bool
  | DisableModel "uuid \<times> datetime" uuid string string
  | RecordDrift "uuid \<times> datetime" drift_observation string
  | AppendPrediction model_prediction

fun model_perform :: "model_call \<Rightarrow> model_registry \<Rightarrow> model_registry" where
  "model_perform (RegisterModel m) s = snd (register_model m s)"
| "model_perform (AppendModelValidation w) s = snd (append_model_validation w s)"
| "model_perform (ApproveModel env m v actor reason explicit) s = snd (approve_model env m v actor reason explicit s)"
| "model_perform (DisableModel env m actor reason) s = snd (disable_model env m actor reason s)"
| "model_perform (RecordDrift env d actor) s = snd (record_drift env d actor s)"
| "model_perform (AppendPrediction p) s = snd (append_prediction p s)"

fun explicitly_reapproves :: "uuid \<Rightarrow> model_call \<Rightarrow> bool" where
  "explicitly_reapproves m (ApproveModel env k v actor reason explicit) = (k = m \<and> explicit)"
| "explicitly_reapproves m _ = False"

text \<open>What a call does to the approval events: nothing, a disabling, or an approval under the conditions of \<open>approve\<close>.\<close>

definition approval_evidenced :: "model_registry \<Rightarrow> model_approval_event \<Rightarrow> bool" where
  "approval_evidenced s e \<longleftrightarrow>
     \<not> blank (me_actor e) \<and> \<not> blank (me_reason e) \<and>
     (\<exists>w \<in> set (mr_validations s). me_validation_id e = Some (mw_validation_id w) \<and> mw_model_id w = me_model_id e)"

inductive event_step :: "model_registry \<Rightarrow> model_call \<Rightarrow> model_approval_event list \<Rightarrow> bool" where
  quiet: "event_step s c []"
| disabled: "me_status e = MODEL_DISABLED \<Longrightarrow> event_step s c [e]"
| approved: "me_status e = MODEL_APPROVED \<Longrightarrow> approval_evidenced s e \<Longrightarrow>
    latest_status (me_model_id e) s \<noteq> MODEL_DISABLED \<or> explicitly_reapproves (me_model_id e) c \<Longrightarrow> event_step s c [e]"

inductive_cases event_stepE: "event_step s c es"

lemma append_event_cases:
  "mr_events (snd (append_model_event env m st actor reason v s)) = mr_events s \<or>
   (\<exists>e. mr_events (snd (append_model_event env m st actor reason v s)) = mr_events s @ [e] \<and>
      me_status e = st \<and> me_model_id e = m \<and> me_actor e = actor \<and> me_reason e = reason \<and> me_validation_id e = v)"
  by (auto simp: append_model_event_def Let_def)

lemma append_event_validations [simp]:
  "mr_validations (snd (append_model_event env m st actor reason v s)) = mr_validations s"
  "mr_versions (snd (append_model_event env m st actor reason v s)) = mr_versions s"
  by (auto simp: append_model_event_def Let_def)

lemma disable_event_step: "\<exists>es. mr_events (snd (disable_model env m actor reason s)) = mr_events s @ es \<and> event_step t c es"
proof (cases "snd (disable_model env m actor reason s) = s")
  case True
  then show ?thesis by (auto intro: event_step.quiet)
next
  case False
  then have "snd (disable_model env m actor reason s) = snd (append_model_event env m MODEL_DISABLED actor reason None s)"
    by (auto simp: disable_model_def split: sum.splits if_splits)
  then show ?thesis
    using append_event_cases [of env m MODEL_DISABLED actor reason None s] by (auto intro: event_step.intros)
qed

lemma approve_event_step:
  "\<exists>es. mr_events (snd (approve_model env m v actor reason explicit s)) = mr_events s @ es \<and>
     event_step s (ApproveModel env m v actor reason explicit) es"
proof (cases "snd (approve_model env m v actor reason explicit s) = s")
  case True
  then show ?thesis by (auto intro: event_step.quiet)
next
  case False
  then have a: "snd (approve_model env m v actor reason explicit s) = snd (append_model_event env m MODEL_APPROVED actor reason (Some v) s)"
    and g: "\<not> blank actor" "\<not> blank reason"
      "map_option mw_model_id (find (\<lambda>w. mw_validation_id w = v) (mr_validations s)) = Some m"
      "latest_status m s \<noteq> MODEL_DISABLED \<or> explicit"
    by (auto simp: approve_model_def split: sum.splits if_splits)
  from g(3) obtain w where w: "w \<in> set (mr_validations s)" "mw_validation_id w = v" "mw_model_id w = m"
    by (auto simp: find_Some_iff in_set_conv_nth)
  show ?thesis
    using append_event_cases [of env m MODEL_APPROVED actor reason "Some v" s]
  proof (elim disjE exE conjE)
    fix e
    assume e: "mr_events (snd (append_model_event env m MODEL_APPROVED actor reason (Some v) s)) = mr_events s @ [e]"
      "me_status e = MODEL_APPROVED" "me_model_id e = m" "me_actor e = actor" "me_reason e = reason" "me_validation_id e = Some v"
    then have "event_step s (ApproveModel env m v actor reason explicit) [e]"
      using g w by (intro event_step.approved) (auto simp: approval_evidenced_def)
    then show ?thesis using a e(1) by auto
  qed (auto simp: a intro: event_step.quiet)
qed

lemma model_event_step: "\<exists>es. mr_events (model_perform c s) = mr_events s @ es \<and> event_step s c es"
proof (cases c)
  case (ApproveModel env m v actor reason explicit)
  then show ?thesis using approve_event_step by simp
next
  case (DisableModel env m actor reason)
  then show ?thesis using disable_event_step by simp
next
  case (RecordDrift env d actor)
  let ?s1 = "s\<lparr>mr_drifts := mr_drifts s @ [d]\<rparr>" and ?r = "''drift_threshold_breached:'' @ md_metric d"
  have "mr_events (model_perform c s) = mr_events s \<or>
    mr_events (model_perform c s) = mr_events (snd (disable_model env (md_model_id d) actor ?r ?s1))"
    using RecordDrift by (auto simp: record_drift_def bind_method_fst Let_def split: sum.splits option.splits bool.splits)
  then show ?thesis
    using disable_event_step [of env "md_model_id d" actor ?r ?s1 s c] by (auto intro: event_step.quiet)
qed (auto simp: register_model_def append_model_validation_def append_prediction_def split: sum.splits intro!: event_step.quiet)

lemma validations_step: "set (mr_validations s) \<subseteq> set (mr_validations (model_perform c s))"
  by (cases c) (auto simp: register_model_def append_model_validation_def append_prediction_def approve_model_def disable_model_def
      record_drift_def bind_method_fst Let_def split: sum.splits option.splits bool.splits)

lemma approval_evidenced_step: "approval_evidenced s e \<Longrightarrow> approval_evidenced (model_perform c s) e"
  using validations_step [of s c] by (auto simp: approval_evidenced_def)

definition approvals_evidenced :: "model_registry \<Rightarrow> bool" where
  "approvals_evidenced s \<longleftrightarrow> (\<forall>e \<in> set (mr_events s). me_status e = MODEL_APPROVED \<longrightarrow> approval_evidenced s e)"

lemma approvals_evidenced_step: "approvals_evidenced s \<Longrightarrow> approvals_evidenced (model_perform c s)"
proof -
  assume ok: "approvals_evidenced s"
  obtain es where es: "mr_events (model_perform c s) = mr_events s @ es" "event_step s c es" using model_event_step by blast
  from es(2) have "\<forall>e \<in> set es. me_status e = MODEL_APPROVED \<longrightarrow> approval_evidenced s e" by cases simp_all
  then have "\<forall>e \<in> set (mr_events s @ es). me_status e = MODEL_APPROVED \<longrightarrow> approval_evidenced s e"
    using ok by (auto simp: approvals_evidenced_def)
  then show "approvals_evidenced (model_perform c s)"
    unfolding approvals_evidenced_def es(1) using approval_evidenced_step by blast
qed

lemma approvals_evidenced_run: "approvals_evidenced s \<Longrightarrow> approvals_evidenced (fold model_perform cs s)"
  by (induction cs arbitrary: s) (simp_all add: approvals_evidenced_step)

lemma latest_status_snoc:
  "mr_events t = mr_events s @ [e] \<Longrightarrow> latest_status m t = (if me_model_id e = m then me_status e else latest_status m s)"
  by (cases "filter (\<lambda>e. me_model_id e = m) (mr_events s)") (auto simp: latest_status_def split: list.splits)

lemma latest_status_same: "mr_events t = mr_events s \<Longrightarrow> latest_status m t = latest_status m s"
  by (simp add: latest_status_def)

lemma disabled_step:
  assumes "latest_status m s = MODEL_DISABLED" "\<not> explicitly_reapproves m c"
  shows "latest_status m (model_perform c s) = MODEL_DISABLED"
proof -
  obtain es where es: "mr_events (model_perform c s) = mr_events s @ es" "event_step s c es"
    using model_event_step by blast
  from es(2) show ?thesis
  proof cases
    case quiet
    then show ?thesis using es(1) assms(1) by (simp add: latest_status_def)
  qed (use es(1) assms in \<open>auto simp: latest_status_snoc\<close>)
qed

lemma disabled_run:
  "latest_status m s = MODEL_DISABLED \<Longrightarrow> \<forall>c \<in> set cs. \<not> explicitly_reapproves m c \<Longrightarrow>
   latest_status m (fold model_perform cs s) = MODEL_DISABLED"
  by (induction cs arbitrary: s) (simp_all add: disabled_step)

lemma latest_status_event:
  "latest_status m s = st \<Longrightarrow> st \<noteq> MODEL_REGISTERED \<Longrightarrow> \<exists>e \<in> set (mr_events s). me_model_id e = m \<and> me_status e = st"
proof -
  assume a: "latest_status m s = st" "st \<noteq> MODEL_REGISTERED"
  let ?es = "filter (\<lambda>e. me_model_id e = m) (mr_events s)"
  have "?es \<noteq> []" "st = me_status (last ?es)" using a by (auto simp: latest_status_def split: list.splits)
  with last_in_set [of ?es] show ?thesis by auto
qed

lemma is_model_approved_True: "is_model_approved m s = Inr True \<longleftrightarrow> (\<exists>v. get_model m s = Inr v) \<and> latest_status m s = MODEL_APPROVED"
  by (auto simp: is_model_approved_def model_status_of_def bind_result_Inr_iff)

lemma drift_disables:
  assumes "get_model (md_model_id d) s = Inr v" "md_observation_id d \<notin> md_observation_id ` set (mr_drifts s)"
    "x_less (md_score d) (md_threshold d) = Some False" "\<not> blank actor" "fst env \<notin> me_event_id ` set (mr_events s)"
  shows "fst (record_drift env d actor s) = Inr True \<and> is_model_approved (md_model_id d) (snd (record_drift env d actor s)) = Inr False"
proof -
  have nb: "\<not> blank (''drift_threshold_breached:'' @ md_metric d)" by (simp add: blank_iff is_space_def)
  have g: "get_model (md_model_id d) (s\<lparr>mr_drifts := x\<rparr>) = Inr v" for x using assms(1) by (simp add: get_model_def)
  show ?thesis
    using assms g nb
    by (auto simp: record_drift_def Let_def disable_model_def append_model_event_def bind_method_def is_model_approved_def
        model_status_of_def latest_status_def get_model_def split: list.splits option.splits)
qed

section \<open>Properties\<close>

text \<open>
  C37: a model is approved only on evidence: after any calls, an approved model has an approval event with an
  actor and a reason that names a stored validation of that very model; and a model that was disabled (by an
  operator or by drift) is approved again only if one of the calls since then was an explicit reapproval.
\<close>

theorem model_approval_gate:
  assumes "s = fold model_perform cs empty_registry" "is_model_approved m (fold model_perform ds s) = Inr True"
  shows "(\<exists>e \<in> set (mr_events (fold model_perform ds s)). me_model_id e = m \<and> me_status e = MODEL_APPROVED \<and>
            approval_evidenced (fold model_perform ds s) e) \<and>
    (latest_status m s = MODEL_DISABLED \<longrightarrow> (\<exists>c \<in> set ds. explicitly_reapproves m c))"
proof -
  have "approvals_evidenced (fold model_perform ds s)"
    unfolding assms(1) by (intro approvals_evidenced_run) (simp add: approvals_evidenced_def empty_registry_def)
  moreover have l: "latest_status m (fold model_perform ds s) = MODEL_APPROVED" using assms(2) by (simp add: is_model_approved_True)
  ultimately show ?thesis
    using latest_status_event [OF l] disabled_run [of m s ds] by (auto simp: approvals_evidenced_def)
qed

text \<open>
  Drift disables: an observation at or above its threshold for a registered model is reported as a breach
  and leaves the model not approved.
\<close>

theorem drift_breach_disables:
  assumes "get_model (md_model_id d) s = Inr v" "md_observation_id d \<notin> md_observation_id ` set (mr_drifts s)"
    "x_less (md_score d) (md_threshold d) = Some False" "\<not> blank actor" "fst env \<notin> me_event_id ` set (mr_events s)"
  shows "fst (record_drift env d actor s) = Inr True \<and> is_model_approved (md_model_id d) (snd (record_drift env d actor s)) = Inr False"
  by (rule drift_disables [OF assms])

section \<open>Witnesses\<close>

definition sample_model :: model_version where
  "sample_model = \<lparr>mv_model_id = 1, mv_name = ''m'', mv_version = ''1'', mv_task = ''t'', mv_feature_version = ''f'',
     mv_dataset_version = ''d'', mv_artifact_reference = ''a'', mv_created_at = Aware 0 0\<rparr>"

definition sample_validation :: model_validation where
  "sample_validation = \<lparr>mw_validation_id = 2, mw_model_id = 1, mw_metrics = [(''auc'', Finite (Dec 8 (- 1)))],
     mw_economic_value_after_cost = Finite (Dec 1 0), mw_evidence_reference = ''e'', mw_validated_at = Aware 1 0\<rparr>"

definition disabled_calls :: "model_call list" where
  "disabled_calls = [RegisterModel sample_model, AppendModelValidation sample_validation,
     ApproveModel (10, Aware 2 0) 1 2 ''op'' ''ok'' False, DisableModel (11, Aware 3 0) 1 ''op'' ''drift'']"

definition disabled_registry :: model_registry where
  "disabled_registry = \<lparr>mr_versions = [sample_model], mr_validations = [sample_validation],
     mr_events = [\<lparr>me_event_id = 10, me_model_id = 1, me_status = MODEL_APPROVED, me_actor = ''op'', me_reason = ''ok'',
                    me_validation_id = Some 2, me_occurred_at = Aware 2 0\<rparr>,
                   \<lparr>me_event_id = 11, me_model_id = 1, me_status = MODEL_DISABLED, me_actor = ''op'', me_reason = ''drift'',
                    me_validation_id = None, me_occurred_at = Aware 3 0\<rparr>],
     mr_drifts = [], mr_predictions = []\<rparr>"

lemma disabled_run_sample: "fold model_perform disabled_calls empty_registry = disabled_registry"
  by (simp add: disabled_calls_def disabled_registry_def empty_registry_def register_model_def sample_model_def get_model_def
      append_model_validation_def sample_validation_def approve_model_def disable_model_def append_model_event_def Let_def latest_status_def
      blank_iff is_space_def)

theorem model_approval_gate_witness:
  "\<exists>c \<in> set [ApproveModel (12, Aware 4 0) 1 2 ''op'' ''retrained'' True]. explicitly_reapproves 1 c"
proof -
  have approved: "is_model_approved 1 (fold model_perform [ApproveModel (12, Aware 4 0) 1 2 ''op'' ''retrained'' True] disabled_registry) = Inr True"
    by (simp add: disabled_registry_def approve_model_def get_model_def sample_model_def sample_validation_def append_model_event_def Let_def
        latest_status_def is_model_approved_def model_status_of_def blank_iff is_space_def)
  have disabled: "latest_status 1 disabled_registry = MODEL_DISABLED" by (simp add: latest_status_def disabled_registry_def)
  show ?thesis
    by (rule model_approval_gate [OF disabled_run_sample [symmetric] approved, THEN conjunct2, THEN mp, OF disabled])
qed

theorem drift_breach_disables_witness:
  "fst (record_drift (12, Aware 5 0) \<lparr>md_observation_id = 3, md_model_id = 1, md_metric = ''psi'', md_score = Finite (Dec 3 (- 1)),
     md_threshold = Finite (Dec 2 (- 1)), md_observed_at = Aware 5 0\<rparr> ''drift-monitor'' disabled_registry) = Inr True"
  using drift_breach_disables [of "\<lparr>md_observation_id = 3, md_model_id = 1, md_metric = ''psi'', md_score = Finite (Dec 3 (- 1)),
     md_threshold = Finite (Dec 2 (- 1)), md_observed_at = Aware 5 0\<rparr>" disabled_registry sample_model "''drift-monitor''" "(12, Aware 5 0)"]
  by (simp add: disabled_registry_def get_model_def sample_model_def blank_iff is_space_def dec_order dec_eval)

end
