(* ===== verification/ReturnHistory.thy ===== *)
theory ReturnHistory
  imports PaperBroker PretradeEvidence
begin

text \<open>
  \<open>return_history.py\<close>: portfolio return observations with their provenance, the evidence window of a
  policy, and their ingestion from a provider with retries and pagination. A provider is a record of functions
  over a state of its own, so that its answers may depend on all earlier requests; \<open>uuid5\<close> and SHA-256 of a
  JSON value are the parameters \<open>name_uuid\<close> and \<open>sha\<close>. The HTTPS provider is such a provider and is not
  modelled itself.
\<close>

section \<open>Observations and evidence\<close>

abbreviation return_error :: "string \<Rightarrow> py_exc" where
  "return_error m \<equiv> Exc ReturnHistoryError m"

record return_observation =
  ro_observation_id :: uuid
  ro_account_id :: string
  ro_period_start :: datetime
  ro_period_end :: datetime
  ro_return_fraction :: xdecimal
  ro_provider :: string
  ro_source_reference :: string
  ro_ingested_at :: datetime

definition validate_return :: "return_observation \<Rightarrow> unit result" where
  "validate_return r =
     (if blank (ro_account_id r) \<or> blank (ro_provider r) \<or> blank (ro_source_reference r) \<or>
         \<not> aware (ro_period_start r) \<or> \<not> aware (ro_period_end r) \<or> \<not> aware (ro_ingested_at r) \<or>
         instant (ro_period_end r) \<le> instant (ro_period_start r) \<or> instant (ro_ingested_at r) < instant (ro_period_end r) \<or>
         \<not> is_finite (ro_return_fraction r) \<or> finite_part (ro_return_fraction r) \<le> Dec (- 1) 0
      then Inl (return_error ''invalid_portfolio_return_observation'') else Inr ())"

text \<open>\<open>ReturnHistoryEvidence(observations)\<close>, its \<open>returns\<close>, \<open>observed_at\<close> and \<open>reference\<close>.\<close>

definition history_evidence :: "return_observation list \<Rightarrow> return_observation list result" where
  "history_evidence rows = (if rows = [] then Inl (return_error ''empty_return_history_evidence'') else Inr rows)"

definition evidence_returns :: "return_observation list \<Rightarrow> decimal list" where
  "evidence_returns rows = map (\<lambda>r. finite_part (ro_return_fraction r)) rows"

definition evidence_observed_at :: "return_observation list \<Rightarrow> datetime" where
  "evidence_observed_at rows = ro_period_end (last rows)"

definition return_json :: "return_observation \<Rightarrow> json" where
  "return_json r = JObj
     [(''observation_id'', JStr (uuid_str (ro_observation_id r))), (''account_id'', JStr (ro_account_id r)),
      (''period_start'', JStr (iso_datetime (ro_period_start r))), (''period_end'', JStr (iso_datetime (ro_period_end r))),
      (''return_fraction'', JStr (dec_str (finite_part (ro_return_fraction r)))), (''provider'', JStr (ro_provider r)),
      (''source_reference'', JStr (ro_source_reference r)), (''ingested_at'', JStr (iso_datetime (ro_ingested_at r)))]"

definition evidence_reference :: "(json \<Rightarrow> string) \<Rightarrow> return_observation list \<Rightarrow> string" where
  "evidence_reference sha rows = sha (json_sorted (JList (map return_json rows)))"

section \<open>The sandbox performance provider\<close>

record performance_snapshot =
  af_account_id :: string
  af_observed_at :: datetime
  af_equity :: xdecimal
  af_source_reference :: string
  af_ingested_at :: datetime

text \<open>The comparison \<open>equity <= 0\<close> raises on a NaN.\<close>

definition validate_performance :: "performance_snapshot \<Rightarrow> unit result" where
  "validate_performance p =
     (if blank (af_account_id p) \<or> blank (af_source_reference p) then Inl (return_error ''invalid_account_performance_snapshot'')
      else case x_less (Finite (Dec 0 0)) (af_equity p) of
        None \<Rightarrow> Inl (Exc ArithmeticError ''InvalidOperation'')
      | Some positive \<Rightarrow>
          if \<not> positive \<or> \<not> is_finite (af_equity p) \<or> \<not> aware (af_observed_at p) \<or> \<not> aware (af_ingested_at p) \<or>
             instant (af_ingested_at p) < instant (af_observed_at p)
          then Inl (return_error ''invalid_account_performance_snapshot'') else Inr ())"

record performance_provider =
  pp_configuration :: broker_configuration
  pp_snapshots :: "performance_snapshot list"

definition performance_provider_name :: "performance_provider \<Rightarrow> string" where
  "performance_provider_name p = ''sandbox-performance:'' @ bc_broker_name (pp_configuration p)"

definition new_performance_provider :: "broker_configuration \<Rightarrow> performance_provider result" where
  "new_performance_provider c =
     bind_result (validate_configuration c) (\<lambda>_. Inr \<lparr>pp_configuration = c, pp_snapshots = []\<rparr>)"

text \<open>Only the configured account is accepted, so the dictionary of snapshots has one list.\<close>

definition record_performance :: "performance_snapshot \<Rightarrow> (performance_provider, unit) operation" where
  "record_performance q p =
     (case validate_performance q of
        Inl x \<Rightarrow> (Inl x, p)
      | Inr _ \<Rightarrow>
          if af_account_id q \<noteq> bc_account_id (pp_configuration p)
          then (Inl (return_error ''sandbox_performance_account_mismatch''), p)
          else if af_source_reference q \<in> af_source_reference ` set (pp_snapshots p)
          then (Inl (return_error ''duplicate_account_performance_snapshot''), p)
          else (Inr (), p\<lparr>pp_snapshots := pp_snapshots p @ [q]\<rparr>))"

definition performance_return ::
  "(string \<Rightarrow> uuid) \<Rightarrow> string \<Rightarrow> string \<Rightarrow> performance_snapshot \<Rightarrow> performance_snapshot \<Rightarrow> return_observation" where
  "performance_return name_uuid provider_name account_id previous current =
     (let reference = af_source_reference previous @ ''->'' @ af_source_reference current
      in \<lparr>ro_observation_id = name_uuid (provider_name @ '':'' @ account_id @ '':'' @ iso_datetime (af_observed_at previous) @ '':'' @
             iso_datetime (af_observed_at current) @ '':'' @ reference),
          ro_account_id = account_id, ro_period_start = af_observed_at previous, ro_period_end = af_observed_at current,
          ro_return_fraction = Finite (dquot (finite_part (af_equity current)) (finite_part (af_equity previous)) - Dec 1 0),
          ro_provider = provider_name, ro_source_reference = reference,
          ro_ingested_at = (if instant (af_ingested_at current) < instant (af_observed_at current)
                            then af_observed_at current else af_ingested_at current)\<rparr>)"

fun performance_returns ::
  "(string \<Rightarrow> uuid) \<Rightarrow> string \<Rightarrow> string \<Rightarrow> performance_snapshot \<Rightarrow> performance_snapshot list \<Rightarrow> return_observation list result" where
  "performance_returns name_uuid provider_name account_id previous [] = Inr []"
| "performance_returns name_uuid provider_name account_id previous (current # rest) =
     (if instant (af_observed_at current) \<le> instant (af_observed_at previous)
      then Inl (return_error ''non_increasing_account_performance_time'')
      else bind_result (performance_returns name_uuid provider_name account_id current rest)
             (\<lambda>rs. Inr (performance_return name_uuid provider_name account_id previous current # rs)))"

definition performance_order :: "performance_snapshot \<Rightarrow> int \<times> int \<times> string" where
  "performance_order q = (instant (af_observed_at q), instant (af_ingested_at q), af_source_reference q)"

definition fetch_performance ::
  "(string \<Rightarrow> uuid) \<Rightarrow> string \<Rightarrow> datetime \<Rightarrow> datetime \<Rightarrow> performance_provider \<Rightarrow> return_observation list result" where
  "fetch_performance name_uuid account_id start_at end_at p =
     (if account_id \<noteq> bc_account_id (pp_configuration p) \<or> \<not> aware start_at \<or> \<not> aware end_at \<or> instant end_at \<le> instant start_at
      then Inl (return_error ''invalid_sandbox_performance_request'')
      else case sort_key performance_order
               (filter (\<lambda>q. instant start_at \<le> instant (af_observed_at q) \<and> instant (af_observed_at q) \<le> instant end_at) (pp_snapshots p)) of
        [] \<Rightarrow> Inl (return_error ''sandbox_performance_start_snapshot_required'')
      | first # rest \<Rightarrow>
          if instant (af_observed_at first) \<noteq> instant start_at
          then Inl (return_error ''sandbox_performance_start_snapshot_required'')
          else performance_returns name_uuid (performance_provider_name p) account_id first rest)"

section \<open>The store\<close>

record ingestion_cadence =
  ic_account_id :: string
  ic_provider :: string
  ic_interval :: timedelta
  ic_grace :: timedelta
  ic_approved_by :: string
  ic_updated_at :: datetime

definition validate_cadence :: "ingestion_cadence \<Rightarrow> unit result" where
  "validate_cadence c =
     (if blank (ic_account_id c) \<or> blank (ic_provider c) \<or> blank (ic_approved_by c) \<or> ic_interval c \<le> 0 \<or> ic_grace c < 0 \<or>
         \<not> aware (ic_updated_at c)
      then Inl (return_error ''invalid_return_ingestion_cadence'') else Inr ())"

record retry_policy =
  ry_maximum_attempts :: int
  ry_base_delay :: timedelta

definition validate_retry_policy :: "retry_policy \<Rightarrow> unit result" where
  "validate_retry_policy y =
     (if ry_maximum_attempts y < 1 \<or> ry_base_delay y < 0 then Inl (return_error ''invalid_return_ingestion_retry_policy'') else Inr ())"

datatype run_status = RUN_PENDING | RUN_SUCCEEDED | RUN_FAILED

record ingestion_run =
  ir_run_id :: uuid
  ir_provider :: string
  ir_account_id :: string
  ir_start_at :: datetime
  ir_end_at :: datetime
  ir_requested_at :: datetime
  ir_completed_at :: datetime
  ir_status :: run_status
  ir_count :: nat
  ir_error :: "string option"

record provider_health =
  ph_checked_at :: datetime
  ph_healthy :: bool
  ph_reason :: "string option"
  ph_consecutive_failures :: nat

type_synonym command_signature = "string \<times> string \<times> string \<times> datetime \<times> datetime"

record ingestion_command =
  cm_signature :: command_signature
  cm_status :: run_status
  cm_count :: "nat option"
  cm_error :: "string option"
  cm_requested_at :: datetime

record return_store =
  rs_observations :: "return_observation list"
  rs_runs :: "ingestion_run list"
  rs_health :: "(string, provider_health) dict"
  rs_commands :: "(string, ingestion_command) dict"
  rs_cadences :: "(string \<times> string, ingestion_cadence) dict"

definition empty_returns :: return_store where
  "empty_returns = \<lparr>rs_observations = [], rs_runs = [], rs_health = [], rs_commands = [], rs_cadences = []\<rparr>"

definition duplicate_return :: "return_observation \<Rightarrow> return_observation \<Rightarrow> bool" where
  "duplicate_return a b \<longleftrightarrow>
     ro_observation_id a = ro_observation_id b \<or>
     ro_account_id a = ro_account_id b \<and> ro_provider a = ro_provider b \<and> ro_source_reference a = ro_source_reference b"

definition append_return :: "return_observation \<Rightarrow> (return_store, unit) operation" where
  "append_return r s =
     (case validate_return r of
        Inl x \<Rightarrow> (Inl x, s)
      | Inr _ \<Rightarrow>
          if \<exists>q \<in> set (rs_observations s). duplicate_return r q
          then (Inl (return_error ''duplicate_portfolio_return_observation''), s)
          else (Inr (), s\<lparr>rs_observations := rs_observations s @ [r]\<rparr>))"

definition return_visible :: "string \<Rightarrow> datetime \<Rightarrow> return_observation \<Rightarrow> bool" where
  "return_visible account_id t r \<longleftrightarrow> ro_account_id r = account_id \<and> iso_le (ro_period_end r) t \<and> iso_le (ro_ingested_at r) t"

definition return_order :: "return_observation \<Rightarrow> (int \<times> int \<times> int) \<times> (int \<times> int \<times> int)" where
  "return_order r = (iso_key (ro_period_end r), iso_key (ro_ingested_at r))"

definition observations_as_of :: "string \<Rightarrow> datetime \<Rightarrow> return_store \<Rightarrow> return_observation list result" where
  "observations_as_of account_id decision_at s =
     (if blank account_id \<or> \<not> aware decision_at then Inl (return_error ''invalid_return_history_query'')
      else Inr (sort_key return_order (filter (return_visible account_id decision_at) (rs_observations s))))"

definition returns_as_of :: "string \<Rightarrow> datetime \<Rightarrow> return_store \<Rightarrow> decimal list result" where
  "returns_as_of account_id decision_at s = bind_result (observations_as_of account_id decision_at s) (\<lambda>rs. Inr (evidence_returns rs))"

text \<open>\<open>observations[-window:]\<close>; an age is compared in whole microseconds.\<close>

definition evidence_for_policy ::
  "string \<Rightarrow> datetime \<Rightarrow> int \<Rightarrow> int \<Rightarrow> int \<Rightarrow> return_store \<Rightarrow> return_observation list result" where
  "evidence_for_policy account_id decision_at minimum_observations window maximum_age_seconds s =
     (if minimum_observations < 1 \<or> window < minimum_observations \<or> maximum_age_seconds < 0
      then Inl (return_error ''invalid_return_history_policy_requirements'')
      else bind_result (observations_as_of account_id decision_at s) (\<lambda>observations.
        if int (length observations) < window then Inl (return_error ''insufficient_return_history_window'')
        else let selected = drop (length observations - nat window) observations in
          if seconds maximum_age_seconds < instant decision_at - instant (ro_period_end (last selected))
          then Inl (return_error ''stale_return_history'') else history_evidence selected))"

definition returns_for_policy :: "string \<Rightarrow> datetime \<Rightarrow> int \<Rightarrow> int \<Rightarrow> int \<Rightarrow> return_store \<Rightarrow> decimal list result" where
  "returns_for_policy account_id decision_at minimum_observations window maximum_age_seconds s =
     bind_result (evidence_for_policy account_id decision_at minimum_observations window maximum_age_seconds s)
       (\<lambda>rs. Inr (evidence_returns rs))"

definition provider_health_of :: "string \<Rightarrow> return_store \<Rightarrow> provider_health option" where
  "provider_health_of provider s = dict_get (rs_health s) provider"

definition ingestion_runs :: "string \<Rightarrow> return_store \<Rightarrow> ingestion_run list" where
  "ingestion_runs account_id s =
     sort_key (\<lambda>r. iso_key (ir_requested_at r)) (filter (\<lambda>r. ir_account_id r = account_id) (rs_runs s))"

definition signature_account :: "command_signature \<Rightarrow> string" where
  "signature_account g = fst (snd (snd g))"

definition ingestion_commands :: "string \<Rightarrow> return_store \<Rightarrow> (string \<times> ingestion_command) list" where
  "ingestion_commands account_id s =
     rev (sort_key (\<lambda>(_, c). iso_key (cm_requested_at c))
       (filter (\<lambda>(_, c). signature_account (cm_signature c) = account_id) (rs_commands s)))"

section \<open>Cadences\<close>

definition stored_cadence :: "ingestion_cadence \<Rightarrow> ingestion_cadence" where
  "stored_cadence c = c\<lparr>ic_interval := seconds (ic_interval c div 1000000), ic_grace := seconds (ic_grace c div 1000000)\<rparr>"

definition set_ingestion_cadence :: "ingestion_cadence \<Rightarrow> (return_store, unit) operation" where
  "set_ingestion_cadence c s =
     (case validate_cadence c of
        Inl x \<Rightarrow> (Inl x, s)
      | Inr _ \<Rightarrow> (Inr (), s\<lparr>rs_cadences := dict_set (ic_account_id c, ic_provider c) (stored_cadence c) (rs_cadences s)\<rparr>))"

definition ingestion_cadences :: "return_store \<Rightarrow> ingestion_cadence list" where
  "ingestion_cadences s = map snd (sort_key fst (rs_cadences s))"

definition last_success :: "return_store \<Rightarrow> ingestion_cadence \<Rightarrow> datetime option" where
  "last_success s c =
     map_option ir_completed_at (newest (\<lambda>r. iso_key (ir_completed_at r))
       (filter (\<lambda>r. ir_account_id r = ic_account_id c \<and> ir_provider r = ic_provider c \<and> ir_status r = RUN_SUCCEEDED) (rs_runs s)))"

definition cadence_deadline :: "ingestion_cadence \<Rightarrow> datetime option \<Rightarrow> int" where
  "cadence_deadline c completed =
     (case completed of None \<Rightarrow> instant (ic_updated_at c) | Some t \<Rightarrow> instant t + ic_interval c)"

definition due_ingestion_cadences :: "datetime \<Rightarrow> return_store \<Rightarrow> (ingestion_cadence \<times> datetime option \<times> bool) list result" where
  "due_ingestion_cadences now s =
     (if \<not> aware now then Inl (return_error ''invalid_return_ingestion_due_time'')
      else Inr (map (\<lambda>c. let completed = last_success s c in
                       (c, completed, cadence_deadline c completed + ic_grace c < instant now))
             (filter (\<lambda>c. cadence_deadline c (last_success s c) \<le> instant now) (ingestion_cadences s))))"

section \<open>The evidence window\<close>

lemma evidence_for_policy_Inr:
  "evidence_for_policy account_id t m window age s = Inr rows \<longleftrightarrow>
   1 \<le> m \<and> m \<le> window \<and> 0 \<le> age \<and> \<not> blank account_id \<and> aware t \<and>
   (let known = sort_key return_order (filter (return_visible account_id t) (rs_observations s)) in
      window \<le> int (length known) \<and> rows = drop (length known - nat window) known \<and>
      instant t - instant (ro_period_end (last rows)) \<le> seconds age)"
proof -
  let ?k = "sort_key return_order (filter (return_visible account_id t) (rs_observations s))"
  have ne: "drop (length ?k - nat window) ?k \<noteq> []" if "1 \<le> window" "window \<le> int (length ?k)"
    using that by simp
  show ?thesis
    by (auto simp: evidence_for_policy_def observations_as_of_def Let_def history_evidence_def not_less ne)
qed

lemma append_return_unseen:
  "\<not> iso_le (ro_ingested_at r) t \<Longrightarrow>
   filter (return_visible account_id t) (rs_observations (snd (append_return r s))) = filter (return_visible account_id t) (rs_observations s)"
  by (auto simp: append_return_def return_visible_def split: sum.splits)

lemma append_returns_unseen:
  "\<forall>r \<in> set rs. \<not> iso_le (ro_ingested_at r) t \<Longrightarrow>
   filter (return_visible account_id t) (rs_observations (fold (\<lambda>r s. snd (append_return r s)) rs s)) =
   filter (return_visible account_id t) (rs_observations s)"
  by (induction rs arbitrary: s) (simp_all add: append_return_unseen)

lemma window_of_sorted:
  fixes f :: "'a \<Rightarrow> 'b :: linorder"
  assumes "sorted (map f xs)"
  shows "sorted (map f (drop n xs)) \<and> (\<forall>a \<in> set (take n xs). \<forall>b \<in> set (drop n xs). f a \<le> f b)"
proof -
  have "sorted (map f (take n xs) @ map f (drop n xs))" using assms by (simp flip: map_append)
  then show ?thesis by (simp add: sorted_append)
qed

text \<open>
  The returns behind a historical risk limit are the newest window of what was known: exactly the
  requested number of observations of that account, each ended and ingested by the decision, in order, no known
  observation outside the window later than one inside, the newest young enough; and observations ingested after
  the decision never change the window.
\<close>

theorem return_window_no_look_ahead:
  assumes "evidence_for_policy account_id t m window age s = Inr rows" "\<forall>r \<in> set rs. \<not> iso_le (ro_ingested_at r) t"
  shows "int (length rows) = window \<and> (\<forall>r \<in> set rows. r \<in> set (rs_observations s) \<and> return_visible account_id t r) \<and>
    sorted (map return_order rows) \<and>
    (\<exists>older. mset (older @ rows) = mset (filter (return_visible account_id t) (rs_observations s)) \<and>
       (\<forall>a \<in> set older. \<forall>b \<in> set rows. return_order a \<le> return_order b)) \<and>
    instant t - instant (evidence_observed_at rows) \<le> seconds age \<and>
    evidence_for_policy account_id t m window age (fold (\<lambda>r s. snd (append_return r s)) rs s) = Inr rows"
proof -
  let ?k = "sort_key return_order (filter (return_visible account_id t) (rs_observations s))"
  let ?n = "length ?k - nat window"
  from assms(1) have g: "1 \<le> window" "window \<le> int (length ?k)" and r: "rows = drop ?n ?k"
    and young: "instant t - instant (ro_period_end (last rows)) \<le> seconds age"
    unfolding evidence_for_policy_Inr Let_def by (linarith | blast)+
  have w: "sorted (map return_order rows) \<and> (\<forall>a \<in> set (take ?n ?k). \<forall>b \<in> set rows. return_order a \<le> return_order b)"
    unfolding r by (rule window_of_sorted) simp
  have "set rows \<subseteq> set ?k" unfolding r by (rule set_drop_subset)
  moreover have "mset (take ?n ?k @ rows) = mset (filter (return_visible account_id t) (rs_observations s))"
    unfolding r append_take_drop_id by simp
  moreover have "int (length rows) = window" using g by (simp add: r)
  moreover have "evidence_for_policy account_id t m window age (fold (\<lambda>r s. snd (append_return r s)) rs s) = Inr rows"
    using assms(1) unfolding evidence_for_policy_Inr append_returns_unseen [OF assms(2)] .
  ultimately show ?thesis using w young unfolding evidence_observed_at_def by auto
qed

definition sample_return :: return_observation where
  "sample_return = \<lparr>ro_observation_id = 1, ro_account_id = ''A'', ro_period_start = Aware 0 0, ro_period_end = Aware 5 0,
     ro_return_fraction = Finite (Dec 1 (- 2)), ro_provider = ''p'', ro_source_reference = ''r1'', ro_ingested_at = Aware 6 0\<rparr>"

theorem return_window_no_look_ahead_witness:
  "evidence_for_policy ''A'' (Aware 9 0) 1 1 60
     (fold (\<lambda>r s. snd (append_return r s)) [sample_return\<lparr>ro_observation_id := 2, ro_source_reference := ''r2'', ro_ingested_at := Aware 10 0\<rparr>]
       (empty_returns\<lparr>rs_observations := [sample_return]\<rparr>)) = Inr [sample_return]"
proof -
  have "evidence_for_policy ''A'' (Aware 9 0) 1 1 60 (empty_returns\<lparr>rs_observations := [sample_return]\<rparr>) = Inr [sample_return]"
    by (simp add: evidence_for_policy_Inr return_visible_def sample_return_def iso_le_def seconds_def blank_iff is_space_def)
  from return_window_no_look_ahead [OF this, of "[sample_return\<lparr>ro_observation_id := 2, ro_source_reference := ''r2'', ro_ingested_at := Aware 10 0\<rparr>]"]
  show ?thesis by (simp add: iso_le_def)
qed

end
