(* ===== verification/ReturnIngestion.thy ===== *)
theory ReturnIngestion
  imports ReturnHistory
begin

text \<open>
  The ingestion of \<open>return_history.py\<close>: pages, retries with exponential delays, the contract check, the run and
  health records and the idempotent operator command. A run works on a world: the provider's own state, the
  delays slept so far and the store.
\<close>

section \<open>Providers\<close>

record 'p return_provider =
  pv_name :: string
  pv_page :: "(string \<Rightarrow> datetime \<Rightarrow> datetime \<Rightarrow> string option \<Rightarrow> ('p, return_observation list \<times> string option) operation) option"
  pv_fetch :: "string \<Rightarrow> datetime \<Rightarrow> datetime \<Rightarrow> ('p, return_observation list) operation"

text \<open>\<open>_collect_pages\<close>: the loop over at most \<open>maximum_pages\<close> pages.\<close>

primrec collect_pages ::
  "(string option \<Rightarrow> ('p, return_observation list \<times> string option) operation) \<Rightarrow> nat \<Rightarrow> string option \<Rightarrow> string set \<Rightarrow>
   return_observation list \<Rightarrow> ('p, return_observation list) operation" where
  "collect_pages fetch 0 cursor seen rows p = (Inl (return_error ''return_provider_pagination_limit_exceeded''), p)"
| "collect_pages fetch (Suc n) cursor seen rows p =
     (case fetch cursor p of
        (Inl x, q) \<Rightarrow> (Inl x, q)
      | (Inr (page, next_cursor), q) \<Rightarrow>
          (case next_cursor of
             None \<Rightarrow> (Inr (rows @ page), q)
           | Some c \<Rightarrow>
               if c = [] \<or> c \<in> seen then (Inl (return_error ''return_provider_pagination_cursor_loop''), q)
               else collect_pages fetch n (Some c) (insert c seen) (rows @ page) q))"

definition fetch_once :: "'p return_provider \<Rightarrow> string \<Rightarrow> datetime \<Rightarrow> datetime \<Rightarrow> ('p, return_observation list) operation" where
  "fetch_once pv account_id start_at end_at =
     (case pv_page pv of
        Some page \<Rightarrow> collect_pages (page account_id start_at end_at) 1000 None {} []
      | None \<Rightarrow> pv_fetch pv account_id start_at end_at)"

text \<open>The retry loop over the attempts still to come; the delays slept are part of the state.\<close>

fun retry_loop ::
  "('p, return_observation list) operation \<Rightarrow> retry_policy \<Rightarrow> nat list \<Rightarrow> ('p \<times> timedelta list, return_observation list) operation" where
  "retry_loop once y [] w = (Inl (Exc AssertionError ''retry loop must return or raise''), w)"
| "retry_loop once y (k # ks) (p, slept) =
     (case once p of
        (Inr rows, q) \<Rightarrow> (Inr rows, (q, slept))
      | (Inl x, q) \<Rightarrow>
          if exc_class x \<noteq> ReturnProviderTransientError then (Inl x, (q, slept))
          else if int k + 1 = ry_maximum_attempts y then (Inl x, (q, slept))
          else retry_loop once y ks (q, slept @ [ry_base_delay y * 2 ^ k]))"

definition fetch_with_retry ::
  "'p return_provider \<Rightarrow> string \<Rightarrow> datetime \<Rightarrow> datetime \<Rightarrow> retry_policy \<Rightarrow> ('p \<times> timedelta list, return_observation list) operation" where
  "fetch_with_retry pv account_id start_at end_at y =
     retry_loop (fetch_once pv account_id start_at end_at) y [0 ..< nat (ry_maximum_attempts y)]"

section \<open>Ingestion\<close>

record 'p ingest_world =
  iw_provider :: 'p
  iw_slept :: "timedelta list"
  iw_store :: return_store

record ingest_env =
  gn_run_id :: uuid
  gn_requested_at :: datetime
  gn_completed_at :: datetime
  gn_checked_at :: datetime
  gn_command_at :: datetime

text \<open>Whether an observation breaks the provider's contract; comparing an aware with a naive time raises.\<close>

definition breaks_contract :: "string \<Rightarrow> string \<Rightarrow> datetime \<Rightarrow> datetime \<Rightarrow> return_observation \<Rightarrow> bool result" where
  "breaks_contract account_id provider start_at end_at r =
     (if ro_account_id r \<noteq> account_id \<or> ro_provider r \<noteq> provider then Inr True
      else if \<not> aware (ro_period_start r) then Inl (Exc TypeError ''can't compare offset-naive and offset-aware datetimes'')
      else if instant (ro_period_start r) < instant start_at then Inr True
      else if \<not> aware (ro_period_end r) then Inl (Exc TypeError ''can't compare offset-naive and offset-aware datetimes'')
      else Inr (instant end_at < instant (ro_period_end r)))"

fun any_breaks :: "('a \<Rightarrow> bool result) \<Rightarrow> 'a list \<Rightarrow> bool result" where
  "any_breaks f [] = Inr False"
| "any_breaks f (x # xs) = bind_result (f x) (\<lambda>b. if b then Inr True else any_breaks f xs)"

fun append_all :: "return_observation list \<Rightarrow> (return_store, unit) operation" where
  "append_all [] s = (Inr (), s)"
| "append_all (r # rs) s = bind_method (append_return r) (\<lambda>_. append_all rs) s"

definition on_store :: "(return_store, 'a) operation \<Rightarrow> ('p ingest_world, 'a) operation" where
  "on_store f w = (case f (iw_store w) of (r, s) \<Rightarrow> (r, w\<lparr>iw_store := s\<rparr>))"

definition ingest_rows ::
  "'p return_provider \<Rightarrow> string \<Rightarrow> datetime \<Rightarrow> datetime \<Rightarrow> retry_policy \<Rightarrow> ('p ingest_world, nat) operation" where
  "ingest_rows pv account_id start_at end_at y w =
     (case fetch_with_retry pv account_id start_at end_at y (iw_provider w, iw_slept w) of
        (r, (p, slept)) \<Rightarrow>
          let v = w\<lparr>iw_provider := p, iw_slept := slept\<rparr>
          in case r of
               Inl x \<Rightarrow> (Inl x, v)
             | Inr rows \<Rightarrow>
                 (case any_breaks (breaks_contract account_id (pv_name pv) start_at end_at) rows of
                    Inl x \<Rightarrow> (Inl x, v)
                  | Inr True \<Rightarrow> (Inl (return_error ''provider_return_history_contract_violation''), v)
                  | Inr False \<Rightarrow> bind_method (on_store (append_all rows)) (\<lambda>_ u. (Inr (length rows), u)) v))"

text \<open>A repeated run identifier raises \<open>sqlite3.IntegrityError\<close>.\<close>

definition record_run :: "ingestion_run \<Rightarrow> (return_store, unit) operation" where
  "record_run r s =
     (if ir_run_id r \<in> ir_run_id ` set (rs_runs s) then (Inl (Exc IntegrityError ''UNIQUE constraint failed''), s)
      else (Inr (), s\<lparr>rs_runs := rs_runs s @ [r]\<rparr>))"

definition record_health :: "string \<Rightarrow> datetime \<Rightarrow> bool \<Rightarrow> string option \<Rightarrow> (return_store, unit) operation" where
  "record_health provider checked_at healthy reason s =
     (let failures = (if healthy then 0 else 1 + (case provider_health_of provider s of None \<Rightarrow> 0 | Some h \<Rightarrow> ph_consecutive_failures h))
      in (Inr (), s\<lparr>rs_health := dict_set provider \<lparr>ph_checked_at = checked_at, ph_healthy = healthy, ph_reason = reason,
            ph_consecutive_failures = failures\<rparr> (rs_health s)\<rparr>))"

definition record_outcome ::
  "ingest_env \<Rightarrow> string \<Rightarrow> string \<Rightarrow> datetime \<Rightarrow> datetime \<Rightarrow> nat \<Rightarrow> string option \<Rightarrow> (return_store, unit) operation" where
  "record_outcome env provider account_id start_at end_at n failure =
     bind_method
       (record_run \<lparr>ir_run_id = gn_run_id env, ir_provider = provider, ir_account_id = account_id, ir_start_at = start_at,
          ir_end_at = end_at, ir_requested_at = gn_requested_at env, ir_completed_at = gn_completed_at env,
          ir_status = (if failure = None then RUN_SUCCEEDED else RUN_FAILED), ir_count = n, ir_error = failure\<rparr>)
       (\<lambda>_. record_health provider (gn_checked_at env) (failure = None) failure)"

definition ingest_failure :: "py_exc \<Rightarrow> py_exc" where
  "ingest_failure x =
     (if exc_class x \<in> {ReturnHistoryError, ReturnProviderTransientError} then x else return_error ''return_provider_fetch_failed'')"

definition ingest ::
  "ingest_env \<Rightarrow> 'p return_provider \<Rightarrow> string \<Rightarrow> datetime \<Rightarrow> datetime \<Rightarrow> retry_policy \<Rightarrow> ('p ingest_world, nat) operation" where
  "ingest env pv account_id start_at end_at y w =
     (if blank account_id \<or> \<not> aware start_at \<or> \<not> aware end_at \<or> instant end_at \<le> instant start_at \<or> blank (pv_name pv)
      then (Inl (return_error ''invalid_return_history_ingestion_request''), w)
      else case validate_retry_policy y of
        Inl x \<Rightarrow> (Inl x, w)
      | Inr _ \<Rightarrow>
          if \<not> aware (gn_requested_at env) then (Inl (return_error ''invalid_return_ingestion_clock''), w)
          else case ingest_rows pv account_id start_at end_at y w of
            (Inl x, v) \<Rightarrow>
              bind_method (on_store (record_outcome env (pv_name pv) account_id start_at end_at 0 (Some (exc_text x))))
                (\<lambda>_ u. (Inl (ingest_failure x), u)) v
          | (Inr n, v) \<Rightarrow>
              bind_method (on_store (record_outcome env (pv_name pv) account_id start_at end_at n None)) (\<lambda>_ u. (Inr n, u)) v)"

section \<open>The operator command\<close>

definition update_command :: "string \<Rightarrow> (ingestion_command \<Rightarrow> ingestion_command) \<Rightarrow> return_store \<Rightarrow> return_store" where
  "update_command k f s = s\<lparr>rs_commands := map (\<lambda>(j, c). (j, if j = k then f c else c)) (rs_commands s)\<rparr>"

definition run_command ::
  "ingest_env \<Rightarrow> string \<Rightarrow> command_signature \<Rightarrow> ('p ingest_world, nat) operation \<Rightarrow> ('p ingest_world, nat option) operation" where
  "run_command env key signature body w =
     (let pending = \<lparr>cm_signature = signature, cm_status = RUN_PENDING, cm_count = None, cm_error = None,
                      cm_requested_at = gn_command_at env\<rparr>
      in case body (w\<lparr>iw_store := (iw_store w)\<lparr>rs_commands := rs_commands (iw_store w) @ [(key, pending)]\<rparr>\<rparr>) of
           (Inl x, v) \<Rightarrow>
             (Inl x, v\<lparr>iw_store := update_command key (\<lambda>c. c\<lparr>cm_status := RUN_FAILED, cm_error := Some (exc_text x)\<rparr>) (iw_store v)\<rparr>)
         | (Inr n, v) \<Rightarrow>
             (Inr (Some n), v\<lparr>iw_store := update_command key (\<lambda>c. c\<lparr>cm_status := RUN_SUCCEEDED, cm_count := Some n\<rparr>) (iw_store v)\<rparr>))"

definition ingest_authorized ::
  "ingest_env \<Rightarrow> string \<Rightarrow> string \<Rightarrow> 'p return_provider \<Rightarrow> string \<Rightarrow> datetime \<Rightarrow> datetime \<Rightarrow> retry_policy \<Rightarrow>
   ('p ingest_world, nat option) operation" where
  "ingest_authorized env actor key pv account_id start_at end_at y w =
     (if blank actor \<or> blank key then (Inl (return_error ''return_ingestion_actor_and_idempotency_key_required''), w)
      else let signature = (actor, pv_name pv, account_id, start_at, end_at)
      in case dict_get (rs_commands (iw_store w)) key of
           Some c \<Rightarrow>
             if cm_signature c \<noteq> signature then (Inl (return_error ''return_ingestion_idempotency_conflict''), w)
             else if cm_status c = RUN_SUCCEEDED then (Inr (cm_count c), w)
             else (Inl (return_error (''prior_return_ingestion_failed:'' @ (case cm_error c of None \<Rightarrow> ''None'' | Some e \<Rightarrow> e))), w)
         | None \<Rightarrow> run_command env key signature (ingest env pv account_id start_at end_at y) w)"

section \<open>Counting the requests of a provider\<close>

text \<open>The same provider, which also counts the requests it gets.\<close>

definition counted_call :: "('p, 'a) operation \<Rightarrow> ('p \<times> nat, 'a) operation" where
  "counted_call f w = (case f (fst w) of (r, q) \<Rightarrow> (r, (q, Suc (snd w))))"

lemma counted_call_pair: "counted_call f (p, n) = (fst (f p), (snd (f p), Suc n))"
  by (simp add: counted_call_def split_beta)

definition counted :: "'p return_provider \<Rightarrow> ('p \<times> nat) return_provider" where
  "counted pv = \<lparr>pv_name = pv_name pv,
     pv_page = map_option (\<lambda>f a s e c. counted_call (f a s e c)) (pv_page pv),
     pv_fetch = (\<lambda>a s e. counted_call (pv_fetch pv a s e))\<rparr>"

lemma collect_pages_counted:
  "\<exists>m \<le> k. collect_pages (\<lambda>c. counted_call (fetch c)) k cursor seen rows (p, n) =
     (fst (collect_pages fetch k cursor seen rows p), (snd (collect_pages fetch k cursor seen rows p), n + m))"
proof (induction k arbitrary: cursor seen rows p n)
  case 0
  then show ?case by simp
next
  case (Suc k)
  obtain r q where f: "fetch cursor p = (r, q)" by (cases "fetch cursor p")
  show ?case
  proof (cases r)
    case (Inl x)
    then show ?thesis by (auto simp: counted_call_pair f intro!: exI [of _ 1])
  next
    case (Inr z)
    obtain page next_cursor where z: "z = (page, next_cursor)" by (cases z)
    show ?thesis
    proof (cases "\<exists>c. next_cursor = Some c \<and> c \<noteq> [] \<and> c \<notin> seen")
      case True
      then obtain c where c: "next_cursor = Some c" "c \<noteq> []" "c \<notin> seen" by blast
      from Suc.IH [of "Some c" "insert c seen" "rows @ page" q "Suc n"] obtain m where "m \<le> k" and
        "collect_pages (\<lambda>c. counted_call (fetch c)) k (Some c) (insert c seen) (rows @ page) (q, Suc n) =
         (fst (collect_pages fetch k (Some c) (insert c seen) (rows @ page) q),
          (snd (collect_pages fetch k (Some c) (insert c seen) (rows @ page) q), Suc n + m))" by blast
      then show ?thesis using c by (auto simp: counted_call_pair f Inr z intro!: exI [of _ "Suc m"])
    next
      case False
      then show ?thesis by (auto simp: counted_call_pair f Inr z split: option.splits intro!: exI [of _ 1])
    qed
  qed
qed

lemma fetch_once_counted:
  "\<exists>m \<le> 1000. fetch_once (counted pv) a s e (p, n) = (fst (fetch_once pv a s e p), (snd (fetch_once pv a s e p), n + m))"
proof (cases "pv_page pv")
  case None
  then show ?thesis by (auto simp: fetch_once_def counted_def counted_call_def split_beta intro!: exI [of _ 1])
next
  case (Some f)
  from collect_pages_counted [of 1000 "f a s e" None "{}" "[]" p n] show ?thesis
    by (simp add: fetch_once_def counted_def Some)
qed

lemma retry_loop_counted:
  assumes once: "\<And>p n. \<exists>m \<le> b. c (p, n) = (fst (f p), (snd (f p), n + m))"
  shows "\<exists>m j. m \<le> b * length ks \<and> j \<le> length ks \<and> (ks \<noteq> [] \<longrightarrow> last ks + 1 = nat (ry_maximum_attempts y) \<longrightarrow> j < length ks) \<and>
    retry_loop c y ks ((p, n), slept) =
      (fst (retry_loop f y ks (p, slept)),
       ((fst (snd (retry_loop f y ks (p, slept))), n + m), slept @ map (\<lambda>k. ry_base_delay y * 2 ^ k) (take j ks)))"
proof (induction ks arbitrary: p n slept)
  case Nil
  then show ?case by simp
next
  case (Cons k ks)
  obtain r q where f: "f p = (r, q)" by (cases "f p")
  from once [of p n] f obtain m where m: "m \<le> b" "c (p, n) = (r, (q, n + m))" by auto
  show ?case
  proof (cases "\<exists>x. r = Inl x \<and> exc_class x = ReturnProviderTransientError \<and> int k + 1 \<noteq> ry_maximum_attempts y")
    case True
    then obtain x where x: "r = Inl x" "exc_class x = ReturnProviderTransientError" "int k + 1 \<noteq> ry_maximum_attempts y" by blast
    from Cons.IH [of q "n + m" "slept @ [ry_base_delay y * 2 ^ k]"] obtain m' j where i: "m' \<le> b * length ks" "j \<le> length ks"
      "ks \<noteq> [] \<longrightarrow> last ks + 1 = nat (ry_maximum_attempts y) \<longrightarrow> j < length ks"
      "retry_loop c y ks ((q, n + m), slept @ [ry_base_delay y * 2 ^ k]) =
        (fst (retry_loop f y ks (q, slept @ [ry_base_delay y * 2 ^ k])),
         ((fst (snd (retry_loop f y ks (q, slept @ [ry_base_delay y * 2 ^ k]))), n + m + m'),
          (slept @ [ry_base_delay y * 2 ^ k]) @ map (\<lambda>k. ry_base_delay y * 2 ^ k) (take j ks)))" by blast
    have "last (k # ks) + 1 = nat (ry_maximum_attempts y) \<longrightarrow> Suc j < length (k # ks)"
      using i(3) x(3) by (cases ks) auto
    then show ?thesis
      using i(1,2,4) m x f by (intro exI [of _ "m + m'"] exI [of _ "Suc j"]) (auto simp: add.assoc)
  next
    case False
    then have "retry_loop c y (k # ks) ((p, n), slept) = (r, ((q, n + m), slept))"
      "retry_loop f y (k # ks) (p, slept) = (r, (q, slept))"
      using m f by (auto split: sum.splits)
    then show ?thesis using m(1) by (intro exI [of _ m] exI [of _ 0]) (auto intro: order_trans [OF m(1)])
  qed
qed

text \<open>The loop is left by a return or by the provider's own exception.\<close>

lemma retry_loop_returns:
  assumes "\<And>p x q. f p = (Inl x, q) \<Longrightarrow> exc_class x \<noteq> AssertionError" "ks \<noteq> []" "int (last ks) + 1 = ry_maximum_attempts y"
  shows "fst (retry_loop f y ks w) \<noteq> Inl (Exc AssertionError m)"
  using assms(2,3)
proof (induction ks arbitrary: w)
  case (Cons k ks)
  obtain p slept where w: "w = (p, slept)" by (cases w)
  obtain r q where f: "f p = (r, q)" by (cases "f p")
  show ?case
  proof (cases "\<exists>x. r = Inl x \<and> exc_class x = ReturnProviderTransientError \<and> int k + 1 \<noteq> ry_maximum_attempts y")
    case True
    then have "ks \<noteq> []" "int (last ks) + 1 = ry_maximum_attempts y" using Cons.prems by (auto split: if_splits)
    from Cons.IH [OF this] True show ?thesis by (auto simp: w f)
  next
    case False
    then show ?thesis using assms(1) [of p _ q] f by (auto simp: w split: sum.splits)
  qed
qed simp

section \<open>What ingestion leaves of the commands\<close>

lemma append_return_commands [simp]: "rs_commands (snd (append_return r s)) = rs_commands s"
  by (auto simp: append_return_def split: sum.splits)

lemma append_all_commands [simp]: "rs_commands (snd (append_all rs s)) = rs_commands s"
  by (induction rs arbitrary: s) (simp_all add: bind_method_fst split: sum.splits)

lemma record_outcome_commands [simp]:
  "rs_commands (snd (record_outcome env provider account_id start_at end_at n failure s)) = rs_commands s"
  by (simp add: record_outcome_def bind_method_fst record_run_def record_health_def Let_def split: sum.splits)

lemma on_store_world [simp]: "iw_store (snd (on_store f w)) = snd (f (iw_store w))" "fst (on_store f w) = fst (f (iw_store w))"
  by (simp_all add: on_store_def split_beta)

lemma ingest_rows_commands: "rs_commands (iw_store (snd (ingest_rows pv a s e y w))) = rs_commands (iw_store w)"
  by (simp add: ingest_rows_def bind_method_fst Let_def split: prod.splits sum.splits bool.splits)

lemma ingest_commands: "rs_commands (iw_store (snd (ingest env pv a s e y w))) = rs_commands (iw_store w)"
proof -
  obtain r v where i: "ingest_rows pv a s e y w = (r, v)" by (cases "ingest_rows pv a s e y w")
  with ingest_rows_commands [of pv a s e y w] have "rs_commands (iw_store v) = rs_commands (iw_store w)" by simp
  then show ?thesis by (simp add: ingest_def i bind_method_fst split: sum.splits)
qed

lemma update_command_get:
  "dict_get (rs_commands (update_command k f s)) j = map_option (\<lambda>c. if j = k then f c else c) (dict_get (rs_commands s) j)"
proof -
  have "map_of (map (\<lambda>(i, c). (i, if i = k then f c else c)) xs) j = map_option (\<lambda>c. if j = k then f c else c) (map_of xs j)" for xs
    by (induction xs) auto
  then show ?thesis by (simp add: update_command_def)
qed

definition command_at :: "string \<Rightarrow> 'p ingest_world \<Rightarrow> ingestion_command option" where
  "command_at k w = dict_get (rs_commands (iw_store w)) k"

definition settled :: "command_signature \<Rightarrow> datetime \<Rightarrow> nat option result \<Rightarrow> ingestion_command" where
  "settled g t r =
     (case r of
        Inl x \<Rightarrow> \<lparr>cm_signature = g, cm_status = RUN_FAILED, cm_count = None, cm_error = Some (exc_text x), cm_requested_at = t\<rparr>
      | Inr n \<Rightarrow> \<lparr>cm_signature = g, cm_status = RUN_SUCCEEDED, cm_count = n, cm_error = None, cm_requested_at = t\<rparr>)"

lemma run_command_at:
  assumes "command_at key w = None" "\<And>v. rs_commands (iw_store (snd (body v))) = rs_commands (iw_store v)"
  shows "command_at j (snd (run_command env key g body w)) =
    (if j = key then Some (settled g (gn_command_at env) (fst (run_command env key g body w))) else command_at j w)"
proof -
  let ?c = "\<lparr>cm_signature = g, cm_status = RUN_PENDING, cm_count = None, cm_error = None, cm_requested_at = gn_command_at env\<rparr>"
  let ?w = "w\<lparr>iw_store := (iw_store w)\<lparr>rs_commands := rs_commands (iw_store w) @ [(key, ?c)]\<rparr>\<rparr>"
  obtain r v where b: "body ?w = (r, v)" by (cases "body ?w")
  have c: "rs_commands (iw_store v) = rs_commands (iw_store w) @ [(key, ?c)]" using assms(2) [of ?w] b by simp
  have get: "dict_get (rs_commands (iw_store v)) j = (if j = key then Some ?c else command_at j w)"
    unfolding c using assms(1) by (auto simp: command_at_def map_add_def split: option.splits)
  show ?thesis
    using get by (cases r) (simp_all add: run_command_def Let_def b command_at_def update_command_get settled_def option.map_ident)
qed

section \<open>Runs\<close>

datatype 'p return_call =
    AppendReturn return_observation
  | SetCadence ingestion_cadence
  | RunIngest ingest_env "'p return_provider" string datetime datetime retry_policy
  | RunCommand ingest_env string string "'p return_provider" string datetime datetime retry_policy

fun return_perform :: "'p return_call \<Rightarrow> 'p ingest_world \<Rightarrow> 'p ingest_world" where
  "return_perform (AppendReturn r) w = snd (on_store (append_return r) w)"
| "return_perform (SetCadence c) w = snd (on_store (set_ingestion_cadence c) w)"
| "return_perform (RunIngest env pv a s e y) w = snd (ingest env pv a s e y w)"
| "return_perform (RunCommand env actor key pv a s e y) w = snd (ingest_authorized env actor key pv a s e y w)"

lemma command_kept: "command_at k w = Some c \<Longrightarrow> command_at k (return_perform x w) = Some c"
proof (cases x)
  case (RunCommand env actor key pv a s e y)
  assume k: "command_at k w = Some c"
  show ?thesis
  proof (cases "blank actor \<or> blank key \<or> command_at key w \<noteq> None")
    case True
    then have "snd (ingest_authorized env actor key pv a s e y w) = w"
      by (auto simp: ingest_authorized_def command_at_def Let_def)
    then show ?thesis using k RunCommand by simp
  next
    case False
    then have i: "ingest_authorized env actor key pv a s e y w = run_command env key (actor, pv_name pv, a, s, e) (ingest env pv a s e y) w"
      by (simp add: ingest_authorized_def command_at_def)
    have "command_at key w = None" "k \<noteq> key" using False k by auto
    then show ?thesis
      using k RunCommand run_command_at [where body = "ingest env pv a s e y", OF _ ingest_commands, of key w k env] by (simp add: i)
  qed
qed (simp_all add: command_at_def set_ingestion_cadence_def ingest_commands split: sum.splits)

lemma command_kept_run: "command_at k w = Some c \<Longrightarrow> command_at k (fold return_perform xs w) = Some c"
  by (induction xs arbitrary: w) (simp_all add: command_kept)

section \<open>Properties\<close>

text \<open>
  C38: fetching from a provider always ends: whatever the provider answers, it is asked at most a thousand pages
  per attempt, the delays slept are an exponential sequence of fewer than the allowed attempts, and the result is
  the provider's rows or an exception other than the one behind the loop (unless the provider raises that itself).
\<close>

theorem ingestion_fetch_terminates:
  assumes "validate_retry_policy y = Inr ()"
  shows "\<exists>n j. n \<le> 1000 * nat (ry_maximum_attempts y) \<and> j < nat (ry_maximum_attempts y) \<and>
    fetch_with_retry (counted pv) a s e y ((p, 0), []) =
      (fst (fetch_with_retry pv a s e y (p, [])),
       ((fst (snd (fetch_with_retry pv a s e y (p, []))), n), map (\<lambda>k. ry_base_delay y * 2 ^ k) [0 ..< j])) \<and>
    ((\<forall>q x. fst (fetch_once pv a s e q) = Inl x \<longrightarrow> exc_class x \<noteq> AssertionError) \<longrightarrow>
       fst (fetch_with_retry pv a s e y (p, [])) \<noteq> Inl (Exc AssertionError m))"
proof -
  let ?N = "nat (ry_maximum_attempts y)" and ?f = "fetch_once pv a s e"
  have N: "0 < ?N" using assms by (auto simp: validate_retry_policy_def split: if_splits)
  have l: "[0 ..< ?N] \<noteq> []" "last [0 ..< ?N] + 1 = ?N" "int (last [0 ..< ?N]) + 1 = ry_maximum_attempts y" using N by auto
  from retry_loop_counted [where f = ?f and c = "fetch_once (counted pv) a s e" and b = 1000 and y = y and ks = "[0 ..< ?N]" and
      p = p and n = 0 and slept = "[]"] fetch_once_counted [of pv a s e]
  obtain n j where nj: "n \<le> 1000 * ?N" "j < ?N"
    "retry_loop (fetch_once (counted pv) a s e) y [0 ..< ?N] ((p, 0), []) =
      (fst (retry_loop ?f y [0 ..< ?N] (p, [])),
       ((fst (snd (retry_loop ?f y [0 ..< ?N] (p, []))), n), map (\<lambda>k. ry_base_delay y * 2 ^ k) (take j [0 ..< ?N])))"
    using l by auto
  have r: "fst (retry_loop ?f y [0 ..< ?N] (p, [])) \<noteq> Inl (Exc AssertionError m)"
    if "\<forall>q x. fst (?f q) = Inl x \<longrightarrow> exc_class x \<noteq> AssertionError"
    by (rule retry_loop_returns [OF _ l(1,3)]) (use that in \<open>metis fst_conv\<close>)
  show ?thesis using nj r by (intro exI [of _ n] exI [of _ j]) (simp add: fetch_with_retry_def take_upt)
qed

text \<open>
  An operator command runs once: after a command under a fresh key, whatever happens afterwards, the same
  command returns the recorded count (or raises the recorded failure) and touches nothing, and the key is refused
  for any other command.
\<close>

theorem return_command_replays:
  assumes "\<not> blank actor" "\<not> blank key" "command_at key w = None" "ingest_authorized env actor key pv a s e y w = (r, w1)"
    "w2 = fold return_perform cs w1" "pv_name pv' = pv_name pv"
  shows "ingest_authorized env' actor key pv' a s e y' w2 =
      (case r of Inr n \<Rightarrow> Inr n | Inl x \<Rightarrow> Inl (return_error (''prior_return_ingestion_failed:'' @ exc_text x)), w2) \<and>
    (\<not> blank b \<and> (b, pv_name pv2, a2, s2, e2) \<noteq> (actor, pv_name pv, a, s, e) \<longrightarrow>
      ingest_authorized env' b key pv2 a2 s2 e2 y' w2 = (Inl (return_error ''return_ingestion_idempotency_conflict''), w2))"
proof -
  have i: "ingest_authorized env actor key pv a s e y w = run_command env key (actor, pv_name pv, a, s, e) (ingest env pv a s e y) w"
    using assms(1-3) by (simp add: ingest_authorized_def command_at_def)
  have "command_at key w1 = Some (settled (actor, pv_name pv, a, s, e) (gn_command_at env) r)"
    using run_command_at [where body = "ingest env pv a s e y", OF assms(3) ingest_commands, of key env "(actor, pv_name pv, a, s, e)"] assms(4) i by simp
  then have "command_at key w2 = Some (settled (actor, pv_name pv, a, s, e) (gn_command_at env) r)"
    unfolding assms(5) by (rule command_kept_run)
  then show ?thesis
    using assms(1,2,6) by (cases r) (auto simp: ingest_authorized_def command_at_def settled_def)
qed

section \<open>Overlapping ingestions\<close>

lemma append_all_duplicate:
  "r \<in> set rows \<Longrightarrow> q \<in> set (rs_observations s) \<Longrightarrow> duplicate_return r q \<Longrightarrow> \<exists>x. fst (append_all rows s) = Inl x"
proof (induction rows arbitrary: s)
  case (Cons a rows)
  show ?case
  proof (cases "fst (append_return a s)")
    case (Inl x)
    then show ?thesis by (simp add: bind_method_fst)
  next
    case (Inr u)
    then have ok: "append_return a s = (Inr (), s\<lparr>rs_observations := rs_observations s @ [a]\<rparr>)" "\<not> duplicate_return a q"
      using Cons.prems(2) by (auto simp: append_return_def split: sum.splits if_splits)
    then have "r \<in> set rows" using Cons.prems by auto
    from Cons.IH [OF this _ Cons.prems(3), of "s\<lparr>rs_observations := rs_observations s @ [a]\<rparr>"] Cons.prems(2) ok(1)
    show ?thesis by (simp add: bind_method_fst)
  qed
qed simp

lemma ingest_fails:
  assumes "fst (ingest_rows pv a s e y w) = Inl x"
  shows "\<exists>z. fst (ingest env pv a s e y w) = Inl z"
proof -
  obtain v where "ingest_rows pv a s e y w = (Inl x, v)" using assms by (cases "ingest_rows pv a s e y w") auto
  then show ?thesis by (simp add: ingest_def bind_method_fst split: sum.splits)
qed

text \<open>
  An overlapping ingestion never succeeds: if the provider's answer repeats one stored observation, the
  ingestion fails, so what a failed ingestion stored before its failure blocks every later attempt at the same
  period.
\<close>

theorem overlapping_ingestion_fails:
  assumes "fst (fetch_with_retry pv a s e y (iw_provider w, iw_slept w)) = Inr rows" "r \<in> set rows"
    "q \<in> set (rs_observations (iw_store w))" "duplicate_return r q"
  shows "\<exists>x. fst (ingest env pv a s e y w) = Inl x"
proof -
  obtain p slept where f: "fetch_with_retry pv a s e y (iw_provider w, iw_slept w) = (Inr rows, (p, slept))"
    using assms(1) by (metis prod.collapse)
  obtain x where x: "fst (append_all rows (iw_store w)) = Inl x" using append_all_duplicate [OF assms(2-4)] by blast
  have "\<exists>z. fst (ingest_rows pv a s e y w) = Inl z"
    by (simp add: ingest_rows_def f Let_def bind_method_fst x split: sum.splits bool.splits)
  then show ?thesis using ingest_fails by blast
qed

section \<open>Witnesses\<close>

text \<open>A provider that fails once for want of the network and then answers one row; its state counts the calls.\<close>

definition sample_provider :: "nat return_provider" where
  "sample_provider = \<lparr>pv_name = ''p'', pv_page = None,
     pv_fetch = (\<lambda>a s e n. (if n = 0 then Inl (Exc ReturnProviderTransientError ''503'') else Inr [sample_return], Suc n))\<rparr>"

definition sample_retry :: retry_policy where
  "sample_retry = \<lparr>ry_maximum_attempts = 3, ry_base_delay = 1000000\<rparr>"

definition ingest_sample_env :: ingest_env where
  "ingest_sample_env = \<lparr>gn_run_id = 7, gn_requested_at = Aware 20 0, gn_completed_at = Aware 21 0, gn_checked_at = Aware 22 0, gn_command_at = Aware 19 0\<rparr>"

definition sample_world :: "nat ingest_world" where
  "sample_world = \<lparr>iw_provider = 0, iw_slept = [], iw_store = empty_returns\<rparr>"

lemma sample_fetch: "fetch_with_retry sample_provider ''A'' (Aware 0 0) (Aware 5 0) sample_retry (0, slept) = (Inr [sample_return], (2, slept @ [1000000]))"
  by (simp add: fetch_with_retry_def sample_retry_def sample_provider_def fetch_once_def upt_rec)

lemma sample_retry_valid: "validate_retry_policy sample_retry = Inr ()"
  by (simp add: validate_retry_policy_def sample_retry_def)

lemma sample_retry_fields: "ry_maximum_attempts sample_retry = 3" "ry_base_delay sample_retry = 1000000"
  by (simp_all add: sample_retry_def)

lemma sample_provider_name: "pv_name sample_provider = ''p''"
  by (simp add: sample_provider_def)

theorem ingestion_fetch_terminates_witness:
  "\<exists>n j. n \<le> 3000 \<and> j < 3 \<and>
    snd (fetch_with_retry (counted sample_provider) ''A'' (Aware 0 0) (Aware 5 0) sample_retry ((0, 0), [])) =
      ((2, n), map (\<lambda>k. 1000000 * 2 ^ k) [0 ..< j])"
proof -
  obtain n j where "n \<le> 3000" "j < 3"
    "fetch_with_retry (counted sample_provider) ''A'' (Aware 0 0) (Aware 5 0) sample_retry ((0, 0), []) =
      (Inr [sample_return], ((2, n), map (\<lambda>k. 1000000 * 2 ^ k) [0 ..< j]))"
    using ingestion_fetch_terminates [OF sample_retry_valid, of sample_provider "''A''" "Aware 0 0" "Aware 5 0" 0 "[]"]
    by (auto simp: sample_fetch sample_retry_fields)
  then show ?thesis by (intro exI [of _ n] exI [of _ j]) simp
qed

theorem return_command_replays_witness:
  "\<exists>w1. ingest_authorized ingest_sample_env ''op'' ''k1'' sample_provider ''A'' (Aware 0 0) (Aware 5 0) sample_retry sample_world = (Inr (Some 1), w1) \<and>
    ingest_authorized ingest_sample_env ''op'' ''k1'' sample_provider ''A'' (Aware 0 0) (Aware 5 0) sample_retry w1 = (Inr (Some 1), w1)"
proof -
  obtain w1 where run: "ingest_authorized ingest_sample_env ''op'' ''k1'' sample_provider ''A'' (Aware 0 0) (Aware 5 0) sample_retry sample_world =
      (Inr (Some 1), w1)"
    by (simp add: ingest_authorized_def run_command_def Let_def sample_world_def empty_returns_def ingest_def blank_iff is_space_def
        sample_retry_valid ingest_rows_def sample_fetch breaks_contract_def bind_method_def on_store_def append_return_def
        validate_return_def record_outcome_def record_run_def record_health_def provider_health_of_def ingest_sample_env_def
        sample_provider_name sample_return_def dec_order dec_eval)
  have fresh: "command_at ''k1'' sample_world = None" by (simp add: command_at_def sample_world_def empty_returns_def)
  have nb: "\<not> blank ''op''" "\<not> blank ''k1''" by (simp_all add: blank_iff is_space_def)
  have "w1 = fold return_perform [] w1" by simp
  from return_command_replays [OF nb fresh run this refl, THEN conjunct1, of ingest_sample_env sample_retry] run
  show ?thesis by (intro exI [of _ w1]) simp
qed

theorem overlapping_ingestion_fails_witness:
  "\<exists>x. fst (ingest ingest_sample_env sample_provider ''A'' (Aware 0 0) (Aware 5 0) sample_retry
     (sample_world\<lparr>iw_store := empty_returns\<lparr>rs_observations := [sample_return]\<rparr>\<rparr>)) = Inl x"
  by (rule overlapping_ingestion_fails [where rows = "[sample_return]" and r = sample_return and q = sample_return])
     (simp_all add: sample_world_def sample_fetch duplicate_return_def)

end
