(* ===== verification/PortfolioEvidence.thy ===== *)
theory PortfolioEvidence
  imports MarketEvidence Instruments PaperOms
begin

text \<open>
  \<open>portfolio_evidence.py\<close> and \<open>portfolio_context.py\<close>: account and position snapshots bound to complete
  reconciliations of the order management store, and the exposures and portfolio state a decision derives from
  them.
\<close>

abbreviation portfolio_error :: "string \<Rightarrow> py_exc" where
  "portfolio_error m \<equiv> Exc PortfolioEvidenceError m"

section \<open>Snapshots\<close>

record account_evidence =
  av_evidence_id :: uuid
  av_reconciliation_id :: uuid
  av_snapshot :: broker_account_snapshot
  av_healthy :: bool
  av_ingested_at :: datetime

record position_evidence =
  pv_snapshot_id :: uuid
  pv_reconciliation_id :: uuid
  pv_account_id :: string
  pv_source :: string
  pv_positions :: "(string, position) dict"
  pv_as_of :: datetime
  pv_ingested_at :: datetime

text \<open>\<open>f"{source}:{id}"\<close>\<close>

definition exposure_reference :: "string \<Rightarrow> uuid \<Rightarrow> string" where
  "exposure_reference source i = source @ '':'' @ uuid_str i"

definition account_exposure_reference :: "account_evidence \<Rightarrow> string" where
  "account_exposure_reference e = exposure_reference (bas_source (av_snapshot e)) (av_evidence_id e)"

definition misfiled :: "(string, position) dict \<Rightarrow> bool" where
  "misfiled ps \<longleftrightarrow> (\<exists>(k, p) \<in> set ps. blank k \<or> pos_instrument_id p \<noteq> k)"

definition validate_account_evidence :: "account_evidence \<Rightarrow> unit result" where
  "validate_account_evidence e =
     (let s = av_snapshot e in
      if blank (bas_account_id s) \<or> blank (bas_source s) \<or> \<not> aware (bas_as_of s) \<or> \<not> aware (av_ingested_at e) \<or>
         instant (av_ingested_at e) < instant (bas_as_of s) \<or> bas_buying_power s < 0
      then Inl (portfolio_error ''invalid_reconciled_account_snapshot'')
      else if misfiled (bas_positions s) then Inl (portfolio_error ''invalid_reconciled_account_snapshot'') else Inr ())"

definition validate_position_evidence :: "position_evidence \<Rightarrow> unit result" where
  "validate_position_evidence e =
     (if blank (pv_account_id e) \<or> blank (pv_source e) \<or> \<not> aware (pv_as_of e) \<or> \<not> aware (pv_ingested_at e) \<or>
         instant (pv_ingested_at e) < instant (pv_as_of e)
      then Inl (portfolio_error ''invalid_reconciled_position_snapshot'')
      else if misfiled (pv_positions e) then Inl (portfolio_error ''invalid_reconciled_position_snapshot'') else Inr ())"

definition account_portfolio_state :: "string \<Rightarrow> (string, position) dict \<Rightarrow> portfolio_state" where
  "account_portfolio_state account_id ps =
     \<lparr>ps_account_id = account_id, ps_position_notionals = position_notionals ps, ps_reconciliation_complete = True,
      ps_risk_increase_allowed = True\<rparr>"

section \<open>Appending evidence\<close>

text \<open>Aware times compare by instant; an aware and a naive time are different.\<close>

definition same_time :: "datetime \<Rightarrow> datetime \<Rightarrow> bool" where
  "same_time a b \<longleftrightarrow> aware a = aware b \<and> instant a = instant b"

definition bound_to :: "recorded_reconciliation \<Rightarrow> string \<Rightarrow> string \<Rightarrow> datetime \<Rightarrow> bool" where
  "bound_to r account_id source as_of \<longleftrightarrow>
     rec_complete r \<and> rec_account_id r = account_id \<and> rec_source r = source \<and> same_time (rec_occurred_at r) as_of"

text \<open>Positions are stored as a JSON object with sorted keys and read back under their key.\<close>

definition stored_positions :: "(string, position) dict \<Rightarrow> (string, position) dict" where
  "stored_positions ps = map (\<lambda>(k, p). (k, p\<lparr>pos_instrument_id := k\<rparr>)) (sort_key fst ps)"

definition append_account_evidence :: "account_evidence \<Rightarrow> oms \<Rightarrow> (account_evidence list, unit) operation" where
  "append_account_evidence e s rows =
     (case validate_account_evidence e of
        Inl x \<Rightarrow> (Inl x, rows)
      | Inr _ \<Rightarrow>
          (case oms_reconciliation (av_reconciliation_id e) s of
             Inl _ \<Rightarrow> (Inl (portfolio_error ''unknown_reconciliation_evidence''), rows)
           | Inr r \<Rightarrow>
               let a = av_snapshot e in
               if \<not> bound_to r (bas_account_id a) (bas_source a) (bas_as_of a)
               then (Inl (portfolio_error ''account_snapshot_not_bound_to_complete_reconciliation''), rows)
               else if \<exists>q \<in> set rows. av_evidence_id q = av_evidence_id e \<or> av_reconciliation_id q = av_reconciliation_id e
               then (Inl (portfolio_error ''duplicate_reconciled_account_snapshot''), rows)
               else (Inr (), rows @ [e\<lparr>av_snapshot := a\<lparr>bas_positions := stored_positions (bas_positions a)\<rparr>\<rparr>])))"

definition append_position_evidence :: "position_evidence \<Rightarrow> oms \<Rightarrow> (position_evidence list, unit) operation" where
  "append_position_evidence e s rows =
     (case validate_position_evidence e of
        Inl x \<Rightarrow> (Inl x, rows)
      | Inr _ \<Rightarrow>
          (case oms_reconciliation (pv_reconciliation_id e) s of
             Inl _ \<Rightarrow> (Inl (portfolio_error ''unknown_reconciliation_evidence''), rows)
           | Inr r \<Rightarrow>
               if \<not> bound_to r (pv_account_id e) (pv_source e) (pv_as_of e)
               then (Inl (portfolio_error ''position_snapshot_not_bound_to_complete_reconciliation''), rows)
               else if \<exists>q \<in> set rows. pv_snapshot_id q = pv_snapshot_id e \<or> pv_reconciliation_id q = pv_reconciliation_id e
               then (Inl (portfolio_error ''duplicate_reconciled_position_snapshot''), rows)
               else (Inr (), rows @ [e\<lparr>pv_positions := stored_positions (pv_positions e)\<rparr>])))"

definition known_account_evidence :: "string \<Rightarrow> datetime \<Rightarrow> account_evidence list \<Rightarrow> account_evidence option" where
  "known_account_evidence account_id t rows =
     newest_as_of (\<lambda>e. bas_as_of (av_snapshot e)) av_ingested_at (\<lambda>e. bas_account_id (av_snapshot e) = account_id) t rows"

definition known_position_evidence :: "string \<Rightarrow> datetime \<Rightarrow> position_evidence list \<Rightarrow> position_evidence option" where
  "known_position_evidence account_id t rows = newest_as_of pv_as_of pv_ingested_at (\<lambda>e. pv_account_id e = account_id) t rows"

text \<open>The two sources of account evidence: its own table, or the table the order management store writes.\<close>

datatype account_source = StoredAccounts "account_evidence list" | OmsAccounts oms

definition evidence_of_record :: "recorded_account \<Rightarrow> account_evidence" where
  "evidence_of_record r =
     \<lparr>av_evidence_id = ra_evidence_id r, av_reconciliation_id = ra_reconciliation_id r, av_snapshot = ra_snapshot r,
      av_healthy = ra_healthy r, av_ingested_at = ra_ingested_at r\<rparr>"

definition stored_latest_account :: "string \<Rightarrow> datetime \<Rightarrow> account_evidence list \<Rightarrow> account_evidence result" where
  "stored_latest_account account_id t rows =
     (if \<not> aware t then Inl (portfolio_error ''portfolio_decision_time_must_be_timezone_aware'')
      else case known_account_evidence account_id t rows of
        None \<Rightarrow> Inl (portfolio_error ''reconciled_account_unavailable_as_of'') | Some e \<Rightarrow> Inr e)"

definition oms_latest_evidence :: "string \<Rightarrow> datetime \<Rightarrow> oms \<Rightarrow> account_evidence result" where
  "oms_latest_evidence account_id t s =
     (case oms_latest_account account_id t s of
        Inr (Some r) \<Rightarrow> Inr (evidence_of_record r)
      | _ \<Rightarrow> Inl (portfolio_error ''reconciled_account_unavailable_as_of''))"

fun latest_account :: "string \<Rightarrow> datetime \<Rightarrow> account_source \<Rightarrow> account_evidence result" where
  "latest_account account_id t (StoredAccounts rows) = stored_latest_account account_id t rows"
| "latest_account account_id t (OmsAccounts s) = oms_latest_evidence account_id t s"

definition latest_positions :: "string \<Rightarrow> datetime \<Rightarrow> position_evidence list \<Rightarrow> position_evidence result" where
  "latest_positions account_id t rows =
     (if \<not> aware t then Inl (portfolio_error ''portfolio_decision_time_must_be_timezone_aware'')
      else case known_position_evidence account_id t rows of
        None \<Rightarrow> Inl (portfolio_error ''reconciled_positions_unavailable_as_of'') | Some e \<Rightarrow> Inr e)"

definition portfolio_state_as_of :: "string \<Rightarrow> datetime \<Rightarrow> account_source \<Rightarrow> portfolio_state result" where
  "portfolio_state_as_of account_id t src =
     bind_result (latest_account account_id t src)
       (\<lambda>e. Inr (account_portfolio_state (bas_account_id (av_snapshot e)) (bas_positions (av_snapshot e))))"

section \<open>Projected exposures\<close>

definition order_quantity :: "order_intent \<Rightarrow> decimal" where
  "order_quantity i = (if oi_side i = BUY then oi_quantity i else - oi_quantity i)"

text \<open>The non-zero positions with the order added to its instrument.\<close>

definition projected_quantities :: "(string, position) dict \<Rightarrow> order_intent \<Rightarrow> (string, decimal) dict" where
  "projected_quantities ps i =
     (let held = map (\<lambda>(k, p). (k, pos_quantity p)) (filter (\<lambda>(_, p). \<not> deq (pos_quantity p) 0) ps)
      in dict_set (oi_instrument_id i) (dict_get_or held (oi_instrument_id i) (Dec 0 0) + order_quantity i) held)"

definition existing_quantity :: "(string, position) dict \<Rightarrow> string \<Rightarrow> decimal" where
  "existing_quantity ps k = (case dict_get ps k of None \<Rightarrow> Dec 0 0 | Some p \<Rightarrow> pos_quantity p)"

definition projected_exposure_notional :: "(string, position) dict \<Rightarrow> order_intent \<Rightarrow> string \<Rightarrow> quote \<Rightarrow> decimal" where
  "projected_exposure_notional ps i k q =
     existing_quantity ps k * q_last q +
     (if k = oi_instrument_id i then order_quantity i * (if oi_side i = BUY then q_ask q else q_bid q) else Dec 0 0)"

fun asset_class_value :: "asset_class \<Rightarrow> string" where
  "asset_class_value EQUITY = ''EQUITY''"
| "asset_class_value ETF = ''ETF''"
| "asset_class_value FOREX = ''FOREX''"
| "asset_class_value COMMODITY = ''COMMODITY''"
| "asset_class_value CRYPTO = ''CRYPTO''"

text \<open>\<open>PortfolioExposure\<close> with its default fields: the instrument and the quote alone.\<close>

definition plain_exposure ::
  "string \<Rightarrow> (string, position) dict \<Rightarrow> order_intent \<Rightarrow> datetime \<Rightarrow> instrument_store \<Rightarrow> quote list \<Rightarrow> string \<Rightarrow>
   portfolio_exposure result" where
  "plain_exposure source ps i t instruments quotes k =
     bind_result (get_instrument k instruments) (\<lambda>ins.
     bind_result (quote_latest k t quotes) (\<lambda>q. Inr
       \<lparr>pe_instrument_id = k, pe_notional = projected_exposure_notional ps i k q,
        pe_asset_class = asset_class_value (ins_asset_class ins), pe_sector = [], pe_country = [],
        pe_currency = ins_quote_currency ins, pe_broker = source, pe_exchange = ins_venue ins, pe_correlation_cluster = [],
        pe_beta = Dec 0 0, pe_duration = Dec 0 0, pe_factors = []\<rparr>))"

text \<open>The exposure of the view over the order management store: also the risk profile.\<close>

definition profiled_exposure ::
  "string \<Rightarrow> (string, position) dict \<Rightarrow> order_intent \<Rightarrow> datetime \<Rightarrow> instrument_store \<Rightarrow> quote list \<Rightarrow> string \<Rightarrow>
   portfolio_exposure result" where
  "profiled_exposure source ps i t instruments quotes k =
     bind_result (get_instrument k instruments) (\<lambda>ins.
     bind_result (risk_profile_as_of k t instruments) (\<lambda>p.
     bind_result (quote_latest k t quotes) (\<lambda>q. Inr
       \<lparr>pe_instrument_id = k, pe_notional = projected_exposure_notional ps i k q,
        pe_asset_class = asset_class_value (ins_asset_class ins), pe_sector = ip_sector p, pe_country = ip_country p,
        pe_currency = ins_quote_currency ins, pe_broker = source, pe_exchange = ins_venue ins,
        pe_correlation_cluster = ip_correlation_cluster p, pe_beta = ip_beta p, pe_duration = ip_duration p,
        pe_factors = ip_factors p\<rparr>)))"

fun exposure_rows :: "(string \<Rightarrow> portfolio_exposure result) \<Rightarrow> (string \<times> decimal) list \<Rightarrow> portfolio_exposure list result" where
  "exposure_rows f [] = Inr []"
| "exposure_rows f ((k, q) # rest) =
     (if deq q 0 then exposure_rows f rest
      else bind_result (f k) (\<lambda>x. bind_result (exposure_rows f rest) (\<lambda>xs. Inr (x # xs))))"

text \<open>\<open>except (KeyError, QuoteDataError)\<close>\<close>

definition unavailable_exposures :: "'a result \<Rightarrow> 'a result" where
  "unavailable_exposures r =
     (case r of
        Inl x \<Rightarrow> if is_key_error x \<or> exc_class x = QuoteDataError
                 then Inl (portfolio_error ''projected_exposure_market_or_instrument_evidence_unavailable'') else Inl x
      | Inr v \<Rightarrow> Inr v)"

definition exposures_after ::
  "(string \<Rightarrow> portfolio_exposure result) \<Rightarrow> (string, position) dict \<Rightarrow> order_intent \<Rightarrow> portfolio_exposure list result" where
  "exposures_after f ps i = unavailable_exposures (exposure_rows f (sort_key fst (projected_quantities ps i)))"

definition stored_projected_exposures ::
  "string \<Rightarrow> order_intent \<Rightarrow> datetime \<Rightarrow> instrument_store \<Rightarrow> quote list \<Rightarrow> account_evidence list \<Rightarrow>
   (account_evidence \<times> portfolio_exposure list) result" where
  "stored_projected_exposures account_id i t instruments quotes rows =
     bind_result (stored_latest_account account_id t rows) (\<lambda>e.
       let a = av_snapshot e in
       if bas_account_id a \<noteq> oi_account_id i then Inl (portfolio_error ''intent_account_mismatch'')
       else bind_result (exposures_after (plain_exposure (bas_source a) (bas_positions a) i t instruments quotes) (bas_positions a) i)
              (\<lambda>xs. Inr (e, xs)))"

definition oms_projected_exposures ::
  "string \<Rightarrow> order_intent \<Rightarrow> datetime \<Rightarrow> instrument_store \<Rightarrow> quote list \<Rightarrow> oms \<Rightarrow>
   (account_evidence \<times> portfolio_exposure list) result" where
  "oms_projected_exposures account_id i t instruments quotes s =
     bind_result (oms_latest_evidence account_id t s) (\<lambda>e.
       let a = av_snapshot e in
       if bas_account_id a \<noteq> oi_account_id i then Inl (portfolio_error ''intent_account_mismatch'')
       else bind_result (exposures_after (profiled_exposure (bas_source a) (bas_positions a) i t instruments quotes) (bas_positions a) i)
              (\<lambda>xs. Inr (e, xs)))"

definition position_projected_exposures ::
  "string \<Rightarrow> order_intent \<Rightarrow> datetime \<Rightarrow> instrument_store \<Rightarrow> quote list \<Rightarrow> position_evidence list \<Rightarrow>
   (position_evidence \<times> portfolio_exposure list) result" where
  "position_projected_exposures account_id i t instruments quotes rows =
     bind_result (latest_positions account_id t rows) (\<lambda>e.
       if pv_account_id e \<noteq> oi_account_id i then Inl (portfolio_error ''intent_account_mismatch'')
       else bind_result (exposures_after (plain_exposure (pv_source e) (pv_positions e) i t instruments quotes) (pv_positions e) i)
              (\<lambda>xs. Inr (e, xs)))"

fun projected_exposures_as_of ::
  "string \<Rightarrow> order_intent \<Rightarrow> datetime \<Rightarrow> instrument_store \<Rightarrow> quote list \<Rightarrow> account_source \<Rightarrow>
   (account_evidence \<times> portfolio_exposure list) result" where
  "projected_exposures_as_of account_id i t instruments quotes (StoredAccounts rows) =
     stored_projected_exposures account_id i t instruments quotes rows"
| "projected_exposures_as_of account_id i t instruments quotes (OmsAccounts s) =
     oms_projected_exposures account_id i t instruments quotes s"

section \<open>Portfolio state from a reconciliation of the order management store\<close>

definition recent_reconciliation :: "recorded_reconciliation option \<Rightarrow> datetime \<Rightarrow> timedelta \<Rightarrow> bool" where
  "recent_reconciliation r t max_age =
     (case r of
        None \<Rightarrow> False
      | Some q \<Rightarrow> rec_complete q \<and> instant (rec_occurred_at q) \<le> instant t \<and> instant t - max_age \<le> instant (rec_occurred_at q))"

definition portfolio_state_from_oms ::
  "oms \<Rightarrow> string \<Rightarrow> (string, position) dict \<Rightarrow> timedelta \<Rightarrow> datetime \<Rightarrow> portfolio_state result" where
  "portfolio_state_from_oms s account_id ps max_age t =
     (if max_age \<le> 0 then Inl (Exc ValueError ''maximum_reconciliation_age_must_be_positive'')
      else let current = recent_reconciliation (oms_latest_reconciliation account_id s) t max_age
      in Inr \<lparr>ps_account_id = account_id, ps_position_notionals = position_notionals ps,
              ps_reconciliation_complete = current, ps_risk_increase_allowed = current\<rparr>)"

section \<open>Facts\<close>

interpretation account_evidence: point_in_time known_account_evidence "\<lambda>e rows. rows @ [e]" av_ingested_at
  by unfold_locales (auto simp: known_account_evidence_def newest_as_of_later dest: newest_as_of_Some)

interpretation position_evidence: point_in_time known_position_evidence "\<lambda>e rows. rows @ [e]" pv_ingested_at
  by unfold_locales (auto simp: known_position_evidence_def newest_as_of_later dest: newest_as_of_Some)

definition evidence_bound :: "oms list \<Rightarrow> account_evidence \<Rightarrow> bool" where
  "evidence_bound ss e \<longleftrightarrow>
     (\<exists>s \<in> set ss. \<exists>r \<in> set (om_runs s). rec_run_id r = av_reconciliation_id e \<and>
        bound_to r (bas_account_id (av_snapshot e)) (bas_source (av_snapshot e)) (bas_as_of (av_snapshot e))) \<and>
     aware (bas_as_of (av_snapshot e)) \<and> aware (av_ingested_at e) \<and>
     instant (bas_as_of (av_snapshot e)) \<le> instant (av_ingested_at e) \<and> \<not> bas_buying_power (av_snapshot e) < 0"

lemma append_account_evidence_bound:
  assumes "\<forall>q \<in> set rows. evidence_bound ss q" "s \<in> set ss"
  shows "\<forall>q \<in> set (snd (append_account_evidence e s rows)). evidence_bound ss q"
proof (cases "snd (append_account_evidence e s rows) = rows")
  case False
  then obtain r where r: "oms_reconciliation (av_reconciliation_id e) s = Inr r"
    "bound_to r (bas_account_id (av_snapshot e)) (bas_source (av_snapshot e)) (bas_as_of (av_snapshot e))"
    "validate_account_evidence e = Inr ()"
    "snd (append_account_evidence e s rows) = rows @ [e\<lparr>av_snapshot := (av_snapshot e)\<lparr>bas_positions := stored_positions (bas_positions (av_snapshot e))\<rparr>\<rparr>]"
    by (auto simp: append_account_evidence_def Let_def split: sum.splits if_splits)
  have "r \<in> set (om_runs s) \<and> rec_run_id r = av_reconciliation_id e"
    using r(1) by (auto simp: oms_reconciliation_def find_Some_iff split: option.splits)
  then show ?thesis
    using r(2-4) assms by (auto simp: evidence_bound_def validate_account_evidence_def Let_def not_less split: if_splits)
qed (use assms in simp)

lemma account_evidence_run_bound:
  "\<forall>q \<in> set rows. evidence_bound ss q \<Longrightarrow> snd ` set es \<subseteq> set ss \<Longrightarrow>
   \<forall>q \<in> set (fold (\<lambda>(e, s) rows. snd (append_account_evidence e s rows)) es rows). evidence_bound ss q"
proof (induction es arbitrary: rows)
  case (Cons x es)
  obtain e s where x: "x = (e, s)" by (cases x)
  have "\<forall>q \<in> set (snd (append_account_evidence e s rows)). evidence_bound ss q"
    using Cons.prems x by (intro append_account_evidence_bound) auto
  from Cons.IH [OF this] Cons.prems(2) x show ?case by simp
qed simp

lemma exposure_rows_Inr:
  "exposure_rows f qs = Inr xs \<Longrightarrow>
   list_all2 (\<lambda>kq x. f (fst kq) = Inr x) (filter (\<lambda>kq. \<not> deq (snd kq) 0) qs) xs"
proof (induction qs arbitrary: xs)
  case (Cons kq qs)
  obtain k q where kq: "kq = (k, q)" by (cases kq)
  show ?case
  proof (cases "deq q 0")
    case True
    then show ?thesis using Cons kq by simp
  next
    case False
    then obtain y ys where "f k = Inr y" "exposure_rows f qs = Inr ys" "xs = y # ys"
      using Cons.prems kq by (auto simp: bind_result_Inr_iff)
    then show ?thesis using Cons.IH False kq by simp
  qed
qed simp

lemma exposures_after_Inr:
  assumes "exposures_after f ps i = Inr xs" "\<And>k x. f k = Inr x \<Longrightarrow> pe_instrument_id x = k"
  shows "map pe_instrument_id xs = map fst (filter (\<lambda>kq. \<not> deq (snd kq) 0) (sort_key fst (projected_quantities ps i))) \<and>
    (\<forall>x \<in> set xs. f (pe_instrument_id x) = Inr x)"
proof -
  from assms(1) have "exposure_rows f (sort_key fst (projected_quantities ps i)) = Inr xs"
    by (auto simp: exposures_after_def unavailable_exposures_def split: sum.splits if_splits)
  from exposure_rows_Inr [OF this]
  show ?thesis
  proof (induction rule: list_all2_induct)
    case (Cons kq qs x xs)
    then show ?case using assms(2) [OF Cons(1)] by simp
  qed simp
qed

lemma projected_quantities_ok: "dict_ok ps \<Longrightarrow> dict_ok (projected_quantities ps i)"
proof -
  have "distinct (map fst (map (\<lambda>(k, p). (k, pos_quantity p)) (filter (\<lambda>(_, p). \<not> deq (pos_quantity p) 0) ps)))"
    if "dict_ok ps" using that by (simp add: dict_ok_def comp_def split_beta distinct_map_filter)
  then show "dict_ok ps \<Longrightarrow> dict_ok (projected_quantities ps i)"
    by (simp add: projected_quantities_def Let_def dict_ok_def distinct_update)
qed

text \<open>Exactly the instruments whose projected quantity is not zero, once each and in order.\<close>

lemma exposures_after_instruments:
  assumes "exposures_after f ps i = Inr xs" "\<And>k x. f k = Inr x \<Longrightarrow> pe_instrument_id x = k" "dict_ok ps"
  shows "sorted (map pe_instrument_id xs) \<and> distinct (map pe_instrument_id xs) \<and>
    pe_instrument_id ` set xs = {k. \<exists>q. dict_get (projected_quantities ps i) k = Some q \<and> \<not> deq q 0} \<and>
    (\<forall>x \<in> set xs. f (pe_instrument_id x) = Inr x)"
proof -
  let ?d = "projected_quantities ps i"
  have x: "map pe_instrument_id xs = map fst (filter (\<lambda>kq. \<not> deq (snd kq) 0) (sort_key fst ?d))"
    "\<forall>x \<in> set xs. f (pe_instrument_id x) = Inr x"
    using exposures_after_Inr [OF assms(1,2)] by simp_all
  have "sorted (map fst (sort_key fst ?d))" by simp
  then have s: "sorted (map pe_instrument_id xs)" unfolding x(1) by (rule sorted_filter)
  have "mset (map fst (sort_key fst ?d)) = mset (map fst ?d)" by simp
  then have "distinct (map fst (sort_key fst ?d))"
    using projected_quantities_ok [OF assms(3), of i] unfolding dict_ok_def by (metis mset_eq_imp_distinct_iff)
  then have d: "distinct (map pe_instrument_id xs)" unfolding x(1) by (rule distinct_map_filter)
  have "pe_instrument_id ` set xs = fst ` {kq \<in> set ?d. \<not> deq (snd kq) 0}"
    using arg_cong [OF x(1), of set] by simp
  also have "\<dots> = {k. \<exists>q. dict_get ?d k = Some q \<and> \<not> deq q 0}"
    using dict_ok_map_of [OF projected_quantities_ok [OF assms(3), of i]] by force
  finally show ?thesis using s d x(2) by simp
qed

lemma plain_exposure_Inr:
  "plain_exposure source ps i t instruments quotes k = Inr x \<Longrightarrow>
   pe_instrument_id x = k \<and> pe_broker x = source \<and>
   (\<exists>ins q. get_instrument k instruments = Inr ins \<and> quote_latest k t quotes = Inr q \<and>
      pe_notional x = projected_exposure_notional ps i k q \<and> pe_exchange x = ins_venue ins \<and> pe_currency x = ins_quote_currency ins)"
  by (auto simp: plain_exposure_def bind_result_Inr_iff)

lemma profiled_exposure_Inr:
  "profiled_exposure source ps i t instruments quotes k = Inr x \<Longrightarrow>
   pe_instrument_id x = k \<and> pe_broker x = source \<and>
   (\<exists>ins q. get_instrument k instruments = Inr ins \<and> quote_latest k t quotes = Inr q \<and>
      pe_notional x = projected_exposure_notional ps i k q \<and> pe_exchange x = ins_venue ins \<and> pe_currency x = ins_quote_currency ins)"
  by (auto simp: profiled_exposure_def bind_result_Inr_iff)

lemma projected_exposures_cases:
  assumes "projected_exposures_as_of account_id i t instruments quotes src = Inr (e, xs)"
  obtains f where "latest_account account_id t src = Inr e" "bas_account_id (av_snapshot e) = oi_account_id i"
    "f = plain_exposure (bas_source (av_snapshot e)) (bas_positions (av_snapshot e)) i t instruments quotes \<or>
     f = profiled_exposure (bas_source (av_snapshot e)) (bas_positions (av_snapshot e)) i t instruments quotes"
    "exposures_after f (bas_positions (av_snapshot e)) i = Inr xs"
  using assms
  by (cases src) (auto simp: stored_projected_exposures_def oms_projected_exposures_def bind_result_Inr_iff Let_def split: if_splits)

text \<open>
  The reference of the projection: the quantity held after the order, a buy added to it and a sale taken from it, and
  the exposure of an instrument, what is held at the last price and the order at the price it would trade at: a buy at
  the ask, a sale, negative, at the bid.
\<close>

definition held_before :: "(string, position) dict \<Rightarrow> string \<Rightarrow> decimal" where
  "held_before ps k = (case dict_get ps k of None \<Rightarrow> Dec 0 0 | Some p \<Rightarrow> pos_quantity p)"

definition held_after :: "(string, position) dict \<Rightarrow> order_intent \<Rightarrow> string \<Rightarrow> decimal" where
  "held_after ps i k =
     (if k \<noteq> oi_instrument_id i then held_before ps k
      else case oi_side i of
        BUY \<Rightarrow> held_before ps k + oi_quantity i
      | SELL \<Rightarrow> held_before ps k + - oi_quantity i)"

definition exposure_after :: "(string, position) dict \<Rightarrow> order_intent \<Rightarrow> string \<Rightarrow> quote \<Rightarrow> decimal" where
  "exposure_after ps i k q =
     held_before ps k * q_last q +
     (if k \<noteq> oi_instrument_id i then Dec 0 0
      else case oi_side i of
        BUY \<Rightarrow> oi_quantity i * q_ask q
      | SELL \<Rightarrow> - oi_quantity i * q_bid q)"

lemma projected_quantities_reference:
  assumes "dict_ok ps"
  shows "(\<exists>q. dict_get (projected_quantities ps i) k = Some q \<and> \<not> deq q 0) \<longleftrightarrow> \<not> deq (held_after ps i k) 0"
proof -
  let ?held = "map (\<lambda>(k, p). (k, pos_quantity p)) (filter (\<lambda>(_, p). \<not> deq (pos_quantity p) 0) ps)"
  have "distinct (map fst ?held)" using assms by (simp add: dict_ok_def comp_def split_beta distinct_map_filter)
  then have ok: "dict_ok ?held" by (simp add: dict_ok_def)
  have held: "dict_get ?held k = (case dict_get ps k of None \<Rightarrow> None | Some p \<Rightarrow> if deq (pos_quantity p) 0 then None else Some (pos_quantity p))" for k
  proof -
    have iff: "dict_get ?held k = Some q \<longleftrightarrow> (\<exists>p. dict_get ps k = Some p \<and> q = pos_quantity p \<and> \<not> deq (pos_quantity p) 0)" for q
      unfolding dict_ok_map_of [OF ok, symmetric] dict_ok_map_of [OF assms, symmetric] by auto
    show ?thesis
    proof (cases "dict_get ?held k")
      case None
      then show ?thesis using iff by (cases "dict_get ps k") (simp_all del: map_of_map)
    next
      case (Some a)
      then show ?thesis using iff [of a] by auto
    qed
  qed
  define h where "h = ?held"
  have h: "dict_get h k = (case dict_get ps k of None \<Rightarrow> None | Some p \<Rightarrow> if deq (pos_quantity p) 0 then None else Some (pos_quantity p))" for k
    unfolding h_def by (rule held)
  have p: "projected_quantities ps i = dict_set (oi_instrument_id i) (dict_get_or h (oi_instrument_id i) (Dec 0 0) + order_quantity i) h"
    by (simp add: projected_quantities_def h_def Let_def)
  show ?thesis
    by (cases "oi_side i")
       (auto simp: p h held_after_def held_before_def dict_get_set dict_get_or_def order_quantity_def dec_order split: option.splits if_splits)
qed

lemma projected_notional_reference: "projected_exposure_notional ps i k q = exposure_after ps i k q"
  by (cases "oi_side i") (simp_all add: projected_exposure_notional_def exposure_after_def existing_quantity_def held_before_def order_quantity_def)

section \<open>Properties\<close>

text \<open>
  C35: the exposures a decision assesses are the account after the order: from the account's newest known
  evidence, whose positions are a dictionary, in instrument order, exactly one exposure for every instrument of which
  something is held after the order, a buy added to the holding and a sale taken from it. Its notional is the holding
  at the last price of the instrument's known quote plus, on the order's instrument, a buy at the ask or minus a sale at the bid.
\<close>

theorem projected_exposures_exact:
  assumes "projected_exposures_as_of account_id i t instruments quotes src = Inr (e, xs)" "dict_ok (bas_positions (av_snapshot e))"
  shows "latest_account account_id t src = Inr e \<and> bas_account_id (av_snapshot e) = oi_account_id i \<and>
    sorted (map pe_instrument_id xs) \<and> distinct (map pe_instrument_id xs) \<and>
    pe_instrument_id ` set xs = {k. \<not> deq (held_after (bas_positions (av_snapshot e)) i k) 0} \<and>
    (\<forall>x \<in> set xs. \<exists>ins q. get_instrument (pe_instrument_id x) instruments = Inr ins \<and>
       quote_latest (pe_instrument_id x) t quotes = Inr q \<and>
       pe_notional x = exposure_after (bas_positions (av_snapshot e)) i (pe_instrument_id x) q \<and>
       pe_broker x = bas_source (av_snapshot e) \<and> pe_exchange x = ins_venue ins \<and> pe_currency x = ins_quote_currency ins)"
proof -
  let ?ps = "bas_positions (av_snapshot e)"
  from assms(1) obtain f where f: "latest_account account_id t src = Inr e" "bas_account_id (av_snapshot e) = oi_account_id i"
    "f = plain_exposure (bas_source (av_snapshot e)) ?ps i t instruments quotes \<or>
     f = profiled_exposure (bas_source (av_snapshot e)) ?ps i t instruments quotes"
    "exposures_after f ?ps i = Inr xs"
    by (rule projected_exposures_cases)
  have "pe_instrument_id x = k" if "f k = Inr x" for k x
    using f(3) that by (auto dest: plain_exposure_Inr profiled_exposure_Inr)
  note x = exposures_after_instruments [OF f(4) this assms(2), unfolded projected_quantities_reference [OF assms(2)]]
  have "\<exists>ins q. get_instrument k instruments = Inr ins \<and> quote_latest k t quotes = Inr q \<and>
      pe_notional x = exposure_after ?ps i k q \<and> pe_broker x = bas_source (av_snapshot e) \<and>
      pe_exchange x = ins_venue ins \<and> pe_currency x = ins_quote_currency ins" if "f k = Inr x" for k x
    using f(3) that by (auto simp: projected_notional_reference dest!: plain_exposure_Inr profiled_exposure_Inr)
  with x f(1,2) show ?thesis by blast
qed

text \<open>
  Account evidence is reconciled evidence: whatever was offered to the store, what a decision reads for an
  account is that account's, was ingested by then, and is bound to a complete reconciliation of the same account,
  source and time in the order management store it was appended with.
\<close>

theorem account_evidence_reconciled:
  assumes "latest_account account_id t (StoredAccounts (fold (\<lambda>(e, s) rows. snd (append_account_evidence e s rows)) es [])) = Inr q"
  shows "bas_account_id (av_snapshot q) = account_id \<and> iso_le (av_ingested_at q) t \<and> evidence_bound (map snd es) q"
proof -
  have k: "known_account_evidence account_id t (fold (\<lambda>(e, s) rows. snd (append_account_evidence e s rows)) es []) = Some q"
    using assms by (auto simp: stored_latest_account_def split: if_splits option.splits)
  have "\<forall>q \<in> set (fold (\<lambda>(e, s) rows. snd (append_account_evidence e s rows)) es []). evidence_bound (map snd es) q"
    by (rule account_evidence_run_bound) auto
  with newest_as_of_Some [OF k [unfolded known_account_evidence_def]] show ?thesis by auto
qed

section \<open>Witnesses\<close>

definition sample_account :: account_evidence where
  "sample_account = \<lparr>av_evidence_id = 4, av_reconciliation_id = 5,
     av_snapshot = \<lparr>bas_account_id = ''A'', bas_source = ''sandbox'', bas_as_of = Aware 5 0,
       bas_cash = \<lparr>cash_currency = ''USD'', cash_amount = Dec 1000 0\<rparr>, bas_buying_power = Dec 1000 0, bas_positions = [],
       bas_open_intent_ids = [], bas_fill_ids = [], bas_realized_pnl = Dec 0 0, bas_fees = Dec 0 0\<rparr>,
     av_healthy = True, av_ingested_at = Aware 6 0\<rparr>"

definition sample_oms :: oms where
  "sample_oms = empty_oms\<lparr>om_runs := [\<lparr>rec_run_id = 5, rec_account_id = ''A'', rec_source = ''sandbox'', rec_occurred_at = Aware 5 0,
     rec_complete = True, rec_discrepancies = []\<rparr>]\<rparr>"

definition evidence_intent :: order_intent where
  "evidence_intent = \<lparr>oi_intent_id = 1, oi_signal_id = 2, oi_instrument_id = ''I1'', oi_account_id = ''A'', oi_side = BUY,
     oi_quantity = Dec 1 0, oi_limit_price = Dec 100 0, oi_created_at = Aware 7 0\<rparr>"

definition evidence_quote :: quote where
  "evidence_quote = sample_quote\<lparr>q_instrument_id := ''I1''\<rparr>"

lemma sample_account_appended:
  "append_account_evidence sample_account sample_oms [] = (Inr (), [sample_account])"
  by (simp add: append_account_evidence_def validate_account_evidence_def sample_account_def sample_oms_def blank_iff is_space_def
      dec_order dec_eval misfiled_def oms_reconciliation_def bound_to_def same_time_def stored_positions_def)

lemma sample_account_known: "stored_latest_account ''A'' (Aware 7 0) [sample_account] = Inr sample_account"
  by (simp add: stored_latest_account_def known_account_evidence_def newest_as_of_def newest_def keep_newer_def visible_at_def iso_le_def
      sample_account_def)

lemma evidence_quote_known: "quote_latest ''I1'' (Aware 7 0) [evidence_quote] = Inr evidence_quote"
  by (simp add: quote_latest_def known_quote_def newest_as_of_def newest_def keep_newer_def visible_at_def iso_le_def sample_quote_def
      evidence_quote_def)

lemma sample_projection:
  "\<exists>x. stored_projected_exposures ''A'' evidence_intent (Aware 7 0) sample_store [evidence_quote] [sample_account] = Inr (sample_account, [x])"
proof -
  have q: "projected_quantities [] evidence_intent = [(''I1'', Dec 0 0 + Dec 1 0)]"
    by (simp add: projected_quantities_def evidence_intent_def order_quantity_def dict_get_or_def)
  have n: "\<not> deq (Dec 0 0 + Dec 1 0) 0" by (simp add: dec_order dec_eval)
  have g: "get_instrument ''I1'' sample_store = Inr sample_instrument"
    by (simp add: get_instrument_def sample_store_def sample_instrument_def)
  have p: "bas_positions (av_snapshot sample_account) = []" "bas_account_id (av_snapshot sample_account) = oi_account_id evidence_intent"
    by (simp_all add: sample_account_def evidence_intent_def)
  show ?thesis
    by (simp add: stored_projected_exposures_def sample_account_known p exposures_after_def q n plain_exposure_def g evidence_quote_known
        unavailable_exposures_def)
qed

text \<open>A buy of one into an empty account is an exposure of one at the ask.\<close>

theorem projected_exposures_exact_witness:
  "\<exists>x. projected_exposures_as_of ''A'' evidence_intent (Aware 7 0) sample_store [evidence_quote] (StoredAccounts [sample_account]) =
     Inr (sample_account, [x]) \<and> pe_instrument_id x = ''I1'' \<and> deq (pe_notional x) (q_ask evidence_quote)"
proof -
  obtain x where x: "projected_exposures_as_of ''A'' evidence_intent (Aware 7 0) sample_store [evidence_quote] (StoredAccounts [sample_account]) =
     Inr (sample_account, [x])" using sample_projection by auto
  have p: "bas_positions (av_snapshot sample_account) = []" by (simp add: sample_account_def)
  have after: "held_after [] evidence_intent k = (if k = ''I1'' then Dec 0 0 + Dec 1 0 else Dec 0 0)" for k
    by (simp add: held_after_def held_before_def evidence_intent_def)
  have ok: "dict_ok (bas_positions (av_snapshot sample_account))" by (simp add: p)
  note exact = projected_exposures_exact [OF x ok, unfolded p]
  have "pe_instrument_id x \<in> {k. \<not> deq (held_after [] evidence_intent k) 0}" using exact by auto
  then have "\<not> deq (held_after [] evidence_intent (pe_instrument_id x)) 0" by blast
  then have i: "pe_instrument_id x = ''I1''" unfolding after by (cases "pe_instrument_id x = ''I1''") (simp_all add: dec_order)
  obtain q where q: "quote_latest ''I1'' (Aware 7 0) [evidence_quote] = Inr q" "pe_notional x = exposure_after [] evidence_intent ''I1'' q"
    using exact i by auto
  then have "pe_notional x = exposure_after [] evidence_intent ''I1'' evidence_quote" unfolding evidence_quote_known by simp
  moreover have "deq (exposure_after [] evidence_intent ''I1'' evidence_quote) (q_ask evidence_quote)"
    by (simp add: exposure_after_def held_before_def evidence_intent_def evidence_quote_def sample_quote_def dec_order dec_eval)
  ultimately show ?thesis using x i by (intro exI [of _ x]) simp
qed

theorem account_evidence_reconciled_witness: "evidence_bound [sample_oms] sample_account"
proof -
  have "latest_account ''A'' (Aware 7 0) (StoredAccounts (fold (\<lambda>(e, s) rows. snd (append_account_evidence e s rows)) [(sample_account, sample_oms)] [])) =
    Inr sample_account" by (simp add: sample_account_appended sample_account_known)
  from account_evidence_reconciled [OF this] show ?thesis by simp
qed

end
