(* ===== verification/PretradeAssessment.thy ===== *)
theory PretradeAssessment
  imports RiskEngine SignalEngine ModelRegistry ReturnIngestion PortfolioEvidence "HOL-Library.Sublist"
begin

text \<open>
  \<open>pretrade_context.py\<close> and \<open>assess_pretrade\<close> of \<open>pretrade_assessment.py\<close>: every claim of the caller is checked
  against what the stores knew at the decision time, and only then the risk engine and the portfolio limits are
  asked. The gates in front of the engine are values: pass, reject with a reason, or raise.
\<close>

section \<open>The execution context\<close>

definition snapshot_current :: "broker_account_snapshot option \<Rightarrow> string \<Rightarrow> datetime \<Rightarrow> timedelta \<Rightarrow> bool" where
  "snapshot_current b account_id t max_age =
     (case b of
        None \<Rightarrow> False
      | Some a \<Rightarrow> bas_account_id a = account_id \<and> aware (bas_as_of a) \<and>
          0 \<le> instant t - instant (bas_as_of a) \<and> instant t - instant (bas_as_of a) \<le> max_age)"

text \<open>\<open>models.is_approved\<close> with its \<open>KeyError\<close> read as not approved.\<close>

definition model_permitted :: "uuid option \<Rightarrow> model_registry \<Rightarrow> bool" where
  "model_permitted m s = (case m of None \<Rightarrow> False | Some i \<Rightarrow> is_model_approved i s = Inr True)"

record context_request =
  cr_instrument_id :: string
  cr_account_id :: string
  cr_observed_at :: datetime
  cr_broker_snapshot :: "broker_account_snapshot option"
  cr_broker_healthy :: bool
  cr_model_id :: "uuid option"
  cr_strategy_enabled :: bool
  cr_instrument_halted :: bool
  cr_quote_available :: bool
  cr_expected_slippage_fraction :: decimal
  cr_event_risk :: decimal
  cr_maximum_snapshot_age :: timedelta

definition build_execution_context :: "zones \<Rightarrow> instrument_store \<Rightarrow> model_registry \<Rightarrow> context_request \<Rightarrow> execution_context result" where
  "build_execution_context zone instruments models r =
     (if \<not> aware (cr_observed_at r) \<or> cr_maximum_snapshot_age r \<le> 0
      then Inl (Exc ValueError ''invalid_pre_trade_context_time'')
      else bind_result (get_instrument (cr_instrument_id r) instruments) (\<lambda>ins.
        bind_result (if ins_delisted_at ins = None then is_trading_session zone (ins_venue ins) (cr_observed_at r) instruments else Inr False)
          (\<lambda>session_open.
            let certain = cr_broker_healthy r \<and>
                  snapshot_current (cr_broker_snapshot r) (cr_account_id r) (cr_observed_at r) (cr_maximum_snapshot_age r)
            in Inr \<lparr>ec_session_open = session_open, ec_instrument_halted = cr_instrument_halted r,
                    ec_quote_available = cr_quote_available r, ec_expected_slippage_fraction = cr_expected_slippage_fraction r,
                    ec_event_risk = cr_event_risk r,
                    ec_available_buying_power =
                      (case cr_broker_snapshot r of Some a \<Rightarrow> if certain then bas_buying_power a else Dec 0 0 | None \<Rightarrow> Dec 0 0),
                    ec_broker_state_certain = certain, ec_strategy_enabled = cr_strategy_enabled r,
                    ec_model_approved = model_permitted (cr_model_id r) models\<rparr>)))"

section \<open>Equality of the caller's records with the stored ones\<close>

text \<open>Dataclass equality: decimals by value, aware times by instant, dictionaries whatever their order.\<close>

definition dict_same :: "('v \<Rightarrow> 'v \<Rightarrow> bool) \<Rightarrow> (string, 'v) dict \<Rightarrow> (string, 'v) dict \<Rightarrow> bool" where
  "dict_same eq a b \<longleftrightarrow>
     set (dict_keys a) = set (dict_keys b) \<and>
     (\<forall>k \<in> set (dict_keys a). case (dict_get a k, dict_get b k) of (Some v, Some w) \<Rightarrow> eq v w | _ \<Rightarrow> False)"

definition same_market :: "market_snapshot \<Rightarrow> market_snapshot \<Rightarrow> bool" where
  "same_market a b \<longleftrightarrow>
     ms_instrument_id a = ms_instrument_id b \<and> same_time (ms_observed_at a) (ms_observed_at b) \<and> deq (ms_bid a) (ms_bid b) \<and>
     deq (ms_ask a) (ms_ask b) \<and> deq (ms_last a) (ms_last b) \<and> deq (ms_data_quality_score a) (ms_data_quality_score b)"

definition same_position :: "position \<Rightarrow> position \<Rightarrow> bool" where
  "same_position a b \<longleftrightarrow>
     pos_instrument_id a = pos_instrument_id b \<and> deq (pos_quantity a) (pos_quantity b) \<and> deq (pos_average_cost a) (pos_average_cost b)"

definition same_account :: "broker_account_snapshot \<Rightarrow> broker_account_snapshot \<Rightarrow> bool" where
  "same_account a b \<longleftrightarrow>
     bas_account_id a = bas_account_id b \<and> bas_source a = bas_source b \<and> same_time (bas_as_of a) (bas_as_of b) \<and>
     cash_currency (bas_cash a) = cash_currency (bas_cash b) \<and> deq (cash_amount (bas_cash a)) (cash_amount (bas_cash b)) \<and>
     deq (bas_buying_power a) (bas_buying_power b) \<and> dict_same same_position (bas_positions a) (bas_positions b) \<and>
     bas_open_intent_ids a = bas_open_intent_ids b \<and> bas_fill_ids a = bas_fill_ids b \<and>
     deq (bas_realized_pnl a) (bas_realized_pnl b) \<and> deq (bas_fees a) (bas_fees b)"

definition same_state :: "portfolio_state \<Rightarrow> portfolio_state \<Rightarrow> bool" where
  "same_state a b \<longleftrightarrow>
     ps_account_id a = ps_account_id b \<and> dict_same deq (ps_position_notionals a) (ps_position_notionals b) \<and>
     ps_reconciliation_complete a = ps_reconciliation_complete b \<and> ps_risk_increase_allowed a = ps_risk_increase_allowed b"

definition same_exposure :: "portfolio_exposure \<Rightarrow> portfolio_exposure \<Rightarrow> bool" where
  "same_exposure a b \<longleftrightarrow>
     pe_instrument_id a = pe_instrument_id b \<and> deq (pe_notional a) (pe_notional b) \<and> pe_asset_class a = pe_asset_class b \<and>
     pe_sector a = pe_sector b \<and> pe_country a = pe_country b \<and> pe_currency a = pe_currency b \<and> pe_broker a = pe_broker b \<and>
     pe_exchange a = pe_exchange b \<and> pe_correlation_cluster a = pe_correlation_cluster b \<and> deq (pe_beta a) (pe_beta b) \<and>
     deq (pe_duration a) (pe_duration b) \<and> dict_same deq (pe_factors a) (pe_factors b)"

fun same_optional_time :: "datetime option \<Rightarrow> datetime option \<Rightarrow> bool" where
  "same_optional_time None None = True"
| "same_optional_time (Some a) (Some b) = same_time a b"
| "same_optional_time _ _ = False"

definition same_evidence :: "input_evidence \<Rightarrow> input_evidence \<Rightarrow> bool" where
  "same_evidence a b \<longleftrightarrow>
     ie_market_reference a = ie_market_reference b \<and> same_time (ie_market_observed_at a) (ie_market_observed_at b) \<and>
     ie_halt_reference a = ie_halt_reference b \<and> same_time (ie_halt_observed_at a) (ie_halt_observed_at b) \<and>
     ie_event_reference a = ie_event_reference b \<and> same_time (ie_event_observed_at a) (ie_event_observed_at b) \<and>
     ie_slippage_reference a = ie_slippage_reference b \<and> same_time (ie_slippage_observed_at a) (ie_slippage_observed_at b) \<and>
     ie_exposure_reference a = ie_exposure_reference b \<and> same_time (ie_exposure_observed_at a) (ie_exposure_observed_at b) \<and>
     ie_projected_exposure_digest a = ie_projected_exposure_digest b \<and>
     ie_return_history_reference a = ie_return_history_reference b \<and>
     same_optional_time (ie_return_history_observed_at a) (ie_return_history_observed_at b)"

section \<open>The policies\<close>

text \<open>
  The limits as the engine and the portfolio rules take them. Those are modelled over finite decimals, so what
  follows describes the code for registered policies whose limits are finite (\<open>finite_limits\<close>).
\<close>

definition engine_policy :: "risk_limits \<Rightarrow> risk_policy" where
  "engine_policy l =
     \<lparr>rp_minimum_data_quality = finite_part (rl_minimum_data_quality l),
      rp_maximum_spread_fraction = finite_part (rl_maximum_spread_fraction l),
      rp_maximum_order_notional = finite_part (rl_maximum_order_notional l),
      rp_maximum_position_notional = finite_part (rl_maximum_position_notional l),
      rp_maximum_daily_order_notional = finite_part (rl_maximum_daily_order_notional l),
      rp_maximum_event_risk = finite_part (rl_maximum_event_risk l),
      rp_maximum_expected_slippage_fraction = finite_part (rl_maximum_expected_slippage_fraction l),
      rp_max_market_age_seconds = rl_max_market_age_seconds l, rp_maximum_per_trade_loss = rl_maximum_per_trade_loss l,
      rp_maximum_stop_distance_fraction = rl_maximum_stop_distance_fraction l,
      rp_stop_gap_buffer_fraction = rl_stop_gap_buffer_fraction l\<rparr>"

definition finite_limits :: "risk_limits \<Rightarrow> bool" where
  "finite_limits l \<longleftrightarrow>
     is_finite (rl_minimum_data_quality l) \<and> is_finite (rl_maximum_spread_fraction l) \<and> is_finite (rl_maximum_order_notional l) \<and>
     is_finite (rl_maximum_position_notional l) \<and> is_finite (rl_maximum_daily_order_notional l) \<and>
     is_finite (rl_maximum_event_risk l) \<and> is_finite (rl_maximum_expected_slippage_fraction l)"

definition limit_of :: "(string, portfolio_value) dict \<Rightarrow> string \<Rightarrow> decimal option" where
  "limit_of vs name = (case dict_get vs name of Some (PDecimal (Some d)) \<Rightarrow> Some (finite_part d) | _ \<Rightarrow> None)"

definition count_of :: "(string, portfolio_value) dict \<Rightarrow> string \<Rightarrow> int option" where
  "count_of vs name = (case dict_get vs name of Some (PInteger i) \<Rightarrow> Some i | _ \<Rightarrow> None)"

definition mapping_of :: "(string, portfolio_value) dict \<Rightarrow> string \<Rightarrow> (string, decimal) dict" where
  "mapping_of vs name = (case dict_get vs name of Some (PMapping m) \<Rightarrow> map (\<lambda>(k, d). (k, finite_part d)) m | _ \<Rightarrow> [])"

definition portfolio_policy_of :: "(string, portfolio_value) dict \<Rightarrow> portfolio_risk_policy" where
  "portfolio_policy_of vs =
     \<lparr>pp_maximum_gross_notional = the (limit_of vs ''maximum_gross_notional''),
      pp_maximum_single_weight = the (limit_of vs ''maximum_single_weight''),
      pp_maximum_scenario_loss = the (limit_of vs ''maximum_scenario_loss''),
      pp_maximum_net_notional = limit_of vs ''maximum_net_notional'', pp_maximum_var_loss = limit_of vs ''maximum_var_loss'',
      pp_maximum_cvar_loss = limit_of vs ''maximum_cvar_loss'',
      pp_maximum_group_notionals = mapping_of vs ''maximum_group_notionals'',
      pp_maximum_factor_notionals = mapping_of vs ''maximum_factor_notionals'',
      pp_maximum_beta_notional = limit_of vs ''maximum_beta_notional'',
      pp_maximum_duration_notional = limit_of vs ''maximum_duration_notional'',
      pp_maximum_drawdown_loss = limit_of vs ''maximum_drawdown_loss'',
      pp_minimum_historical_observations = count_of vs ''minimum_historical_observations'',
      pp_return_history_window_observations = count_of vs ''return_history_window_observations'',
      pp_maximum_return_history_age_seconds = count_of vs ''maximum_return_history_age_seconds''\<rparr>"

definition requires_return_history :: "portfolio_risk_policy \<Rightarrow> bool" where
  "requires_return_history p \<longleftrightarrow>
     pp_maximum_var_loss p \<noteq> None \<or> pp_maximum_cvar_loss p \<noteq> None \<or> pp_maximum_drawdown_loss p \<noteq> None"

section \<open>The request and the stores\<close>

record assess_request =
  aq_intent :: order_intent
  aq_market :: market_snapshot
  aq_portfolio_state :: portfolio_state
  aq_broker_snapshot :: "broker_account_snapshot option"
  aq_broker_healthy :: bool
  aq_model_id :: "uuid option"
  aq_strategy_enabled :: bool
  aq_instrument_halted :: bool
  aq_quote_available :: bool
  aq_expected_slippage_fraction :: decimal
  aq_event_risk :: decimal
  aq_projected_exposures :: "portfolio_exposure list"
  aq_portfolio_equity :: decimal
  aq_scenarios :: "stress_scenario list"
  aq_historical_returns :: "decimal list option"
  aq_observed_at :: datetime
  aq_maximum_snapshot_age :: timedelta
  aq_input_evidence :: "input_evidence option"
  aq_maximum_evidence_age :: timedelta
  aq_risk_policy_version :: string
  aq_portfolio_policy_version :: string

record assess_stores =
  ax_signals :: signal_store
  ax_instruments :: instrument_store
  ax_models :: model_registry
  ax_execution :: "execution_store option"
  ax_quotes :: "quote list option"
  ax_accounts :: "account_source option"
  ax_returns :: "return_store option"
  ax_policies :: "policy_row list"
  ax_switches :: "switch_store option"

text \<open>The functions of other code: digests, the time zone database; and the fresh values of a call.\<close>

record assess_functions =
  af_sha :: "json \<Rightarrow> string"
  af_policy_sha :: "payload \<Rightarrow> string"
  af_mac :: "string \<Rightarrow> string \<Rightarrow> string"
  af_zone :: zones

record pretrade_env =
  ge_assessment_id :: uuid
  ge_assessed_at :: datetime
  ge_decision_id :: uuid
  ge_decided_at :: datetime
  ge_engine :: assess_env

section \<open>The evidence gates\<close>

datatype 'a gate = Pass 'a | Reject string | Raise py_exc

fun bind_gate :: "'a gate \<Rightarrow> ('a \<Rightarrow> 'b gate) \<Rightarrow> 'b gate" where
  "bind_gate (Pass x) f = f x"
| "bind_gate (Reject r) f = Reject r"
| "bind_gate (Raise x) f = Raise x"

text \<open>The \<open>except\<close> clauses of the evidence block.\<close>

definition evidence_exception :: "py_exc \<Rightarrow> 'a gate" where
  "evidence_exception x =
     (if exc_class x = QuoteDataError then Reject (''stored_quote_evidence_invalid:'' @ exc_text x)
      else if is_value_error x then Reject (''stored_execution_evidence_invalid:'' @ exc_text x) else Raise x)"

definition account_exception :: "py_exc \<Rightarrow> 'a gate" where
  "account_exception x =
     (if exc_class x = PortfolioEvidenceError
      then Reject (''stored_'' @ (if sublist ''account'' (exc_text x) then ''account'' else ''portfolio'') @ ''_evidence_invalid:'' @ exc_text x)
      else evidence_exception x)"

definition quote_gate :: "assess_request \<Rightarrow> quote list \<Rightarrow> quote gate" where
  "quote_gate r quotes =
     (case quote_latest (oi_instrument_id (aq_intent r)) (aq_observed_at r) quotes of
        Inl x \<Rightarrow> evidence_exception x
      | Inr q \<Rightarrow>
          if \<not> same_market (aq_market r) (quote_snapshot q) \<or> \<not> aq_quote_available r
          then Reject ''stored_quote_evidence_invalid:stored_quote_evidence_mismatch'' else Pass q)"

definition account_gate ::
  "assess_request \<Rightarrow> instrument_store \<Rightarrow> quote list \<Rightarrow> account_source \<Rightarrow> (account_evidence \<times> portfolio_exposure list) gate" where
  "account_gate r instruments quotes accounts =
     (let i = aq_intent r; t = aq_observed_at r in
      case bind_result (projected_exposures_as_of (oi_account_id i) i t instruments quotes accounts) (\<lambda>(e, xs).
             bind_result (portfolio_state_as_of (oi_account_id i) t accounts) (\<lambda>ps. Inr (e, xs, ps))) of
        Inl x \<Rightarrow> account_exception x
      | Inr (e, xs, ps) \<Rightarrow>
          if (case aq_broker_snapshot r of None \<Rightarrow> True | Some a \<Rightarrow> \<not> same_account a (av_snapshot e)) \<or> aq_broker_healthy r \<noteq> av_healthy e
          then Reject ''stored_account_evidence_invalid:stored_account_evidence_mismatch''
          else if \<not> same_state (aq_portfolio_state r) ps \<or> \<not> list_all2 same_exposure (aq_projected_exposures r) xs
          then Reject ''stored_portfolio_evidence_invalid:stored_portfolio_evidence_mismatch''
          else Pass (e, xs))"

text \<open>The requirements come from the policy, where a missing one makes the comparison raise.\<close>

definition history_gate :: "portfolio_risk_policy \<Rightarrow> assess_request \<Rightarrow> return_store option \<Rightarrow> return_observation list gate" where
  "history_gate p r returns =
     (case returns of
        None \<Rightarrow> Reject ''stored_return_history_evidence_invalid:return_history_store_unavailable''
      | Some s \<Rightarrow>
          (case (pp_minimum_historical_observations p, pp_return_history_window_observations p, pp_maximum_return_history_age_seconds p) of
             (Some m, Some w, Some age) \<Rightarrow>
               (case evidence_for_policy (oi_account_id (aq_intent r)) (aq_observed_at r) m w age s of
                  Inl x \<Rightarrow> Reject (''stored_return_history_evidence_invalid:'' @ exc_text x)
                | Inr rows \<Rightarrow> Pass rows)
           | _ \<Rightarrow> Raise (Exc TypeError ''unorderable'')))"

definition execution_gate ::
  "assess_functions \<Rightarrow> portfolio_risk_policy \<Rightarrow> assess_request \<Rightarrow> input_evidence \<Rightarrow> quote \<Rightarrow> account_evidence \<Rightarrow>
   portfolio_exposure list \<Rightarrow> execution_store \<Rightarrow> return_store option \<Rightarrow> decimal list option gate" where
  "execution_gate fs p r evidence q e xs execution returns =
     (case execution_snapshot_as_of (oi_instrument_id (aq_intent r)) (oi_side (aq_intent r)) (aq_observed_at r) execution of
        Inl x \<Rightarrow> evidence_exception x
      | Inr sn \<Rightarrow>
          let expected = snapshot_input_evidence (af_sha fs) (source_text (q_provider q) (q_source_reference q) (q_quote_id q))
                (quote_snapshot q) (account_exposure_reference e) (bas_as_of (av_snapshot e)) xs sn;
              check = (\<lambda>expected returns.
                if \<not> same_evidence evidence expected \<or> aq_instrument_halted r \<noteq> ho_halted (sn_halt sn) \<or>
                   \<not> deq (aq_event_risk r) (eo_risk (sn_event sn)) \<or>
                   \<not> deq (aq_expected_slippage_fraction r) (sl_expected_fraction (sn_slippage sn))
                then Reject ''stored_execution_evidence_invalid:stored_execution_evidence_mismatch''
                else Pass returns)
          in if requires_return_history p
             then bind_gate (history_gate p r returns) (\<lambda>rows.
               check (expected\<lparr>ie_return_history_reference := evidence_reference (af_sha fs) rows,
                               ie_return_history_observed_at := Some (evidence_observed_at rows)\<rparr>)
                     (Some (evidence_returns rows)))
             else check expected (aq_historical_returns r))"

record checked_evidence =
  ce_account :: account_evidence
  ce_exposures :: "portfolio_exposure list"
  ce_returns :: "decimal list option"

definition evidence_gate ::
  "assess_functions \<Rightarrow> portfolio_risk_policy \<Rightarrow> assess_request \<Rightarrow> assess_stores \<Rightarrow> checked_evidence gate" where
  "evidence_gate fs p r st =
     (case aq_input_evidence r of
        None \<Rightarrow> Reject ''pretrade_input_evidence_unavailable''
      | Some evidence \<Rightarrow>
          (case validate_input_evidence (af_sha fs) evidence (aq_observed_at r) (aq_market r) (aq_projected_exposures r)
                  (aq_maximum_evidence_age r) (requires_return_history p) of
             Inl x \<Rightarrow> Reject (''pretrade_input_evidence_invalid:'' @ exc_text x)
           | Inr _ \<Rightarrow>
               (case (ax_execution st, ax_quotes st, ax_accounts st) of
                  (None, _, _) \<Rightarrow> Reject ''stored_execution_evidence_unavailable''
                | (_, None, _) \<Rightarrow> Reject ''stored_quote_evidence_unavailable''
                | (_, _, None) \<Rightarrow> Reject ''stored_account_evidence_unavailable''
                | (Some execution, Some quotes, Some accounts) \<Rightarrow>
                    if requires_return_history p \<and> ax_returns st = None then Reject ''stored_return_history_evidence_unavailable''
                    else bind_gate (quote_gate r quotes) (\<lambda>q.
                      bind_gate (account_gate r (ax_instruments st) quotes accounts) (\<lambda>(e, xs).
                        bind_gate (execution_gate fs p r evidence q e xs execution (ax_returns st)) (\<lambda>returns.
                          Pass \<lparr>ce_account = e, ce_exposures = xs, ce_returns = returns\<rparr>))))))"

definition signal_gate :: "assess_request \<Rightarrow> signal_store \<Rightarrow> signal gate" where
  "signal_gate r signals =
     (case risk_signal (oi_signal_id (aq_intent r)) (aq_observed_at r) signals of
        Inl x \<Rightarrow> if exc_class x = SignalEngineError then Reject (''detailed_signal_evidence_unavailable:'' @ exc_text x) else Raise x
      | Inr s \<Rightarrow> Pass s)"

section \<open>The assessment\<close>

text \<open>\<open>RiskEngine(risk_policy, kill_switches=...)\<close>: fresh ledgers, no stores.\<close>

definition new_engine :: "risk_policy \<Rightarrow> switch_store option \<Rightarrow> risk_engine" where
  "new_engine p switches =
     \<lparr>re_policy = p, re_switches = (case switches of None \<Rightarrow> MemorySwitches {} | Some s \<Rightarrow> s), re_claims = MemoryClaims {},
      re_daily = MemoryDaily \<lparr>dn_reserved = [], dn_intent_ids = {}\<rparr>, re_decisions = None, re_postgres = None\<rparr>"

definition blocked_assessment :: "pretrade_env \<Rightarrow> assess_request \<Rightarrow> string \<Rightarrow> string \<Rightarrow> string \<Rightarrow> risk_decision \<Rightarrow> assessment" where
  "blocked_assessment env r risk_digest portfolio_digest reason d =
     \<lparr>pa_assessment_id = ge_assessment_id env, pa_risk_decision = d, pa_portfolio_decision = None,
      pa_evidence_block_reason = Some reason, pa_assessed_at = ge_assessed_at env,
      pa_risk_policy_version = aq_risk_policy_version r, pa_portfolio_policy_version = aq_portfolio_policy_version r,
      pa_risk_policy_digest = risk_digest, pa_portfolio_policy_digest = portfolio_digest,
      pa_input_evidence = aq_input_evidence r, pa_per_trade_risk = None\<rparr>"

definition context_of_request :: "assess_request \<Rightarrow> account_evidence \<Rightarrow> context_request" where
  "context_of_request r e =
     \<lparr>cr_instrument_id = oi_instrument_id (aq_intent r), cr_account_id = oi_account_id (aq_intent r),
      cr_observed_at = aq_observed_at r, cr_broker_snapshot = Some (av_snapshot e), cr_broker_healthy = av_healthy e,
      cr_model_id = aq_model_id r, cr_strategy_enabled = aq_strategy_enabled r, cr_instrument_halted = aq_instrument_halted r,
      cr_quote_available = aq_quote_available r, cr_expected_slippage_fraction = aq_expected_slippage_fraction r,
      cr_event_risk = aq_event_risk r, cr_maximum_snapshot_age = aq_maximum_snapshot_age r\<rparr>"

text \<open>Behind the gates: per-trade evidence, execution context, risk engine, portfolio limits.\<close>

definition assess_checked ::
  "pretrade_env \<Rightarrow> assess_functions \<Rightarrow> assess_request \<Rightarrow> assess_stores \<Rightarrow> risk_policy \<Rightarrow> portfolio_risk_policy \<Rightarrow> string \<Rightarrow> string \<Rightarrow>
   checked_evidence \<Rightarrow> signal \<Rightarrow> assessment result" where
  "assess_checked env fs r st p pp risk_digest portfolio_digest c s =
     bind_result (evaluate_per_trade_risk (aq_intent r) s p) (\<lambda>(per_trade, _).
     bind_result (build_execution_context (af_zone fs) (ax_instruments st) (ax_models st) (context_of_request r (ce_account c))) (\<lambda>x.
     bind_result (fst (assess (ge_engine env) (aq_intent r) s (aq_market r) (aq_portfolio_state r) (Some x) (new_engine p (ax_switches st)))) (\<lambda>d.
     bind_result (evaluate_portfolio (ce_exposures c) (aq_portfolio_equity r) (aq_scenarios r) pp (ce_returns c) (Dec 5 (- 2))) (\<lambda>pd.
       Inr \<lparr>pa_assessment_id = ge_assessment_id env, pa_risk_decision = d, pa_portfolio_decision = Some pd,
            pa_evidence_block_reason = None, pa_assessed_at = ge_assessed_at env,
            pa_risk_policy_version = aq_risk_policy_version r, pa_portfolio_policy_version = aq_portfolio_policy_version r,
            pa_risk_policy_digest = risk_digest, pa_portfolio_policy_digest = portfolio_digest,
            pa_input_evidence = aq_input_evidence r, pa_per_trade_risk = per_trade\<rparr>))))"

definition keep_assessment :: "assess_functions \<Rightarrow> assessment \<Rightarrow> (assessment_store option, assessment) operation" where
  "keep_assessment fs a store =
     (case store of
        None \<Rightarrow> (Inr a, None)
      | Some s \<Rightarrow> (case assessment_append (af_sha fs) (af_mac fs) a s of (Inl x, t) \<Rightarrow> (Inl x, Some t) | (Inr _, t) \<Rightarrow> (Inr a, Some t)))"

text \<open>The document and the limits of a policy version, read in this order.\<close>

definition risk_policy_evidence :: "assess_functions \<Rightarrow> assess_request \<Rightarrow> policy_row list \<Rightarrow> (policy_document \<times> risk_limits) result" where
  "risk_policy_evidence fs r policies =
     bind_result (policy_get (af_policy_sha fs) ''risk'' (aq_risk_policy_version r) policies) (\<lambda>d.
     bind_result (resolve_risk_policy (af_policy_sha fs) (aq_risk_policy_version r) policies) (\<lambda>l. Inr (d, l)))"

definition portfolio_policy_evidence ::
  "assess_functions \<Rightarrow> assess_request \<Rightarrow> policy_row list \<Rightarrow> (policy_document \<times> portfolio_risk_policy) result" where
  "portfolio_policy_evidence fs r policies =
     bind_result (policy_get (af_policy_sha fs) ''portfolio'' (aq_portfolio_policy_version r) policies) (\<lambda>d.
     bind_result (resolve_portfolio_policy (af_policy_sha fs) (aq_portfolio_policy_version r) policies)
       (\<lambda>vs. Inr (d, portfolio_policy_of vs)))"

definition policy_reject ::
  "pretrade_env \<Rightarrow> assess_functions \<Rightarrow> assess_request \<Rightarrow> string \<Rightarrow> string \<Rightarrow> py_exc \<Rightarrow> (assessment_store option, assessment) operation" where
  "policy_reject env fs r risk_digest label x store =
     (if \<not> is_value_error x then (Inl x, store)
      else let reason = label @ exc_text x
      in keep_assessment fs (blocked_assessment env r risk_digest [] reason
           \<lparr>rd_decision_id = ge_decision_id env, rd_intent_id = oi_intent_id (aq_intent r), rd_decision = REJECT, rd_reasons = [reason],
            rd_decided_at = aq_observed_at r\<rparr>) store)"

definition evidence_reject ::
  "pretrade_env \<Rightarrow> assess_functions \<Rightarrow> assess_request \<Rightarrow> risk_engine \<Rightarrow> string \<Rightarrow> string \<Rightarrow> string \<Rightarrow> (assessment_store option, assessment) operation" where
  "evidence_reject env fs r engine risk_digest portfolio_digest reason store =
     (case fst (reject_unassessable (ge_decision_id env) (ge_decided_at env) (oi_intent_id (aq_intent r)) reason engine) of
        Inl x \<Rightarrow> (Inl x, store)
      | Inr d \<Rightarrow> keep_assessment fs (blocked_assessment env r risk_digest portfolio_digest reason d) store)"

definition existing_assessment :: "assess_functions \<Rightarrow> uuid \<Rightarrow> assessment_store option \<Rightarrow> assessment option result" where
  "existing_assessment fs i store =
     (case store of None \<Rightarrow> Inr None | Some s \<Rightarrow> get_for_intent (af_sha fs) (af_mac fs) i s)"

definition assess_pretrade ::
  "pretrade_env \<Rightarrow> assess_functions \<Rightarrow> assess_request \<Rightarrow> assess_stores \<Rightarrow> (assessment_store option, assessment) operation" where
  "assess_pretrade env fs r st store =
     (case existing_assessment fs (oi_intent_id (aq_intent r)) store of
        Inl x \<Rightarrow> (Inl x, store)
      | Inr (Some a) \<Rightarrow> (Inr a, store)
      | Inr None \<Rightarrow>
          (case risk_policy_evidence fs r (ax_policies st) of
             Inl x \<Rightarrow> policy_reject env fs r [] ''risk_policy_evidence_unavailable:'' x store
           | Inr (rd, l) \<Rightarrow>
               let risk_digest = policy_digest (af_policy_sha fs) rd; p = engine_policy l
               in case portfolio_policy_evidence fs r (ax_policies st) of
                    Inl x \<Rightarrow> policy_reject env fs r risk_digest ''portfolio_policy_evidence_unavailable:'' x store
                  | Inr (pd, pp) \<Rightarrow>
                      let portfolio_digest = policy_digest (af_policy_sha fs) pd
                      in case bind_gate (evidence_gate fs pp r st) (\<lambda>c. bind_gate (signal_gate r (ax_signals st)) (\<lambda>s. Pass (c, s))) of
                           Reject reason \<Rightarrow>
                             evidence_reject env fs r (new_engine p (ax_switches st)) risk_digest portfolio_digest reason store
                         | Raise x \<Rightarrow> (Inl x, store)
                         | Pass (c, s) \<Rightarrow>
                             (case assess_checked env fs r st p pp risk_digest portfolio_digest c s of
                                Inl x \<Rightarrow> (Inl x, store) | Inr a \<Rightarrow> keep_assessment fs a store)))"

section \<open>What passes the gates\<close>


lemma evidence_exception_not_Pass [simp]: "evidence_exception x \<noteq> Pass y"
  by (simp add: evidence_exception_def)

lemma account_exception_not_Pass [simp]: "account_exception x \<noteq> Pass y"
  by (simp add: account_exception_def)






lemma keep_assessment_Inr: "keep_assessment fs a store = (Inr b, t) \<Longrightarrow> b = a"
  by (auto simp: keep_assessment_def split: option.splits prod.splits sum.splits)

lemma blocked_not_approved [simp]: "\<not> pa_approved (blocked_assessment env r x y reason d)"
  by (simp add: blocked_assessment_def pa_approved_def)



lemma signal_gate_Pass: "signal_gate r signals = Pass s \<longleftrightarrow> risk_signal (oi_signal_id (aq_intent r)) (aq_observed_at r) signals = Inr s"
  by (auto simp: signal_gate_def split: sum.splits)



text \<open>Every new assessment is of the requested intent, keeps only valid per-trade evidence, and goes through the store.\<close>

lemma assess_intent:
  assumes "re_postgres e = None" "assess env i s m ps ex e = (Inr d, t)"
  shows "rd_intent_id d = oi_intent_id i"
  using assms
  by (auto simp: assess_def assess_body_def bind_method_fst Let_def reserve_if_clear_def conclude_def create_risk_decision_def
      split: prod.splits sum.splits if_splits option.splits)

lemma per_trade_evidence_valid: "evaluate_per_trade_risk i s p = Inr (Some e, rs) \<Longrightarrow> evidence_valid e"
  by (auto simp: evaluate_per_trade_risk_def evaluate_configured_def bind_result_Inr_iff make_evidence_Inr
      split: option.splits xdecimal.splits if_splits)

definition well_assessed :: "uuid \<Rightarrow> assessment \<Rightarrow> bool" where
  "well_assessed i a \<longleftrightarrow>
     rd_intent_id (pa_risk_decision a) = i \<and> (\<forall>e. pa_per_trade_risk a = Some e \<longrightarrow> evidence_valid e)"

lemma assess_checked_well:
  assumes "assess_checked env fs r st p pp x y c s = Inr a"
  shows "well_assessed (oi_intent_id (aq_intent r)) a"
proof -
  from assms obtain pt rs z d where pt: "evaluate_per_trade_risk (aq_intent r) s p = Inr (pt, rs)" "pa_per_trade_risk a = pt"
    and d: "fst (assess (ge_engine env) (aq_intent r) s (aq_market r) (aq_portfolio_state r) (Some z) (new_engine p (ax_switches st))) = Inr d"
      "pa_risk_decision a = d"
    by (auto simp: assess_checked_def bind_result_Inr_iff split: prod.splits)
  from d(1) obtain t where "assess (ge_engine env) (aq_intent r) s (aq_market r) (aq_portfolio_state r) (Some z) (new_engine p (ax_switches st)) = (Inr d, t)"
    by (metis prod.collapse)
  then have "rd_intent_id d = oi_intent_id (aq_intent r)" by (intro assess_intent) (auto simp: new_engine_def)
  then show ?thesis using pt d(2) per_trade_evidence_valid by (auto simp: well_assessed_def)
qed

lemma blocked_well: "rd_intent_id d = i \<Longrightarrow> well_assessed i (blocked_assessment env r x y reason d)"
  by (simp add: well_assessed_def blocked_assessment_def)

lemma reject_unassessable_intent: "fst (reject_unassessable k t i reason e) = Inr d \<Longrightarrow> rd_intent_id d = i"
  by (auto simp: reject_unassessable_def Let_def bind_method_fst create_risk_decision_def split: if_splits sum.splits)

lemma policy_reject_kept:
  "policy_reject env fs r x label z store = (Inr a, t) \<Longrightarrow>
   well_assessed (oi_intent_id (aq_intent r)) a \<and> keep_assessment fs a store = (Inr a, t)"
  by (auto simp: policy_reject_def Let_def blocked_well split: if_splits dest: keep_assessment_Inr)

lemma evidence_reject_kept:
  "evidence_reject env fs r e x y reason store = (Inr a, t) \<Longrightarrow>
   well_assessed (oi_intent_id (aq_intent r)) a \<and> keep_assessment fs a store = (Inr a, t)"
  by (auto simp: evidence_reject_def blocked_well dest!: reject_unassessable_intent split: sum.splits)
     (use keep_assessment_Inr blocked_well in blast)+

lemma checked_kept:
  assumes "assess_checked env fs r st p pp x y c s = Inr b" "keep_assessment fs b store = (Inr a, t)"
  shows "well_assessed (oi_intent_id (aq_intent r)) a \<and> keep_assessment fs a store = (Inr a, t)"
  using assms keep_assessment_Inr [OF assms(2)] assess_checked_well by auto

lemma assess_pretrade_kept:
  assumes new: "existing_assessment fs (oi_intent_id (aq_intent r)) store = Inr None"
    and a: "assess_pretrade env fs r st store = (Inr a, store')"
  shows "well_assessed (oi_intent_id (aq_intent r)) a \<and> keep_assessment fs a store = (Inr a, store')"
  using a unfolding assess_pretrade_def new
  by (simp add: Let_def split: sum.splits prod.splits gate.splits)
     (blast dest: policy_reject_kept evidence_reject_kept checked_kept)+

lemma stored_approved [simp]: "pa_approved (stored_assessment a) = pa_approved a" "pa_assessment_id (stored_assessment a) = pa_assessment_id a"
  by (auto simp: pa_approved_def stored_assessment_def stored_columns_def split: option.splits)

section \<open>Properties\<close>


text \<open>
  C5: an intent is assessed once: after a new assessment was stored, every later request for that intent, with
  whatever evidence, policies and other appended assessments, returns the stored one with the same verdict and
  changes nothing.
\<close>

theorem assessment_decided_once:
  assumes "assess_pretrade env fs r st (Some s0) = (Inr a, Some s1)"
    "existing_assessment fs (oi_intent_id (aq_intent r)) (Some s0) = Inr None" "oi_intent_id (aq_intent r') = oi_intent_id (aq_intent r)"
    "s2 = fold (\<lambda>b s. snd (assessment_append (af_sha fs) (af_mac fs) b s)) later s1"
  shows "\<exists>b. assess_pretrade env' fs r' st' (Some s2) = (Inr b, Some s2) \<and> pa_assessment_id b = pa_assessment_id a \<and>
    pa_approved b = pa_approved a \<and> assessment_digest (af_sha fs) b = assessment_digest (af_sha fs) a"
proof -
  from assess_pretrade_kept [OF assms(2,1)] have k: "keep_assessment fs a (Some s0) = (Inr a, Some s1)"
    and w: "rd_intent_id (pa_risk_decision a) = oi_intent_id (aq_intent r)" "\<forall>e. pa_per_trade_risk a = Some e \<longrightarrow> evidence_valid e"
    by (auto simp: well_assessed_def)
  from k obtain u where u: "assessment_append (af_sha fs) (af_mac fs) a s0 = (Inr u, s1)"
    by (auto simp: keep_assessment_def split: prod.splits sum.splits)
  from assessment_run_prefix obtain m where "s2 = s1\<lparr>as_rows := as_rows s1 @ m\<rparr>" using assms(4) by blast
  with assessment_appended_read [OF u w(2), of m] w(1) assms(3)
  have "existing_assessment fs (oi_intent_id (aq_intent r')) (Some s2) = Inr (Some (stored_assessment a))" by (simp add: existing_assessment_def)
  then show ?thesis
    by (intro exI [of _ "stored_assessment a"]) (simp add: assess_pretrade_def assessment_digest_def stored_json)
qed

text \<open>
  The execution context fails closed: a session is open only for a listed instrument whose venue is in
  session, the broker state is certain only for a recent snapshot of that account from a healthy broker, buying
  power is read only from a certain snapshot, and a model counts as approved only by its registry.
\<close>

theorem execution_context_fails_closed:
  assumes "build_execution_context zone instruments models r = Inr x"
  shows "(ec_session_open x \<longleftrightarrow> (\<exists>ins. get_instrument (cr_instrument_id r) instruments = Inr ins \<and> ins_delisted_at ins = None \<and>
      is_trading_session zone (ins_venue ins) (cr_observed_at r) instruments = Inr True)) \<and>
    (ec_broker_state_certain x \<longleftrightarrow> cr_broker_healthy r \<and>
      snapshot_current (cr_broker_snapshot r) (cr_account_id r) (cr_observed_at r) (cr_maximum_snapshot_age r)) \<and>
    (\<not> ec_broker_state_certain x \<longrightarrow> ec_available_buying_power x = Dec 0 0) \<and>
    (ec_model_approved x \<longleftrightarrow> (\<exists>m. cr_model_id r = Some m \<and> is_model_approved m models = Inr True))"
  using assms
  by (auto simp: build_execution_context_def bind_result_Inr_iff Let_def model_permitted_def split: if_splits option.splits)

section \<open>A concrete assessment\<close>

definition sample_risk_payload :: payload where
  "sample_risk_payload = base_payload (\<lambda>f. if f \<in> {''maximum_order_notional'', ''maximum_position_notional'', ''maximum_daily_order_notional''}
     then JInt 1000 else JInt 1)"

definition sample_portfolio_payload :: payload where
  "sample_portfolio_payload = [(''maximum_gross_notional'', JInt 1000), (''maximum_single_weight'', JInt 1), (''maximum_scenario_loss'', JInt 1000)]"

definition sample_policies :: "policy_row list" where
  "sample_policies =
    [\<lparr>pw_document = \<lparr>pd_policy_type = ''risk'', pd_version = ''r1'', pd_payload = sample_risk_payload, pd_approved_by = ''op'', pd_approved_at = Aware 0 0\<rparr>, pw_digest = ''d''\<rparr>,
     \<lparr>pw_document = \<lparr>pd_policy_type = ''portfolio'', pd_version = ''p1'', pd_payload = sample_portfolio_payload, pd_approved_by = ''op'', pd_approved_at = Aware 0 0\<rparr>, pw_digest = ''d''\<rparr>]"

definition sample_functions :: assess_functions where
  "sample_functions = \<lparr>af_sha = (\<lambda>_. ''d''), af_policy_sha = (\<lambda>_. ''d''), af_mac = (\<lambda>k _. k), af_zone = sample_zone\<rparr>"

text \<open>The account is short one unit, the order buys it back.\<close>

definition short_account :: account_evidence where
  "short_account = sample_account\<lparr>av_snapshot := (av_snapshot sample_account)\<lparr>bas_positions :=
     [(''I1'', \<lparr>pos_instrument_id = ''I1'', pos_quantity = Dec (- 1) 0, pos_average_cost = Dec 100 0\<rparr>)]\<rparr>\<rparr>"

definition sample_execution :: execution_store where
  "sample_execution = \<lparr>xs_halts = [\<lparr>ho_observation_id = 1, ho_instrument_id = ''I1'', ho_halted = False, ho_source = ''h'', ho_source_reference = ''r'',
       ho_observed_at = Aware 5 0, ho_ingested_at = Aware 6 0\<rparr>],
     xs_events = [\<lparr>eo_observation_id = 2, eo_instrument_id = ''I1'', eo_risk = Dec 0 0, eo_source = ''v'', eo_source_reference = ''r'',
       eo_observed_at = Aware 5 0, eo_ingested_at = Aware 6 0\<rparr>],
     xs_slippages = [\<lparr>sl_estimate_id = 3, sl_instrument_id = ''I1'', sl_side = BUY, sl_expected_fraction = Dec 0 0, sl_source = ''s'',
       sl_source_reference = ''r'', sl_observed_at = Aware 5 0, sl_ingested_at = Aware 6 0\<rparr>]\<rparr>"

definition sample_snapshot :: execution_snapshot where
  "sample_snapshot = \<lparr>sn_halt = hd (xs_halts sample_execution), sn_event = hd (xs_events sample_execution), sn_slippage = hd (xs_slippages sample_execution)\<rparr>"

definition sample_input :: input_evidence where
  "sample_input = snapshot_input_evidence (\<lambda>_. ''d'') (source_text ''p'' ''r'' 1) (quote_snapshot evidence_quote)
     (account_exposure_reference short_account) (Aware 5 0) [] sample_snapshot"

definition approved_registry :: model_registry where
  "approved_registry = \<lparr>mr_versions = [sample_model], mr_validations = [sample_validation],
     mr_events = [\<lparr>me_event_id = 10, me_model_id = 1, me_status = MODEL_APPROVED, me_actor = ''op'', me_reason = ''ok'',
                    me_validation_id = Some 2, me_occurred_at = Aware 2 0\<rparr>], mr_drifts = [], mr_predictions = []\<rparr>"

definition validated_signals :: signal_store where
  "validated_signals = \<lparr>sg_signals = [\<lparr>sr_proposal = sample_proposal\<lparr>sp_instrument_id := ''I1''\<rparr>, sr_status = S_VALIDATED\<rparr>],
     sg_validations = [], sg_events = []\<rparr>"

definition sample_stores :: assess_stores where
  "sample_stores = \<lparr>ax_signals = validated_signals, ax_instruments = sample_store, ax_models = approved_registry,
     ax_execution = Some sample_execution, ax_quotes = Some [evidence_quote], ax_accounts = Some (StoredAccounts [short_account]),
     ax_returns = None, ax_policies = sample_policies, ax_switches = None\<rparr>"

definition sample_request :: assess_request where
  "sample_request = \<lparr>aq_intent = evidence_intent, aq_market = quote_snapshot evidence_quote,
     aq_portfolio_state = account_portfolio_state ''A'' (bas_positions (av_snapshot short_account)),
     aq_broker_snapshot = Some (av_snapshot short_account), aq_broker_healthy = True, aq_model_id = Some 1, aq_strategy_enabled = True,
     aq_instrument_halted = False, aq_quote_available = True, aq_expected_slippage_fraction = Dec 0 0, aq_event_risk = Dec 0 0,
     aq_projected_exposures = [], aq_portfolio_equity = Dec 1000 0, aq_scenarios = [\<lparr>ss_name = ''s'', ss_shocks = []\<rparr>],
     aq_historical_returns = None, aq_observed_at = Aware 7 0, aq_maximum_snapshot_age = 60, aq_input_evidence = Some sample_input,
     aq_maximum_evidence_age = 60, aq_risk_policy_version = ''r1'', aq_portfolio_policy_version = ''p1''\<rparr>"

definition sample_pretrade_env :: pretrade_env where
  "sample_pretrade_env = \<lparr>ge_assessment_id = 90, ge_assessed_at = Aware 7 0, ge_decision_id = 91, ge_decided_at = Aware 7 0,
     ge_engine = sample_assess_env\<lparr>ae_now := Aware 7 0, ae_signal_now := Aware 7 0\<rparr>\<rparr>"

lemma sample_risk_policy:
  "\<exists>d l. risk_policy_evidence sample_functions sample_request sample_policies = Inr (d, l) \<and> finite_limits l \<and>
     engine_policy l = \<lparr>rp_minimum_data_quality = Dec 1 0, rp_maximum_spread_fraction = Dec 1 0, rp_maximum_order_notional = Dec 1000 0,
       rp_maximum_position_notional = Dec 1000 0, rp_maximum_daily_order_notional = Dec 1000 0, rp_maximum_event_risk = Dec 1 0,
       rp_maximum_expected_slippage_fraction = Dec 1 0, rp_max_market_age_seconds = 1, rp_maximum_per_trade_loss = None,
       rp_maximum_stop_distance_fraction = None, rp_stop_gap_buffer_fraction = None\<rparr>"
proof -
  let ?g = "\<lambda>f. if f \<in> {''maximum_order_notional'', ''maximum_position_notional'', ''maximum_daily_order_notional''} then JInt 1000 else JInt 1"
  let ?h = "\<lambda>f. if f \<in> {''maximum_order_notional'', ''maximum_position_notional'', ''maximum_daily_order_notional''} then Finite (Dec 1000 0) else Finite (Dec 1 0)"
  have v: "\<forall>f \<in> set base_fields. json_decimal (?g f) = Some (?h f)" by simp
  have i: "json_int (?g ''max_market_age_seconds'') = Some 1" by simp
  note d = decode_base_payload [OF v i, folded sample_risk_payload_def]
  have g: "policy_get (\<lambda>_. ''d'') ''risk'' ''r1'' sample_policies = Inr (pw_document (hd sample_policies))"
    by (simp add: policy_get_def row_key_def sample_policies_def policy_digest_def)
  have k: "payload_keys sample_risk_payload = set base_fields" by (simp add: sample_risk_payload_def)
  have p: "pd_payload (pw_document (hd sample_policies)) = sample_risk_payload" by (simp add: sample_policies_def)
  show ?thesis
    by (simp add: risk_policy_evidence_def resolve_risk_policy_def sample_functions_def sample_request_def g p k d finite_limits_def
        engine_policy_def base_fields_def)
qed

lemma sample_portfolio_policy_read:
  "\<exists>d pp. portfolio_policy_evidence sample_functions sample_request sample_policies = Inr (d, pp) \<and>
     pp = \<lparr>pp_maximum_gross_notional = Dec 1000 0, pp_maximum_single_weight = Dec 1 0, pp_maximum_scenario_loss = Dec 1000 0,
       pp_maximum_net_notional = None, pp_maximum_var_loss = None, pp_maximum_cvar_loss = None, pp_maximum_group_notionals = [],
       pp_maximum_factor_notionals = [], pp_maximum_beta_notional = None, pp_maximum_duration_notional = None,
       pp_maximum_drawdown_loss = None, pp_minimum_historical_observations = None, pp_return_history_window_observations = None,
       pp_maximum_return_history_age_seconds = None\<rparr>"
proof -
  have g: "policy_get (\<lambda>_. ''d'') ''portfolio'' ''p1'' sample_policies = Inr (pw_document (last sample_policies))"
    by (simp add: policy_get_def row_key_def sample_policies_def policy_digest_def)
  have p: "pd_payload (pw_document (last sample_policies)) = sample_portfolio_payload" by (simp add: sample_policies_def)
  show ?thesis
    by (simp add: portfolio_policy_evidence_def resolve_portfolio_policy_def sample_functions_def sample_request_def g p Let_def
        sample_portfolio_payload_def payload_keys_def dict_keys_def required_fields_def decimal_fields_def decode_portfolio_field_def
        historical_fields_def portfolio_policy_of_def limit_of_def count_of_def mapping_of_def)
qed

lemma sample_request_fields:
  "aq_intent sample_request = evidence_intent" "aq_observed_at sample_request = Aware 7 0"
  "aq_market sample_request = quote_snapshot evidence_quote" "aq_projected_exposures sample_request = []"
  "aq_maximum_evidence_age sample_request = 60" "aq_input_evidence sample_request = Some sample_input"
  "aq_broker_snapshot sample_request = Some (av_snapshot short_account)" "aq_broker_healthy sample_request = av_healthy short_account"
  "aq_portfolio_state sample_request = account_portfolio_state ''A'' (bas_positions (av_snapshot short_account))"
  "oi_account_id evidence_intent = ''A''" "oi_instrument_id evidence_intent = ''I1''" "oi_side evidence_intent = BUY"
  by (simp_all add: sample_request_def evidence_intent_def short_account_def sample_account_def)

lemma same_refl:
  "dict_same deq d d" "same_account b b" "same_state p p" "same_market m m"
proof -
  have r: "dict_same f d d" if "\<And>v. f v v" for f :: "'v \<Rightarrow> 'v \<Rightarrow> bool" and d
    using that by (auto simp: dict_same_def dict_keys_def split: option.splits dest: weak_map_of_SomeI map_of_eq_None_iff [THEN iffD1])
  show "dict_same deq d d" by (rule r) simp
  moreover have "dict_same same_position (bas_positions b) (bas_positions b)" by (rule r) (simp add: same_position_def)
  moreover have "dict_same deq (ps_position_notionals p) (ps_position_notionals p)" by (rule r) simp
  ultimately show "same_account b b" "same_state p p" "same_market m m"
    by (simp_all add: same_account_def same_state_def same_market_def same_time_def)
qed

lemma sample_gate_evidence:
  assumes "\<not> requires_return_history pp"
  shows "evidence_gate sample_functions pp sample_request sample_stores = Pass \<lparr>ce_account = short_account, ce_exposures = [], ce_returns = None\<rparr>"
proof -
  have q: "quote_gate sample_request [evidence_quote] = Pass evidence_quote"
    using evidence_quote_known
    by (simp add: quote_gate_def sample_request_def evidence_intent_def same_market_def same_time_def)
  have n: "deq (Dec (- 1) 0 + Dec 1 0) 0" "\<not> deq (Dec (- 1) 0) 0" by (simp_all add: dec_eval)
  have k: "stored_latest_account ''A'' (Aware 7 0) [short_account] = Inr short_account"
    by (simp add: stored_latest_account_def known_account_evidence_def newest_as_of_def newest_def keep_newer_def visible_at_def iso_le_def
        short_account_def sample_account_def)
  have e: "stored_projected_exposures ''A'' evidence_intent (Aware 7 0) sample_store [evidence_quote] [short_account] = Inr (short_account, [])"
    by (simp add: stored_projected_exposures_def k Let_def)
       (simp add: short_account_def sample_account_def evidence_intent_def exposures_after_def projected_quantities_def order_quantity_def
        dict_get_or_def n unavailable_exposures_def)
  have a: "account_gate sample_request sample_store [evidence_quote] (StoredAccounts [short_account]) = Pass (short_account, [])"
    by (simp add: account_gate_def sample_request_fields Let_def e portfolio_state_as_of_def k same_refl)
       (simp add: short_account_def sample_account_def same_refl)
  have sn: "execution_snapshot_as_of ''I1'' BUY (Aware 7 0) sample_execution = Inr sample_snapshot"
    by (simp add: execution_snapshot_as_of_def known_halt_def known_event_def known_slippage_def newest_as_of_def newest_def keep_newer_def
        visible_at_def iso_le_def sample_execution_def sample_snapshot_def)
  have x: "execution_gate sample_functions pp sample_request sample_input evidence_quote short_account [] sample_execution None = Pass None"
    by (simp add: execution_gate_def sample_request_def evidence_intent_def sn assms sample_functions_def sample_input_def)
       (simp add: evidence_quote_def sample_quote_def short_account_def sample_account_def same_evidence_def same_time_def sample_snapshot_def
        sample_execution_def snapshot_input_evidence_def)
  have v: "validate_input_evidence (\<lambda>_. ''d'') sample_input (Aware 7 0) (quote_snapshot evidence_quote) [] 60 False = Inr ()"
    by (simp add: validate_input_evidence_def sample_input_def snapshot_input_evidence_def sample_snapshot_def sample_execution_def
        source_text_def account_exposure_reference_def exposure_reference_def blank_iff is_space_def stale_time_def quote_snapshot_def
        evidence_quote_def sample_quote_def projected_exposure_fingerprint_def)
  show ?thesis using q a x v assms by (simp add: evidence_gate_def sample_stores_def sample_functions_def sample_request_fields)
qed

lemma sample_signal_read:
  "\<exists>s. signal_gate sample_request validated_signals = Pass s \<and> sig_signal_id s = 2 \<and> sig_instrument_id s = ''I1'' \<and>
     sig_status s = VALIDATED \<and> sig_expires_at s = Aware 10 0 \<and> sig_data_quality_score s = Dec 1 0 \<and> sig_strategy_version s = ''v1''"
  by (simp add: signal_gate_Pass sample_request_def evidence_intent_def validated_signals_def risk_signal_def find_signal_def row_id_def
      sample_proposal_def)

lemma sample_context:
  "build_execution_context sample_zone sample_store approved_registry (context_of_request sample_request short_account) =
   Inr \<lparr>ec_session_open = True, ec_instrument_halted = False, ec_quote_available = True, ec_expected_slippage_fraction = Dec 0 0,
     ec_event_risk = Dec 0 0, ec_available_buying_power = Dec 1000 0, ec_broker_state_certain = True, ec_strategy_enabled = True,
     ec_model_approved = True\<rparr>"
  by (simp add: build_execution_context_def context_of_request_def sample_request_def evidence_intent_def get_instrument_def sample_store_def
      sample_instrument_def is_trading_session_def sample_zone_def session_contains_def local_time_def weekday_of_def date_of_def
      short_account_def sample_account_def snapshot_current_def model_permitted_def is_model_approved_def model_status_of_def
      approved_registry_def get_model_def sample_model_def latest_status_def)

lemma sample_portfolio_decision:
  assumes "pp = \<lparr>pp_maximum_gross_notional = Dec 1000 0, pp_maximum_single_weight = Dec 1 0, pp_maximum_scenario_loss = Dec 1000 0,
       pp_maximum_net_notional = None, pp_maximum_var_loss = None, pp_maximum_cvar_loss = None, pp_maximum_group_notionals = [],
       pp_maximum_factor_notionals = [], pp_maximum_beta_notional = None, pp_maximum_duration_notional = None,
       pp_maximum_drawdown_loss = None, pp_minimum_historical_observations = None, pp_return_history_window_observations = None,
       pp_maximum_return_history_age_seconds = None\<rparr>"
  shows "\<exists>d. evaluate_portfolio [] (Dec 1000 0) [\<lparr>ss_name = ''s'', ss_shocks = []\<rparr>] pp None (Dec 5 (- 2)) = Inr d \<and> prd_approved d"
  unfolding assms
  by (simp add: evaluate_portfolio_def portfolio_inputs_error_def bad_count_def blank_iff is_space_def stress_def exposure_reasons_def
      concentration_breaches_def collect_def gross_and_net_def PyDecimal.dsum_def dict_of_def weighted_reasons_def exceeds_def portfolio_metrics_def
      portfolio_drawdown_def history_reasons_def Let_def dec_eval split: sum.splits)

lemma sample_assessed:
  assumes "sig_signal_id s = 2" "sig_instrument_id s = ''I1''" "sig_status s = VALIDATED" "sig_expires_at s = Aware 10 0"
    "sig_data_quality_score s = Dec 1 0"
    "p = \<lparr>rp_minimum_data_quality = Dec 1 0, rp_maximum_spread_fraction = Dec 1 0, rp_maximum_order_notional = Dec 1000 0,
       rp_maximum_position_notional = Dec 1000 0, rp_maximum_daily_order_notional = Dec 1000 0, rp_maximum_event_risk = Dec 1 0,
       rp_maximum_expected_slippage_fraction = Dec 1 0, rp_max_market_age_seconds = 1, rp_maximum_per_trade_loss = None,
       rp_maximum_stop_distance_fraction = None, rp_stop_gap_buffer_fraction = None\<rparr>"
  shows "\<exists>d t. assess (ge_engine sample_pretrade_env) evidence_intent s (quote_snapshot evidence_quote)
      (account_portfolio_state ''A'' (bas_positions (av_snapshot short_account)))
      (Some \<lparr>ec_session_open = True, ec_instrument_halted = False, ec_quote_available = True, ec_expected_slippage_fraction = Dec 0 0,
         ec_event_risk = Dec 0 0, ec_available_buying_power = Dec 1000 0, ec_broker_state_certain = True, ec_strategy_enabled = True,
         ec_model_approved = True\<rparr>) (new_engine p None) = (Inr d, t) \<and> rd_decision d = APPROVE"
  using assms
  by (simp add: sample_pretrade_env_def sample_assess_env_def evidence_intent_def quote_snapshot_def evidence_quote_def sample_quote_def
      short_account_def account_portfolio_state_def position_notionals_def new_engine_def assess_def engine_claim_def mem_claim_def
      assess_body_def assess_reasons_def evaluate_per_trade_risk_def switch_reasons_def engine_blocks_def mem_blocks_def
      execution_reasons_def validate_execution_def input_reasons_def portfolio_reasons_def
      reason_if_def projected_notional_def position_notional_def dict_get_or_def notional_def is_expired_def
      spread_fraction_def seconds_def reserve_if_clear_def engine_reserve_def mem_reserve_def bind_method_def
      conclude_def record_decision_def create_risk_decision_def Let_def dec_eval)

lemma sample_assessment_run:
  assumes "existing_assessment sample_functions (oi_intent_id evidence_intent) store = Inr None"
  shows "\<exists>a. assess_pretrade sample_pretrade_env sample_functions sample_request sample_stores store = keep_assessment sample_functions a store \<and>
    pa_approved a"
proof -
  obtain rd l where rl: "risk_policy_evidence sample_functions sample_request sample_policies = Inr (rd, l)"
    and l: "engine_policy l = \<lparr>rp_minimum_data_quality = Dec 1 0, rp_maximum_spread_fraction = Dec 1 0, rp_maximum_order_notional = Dec 1000 0,
       rp_maximum_position_notional = Dec 1000 0, rp_maximum_daily_order_notional = Dec 1000 0, rp_maximum_event_risk = Dec 1 0,
       rp_maximum_expected_slippage_fraction = Dec 1 0, rp_max_market_age_seconds = 1, rp_maximum_per_trade_loss = None,
       rp_maximum_stop_distance_fraction = None, rp_stop_gap_buffer_fraction = None\<rparr>"
    using sample_risk_policy by blast
  obtain pd pp where pr: "portfolio_policy_evidence sample_functions sample_request sample_policies = Inr (pd, pp)"
    and h: "\<not> requires_return_history pp"
    and pd: "\<exists>d. evaluate_portfolio [] (Dec 1000 0) [\<lparr>ss_name = ''s'', ss_shocks = []\<rparr>] pp None (Dec 5 (- 2)) = Inr d \<and> prd_approved d"
    using sample_portfolio_policy_read sample_portfolio_decision by (auto simp: requires_return_history_def)
  obtain s where s: "signal_gate sample_request validated_signals = Pass s" "sig_signal_id s = 2" "sig_instrument_id s = ''I1''"
    "sig_status s = VALIDATED" "sig_expires_at s = Aware 10 0" "sig_data_quality_score s = Dec 1 0" using sample_signal_read by blast
  obtain d t where d: "assess (ge_engine sample_pretrade_env) evidence_intent s (quote_snapshot evidence_quote)
      (account_portfolio_state ''A'' (bas_positions (av_snapshot short_account)))
      (Some \<lparr>ec_session_open = True, ec_instrument_halted = False, ec_quote_available = True, ec_expected_slippage_fraction = Dec 0 0,
         ec_event_risk = Dec 0 0, ec_available_buying_power = Dec 1000 0, ec_broker_state_certain = True, ec_strategy_enabled = True,
         ec_model_approved = True\<rparr>) (new_engine (engine_policy l) None) = (Inr d, t)" "rd_decision d = APPROVE"
    using sample_assessed [OF s(2-6) l] by blast
  have pt: "evaluate_per_trade_risk evidence_intent s (engine_policy l) = Inr (None, [])" by (simp add: evaluate_per_trade_risk_def l)
  have st: "ax_policies sample_stores = sample_policies" "ax_signals sample_stores = validated_signals" "ax_switches sample_stores = None"
    "ax_instruments sample_stores = sample_store" "ax_models sample_stores = approved_registry" "af_zone sample_functions = sample_zone"
    "aq_portfolio_equity sample_request = Dec 1000 0" "aq_scenarios sample_request = [\<lparr>ss_name = ''s'', ss_shocks = []\<rparr>]"
    by (simp_all add: sample_stores_def sample_functions_def sample_request_def)
  from pd obtain q where q: "evaluate_portfolio [] (Dec 1000 0) [\<lparr>ss_name = ''s'', ss_shocks = []\<rparr>] pp None (Dec 5 (- 2)) = Inr q" "prd_approved q"
    by blast
  show ?thesis
    using d(2) q(2)
    by (simp add: assess_pretrade_def assms st rl pr Let_def sample_gate_evidence [OF h] s(1) assess_checked_def
        sample_request_fields pt sample_context d(1) q(1))
       (rule exI, rule conjI, rule refl, simp add: pa_approved_def)
qed



theorem assessment_decided_once_witness:
  "\<exists>s1 b. assess_pretrade sample_pretrade_env sample_functions sample_request sample_stores (Some \<lparr>as_key = None, as_rows = []\<rparr>) = (Inr b, Some s1) \<and>
     pa_approved b \<and> (\<exists>c. assess_pretrade (sample_pretrade_env\<lparr>ge_assessment_id := 99\<rparr>) sample_functions
       (sample_request\<lparr>aq_broker_healthy := False\<rparr>) sample_stores (Some s1) = (Inr c, Some s1) \<and> pa_approved c)"
proof -
  let ?s = "\<lparr>as_key = None, as_rows = []\<rparr>"
  have n: "existing_assessment sample_functions (oi_intent_id evidence_intent) (Some ?s) = Inr None"
    by (simp add: existing_assessment_def get_for_intent_def)
  from sample_assessment_run [OF n] obtain a s1 where
    a: "assess_pretrade sample_pretrade_env sample_functions sample_request sample_stores (Some ?s) = (Inr a, Some s1)" "pa_approved a"
    by (auto simp: keep_assessment_def assessment_append_def)
  have i: "oi_intent_id (aq_intent sample_request) = oi_intent_id evidence_intent" by (simp add: sample_request_fields)
  show ?thesis
    using a assessment_decided_once [OF a(1) n [folded i], of "sample_request\<lparr>aq_broker_healthy := False\<rparr>" s1 "[]"] by auto
qed

theorem execution_context_fails_closed_witness:
  "\<exists>ins. get_instrument ''I1'' sample_store = Inr ins \<and> ins_delisted_at ins = None"
  using execution_context_fails_closed [OF sample_context] by (auto simp: context_of_request_def sample_request_fields)

end
