(* ===== verification/CorporateActions.thy ===== *)
theory CorporateActions
  imports PaperExecution DecimalText SqlOrder "HOL-Library.Multiset"
begin

text \<open>
  \<open>corporate_actions.py\<close>: splits, dividends, symbol changes and delistings, their application to a position and
  a cash balance, and the append-only store of their revisions. The store keeps the rows of its open transaction
  beside the committed ones, because a batch that fails validation half-way is not rolled back.
\<close>

section \<open>Actions\<close>

datatype corporate_action_type = SPLIT | CASH_DIVIDEND | SYMBOL_CHANGE | DELISTING

record corporate_action =
  ca_instrument_id :: string
  ca_action_type :: corporate_action_type
  ca_announced_at :: datetime
  ca_effective_at :: datetime
  ca_ingested_at :: datetime
  ca_provider :: string
  ca_source_identifier :: string
  ca_revision :: int
  ca_ratio :: "decimal option"
  ca_amount_per_share :: "decimal option"
  ca_currency :: "string option"
  ca_successor_instrument_id :: "string option"
  ca_cash_out_price :: "decimal option"

abbreviation action_error :: "string \<Rightarrow> py_exc" where
  "action_error \<equiv> Exc CorporateActionError"

text \<open>\<open>not value\<close> for an optional string.\<close>

definition missing_text :: "string option \<Rightarrow> bool" where
  "missing_text v \<longleftrightarrow> v = None \<or> v = Some []"

definition validate_action :: "corporate_action \<Rightarrow> unit result" where
  "validate_action a =
     (if blank (ca_instrument_id a) \<or> blank (ca_provider a) \<or> blank (ca_source_identifier a) \<or> ca_revision a < 0
      then Inl (action_error ''invalid_corporate_action_identity'')
      else if \<not> aware (ca_announced_at a) \<or> \<not> aware (ca_effective_at a) \<or> \<not> aware (ca_ingested_at a) \<or>
        instant (ca_effective_at a) < instant (ca_announced_at a) \<or> instant (ca_ingested_at a) < instant (ca_announced_at a)
      then Inl (action_error ''invalid_corporate_action_timestamps'')
      else if ca_action_type a = SPLIT \<and> (case ca_ratio a of None \<Rightarrow> True | Some r \<Rightarrow> r \<le> 0)
      then Inl (action_error ''split_requires_positive_ratio'')
      else if ca_action_type a = CASH_DIVIDEND \<and>
        ((case ca_amount_per_share a of None \<Rightarrow> True | Some v \<Rightarrow> v < 0) \<or> missing_text (ca_currency a))
      then Inl (action_error ''dividend_requires_amount_and_currency'')
      else if ca_action_type a = SYMBOL_CHANGE \<and> missing_text (ca_successor_instrument_id a)
      then Inl (action_error ''symbol_change_requires_successor'')
      else if ca_action_type a = DELISTING \<and>
        ((case ca_cash_out_price a of None \<Rightarrow> True | Some v \<Rightarrow> v < 0) \<or> missing_text (ca_currency a))
      then Inl (action_error ''delisting_requires_cash_out_price_and_currency'')
      else Inr ())"

section \<open>Application to holdings\<close>

record action_application =
  aa_position :: position
  aa_cash :: cash_balance
  aa_applied :: "string list"

definition action_label :: "corporate_action \<Rightarrow> string" where
  "action_label a = ca_provider a @ '':'' @ ca_source_identifier a @ '':'' @ nat_str (nat (ca_revision a))"

text \<open>
  One round of the loop of \<open>apply_actions\<close>. Behind \<open>validate\<close> the fields an action type needs are there and a
  ratio is not zero (\<open>valid_action_fields\<close> below).
\<close>

definition apply_action :: "datetime \<Rightarrow> corporate_action \<Rightarrow> action_application \<Rightarrow> action_application result" where
  "apply_action as_of a s =
     bind_result (validate_action a) (\<lambda>_.
       let p = aa_position s; c = aa_cash s; applied = aa_applied s @ [action_label a] in
       if instant as_of < instant (ca_effective_at a)
       then Inl (action_error ''cannot_apply_future_corporate_action'')
       else if ca_instrument_id a \<noteq> pos_instrument_id p
       then Inl (action_error ''corporate_action_instrument_mismatch'')
       else
         (case ca_action_type a of
            SPLIT \<Rightarrow>
              let r = the (ca_ratio a)
              in Inr \<lparr>aa_position = mk_position (pos_instrument_id p) (pos_quantity p * r) (dquot (pos_average_cost p) r),
                      aa_cash = c, aa_applied = applied\<rparr>
          | CASH_DIVIDEND \<Rightarrow>
              if Some (cash_currency c) \<noteq> ca_currency a then Inl (action_error ''corporate_action_currency_mismatch'')
              else Inr \<lparr>aa_position = p,
                        aa_cash = mk_cash (cash_currency c) (cash_amount c + pos_quantity p * the (ca_amount_per_share a)),
                        aa_applied = applied\<rparr>
          | SYMBOL_CHANGE \<Rightarrow>
              Inr \<lparr>aa_position = mk_position (the (ca_successor_instrument_id a)) (pos_quantity p) (pos_average_cost p),
                   aa_cash = c, aa_applied = applied\<rparr>
          | DELISTING \<Rightarrow>
              if Some (cash_currency c) \<noteq> ca_currency a then Inl (action_error ''corporate_action_currency_mismatch'')
              else Inr \<lparr>aa_position = mk_position (pos_instrument_id p) (Dec 0 0) (Dec 0 0),
                        aa_cash = mk_cash (cash_currency c) (cash_amount c + pos_quantity p * the (ca_cash_out_price a)),
                        aa_applied = applied\<rparr>))"

definition action_order :: "corporate_action \<Rightarrow> int \<times> int" where
  "action_order a = (instant (ca_effective_at a), ca_revision a)"

definition apply_actions :: "position \<Rightarrow> cash_balance \<Rightarrow> corporate_action list \<Rightarrow> datetime \<Rightarrow> action_application result" where
  "apply_actions p c actions as_of =
     (if \<not> aware as_of then Inl (action_error ''action_application_timestamp_must_be_timezone_aware'')
      else fold_result (apply_action as_of) (sort_key action_order actions)
             \<lparr>aa_position = p, aa_cash = c, aa_applied = []\<rparr>)"

section \<open>The store\<close>

record action_store =
  cs_rows :: "corporate_action list"
  cs_committed :: "corporate_action list"

definition empty_actions :: action_store where
  "empty_actions = \<lparr>cs_rows = [], cs_committed = []\<rparr>"

definition action_key :: "corporate_action \<Rightarrow> string \<times> string \<times> int" where
  "action_key a = (ca_provider a, ca_source_identifier a, ca_revision a)"

text \<open>
  The loop of \<open>ingest\<close> with its \<open>commit\<close>. A duplicate rolls the open transaction back; a failed \<open>validate\<close>
  leaves it open.
\<close>

fun insert_actions :: "corporate_action list \<Rightarrow> (action_store, unit) operation" where
  "insert_actions [] s = (Inr (), s\<lparr>cs_committed := cs_rows s\<rparr>)"
| "insert_actions (a # rest) s =
     (case validate_action a of
        Inl x \<Rightarrow> (Inl x, s)
      | Inr _ \<Rightarrow>
          if action_key a \<in> action_key ` set (cs_rows s)
          then (Inl (action_error ''duplicate_corporate_action_revision''), s\<lparr>cs_rows := cs_committed s\<rparr>)
          else insert_actions rest (s\<lparr>cs_rows := cs_rows s @ [a]\<rparr>))"

definition ingest_actions :: "corporate_action list \<Rightarrow> (action_store, unit) operation" where
  "ingest_actions actions s =
     (if actions = [] then (Inl (action_error ''empty_corporate_action_batch''), s) else insert_actions actions s)"

text \<open>
  \<open>ORDER BY announced_at DESC, revision DESC, ingested_at DESC, effective_at\<close>, and the first row of every
  provider and source identifier.
\<close>

definition announced_order :: "corporate_action \<Rightarrow> (int \<times> int \<times> int) \<times> int \<times> (int \<times> int \<times> int)" where
  "announced_order a = (iso_key (ca_announced_at a), ca_revision a, iso_key (ca_ingested_at a))"

definition newest_first :: "corporate_action list \<Rightarrow> corporate_action list" where
  "newest_first rows = rev (sort_key announced_order (rev (sort_key (\<lambda>a. iso_key (ca_effective_at a)) rows)))"

definition source_key :: "corporate_action \<Rightarrow> string \<times> string" where
  "source_key a = (ca_provider a, ca_source_identifier a)"

fun first_per_source :: "corporate_action list \<Rightarrow> corporate_action list" where
  "first_per_source [] = []"
| "first_per_source (a # rows) = a # filter (\<lambda>b. source_key b \<noteq> source_key a) (first_per_source rows)"

definition known_action :: "string \<Rightarrow> datetime \<Rightarrow> corporate_action \<Rightarrow> bool" where
  "known_action i t a \<longleftrightarrow> ca_instrument_id a = i \<and> iso_le (ca_announced_at a) t \<and> iso_le (ca_ingested_at a) t"

definition effective_order :: "corporate_action \<Rightarrow> int \<times> string \<times> string" where
  "effective_order a = (instant (ca_effective_at a), ca_provider a, ca_source_identifier a)"

definition available_actions :: "string \<Rightarrow> datetime \<Rightarrow> action_store \<Rightarrow> corporate_action list result" where
  "available_actions i t s =
     (if blank i \<or> \<not> aware t then Inl (action_error ''invalid_corporate_action_as_of_query'')
      else Inr (sort_key effective_order (first_per_source (newest_first (filter (known_action i t) (cs_rows s))))))"

section \<open>Facts\<close>

lemma valid_action_fields:
  assumes "validate_action a = Inr ()"
  shows "ca_action_type a = SPLIT \<Longrightarrow> \<exists>r. ca_ratio a = Some r \<and> 0 < r"
    "ca_action_type a = CASH_DIVIDEND \<Longrightarrow> \<exists>v. ca_amount_per_share a = Some v"
    "ca_action_type a = SYMBOL_CHANGE \<Longrightarrow> \<exists>v. ca_successor_instrument_id a = Some v"
    "ca_action_type a = DELISTING \<Longrightarrow> \<exists>v. ca_cash_out_price a = Some v"
  using assms by (auto simp: validate_action_def missing_text_def split: if_splits option.splits)

lemma set_newest_first [simp]: "set (newest_first rows) = set rows"
  by (simp add: newest_first_def)

lemma newest_first_sorted: "sorted_wrt (\<lambda>a b. announced_order b \<le> announced_order a) (newest_first rows)"
proof -
  let ?xs = "sort_key announced_order (rev (sort_key (\<lambda>a. iso_key (ca_effective_at a)) rows))"
  have "sorted_wrt (\<lambda>a b. announced_order a \<le> announced_order b) ?xs"
    using sorted_sort_key [of announced_order] by (simp add: sorted_map)
  then show ?thesis by (simp add: newest_first_def sorted_wrt_rev)
qed

lemma first_per_source_keys:
  "distinct (map source_key (first_per_source rows)) \<and> source_key ` set (first_per_source rows) = source_key ` set rows"
proof (induction rows)
  case Nil
  then show ?case by simp
next
  case (Cons a rows)
  have "source_key ` {b \<in> set (first_per_source rows). source_key b \<noteq> source_key a} = source_key ` set (first_per_source rows) - {source_key a}"
    by auto
  then show ?case using Cons by (auto simp: distinct_map_filter)
qed

lemma first_per_source_first:
  "sorted_wrt (\<lambda>a b. announced_order b \<le> announced_order a) rows \<Longrightarrow> a \<in> set (first_per_source rows) \<Longrightarrow>
   a \<in> set rows \<and> (\<forall>b \<in> set rows. source_key b = source_key a \<longrightarrow> announced_order b \<le> announced_order a)"
  by (induction rows) auto

text \<open>Batches of rows ingested after \<open>t\<close> do not change what was known at \<open>t\<close>.\<close>

definition knows :: "string \<Rightarrow> datetime \<Rightarrow> corporate_action list \<Rightarrow> action_store \<Rightarrow> bool" where
  "knows i t rows s \<longleftrightarrow> filter (known_action i t) (cs_rows s) = rows \<and> filter (known_action i t) (cs_committed s) = rows"

lemma insert_actions_knows:
  "\<forall>a \<in> set xs. \<not> iso_le (ca_ingested_at a) t \<Longrightarrow> knows i t rows s \<Longrightarrow> knows i t rows (snd (insert_actions xs s))"
  by (induction xs arbitrary: s) (auto simp: knows_def known_action_def split: sum.splits)

lemma ingest_run_knows:
  "\<forall>b \<in> set batches. \<forall>a \<in> set b. \<not> iso_le (ca_ingested_at a) t \<Longrightarrow> knows i t rows s \<Longrightarrow>
   knows i t rows (fold (\<lambda>b s. snd (ingest_actions b s)) batches s)"
  by (induction batches arbitrary: s) (auto simp: ingest_actions_def insert_actions_knows)

lemma applied_labels:
  "fold_result (apply_action as_of) xs s = Inr r \<Longrightarrow>
   aa_applied r = aa_applied s @ map action_label xs \<and>
   (\<forall>a \<in> set xs. validate_action a = Inr () \<and> instant (ca_effective_at a) \<le> instant as_of)"
proof (induction xs arbitrary: s)
  case Nil
  then show ?case by simp
next
  case (Cons a xs)
  from Cons.prems obtain u where u: "apply_action as_of a s = Inr u" "fold_result (apply_action as_of) xs u = Inr r"
    by (auto split: sum.splits)
  then have "aa_applied u = aa_applied s @ [action_label a] \<and> validate_action a = Inr () \<and>
      instant (ca_effective_at a) \<le> instant as_of"
    by (auto simp: apply_action_def bind_result_Inr_iff Let_def split: if_splits corporate_action_type.splits)
  with Cons.IH [OF u(2)] show ?case by simp
qed

section \<open>Properties\<close>

text \<open>
  The corporate actions a decision reads are, in the order they take effect, exactly one per provider and source
  identifier among the actions of the instrument announced and ingested by then, the one announced last (the highest
  revision among those); and batches ingested later, accepted or not, never change them.
\<close>

theorem actions_as_of_no_look_ahead:
  assumes "available_actions i t s = Inr xs" "cs_committed s = cs_rows s"
    "\<forall>b \<in> set batches. \<forall>a \<in> set b. \<not> iso_le (ca_ingested_at a) t"
  shows "available_actions i t (fold (\<lambda>b s. snd (ingest_actions b s)) batches s) = Inr xs \<and>
    sorted (map effective_order xs) \<and> distinct (map source_key xs) \<and>
    (\<forall>a \<in> set xs. a \<in> set (cs_rows s) \<and> known_action i t a) \<and>
    (\<forall>b \<in> set (cs_rows s). known_action i t b \<longrightarrow> (\<exists>a \<in> set xs. source_key a = source_key b \<and> announced_order b \<le> announced_order a))"
proof -
  let ?rows = "filter (known_action i t) (cs_rows s)"
  let ?firsts = "first_per_source (newest_first ?rows)"
  from assms(1) have q: "\<not> blank i" "aware t" "xs = sort_key effective_order ?firsts"
    by (auto simp: available_actions_def split: if_splits)
  have "knows i t ?rows (fold (\<lambda>b s. snd (ingest_actions b s)) batches s)"
    using assms(2,3) by (intro ingest_run_knows) (auto simp: knows_def)
  then have later: "available_actions i t (fold (\<lambda>b s. snd (ingest_actions b s)) batches s) = Inr xs"
    using q by (simp add: available_actions_def knows_def)
  note firsts = first_per_source_first [OF newest_first_sorted]
  note keys = first_per_source_keys [of "newest_first ?rows"]
  have "mset (map source_key xs) = mset (map source_key ?firsts)" using q by simp
  then have d: "distinct (map source_key xs)" using keys mset_eq_imp_distinct_iff by blast
  have sound: "a \<in> set (cs_rows s) \<and> known_action i t a" if "a \<in> set xs" for a
    using firsts [of a ?rows] that q(3) by simp
  have "\<exists>a \<in> set xs. source_key a = source_key b \<and> announced_order b \<le> announced_order a"
    if b: "b \<in> set (cs_rows s)" "known_action i t b" for b
  proof -
    from b have "source_key b \<in> source_key ` set ?firsts" using keys by auto
    then obtain a where a: "a \<in> set ?firsts" "source_key a = source_key b" by (metis imageE)
    moreover have "announced_order b \<le> announced_order a" using firsts [OF a(1)] b a(2) by auto
    ultimately show ?thesis using q(3) by auto
  qed
  moreover have "sorted (map effective_order xs)" using q(3) by simp
  ultimately show ?thesis using later d sound by (intro conjI ballI impI) (simp_all only:)
qed

text \<open>
  Applying actions is deterministic: the outcome does not depend on the order in which they are given when no
  two share effective time and revision; it applies each exactly once and none before it takes effect.
\<close>

theorem action_application_order_free:
  assumes "apply_actions p c xs as_of = Inr r" "mset ys = mset xs" "inj_on action_order (set xs)"
  shows "apply_actions p c ys as_of = Inr r \<and> mset (aa_applied r) = mset (map action_label ys) \<and>
    (\<forall>a \<in> set xs. validate_action a = Inr () \<and> instant (ca_effective_at a) \<le> instant as_of)"
proof -
  have s: "sort_key action_order xs = sort_key action_order ys"
    by (rule sort_key_inj_key_eq) (use assms(2,3) in auto)
  from assms(1) have f: "fold_result (apply_action as_of) (sort_key action_order xs) \<lparr>aa_position = p, aa_cash = c, aa_applied = []\<rparr> = Inr r"
    by (auto simp: apply_actions_def split: if_splits)
  have m: "set ys = set xs" using assms(2) mset_eq_setD by blast
  have "apply_actions p c ys as_of = Inr r" using assms(1) unfolding apply_actions_def s .
  moreover have "mset (aa_applied r) = mset (map action_label ys)" using applied_labels [OF f] s by simp
  moreover have "\<forall>a \<in> set xs. validate_action a = Inr () \<and> instant (ca_effective_at a) \<le> instant as_of"
    using applied_labels [OF f] by simp
  ultimately show ?thesis by blast
qed

section \<open>Concrete actions\<close>

definition sample_split :: corporate_action where
  "sample_split = \<lparr>ca_instrument_id = ''ACME'', ca_action_type = SPLIT, ca_announced_at = Aware 1 0, ca_effective_at = Aware 5 0,
     ca_ingested_at = Aware 2 0, ca_provider = ''f'', ca_source_identifier = ''split'', ca_revision = 0, ca_ratio = Some (Dec 2 0),
     ca_amount_per_share = None, ca_currency = None, ca_successor_instrument_id = None, ca_cash_out_price = None\<rparr>"

lemma sample_split_valid:
  "validate_action sample_split = Inr ()" "validate_action (sample_split\<lparr>ca_ratio := r\<rparr>) = Inr () \<longleftrightarrow> (\<exists>v. r = Some v \<and> 0 < v)"
  by (auto simp: validate_action_def sample_split_def blank_iff is_space_def dec_order split: option.splits)

theorem actions_as_of_no_look_ahead_witness:
  "\<exists>s. available_actions ''ACME'' (Aware 3 0) s = Inr [sample_split] \<and>
     available_actions ''ACME'' (Aware 3 0) (snd (ingest_actions [sample_split\<lparr>ca_revision := 1, ca_ingested_at := Aware 4 0\<rparr>] s)) = Inr [sample_split]"
proof -
  let ?s = "\<lparr>cs_rows = [sample_split], cs_committed = [sample_split]\<rparr>"
  have a: "available_actions ''ACME'' (Aware 3 0) ?s = Inr [sample_split]"
    by (simp add: available_actions_def newest_first_def known_action_def sample_split_def blank_iff is_space_def iso_le_def)
  from actions_as_of_no_look_ahead [OF a, of "[[sample_split\<lparr>ca_revision := 1, ca_ingested_at := Aware 4 0\<rparr>]]"] a
  show ?thesis by (intro exI [of _ ?s]) (simp add: iso_le_def)
qed

text \<open>
  A batch that fails validation half-way stays in the open transaction: the next reader sees its first rows, and
  the next accepted batch commits them.
\<close>

lemma rejected_batch_half_visible:
  "fst (ingest_actions [sample_split, sample_split\<lparr>ca_ratio := None\<rparr>] empty_actions) =
     Inl (action_error ''split_requires_positive_ratio'')"
  "available_actions ''ACME'' (Aware 3 0) (snd (ingest_actions [sample_split, sample_split\<lparr>ca_ratio := None\<rparr>] empty_actions)) =
     Inr [sample_split]"
  by (simp_all add: ingest_actions_def empty_actions_def available_actions_def newest_first_def known_action_def sample_split_def
      validate_action_def blank_iff is_space_def iso_le_def dec_order)

end
