(* ===== verification/EventBacktest.thy ===== *)
theory EventBacktest
  imports CorporateActions
begin

text \<open>
  \<open>event_backtest.py\<close>: the event-driven simulation of orders that validates research results. Orders wait for
  their latency, trigger, fill against the quotes of market events within a share of their volume, and move a
  simulated account, which corporate actions change too. An object of the class is a record; a call that raises
  leaves what it had assigned before. Fresh fill identifiers are an argument. Times are compared by instant.
\<close>

section \<open>Data\<close>

datatype simulated_order_type = MARKET | LIMIT | STOP | STOP_LIMIT

datatype simulated_order_status = SIM_PENDING_LATENCY | SIM_WORKING | SIM_PARTIALLY_FILLED | SIM_FILLED | SIM_CANCELLED | SIM_EXPIRED

record market_event =
  mev_instrument_id :: string
  mev_occurred_at :: datetime
  mev_bid :: decimal
  mev_ask :: decimal
  mev_available_volume :: decimal
  mev_session_open :: bool

abbreviation backtest_error :: "string \<Rightarrow> py_exc" where
  "backtest_error \<equiv> Exc EventBacktestValidationError"

definition validate_event :: "market_event \<Rightarrow> unit result" where
  "validate_event v =
     (if mev_bid v \<le> 0 \<or> mev_ask v < mev_bid v \<or> mev_available_volume v < 0
      then Inl (backtest_error ''invalid_market_event'') else Inr ())"

record execution_assumptions =
  exa_latency :: timedelta
  exa_maximum_participation :: decimal
  exa_commission_bps :: decimal
  exa_fixed_fee :: decimal
  exa_impact_coefficient :: decimal

definition validate_assumptions :: "execution_assumptions \<Rightarrow> unit result" where
  "validate_assumptions a =
     (if exa_latency a < 0 \<or> \<not> (0 < exa_maximum_participation a \<and> exa_maximum_participation a \<le> 1)
      then Inl (backtest_error ''invalid_execution_assumptions'')
      else if exa_commission_bps a < 0 \<or> exa_fixed_fee a < 0 \<or> exa_impact_coefficient a < 0
      then Inl (backtest_error ''invalid_execution_assumptions'') else Inr ())"

record simulated_order =
  smo_order_id :: uuid
  smo_instrument_id :: string
  smo_side :: order_side
  smo_order_type :: simulated_order_type
  smo_quantity :: decimal
  smo_submitted_at :: datetime
  smo_limit_price :: "decimal option"
  smo_stop_price :: "decimal option"
  smo_expires_at :: "datetime option"
  smo_status :: simulated_order_status
  smo_triggered :: bool
  smo_filled_quantity :: decimal

definition simulated_remaining :: "simulated_order \<Rightarrow> decimal" where
  "simulated_remaining q = smo_quantity q - smo_filled_quantity q"

record simulated_fill =
  smf_fill_id :: uuid
  smf_order_id :: uuid
  smf_instrument_id :: string
  smf_occurred_at :: datetime
  smf_side :: order_side
  smf_quantity :: decimal
  smf_price :: decimal
  smf_fee :: decimal

text \<open>\<open>price is None or price <= 0\<close>\<close>

definition missing_price :: "decimal option \<Rightarrow> bool" where
  "missing_price p = (case p of None \<Rightarrow> True | Some v \<Rightarrow> v \<le> 0)"

definition create_simulated_order ::
  "uuid \<Rightarrow> string \<Rightarrow> order_side \<Rightarrow> simulated_order_type \<Rightarrow> decimal \<Rightarrow> datetime \<Rightarrow> decimal option \<Rightarrow> decimal option \<Rightarrow>
   datetime option \<Rightarrow> simulated_order result" where
  "create_simulated_order fresh_id i side order_type quantity submitted limit_price stop_price expires =
     (if i = [] \<or> quantity \<le> 0 \<or> \<not> aware submitted then Inl (backtest_error ''invalid_order'')
      else if order_type = LIMIT \<and> missing_price limit_price then Inl (backtest_error ''limit_order_requires_limit_price'')
      else if order_type = STOP \<and> missing_price stop_price then Inl (backtest_error ''stop_order_requires_stop_price'')
      else if order_type = STOP_LIMIT \<and> (missing_price stop_price \<or> missing_price limit_price)
      then Inl (backtest_error ''stop_limit_order_requires_prices'')
      else if (case expires of None \<Rightarrow> False | Some t \<Rightarrow> instant t \<le> instant submitted)
      then Inl (backtest_error ''invalid_order_expiry'')
      else Inr \<lparr>smo_order_id = fresh_id, smo_instrument_id = i, smo_side = side, smo_order_type = order_type,
        smo_quantity = quantity, smo_submitted_at = submitted, smo_limit_price = limit_price, smo_stop_price = stop_price,
        smo_expires_at = expires, smo_status = SIM_PENDING_LATENCY, smo_triggered = False, smo_filled_quantity = Dec 0 0\<rparr>)"

record backtester =
  ebt_assumptions :: execution_assumptions
  ebt_orders :: "(uuid, simulated_order) dict"
  ebt_fills :: "simulated_fill list"
  ebt_last_event_at :: "datetime option"
  ebt_positions :: "(string, position) dict"
  ebt_cash :: cash_balance
  ebt_applied :: "(string \<times> string \<times> int) set"

definition new_backtester :: "execution_assumptions \<Rightarrow> decimal \<Rightarrow> string \<Rightarrow> backtester result" where
  "new_backtester a initial_cash currency =
     bind_result (validate_assumptions a) (\<lambda>_.
       if initial_cash < 0 \<or> blank currency then Inl (backtest_error ''invalid_initial_portfolio'')
       else Inr \<lparr>ebt_assumptions = a, ebt_orders = [], ebt_fills = [], ebt_last_event_at = None, ebt_positions = [],
                 ebt_cash = mk_cash currency initial_cash, ebt_applied = {}\<rparr>)"

definition closed_statuses :: "simulated_order_status set" where
  "closed_statuses = {SIM_FILLED, SIM_CANCELLED, SIM_EXPIRED}"

section \<open>Orders\<close>

definition submit_simulated :: "simulated_order \<Rightarrow> (backtester, unit) operation" where
  "submit_simulated q s =
     (if dict_get (ebt_orders s) (smo_order_id q) \<noteq> None then (Inl (backtest_error ''duplicate_order_id''), s)
      else (Inr (), s\<lparr>ebt_orders := dict_set (smo_order_id q) q (ebt_orders s)\<rparr>))"

definition cancel_simulated :: "uuid \<Rightarrow> (backtester, simulated_order) operation" where
  "cancel_simulated i s =
     (case dict_get (ebt_orders s) i of
        None \<Rightarrow> (Inl (backtest_error ''unknown_order''), s)
      | Some q \<Rightarrow>
          if smo_status q \<in> closed_statuses then (Inl (backtest_error ''order_not_cancellable''), s)
          else let cancelled = q\<lparr>smo_status := SIM_CANCELLED\<rparr>
               in (Inr cancelled, s\<lparr>ebt_orders := dict_set i cancelled (ebt_orders s)\<rparr>))"

text \<open>Comparing a quote with a price that is \<open>None\<close> raises.\<close>

definition compare_price :: "(decimal \<Rightarrow> bool) \<Rightarrow> decimal option \<Rightarrow> bool result" where
  "compare_price f p = (case p of None \<Rightarrow> Inl (Exc TypeError ''unorderable'') | Some v \<Rightarrow> Inr (f v))"

definition stop_reached :: "simulated_order \<Rightarrow> market_event \<Rightarrow> bool result" where
  "stop_reached q v =
     (if smo_side q = BUY then compare_price (\<lambda>p. p \<le> mev_ask v) (smo_stop_price q)
      else compare_price (\<lambda>p. mev_bid v \<le> p) (smo_stop_price q))"

definition advance_order :: "execution_assumptions \<Rightarrow> simulated_order \<Rightarrow> market_event \<Rightarrow> simulated_order result" where
  "advance_order a q v =
     (if smo_status q \<in> closed_statuses then Inr q
      else if (case smo_expires_at q of None \<Rightarrow> False | Some t \<Rightarrow> instant t \<le> instant (mev_occurred_at v))
      then Inr (q\<lparr>smo_status := SIM_EXPIRED\<rparr>)
      else if instant (mev_occurred_at v) < instant (smo_submitted_at q) + exa_latency a then Inr q
      else if smo_order_type q \<in> {STOP, STOP_LIMIT} \<and> \<not> smo_triggered q
      then bind_result (stop_reached q v) (\<lambda>reached.
        if reached then Inr (q\<lparr>smo_triggered := True, smo_status := SIM_WORKING\<rparr>)
        else Inr (q\<lparr>smo_status := SIM_WORKING\<rparr>))
      else if smo_status q = SIM_PENDING_LATENCY then Inr (q\<lparr>smo_status := SIM_WORKING\<rparr>)
      else Inr q)"

definition is_executable :: "simulated_order \<Rightarrow> market_event \<Rightarrow> bool result" where
  "is_executable q v =
     (if smo_order_type q = LIMIT \<or> smo_order_type q = STOP_LIMIT \<and> smo_triggered q
      then if smo_side q = BUY then compare_price (\<lambda>p. mev_ask v \<le> p) (smo_limit_price q)
           else compare_price (\<lambda>p. p \<le> mev_bid v) (smo_limit_price q)
      else Inr (smo_order_type q = MARKET \<or> smo_order_type q = STOP \<and> smo_triggered q))"

section \<open>Fills\<close>

definition execution_price :: "execution_assumptions \<Rightarrow> order_side \<Rightarrow> market_event \<Rightarrow> decimal \<Rightarrow> decimal result" where
  "execution_price a side v quantity =
     bind_result (ddiv quantity (mev_available_volume v)) (\<lambda>share.
     bind_result (dsqrt share) (\<lambda>root.
       let impact = exa_impact_coefficient a * root
       in Inr (if side = BUY then mev_ask v * (Dec 1 0 + impact) else mev_bid v * (Dec 1 0 - impact))))"

definition execution_fee :: "execution_assumptions \<Rightarrow> decimal \<Rightarrow> decimal \<Rightarrow> decimal" where
  "execution_fee a quantity price = exa_fixed_fee a + dquot (quantity * price * exa_commission_bps a) (Dec 10000 0)"

text \<open>
  \<open>_apply_fill_to_portfolio\<close>. The divisor of the average cost is not zero for a fill with a positive quantity
  (\<open>fill_divisor\<close> below).
\<close>

definition fill_delta :: "simulated_fill \<Rightarrow> decimal" where
  "fill_delta f = (if smf_side f = BUY then smf_quantity f else - smf_quantity f)"

definition filled_cost :: "position \<Rightarrow> decimal \<Rightarrow> decimal \<Rightarrow> decimal \<Rightarrow> decimal" where
  "filled_cost p delta updated price =
     (if deq (pos_quantity p) 0 \<or> 0 < pos_quantity p * delta
      then dquot (dabs (pos_quantity p) * pos_average_cost p + dabs delta * price) (dabs updated)
      else if deq updated 0 then Dec 0 0
      else if pos_quantity p * updated < 0 then price
      else pos_average_cost p)"

definition fill_positions :: "simulated_fill \<Rightarrow> (string, position) dict \<Rightarrow> (string, position) dict" where
  "fill_positions f ps =
     (let i = smf_instrument_id f;
          p = (case dict_get ps i of None \<Rightarrow> mk_position i (Dec 0 0) (Dec 0 0) | Some p \<Rightarrow> p);
          updated = pos_quantity p + fill_delta f
      in dict_set i (mk_position i updated (filled_cost p (fill_delta f) updated (smf_price f))) ps)"

definition fill_cash :: "simulated_fill \<Rightarrow> cash_balance \<Rightarrow> cash_balance" where
  "fill_cash f c =
     (let direction = (if smf_side f = BUY then Dec (- 1) 0 else Dec 1 0)
      in mk_cash (cash_currency c) (cash_amount c + direction * smf_quantity f * smf_price f - smf_fee f))"

lemma fill_divisor:
  assumes "0 < dval (smf_quantity f)" "deq (pos_quantity p) 0 \<or> 0 < pos_quantity p * fill_delta f"
  shows "dval (dabs (pos_quantity p + fill_delta f)) \<noteq> 0"
proof -
  have "dval (fill_delta f) \<noteq> 0" using assms(1) by (simp add: fill_delta_def)
  then show ?thesis using assms(2) by (auto simp: dec_order zero_less_mult_iff)
qed

definition settle_simulated :: "simulated_fill \<Rightarrow> backtester \<Rightarrow> backtester" where
  "settle_simulated f s = s\<lparr>ebt_positions := fill_positions f (ebt_positions s), ebt_cash := fill_cash f (ebt_cash s)\<rparr>"

text \<open>The order after a fill of \<open>quantity\<close>.\<close>

definition filled_order :: "simulated_order \<Rightarrow> decimal \<Rightarrow> simulated_order" where
  "filled_order q quantity =
     (let filled = smo_filled_quantity q + quantity
      in q\<lparr>smo_filled_quantity := filled, smo_status := (if deq filled (smo_quantity q) then SIM_FILLED else SIM_PARTIALLY_FILLED)\<rparr>)"

definition put_order :: "uuid \<Rightarrow> simulated_order \<Rightarrow> backtester \<Rightarrow> backtester" where
  "put_order i q s = s\<lparr>ebt_orders := dict_set i q (ebt_orders s)\<rparr>"

text \<open>The body of the loop of \<open>process\<close> behind the executability test.\<close>

definition execute_order :: "uuid \<Rightarrow> market_event \<Rightarrow> uuid \<Rightarrow> simulated_order \<Rightarrow> (backtester, simulated_fill option) operation" where
  "execute_order fill_id v i q s =
     (let a = ebt_assumptions s;
          quantity = dmin (simulated_remaining q) (mev_available_volume v * exa_maximum_participation a)
      in if quantity \<le> 0 then (Inr None, s)
         else case execution_price a (smo_side q) v quantity of
           Inl x \<Rightarrow> (Inl x, s)
         | Inr price \<Rightarrow>
             let f = \<lparr>smf_fill_id = fill_id, smf_order_id = smo_order_id q, smf_instrument_id = smo_instrument_id q,
                      smf_occurred_at = mev_occurred_at v, smf_side = smo_side q, smf_quantity = quantity, smf_price = price,
                      smf_fee = execution_fee a quantity price\<rparr>
             in (Inr (Some f),
                 put_order i (filled_order q quantity) (settle_simulated f (s\<lparr>ebt_fills := ebt_fills s @ [f]\<rparr>))))"

definition process_order :: "uuid \<Rightarrow> market_event \<Rightarrow> uuid \<times> simulated_order \<Rightarrow> (backtester, simulated_fill option) operation" where
  "process_order fill_id v e s =
     (case e of (i, original) \<Rightarrow>
        (case advance_order (ebt_assumptions s) original v of
           Inl x \<Rightarrow> (Inl x, s)
         | Inr q \<Rightarrow>
             let s1 = put_order i q s in
             if smo_status q \<notin> {SIM_WORKING, SIM_PARTIALLY_FILLED} \<or> \<not> mev_session_open v \<or>
                smo_instrument_id q \<noteq> mev_instrument_id v then (Inr None, s1)
             else case is_executable q v of
               Inl x \<Rightarrow> (Inl x, s1)
             | Inr False \<Rightarrow> (Inr None, s1)
             | Inr True \<Rightarrow> execute_order fill_id v i q s1))"

text \<open>\<open>for order_id, original in tuple(self._orders.items())\<close>, with the fill identifier of the \<open>n\<close>-th order.\<close>

fun process_orders ::
  "(nat \<Rightarrow> uuid) \<Rightarrow> nat \<Rightarrow> market_event \<Rightarrow> (uuid \<times> simulated_order) list \<Rightarrow> (backtester, simulated_fill list) operation" where
  "process_orders fresh n v [] s = (Inr [], s)"
| "process_orders fresh n v (e # es) s =
     (case process_order (fresh n) v e s of
        (Inl x, s1) \<Rightarrow> (Inl x, s1)
      | (Inr f, s1) \<Rightarrow>
          (case process_orders fresh (Suc n) v es s1 of
             (Inl x, s2) \<Rightarrow> (Inl x, s2)
           | (Inr fs, s2) \<Rightarrow> (Inr (case f of None \<Rightarrow> fs | Some g \<Rightarrow> g # fs), s2)))"

definition process_event :: "(nat \<Rightarrow> uuid) \<Rightarrow> market_event \<Rightarrow> (backtester, simulated_fill list) operation" where
  "process_event fresh v s =
     (case validate_event v of
        Inl x \<Rightarrow> (Inl x, s)
      | Inr _ \<Rightarrow>
          if (case ebt_last_event_at s of None \<Rightarrow> False | Some t \<Rightarrow> instant (mev_occurred_at v) < instant t)
          then (Inl (backtest_error ''event_time_regression''), s)
          else process_orders fresh 0 v (ebt_orders s) (s\<lparr>ebt_last_event_at := Some (mev_occurred_at v)\<rparr>))"

section \<open>Result\<close>

record backtest_result =
  ebr_orders :: "simulated_order list"
  ebr_fills :: "simulated_fill list"
  ebr_total_fees :: decimal
  ebr_net_cash_change :: decimal
  ebr_positions :: "position list"
  ebr_cash :: cash_balance

definition cash_change :: "simulated_fill \<Rightarrow> decimal" where
  "cash_change f =
     (if smf_side f = BUY then - smf_quantity f * smf_price f else smf_quantity f * smf_price f) - smf_fee f"

definition backtest_result_of :: "backtester \<Rightarrow> backtest_result" where
  "backtest_result_of s =
     \<lparr>ebr_orders = map snd (ebt_orders s), ebr_fills = ebt_fills s, ebr_total_fees = dsum (map smf_fee (ebt_fills s)),
      ebr_net_cash_change = dsum (map cash_change (ebt_fills s)),
      ebr_positions = sort_key pos_instrument_id (map snd (ebt_positions s)), ebr_cash = ebt_cash s\<rparr>"

section \<open>Corporate actions\<close>

definition backtest_action_order :: "corporate_action \<Rightarrow> int \<times> string \<times> string \<times> int" where
  "backtest_action_order a = (instant (ca_effective_at a), ca_provider a, ca_source_identifier a, ca_revision a)"

text \<open>One round of the loop; the position is taken out of the book before the merge check.\<close>

definition apply_backtest_action :: "datetime \<Rightarrow> corporate_action \<Rightarrow> (backtester, unit) operation" where
  "apply_backtest_action as_of a s =
     (let key = action_key a; done_s = s\<lparr>ebt_applied := insert key (ebt_applied s)\<rparr> in
      if key \<in> ebt_applied s then (Inr (), s)
      else if instant as_of < instant (ca_effective_at a) then (Inl (backtest_error ''future_corporate_action''), s)
      else case dict_get (ebt_positions s) (ca_instrument_id a) of
        None \<Rightarrow> (Inr (), done_s)
      | Some p \<Rightarrow>
          if deq (pos_quantity p) 0 then (Inr (), done_s)
          else case apply_actions p (ebt_cash s) [a] as_of of
            Inl x \<Rightarrow> (Inl (if exc_class x = CorporateActionError then backtest_error ''corporate_action_rejected'' else x), s)
          | Inr r \<Rightarrow>
              let s1 = s\<lparr>ebt_positions := dict_del (ca_instrument_id a) (ebt_positions s)\<rparr>;
                  q = aa_position r;
                  s2 = s1\<lparr>ebt_positions := dict_set (pos_instrument_id q) q (ebt_positions s1)\<rparr>
              in if \<not> deq (pos_quantity q) 0 \<and>
                    (case dict_get (ebt_positions s1) (pos_instrument_id q) of None \<Rightarrow> False | Some e \<Rightarrow> \<not> deq (pos_quantity e) 0)
                 then (Inl (backtest_error ''corporate_action_position_merge_unsupported''), s1)
                 else (Inr (), (if deq (pos_quantity q) 0 then s1 else s2)
                         \<lparr>ebt_cash := aa_cash r, ebt_applied := insert key (ebt_applied s)\<rparr>))"

fun apply_backtest_actions :: "datetime \<Rightarrow> corporate_action list \<Rightarrow> (backtester, unit) operation" where
  "apply_backtest_actions as_of [] s = (Inr (), s)"
| "apply_backtest_actions as_of (a # rest) s = bind_method (apply_backtest_action as_of a) (\<lambda>_. apply_backtest_actions as_of rest) s"

definition apply_corporate_actions :: "corporate_action list \<Rightarrow> datetime \<Rightarrow> (backtester, unit) operation" where
  "apply_corporate_actions actions as_of s =
     (if \<not> aware as_of then (Inl (backtest_error ''corporate_action_timestamp_must_be_timezone_aware''), s)
      else apply_backtest_actions as_of (sort_key backtest_action_order actions) s)"

section \<open>Runs\<close>

text \<open>Any sequence of calls on one object, raising ones included.\<close>

datatype backtest_call =
    Submit simulated_order
  | Cancel uuid
  | Event "nat \<Rightarrow> uuid" market_event
  | Actions "corporate_action list" datetime

fun backtest_step :: "backtest_call \<Rightarrow> backtester \<Rightarrow> backtester" where
  "backtest_step (Submit q) s = snd (submit_simulated q s)"
| "backtest_step (Cancel i) s = snd (cancel_simulated i s)"
| "backtest_step (Event fresh v) s = snd (process_event fresh v s)"
| "backtest_step (Actions actions as_of) s = snd (apply_corporate_actions actions as_of s)"

definition submitted :: "backtest_call list \<Rightarrow> simulated_order set" where
  "submitted cs = {q. Submit q \<in> set cs}"

definition events_of :: "backtest_call list \<Rightarrow> market_event set" where
  "events_of cs = {v. \<exists>fresh. Event fresh v \<in> set cs}"

text \<open>An order as \<open>create_order\<close> makes it.\<close>

definition created :: "simulated_order \<Rightarrow> bool" where
  "created q \<longleftrightarrow> smo_status q = SIM_PENDING_LATENCY \<and> \<not> smo_triggered q \<and> smo_filled_quantity q = Dec 0 0"

lemma create_simulated_order_created:
  "create_simulated_order fresh_id i side order_type quantity t limit_price stop_price expires = Inr q \<Longrightarrow> created q"
  by (auto simp: create_simulated_order_def created_def split: if_splits)

lemma dict_set_entries: "e \<in> set (dict_set k v d) \<Longrightarrow> e = (k, v) \<or> e \<in> set d"
  by (induction d) (auto split: if_splits)

section \<open>The orders and their fills\<close>

abbreviation fills_of :: "uuid \<Rightarrow> simulated_fill list \<Rightarrow> simulated_fill list" where
  "fills_of i fs \<equiv> filter (\<lambda>f. smf_order_id f = i) fs"

definition filled_by :: "simulated_fill list \<Rightarrow> decimal" where
  "filled_by fs = foldl (+) (Dec 0 0) (map smf_quantity fs)"

text \<open>Every fill of an order is within what the fills before it left of the quantity.\<close>

definition capped :: "decimal \<Rightarrow> simulated_fill list \<Rightarrow> bool" where
  "capped quantity fs \<longleftrightarrow> (\<forall>n < length fs. 0 < smf_quantity (fs ! n) \<and> smf_quantity (fs ! n) \<le> quantity - filled_by (take n fs))"

definition entry_ok :: "simulated_fill list \<Rightarrow> uuid \<times> simulated_order \<Rightarrow> bool" where
  "entry_ok fs e \<longleftrightarrow>
     smo_order_id (snd e) = fst e \<and> smo_filled_quantity (snd e) = filled_by (fills_of (fst e) fs) \<and>
     capped (smo_quantity (snd e)) (fills_of (fst e) fs) \<and>
     (smo_status (snd e) = SIM_FILLED \<longrightarrow> deq (smo_filled_quantity (snd e)) (smo_quantity (snd e))) \<and>
     (smo_status (snd e) = SIM_PARTIALLY_FILLED \<longrightarrow> \<not> deq (smo_filled_quantity (snd e)) (smo_quantity (snd e)))"

definition chronological :: "simulated_fill list \<Rightarrow> datetime option \<Rightarrow> bool" where
  "chronological fs latest \<longleftrightarrow>
     sorted (map (\<lambda>f. instant (smf_occurred_at f)) fs) \<and>
     (\<forall>f \<in> set fs. \<exists>t. latest = Some t \<and> instant (smf_occurred_at f) \<le> instant t)"

definition orders_ok :: "backtester \<Rightarrow> bool" where
  "orders_ok s \<longleftrightarrow>
     dict_ok (ebt_orders s) \<and> (\<forall>e \<in> set (ebt_orders s). entry_ok (ebt_fills s) e) \<and>
     smf_order_id ` set (ebt_fills s) \<subseteq> fst ` set (ebt_orders s) \<and> chronological (ebt_fills s) (ebt_last_event_at s)"

lemma capped_Nil [simp]: "capped x []"
  by (simp add: capped_def)

lemma capped_snoc:
  "capped x (fs @ [f]) \<longleftrightarrow> capped x fs \<and> 0 < smf_quantity f \<and> smf_quantity f \<le> x - filled_by fs"
  unfolding capped_def by (auto simp: nth_append less_Suc_eq all_conj_distrib)

lemma filled_by_snoc [simp]: "filled_by (fs @ [f]) = filled_by fs + smf_quantity f" and filled_by_Nil [simp]: "filled_by [] = Dec 0 0"
  by (simp_all add: filled_by_def)

text \<open>Where nothing is rounded, capped fills never exceed the quantity and their sum is exact.\<close>

lemma capped_exact:
  assumes "capped x fs" "on_grid k (dval x)" "0 \<le> dval x" "dval x < 10 ^ prec * 10 powi (- k)"
    "\<forall>f \<in> set fs. on_grid k (dval (smf_quantity f))"
  shows "dval (filled_by fs) = (\<Sum>f\<leftarrow>fs. dval (smf_quantity f)) \<and> 0 \<le> dval (filled_by fs) \<and> dval (filled_by fs) \<le> dval x \<and>
    on_grid k (dval (filled_by fs))"
  using assms(1,5)
proof (induction fs rule: rev_induct)
  case Nil
  then show ?case using assms(3) by simp
next
  case (snoc f fs)
  let ?y = "dval (filled_by fs)" and ?z = "dval (smf_quantity f)"
  from snoc have ih: "?y = (\<Sum>f\<leftarrow>fs. dval (smf_quantity f))" "0 \<le> ?y" "?y \<le> dval x" "on_grid k ?y"
    and f: "0 < ?z" "?z \<le> dval (x - filled_by fs)" "on_grid k ?z" by (auto simp: capped_snoc dec_order)
  have "representable (dval x - ?y)"
    using ih assms(2-4) by (intro on_grid_representable on_grid_minus) auto
  then have le: "?y + ?z \<le> dval x" using f(2) by (simp add: dval_exact)
  have "representable (?y + ?z)"
    using ih f le assms(4) by (intro on_grid_representable [of k] on_grid_plus) auto
  then have "dval (filled_by (fs @ [f])) = ?y + ?z" by (simp add: dval_exact)
  then show ?case using ih f le on_grid_plus by auto
qed

lemma dict_set_keys: "fst ` set (dict_set k v d) = insert k (fst ` set d)"
  by (simp add: dom_map_of_conv_image_fst [symmetric] update_conv' del: dom_map_of_conv_image_fst)

lemma dict_set_entry_iff: "dict_ok d \<Longrightarrow> e \<in> set (dict_set k v d) \<longleftrightarrow> e = (k, v) \<or> e \<in> set d \<and> fst e \<noteq> k"
  by (cases e) (auto simp: dict_ok_map_of dict_get_set)

lemma orders_ok_put:
  assumes "orders_ok s" "entry_ok (ebt_fills s) (i, q)"
  shows "orders_ok (put_order i q s)"
  using assms by (auto simp: orders_ok_def put_order_def dict_set_entry_iff dict_set_keys)

lemma entry_ok_other: "fst e \<noteq> smf_order_id f \<Longrightarrow> entry_ok (fs @ [f]) e = entry_ok fs e"
  by (simp add: entry_ok_def)

definition same_terms :: "simulated_order \<Rightarrow> simulated_order \<Rightarrow> bool" where
  "same_terms p q \<longleftrightarrow>
     smo_order_id p = smo_order_id q \<and> smo_instrument_id p = smo_instrument_id q \<and> smo_side p = smo_side q \<and>
     smo_order_type p = smo_order_type q \<and> smo_quantity p = smo_quantity q \<and> smo_submitted_at p = smo_submitted_at q \<and>
     smo_limit_price p = smo_limit_price q \<and> smo_stop_price p = smo_stop_price q \<and> smo_expires_at p = smo_expires_at q"

lemma advance_order_terms:
  "advance_order a q v = Inr r \<Longrightarrow> same_terms q r \<and> smo_filled_quantity r = smo_filled_quantity q"
  by (auto simp: advance_order_def same_terms_def bind_result_Inr_iff split: if_splits)

lemma put_order_fields [simp]:
  "ebt_assumptions (put_order i q s) = ebt_assumptions s" "ebt_last_event_at (put_order i q s) = ebt_last_event_at s"
  "ebt_fills (put_order i q s) = ebt_fills s" "ebt_positions (put_order i q s) = ebt_positions s"
  "ebt_cash (put_order i q s) = ebt_cash s" "ebt_orders (put_order i q s) = dict_set i q (ebt_orders s)"
  by (simp_all add: put_order_def)

lemma settle_fields [simp]:
  "ebt_assumptions (settle_simulated f s) = ebt_assumptions s" "ebt_last_event_at (settle_simulated f s) = ebt_last_event_at s"
  "ebt_fills (settle_simulated f s) = ebt_fills s" "ebt_orders (settle_simulated f s) = ebt_orders s"
  by (simp_all add: settle_simulated_def)

lemma filled_order_terms [simp]:
  "same_terms p (filled_order q x) = same_terms p q" "smo_triggered (filled_order q x) = smo_triggered q"
  by (simp_all add: filled_order_def same_terms_def Let_def)

text \<open>What an execution did, when it did something.\<close>

lemma execute_order_cases:
  obtains "snd (execute_order k v i q s) = s"
  | f where "fst (execute_order k v i q s) = Inr (Some f)"
      "snd (execute_order k v i q s) = put_order i (filled_order q (smf_quantity f)) (settle_simulated f (s\<lparr>ebt_fills := ebt_fills s @ [f]\<rparr>))"
      "smf_order_id f = smo_order_id q" "smf_instrument_id f = smo_instrument_id q" "smf_side f = smo_side q"
      "smf_occurred_at f = mev_occurred_at v" "0 < smf_quantity f"
      "smf_quantity f = dmin (simulated_remaining q) (mev_available_volume v * exa_maximum_participation (ebt_assumptions s))"
      "execution_price (ebt_assumptions s) (smo_side q) v (smf_quantity f) = Inr (smf_price f)"
      "smf_fee f = execution_fee (ebt_assumptions s) (smf_quantity f) (smf_price f)"
proof -
  let ?x = "dmin (simulated_remaining q) (mev_available_volume v * exa_maximum_participation (ebt_assumptions s))"
  show ?thesis
  proof (cases "?x \<le> 0")
    case True
    then show ?thesis by (intro that(1)) (simp add: execute_order_def Let_def)
  next
    case False
    show ?thesis
    proof (cases "execution_price (ebt_assumptions s) (smo_side q) v ?x")
      case (Inl e)
      then show ?thesis by (intro that(1)) (simp add: execute_order_def Let_def)
    next
      case (Inr price)
      let ?f = "\<lparr>smf_fill_id = k, smf_order_id = smo_order_id q, smf_instrument_id = smo_instrument_id q,
        smf_occurred_at = mev_occurred_at v, smf_side = smo_side q, smf_quantity = ?x, smf_price = price,
        smf_fee = execution_fee (ebt_assumptions s) ?x price\<rparr>"
      have n: "(?x \<le> 0) = False" using False by blast
      have pos: "0 < ?x" using False by (simp only: not_dle)
      have run: "execute_order k v i q s = (Inr (Some ?f), put_order i (filled_order q ?x) (settle_simulated ?f (s\<lparr>ebt_fills := ebt_fills s @ [?f]\<rparr>)))"
        unfolding execute_order_def Let_def n if_False Inr by simp
      show ?thesis by (rule that(2) [of ?f]) (simp_all add: run pos Inr)
    qed
  qed
qed

lemma process_order_latest: "ebt_last_event_at (snd (process_order k v e s)) = ebt_last_event_at s"
proof (cases e)
  case (Pair i q)
  have "ebt_last_event_at (snd (execute_order k v i r u)) = ebt_last_event_at u" for r u
    by (rule execute_order_cases [of k v i r u]) simp_all
  then show ?thesis using Pair
    by (auto simp: process_order_def Let_def split: sum.splits bool.splits)
qed

lemma backtest_action_keeps:
  "ebt_assumptions (snd (apply_backtest_action t c s)) = ebt_assumptions s \<and>
   ebt_orders (snd (apply_backtest_action t c s)) = ebt_orders s \<and> ebt_fills (snd (apply_backtest_action t c s)) = ebt_fills s \<and>
   ebt_last_event_at (snd (apply_backtest_action t c s)) = ebt_last_event_at s"
  by (simp add: apply_backtest_action_def Let_def split: option.splits sum.splits)

lemma corporate_actions_keep:
  "ebt_assumptions (snd (apply_corporate_actions xs t s)) = ebt_assumptions s \<and>
   ebt_orders (snd (apply_corporate_actions xs t s)) = ebt_orders s \<and> ebt_fills (snd (apply_corporate_actions xs t s)) = ebt_fills s \<and>
   ebt_last_event_at (snd (apply_corporate_actions xs t s)) = ebt_last_event_at s"
proof -
  have "ebt_assumptions (snd (apply_backtest_actions t ys u)) = ebt_assumptions u \<and>
   ebt_orders (snd (apply_backtest_actions t ys u)) = ebt_orders u \<and> ebt_fills (snd (apply_backtest_actions t ys u)) = ebt_fills u \<and>
   ebt_last_event_at (snd (apply_backtest_actions t ys u)) = ebt_last_event_at u" for ys u
  proof (induction ys arbitrary: u)
    case Nil
    then show ?case by simp
  next
    case (Cons c ys)
    show ?case using Cons.IH [of "snd (apply_backtest_action t c u)"] backtest_action_keeps [of t c u]
      by (auto simp: bind_method_fst split: sum.splits)
  qed
  then show ?thesis by (simp add: apply_corporate_actions_def)
qed

lemma advance_order_entry:
  assumes "entry_ok fs (i, q)" "advance_order a q v = Inr r"
  shows "entry_ok fs (i, r)"
proof -
  have "smo_status r \<in> {SIM_FILLED, SIM_PARTIALLY_FILLED} \<Longrightarrow> smo_status q = smo_status r"
    using assms(2) by (auto simp: advance_order_def bind_result_Inr_iff split: if_splits)
  then show ?thesis using assms(1) advance_order_terms [OF assms(2)] by (auto simp: entry_ok_def same_terms_def)
qed

lemma execute_order_ok:
  assumes "orders_ok s" "(i, q) \<in> set (ebt_orders s)" "ebt_last_event_at s = Some (mev_occurred_at v)"
  shows "orders_ok (snd (execute_order k v i q s))"
proof (rule execute_order_cases [of k v i q s])
  assume "snd (execute_order k v i q s) = s"
  then show ?thesis using assms(1) by simp
next
  fix f
  assume f: "snd (execute_order k v i q s) = put_order i (filled_order q (smf_quantity f)) (settle_simulated f (s\<lparr>ebt_fills := ebt_fills s @ [f]\<rparr>))"
    "smf_order_id f = smo_order_id q" "smf_occurred_at f = mev_occurred_at v" "0 < smf_quantity f"
    "smf_quantity f = dmin (simulated_remaining q) (mev_available_volume v * exa_maximum_participation (ebt_assumptions s))"
  let ?fs = "ebt_fills s @ [f]"
  have e: "entry_ok (ebt_fills s) (i, q)" using assms(1,2) by (auto simp: orders_ok_def)
  then have id: "smf_order_id f = i" using f(2) by (simp add: entry_ok_def)
  have "smf_quantity f \<le> simulated_remaining q" using f(5) by (simp add: dec_order)
  then have "entry_ok ?fs (i, filled_order q (smf_quantity f))"
    using e id f(4) by (auto simp: entry_ok_def filled_order_def simulated_remaining_def capped_snoc Let_def)
  moreover have "entry_ok ?fs e'" if "e' \<in> set (ebt_orders s)" "fst e' \<noteq> i" for e'
    using assms(1) that id by (simp add: entry_ok_other orders_ok_def)
  moreover have "chronological ?fs (ebt_last_event_at s)"
    using assms(1,3) f(3) by (auto simp: orders_ok_def chronological_def sorted_append)
  ultimately show ?thesis unfolding f(1)
    using assms(1) id by (auto simp: orders_ok_def dict_set_entry_iff dict_set_keys)
qed

lemma process_order_ok:
  assumes "orders_ok s" "e \<in> set (ebt_orders s)" "ebt_last_event_at s = Some (mev_occurred_at v)"
  shows "orders_ok (snd (process_order k v e s)) \<and>
    (\<forall>e' \<in> set (ebt_orders s). fst e' \<noteq> fst e \<longrightarrow> e' \<in> set (ebt_orders (snd (process_order k v e s))))"
proof -
  obtain i q where e: "e = (i, q)" by (cases e)
  have d: "dict_ok (ebt_orders s)" using assms(1) by (simp add: orders_ok_def)
  show ?thesis
  proof (cases "advance_order (ebt_assumptions s) q v")
    case (Inl x)
    then show ?thesis using assms(1) e by (simp add: process_order_def)
  next
    case (Inr r)
    have "entry_ok (ebt_fills s) (i, q)" using assms(1,2) e by (auto simp: orders_ok_def)
    from advance_order_entry [OF this Inr] have put: "orders_ok (put_order i r s)"
      by (rule orders_ok_put [OF assms(1)])
    have d': "dict_ok (dict_set i r (ebt_orders s))" using d by simp
    have ex: "orders_ok (snd (execute_order k v i r (put_order i r s))) \<and>
        (\<forall>e' \<in> set (ebt_orders s). fst e' \<noteq> i \<longrightarrow> e' \<in> set (ebt_orders (snd (execute_order k v i r (put_order i r s)))))"
    proof
      show "orders_ok (snd (execute_order k v i r (put_order i r s)))"
        using d assms(3) by (intro execute_order_ok [OF put]) (auto simp: dict_set_entry_iff)
      show "\<forall>e' \<in> set (ebt_orders s). fst e' \<noteq> i \<longrightarrow> e' \<in> set (ebt_orders (snd (execute_order k v i r (put_order i r s))))"
        by (rule execute_order_cases [of k v i r "put_order i r s"]) (auto simp: d d' dict_set_entry_iff)
    qed
    moreover have "snd (process_order k v e s) = put_order i r s \<or>
        snd (process_order k v e s) = snd (execute_order k v i r (put_order i r s))"
      using e Inr by (auto simp: process_order_def Let_def split: sum.splits bool.splits)
    ultimately show ?thesis using put e d by (auto simp: dict_set_entry_iff)
  qed
qed

text \<open>The loop over the orders keeps the orders' invariant and any property its rounds keep on such states.\<close>

lemma process_orders_invariant:
  assumes "orders_ok s" "P s" "set es \<subseteq> set (ebt_orders s)" "distinct (map fst es)" "ebt_last_event_at s = Some (mev_occurred_at v)"
    "\<And>k e u. e \<in> set es \<Longrightarrow> e \<in> set (ebt_orders u) \<Longrightarrow> orders_ok u \<Longrightarrow> ebt_last_event_at u = Some (mev_occurred_at v) \<Longrightarrow> P u \<Longrightarrow>
      P (snd (process_order k v e u))"
  shows "orders_ok (snd (process_orders fresh n v es s)) \<and> P (snd (process_orders fresh n v es s))"
  using assms
proof (induction es arbitrary: n s)
  case Nil
  then show ?case by simp
next
  case (Cons e es)
  let ?u = "snd (process_order (fresh n) v e s)"
  have b: "orders_ok ?u" "\<forall>e' \<in> set (ebt_orders s). fst e' \<noteq> fst e \<longrightarrow> e' \<in> set (ebt_orders ?u)"
    using process_order_ok [of s e v "fresh n"] Cons.prems by auto
  have "fst e' \<noteq> fst e" if "e' \<in> set es" for e' using Cons.prems(4) that by (auto simp: image_iff)
  then have sub: "set es \<subseteq> set (ebt_orders ?u)" using b(2) Cons.prems(3) by auto
  have p: "P ?u" by (rule Cons.prems(6)) (use Cons.prems(1-5) in auto)
  have "orders_ok (snd (process_orders fresh (Suc n) v es ?u)) \<and> P (snd (process_orders fresh (Suc n) v es ?u))"
    by (rule Cons.IH [OF b(1) p sub]) (use Cons.prems(4-6) in \<open>auto simp: process_order_latest\<close>)
  then show ?case using b(1) p by (auto split: prod.splits sum.splits)
qed

lemma orders_ok_later:
  "orders_ok s \<Longrightarrow> \<forall>t. ebt_last_event_at s = Some t \<longrightarrow> instant t \<le> instant u \<Longrightarrow> orders_ok (s\<lparr>ebt_last_event_at := Some u\<rparr>)"
  unfolding orders_ok_def chronological_def by fastforce

text \<open>An event is refused, or its time becomes the time of the last event and the orders are processed.\<close>

lemma process_event_invariant:
  assumes "orders_ok s" "P s"
    and later: "validate_event v = Inr () \<Longrightarrow> \<forall>t. ebt_last_event_at s = Some t \<longrightarrow> instant t \<le> instant (mev_occurred_at v) \<Longrightarrow>
      P (s\<lparr>ebt_last_event_at := Some (mev_occurred_at v)\<rparr>)"
    and round: "\<And>k e u. validate_event v = Inr () \<Longrightarrow> \<forall>t. ebt_last_event_at s = Some t \<longrightarrow> instant t \<le> instant (mev_occurred_at v) \<Longrightarrow>
      e \<in> set (ebt_orders s) \<Longrightarrow> e \<in> set (ebt_orders u) \<Longrightarrow> orders_ok u \<Longrightarrow>
      ebt_last_event_at u = Some (mev_occurred_at v) \<Longrightarrow> P u \<Longrightarrow> P (snd (process_order k v e u))"
  shows "orders_ok (snd (process_event fresh v s)) \<and> P (snd (process_event fresh v s))"
proof (cases "validate_event v = Inr () \<and> (\<forall>t. ebt_last_event_at s = Some t \<longrightarrow> instant t \<le> instant (mev_occurred_at v))")
  case False
  then have "snd (process_event fresh v s) = s"
    by (cases "validate_event v") (auto simp: process_event_def split: option.splits)
  then show ?thesis using assms(1,2) by simp
next
  case True
  let ?s = "s\<lparr>ebt_last_event_at := Some (mev_occurred_at v)\<rparr>"
  have "orders_ok (snd (process_orders fresh 0 v (ebt_orders s) ?s)) \<and> P (snd (process_orders fresh 0 v (ebt_orders s) ?s))"
    using True assms(1) later round by (intro process_orders_invariant orders_ok_later) (auto simp: orders_ok_def dict_ok_def)
  moreover have "snd (process_event fresh v s) = snd (process_orders fresh 0 v (ebt_orders s) ?s)"
    using True by (auto simp: process_event_def split: option.splits)
  ultimately show ?thesis by simp
qed

lemma submit_order_ok:
  assumes "orders_ok s" "created q"
  shows "orders_ok (snd (submit_simulated q s))"
proof (cases "dict_get (ebt_orders s) (smo_order_id q)")
  case None
  then have "fills_of (smo_order_id q) (ebt_fills s) = []"
    using assms(1) by (force simp: orders_ok_def map_of_eq_None_iff filter_empty_conv)
  then have "entry_ok (ebt_fills s) (smo_order_id q, q)" using assms(2) by (simp add: entry_ok_def created_def)
  from orders_ok_put [OF assms(1) this] show ?thesis using None by (simp add: submit_simulated_def put_order_def)
next
  case (Some p)
  then show ?thesis using assms(1) by (simp add: submit_simulated_def)
qed

lemma cancel_order_ok:
  assumes "orders_ok s"
  shows "orders_ok (snd (cancel_simulated i s))"
proof (cases "dict_get (ebt_orders s) i")
  case None
  then show ?thesis using assms by (simp add: cancel_simulated_def)
next
  case (Some q)
  then have "entry_ok (ebt_fills s) (i, q\<lparr>smo_status := SIM_CANCELLED\<rparr>)"
    using assms map_of_SomeD [OF Some] by (auto simp: orders_ok_def entry_ok_def)
  from orders_ok_put [OF assms this] show ?thesis using Some assms
    by (simp add: cancel_simulated_def put_order_def Let_def)
qed

lemma backtest_step_orders:
  assumes "orders_ok s" "\<forall>q \<in> submitted [x]. created q"
  shows "orders_ok (backtest_step x s)"
proof (cases x)
  case (Actions xs t)
  then show ?thesis using assms(1) corporate_actions_keep [of xs t s] by (simp add: orders_ok_def)
next
  case (Event fresh v)
  then show ?thesis using process_event_invariant [where P = "\<lambda>_. True", OF assms(1)] by simp
qed (use assms submit_order_ok cancel_order_ok in \<open>auto simp: submitted_def\<close>)

lemma backtest_run_orders:
  assumes "new_backtester a cash currency = Inr s0" "\<forall>q \<in> submitted cs. created q"
  shows "orders_ok (fold backtest_step cs s0)"
  using assms(2)
proof (induction cs rule: rev_induct)
  case Nil
  then show ?case using assms(1) by (auto simp: orders_ok_def chronological_def new_backtester_def bind_result_Inr_iff split: if_splits)
next
  case (snoc x cs)
  then have "orders_ok (backtest_step x (fold backtest_step cs s0))"
    by (intro backtest_step_orders) (auto simp: submitted_def)
  then show ?case by simp
qed

section \<open>Every fill is explained by an event\<close>

definition past_latency :: "execution_assumptions \<Rightarrow> simulated_order \<Rightarrow> datetime \<Rightarrow> bool" where
  "past_latency a q t \<longleftrightarrow> instant (smo_submitted_at q) + exa_latency a \<le> instant t"

definition unexpired :: "simulated_order \<Rightarrow> datetime \<Rightarrow> bool" where
  "unexpired q t \<longleftrightarrow> (\<forall>x. smo_expires_at q = Some x \<longrightarrow> instant t < instant x)"

text \<open>The stop of \<open>q\<close> was reached at an event no later than \<open>t\<close> and behind the latency.\<close>

definition stop_seen :: "execution_assumptions \<Rightarrow> market_event set \<Rightarrow> simulated_order \<Rightarrow> datetime \<Rightarrow> bool" where
  "stop_seen a V q t \<longleftrightarrow>
     (\<exists>v \<in> V. \<exists>p. smo_stop_price q = Some p \<and> (if smo_side q = BUY then p \<le> mev_ask v else mev_bid v \<le> p) \<and>
       past_latency a q (mev_occurred_at v) \<and> instant (mev_occurred_at v) \<le> instant t)"

definition limit_respected :: "simulated_order \<Rightarrow> market_event \<Rightarrow> bool" where
  "limit_respected q v \<longleftrightarrow>
     (\<exists>p. smo_limit_price q = Some p \<and> (if smo_side q = BUY then mev_ask v \<le> p else p \<le> mev_bid v))"

text \<open>
  A fill of quantity \<open>x\<close> pays the ask and the impact on top of it, or receives the bid less the impact; the impact is the
  coefficient times the root of the share of the event's volume. The fee is the fixed fee and the commission in basis points.
\<close>

definition priced :: "execution_assumptions \<Rightarrow> order_side \<Rightarrow> market_event \<Rightarrow> decimal \<Rightarrow> decimal \<Rightarrow> decimal \<Rightarrow> bool" where
  "priced a side v x price fee \<longleftrightarrow>
     (\<exists>share root. ddiv x (mev_available_volume v) = Inr share \<and> dsqrt share = Inr root \<and>
       price = (case side of
         BUY \<Rightarrow> mev_ask v * (Dec 1 0 + exa_impact_coefficient a * root)
       | SELL \<Rightarrow> mev_bid v * (Dec 1 0 - exa_impact_coefficient a * root))) \<and>
     fee = exa_fixed_fee a + dquot (x * price * exa_commission_bps a) (Dec 10000 0)"

text \<open>The fill \<open>f\<close> behind the fills \<open>earlier\<close> is explained by the order \<open>q\<close> as submitted and the event \<open>v\<close> among \<open>V\<close>.\<close>

definition explained_by ::
  "execution_assumptions \<Rightarrow> market_event set \<Rightarrow> simulated_fill list \<Rightarrow> simulated_fill \<Rightarrow> simulated_order \<Rightarrow> market_event \<Rightarrow> bool" where
  "explained_by a V earlier f q v \<longleftrightarrow>
     smf_order_id f = smo_order_id q \<and> smf_instrument_id f = smo_instrument_id q \<and> smf_side f = smo_side q \<and>
     mev_instrument_id v = smo_instrument_id q \<and> mev_session_open v \<and>
     0 < mev_bid v \<and> mev_bid v \<le> mev_ask v \<and> 0 \<le> mev_available_volume v \<and>
     smf_occurred_at f = mev_occurred_at v \<and> past_latency a q (mev_occurred_at v) \<and> unexpired q (mev_occurred_at v) \<and>
     0 < smf_quantity f \<and>
     smf_quantity f = dmin (smo_quantity q - filled_by (fills_of (smo_order_id q) earlier))
       (mev_available_volume v * exa_maximum_participation a) \<and>
     priced a (smo_side q) v (smf_quantity f) (smf_price f) (smf_fee f) \<and>
     (smo_order_type q \<in> {LIMIT, STOP_LIMIT} \<longrightarrow> limit_respected q v) \<and>
     (smo_order_type q \<in> {STOP, STOP_LIMIT} \<longrightarrow> stop_seen a V q (mev_occurred_at v))"

definition explained ::
  "execution_assumptions \<Rightarrow> simulated_order set \<Rightarrow> market_event set \<Rightarrow> simulated_fill list \<Rightarrow> simulated_fill \<Rightarrow> bool" where
  "explained a Q V earlier f \<longleftrightarrow> (\<exists>q \<in> Q. \<exists>v \<in> V. explained_by a V earlier f q v)"

text \<open>What is known of an order in the book at the time \<open>latest\<close> of the last event.\<close>

definition traced ::
  "execution_assumptions \<Rightarrow> simulated_order set \<Rightarrow> market_event set \<Rightarrow> datetime option \<Rightarrow> uuid \<times> simulated_order \<Rightarrow> bool" where
  "traced a Q V latest e \<longleftrightarrow>
     (\<exists>p \<in> Q. fst e = smo_order_id p \<and> same_terms p (snd e) \<and>
       (smo_status (snd e) \<in> {SIM_WORKING, SIM_PARTIALLY_FILLED} \<longrightarrow> (\<exists>t. latest = Some t \<and> past_latency a p t)) \<and>
       (smo_triggered (snd e) \<longrightarrow> (\<exists>t. latest = Some t \<and> stop_seen a V p t)))"

definition trace_ok :: "execution_assumptions \<Rightarrow> simulated_order set \<Rightarrow> market_event set \<Rightarrow> backtester \<Rightarrow> bool" where
  "trace_ok a Q V s \<longleftrightarrow>
     ebt_assumptions s = a \<and> (\<forall>e \<in> set (ebt_orders s). traced a Q V (ebt_last_event_at s) e) \<and>
     (\<forall>n < length (ebt_fills s). explained a Q V (take n (ebt_fills s)) (ebt_fills s ! n))"

lemma stop_seen_later: "stop_seen a V q t \<Longrightarrow> V \<subseteq> W \<Longrightarrow> instant t \<le> instant u \<Longrightarrow> stop_seen a W q u"
  unfolding stop_seen_def by fastforce

lemma explained_more: "explained a Q V fs f \<Longrightarrow> Q \<subseteq> R \<Longrightarrow> V \<subseteq> W \<Longrightarrow> explained a R W fs f"
  unfolding explained_def explained_by_def using stop_seen_later by blast

lemma traced_more:
  assumes "traced a Q V latest e" "Q \<subseteq> R" "V \<subseteq> W" "latest = None \<or> (\<exists>t u. latest = Some t \<and> now = Some u \<and> instant t \<le> instant u)"
  shows "traced a R W now e"
  using assms unfolding traced_def past_latency_def
  by (elim bexE conjE disjE exE) (auto intro!: bexI intro: stop_seen_later)

lemma trace_ok_more:
  assumes "trace_ok a Q V s" "Q \<subseteq> R" "V \<subseteq> W"
  shows "trace_ok a R W s"
proof -
  have "traced a R W (ebt_last_event_at s) e" if "traced a Q V (ebt_last_event_at s) e" for e
    using traced_more [OF that assms(2,3), of "ebt_last_event_at s"] by (cases "ebt_last_event_at s") auto
  then show ?thesis using assms explained_more unfolding trace_ok_def by blast
qed

lemma stop_reached_terms:
  assumes "same_terms p q" "stop_reached q v = Inr True"
  shows "\<exists>x. smo_stop_price p = Some x \<and> (if smo_side p = BUY then x \<le> mev_ask v else mev_bid v \<le> x)"
  using assms by (auto simp: same_terms_def stop_reached_def compare_price_def split: if_splits option.splits)

lemma execution_priced: "execution_price a side v x = Inr p \<Longrightarrow> priced a side v x p (execution_fee a x p)"
  by (auto simp: execution_price_def priced_def execution_fee_def bind_result_Inr_iff Let_def split: order_side.splits)

lemma same_terms_trans: "same_terms p q \<Longrightarrow> same_terms q r \<Longrightarrow> same_terms p r"
  by (simp add: same_terms_def)

lemma advance_order_working:
  assumes "advance_order a q v = Inr r" "smo_status r \<in> {SIM_WORKING, SIM_PARTIALLY_FILLED}"
  shows "unexpired q (mev_occurred_at v) \<and> (past_latency a q (mev_occurred_at v) \<or> smo_status q \<in> {SIM_WORKING, SIM_PARTIALLY_FILLED})"
  using assms
  by (auto simp: advance_order_def unexpired_def past_latency_def closed_statuses_def bind_result_Inr_iff split: if_splits)

lemma advance_order_triggered:
  assumes "advance_order a q v = Inr r" "smo_triggered r"
  shows "smo_triggered q \<or> stop_reached q v = Inr True \<and> past_latency a q (mev_occurred_at v)"
  using assms by (auto simp: advance_order_def past_latency_def bind_result_Inr_iff split: if_splits)

lemma advance_order_traced:
  assumes "traced a Q V (Some (mev_occurred_at v)) (i, q)" "advance_order a q v = Inr r" "v \<in> V"
  shows "traced a Q V (Some (mev_occurred_at v)) (i, r)"
proof -
  from assms(1) obtain p where p: "p \<in> Q" "i = smo_order_id p" "same_terms p q"
    and w: "smo_status q \<in> {SIM_WORKING, SIM_PARTIALLY_FILLED} \<Longrightarrow> past_latency a p (mev_occurred_at v)"
    and tr: "smo_triggered q \<Longrightarrow> stop_seen a V p (mev_occurred_at v)"
    by (auto simp: traced_def)
  have "same_terms p r" using p(3) advance_order_terms [OF assms(2)] same_terms_trans by blast
  moreover have "past_latency a p (mev_occurred_at v)" if "smo_status r \<in> {SIM_WORKING, SIM_PARTIALLY_FILLED}"
    using advance_order_working [OF assms(2) that] w p(3) by (auto simp: past_latency_def same_terms_def)
  moreover have "stop_seen a V p (mev_occurred_at v)" if "smo_triggered r"
  proof (cases "smo_triggered q")
    case False
    then have "stop_reached q v = Inr True" "past_latency a p (mev_occurred_at v)"
      using advance_order_triggered [OF assms(2) that] p(3) by (auto simp: past_latency_def same_terms_def)
    then show ?thesis using stop_reached_terms [OF p(3)] assms(3) unfolding stop_seen_def by blast
  qed (use tr in blast)
  ultimately show ?thesis using p(1,2) by (auto simp: traced_def)
qed

lemma trace_ok_put: "trace_ok a Q V s \<Longrightarrow> traced a Q V (ebt_last_event_at s) (i, q) \<Longrightarrow> trace_ok a Q V (put_order i q s)"
  by (auto simp: trace_ok_def put_order_def dest!: dict_set_entries)

lemma traced_filled:
  "traced a Q V t (i, q) \<Longrightarrow> smo_status q \<in> {SIM_WORKING, SIM_PARTIALLY_FILLED} \<Longrightarrow> traced a Q V t (i, filled_order q x)"
  by (auto simp: traced_def)

lemma is_executable_conditions:
  assumes "is_executable q v = Inr True" "same_terms p q"
  shows "(smo_order_type p \<in> {LIMIT, STOP_LIMIT} \<longrightarrow> limit_respected p v) \<and>
    (smo_order_type p \<in> {STOP, STOP_LIMIT} \<longrightarrow> smo_triggered q)"
  using assms
  by (auto simp: is_executable_def limit_respected_def compare_price_def same_terms_def split: if_splits option.splits)

lemma execute_order_trace:
  assumes "trace_ok a Q V s" "traced a Q V (Some (mev_occurred_at v)) (i, q)" "ebt_last_event_at s = Some (mev_occurred_at v)"
    "entry_ok (ebt_fills s) (i, q)"
    and v: "v \<in> V" "validate_event v = Inr ()" "mev_session_open v" "mev_instrument_id v = smo_instrument_id q"
    and q: "smo_status q \<in> {SIM_WORKING, SIM_PARTIALLY_FILLED}" "unexpired q (mev_occurred_at v)" "is_executable q v = Inr True"
  shows "trace_ok a Q V (snd (execute_order k v i q s))"
proof (rule execute_order_cases [of k v i q s])
  assume "snd (execute_order k v i q s) = s"
  then show ?thesis using assms(1) by simp
next
  fix f
  assume f: "snd (execute_order k v i q s) = put_order i (filled_order q (smf_quantity f)) (settle_simulated f (s\<lparr>ebt_fills := ebt_fills s @ [f]\<rparr>))"
    "smf_order_id f = smo_order_id q" "smf_instrument_id f = smo_instrument_id q" "smf_side f = smo_side q"
    "smf_occurred_at f = mev_occurred_at v" "0 < smf_quantity f"
    "smf_quantity f = dmin (simulated_remaining q) (mev_available_volume v * exa_maximum_participation (ebt_assumptions s))"
    "execution_price (ebt_assumptions s) (smo_side q) v (smf_quantity f) = Inr (smf_price f)"
    "smf_fee f = execution_fee (ebt_assumptions s) (smf_quantity f) (smf_price f)"
  have a: "ebt_assumptions s = a" using assms(1) by (simp add: trace_ok_def)
  from assms(2) obtain p where p: "p \<in> Q" "same_terms p q"
    and w: "smo_status q \<in> {SIM_WORKING, SIM_PARTIALLY_FILLED} \<longrightarrow> past_latency a p (mev_occurred_at v)"
    and tr: "smo_triggered q \<longrightarrow> stop_seen a V p (mev_occurred_at v)" by (auto simp: traced_def)
  have "smf_quantity f = dmin (smo_quantity p - filled_by (fills_of (smo_order_id p) (ebt_fills s)))
      (mev_available_volume v * exa_maximum_participation a)"
    using f(7) a assms(4) p(2) by (simp add: simulated_remaining_def entry_ok_def same_terms_def)
  moreover have "priced a (smo_side p) v (smf_quantity f) (smf_price f) (smf_fee f)"
    using execution_priced [OF f(8)] f(9) a p(2) by (simp add: same_terms_def)
  moreover have "0 < mev_bid v \<and> mev_bid v \<le> mev_ask v \<and> 0 \<le> mev_available_volume v"
    using v(2) by (auto simp: validate_event_def split: if_splits)
  moreover have "past_latency a p (mev_occurred_at v)" using w q(1) by blast
  moreover have "unexpired p (mev_occurred_at v)" using q(2) p(2) by (simp add: unexpired_def same_terms_def)
  moreover note is_executable_conditions [OF q(3) p(2)]
  ultimately have "explained_by a V (ebt_fills s) f p v"
    using f(2-6) tr v(2-4) p(2) unfolding explained_by_def same_terms_def by simp
  then have "explained a Q V (ebt_fills s) f" using p(1) v(1) unfolding explained_def by blast
  then have "trace_ok a Q V (settle_simulated f (s\<lparr>ebt_fills := ebt_fills s @ [f]\<rparr>))"
    using assms(1) by (auto simp: trace_ok_def settle_simulated_def nth_append less_Suc_eq)
  then show ?thesis unfolding f(1)
    by (rule trace_ok_put) (use assms(2,3) traced_filled q(1) in simp)
qed

lemma process_order_trace:
  assumes "trace_ok a Q V s" "traced a Q V (Some (mev_occurred_at v)) e" "ebt_last_event_at s = Some (mev_occurred_at v)"
    "entry_ok (ebt_fills s) e"
    and v: "v \<in> V" "validate_event v = Inr ()"
  shows "trace_ok a Q V (snd (process_order k v e s))"
proof -
  obtain i q where e: "e = (i, q)" by (cases e)
  have a: "ebt_assumptions s = a" using assms(1) by (simp add: trace_ok_def)
  show ?thesis
  proof (cases "advance_order a q v")
    case (Inl x)
    then show ?thesis using assms(1) e a by (simp add: process_order_def)
  next
    case (Inr r)
    have t: "traced a Q V (Some (mev_occurred_at v)) (i, r)"
      using advance_order_traced [OF assms(2) [unfolded e] Inr v(1)] .
    have put: "trace_ok a Q V (put_order i r s)" by (rule trace_ok_put [OF assms(1)]) (simp add: assms(3) t)
    show ?thesis
    proof (cases "smo_status r \<in> {SIM_WORKING, SIM_PARTIALLY_FILLED} \<and> mev_session_open v \<and>
        smo_instrument_id r = mev_instrument_id v \<and> is_executable r v = Inr True")
      case True
      have "unexpired r (mev_occurred_at v)"
        using advance_order_working [OF Inr] advance_order_terms [OF Inr] True by (auto simp: unexpired_def same_terms_def)
      then have "trace_ok a Q V (snd (execute_order k v i r (put_order i r s)))"
        using True t v assms(3) advance_order_entry [OF assms(4) [unfolded e] Inr] by (intro execute_order_trace [OF put]) auto
      then show ?thesis using True e a Inr by (simp add: process_order_def Let_def)
    next
      case False
      then have "snd (process_order k v e s) = put_order i r s"
        using e a Inr by (auto simp: process_order_def Let_def split: sum.splits bool.splits)
      then show ?thesis using put by simp
    qed
  qed
qed

lemma process_event_trace:
  assumes "orders_ok s" "trace_ok a Q W s" "v \<in> W"
  shows "trace_ok a Q W (snd (process_event fresh v s))"
proof -
  have tr: "traced a Q W (Some (mev_occurred_at v)) e"
    if "e \<in> set (ebt_orders s)" "\<forall>t. ebt_last_event_at s = Some t \<longrightarrow> instant t \<le> instant (mev_occurred_at v)" for e
    using traced_more [of a Q W "ebt_last_event_at s" e Q W] assms(2) that by (cases "ebt_last_event_at s") (auto simp: trace_ok_def)
  have "orders_ok (snd (process_event fresh v s)) \<and> trace_ok a Q W (snd (process_event fresh v s))"
  proof (rule process_event_invariant [where P = "trace_ok a Q W", OF assms(1,2)])
    assume "\<forall>t. ebt_last_event_at s = Some t \<longrightarrow> instant t \<le> instant (mev_occurred_at v)"
    then show "trace_ok a Q W (s\<lparr>ebt_last_event_at := Some (mev_occurred_at v)\<rparr>)"
      using assms(2) tr by (auto simp: trace_ok_def)
  next
    fix k e u
    assume "validate_event v = Inr ()" "\<forall>t. ebt_last_event_at s = Some t \<longrightarrow> instant t \<le> instant (mev_occurred_at v)"
      "e \<in> set (ebt_orders s)" "e \<in> set (ebt_orders u)" "orders_ok u" "ebt_last_event_at u = Some (mev_occurred_at v)" "trace_ok a Q W u"
    then show "trace_ok a Q W (snd (process_order k v e u))"
      using tr assms(3) by (intro process_order_trace) (auto simp: orders_ok_def)
  qed
  then show ?thesis by blast
qed

lemma backtest_step_trace:
  assumes "trace_ok a Q V s" "Q \<subseteq> R" "V \<subseteq> W" "submitted [c] \<subseteq> R" "\<forall>q \<in> submitted [c]. created q" "events_of [c] \<subseteq> W"
    "orders_ok s"
  shows "trace_ok a R W (backtest_step c s)"
proof -
  have keep: "trace_ok a R W s" using trace_ok_more [OF assms(1-3)] .
  show ?thesis
  proof (cases c)
    case (Submit q)
    have "traced a R W (ebt_last_event_at s) (smo_order_id q, q)"
      using assms(4,5) Submit by (auto simp: traced_def submitted_def created_def same_terms_def intro!: bexI [of _ q])
    then show ?thesis using keep Submit
      by (auto simp: submit_simulated_def trace_ok_def dest!: dict_set_entries)
  next
    case (Cancel i)
    show ?thesis
    proof (cases "dict_get (ebt_orders s) i")
      case None
      then show ?thesis using keep Cancel by (simp add: cancel_simulated_def)
    next
      case (Some q)
      then have "traced a R W (ebt_last_event_at s) (i, q)" using keep map_of_SomeD [OF Some] by (auto simp: trace_ok_def)
      then have "traced a R W (ebt_last_event_at s) (i, q\<lparr>smo_status := SIM_CANCELLED\<rparr>)"
        by (auto simp: traced_def same_terms_def)
      then show ?thesis using keep Cancel Some
        by (auto simp: cancel_simulated_def Let_def trace_ok_def dest!: dict_set_entries)
    qed
  next
    case (Event fresh v)
    then show ?thesis using process_event_trace [OF assms(7) keep, of v fresh] assms(6) by (simp add: events_of_def)
  next
    case (Actions xs t)
    then show ?thesis using keep corporate_actions_keep [of xs t s] by (simp add: trace_ok_def)
  qed
qed

lemma backtest_run_trace:
  assumes "new_backtester a cash currency = Inr s0" "\<forall>q \<in> submitted cs. created q"
  shows "trace_ok a (submitted cs) (events_of cs) (fold backtest_step cs s0)"
  using assms(2)
proof (induction cs rule: rev_induct)
  case Nil
  then show ?case using assms(1) by (auto simp: trace_ok_def new_backtester_def bind_result_Inr_iff split: if_splits)
next
  case (snoc c cs)
  have "trace_ok a (submitted cs) (events_of cs) (fold backtest_step cs s0)"
    using snoc by (auto simp: submitted_def)
  then have "trace_ok a (submitted (cs @ [c])) (events_of (cs @ [c])) (backtest_step c (fold backtest_step cs s0))"
    by (rule backtest_step_trace) (use snoc.prems backtest_run_orders [OF assms(1), of cs] in \<open>auto simp: submitted_def events_of_def\<close>)
  then show ?case by simp
qed

section \<open>The books agree\<close>

text \<open>
  The reference of the books: what a fill does to a holding and its average cost, and to the cash. Buying more of a
  long holding or selling more of a short one averages the cost, reducing a holding keeps its cost, closing it leaves
  none, and turning it around starts with the price of the fill. A buy pays its price, a sale receives it, both pay the fee.
\<close>

definition holding_after :: "decimal \<times> decimal \<Rightarrow> simulated_fill \<Rightarrow> decimal \<times> decimal" where
  "holding_after h f =
     (let held = fst h; cost = snd h; x = smf_quantity f;
          new = (case smf_side f of BUY \<Rightarrow> held + x | SELL \<Rightarrow> held - x)
      in (new,
          if deq held 0 \<or> (0 < held \<longleftrightarrow> smf_side f = BUY) then dquot (dabs held * cost + x * smf_price f) (dabs new)
          else if deq new 0 then Dec 0 0
          else if 0 < held \<longleftrightarrow> 0 < new then cost
          else smf_price f))"

definition cash_after :: "decimal \<Rightarrow> simulated_fill \<Rightarrow> decimal" where
  "cash_after c f =
     (case smf_side f of
        BUY \<Rightarrow> c - smf_quantity f * smf_price f - smf_fee f
      | SELL \<Rightarrow> c + smf_quantity f * smf_price f - smf_fee f)"

definition ledger_holding :: "string \<Rightarrow> simulated_fill list \<Rightarrow> position option" where
  "ledger_holding i fs =
     (let own = filter (\<lambda>f. smf_instrument_id f = i) fs; h = foldl holding_after (Dec 0 0, Dec 0 0) own
      in if own = [] then None else Some (mk_position i (fst h) (snd h)))"

text \<open>A quantity as the arithmetic leaves it: positive, and not longer than 28 digits.\<close>

definition short_quantity :: "simulated_fill \<Rightarrow> bool" where
  "short_quantity f \<longleftrightarrow> 0 < smf_quantity f \<and> \<bar>coef (smf_quantity f)\<bar> < 10 ^ prec"

lemma coef_dfix: "\<bar>coef (dfix d)\<bar> < 10 ^ prec"
proof -
  let ?n = "nat \<bar>coef d\<bar>"
  let ?q = "rhe ?n (10 ^ (ndigits ?n - prec))"
  show ?thesis
  proof (cases "ndigits ?n \<le> prec")
    case True
    then have "?n < 10 ^ prec" by (subst (asm) ndigits_le_iff) (simp_all add: prec_def)
    then have "\<bar>coef d\<bar> < 10 ^ prec" by (metis abs_ge_zero nat_less_iff of_nat_numeral of_nat_power)
    then show ?thesis by (simp add: dfix_id)
  next
    case False
    have n: "?n < 10 ^ 28 * 10 ^ (ndigits ?n - prec)" using dfix_value(3) [of d] False by simp
    have q: "?q \<le> 10 ^ 28" using n by (intro rhe_le) auto
    have "nat \<bar>coef (dfix d)\<bar> < 10 ^ 28"
    proof (cases "prec < ndigits ?q")
      case True
      then have "coef (dfix d) = sgn (coef d) * int (?q div 10)" using False by (simp add: dfix_def Let_def)
      moreover have "?q div 10 < 10 ^ 28" using div_le_mono [OF q, of 10] by simp
      ultimately show ?thesis by (simp add: abs_mult abs_sgn_eq nat_mult_distrib)
    next
      case shorter: False
      then have "?q < 10 ^ 28" using ndigits_le_iff [of 28 ?q] by (simp add: prec_def)
      moreover have "coef (dfix d) = sgn (coef d) * int ?q" using False shorter by (simp add: dfix_def Let_def)
      ultimately show ?thesis by (simp add: abs_mult abs_sgn_eq)
    qed
    then show ?thesis by (simp add: prec_def nat_less_iff)
  qed
qed

lemma dfix_uminus: "dfix (Dec (- c) e) = Dec (- coef (dfix (Dec c e))) (dexp (dfix (Dec c e)))"
  by (simp add: dfix_def Let_def sgn_minus)

lemma short_uminus: "\<bar>coef x\<bar> < 10 ^ prec \<Longrightarrow> - x = Dec (- coef x) (dexp x)" and short_dabs: "\<bar>coef x\<bar> < 10 ^ prec \<Longrightarrow> dabs x = Dec \<bar>coef x\<bar> (dexp x)"
  by (simp_all add: uminus_decimal_def dabs_def dfix_id)

lemma plus_short_uminus: "\<bar>coef x\<bar> < 10 ^ prec \<Longrightarrow> h + (- x) = h - x" for h :: decimal
  by (simp add: short_uminus plus_decimal_def minus_decimal_def align_def)

lemma plus_negated: "h + Dec (- coef y) (dexp y) = h - y" for h :: decimal
  by (simp add: plus_decimal_def minus_decimal_def align_def)

lemma negative_times: "\<bar>coef x\<bar> < 10 ^ prec \<Longrightarrow> Dec (- 1) 0 * x * p = Dec (- coef (x * p)) (dexp (x * p))"
  by (simp add: times_decimal_def dfix_id) (simp add: dfix_uminus)

lemma one_times: "\<bar>coef x\<bar> < 10 ^ prec \<Longrightarrow> Dec 1 0 * x = x"
  by (simp add: times_decimal_def dfix_id)

lemma fill_cash_reference: "short_quantity f \<Longrightarrow> fill_cash f (mk_cash cur c) = mk_cash cur (cash_after c f)"
  by (simp add: fill_cash_def cash_after_def short_quantity_def negative_times one_times plus_negated Let_def split: order_side.splits)

lemma fill_position_reference:
  assumes "short_quantity f"
  shows "(pos_quantity p + fill_delta f, filled_cost p (fill_delta f) (pos_quantity p + fill_delta f) (smf_price f)) =
    holding_after (pos_quantity p, pos_average_cost p) f"
proof -
  let ?h = "pos_quantity p" and ?x = "smf_quantity f"
  have x: "\<bar>coef ?x\<bar> < 10 ^ prec" "0 < dval ?x" using assms by (simp_all add: short_quantity_def dec_order)
  then have nn: "0 < coef ?x" by (simp add: dval_coef)
  have new: "?h + fill_delta f = (case smf_side f of BUY \<Rightarrow> ?h + ?x | SELL \<Rightarrow> ?h - ?x)"
    using x(1) by (simp add: fill_delta_def plus_short_uminus split: order_side.splits)
  have d: "dabs (fill_delta f) = ?x" using x(1) nn by (cases ?x) (simp add: fill_delta_def short_uminus short_dabs)
  have same: "0 < ?h * fill_delta f \<longleftrightarrow> \<not> deq ?h 0 \<and> (0 < ?h \<longleftrightarrow> smf_side f = BUY)"
    using x(2) by (cases "smf_side f") (auto simp: fill_delta_def dec_order zero_less_mult_iff)
  have flip: "?h * n < 0 \<longleftrightarrow> \<not> (0 < ?h \<longleftrightarrow> 0 < n)" if "\<not> deq ?h 0" "\<not> deq n 0" for n
    using that by (auto simp: dec_order mult_less_0_iff)
  show ?thesis unfolding holding_after_def Let_def fst_conv snd_conv filled_cost_def d same new [symmetric]
    using flip by auto
qed

definition ledger_ok :: "cash_balance \<Rightarrow> backtester \<Rightarrow> bool" where
  "ledger_ok c s \<longleftrightarrow> ebt_positions s = fold fill_positions (ebt_fills s) [] \<and> ebt_cash s = fold fill_cash (ebt_fills s) c \<and>
     (\<forall>f \<in> set (ebt_fills s). short_quantity f)"

lemma ledger_cash:
  "\<forall>f \<in> set fs. short_quantity f \<Longrightarrow> fold fill_cash fs (mk_cash cur c) = mk_cash cur (foldl cash_after c fs)"
  by (induction fs rule: rev_induct) (simp_all add: fill_cash_reference)

lemma ledger_positions:
  "\<forall>f \<in> set fs. short_quantity f \<Longrightarrow> dict_get (fold fill_positions fs []) i = ledger_holding i fs"
proof (induction fs arbitrary: i rule: rev_induct)
  case Nil
  then show ?case by (simp add: ledger_holding_def)
next
  case (snoc f fs)
  let ?d = "fold fill_positions fs []" and ?j = "smf_instrument_id f"
  let ?r = "foldl holding_after (Dec 0 0, Dec 0 0) (filter (\<lambda>g. smf_instrument_id g = ?j) fs)"
  define p where "p = (case dict_get ?d ?j of None \<Rightarrow> mk_position ?j (Dec 0 0) (Dec 0 0) | Some p \<Rightarrow> p)"
  have ih: "dict_get ?d k = ledger_holding k fs" for k using snoc by simp
  have r: "(pos_quantity p, pos_average_cost p) = ?r" by (simp add: p_def ih ledger_holding_def Let_def)
  have new: "(pos_quantity p + fill_delta f, filled_cost p (fill_delta f) (pos_quantity p + fill_delta f) (smf_price f)) = holding_after ?r f"
    using fill_position_reference [of f p] snoc.prems r by simp
  have "fold fill_positions (fs @ [f]) [] = dict_set ?j (mk_position ?j (fst (holding_after ?r f)) (snd (holding_after ?r f))) ?d"
    by (simp add: fill_positions_def p_def [symmetric] new [symmetric] Let_def)
  then show ?case by (cases "i = ?j") (simp_all add: dict_get_set ih ledger_holding_def Let_def)
qed

lemma execute_order_ledger:
  assumes "ledger_ok c s"
  shows "ledger_ok c (snd (execute_order k v i q s))"
proof (rule execute_order_cases [of k v i q s])
  assume "snd (execute_order k v i q s) = s"
  then show ?thesis using assms by simp
next
  fix f
  assume f: "snd (execute_order k v i q s) = put_order i (filled_order q (smf_quantity f)) (settle_simulated f (s\<lparr>ebt_fills := ebt_fills s @ [f]\<rparr>))"
    "0 < smf_quantity f"
    "smf_quantity f = dmin (simulated_remaining q) (mev_available_volume v * exa_maximum_participation (ebt_assumptions s))"
  have "\<bar>coef (smf_quantity f)\<bar> < 10 ^ prec"
    using coef_dfix by (simp add: f(3) dmin_def simulated_remaining_def minus_decimal_def times_decimal_def Let_def)
  then show ?thesis unfolding f(1) using assms f(2) by (auto simp: ledger_ok_def settle_simulated_def short_quantity_def)
qed

lemma process_order_ledger: "ledger_ok c s \<Longrightarrow> ledger_ok c (snd (process_order k v e s))"
proof (cases e)
  case (Pair i q)
  assume "ledger_ok c s"
  then have "ledger_ok c (put_order i r s)" for r by (simp add: ledger_ok_def)
  then show ?thesis using \<open>ledger_ok c s\<close> execute_order_ledger Pair
    by (auto simp: process_order_def Let_def split: sum.splits bool.splits)
qed

lemma backtest_step_ledger:
  assumes "orders_ok s" "ledger_ok c s" "\<forall>xs t. x \<noteq> Actions xs t"
  shows "ledger_ok c (backtest_step x s)"
proof (cases x)
  case (Event fresh v)
  have "orders_ok (snd (process_event fresh v s)) \<and> ledger_ok c (snd (process_event fresh v s))"
    by (rule process_event_invariant [where P = "ledger_ok c", OF assms(1,2)]) (use assms(2) process_order_ledger in \<open>auto simp: ledger_ok_def\<close>)
  then show ?thesis using Event by simp
next
  case (Actions xs t)
  then show ?thesis using assms(3) by blast
qed (use assms(2) in \<open>auto simp: submit_simulated_def cancel_simulated_def ledger_ok_def Let_def split: option.splits\<close>)

lemma backtest_run_ledger:
  assumes "new_backtester a cash currency = Inr s0" "\<forall>q \<in> submitted cs. created q" "\<forall>xs t. Actions xs t \<notin> set cs"
  shows "ledger_ok (mk_cash currency cash) (fold backtest_step cs s0)"
  using assms(2,3)
proof (induction cs rule: rev_induct)
  case Nil
  then show ?case using assms(1) by (auto simp: ledger_ok_def new_backtester_def bind_result_Inr_iff split: if_splits)
next
  case (snoc x cs)
  then have "ledger_ok (mk_cash currency cash) (backtest_step x (fold backtest_step cs s0))"
    by (intro backtest_step_ledger backtest_run_orders [OF assms(1)]) (auto simp: submitted_def)
  then show ?case by simp
qed

section \<open>Corporate actions happen once\<close>

lemma backtest_action_applied:
  "ebt_applied s \<subseteq> ebt_applied (snd (apply_backtest_action t a s)) \<and>
   (fst (apply_backtest_action t a s) = Inr () \<longrightarrow> action_key a \<in> ebt_applied (snd (apply_backtest_action t a s)))"
  by (auto simp: apply_backtest_action_def Let_def split: option.splits sum.splits)

lemma backtest_actions_applied:
  "ebt_applied s \<subseteq> ebt_applied (snd (apply_backtest_actions t xs s)) \<and>
   (fst (apply_backtest_actions t xs s) = Inr () \<longrightarrow> action_key ` set xs \<subseteq> ebt_applied (snd (apply_backtest_actions t xs s)))"
proof (induction xs arbitrary: s)
  case Nil
  then show ?case by simp
next
  case (Cons a xs)
  let ?u = "snd (apply_backtest_action t a s)"
  show ?case
  proof (cases "fst (apply_backtest_action t a s)")
    case (Inl x)
    then show ?thesis using backtest_action_applied [of s t a] by (simp add: bind_method_fst)
  next
    case (Inr y)
    then show ?thesis using backtest_action_applied [of s t a] Cons.IH [of ?u] by (auto simp: bind_method_fst)
  qed
qed

lemma backtest_actions_skip:
  "action_key ` set xs \<subseteq> ebt_applied s \<Longrightarrow> apply_backtest_actions t xs s = (Inr (), s)"
  by (induction xs) (auto simp: bind_method_def apply_backtest_action_def)

section \<open>Properties\<close>

text \<open>
  C39: the simulation does not look ahead, and every fill is what one order could get from one event: over any calls,
  raising ones included, every recorded fill belongs to a submitted order and to an offered market event of its instrument
  in an open session, no earlier than the order's latency after its submission and before its expiry. Its quantity is
  what the order's earlier fills left, or the permitted share of that event's volume if that is less; a buy pays the ask
  raised by the impact, a sale receives the bid lowered by it, and the fee is the fixed fee and the commission. The quote
  itself, before the impact, met the limit, and a stop had been reached by an event behind the latency. The
  limit does not bind the price after the impact, and the share of the volume is granted to every order separately.
\<close>

theorem backtest_fills_explained:
  assumes "new_backtester a cash currency = Inr s0" "\<forall>q \<in> submitted cs. created q" "n < length (ebt_fills (fold backtest_step cs s0))"
  shows "\<exists>q \<in> submitted cs. \<exists>v \<in> events_of cs.
    explained_by a (events_of cs) (take n (ebt_fills (fold backtest_step cs s0))) (ebt_fills (fold backtest_step cs s0) ! n) q v"
  using backtest_run_trace [OF assms(1,2)] assms(3) unfolding trace_ok_def explained_def by blast

text \<open>
  C40: the books of a simulation in which no corporate action was applied agree with its fills. The position in every
  instrument is what the reference makes of that instrument's fills (quantities added and subtracted by side, the cost
  averaged, kept or restarted), and there is none without fills; the cash is the initial cash less what the buys and
  plus what the sales came to, less every fee. Every order is filled by exactly the sum of its own fills, is marked
  filled only at exactly its quantity and partially filled only short of it, and, where its quantity and fills lie on a
  grid on which 28 digits suffice, never gets more than its quantity. The fills are in the order of time.
\<close>

theorem backtest_books_agree:
  assumes "new_backtester a cash currency = Inr s0" "\<forall>q \<in> submitted cs. created q" "\<forall>xs t. Actions xs t \<notin> set cs"
  defines "s \<equiv> fold backtest_step cs s0"
  shows "(\<forall>i. dict_get (ebt_positions s) i = ledger_holding i (ebt_fills s)) \<and>
    ebt_cash s = mk_cash currency (foldl cash_after cash (ebt_fills s)) \<and>
    (\<forall>i q. dict_get (ebt_orders s) i = Some q \<longrightarrow>
       smo_filled_quantity q = filled_by (fills_of i (ebt_fills s)) \<and>
       (smo_status q = SIM_FILLED \<longrightarrow> deq (smo_filled_quantity q) (smo_quantity q)) \<and>
       (smo_status q = SIM_PARTIALLY_FILLED \<longrightarrow> \<not> deq (smo_filled_quantity q) (smo_quantity q)) \<and>
       (\<forall>k. on_grid k (dval (smo_quantity q)) \<and> 0 \<le> dval (smo_quantity q) \<and> dval (smo_quantity q) < 10 ^ prec * 10 powi (- k) \<and>
          (\<forall>f \<in> set (fills_of i (ebt_fills s)). on_grid k (dval (smf_quantity f))) \<longrightarrow>
          dval (smo_filled_quantity q) = (\<Sum>f \<leftarrow> fills_of i (ebt_fills s). dval (smf_quantity f)) \<and>
          dval (smo_filled_quantity q) \<le> dval (smo_quantity q))) \<and>
    sorted (map (\<lambda>f. instant (smf_occurred_at f)) (ebt_fills s))"
proof -
  have b: "orders_ok s" unfolding s_def by (rule backtest_run_orders [OF assms(1,2)])
  have l: "ledger_ok (mk_cash currency cash) s" unfolding s_def by (rule backtest_run_ledger [OF assms(1-3)])
  have e: "entry_ok (ebt_fills s) (i, q)" if "dict_get (ebt_orders s) i = Some q" for i q
    using b map_of_SomeD [OF that] by (auto simp: orders_ok_def)
  have grid: "dval (smo_filled_quantity q) = (\<Sum>f \<leftarrow> fills_of i (ebt_fills s). dval (smf_quantity f)) \<and>
      dval (smo_filled_quantity q) \<le> dval (smo_quantity q)"
    if "dict_get (ebt_orders s) i = Some q" "on_grid k (dval (smo_quantity q))" "0 \<le> dval (smo_quantity q)"
      "dval (smo_quantity q) < 10 ^ prec * 10 powi (- k)" "\<forall>f \<in> set (fills_of i (ebt_fills s)). on_grid k (dval (smf_quantity f))" for i q k
    using capped_exact [of "smo_quantity q" "fills_of i (ebt_fills s)" k] e [OF that(1)] that(2-5) by (simp add: entry_ok_def)
  have books: "(\<forall>i. dict_get (ebt_positions s) i = ledger_holding i (ebt_fills s)) \<and>
      ebt_cash s = mk_cash currency (foldl cash_after cash (ebt_fills s)) \<and> sorted (map (\<lambda>f. instant (smf_occurred_at f)) (ebt_fills s))"
    using l b ledger_positions ledger_cash by (simp add: ledger_ok_def orders_ok_def chronological_def)
  show ?thesis using books e grid unfolding entry_ok_def fst_conv snd_conv by meson
qed

text \<open>
  Corporate actions happen exactly once: after a list of them was applied, applying any of them again, in any
  list and at any time, succeeds and changes nothing.
\<close>

theorem corporate_actions_applied_once:
  assumes "apply_corporate_actions xs t s = (Inr (), s')" "action_key ` set ys \<subseteq> action_key ` set xs" "aware u"
  shows "apply_corporate_actions ys u s' = (Inr (), s')"
proof -
  from assms(1) have "apply_backtest_actions t (sort_key backtest_action_order xs) s = (Inr (), s')"
    by (auto simp: apply_corporate_actions_def split: if_splits)
  then have "action_key ` set xs \<subseteq> ebt_applied s'" using backtest_actions_applied [of s t "sort_key backtest_action_order xs"] by simp
  then have "apply_backtest_actions u (sort_key backtest_action_order ys) s' = (Inr (), s')"
    using assms(2) by (intro backtest_actions_skip) auto
  then show ?thesis using assms(3) by (simp add: apply_corporate_actions_def)
qed

section \<open>Concrete simulations\<close>

definition sample_assumptions :: execution_assumptions where
  "sample_assumptions = \<lparr>exa_latency = 1, exa_maximum_participation = Dec 1 0, exa_commission_bps = Dec 0 0, exa_fixed_fee = Dec 0 0,
     exa_impact_coefficient = Dec 1 0\<rparr>"

definition sample_market :: market_event where
  "sample_market = \<lparr>mev_instrument_id = ''A'', mev_occurred_at = Aware 5 0, mev_bid = Dec 9 0, mev_ask = Dec 10 0,
     mev_available_volume = Dec 4 0, mev_session_open = True\<rparr>"

definition sample_limit_order :: simulated_order where
  "sample_limit_order = \<lparr>smo_order_id = 1, smo_instrument_id = ''A'', smo_side = BUY, smo_order_type = LIMIT, smo_quantity = Dec 1 0,
     smo_submitted_at = Aware 0 0, smo_limit_price = Some (Dec 10 0), smo_stop_price = None, smo_expires_at = None,
     smo_status = SIM_PENDING_LATENCY, smo_triggered = False, smo_filled_quantity = Dec 0 0\<rparr>"

definition sample_backtester :: backtester where
  "sample_backtester = \<lparr>ebt_assumptions = sample_assumptions, ebt_orders = [], ebt_fills = [], ebt_last_event_at = None, ebt_positions = [],
     ebt_cash = mk_cash ''USD'' (Dec 100 0), ebt_applied = {}\<rparr>"

lemma sample_backtester_fields [simp]:
  "ebt_orders sample_backtester = []" "ebt_last_event_at sample_backtester = None" "ebt_fills sample_backtester = []"
  "ebt_assumptions sample_backtester = sample_assumptions" "ebt_positions sample_backtester = []" "ebt_applied sample_backtester = {}"
  by (simp_all add: sample_backtester_def)

lemma sample_backtester_new: "new_backtester sample_assumptions (Dec 100 0) ''USD'' = Inr sample_backtester"
  by (simp add: new_backtester_def validate_assumptions_def sample_assumptions_def sample_backtester_def blank_iff is_space_def dec_eval)

text \<open>
  The impact is added behind the limit: a buy limited at 10 is filled at 15 (a quarter of the volume, so the root of
  the share is one half).
\<close>

lemma sample_price: "execution_price sample_assumptions BUY sample_market (Dec 1 0) = Inr (Dec 150 (- 1))"
  by (simp add: execution_price_def sample_assumptions_def sample_market_def dec_eval)

definition sample_calls :: "backtest_call list" where
  "sample_calls = [Submit sample_limit_order, Event (\<lambda>n. 10 + n) sample_market]"

definition sample_sim_fill :: simulated_fill where
  "sample_sim_fill = \<lparr>smf_fill_id = 10, smf_order_id = 1, smf_instrument_id = ''A'', smf_occurred_at = Aware 5 0, smf_side = BUY,
     smf_quantity = Dec 1 0, smf_price = Dec 150 (- 1), smf_fee = execution_fee sample_assumptions (Dec 1 0) (Dec 150 (- 1))\<rparr>"

lemma sample_executed:
  "execute_order 10 sample_market 1 (sample_limit_order\<lparr>smo_status := SIM_WORKING\<rparr>) s =
     (Inr (Some sample_sim_fill), put_order 1 (filled_order (sample_limit_order\<lparr>smo_status := SIM_WORKING\<rparr>) (Dec 1 0))
        (settle_simulated sample_sim_fill (s\<lparr>ebt_fills := ebt_fills s @ [sample_sim_fill]\<rparr>)))"
  if "ebt_assumptions s = sample_assumptions"
proof -
  let ?q = "sample_limit_order\<lparr>smo_status := SIM_WORKING\<rparr>"
  have x: "dmin (simulated_remaining ?q) (mev_available_volume sample_market * exa_maximum_participation sample_assumptions) = Dec 1 0"
    by (simp add: simulated_remaining_def sample_limit_order_def sample_market_def sample_assumptions_def dec_eval)
  have pos: "(Dec 1 0 \<le> 0) = False" by (simp add: dec_eval)
  have q: "smo_order_id ?q = 1" "smo_instrument_id ?q = ''A''" "smo_side ?q = BUY" "mev_occurred_at sample_market = Aware 5 0"
    by (simp_all add: sample_limit_order_def sample_market_def)
  show ?thesis
    unfolding execute_order_def Let_def that x pos if_False q sample_price sample_sim_fill_def by simp
qed

lemma sample_run_fills: "ebt_fills (fold backtest_step sample_calls sample_backtester) = [sample_sim_fill]"
proof -
  let ?s = "put_order 1 sample_limit_order sample_backtester"
  let ?t = "?s\<lparr>ebt_last_event_at := Some (Aware 5 0)\<rparr>"
  have s: "snd (submit_simulated sample_limit_order sample_backtester) = ?s"
    by (simp add: submit_simulated_def sample_backtester_def sample_limit_order_def put_order_def)
  have v: "validate_event sample_market = Inr ()" by (simp add: validate_event_def sample_market_def dec_eval)
  have a: "advance_order sample_assumptions sample_limit_order sample_market = Inr (sample_limit_order\<lparr>smo_status := SIM_WORKING\<rparr>)"
    by (simp add: advance_order_def sample_limit_order_def sample_market_def sample_assumptions_def closed_statuses_def)
  have x: "is_executable (sample_limit_order\<lparr>smo_status := SIM_WORKING\<rparr>) sample_market = Inr True"
    by (simp add: is_executable_def sample_limit_order_def sample_market_def compare_price_def dec_eval)
  have o: "ebt_orders ?s = [(1, sample_limit_order)]" "ebt_last_event_at ?s = None" "ebt_assumptions ?t = sample_assumptions" "ebt_fills ?t = []"
    by (simp_all add: sample_backtester_def put_order_def)
  have m: "smo_instrument_id (sample_limit_order\<lparr>smo_status := SIM_WORKING\<rparr>) = mev_instrument_id sample_market"
    "mev_session_open sample_market" "mev_occurred_at sample_market = Aware 5 0"
    by (simp_all add: sample_limit_order_def sample_market_def)
  have e: "ebt_fills (snd (execute_order 10 sample_market 1 (sample_limit_order\<lparr>smo_status := SIM_WORKING\<rparr>)
      (put_order 1 (sample_limit_order\<lparr>smo_status := SIM_WORKING\<rparr>) ?t))) = [sample_sim_fill]"
    using o(3,4) by (subst sample_executed) simp_all
  show ?thesis unfolding sample_calls_def
    using e by (auto simp: s process_event_def v o m process_order_def a x Let_def split: prod.splits sum.splits)
qed

lemma sample_calls_created: "\<forall>q \<in> submitted sample_calls. created q"
  by (simp add: submitted_def sample_calls_def created_def sample_limit_order_def)

theorem backtest_fills_explained_witness:
  "explained_by sample_assumptions (events_of sample_calls) [] sample_sim_fill sample_limit_order sample_market \<and>
   smf_quantity sample_sim_fill = Dec 1 0 \<and> smf_price sample_sim_fill = Dec 150 (- 1) \<and> Dec 10 0 < smf_price sample_sim_fill"
proof -
  have "0 < length (ebt_fills (fold backtest_step sample_calls sample_backtester))" by (simp add: sample_run_fills)
  from backtest_fills_explained [OF sample_backtester_new sample_calls_created this]
  have "explained_by sample_assumptions (events_of sample_calls) [] sample_sim_fill sample_limit_order sample_market"
    unfolding sample_run_fills by (auto simp: submitted_def events_of_def sample_calls_def)
  then show ?thesis by (simp add: sample_sim_fill_def dec_eval)
qed

lemma sample_ledger:
  "ledger_holding ''A'' [sample_sim_fill] = Some (mk_position ''A'' (Dec 1 0) (Dec 150 (- 1)))"
  "cash_after (Dec 100 0) sample_sim_fill = Dec 850 (- 1)"
  by (simp_all add: ledger_holding_def holding_after_def cash_after_def sample_sim_fill_def execution_fee_def sample_assumptions_def Let_def dec_eval)

theorem backtest_books_agree_witness:
  "dict_get (ebt_positions (fold backtest_step sample_calls sample_backtester)) ''A'' = Some (mk_position ''A'' (Dec 1 0) (Dec 150 (- 1))) \<and>
   ebt_cash (fold backtest_step sample_calls sample_backtester) = mk_cash ''USD'' (Dec 850 (- 1))"
proof -
  have "\<forall>xs t. Actions xs t \<notin> set sample_calls" by (simp add: sample_calls_def)
  from backtest_books_agree [OF sample_backtester_new sample_calls_created this] show ?thesis
    by (simp only: sample_run_fills foldl.simps sample_ledger simp_thms)
qed

definition sample_holding :: backtester where
  "sample_holding = sample_backtester\<lparr>ebt_positions := [(''ACME'', mk_position ''ACME'' (Dec 10 0) (Dec 20 0))]\<rparr>"

lemma sample_split_applied:
  "apply_corporate_actions [sample_split] (Aware 6 0) sample_holding =
     (Inr (), sample_holding\<lparr>ebt_positions := [(''ACME'', mk_position ''ACME'' (Dec 20 0) (Dec 10 0))], ebt_applied := {action_key sample_split}\<rparr>)"
proof -
  have a: "apply_actions (mk_position ''ACME'' (Dec 10 0) (Dec 20 0)) (ebt_cash sample_holding) [sample_split] (Aware 6 0) =
      Inr \<lparr>aa_position = mk_position ''ACME'' (Dec 20 0) (Dec 10 0), aa_cash = ebt_cash sample_holding, aa_applied = [action_label sample_split]\<rparr>"
    by (simp add: apply_actions_def apply_action_def sample_split_valid Let_def) (simp add: sample_split_def dec_eval)
  have k: "ca_instrument_id sample_split = ''ACME''" "ca_effective_at sample_split = Aware 5 0" by (simp_all add: sample_split_def)
  have n: "\<not> deq (Dec 10 0) 0" "\<not> deq (Dec 20 0) 0" by (simp_all add: dec_eval)
  show ?thesis
    by (simp add: apply_corporate_actions_def apply_backtest_action_def bind_method_def Let_def k n a [unfolded sample_holding_def, simplified]
        sample_holding_def)
qed

theorem corporate_actions_applied_once_witness:
  "\<exists>s. apply_corporate_actions [sample_split] (Aware 6 0) sample_holding = (Inr (), s) \<and>
     dict_get (ebt_positions s) ''ACME'' = Some (mk_position ''ACME'' (Dec 20 0) (Dec 10 0)) \<and>
     apply_corporate_actions [sample_split] (Aware 9 0) s = (Inr (), s)"
  using corporate_actions_applied_once [OF sample_split_applied, of "[sample_split]" "Aware 9 0"] sample_split_applied by simp

text \<open>
  A symbol change into an instrument that is held raises after the position was taken out of the book: the holding is
  gone, and the action is not recorded as applied.
\<close>

lemma merged_position_lost:
  fixes c
  defines "c \<equiv> sample_split\<lparr>ca_action_type := SYMBOL_CHANGE, ca_successor_instrument_id := Some ''NEW''\<rparr>"
    and "s \<equiv> sample_backtester\<lparr>ebt_positions := [(''ACME'', mk_position ''ACME'' (Dec 10 0) (Dec 20 0)), (''NEW'', mk_position ''NEW'' (Dec 1 0) (Dec 5 0))]\<rparr>"
  shows "apply_corporate_actions [c] (Aware 6 0) s =
    (Inl (backtest_error ''corporate_action_position_merge_unsupported''),
     s\<lparr>ebt_positions := [(''NEW'', mk_position ''NEW'' (Dec 1 0) (Dec 5 0))]\<rparr>)"
proof -
  have v: "validate_action c = Inr ()"
    by (simp add: c_def validate_action_def sample_split_def blank_iff is_space_def missing_text_def)
  have a: "apply_actions (mk_position ''ACME'' (Dec 10 0) (Dec 20 0)) m [c] (Aware 6 0) =
      Inr \<lparr>aa_position = mk_position ''NEW'' (Dec 10 0) (Dec 20 0), aa_cash = m, aa_applied = [action_label c]\<rparr>" for m
    by (simp add: apply_actions_def apply_action_def v Let_def) (simp add: c_def sample_split_def)
  have k: "ca_instrument_id c = ''ACME''" "ca_effective_at c = Aware 5 0" by (simp_all add: c_def sample_split_def)
  have n: "\<not> deq (Dec 10 0) 0" "\<not> deq (Dec 1 0) 0" by (simp_all add: dec_eval)
  show ?thesis
    by (simp add: apply_corporate_actions_def apply_backtest_action_def bind_method_def Let_def k n a s_def)
qed

text \<open>A stop is triggered by the quote of any instrument: \<open>_advance_order\<close> does not compare the instruments.\<close>

lemma stop_triggered_by_other_instrument:
  "advance_order sample_assumptions
     (sample_limit_order\<lparr>smo_order_type := STOP, smo_stop_price := Some (Dec 50 0)\<rparr>)
     (sample_market\<lparr>mev_instrument_id := ''B'', mev_ask := Dec 70 0\<rparr>) =
   Inr (sample_limit_order\<lparr>smo_order_type := STOP, smo_stop_price := Some (Dec 50 0), smo_status := SIM_WORKING, smo_triggered := True\<rparr>)"
  by (simp add: advance_order_def stop_reached_def compare_price_def sample_limit_order_def sample_market_def sample_assumptions_def
      closed_statuses_def dec_eval)

end
