(* ===== verification/PostgresOms.thy ===== *)
theory PostgresOms
  imports BrokerSync PostgresRiskStore
begin

text \<open>
  \<open>postgres_paper_oms.py\<close>: the Postgres store of paper orders. An order is an immutable intent row and
  the events recorded for it; its current state is replayed from them on every read. A broker event is
  one transaction: receipt, cursor, fill and lifecycle events commit together or not at all. The branch
  of \<open>broker_sync.py\<close> that uses this transaction is here as well.

  Tables and constraints are those of \<open>postgres_schema.py\<close> and its migrations. The rows of a table are
  listed in the order of their insertion, which is the order of \<open>event_sequence\<close>. A \<open>TIMESTAMPTZ\<close> keeps the
  instant; the session's zone is UTC, and a time is left with the offset it was written with.
\<close>

section \<open>UUID texts\<close>

text \<open>\<open>s.replace(w, "")\<close> for a non-empty \<open>w\<close>.\<close>

fun drop_word :: "string \<Rightarrow> string \<Rightarrow> string" where
  "drop_word w [] = []"
| "drop_word w (c # cs) =
     (if take (length w) (c # cs) = w then drop_word w (drop (length w - 1) cs) else c # drop_word w cs)"

definition hex_value :: "char \<Rightarrow> nat option" where
  "hex_value c =
     (let n = of_char c in
      if 48 \<le> n \<and> n \<le> 57 then Some (n - 48) else if 97 \<le> n \<and> n \<le> 102 then Some (n - 87)
      else if 65 \<le> n \<and> n \<le> 70 then Some (n - 55) else None)"

text \<open>The digits \<open>int(s, 16)\<close> reads; one underscore may stand between two digits.\<close>

fun hex_digits :: "bool \<Rightarrow> nat \<Rightarrow> string \<Rightarrow> nat option" where
  "hex_digits after_digit n [] = (if after_digit then Some n else None)"
| "hex_digits after_digit n (c # cs) =
     (if c = CHR ''_'' then (if after_digit then hex_digits False n cs else None)
      else case hex_value c of None \<Rightarrow> None | Some d \<Rightarrow> hex_digits True (16 * n + d) cs)"

definition int_base16 :: "string \<Rightarrow> int option" where
  "int_base16 text =
     (let s = strip text;
          sign = (case s of c # cs \<Rightarrow> if c = CHR ''-'' then - 1 else 1 | [] \<Rightarrow> 1);
          r = (case s of c # cs \<Rightarrow> if c = CHR ''-'' \<or> c = CHR ''+'' then cs else s | [] \<Rightarrow> s);
          v = (if take 2 r = ''0x'' \<or> take 2 r = ''0X''
               then (if drop 2 r = [] then None else hex_digits True 0 (drop 2 r)) else hex_digits False 0 r)
      in map_option (\<lambda>n. sign * int n) v)"

definition uuid_of_text :: "string \<Rightarrow> uuid option" where
  "uuid_of_text text =
     (let brace = (\<lambda>c. c \<in> set ''{}'');
          s = drop_word ''uuid:'' (drop_word ''urn:'' text);
          h = filter (\<lambda>c. c \<noteq> CHR ''-'') (rev (dropWhile brace (rev (dropWhile brace s))))
      in if length h \<noteq> 32 then None
         else case int_base16 h of None \<Rightarrow> None | Some v \<Rightarrow> if 0 \<le> v then Some (nat v) else None)"

section \<open>Columns and tables\<close>

text \<open>What a \<open>NUMERIC(30,12)\<close> column gives back: always twelve places.\<close>

definition numeric_column :: "decimal \<Rightarrow> decimal" where
  "numeric_column d = Dec (align (- 12) (numeric12 d)) (- 12)"

definition numeric_positive :: "decimal \<Rightarrow> bool" where
  "numeric_positive d \<longleftrightarrow> 0 < numeric12 d \<and> numeric_fits (numeric12 d)"

text \<open>\<open>CHAR(3)\<close>: padded with blanks; a longer text is refused unless the rest is blank.\<close>

definition char3 :: "string \<Rightarrow> string option" where
  "char3 s =
     (if \<forall>c \<in> set (drop 3 s). c = CHR '' '' then Some (take 3 s @ replicate (3 - length s) (CHR '' '')) else None)"

record receipt =
  rc_account_id :: string
  rc_event :: stored_event
  rc_details :: "(string, string) dict"

text \<open>
  The first three fields are tables other stores own, of which only the keys matter here.
  \<open>pg_sequence\<close> is the counter behind \<open>event_sequence\<close>, which no rollback sets back. An evidence row is
  kept with its position rows.
\<close>

record pg_oms =
  pg_signals :: "uuid list"
  pg_account_ids :: "string list"
  pg_instruments :: "uuid list"
  pg_intents :: "order_intent list"
  pg_sequence :: nat
  pg_events :: "oms_event list"
  pg_fills :: "recorded_fill list"
  pg_runs :: "recorded_reconciliation list"
  pg_evidence :: "recorded_account list"
  pg_receipts :: "receipt list"
  pg_cursors :: "(string \<times> string, int) dict"

abbreviation constraint_violation :: py_exc where
  "constraint_violation \<equiv> Exc IntegrityError ''constraint violated''"

abbreviation malformed_uuid :: py_exc where
  "malformed_uuid \<equiv> Exc ValueError ''badly formed hexadecimal UUID string''"

section \<open>Transactions\<close>

definition rollback :: "pg_oms \<Rightarrow> pg_oms \<Rightarrow> pg_oms" where
  "rollback s t = s\<lparr>pg_sequence := pg_sequence t\<rparr>"

text \<open>
  The body runs in one transaction. What it raises rolls it back; the exceptions of \<open>keep\<close> pass as they
  are, every other becomes the \<open>PaperOmsError\<close> of the method. The database may fail on its own: before the
  commit took effect (\<open>TxRolledBack\<close>) or after (\<open>TxReplyLost\<close>).
\<close>

definition pg_transaction ::
  "tx \<Rightarrow> string \<Rightarrow> (py_exc \<Rightarrow> bool) \<Rightarrow> (pg_oms, 'a) operation \<Rightarrow> (pg_oms, 'a) operation" where
  "pg_transaction tr failed keep body s =
     (case body s of
        (r, t) \<Rightarrow>
          if tr = TxRolledBack then (Inl (oms_error failed), rollback s t)
          else case r of
            Inl x \<Rightarrow> (Inl (if keep x then x else oms_error failed), rollback s t)
          | Inr y \<Rightarrow> (if tr = TxReplyLost then Inl (oms_error failed) else Inr y, t))"

definition is_oms_error :: "py_exc \<Rightarrow> bool" where
  "is_oms_error x \<longleftrightarrow> exc_class x = PaperOmsError"

text \<open>The sequence number is drawn before the row is refused. The intent is a row, as it was read before.\<close>

definition pg_append_event ::
  "uuid \<Rightarrow> uuid \<Rightarrow> string \<Rightarrow> (string, string) dict \<Rightarrow> datetime \<Rightarrow> (pg_oms, unit) operation" where
  "pg_append_event event_id i event_type payload occurred_at s =
     (let t = s\<lparr>pg_sequence := pg_sequence s + 1\<rparr>
      in if event_id \<in> ov_event_id ` set (pg_events s) then (Inl unique_violation, t)
         else (Inr (), t\<lparr>pg_events := pg_events s @
           [\<lparr>ov_sequence = pg_sequence s + 1, ov_event_id = event_id, ov_intent_id = i,
             ov_event_type = event_type, ov_occurred_at = occurred_at, ov_payload = payload\<rparr>]\<rparr>))"

section \<open>Replaying an order\<close>

definition all_statuses :: "order_status list" where
  "all_statuses =
     [PROPOSED, RISK_PENDING, RISK_REJECTED, APPROVED, SUBMISSION_PENDING, SUBMITTED, ACKNOWLEDGED,
      PARTIALLY_FILLED, FILLED, CANCEL_PENDING, CANCELLED, REJECTED, EXPIRED, UNKNOWN, RECONCILIATION_REQUIRED]"

definition status_of :: "string \<Rightarrow> order_status result" where
  "status_of x =
     (case find (\<lambda>st. status_value st = x) all_statuses of
        None \<Rightarrow> Inl (Exc ValueError ''not a valid OrderStatus'') | Some st \<Rightarrow> Inr st)"

definition payload_text :: "(string, string) dict \<Rightarrow> string \<Rightarrow> string result" where
  "payload_text payload name =
     (case dict_get payload name of None \<Rightarrow> Inl (Exc KeyError name) | Some x \<Rightarrow> Inr x)"

definition payload_decimal :: "(string, string) dict \<Rightarrow> string \<Rightarrow> decimal result" where
  "payload_decimal payload name =
     bind_result (payload_text payload name) (\<lambda>x.
       case dec_parse x of
         Some (Finite d) \<Rightarrow> Inr d
       | _ \<Rightarrow> Inl (Exc ArithmeticError ''InvalidOperation''))"

definition replay_oms_event :: "oms_event \<Rightarrow> paper_order \<Rightarrow> paper_order result" where
  "replay_oms_event v o1 =
     (let payload = ov_payload v in
      if ov_event_type v = ''ORDER_STATUS_CHANGED''
      then bind_result (payload_text payload ''to'') (\<lambda>x. bind_result (status_of x) (order_transition o1))
      else if ov_event_type v = ''ORDER_AMENDED''
      then bind_result (payload_decimal payload ''quantity'') (\<lambda>q.
           bind_result (payload_decimal payload ''limit_price'') (\<lambda>p. Inr (amend_order o1 q p)))
      else if ov_event_type v = ''FILL_INGESTED''
      then bind_result (payload_decimal payload ''quantity'') (\<lambda>q.
           bind_result (payload_decimal payload ''price'') (order_fill o1 q))
      else Inr o1)"

definition pg_order :: "uuid \<Rightarrow> pg_oms \<Rightarrow> paper_order result" where
  "pg_order i s =
     (case find (\<lambda>r. oi_intent_id r = i) (pg_intents s) of
        None \<Rightarrow> Inl (oms_error ''unknown_order_intent'')
      | Some r \<Rightarrow> fold_result replay_oms_event (filter (\<lambda>v. ov_intent_id v = i) (pg_events s)) (new_order r))"

section \<open>Orders\<close>

text \<open>The row as it is read back.\<close>

definition stored_intent :: "order_intent \<Rightarrow> uuid \<Rightarrow> order_intent" where
  "stored_intent i u =
     i\<lparr>oi_instrument_id := uuid_str u, oi_quantity := numeric_column (oi_quantity i),
       oi_limit_price := numeric_column (oi_limit_price i)\<rparr>"

definition pg_insert_intent :: "order_intent \<Rightarrow> (pg_oms, unit) operation" where
  "pg_insert_intent i s =
     (case uuid_of_text (oi_instrument_id i) of
        None \<Rightarrow> (Inl malformed_uuid, s)
      | Some u \<Rightarrow>
          if oi_signal_id i \<notin> set (pg_signals s) \<or> oi_account_id i \<notin> set (pg_account_ids s) \<or>
             u \<notin> set (pg_instruments s) \<or> \<not> numeric_positive (oi_quantity i) \<or> \<not> numeric_positive (oi_limit_price i)
          then (Inl constraint_violation, s)
          else (Inr (), s\<lparr>pg_intents := pg_intents s @ [stored_intent i u]\<rparr>))"

definition pg_create_body :: "oms_env \<Rightarrow> paper_order \<Rightarrow> (pg_oms, paper_order) operation" where
  "pg_create_body e o1 s =
     (if intent_id_of o1 \<in> oi_intent_id ` set (pg_intents s)
      then (case pg_order (intent_id_of o1) s of
              Inl x \<Rightarrow> (Inl x, s)
            | Inr existing \<Rightarrow>
                if \<not> intent_eq (po_intent existing) (po_intent o1)
                then (Inl (oms_error ''idempotency_key_payload_conflict''), s)
                else (Inr existing, s))
      else
        bind_method (pg_insert_intent (po_intent o1)) (\<lambda>_.
        bind_method (pg_append_event (oe_event_id e) (intent_id_of o1) ''ORDER_CREATED''
          [(''status'', status_value PROPOSED)] (oi_created_at (po_intent o1))) (\<lambda>_ t. (Inr o1, t))) s)"

definition pg_create :: "tx \<Rightarrow> oms_env \<Rightarrow> paper_order \<Rightarrow> (pg_oms, paper_order) operation" where
  "pg_create tr e o1 s =
     (if po_status o1 \<noteq> PROPOSED then (Inl (oms_error ''new_order_must_be_proposed''), s)
      else pg_transaction tr ''postgres_oms_create_failed'' is_oms_error (pg_create_body e o1) s)"

definition pg_get :: "tx \<Rightarrow> uuid \<Rightarrow> (pg_oms, paper_order) operation" where
  "pg_get tr i = pg_transaction tr ''postgres_oms_read_failed'' is_oms_error (\<lambda>s. (pg_order i s, s))"

text \<open>\<open>seen\<close> is the database the reads see, \<open>s\<close> the one the writes go to: no lock keeps another transaction out.\<close>

definition pg_transition_body ::
  "pg_oms \<Rightarrow> oms_env \<Rightarrow> uuid \<Rightarrow> order_status \<Rightarrow> string \<Rightarrow> (pg_oms, paper_order) operation" where
  "pg_transition_body seen e i next_status actor s =
     (case pg_order i seen of
        Inl x \<Rightarrow> (Inl x, s)
      | Inr o1 \<Rightarrow>
          (case order_transition o1 next_status of
             Inl x \<Rightarrow> (Inl (if is_value_error x then oms_error ''invalid_order_transition'' else x), s)
           | Inr updated \<Rightarrow>
               bind_method (pg_append_event (oe_event_id e) i ''ORDER_STATUS_CHANGED''
                 [(''actor'', actor), (''from'', status_value (po_status o1)), (''to'', status_value next_status)]
                 (oe_event_now e)) (\<lambda>_ t. (Inr updated, t)) s))"

definition pg_order_transition :: "tx \<Rightarrow> oms_env \<Rightarrow> uuid \<Rightarrow> order_status \<Rightarrow> string \<Rightarrow> (pg_oms, paper_order) operation" where
  "pg_order_transition tr e i next_status actor s =
     pg_transaction tr ''postgres_oms_transition_failed'' is_oms_error (pg_transition_body s e i next_status actor) s"

text \<open>The table keeps the rounded amounts, the event's payload the exact ones.\<close>

definition pg_fill_body ::
  "oms_env \<Rightarrow> string \<Rightarrow> uuid \<Rightarrow> decimal \<Rightarrow> decimal \<Rightarrow> datetime \<Rightarrow> (pg_oms, paper_order) operation" where
  "pg_fill_body e external_fill_id i quantity price occurred_at s =
     (case find (\<lambda>f. rf_external_fill_id f = external_fill_id) (pg_fills s) of
        Some f \<Rightarrow>
          if rf_intent_id f \<noteq> i \<or> \<not> deq (rf_quantity f) quantity \<or> \<not> deq (rf_price f) price
          then (Inl (oms_error ''external_fill_id_conflict''), s)
          else (pg_order i s, s)
      | None \<Rightarrow>
          (case pg_order i s of
             Inl x \<Rightarrow> (Inl x, s)
           | Inr o1 \<Rightarrow>
               (case order_fill o1 quantity price of
                  Inl x \<Rightarrow> (Inl (if is_value_error x then oms_error ''fill_rejected_by_order_state'' else x), s)
                | Inr updated \<Rightarrow>
                    if oe_row_id e \<in> rf_fill_id ` set (pg_fills s) \<or>
                       \<not> numeric_positive quantity \<or> \<not> numeric_positive price
                    then (Inl constraint_violation, s)
                    else bind_method (pg_append_event (oe_event_id e) i ''FILL_INGESTED''
                        [(''external_fill_id'', external_fill_id), (''price'', dec_str price),
                         (''quantity'', dec_str quantity), (''status'', status_value (po_status updated))] occurred_at)
                      (\<lambda>_ t. (Inr updated, t))
                      (s\<lparr>pg_fills := pg_fills s @
                         [\<lparr>rf_fill_id = oe_row_id e, rf_external_fill_id = external_fill_id, rf_intent_id = i,
                           rf_occurred_at = occurred_at, rf_quantity = numeric_column quantity,
                           rf_price = numeric_column price\<rparr>]\<rparr>))))"

definition pg_ingest_fill ::
  "tx \<Rightarrow> oms_env \<Rightarrow> string \<Rightarrow> uuid \<Rightarrow> decimal \<Rightarrow> decimal \<Rightarrow> datetime option \<Rightarrow> (pg_oms, paper_order) operation" where
  "pg_ingest_fill tr e external_fill_id i quantity price occurred_at s =
     (let occurred = (case occurred_at of None \<Rightarrow> oe_now e | Some t \<Rightarrow> t)
      in if blank external_fill_id \<or> quantity \<le> 0 \<or> price \<le> 0 \<or> \<not> aware occurred
         then (Inl (oms_error ''invalid_fill''), s)
         else pg_transaction tr ''postgres_fill_ingestion_failed'' is_oms_error
           (pg_fill_body e external_fill_id i quantity price occurred) s)"

text \<open>Two transactions: the second may fail and leave the order pending.\<close>

definition pg_cancel :: "tx \<Rightarrow> tx \<Rightarrow> oms_env \<Rightarrow> oms_env \<Rightarrow> uuid \<Rightarrow> string \<Rightarrow> (pg_oms, paper_order) operation" where
  "pg_cancel tr tr' e e' i actor =
     bind_method (pg_order_transition tr e i CANCEL_PENDING actor) (\<lambda>_. pg_order_transition tr' e' i CANCELLED actor)"

definition pg_append_amendment ::
  "uuid \<Rightarrow> paper_order \<Rightarrow> uuid \<Rightarrow> decimal \<Rightarrow> decimal \<Rightarrow> string \<Rightarrow> datetime \<Rightarrow> (pg_oms, unit) operation" where
  "pg_append_amendment event_id o1 i quantity limit_price actor =
     pg_append_event event_id i ''ORDER_AMENDED''
       [(''actor'', actor), (''limit_price'', dec_str limit_price),
        (''previous_limit_price'', dec_str (oi_limit_price (po_intent o1))),
        (''previous_quantity'', dec_str (oi_quantity (po_intent o1))), (''quantity'', dec_str quantity)]"

definition pg_amend_body ::
  "oms_env \<Rightarrow> uuid \<Rightarrow> decimal \<Rightarrow> decimal \<Rightarrow> string \<Rightarrow> (pg_oms, paper_order) operation" where
  "pg_amend_body e i quantity limit_price actor s =
     (case pg_order i s of
        Inl x \<Rightarrow> (Inl x, s)
      | Inr o1 \<Rightarrow>
          if \<not> amendable o1 quantity limit_price then (Inl (oms_error ''invalid_order_amendment''), s)
          else bind_method (pg_append_amendment (oe_event_id e) o1 i quantity limit_price actor (oe_event_now e))
            (\<lambda>_ t. (Inr (amend_order o1 quantity limit_price), t)) s)"

definition pg_amend ::
  "tx \<Rightarrow> oms_env \<Rightarrow> uuid \<Rightarrow> decimal \<Rightarrow> decimal \<Rightarrow> string \<Rightarrow> (pg_oms, paper_order) operation" where
  "pg_amend tr e i quantity limit_price actor =
     pg_transaction tr ''postgres_order_amend_failed'' is_oms_error (pg_amend_body e i quantity limit_price actor)"

definition pg_order_events :: "tx \<Rightarrow> uuid \<Rightarrow> (pg_oms, oms_event list) operation" where
  "pg_order_events tr i =
     pg_transaction tr ''postgres_oms_events_failed'' (\<lambda>_. False)
       (\<lambda>s. (Inr (filter (\<lambda>v. ov_intent_id v = i) (pg_events s)), s))"

text \<open>\<open>ORDER BY occurred_at, fill_id\<close>\<close>

definition pg_order_fills :: "tx \<Rightarrow> uuid \<Rightarrow> (pg_oms, recorded_fill list) operation" where
  "pg_order_fills tr i =
     pg_transaction tr ''postgres_oms_fills_failed'' (\<lambda>_. False)
       (\<lambda>s. (Inr (sort_key (\<lambda>f. (instant (rf_occurred_at f), rf_fill_id f))
                  (filter (\<lambda>f. rf_intent_id f = i) (pg_fills s))), s))"

section \<open>Reconciled accounts\<close>

fun evidence_positions :: "uuid list \<Rightarrow> (string, position) dict \<Rightarrow> (string, position) dict result" where
  "evidence_positions known [] = Inr []"
| "evidence_positions known ((k, p) # ps) =
     (case uuid_of_text k of
        None \<Rightarrow> Inl malformed_uuid
      | Some u \<Rightarrow>
          if u \<notin> set known \<or> \<not> numeric_fits (numeric12 (pos_quantity p)) \<or> \<not> numeric_fits (numeric12 (pos_average_cost p))
          then Inl constraint_violation
          else (case evidence_positions known ps of
             Inl x \<Rightarrow> Inl x
           | Inr rows \<Rightarrow>
               if uuid_str u \<in> fst ` set rows then Inl unique_violation
               else Inr ((uuid_str u, mk_position (uuid_str u) (numeric_column (pos_quantity p))
                      (numeric_column (pos_average_cost p))) # rows)))"

definition evidence_snapshot :: "uuid list \<Rightarrow> broker_account_snapshot \<Rightarrow> broker_account_snapshot result" where
  "evidence_snapshot known snap =
     (case char3 (cash_currency (bas_cash snap)) of
        None \<Rightarrow> Inl constraint_violation
      | Some currency \<Rightarrow>
          if \<exists>d \<in> {cash_amount (bas_cash snap), bas_buying_power snap, bas_realized_pnl snap, bas_fees snap}.
             \<not> numeric_fits (numeric12 d)
          then Inl constraint_violation
          else bind_result (evidence_positions known (bas_positions snap)) (\<lambda>positions.
            Inr (snap\<lparr>bas_cash := mk_cash currency (numeric_column (cash_amount (bas_cash snap))),
              bas_buying_power := numeric_column (bas_buying_power snap), bas_positions := positions,
              bas_realized_pnl := numeric_column (bas_realized_pnl snap),
              bas_fees := numeric_column (bas_fees snap)\<rparr>)))"

definition pg_account_body ::
  "oms_env \<Rightarrow> broker_account_snapshot \<Rightarrow> reconciliation_result \<Rightarrow> bool \<Rightarrow> datetime \<Rightarrow>
   (pg_oms, recorded_reconciliation \<times> recorded_account option) operation" where
  "pg_account_body e snap r healthy ingested_at s =
     (let record_row = \<lparr>rec_run_id = oe_row_id e, rec_account_id = bas_account_id snap,
            rec_source = bas_source snap, rec_occurred_at = bas_as_of snap,
            rec_complete = rr_complete r, rec_discrepancies = rr_discrepancies r\<rparr>;
          evidence = \<lparr>ra_evidence_id = oe_evidence_id e, ra_reconciliation_id = oe_row_id e,
            ra_snapshot = snap, ra_healthy = healthy, ra_ingested_at = ingested_at\<rparr>;
          s1 = s\<lparr>pg_runs := pg_runs s @ [record_row]\<rparr>
      in if oe_row_id e \<in> rec_run_id ` set (pg_runs s) \<or> bas_account_id snap \<notin> set (pg_account_ids s)
         then (Inl constraint_violation, s)
         else if \<not> rr_complete r then (Inr (record_row, None), s1)
         else if oe_evidence_id e \<in> ra_evidence_id ` set (pg_evidence s) \<or>
                 oe_row_id e \<in> ra_reconciliation_id ` set (pg_evidence s)
         then (Inl unique_violation, s1)
         else case evidence_snapshot (pg_instruments s) snap of
           Inl x \<Rightarrow> (Inl x, s1)
         | Inr row \<Rightarrow>
             (Inr (record_row, Some evidence),
              s1\<lparr>pg_evidence := pg_evidence s1 @ [evidence\<lparr>ra_snapshot := row\<rparr>]\<rparr>))"

definition pg_record_account ::
  "tx \<Rightarrow> oms_env \<Rightarrow> broker_account_snapshot \<Rightarrow> reconciliation_result \<Rightarrow> bool \<Rightarrow> datetime \<Rightarrow>
   (pg_oms, recorded_reconciliation \<times> recorded_account option) operation" where
  "pg_record_account tr e snap r healthy ingested_at s =
     (if blank (bas_account_id snap) \<or> blank (bas_source snap) \<or> \<not> aware (bas_as_of snap) \<or>
         \<not> aware ingested_at \<or> instant ingested_at < instant (bas_as_of snap)
      then (Inl (oms_error ''invalid_reconciled_account_snapshot''), s)
      else pg_transaction tr ''postgres_reconciliation_persistence_failed'' (\<lambda>_. False)
        (pg_account_body e snap r healthy ingested_at) s)"

text \<open>
  \<open>ORDER BY as_of DESC, ingested_at DESC LIMIT 1\<close>, by instants; among equal rows the database may choose
  any, here the one inserted last.
\<close>

definition pg_latest_account :: "tx \<Rightarrow> string \<Rightarrow> datetime \<Rightarrow> (pg_oms, recorded_account option) operation" where
  "pg_latest_account tr account_id decision_at =
     pg_transaction tr ''postgres_reconciled_account_read_failed'' (\<lambda>_. False)
       (\<lambda>s. (Inr (newest (\<lambda>a. (instant (bas_as_of (ra_snapshot a)), instant (ra_ingested_at a)))
          (filter (\<lambda>a. bas_account_id (ra_snapshot a) = account_id \<and>
             instant (bas_as_of (ra_snapshot a)) \<le> instant decision_at \<and>
             instant (ra_ingested_at a) \<le> instant decision_at) (pg_evidence s))), s))"

definition pg_latest_reconciliation :: "tx \<Rightarrow> string \<Rightarrow> (pg_oms, recorded_reconciliation option) operation" where
  "pg_latest_reconciliation tr account_id =
     pg_transaction tr ''postgres_reconciliation_read_failed'' (\<lambda>_. False)
       (\<lambda>s. (Inr (newest (\<lambda>r. (instant (rec_occurred_at r), rec_run_id r))
          (filter (\<lambda>r. rec_account_id r = account_id) (pg_runs s))), s))"

section \<open>Broker events\<close>

definition pg_cursor :: "string \<Rightarrow> string \<Rightarrow> pg_oms \<Rightarrow> int" where
  "pg_cursor account_id source s = dict_get_or (pg_cursors s) (account_id, source) 0"

text \<open>\<open>PostgresBrokerEventStore.last_sequence\<close>\<close>

definition pg_last_sequence :: "tx \<Rightarrow> string \<Rightarrow> string \<Rightarrow> (pg_oms, int) operation" where
  "pg_last_sequence tr account_id broker_name =
     pg_transaction tr ''postgres_broker_cursor_read_failed'' (\<lambda>_. False)
       (\<lambda>s. (Inr (pg_cursor account_id broker_name s), s))"

definition pg_insert_receipt :: "string \<Rightarrow> string \<Rightarrow> broker_order_event \<Rightarrow> (pg_oms, unit) operation" where
  "pg_insert_receipt account_id broker_name v s =
     (if boe_event_id v \<in> (se_event_id \<circ> rc_event) ` set (pg_receipts s) \<or>
         account_id \<notin> set (pg_account_ids s) \<or> boe_client_intent_id v \<notin> oi_intent_id ` set (pg_intents s) \<or>
         boe_sequence v \<le> 0 \<or> 2 ^ 63 \<le> boe_sequence v \<or>
         (\<exists>c \<in> set (pg_receipts s). rc_account_id c = account_id \<and> se_broker_name (rc_event c) = broker_name \<and>
            se_sequence (rc_event c) = boe_sequence v)
      then (Inl constraint_violation, s)
      else (Inr (), s\<lparr>pg_receipts := pg_receipts s @
        [\<lparr>rc_account_id = account_id, rc_event = stored_of broker_name v, rc_details = boe_details v\<rparr>]\<rparr>))"

definition pg_event_fill :: "oms_env \<Rightarrow> broker_order_event \<Rightarrow> (pg_oms, unit) operation" where
  "pg_event_fill e v s =
     (case (details_text v ''external_fill_id'', details_decimal v ''quantity'', details_decimal v ''price'') of
        (Inl x, _, _) \<Rightarrow> (Inl x, s)
      | (Inr _, Inl x, _) \<Rightarrow> (Inl x, s)
      | (Inr _, Inr _, Inl x) \<Rightarrow> (Inl x, s)
      | (Inr fill_id, Inr quantity, Inr price) \<Rightarrow>
          bind_method (pg_fill_body e fill_id (boe_client_intent_id v) quantity price (boe_occurred_at v))
            (\<lambda>_ t. (Inr (), t)) s)"

definition pg_event_cancelled :: "oms_env \<Rightarrow> oms_env \<Rightarrow> broker_order_event \<Rightarrow> (pg_oms, unit) operation" where
  "pg_event_cancelled e e' v s =
     (let i = boe_client_intent_id v;
          changed = (\<lambda>d a b. pg_append_event (oe_event_id d) i ''ORDER_STATUS_CHANGED''
            [(''actor'', ''broker_sync''), (''from'', status_value a), (''to'', status_value b)] (boe_occurred_at v))
      in case pg_order i s of
           Inl x \<Rightarrow> (Inl x, s)
         | Inr o1 \<Rightarrow>
             if po_status o1 \<notin> {ACKNOWLEDGED, PARTIALLY_FILLED} then (Inr (), s)
             else case order_transition o1 CANCEL_PENDING of
               Inl x \<Rightarrow> (Inl x, s)
             | Inr pending \<Rightarrow>
                 bind_method (changed e (po_status o1) (po_status pending))
                   (\<lambda>_. changed e' (po_status pending) CANCELLED) s)"

definition pg_event_replaced :: "oms_env \<Rightarrow> broker_order_event \<Rightarrow> (pg_oms, unit) operation" where
  "pg_event_replaced e v s =
     (case pg_order (boe_client_intent_id v) s of
        Inl x \<Rightarrow> (Inl x, s)
      | Inr o1 \<Rightarrow>
          (case (details_decimal v ''quantity'', details_decimal v ''limit_price'') of
             (Inl x, _) \<Rightarrow> (Inl x, s)
           | (Inr _, Inl x) \<Rightarrow> (Inl x, s)
           | (Inr quantity, Inr limit_price) \<Rightarrow>
               if \<not> amendable o1 quantity limit_price then (Inl (oms_error ''invalid_order_amendment''), s)
               else pg_append_amendment (oe_event_id e) o1 (boe_client_intent_id v) quantity limit_price
                 ''broker_sync'' (boe_occurred_at v) s))"

definition pg_event_change :: "oms_env \<times> oms_env \<Rightarrow> broker_order_event \<Rightarrow> (pg_oms, unit) operation" where
  "pg_event_change es v =
     (if boe_event_type v = ''FILL'' then pg_event_fill (fst es) v
      else if boe_event_type v = ''ORDER_CANCELLED'' then pg_event_cancelled (fst es) (snd es) v
      else if boe_event_type v = ''ORDER_REPLACED'' then pg_event_replaced (fst es) v
      else (\<lambda>s. (Inr (), s)))"

definition pg_event_body ::
  "oms_env \<times> oms_env \<Rightarrow> string \<Rightarrow> string \<Rightarrow> broker_order_event \<Rightarrow> (pg_oms, bool) operation" where
  "pg_event_body es account_id broker_name v s =
     (if boe_external_event_id v \<in> (se_external_event_id \<circ> rc_event) ` set (pg_receipts s) then (Inr False, s)
      else if boe_sequence v \<le> pg_cursor account_id broker_name s
      then (Inl (oms_error ''broker_event_sequence_not_monotonic''), s)
      else
        bind_method (pg_insert_receipt account_id broker_name v) (\<lambda>_.
        bind_method (pg_event_change es v) (\<lambda>_ t.
          (Inr True, t\<lparr>pg_cursors := dict_set (account_id, broker_name) (boe_sequence v) (pg_cursors t)\<rparr>))) s)"

definition apply_broker_event ::
  "tx \<Rightarrow> oms_env \<times> oms_env \<Rightarrow> string \<Rightarrow> string \<Rightarrow> broker_order_event \<Rightarrow> (pg_oms, bool) operation" where
  "apply_broker_event tr es account_id broker_name v =
     pg_transaction tr ''postgres_broker_event_transaction_failed'' (\<lambda>x. is_key_error x \<or> is_value_error x)
       (pg_event_body es account_id broker_name v)"

text \<open>
  The branch of \<open>BrokerSyncService.sync_events\<close> that uses \<open>apply_broker_event\<close>: the account is the one of the
  event's order. Whatever either method raises is a \<open>PaperOmsError\<close>, a \<open>KeyError\<close> or a \<open>ValueError\<close>.
\<close>

record sync_draw =
  sd_read :: tx
  sd_apply :: tx
  sd_envs :: "oms_env \<times> oms_env"

definition sync_one :: "sync_draw \<Rightarrow> string \<Rightarrow> broker_order_event \<Rightarrow> (pg_oms, bool) operation" where
  "sync_one d broker_name v s =
     (case bind_method (pg_get (sd_read d) (boe_client_intent_id v))
        (\<lambda>o1. apply_broker_event (sd_apply d) (sd_envs d) (oi_account_id (po_intent o1)) broker_name v) s of
        (Inl x, t) \<Rightarrow> (Inl (reraise_as ''broker_event_atomic_persistence_failed'' x), t)
      | (Inr applied, t) \<Rightarrow> (Inr applied, t))"

fun sync_atomic ::
  "(nat \<Rightarrow> sync_draw) \<Rightarrow> nat \<Rightarrow> string \<Rightarrow> broker_order_event list \<Rightarrow> (pg_oms, stored_event list) operation" where
  "sync_atomic env n broker_name [] s = (Inr [], s)"
| "sync_atomic env n broker_name (v # vs) s =
     (case sync_one (env n) broker_name v s of
        (Inl x, t) \<Rightarrow> (Inl x, t)
      | (Inr applied, t) \<Rightarrow>
          (case sync_atomic env (Suc n) broker_name vs t of
             (Inl x, u) \<Rightarrow> (Inl x, u)
           | (Inr stored, u) \<Rightarrow> (Inr ((if applied then [stored_of broker_name v] else []) @ stored), u)))"

end
