(* ===== verification/PostgresReplay.thy ===== *)
theory PostgresReplay
  imports PostgresOms
begin

text \<open>
  The Postgres store of paper orders: what replaying an order gives after each call, the refinement of
  the order store contract by the event-sourced orders, and the guarantees of the one-transaction broker
  events.
\<close>

section \<open>UUID texts\<close>

definition hex_char :: "char \<Rightarrow> bool" where
  "hex_char c \<longleftrightarrow> (\<exists>d < 16. c = hex_digit d)"

lemma of_hex_digit: "d < 16 \<Longrightarrow> (of_char (hex_digit d) :: nat) = (if d < 10 then 48 + d else 87 + d)"
  by (simp add: hex_digit_def of_digit_char)

lemma hex_value_digit: "d < 16 \<Longrightarrow> hex_value (hex_digit d) = Some d"
  by (auto simp: hex_value_def Let_def of_hex_digit)

lemma hex_char_code: "hex_char c \<Longrightarrow> (of_char c :: nat) \<in> {48..57} \<union> {97..102}"
  by (auto simp: hex_char_def of_hex_digit split: if_splits)

lemma hex_char_not:
  assumes "hex_char c"
  shows "c \<notin> set ''-+_xXu{}''" "\<not> is_space c"
  using hex_char_code [OF assms] by (auto simp: is_space_def)

lemma hex_fixed_chars: "\<forall>c \<in> set (hex_fixed k n). hex_char c"
  by (induction k arbitrary: n) (auto simp: hex_char_def intro!: exI [of _ "n mod 16" for n])

lemma length_hex_fixed [simp]: "length (hex_fixed k n) = k"
  by (induction k arbitrary: n) auto

lemma hex_digits_fixed:
  "hex_digits b n (hex_fixed k m @ ys) = hex_digits (b \<or> k \<noteq> 0) (n * 16 ^ k + m mod 16 ^ k) ys"
proof (induction k arbitrary: m ys)
  case (Suc k)
  have "m mod 16 < 16" by simp
  then have "hex_char (hex_digit (m mod 16))" unfolding hex_char_def by blast
  from hex_char_not(1) [OF this] have d: "hex_value (hex_digit (m mod 16)) = Some (m mod 16)" "hex_digit (m mod 16) \<noteq> CHR ''_''"
    by (auto simp: hex_value_digit)
  have e: "16 * (n * 16 ^ k + m div 16 mod 16 ^ k) + m mod 16 = n * 16 ^ Suc k + m mod 16 ^ Suc k"
    by (simp add: mod_mult2_eq)
  have "hex_digits b n (hex_fixed (Suc k) m @ ys) =
      hex_digits (b \<or> k \<noteq> 0) (n * 16 ^ k + m div 16 mod 16 ^ k) (hex_digit (m mod 16) # ys)"
    using Suc.IH [of "m div 16" "hex_digit (m mod 16) # ys"] by simp
  also have "\<dots> = hex_digits True (n * 16 ^ Suc k + m mod 16 ^ Suc k) ys"
    unfolding e [symmetric] using d by simp
  finally show ?case by simp
qed simp

lemma drop_word_absent: "w \<noteq> [] \<Longrightarrow> hd w \<notin> set s \<Longrightarrow> drop_word w s = s"
proof (induction s)
  case (Cons c cs)
  then have "take (length w) (c # cs) \<noteq> w" by (cases w) auto
  then show ?case using Cons by simp
qed simp

lemma dropWhile_absent: "\<forall>c \<in> set xs. \<not> P c \<Longrightarrow> dropWhile P xs = xs"
  by (cases xs) auto

lemma strip_absent: "\<forall>c \<in> set xs. \<not> is_space c \<Longrightarrow> strip xs = xs"
  by (simp add: strip_def dropWhile_absent)

lemma uuid_str_chars: "c \<in> set (uuid_str u) \<Longrightarrow> c = CHR ''-'' \<or> hex_char c"
  using hex_fixed_chars [of 32 u] by (auto simp: uuid_str_def Let_def dest!: in_set_takeD in_set_dropD)

lemma uuid_str_digits: "filter (\<lambda>c. c \<noteq> CHR ''-'') (uuid_str u) = hex_fixed 32 u"
proof -
  let ?h = "hex_fixed 32 u"
  have f: "filter (\<lambda>c. c \<noteq> CHR ''-'') xs = xs" if "set xs \<subseteq> set ?h" for xs
    using that hex_fixed_chars [of 32 u] hex_char_not(1) by (intro filter_True) fastforce
  have "?h = take 8 ?h @ take 4 (drop 8 ?h) @ take 4 (drop 12 ?h) @ take 4 (drop 16 ?h) @ drop 20 ?h"
    using append_take_drop_id [of 4 "drop 16 ?h"] append_take_drop_id [of 4 "drop 12 ?h"]
      append_take_drop_id [of 4 "drop 8 ?h"] append_take_drop_id [of 8 ?h] by simp
  then show ?thesis
    by (simp add: uuid_str_def Let_def f set_take_subset set_drop_subset subset_trans [OF set_take_subset set_drop_subset])
qed

text \<open>The text \<open>str\<close> gives for a UUID reads back as that UUID.\<close>

lemma uuid_text_round_trip:
  assumes "u < 2 ^ 128"
  shows "uuid_of_text (uuid_str u) = Some u"
proof -
  define h where "h = hex_fixed 32 u"
  have no: "CHR ''u'' \<notin> set (uuid_str u)" "\<forall>c \<in> set (uuid_str u). c \<notin> set ''{}''"
    using uuid_str_chars hex_char_not(1) by fastforce+
  have s: "drop_word ''uuid:'' (drop_word ''urn:'' (uuid_str u)) = uuid_str u"
    using no(1) by (simp add: drop_word_absent)
  have b: "rev (dropWhile (\<lambda>c. c \<in> set ''{}'') (rev (dropWhile (\<lambda>c. c \<in> set ''{}'') (uuid_str u)))) = uuid_str u"
    using no(2) by (subst dropWhile_absent [of "uuid_str u"], blast, subst dropWhile_absent, simp_all)
  have h: "\<forall>c \<in> set h. c \<notin> set ''-+_xXu{}'' \<and> \<not> is_space c"
    using hex_fixed_chars [of 32 u] hex_char_not unfolding h_def by blast
  have len: "length h = 32" by (simp add: h_def)
  then obtain c cs where c: "h = c # cs" by (cases h) auto
  have x: "a \<notin> set h" if "a \<in> set ''-+_xXu{}''" for a using h that by blast
  have pre: "take 2 h \<noteq> ''0x''" "take 2 h \<noteq> ''0X''"
    using x [of "CHR ''x''"] x [of "CHR ''X''"] in_set_takeD [of _ 2 h] by (metis list.set_intros)+
  have v: "hex_digits False 0 (c # cs) = Some u"
    using hex_digits_fixed [of False 0 32 u "[]"] assms unfolding c [symmetric] h_def by simp
  have st: "strip (c # cs) = c # cs" "c \<noteq> CHR ''-''" "c \<noteq> CHR ''+''"
    using strip_absent [of h] h x [of "CHR ''-''"] x [of "CHR ''+''"] unfolding c by simp_all
  have "int_base16 (c # cs) = map_option (\<lambda>n. 1 * int n) (hex_digits False 0 (c # cs))"
    unfolding int_base16_def Let_def st(1) list.case
    by (simp only: st(2,3) pre [unfolded c] if_False simp_thms)
  then have "int_base16 h = Some (int u)" by (simp only: c v option.map mult_1)
  then show ?thesis by (simp add: uuid_of_text_def s b [simplified] uuid_str_digits h_def [symmetric] len)
qed

section \<open>Reading back\<close>

lemma numeric12_places: "- 12 \<le> dexp (numeric12 d)"
  by (simp add: numeric12_def Let_def)

lemma dval_numeric_column: "dval (numeric_column d) = dval (numeric12 d)"
  using align_value [OF numeric12_places, of d] by (simp add: numeric_column_def)

lemma numeric12_on_grid: "on_grid 12 (dval (numeric12 d))"
  using align_value [OF numeric12_places, of d, symmetric] unfolding on_grid_def by blast

lemma numeric_column_eq_iff: "deq (numeric_column d) d \<longleftrightarrow> on_grid 12 (dval d)"
  using numeric12_on_grid [of d] numeric12_grid [of d] by (auto simp: dec_order dval_numeric_column)

lemma status_of_value [simp]: "status_of (status_value st) = Inr st"
  by (cases st) (simp_all add: status_of_def all_statuses_def)

named_theorems pg_simps "what the writes of the store do to the replayed orders"

lemma pg_order_cong:
  "pg_intents t = pg_intents s \<Longrightarrow> pg_events t = pg_events s \<Longrightarrow> pg_order i t = pg_order i s"
  by (simp add: pg_order_def split: option.split)

lemma pg_order_other [pg_simps, simp]:
  "pg_order i (s\<lparr>pg_sequence := n\<rparr>) = pg_order i s"
  "pg_order i (s\<lparr>pg_fills := fs\<rparr>) = pg_order i s"
  "pg_order i (s\<lparr>pg_runs := rs\<rparr>) = pg_order i s"
  "pg_order i (s\<lparr>pg_evidence := es\<rparr>) = pg_order i s"
  "pg_order i (s\<lparr>pg_receipts := cs\<rparr>) = pg_order i s"
  "pg_order i (s\<lparr>pg_cursors := d\<rparr>) = pg_order i s"
  by (rule pg_order_cong; simp)+

lemma pg_order_rollback [simp]: "pg_order i (rollback s t) = pg_order i s"
  by (simp add: rollback_def)

lemma pg_order_append:
  "pg_order j (s\<lparr>pg_events := pg_events s @ [v]\<rparr>) =
     (if ov_intent_id v = j then bind_result (pg_order j s) (replay_oms_event v) else pg_order j s)"
  by (auto simp: pg_order_def fold_result_append bind_result_def fun_eq_iff split: option.splits sum.splits)

text \<open>The row an append writes, and its effect.\<close>

abbreviation event_row :: "nat \<Rightarrow> uuid \<Rightarrow> uuid \<Rightarrow> string \<Rightarrow> (string, string) dict \<Rightarrow> datetime \<Rightarrow> oms_event" where
  "event_row n event_id i event_type payload t \<equiv>
     \<lparr>ov_sequence = n, ov_event_id = event_id, ov_intent_id = i, ov_event_type = event_type,
      ov_occurred_at = t, ov_payload = payload\<rparr>"

lemma append_event_Inr:
  "pg_append_event event_id i y d t s = (Inr u, s') \<longleftrightarrow>
     event_id \<notin> ov_event_id ` set (pg_events s) \<and>
     s' = s\<lparr>pg_sequence := pg_sequence s + 1, pg_events := pg_events s @ [event_row (pg_sequence s + 1) event_id i y d t]\<rparr>"
  by (auto simp: pg_append_event_def Let_def)

lemma order_after_append [pg_simps]:
  "pg_append_event event_id i y d t s = (Inr u, s') \<Longrightarrow>
   pg_order j s' = (if j = i then bind_result (pg_order i s) (replay_oms_event (event_row (pg_sequence s + 1) event_id i y d t)) else pg_order j s)"
  using pg_order_append [of j "s\<lparr>pg_sequence := pg_sequence s + 1\<rparr>" "event_row (pg_sequence s + 1) event_id i y d t"]
  by (auto simp: append_event_Inr)

text \<open>What is written replays as what was returned.\<close>

lemma replay_created: "replay_oms_event (event_row m a i ''ORDER_CREATED'' d t) o1 = Inr o1"
  by (simp add: replay_oms_event_def)

lemma replay_status:
  "replay_oms_event (event_row m a i ''ORDER_STATUS_CHANGED''
     [(''actor'', actor), (''from'', from1), (''to'', status_value n)] t) o1 = order_transition o1 n"
  by (simp add: replay_oms_event_def payload_text_def)

lemma replay_amendment:
  "replay_oms_event (event_row m a i ''ORDER_AMENDED''
     [(''actor'', actor), (''limit_price'', dec_str p), (''previous_limit_price'', x), (''previous_quantity'', y),
      (''quantity'', dec_str q)] t) o1 = Inr (amend_order o1 q p)"
  by (simp add: replay_oms_event_def payload_decimal_def payload_text_def)

lemma replay_fill:
  "replay_oms_event (event_row m a i ''FILL_INGESTED''
     [(''external_fill_id'', x), (''price'', dec_str p), (''quantity'', dec_str q), (''status'', y)] t) o1 = order_fill o1 q p"
  by (simp add: replay_oms_event_def payload_decimal_def payload_text_def)

lemmas [pg_simps] = replay_created replay_status replay_amendment replay_fill

section \<open>Single transactions\<close>

text \<open>A transaction leaves the state of its body, which then returned, or rolls back.\<close>

lemma transaction_cases:
  assumes "pg_transaction tr m keep body s = (r, t)"
  obtains (committed) y where "body s = (Inr y, t)" "tr \<noteq> TxRolledBack" "tr = TxCommitted \<Longrightarrow> r = Inr y"
      "tr = TxReplyLost \<Longrightarrow> r = Inl (oms_error m)"
  | (rolled_back) x where "r = Inl x" "t = rollback s t"
  using assms by (cases tr) (auto simp: pg_transaction_def rollback_def split: prod.splits sum.splits)

lemma transaction_Inr:
  "pg_transaction tr m keep body s = (Inr y, t) \<longleftrightarrow> tr = TxCommitted \<and> body s = (Inr y, t)"
  by (cases tr) (auto simp: pg_transaction_def split: prod.splits sum.splits)

lemma transaction_committed:
  "body s = (Inr y, t) \<Longrightarrow> pg_transaction TxCommitted m keep body s = (Inr y, t)"
  by (simp add: pg_transaction_def)

section \<open>Advancing steps\<close>

text \<open>Every event belongs to an intent row: the foreign key of \<open>oms_events\<close>.\<close>

definition fk_linked :: "pg_oms \<Rightarrow> bool" where
  "fk_linked s \<longleftrightarrow> ov_intent_id ` set (pg_events s) \<subseteq> oi_intent_id ` set (pg_intents s)"

abbreviation intent_ids :: "pg_oms \<Rightarrow> uuid set" where
  "intent_ids s \<equiv> oi_intent_id ` set (pg_intents s)"

text \<open>
  Orders that can be read stay so and move by order steps; an order that appears is well-formed, and can
  be read as soon as its row is there.
\<close>

definition advances :: "discipline \<Rightarrow> int \<Rightarrow> pg_oms \<Rightarrow> pg_oms \<Rightarrow> bool" where
  "advances D k s t \<longleftrightarrow>
     (\<forall>i o1. pg_order i s = Inr o1 \<longrightarrow> (\<exists>o2. pg_order i t = Inr o2 \<and> order_moves D k o1 o2)) \<and>
     (\<forall>i o2. \<not> ok (pg_order i s) \<longrightarrow> pg_order i t = Inr o2 \<longrightarrow> order_sound D k o2 \<and> intent_id_of o2 = i) \<and>
     (\<forall>i \<in> intent_ids t - intent_ids s. ok (pg_order i t))"

text \<open>
  \<open>g\<close> says that the quantities of the call are good; the foreign key holds and receipts stay whether they
  are or not.
\<close>

definition good_step :: "discipline \<Rightarrow> int \<Rightarrow> bool \<Rightarrow> pg_oms \<Rightarrow> pg_oms \<Rightarrow> bool" where
  "good_step D k g s t \<longleftrightarrow>
     set (pg_receipts s) \<subseteq> set (pg_receipts t) \<and> (fk_linked s \<longrightarrow> fk_linked t \<and> (g \<longrightarrow> advances D k s t))"

lemma same_step:
  "pg_intents t = pg_intents s \<Longrightarrow> pg_events t = pg_events s \<Longrightarrow> set (pg_receipts s) \<subseteq> set (pg_receipts t) \<Longrightarrow>
   good_step D k g s t"
  using pg_order_cong [of t s] by (auto simp: good_step_def fk_linked_def advances_def ok_iff)

lemma good_step_refl [simp]: "good_step D k g s s"
  by (simp add: same_step)

lemma advances_trans:
  assumes st: "advances D k s t" and tu: "advances D k t u"
  shows "advances D k s u"
  unfolding advances_def
proof (intro conjI allI impI ballI)
    fix i o1 assume "pg_order i s = Inr o1"
    then obtain o2 where o2: "pg_order i t = Inr o2" "order_moves D k o1 o2" using st unfolding advances_def by blast
    then obtain o3 where "pg_order i u = Inr o3" "order_moves D k o2 o3" using tu unfolding advances_def by blast
    with o2(2) show "\<exists>o3. pg_order i u = Inr o3 \<and> order_moves D k o1 o3" by auto
  next
    fix i o3 assume new: "\<not> ok (pg_order i s)" and o3: "pg_order i u = Inr o3"
    have "order_sound D k o3 \<and> intent_id_of o3 = i"
    proof (cases "pg_order i t")
      case (Inl x)
      then have "\<not> ok (pg_order i t)" by simp
      then show ?thesis using tu o3 unfolding advances_def by blast
    next
      case (Inr o2)
      then have "order_sound D k o2" "intent_id_of o2 = i" using st new unfolding advances_def by blast+
      moreover have "order_moves D k o2 o3" using tu o3 Inr unfolding advances_def by fastforce
      ultimately show ?thesis using order_steps_facts by metis
    qed
    then show "order_sound D k o3" "intent_id_of o3 = i" by auto
next
  fix i assume "i \<in> intent_ids u - intent_ids s"
  then consider "i \<in> intent_ids t - intent_ids s" | "i \<in> intent_ids u - intent_ids t" by blast
  then show "ok (pg_order i u)"
  proof cases
    case 1
    then have "ok (pg_order i t)" using st unfolding advances_def by blast
    then show ?thesis using tu unfolding advances_def ok_iff by blast
  next
    case 2
    then show ?thesis using tu unfolding advances_def by blast
  qed
qed

lemma good_step_trans: "good_step D k g s t \<Longrightarrow> good_step D k g t u \<Longrightarrow> good_step D k g s u"
  by (auto simp: good_step_def intro: advances_trans)

lemma rollback_step: "good_step D k g s (rollback s t)"
  by (rule same_step) (simp_all add: rollback_def)

lemma transaction_step:
  assumes "pg_transaction tr m keep body s = (r, t)" "\<And>y u. body s = (Inr y, u) \<Longrightarrow> good_step D k g s u"
  shows "good_step D k g s t"
  using assms(1)
proof (cases rule: transaction_cases)
  case (rolled_back x)
  show ?thesis by (subst rolled_back(2)) (rule rollback_step)
qed (use assms(2) in blast)

text \<open>What an order looks like after a call that returned one.\<close>

definition order_written :: "uuid \<Rightarrow> paper_order \<Rightarrow> paper_order \<Rightarrow> pg_oms \<Rightarrow> pg_oms \<Rightarrow> bool" where
  "order_written i o1 o2 s t \<longleftrightarrow>
     pg_order i s = Inr o1 \<and> pg_order i t = Inr o2 \<and> (\<forall>j. j \<noteq> i \<longrightarrow> pg_order j t = pg_order j s) \<and>
     pg_intents t = pg_intents s \<and> pg_receipts t = pg_receipts s \<and> ov_intent_id ` set (pg_events t) = insert i (ov_intent_id ` set (pg_events s))"

lemma readable_row: "pg_order i s = Inr o1 \<Longrightarrow> i \<in> oi_intent_id ` set (pg_intents s)"
  by (auto simp: pg_order_def find_Some_iff split: option.splits)

lemma written_step: "order_written i o1 o2 s t \<Longrightarrow> (g \<Longrightarrow> order_moves D k o1 o2) \<Longrightarrow> good_step D k g s t"
  by (auto simp: order_written_def good_step_def fk_linked_def advances_def ok_iff dest: readable_row)
     (metis Inr_inject rtranclp.rtrancl_refl)+

lemma append_written:
  assumes "pg_append_event a i y d t s = (Inr u, s')" "pg_order i s = Inr o1"
    and "\<And>n. replay_oms_event (event_row n a i y d t) o1 = Inr o2"
  shows "order_written i o1 o2 s s'"
  using assms order_after_append [OF assms(1)] by (auto simp: order_written_def append_event_Inr)

lemma transition_body_written:
  assumes "pg_transition_body s e i n actor s = (Inr o2, t)"
  obtains o1 where "order_written i o1 o2 s t" "order_transition o1 n = Inr o2"
  using assms append_written
  by (fastforce simp: pg_transition_body_def bind_method_Inr_iff replay_status split: sum.splits)

lemma advances_created:
  assumes "\<not> ok (pg_order i s)" "pg_order i t = Inr o1" "order_sound D k o1" "intent_id_of o1 = i"
    and "\<And>j. j \<noteq> i \<Longrightarrow> pg_order j t = pg_order j s" "intent_ids t \<subseteq> insert i (intent_ids s)"
  shows "advances D k s t"
  unfolding advances_def
proof (intro conjI allI impI ballI)
  fix j o2 assume j: "pg_order j s = Inr o2"
  then have "j \<noteq> i" using assms(1) by auto
  then show "\<exists>o3. pg_order j t = Inr o3 \<and> order_moves D k o2 o3" using assms(5) j by auto
next
  fix j o2 assume j: "\<not> ok (pg_order j s)" "pg_order j t = Inr o2"
  then have "j = i" using assms(5) by force
  then show "order_sound D k o2" "intent_id_of o2 = j" using j(2) assms(2-4) by auto
next
  fix j assume "j \<in> intent_ids t - intent_ids s"
  then have "j = i" using assms(6) by blast
  then show "ok (pg_order j t)" using assms(2) by simp
qed

text \<open>A fill is known, or new: then the order takes it.\<close>

lemma fill_body_written:
  assumes "pg_fill_body e x i q p t s = (Inr o2, s')"
  obtains (known) "s' = s" "pg_order i s = Inr o2" "x \<in> rf_external_fill_id ` set (pg_fills s)"
  | (new) o1 where "order_written i o1 o2 s s'" "order_fill o1 q p = Inr o2"
      "x \<notin> rf_external_fill_id ` set (pg_fills s)"
      "pg_fills s' = pg_fills s @
         [\<lparr>rf_fill_id = oe_row_id e, rf_external_fill_id = x, rf_intent_id = i, rf_occurred_at = t,
           rf_quantity = numeric_column q, rf_price = numeric_column p\<rparr>]"
proof (cases "find (\<lambda>f. rf_external_fill_id f = x) (pg_fills s)")
  case (Some f)
  then have "x \<in> rf_external_fill_id ` set (pg_fills s)" by (auto simp: find_Some_iff)
  then show ?thesis using Some assms known by (auto simp: pg_fill_body_def split: if_split_asm)
next
  case None
  let ?s = "s\<lparr>pg_fills := pg_fills s @
         [\<lparr>rf_fill_id = oe_row_id e, rf_external_fill_id = x, rf_intent_id = i, rf_occurred_at = t,
           rf_quantity = numeric_column q, rf_price = numeric_column p\<rparr>]\<rparr>"
  obtain o1 where o: "pg_order i s = Inr o1" "order_fill o1 q p = Inr o2"
    and ap: "pg_append_event (oe_event_id e) i ''FILL_INGESTED''
        [(''external_fill_id'', x), (''price'', dec_str p), (''quantity'', dec_str q),
         (''status'', status_value (po_status o2))] t ?s = (Inr (), s')"
    using assms None
    by (auto simp: pg_fill_body_def bind_method_Inr_iff split: sum.split_asm if_split_asm)
  have "order_written i o1 o2 ?s s'" using append_written [OF ap] o by (simp add: replay_fill)
  then have "order_written i o1 o2 s s'" by (simp add: order_written_def)
  moreover have "pg_fills s' = pg_fills ?s" using ap by (simp add: append_event_Inr)
  moreover have "x \<notin> rf_external_fill_id ` set (pg_fills s)" using None by (auto simp: find_None_iff)
  ultimately show ?thesis using new o(2) by simp
qed

lemma amendment_written:
  assumes "pg_append_amendment a o1 i q p actor t s = (Inr u, s')" "pg_order i s = Inr o1"
  shows "order_written i o1 (amend_order o1 q p) s s'"
  using append_written [OF assms(1) [unfolded pg_append_amendment_def] assms(2)] by (simp add: replay_amendment)

lemma amend_body_written:
  assumes "pg_amend_body e i q p actor s = (Inr o2, t)"
  obtains o1 where "order_written i o1 o2 s t" "amendable o1 q p" "o2 = amend_order o1 q p"
  using assms amendment_written
  by (fastforce simp: pg_amend_body_def bind_method_Inr_iff split: sum.split_asm if_split_asm)

text \<open>The cancellation of the broker writes two events, one after the other.\<close>

lemma order_written_trans:
  "order_written i o1 o2 s t \<Longrightarrow> order_written i o2 o3 t u \<Longrightarrow> order_written i o1 o3 s u"
  by (simp add: order_written_def)

lemma cancelled_written:
  assumes "pg_event_cancelled e e' v s = (Inr u, t)"
  obtains (unchanged) o1 where "t = s" "pg_order (boe_client_intent_id v) s = Inr o1" "\<not> fillable (po_status o1)"
  | (cancelled) o1 where "order_written (boe_client_intent_id v) o1 (o1\<lparr>po_status := CANCELLED\<rparr>) s t"
      "fillable (po_status o1)"
proof -
  let ?i = "boe_client_intent_id v"
  obtain o1 where o1: "pg_order ?i s = Inr o1"
    using assms by (auto simp: pg_event_cancelled_def Let_def split: sum.split_asm)
  show ?thesis
  proof (cases "fillable (po_status o1)")
    case False
    then show ?thesis using unchanged assms o1 by (auto simp: pg_event_cancelled_def Let_def fillable_def split: if_split_asm)
  next
    case True
    let ?o2 = "o1\<lparr>po_status := CANCEL_PENDING\<rparr>"
    have tr: "order_transition o1 CANCEL_PENDING = Inr ?o2" "order_transition ?o2 CANCELLED = Inr (o1\<lparr>po_status := CANCELLED\<rparr>)"
      using True by (auto simp: order_simps fillable_def)
    obtain m where m: "pg_append_event (oe_event_id e) ?i ''ORDER_STATUS_CHANGED''
        [(''actor'', ''broker_sync''), (''from'', status_value (po_status o1)), (''to'', status_value CANCEL_PENDING)]
        (boe_occurred_at v) s = (Inr (), m)"
      "pg_append_event (oe_event_id e') ?i ''ORDER_STATUS_CHANGED''
        [(''actor'', ''broker_sync''), (''from'', status_value CANCEL_PENDING), (''to'', status_value CANCELLED)]
        (boe_occurred_at v) m = (Inr u, t)"
      using assms o1 tr(1) True
      by (auto simp: pg_event_cancelled_def Let_def fillable_def bind_method_Inr_iff)
    have w: "order_written ?i o1 ?o2 s m" by (rule append_written [OF m(1) o1]) (unfold replay_status, rule tr(1))
    then have p:  "pg_order ?i m = Inr ?o2" by (simp add: order_written_def)
    have "order_written ?i ?o2 (o1\<lparr>po_status := CANCELLED\<rparr>) m t"
      by (rule append_written [OF m(2) p]) (unfold replay_status, rule tr(2))
    then show ?thesis using cancelled order_written_trans [OF w] True by blast
  qed
qed

lemma cancelled_steps:
  assumes "fillable (po_status o1)"
  shows "order_moves D k o1 (o1\<lparr>po_status := CANCELLED\<rparr>)"
proof -
  let ?o2 = "o1\<lparr>po_status := CANCEL_PENDING\<rparr>"
  have "order_move D k o1 ?o2" "order_move D k ?o2 (o1\<lparr>po_status := CANCELLED\<rparr>)"
    using assms step_transition [of o1 CANCEL_PENDING] step_transition [of ?o2 CANCELLED]
    by (auto simp: order_simps fillable_def)
  then show ?thesis by auto
qed

section \<open>The store is an order store\<close>

lemma create_row:
  assumes "pg_insert_intent i s = (Inr u, t)"
  obtains w where "uuid_of_text (oi_instrument_id i) = Some w" "numeric_positive (oi_quantity i)"
    "numeric_positive (oi_limit_price i)" "t = s\<lparr>pg_intents := pg_intents s @ [stored_intent i w]\<rparr>"
  using assms by (auto simp: pg_insert_intent_def split: option.split_asm if_split_asm)

lemma create_body_new:
  assumes "pg_create_body e o1 s = (Inr o2, t)" "intent_id_of o1 \<notin> oi_intent_id ` set (pg_intents s)" "fk_linked s"
  obtains w where "uuid_of_text (oi_instrument_id (po_intent o1)) = Some w" "o2 = o1"
    "numeric_positive (oi_quantity (po_intent o1))" "fk_linked t"
    "pg_order (intent_id_of o1) t = Inr (new_order (stored_intent (po_intent o1) w))"
    "\<And>j. j \<noteq> intent_id_of o1 \<Longrightarrow> pg_order j t = pg_order j s"
    "pg_intents t = pg_intents s @ [stored_intent (po_intent o1) w]"
proof -
  let ?i = "intent_id_of o1"
  obtain m where m: "pg_insert_intent (po_intent o1) s = (Inr (), m)" "o2 = o1"
    "pg_append_event (oe_event_id e) ?i ''ORDER_CREATED'' [(''status'', status_value PROPOSED)]
       (oi_created_at (po_intent o1)) m = (Inr (), t)"
    using assms(1,2) by (auto simp: pg_create_body_def bind_method_Inr_iff)
  obtain w where w: "uuid_of_text (oi_instrument_id (po_intent o1)) = Some w" "numeric_positive (oi_quantity (po_intent o1))"
    "m = s\<lparr>pg_intents := pg_intents s @ [stored_intent (po_intent o1) w]\<rparr>"
    by (rule create_row [OF m(1)])
  have none: "find (\<lambda>r. oi_intent_id r = ?i) (pg_intents s) = None" unfolding find_None_iff using assms(2) by (metis image_eqI)
  have "filter (\<lambda>v. ov_intent_id v = ?i) (pg_events s) = []"
    unfolding filter_empty_conv using assms(2,3) unfolding fk_linked_def by (metis image_eqI subsetD)
  then have new: "pg_order ?i m = Inr (new_order (stored_intent (po_intent o1) w))"
    using none by (simp add: pg_order_def w(3) find_append stored_intent_def)
  have other: "pg_order j m = pg_order j s" if "j \<noteq> ?i" for j
    using that by (simp add: pg_order_def w(3) find_append stored_intent_def split: option.split)
  have wr: "order_written ?i (new_order (stored_intent (po_intent o1) w)) (new_order (stored_intent (po_intent o1) w)) m t"
    by (rule append_written [OF m(3) new replay_created])
  have "fk_linked m" using assms(3) by (auto simp: fk_linked_def w(3))
  then have "fk_linked t"
    using wr readable_row [OF new] by (auto simp: fk_linked_def order_written_def)
  then show ?thesis using that [OF w(1) m(2) w(2)] wr other w(3) by (auto simp: order_written_def)
qed

datatype pg_call =
    PgCreate tx oms_env paper_order
  | PgTransition tx oms_env uuid order_status string
  | PgFill tx oms_env string uuid decimal decimal "datetime option"
  | PgCancel tx tx oms_env oms_env uuid string
  | PgAmend tx oms_env uuid decimal decimal string
  | PgAccount tx oms_env broker_account_snapshot reconciliation_result bool datetime
  | PgEvent tx "oms_env \<times> oms_env" string string broker_order_event

fun pg_run_call :: "pg_call \<Rightarrow> pg_oms \<Rightarrow> pg_oms" where
  "pg_run_call (PgCreate tr e o1) s = snd (pg_create tr e o1 s)"
| "pg_run_call (PgTransition tr e i n actor) s = snd (pg_order_transition tr e i n actor s)"
| "pg_run_call (PgFill tr e x i q p t) s = snd (pg_ingest_fill tr e x i q p t s)"
| "pg_run_call (PgCancel tr tr' e e' i actor) s = snd (pg_cancel tr tr' e e' i actor s)"
| "pg_run_call (PgAmend tr e i q p actor) s = snd (pg_amend tr e i q p actor s)"
| "pg_run_call (PgAccount tr e snap r h t) s = snd (pg_record_account tr e snap r h t s)"
| "pg_run_call (PgEvent tr es account_id broker_name v) s = snd (apply_broker_event tr es account_id broker_name v s)"

definition event_good :: "int \<Rightarrow> broker_order_event \<Rightarrow> bool" where
  "event_good k v = (case details_decimal v ''quantity'' of Inl _ \<Rightarrow> True | Inr q \<Rightarrow> grid_quantity k q)"

text \<open>
  The discipline of a call; on the grid, the quantity of a new order lies on that of its column, twelve places, as well.
  Every call is as good as \<open>AnyCalls\<close> asks.
\<close>

fun pg_good :: "discipline \<Rightarrow> int \<Rightarrow> pg_call \<Rightarrow> bool" where
  "pg_good D k (PgCreate tr e o1) =
     (D \<noteq> AnyCalls \<longrightarrow> on_grid 12 (dval (oi_quantity (po_intent o1))) \<and> grid_quantity k (oi_quantity (po_intent o1)))"
| "pg_good D k (PgTransition tr e i n actor) = (D = FillsOnly \<longrightarrow> n \<noteq> FILLED)"
| "pg_good D k (PgFill tr e x i q p t) = (D \<noteq> AnyCalls \<longrightarrow> on_grid k (dval q))"
| "pg_good D k (PgAmend tr e i q p actor) = (D \<noteq> AnyCalls \<longrightarrow> grid_quantity k q)"
| "pg_good D k (PgEvent tr es account_id broker_name v) = (D \<noteq> AnyCalls \<longrightarrow> event_good k v)"
| "pg_good D k _ = True"

lemma pg_good_any [simp]: "pg_good AnyCalls k c"
  by (cases c) simp_all

lemma create_body_step:
  assumes "pg_create_body e o1 s = (Inr o2, t)"
  shows "good_step D k (pg_good D k (PgCreate tr e o1)) s t"
proof (cases "intent_id_of o1 \<in> oi_intent_id ` set (pg_intents s)")
  case True
  then have "t = s" using assms(1) by (auto simp: pg_create_body_def split: sum.split_asm if_split_asm)
  then show ?thesis by simp
next
  case new: False
  have r: "pg_receipts t = pg_receipts s"
    using assms new by (auto simp: pg_create_body_def bind_method_Inr_iff append_event_Inr elim!: create_row)
  have "fk_linked t \<and> (pg_good D k (PgCreate tr e o1) \<longrightarrow> advances D k s t)" if l: "fk_linked s"
  proof -
    obtain w where w: "numeric_positive (oi_quantity (po_intent o1))" "fk_linked t"
      "pg_order (intent_id_of o1) t = Inr (new_order (stored_intent (po_intent o1) w))"
      "\<And>j. j \<noteq> intent_id_of o1 \<Longrightarrow> pg_order j t = pg_order j s"
      "pg_intents t = pg_intents s @ [stored_intent (po_intent o1) w]"
      by (rule create_body_new [OF assms(1) new l]) blast
    have "advances D k s t" if g: "pg_good D k (PgCreate tr e o1)"
    proof (rule advances_created [OF _ w(3) _ _ w(4)])
      have "dval (numeric_column (oi_quantity (po_intent o1))) = dval (oi_quantity (po_intent o1))" if "D \<noteq> AnyCalls"
        using g that by (simp add: dval_numeric_column numeric12_grid)
      then show "order_sound D k (new_order (stored_intent (po_intent o1) w))"
        using g w(1)
        by (cases "D = AnyCalls")
           (auto simp: order_sound_def new_order_def stored_intent_def grid_quantity_def numeric_positive_def dec_order dval_numeric_column)
      show "\<not> ok (pg_order (intent_id_of o1) s)" using new by (auto simp: ok_iff dest: readable_row)
    qed (simp_all add: new_order_def stored_intent_def w(5))
    then show ?thesis using w(2) by blast
  qed
  then show ?thesis using r by (simp add: good_step_def)
qed

lemma fill_body_step:
  assumes "pg_fill_body e x i q p t s = (Inr o2, s')"
  shows "good_step D k (D \<noteq> AnyCalls \<longrightarrow> on_grid k (dval q)) s s'"
  using assms(1)
proof (cases rule: fill_body_written)
  case (new o1)
  then show ?thesis using written_step fill_moves by metis
qed simp

lemma transition_body_step:
  "pg_transition_body s e i n actor s = (Inr o2, t) \<Longrightarrow> good_step D k (D = FillsOnly \<longrightarrow> n \<noteq> FILLED) s t"
  by (erule transition_body_written) (metis written_step transition_moves)

lemma amend_body_step:
  "pg_amend_body e i q p actor s = (Inr o2, t) \<Longrightarrow> good_step D k (D \<noteq> AnyCalls \<longrightarrow> grid_quantity k q) s t"
  by (erule amend_body_written) (metis written_step amend_moves)

lemma account_body_step: "pg_account_body e snap r h t s = (y, s') \<Longrightarrow> good_step D k g s s'"
  by (auto simp: pg_account_body_def Let_def split: if_split_asm sum.split_asm intro: same_step)

lemma event_change_cases:
  assumes "pg_event_change es v s = (Inr u, t)"
  obtains (fill) x q p o2 where "boe_event_type v = ''FILL''" "details_text v ''external_fill_id'' = Inr x"
      "details_decimal v ''quantity'' = Inr q" "details_decimal v ''price'' = Inr p"
      "pg_fill_body (fst es) x (boe_client_intent_id v) q p (boe_occurred_at v) s = (Inr o2, t)"
  | (cancelled) "boe_event_type v = ''ORDER_CANCELLED''" "pg_event_cancelled (fst es) (snd es) v s = (Inr (), t)"
  | (replaced) q p o1 where "boe_event_type v = ''ORDER_REPLACED''" "details_decimal v ''quantity'' = Inr q"
      "details_decimal v ''limit_price'' = Inr p" "amendable o1 q p"
      "order_written (boe_client_intent_id v) o1 (amend_order o1 q p) s t"
  | (other) "boe_event_type v \<notin> {''FILL'', ''ORDER_CANCELLED'', ''ORDER_REPLACED''}" "t = s"
proof -
  consider "boe_event_type v = ''FILL''" | "boe_event_type v = ''ORDER_CANCELLED''" | "boe_event_type v = ''ORDER_REPLACED''"
    | "boe_event_type v \<notin> {''FILL'', ''ORDER_CANCELLED'', ''ORDER_REPLACED''}" by blast
  then show ?thesis
  proof cases
    case 1
    then have "pg_event_fill (fst es) v s = (Inr (), t)" using assms by (simp add: pg_event_change_def)
    then show ?thesis using fill 1 by (auto simp: pg_event_fill_def bind_method_Inr_iff split: sum.split_asm)
  next
    case 2
    then show ?thesis using cancelled assms by (simp add: pg_event_change_def)
  next
    case 3
    then have "pg_event_replaced (fst es) v s = (Inr (), t)" using assms by (simp add: pg_event_change_def)
    then obtain o1 q p where "pg_order (boe_client_intent_id v) s = Inr o1" "details_decimal v ''quantity'' = Inr q"
      "details_decimal v ''limit_price'' = Inr p" "amendable o1 q p"
      "pg_append_amendment (oe_event_id (fst es)) o1 (boe_client_intent_id v) q p ''broker_sync'' (boe_occurred_at v) s = (Inr (), t)"
      by (auto simp: pg_event_replaced_def split: sum.split_asm if_split_asm)
    then show ?thesis using replaced 3 amendment_written by blast
  next
    case 4
    then show ?thesis using other assms by (simp add: pg_event_change_def)
  qed
qed

lemma event_change_step:
  assumes "pg_event_change es v s = (Inr u, t)"
  shows "good_step D k (D \<noteq> AnyCalls \<longrightarrow> event_good k v) s t"
  using assms
proof (cases rule: event_change_cases)
  case (fill x q p o2)
  have "event_good k v \<Longrightarrow> on_grid k (dval q)" using fill(3) by (simp add: event_good_def grid_quantity_def)
  then show ?thesis using fill_body_step [OF fill(5), of D k] by (auto simp: good_step_def)
next
  case cancelled
  from cancelled(2) show ?thesis
    by (cases rule: cancelled_written) (auto intro: written_step cancelled_steps)
next
  case (replaced q p o1)
  have "event_good k v \<Longrightarrow> grid_quantity k q" using replaced(2) by (simp add: event_good_def)
  then show ?thesis using written_step [OF replaced(5)] amend_moves [OF replaced(4)] by metis
qed simp

lemma event_body_cases:
  assumes "pg_event_body es account_id broker_name v s = (Inr b, t)"
  obtains (known) "boe_external_event_id v \<in> (se_external_event_id \<circ> rc_event) ` set (pg_receipts s)" "\<not> b" "t = s"
  | (applied) m where "boe_external_event_id v \<notin> (se_external_event_id \<circ> rc_event) ` set (pg_receipts s)" "b"
      "pg_cursor account_id broker_name s < boe_sequence v"
      "pg_event_change es v (s\<lparr>pg_receipts := pg_receipts s @
         [\<lparr>rc_account_id = account_id, rc_event = stored_of broker_name v, rc_details = boe_details v\<rparr>]\<rparr>) = (Inr (), m)"
      "t = m\<lparr>pg_cursors := dict_set (account_id, broker_name) (boe_sequence v) (pg_cursors m)\<rparr>"
  using assms
  by (auto simp: pg_event_body_def bind_method_Inr_iff pg_insert_receipt_def split: if_split_asm)

lemma event_body_step:
  assumes "pg_event_body es account_id broker_name v s = (Inr b, t)"
  shows "good_step D k (D \<noteq> AnyCalls \<longrightarrow> event_good k v) s t"
  using assms
proof (cases rule: event_body_cases)
  case (applied m)
  show ?thesis
    by (rule good_step_trans [OF good_step_trans [OF same_step event_change_step [OF applied(4)]] same_step])
       (auto simp: applied(5))
qed simp

lemma good_step_bind:
  assumes "bind_method m f s = (r, t)" "\<And>a u. m s = (a, u) \<Longrightarrow> good_step D k g s u"
    and "\<And>a b u t. f a u = (b, t) \<Longrightarrow> good_step D k g u t"
  shows "good_step D k g s t"
proof (cases "m s")
  case (Pair a u)
  then have su: "good_step D k g s u" by (rule assms(2))
  show ?thesis
  proof (cases a)
    case (Inl x)
    then show ?thesis using assms(1) Pair su by (simp add: bind_method_def)
  next
    case (Inr y)
    then have "f y u = (r, t)" using assms(1) Pair by (simp add: bind_method_def)
    then show ?thesis using good_step_trans [OF su] assms(3) by blast
  qed
qed

lemma order_transition_step: "pg_order_transition tr e i n actor s = (r, t) \<Longrightarrow> good_step D k (D = FillsOnly \<longrightarrow> n \<noteq> FILLED) s t"
  unfolding pg_order_transition_def by (erule transaction_step) (rule transition_body_step)

lemma good_step_weaken: "good_step D k g s t \<Longrightarrow> (h \<Longrightarrow> g) \<Longrightarrow> good_step D k h s t"
  by (auto simp: good_step_def)

lemma transaction_snd:
  "(\<And>y u. body s = (Inr y, u) \<Longrightarrow> good_step D k g s u) \<Longrightarrow> good_step D k g s (snd (pg_transaction tr m keep body s))"
  using transaction_step [of tr m keep body s] by (metis prod.collapse)

lemma perform_step: "good_step D k (pg_good D k c) s (pg_run_call c s)"
proof (cases c)
  case (PgCreate tr e o1)
  have "good_step D k (pg_good D k c) s (snd (pg_transaction tr m is_oms_error (pg_create_body e o1) s))" for m
    by (rule transaction_snd) (use create_body_step PgCreate in blast)
  then show ?thesis using PgCreate by (simp add: pg_create_def)
next
  case (PgTransition tr e i n actor)
  have "good_step D k (pg_good D k c) s (snd (pg_order_transition tr e i n actor s))"
    unfolding pg_order_transition_def by (rule transaction_snd) (use transition_body_step PgTransition in simp)
  then show ?thesis using PgTransition by simp
next
  case (PgFill tr e x i q p t)
  have "good_step D k (pg_good D k c) s (snd (pg_transaction tr m is_oms_error (pg_fill_body e x i q p u) s))" for m u
    by (rule transaction_snd) (use fill_body_step PgFill in simp)
  then show ?thesis using PgFill by (simp add: pg_ingest_fill_def Let_def)
next
  case (PgCancel tr tr' e e' i actor)
  obtain r t where rt: "pg_cancel tr tr' e e' i actor s = (r, t)" by fastforce
  have "good_step D k (pg_good D k c) s t"
    by (rule good_step_bind [OF rt [unfolded pg_cancel_def]];
        drule order_transition_step [of _ _ _ _ _ _ _ _ D k]; erule good_step_weaken; simp)
  then show ?thesis using rt PgCancel by simp
next
  case (PgAmend tr e i q p actor)
  have "good_step D k (pg_good D k c) s (snd (pg_amend tr e i q p actor s))"
    unfolding pg_amend_def by (rule transaction_snd) (use amend_body_step PgAmend in simp)
  then show ?thesis using PgAmend by simp
next
  case (PgAccount tr e snap r h t)
  have "good_step D k (pg_good D k c) s (snd (pg_transaction tr m f (pg_account_body e snap r h t) s))" for m f
    by (rule transaction_snd) (use account_body_step PgAccount in simp)
  then show ?thesis using PgAccount by (simp add: pg_record_account_def)
next
  case (PgEvent tr es account_id broker_name v)
  have "good_step D k (pg_good D k c) s (snd (apply_broker_event tr es account_id broker_name v s))"
    unfolding apply_broker_event_def by (rule transaction_snd) (use event_body_step PgEvent in simp)
  then show ?thesis using PgEvent by simp
qed

text \<open>The databases whose foreign key holds, and their readable orders.\<close>

typedef linked_db = "{s. fk_linked s}" morphisms tables database
proof -
  have "\<lparr>pg_signals = [], pg_account_ids = [], pg_instruments = [], pg_intents = [], pg_sequence = 0, pg_events = [],
    pg_fills = [], pg_runs = [], pg_evidence = [], pg_receipts = [], pg_cursors = []\<rparr> \<in> {s. fk_linked s}"
    by (simp add: fk_linked_def)
  then show ?thesis by blast
qed

setup_lifting type_definition_linked_db

lift_definition db_perform :: "pg_call \<Rightarrow> linked_db \<Rightarrow> linked_db" is pg_run_call
  using perform_step by (auto simp: good_step_def)

definition pg_book :: "pg_oms \<Rightarrow> order_book" where
  "pg_book s = List.map_filter
     (\<lambda>i. case pg_order i s of Inl _ \<Rightarrow> None | Inr o1 \<Rightarrow> Some (i, o1)) (map oi_intent_id (pg_intents s))"

lift_definition db_book :: "linked_db \<Rightarrow> order_book" is pg_book .

lemma map_filter_lookup:
  "dict_get (List.map_filter (\<lambda>i. case f i of Inl _ \<Rightarrow> None | Inr y \<Rightarrow> Some (i, y)) is) i =
     (if i \<in> set is then (case f i of Inl _ \<Rightarrow> None | Inr y \<Rightarrow> Some y) else None)"
  by (induction "is") (auto simp: List.map_filter_simps split: sum.splits option.splits)

lemma pg_book_get: "dict_get (pg_book s) i = (case pg_order i s of Inl _ \<Rightarrow> None | Inr o1 \<Rightarrow> Some o1)"
  using readable_row [of i s] by (auto simp: pg_book_def map_filter_lookup split: sum.splits)

lemma pg_book_Some: "dict_get (pg_book s) i = Some o1 \<longleftrightarrow> pg_order i s = Inr o1"
  by (simp add: pg_book_get split: sum.splits)

lemma pg_book_None: "dict_get (pg_book s) i = None \<longleftrightarrow> \<not> ok (pg_order i s)"
  by (simp add: pg_book_get ok_def split: sum.splits)

lemma perform_advances: "pg_good D k c \<Longrightarrow> fk_linked s \<Longrightarrow> advances D k s (pg_run_call c s)"
  using perform_step [of D k c s] by (simp add: good_step_def)

interpretation pg: order_store D db_book db_perform "pg_good D" for D
proof (unfold_locales, goal_cases)
  case (1 k c s i o1)
  from this(1,3) show ?case
    by transfer (use perform_advances in \<open>auto simp: pg_book_Some advances_def\<close>)
next
  case (2 k c s i o2)
  from this(1,3,4) show ?case
    by transfer (use perform_advances in \<open>auto simp: pg_book_Some pg_book_None advances_def\<close>)
qed

lemma fold_db_perform: "tables (fold db_perform cs d) = fold pg_run_call cs (tables d)"
  by (induction cs arbitrary: d) (simp_all add: db_perform.rep_eq)

lemma fold_calls_linked: "fk_linked s \<Longrightarrow> fk_linked (fold pg_run_call cs s)"
  using perform_step by (induction cs arbitrary: s) (auto simp: good_step_def)

section \<open>The orders of a run\<close>

definition db_good :: "discipline \<Rightarrow> int \<Rightarrow> pg_oms \<Rightarrow> bool" where
  "db_good D k s \<longleftrightarrow> fk_linked s \<and> (\<forall>i \<in> intent_ids s. \<exists>o1. pg_order i s = Inr o1) \<and> book_sound D k (pg_book s)"

lemma perform_readable:
  assumes "pg_good D k c" "fk_linked s" "\<forall>i \<in> intent_ids s. \<exists>o1. pg_order i s = Inr o1"
  shows "\<forall>i \<in> intent_ids (pg_run_call c s). \<exists>o1. pg_order i (pg_run_call c s) = Inr o1"
proof
  fix i assume i: "i \<in> intent_ids (pg_run_call c s)"
  note a = perform_advances [OF assms(1,2)]
  show "\<exists>o1. pg_order i (pg_run_call c s) = Inr o1"
  proof (cases "i \<in> intent_ids s")
    case True
    then obtain o1 where "pg_order i s = Inr o1" using assms(3) by blast
    then show ?thesis using a unfolding advances_def by blast
  next
    case False
    then show ?thesis using a i unfolding advances_def ok_iff by blast
  qed
qed

lemma run_db_good:
  assumes "db_good D k s" "\<forall>c \<in> set cs. pg_good D k c"
  shows "db_good D k (fold pg_run_call cs s)"
proof -
  have "\<forall>i \<in> intent_ids (fold pg_run_call cs s). \<exists>o1. pg_order i (fold pg_run_call cs s) = Inr o1"
    if "fk_linked s" "\<forall>i \<in> intent_ids s. \<exists>o1. pg_order i s = Inr o1" for s
    using that assms(2)
  proof (induction cs arbitrary: s)
    case (Cons c cs)
    then show ?case using perform_readable [of D k c s] fold_calls_linked [of s "[c]"] by simp
  qed simp
  moreover have "book_sound D k (pg_book (fold pg_run_call cs s))"
    using pg.run_inv [OF assms(2), of "database s"] assms(1)
    by (simp add: db_good_def db_book.rep_eq fold_db_perform database_inverse)
  ultimately show ?thesis using assms(1) fold_calls_linked by (simp add: db_good_def)
qed

text \<open>
  C7: whatever calls are made, moves to \<open>FILLED\<close> by hand and quantities of any length included, and wherever their
  transactions fail: every stored order can be replayed from its events, its filled quantity never falls, and it never
  changes once it is closed. If the quantities of the calls lie on one decimal grid, and those of new orders have at
  most twelve places, orders stay filled within their quantity; if, further, no call moves an order to \<open>FILLED\<close>
  by hand, they have an average price exactly when something is filled, and \<open>FILLED\<close> means full. (All this for
  calls one after the other; for racing ones see \<open>racing_transitions_break_order\<close>.)
\<close>

theorem event_sourced_orders_sound:
  assumes "db_good AnyCalls 0 s"
  shows "(\<forall>i \<in> intent_ids (fold pg_run_call cs s). \<exists>o2. pg_order i (fold pg_run_call cs s) = Inr o2 \<and> intent_id_of o2 = i) \<and>
    (\<forall>i o1. pg_order i s = Inr o1 \<longrightarrow>
       (\<exists>o2. pg_order i (fold pg_run_call cs s) = Inr o2 \<and>
          dval (po_filled_quantity o1) \<le> dval (po_filled_quantity o2) \<and> (order_closed o1 \<longrightarrow> o2 = o1))) \<and>
    (\<forall>D k i o2. db_good D k s \<and> (\<forall>c \<in> set cs. pg_good D k c) \<and> pg_order i (fold pg_run_call cs s) = Inr o2 \<longrightarrow> order_sound D k o2)"
proof -
  have good: "db_good D k (fold pg_run_call cs s)" if "db_good D k s" "\<forall>c \<in> set cs. pg_good D k c" for D k
    by (rule run_db_good [OF that])
  have book: "intent_id_of o2 = i \<and> order_sound D k o2" if "db_good D k t" "pg_order i t = Inr o2" for D k i o2 t
    using that by (auto simp: db_good_def book_sound_def pg_book_Some)
  have "\<exists>o2. pg_order i (fold pg_run_call cs s) = Inr o2 \<and>
      dval (po_filled_quantity o1) \<le> dval (po_filled_quantity o2) \<and> (order_closed o1 \<longrightarrow> o2 = o1)"
    if "pg_order i s = Inr o1" for i o1
  proof -
    have "dict_get (db_book (database s)) i = Some o1" "book_sound AnyCalls 0 (db_book (database s))"
      using assms that by (simp_all add: db_good_def db_book.rep_eq database_inverse pg_book_Some)
    then show ?thesis
      using pg.run_orders [of cs AnyCalls 0 "database s" i o1] assms
      by (auto simp add: db_good_def db_book.rep_eq fold_db_perform database_inverse pg_book_Some)
  qed
  moreover have any: "db_good AnyCalls 0 (fold pg_run_call cs s)" using good assms by simp
  then have "\<exists>o2. pg_order i (fold pg_run_call cs s) = Inr o2 \<and> intent_id_of o2 = i" if "i \<in> intent_ids (fold pg_run_call cs s)" for i
    using book [OF any, of i] that unfolding db_good_def by metis
  moreover have "order_sound D k o2"
    if "db_good D k s \<and> (\<forall>c \<in> set cs. pg_good D k c) \<and> pg_order i (fold pg_run_call cs s) = Inr o2" for D k i o2
    using book [OF good] that by metis
  ultimately show ?thesis by (intro conjI ballI allI impI) simp_all
qed

text \<open>
  C12: what a call returns is what is stored: the order that comes back from a transition, a cancellation,
  an amendment or a fill is the one every later read replays from the events.
\<close>

theorem postgres_write_then_read:
  assumes "c = pg_order_transition tr e i n actor \<or> c = pg_cancel tr tr' e e' i actor \<or> c = pg_amend tr e i q p actor \<or>
      c = pg_ingest_fill tr e x i q p u"
    and "c s = (Inr o2, t)"
  shows "pg_get TxCommitted i t = (Inr o2, t)"
proof -
  have tr: "pg_order i u = Inr o3" if "pg_order_transition tr e i n actor s = (Inr o3, u)" for tr e n s o3 u
    using that by (auto simp: pg_order_transition_def transaction_Inr order_written_def elim: transition_body_written)
  have "pg_order i t = Inr o2"
    using assms(1)
  proof (elim disjE)
    assume "c = pg_order_transition tr e i n actor"
    then show ?thesis using tr assms(2) by blast
  next
    assume "c = pg_cancel tr tr' e e' i actor"
    then show ?thesis using tr assms(2) by (auto simp: pg_cancel_def bind_method_Inr_iff)
  next
    assume "c = pg_amend tr e i q p actor"
    then show ?thesis using assms(2) by (auto simp: pg_amend_def transaction_Inr order_written_def elim: amend_body_written)
  next
    assume "c = pg_ingest_fill tr e x i q p u"
    then show ?thesis using assms(2)
      by (auto simp: pg_ingest_fill_def Let_def transaction_Inr order_written_def elim: fill_body_written split: if_split_asm)
  qed
  then show ?thesis by (simp add: pg_get_def pg_transaction_def)
qed

text \<open>
  Creating an order again is idempotent exactly when the table keeps it unchanged: the amounts have
  at most twelve places and the instrument is written as the database writes it. Otherwise the retry is
  refused as a conflict, although nothing about the order has changed.
\<close>

theorem create_retry_iff:
  assumes "pg_create TxCommitted e o1 s = (Inr o2, t)" "fk_linked s" "intent_id_of o1 \<notin> intent_ids s"
  shows "fst (pg_create TxCommitted e' o1 t) =
    (if on_grid 12 (dval (oi_quantity (po_intent o1))) \<and> on_grid 12 (dval (oi_limit_price (po_intent o1))) \<and>
        map_option uuid_str (uuid_of_text (oi_instrument_id (po_intent o1))) = Some (oi_instrument_id (po_intent o1))
     then pg_order (intent_id_of o1) t else Inl (oms_error ''idempotency_key_payload_conflict''))"
proof -
  have c: "po_status o1 = PROPOSED" "pg_create_body e o1 s = (Inr o2, t)"
    using assms(1) by (auto simp: pg_create_def transaction_Inr split: if_split_asm)
  obtain w where w: "uuid_of_text (oi_instrument_id (po_intent o1)) = Some w"
    "pg_order (intent_id_of o1) t = Inr (new_order (stored_intent (po_intent o1) w))"
    "pg_intents t = pg_intents s @ [stored_intent (po_intent o1) w]"
    by (rule create_body_new [OF c(2) assms(3,2)]) blast
  have row: "intent_id_of o1 \<in> intent_ids t" by (simp add: w(3) stored_intent_def)
  have eq: "intent_eq (stored_intent (po_intent o1) w) (po_intent o1) \<longleftrightarrow>
      on_grid 12 (dval (oi_quantity (po_intent o1))) \<and> on_grid 12 (dval (oi_limit_price (po_intent o1))) \<and>
      uuid_str w = oi_instrument_id (po_intent o1)"
    by (auto simp: intent_eq_def stored_intent_def numeric_column_eq_iff)
  show ?thesis
    using w(1,2) row eq c(1)
    by (auto simp: pg_create_def pg_create_body_def pg_transaction_def new_order_def is_oms_error_def)
qed

section \<open>Racing transactions\<close>

text \<open>What breaks the history of an order breaks it for good: nothing writes an event for it any more.\<close>

definition unreadable :: "uuid \<Rightarrow> pg_oms \<Rightarrow> bool" where
  "unreadable i s \<longleftrightarrow> i \<in> intent_ids s \<and> \<not> ok (pg_order i s)"

definition untouched :: "uuid \<Rightarrow> pg_oms \<Rightarrow> pg_oms \<Rightarrow> bool" where
  "untouched i s t \<longleftrightarrow> pg_order i t = pg_order i s \<and> intent_ids s \<subseteq> intent_ids t"

lemma untouched_refl [simp]: "untouched i s s"
  by (simp add: untouched_def)

lemma untouched_trans: "untouched i s t \<Longrightarrow> untouched i t u \<Longrightarrow> untouched i s u"
  by (auto simp: untouched_def)

lemma written_untouched: "order_written j o1 o2 s t \<Longrightarrow> \<not> ok (pg_order i s) \<Longrightarrow> untouched i s t"
  by (cases "i = j") (auto simp: untouched_def order_written_def)

lemma transaction_untouched:
  "(\<And>y u. body s = (Inr y, u) \<Longrightarrow> untouched i s u) \<Longrightarrow> untouched i s (snd (pg_transaction tr m keep body s))"
  by (auto simp: pg_transaction_def rollback_def untouched_def split: prod.split sum.split)

lemma transition_untouched: "\<not> ok (pg_order i s) \<Longrightarrow> untouched i s (snd (pg_order_transition tr e j n actor s))"
  unfolding pg_order_transition_def
  by (rule transaction_untouched) (erule transition_body_written, erule (1) written_untouched)

lemma fill_body_untouched:
  "pg_fill_body e x j q p t s = (Inr o2, s') \<Longrightarrow> \<not> ok (pg_order i s) \<Longrightarrow> untouched i s s'"
  by (erule fill_body_written) (auto dest: written_untouched)

lemma event_change_untouched:
  assumes "pg_event_change es v s = (Inr u, t)" "\<not> ok (pg_order i s)"
  shows "untouched i s t"
  using assms(1)
proof (cases rule: event_change_cases)
  case (fill x q p o2)
  then show ?thesis using fill_body_untouched assms(2) by blast
next
  case cancelled
  from cancelled(2) show ?thesis by (cases rule: cancelled_written) (auto dest: written_untouched [OF _ assms(2)])
next
  case (replaced q p o1)
  then show ?thesis using written_untouched assms(2) by blast
qed simp

lemma create_body_untouched:
  assumes "pg_create_body e o1 s = (Inr o2, t)" "fk_linked s" "unreadable i s"
  shows "untouched i s t"
proof (cases "intent_id_of o1 \<in> intent_ids s")
  case True
  then have "t = s" using assms(1) by (auto simp: pg_create_body_def split: sum.split_asm if_split_asm)
  then show ?thesis by simp
next
  case False
  obtain w where w: "\<And>j. j \<noteq> intent_id_of o1 \<Longrightarrow> pg_order j t = pg_order j s"
    "pg_intents t = pg_intents s @ [stored_intent (po_intent o1) w]"
    by (rule create_body_new [OF assms(1) False assms(2)]) blast
  have "i \<noteq> intent_id_of o1" using False assms(3) unfolding unreadable_def by blast
  then show ?thesis using w by (auto simp: untouched_def)
qed

lemma event_body_untouched:
  assumes "pg_event_body es account_id broker_name v s = (Inr b, t)" "\<not> ok (pg_order i s)"
  shows "untouched i s t"
  using assms(1)
proof (cases rule: event_body_cases)
  case (applied m)
  then show ?thesis using event_change_untouched [OF applied(4)] assms(2) by (auto simp: untouched_def pg_order_other)
qed simp

lemma run_call_untouched:
  assumes "fk_linked s" "unreadable i s"
  shows "untouched i s (pg_run_call c s)"
proof -
  have n: "\<not> ok (pg_order i s)" using assms(2) by (simp add: unreadable_def)
  show ?thesis
  proof (cases c)
    case (PgCancel tr tr' e e' j actor)
    let ?t = "snd (pg_order_transition tr e j CANCEL_PENDING actor s)"
    have t: "untouched i s ?t" by (rule transition_untouched [OF n])
    then have "\<not> ok (pg_order i ?t)" using n by (simp add: untouched_def)
    then show ?thesis
      using t transition_untouched [of i ?t] PgCancel
      by (auto simp: pg_cancel_def bind_method_fst intro: untouched_trans split: sum.split)
  next
    case (PgAccount tr e snap r h t)
    then show ?thesis
      by (auto simp: pg_record_account_def intro!: transaction_untouched)
         (auto simp: pg_account_body_def Let_def untouched_def split: if_split_asm sum.split_asm)
  qed (auto simp: pg_create_def pg_ingest_fill_def pg_amend_def apply_broker_event_def Let_def
      intro!: transaction_untouched transition_untouched n
      intro: create_body_untouched assms fill_body_untouched [OF _ n] event_body_untouched [OF _ n]
      elim!: amend_body_written dest: written_untouched [OF _ n])
qed

lemma run_unreadable:
  "fk_linked s \<Longrightarrow> unreadable i s \<Longrightarrow> unreadable i (fold pg_run_call cs s)"
proof (induction cs arbitrary: s)
  case (Cons c cs)
  have "unreadable i (pg_run_call c s)"
    using run_call_untouched [OF Cons.prems, of c] Cons.prems(2) by (auto simp: unreadable_def untouched_def)
  then show ?case using Cons fold_calls_linked [of s "[c]"] by simp
qed simp

text \<open>
  C11: two transactions that move one order at the same time both read it before either writes, and both
  commit, for no lock or version is taken. When the second move does not follow the first in the table of
  transitions (two cancellations at once, say), the events contradict each other: every later read of the
  order raises, whatever is called, for ever.
\<close>

theorem racing_transitions_break_order:
  assumes "fk_linked s" "pg_order i s = Inr o1" "order_transition o1 n1 = Inr o2" "order_transition o1 n2 = Inr o3"
    and "n2 \<notin> transitions n1"
    and "oe_event_id e1 \<notin> ov_event_id ` set (pg_events s)" "oe_event_id e2 \<notin> ov_event_id ` set (pg_events s)"
      "oe_event_id e1 \<noteq> oe_event_id e2"
  shows "\<exists>t u. pg_order_transition TxCommitted e1 i n1 a1 s = (Inr o2, t) \<and>
    pg_transaction TxCommitted ''postgres_oms_transition_failed'' is_oms_error (pg_transition_body s e2 i n2 a2) t = (Inr o3, u) \<and>
    (\<forall>cs. \<not> ok (fst (pg_get TxCommitted i (fold pg_run_call cs u))))"
proof -
  let ?d = "\<lambda>a n. [(''actor'', a), (''from'', status_value (po_status o1)), (''to'', status_value n)]"
  obtain t where t: "pg_append_event (oe_event_id e1) i ''ORDER_STATUS_CHANGED'' (?d a1 n1) (oe_event_now e1) s = (Inr (), t)"
    using assms(6) by (auto simp: append_event_Inr)
  obtain u where u: "pg_append_event (oe_event_id e2) i ''ORDER_STATUS_CHANGED'' (?d a2 n2) (oe_event_now e2) t = (Inr (), u)"
    using t assms(7,8) by (auto simp: append_event_Inr)
  have wt: "order_written i o1 o2 s t" by (rule append_written [OF t assms(2)]) (unfold replay_status, rule assms(3))
  have "po_status o2 = n1" using assms(3) by (auto simp: order_simps)
  then have no: "\<not> ok (order_transition o2 n2)" using assms(5) by (simp add: order_transition_def)
  have "pg_order i u = order_transition o2 n2"
    using order_after_append [OF u, of i] wt by (simp add: order_written_def replay_status)
  moreover have "intent_ids u = intent_ids s" using t u by (simp add: append_event_Inr)
  ultimately have un: "unreadable i u" using no readable_row [OF assms(2)] by (simp add: unreadable_def)
  have "fk_linked u" using assms(1) t u readable_row [OF assms(2)] by (auto simp: fk_linked_def append_event_Inr)
  then have "\<not> ok (pg_order i (fold pg_run_call cs u))" for cs using run_unreadable un unfolding unreadable_def by blast
  then have "\<not> ok (fst (pg_get TxCommitted i (fold pg_run_call cs u)))" for cs
    by (cases "pg_order i (fold pg_run_call cs u)") (simp_all add: pg_get_def pg_transaction_def, metis ok_simps(1))
  moreover have "pg_order_transition TxCommitted e1 i n1 a1 s = (Inr o2, t)"
    using t assms(2,3) by (simp add: pg_order_transition_def pg_transition_body_def transaction_Inr bind_method_Inr_iff)
  moreover have "pg_transaction TxCommitted ''postgres_oms_transition_failed'' is_oms_error (pg_transition_body s e2 i n2 a2) t = (Inr o3, u)"
    using u assms(2,4) by (simp add: pg_transition_body_def transaction_Inr bind_method_Inr_iff)
  ultimately show ?thesis by blast
qed

section \<open>Broker events\<close>

text \<open>What a committed event leaves: its receipt, its cursor, and the order it is about moved by it.\<close>

definition event_known :: "broker_order_event \<Rightarrow> pg_oms \<Rightarrow> bool" where
  "event_known v s \<longleftrightarrow> boe_external_event_id v \<in> (se_external_event_id \<circ> rc_event) ` set (pg_receipts s)"

definition order_follows :: "broker_order_event \<Rightarrow> pg_oms \<Rightarrow> pg_oms \<Rightarrow> bool" where
  "order_follows v s t \<longleftrightarrow>
     (\<forall>j. j \<noteq> boe_client_intent_id v \<longrightarrow> pg_order j t = pg_order j s) \<and>
     (\<forall>o1. pg_order (boe_client_intent_id v) s = Inr o1 \<longrightarrow>
        (\<exists>o2. pg_order (boe_client_intent_id v) t = Inr o2 \<and>
           (order_after v o1 = Some o2 \<or>
            o2 = o1 \<and> (is_fill v \<and> event_fill_id v \<in> rf_external_fill_id ` set (pg_fills s) \<or>
                       boe_event_type v = ''ORDER_CANCELLED'' \<and> \<not> fillable (po_status o1)))))"

definition event_done :: "string \<Rightarrow> string \<Rightarrow> broker_order_event \<Rightarrow> pg_oms \<Rightarrow> pg_oms \<Rightarrow> bool" where
  "event_done account_id broker_name v s t \<longleftrightarrow>
     pg_receipts t = pg_receipts s @
       [\<lparr>rc_account_id = account_id, rc_event = stored_of broker_name v, rc_details = boe_details v\<rparr>] \<and>
     pg_cursors t = dict_set (account_id, broker_name) (boe_sequence v) (pg_cursors s) \<and> order_follows v s t"

lemma written_follows:
  "order_written (boe_client_intent_id v) o1 o2 s t \<Longrightarrow> order_after v o1 = Some o2 \<Longrightarrow> order_follows v s t"
  by (auto simp: order_follows_def order_written_def)

lemma fill_body_frame: "pg_fill_body e x i q p t s = (r, s') \<Longrightarrow> pg_cursors s' = pg_cursors s \<and> pg_receipts s' = pg_receipts s"
  by (auto simp: pg_fill_body_def bind_method_def pg_append_event_def Let_def
      split: option.split_asm sum.split_asm if_split_asm)

lemma cancelled_frame: "pg_event_cancelled e e' v s = (r, s') \<Longrightarrow> pg_cursors s' = pg_cursors s \<and> pg_receipts s' = pg_receipts s"
  by (auto simp: pg_event_cancelled_def bind_method_def pg_append_event_def Let_def
      split: option.split_asm sum.split_asm if_split_asm)

lemma replaced_frame: "pg_event_replaced e v s = (r, s') \<Longrightarrow> pg_cursors s' = pg_cursors s \<and> pg_receipts s' = pg_receipts s"
  by (auto simp: pg_event_replaced_def pg_append_amendment_def pg_append_event_def Let_def
      split: option.split_asm sum.split_asm if_split_asm)

lemma event_fill_frame: "pg_event_fill e v s = (r, s') \<Longrightarrow> pg_cursors s' = pg_cursors s \<and> pg_receipts s' = pg_receipts s"
  by (auto simp: pg_event_fill_def bind_method_def split: sum.split_asm prod.split_asm dest: fill_body_frame)

lemma event_change_frame: "pg_event_change es v s = (r, t) \<Longrightarrow> pg_cursors t = pg_cursors s \<and> pg_receipts t = pg_receipts s"
  using event_fill_frame cancelled_frame replaced_frame
  by (auto simp: pg_event_change_def split: if_split_asm)

lemma event_change_follows:
  assumes "pg_event_change es v s = (Inr u, t)"
  shows "order_follows v s t"
  using assms
proof (cases rule: event_change_cases)
  case (fill x q p o2)
  have x: "is_fill v" "event_fill_id v = x"
    using fill(1,2) by (auto simp: is_fill_def event_fill_id_def details_text_def dict_get_or_def split: option.split_asm)
  from fill(5) show ?thesis
  proof (cases rule: fill_body_written)
    case known
    then show ?thesis using x by (auto simp: order_follows_def)
  next
    case (new o1)
    show ?thesis by (rule written_follows [OF new(1)]) (use fill new(2) in \<open>simp add: order_after_def\<close>)
  qed
next
  case cancelled
  from cancelled(2) show ?thesis
  proof (cases rule: cancelled_written)
    case (unchanged o1)
    then show ?thesis using cancelled(1) by (auto simp: order_follows_def)
  next
    case (cancelled o1)
    then have "order_after v o1 = Some (o1\<lparr>po_status := CANCELLED\<rparr>)"
      using \<open>boe_event_type v = ''ORDER_CANCELLED''\<close> withdraw_iff [of o1 "o1\<lparr>po_status := CANCELLED\<rparr>"] by (simp add: order_after_def)
    then show ?thesis by (rule written_follows [OF cancelled(1)])
  qed
next
  case (replaced q p o1)
  show ?thesis by (rule written_follows [OF replaced(5)]) (use replaced in \<open>simp add: order_after_def\<close>)
next
  case other
  then show ?thesis by (auto simp: order_follows_def order_after_def)
qed

lemma event_body_done:
  assumes "pg_event_body es account_id broker_name v s = (Inr b, t)"
  shows "(\<not> b \<and> event_known v s \<and> t = s) \<or>
    (b \<and> \<not> event_known v s \<and> pg_cursor account_id broker_name s < boe_sequence v \<and> event_done account_id broker_name v s t)"
  using assms
proof (cases rule: event_body_cases)
  case (applied m)
  show ?thesis
    using event_change_follows [OF applied(4)] event_change_frame [OF applied(4)] applied
    by (simp add: event_known_def order_follows_def event_done_def)
qed (simp add: event_known_def)

lemma broker_event_atomic_aux:
  assumes "apply_broker_event tr es account_id broker_name v s = (r, t)"
  shows "(t = rollback s t \<and> (r = Inr False \<longrightarrow> event_known v s) \<and> r \<noteq> Inr True) \<or>
    (event_done account_id broker_name v s t \<and> \<not> event_known v s \<and>
     pg_cursor account_id broker_name s < boe_sequence v \<and> (r = Inr True \<or> tr = TxReplyLost))"
  using assms unfolding apply_broker_event_def
proof (cases rule: transaction_cases)
  case (committed b)
  have same: "s = rollback s s" by (simp add: rollback_def)
  from event_body_done [OF committed(1)] show ?thesis
    using committed(2-4) same by (cases tr) auto
qed auto

text \<open>
  C8: a broker event is all or nothing. Whatever fails and wherever, either the tables are as before, or
  receipt, cursor and order have all moved as the event says; and what the caller is told is true, unless
  the reply to the commit was lost.
\<close>

theorem broker_event_atomic:
  assumes "apply_broker_event tr es account_id broker_name v s = (r, t)"
  shows "(t = rollback s t \<and> (r = Inr False \<longrightarrow> event_known v s) \<and> r \<noteq> Inr True) \<or>
    (event_done account_id broker_name v s t \<and> \<not> event_known v s \<and>
     pg_cursor account_id broker_name s < boe_sequence v \<and> (r = Inr True \<or> tr = TxReplyLost))"
  by (rule broker_event_atomic_aux [OF assms])

lemma run_known: "event_known v s \<Longrightarrow> event_known v (fold pg_run_call cs s)"
proof (induction cs arbitrary: s)
  case (Cons c cs)
  have "set (pg_receipts s) \<subseteq> set (pg_receipts (pg_run_call c s))" using perform_step by (auto simp: good_step_def)
  then have "event_known v (pg_run_call c s)" using Cons.prems by (auto simp: event_known_def)
  then show ?case using Cons.IH by simp
qed simp

lemma known_ignored:
  assumes "event_known v s" "boe_external_event_id w = boe_external_event_id v"
  shows "snd (apply_broker_event tr es a b w s) = s"
    "tr = TxCommitted \<Longrightarrow> fst (apply_broker_event tr es a b w s) = Inr False"
  using assms by (cases tr; simp add: apply_broker_event_def pg_transaction_def pg_event_body_def event_known_def rollback_def)+

text \<open>
  C9: a broker event takes effect once. After a delivery that changed the tables, whatever is called and
  however often the broker delivers it again, under whatever account or sequence number, nothing happens.
\<close>

theorem broker_event_applied_once:
  assumes "apply_broker_event tr es account_id broker_name v s = (r, t)" "t \<noteq> rollback s t"
    and "boe_external_event_id w = boe_external_event_id v"
  shows "snd (apply_broker_event tr' es' a b w (fold pg_run_call cs t)) = fold pg_run_call cs t \<and>
    fst (apply_broker_event TxCommitted es' a b w (fold pg_run_call cs t)) = Inr False"
proof -
  have "event_done account_id broker_name v s t" using broker_event_atomic_aux [OF assms(1)] assms(2) by blast
  then have "event_known v t" by (simp add: event_done_def event_known_def stored_of_def)
  then have "event_known v (fold pg_run_call cs t)" by (rule run_known)
  then show ?thesis using known_ignored assms(3) by blast
qed

section \<open>Synchronisation through the transaction\<close>

lemma oms_error_value: "is_oms_error x \<Longrightarrow> is_value_error x"
  by (cases x) (simp add: is_oms_error_def)

lemma sync_one_outcome:
  assumes "sync_one d b v s = (r, t)" "sd_apply d \<noteq> TxReplyLost"
  shows "(\<exists>a. r = Inr True \<and> event_done a b v s t) \<or> (r = Inr False \<and> event_known v s \<and> t = rollback s t) \<or>
    (r = Inl (sync_error ''broker_event_atomic_persistence_failed'') \<and> t = rollback s t)"
proof (cases "pg_get (sd_read d) (boe_client_intent_id v) s")
  case (Pair g u)
  have u: "u = s" using Pair by (auto simp: pg_get_def pg_transaction_def rollback_def split: if_split_asm sum.split_asm)
  have s: "s = rollback s s" by (simp add: rollback_def)
  show ?thesis
  proof (cases g)
    case (Inl x)
    then have "is_value_error x"
      using Pair by (auto simp: pg_get_def pg_transaction_def oms_error_value split: if_split_asm sum.split_asm)
    then show ?thesis
      using Inl Pair assms(1) u s by (auto simp: sync_one_def bind_method_def reraise_as_def)
  next
    case (Inr o1)
    let ?a = "oi_account_id (po_intent o1)"
    obtain r' where ap: "apply_broker_event (sd_apply d) (sd_envs d) ?a b v s = (r', t)"
      "r = (case r' of Inl x \<Rightarrow> Inl (reraise_as ''broker_event_atomic_persistence_failed'' x) | Inr y \<Rightarrow> Inr y)"
      using assms(1) Inr Pair u by (auto simp: sync_one_def bind_method_def split: prod.split_asm sum.split_asm)
    have "is_key_error x \<or> is_value_error x" if "r' = Inl x" for x
      using ap(1) that by (auto simp: apply_broker_event_def pg_transaction_def split: prod.split_asm if_split_asm sum.split_asm)
    then show ?thesis
      using broker_event_atomic_aux [OF ap(1)] ap(2) assms(2)
      by (cases r') (auto simp: reraise_as_def)
  qed
qed

lemma rolled_back_fields:
  assumes "t = rollback s t"
  shows "pg_receipts t = pg_receipts s" "pg_cursors t = pg_cursors s"
  using arg_cong [OF assms, of pg_receipts] arg_cong [OF assms, of pg_cursors] by (simp_all add: rollback_def)

lemma known_rolled_back: "t = rollback s t \<Longrightarrow> event_known u t = event_known u s"
  using rolled_back_fields(1) unfolding event_known_def by metis

lemma known_done: "event_done a b v s t \<Longrightarrow> event_known u s \<or> u = v \<Longrightarrow> event_known u t"
  by (auto simp: event_known_def event_done_def stored_of_def)

lemma sync_one_known:
  assumes "sync_one d b v s = (r, t)" "sd_apply d \<noteq> TxReplyLost" "event_known u s \<or> u = v \<and> ok r"
  shows "event_known u t"
  using sync_one_outcome [OF assms(1,2)] assms(3)
  by (elim disjE exE conjE) (auto dest: known_done known_rolled_back)

lemma sync_atomic_known:
  "sync_atomic env n b vs s = (r, t) \<Longrightarrow> \<forall>m. sd_apply (env m) \<noteq> TxReplyLost \<Longrightarrow> event_known u s \<Longrightarrow> event_known u t"
proof (induction vs arbitrary: n s r)
  case (Cons v vs)
  obtain a s1 where one: "sync_one (env n) b v s = (a, s1)" by fastforce
  have k: "event_known u s1" by (rule sync_one_known [OF one]) (use Cons.prems(2,3) in auto)
  show ?case
  proof (cases a)
    case (Inl x)
    then show ?thesis using Cons.prems(1) one k by simp
  next
    case (Inr c)
    obtain r' where "sync_atomic env (Suc n) b vs s1 = (r', t)"
      using Cons.prems(1) one Inr by (auto split: prod.split_asm sum.split_asm)
    then show ?thesis using Cons.IH Cons.prems(2) k by blast
  qed
qed simp

lemma sync_one_cursor:
  assumes "sync_one d b v s = (r, t)" "sd_apply d \<noteq> TxReplyLost" "\<forall>a. pg_cursor a b s < m" "boe_sequence v < m"
  shows "pg_cursor a b t < m"
  using sync_one_outcome [OF assms(1,2)]
proof (elim disjE exE conjE)
  fix a' assume "event_done a' b v s t"
  then show ?thesis using assms(3,4) by (auto simp: event_done_def pg_cursor_def dict_get_or_def dict_simps)
next
  assume "t = rollback s t"
  then have "pg_cursors t = pg_cursors s" by (rule rolled_back_fields(2))
  then show ?thesis using assms(3) by (simp add: pg_cursor_def)
next
  assume "t = rollback s t"
  then have "pg_cursors t = pg_cursors s" by (rule rolled_back_fields(2))
  then show ?thesis using assms(3) by (simp add: pg_cursor_def)
qed

text \<open>
  C10: through the transaction a failing event is not lost: the synchronisation ends at the first event that
  fails, what came before is recorded, and the cursor, from which the next poll starts, is still before
  the failed event.
\<close>

theorem failed_event_not_skipped:
  assumes "sync_atomic env n broker_name vs s = (r, t)" "sorted_wrt (<) (map boe_sequence vs)"
    and "\<forall>v \<in> set vs. \<forall>a. pg_cursor a broker_name s < boe_sequence v" "\<forall>m. sd_apply (env m) \<noteq> TxReplyLost"
  shows "\<exists>us ws. vs = us @ ws \<and> (\<forall>u \<in> set us. event_known u t) \<and>
    (\<forall>w \<in> set ws. \<forall>a. pg_cursor a broker_name t < boe_sequence w) \<and>
    (if ws = [] then ok r else r = Inl (sync_error ''broker_event_atomic_persistence_failed''))"
  using assms(1-3)
proof (induction vs arbitrary: n s r)
  case Nil
  then show ?case by auto
next
  case (Cons v vs)
  have lost: "sd_apply (env n) \<noteq> TxReplyLost" using assms(4) by blast
  obtain a s1 where one: "sync_one (env n) broker_name v s = (a, s1)" by fastforce
  have later: "\<forall>w \<in> set vs. boe_sequence v < boe_sequence w" using Cons.prems(2) by simp
  have c1: "\<forall>w \<in> set vs. \<forall>c. pg_cursor c broker_name s1 < boe_sequence w"
    using sync_one_cursor [OF one lost] Cons.prems(3) later by auto
  show ?case
  proof (cases a)
    case (Inl x)
    then have f: "a = Inl (sync_error ''broker_event_atomic_persistence_failed'')" "s1 = rollback s s1"
      using sync_one_outcome [OF one lost] by auto
    then have "pg_cursor c broker_name s1 = pg_cursor c broker_name s" for c
      unfolding pg_cursor_def by (metis rolled_back_fields(2))
    then show ?thesis
      using Cons.prems(1,3) one f(1) c1 by (intro exI [of _ "[]"] exI [of _ "v # vs"]) auto
  next
    case (Inr b)
    obtain r' where rest: "sync_atomic env (Suc n) broker_name vs s1 = (r', t)"
      "ok r = ok r'" "\<And>x. r' = Inl x \<Longrightarrow> r = Inl x"
      using Cons.prems(1) one Inr by (auto split: prod.split_asm sum.split_asm)
    have "event_known v s1"
      by (rule sync_one_known [OF one lost]) (simp add: Inr)
    then have "event_known v t" using sync_atomic_known [OF rest(1)] assms(4) by blast
    moreover obtain us ws where "vs = us @ ws" "\<forall>u \<in> set us. event_known u t"
      "\<forall>w \<in> set ws. \<forall>a. pg_cursor a broker_name t < boe_sequence w"
      "if ws = [] then ok r' else r' = Inl (sync_error ''broker_event_atomic_persistence_failed'')"
      using Cons.IH [OF rest(1)] Cons.prems(2) c1 by auto
    ultimately show ?thesis
      using rest(2,3) by (intro exI [of _ "v # us"] exI [of _ ws]) auto
  qed
qed

section \<open>Witnesses\<close>

definition pg_tables :: pg_oms where
  "pg_tables = \<lparr>pg_signals = [2], pg_account_ids = [''acc''], pg_instruments = [7], pg_intents = [], pg_sequence = 0,
     pg_events = [], pg_fills = [], pg_runs = [], pg_evidence = [], pg_receipts = [], pg_cursors = []\<rparr>"

definition status_event :: "nat \<Rightarrow> order_status \<Rightarrow> oms_event" where
  "status_event n st = event_row n (100 + n) 4 ''ORDER_STATUS_CHANGED''
     [(''actor'', ''system''), (''from'', []), (''to'', status_value st)] (Aware 0 0)"

lemma status_event [simp]:
  "replay_oms_event (status_event n st) o1 = order_transition o1 st"
  "ov_intent_id (status_event n st) = 4" "ov_event_id (status_event n st) = 100 + n"
  by (simp_all add: status_event_def replay_status del: status_value.simps)

definition sample_row :: order_intent where
  "sample_row = stored_intent (sample_intent\<lparr>oi_intent_id := 4\<rparr>) 7"

definition sample_pg :: pg_oms where
  "sample_pg = pg_tables\<lparr>pg_intents := [sample_row], pg_sequence := 5,
     pg_events := [status_event 1 RISK_PENDING, status_event 2 APPROVED, status_event 3 SUBMISSION_PENDING,
       status_event 4 SUBMITTED, status_event 5 ACKNOWLEDGED]\<rparr>"

definition sample_pg_order :: paper_order where
  "sample_pg_order = (new_order sample_row)\<lparr>po_status := ACKNOWLEDGED\<rparr>"

lemma sample_row_id [simp]: "oi_intent_id sample_row = 4"
  by (simp add: sample_row_def stored_intent_def)

lemma sample_order: "pg_order 4 sample_pg = Inr sample_pg_order"
  by (simp add: pg_order_def sample_pg_def order_transition_def new_order_def sample_pg_order_def)

lemma sample_rows: "intent_ids sample_pg = {4}" "ov_event_id ` set (pg_events sample_pg) = {101, 102, 103, 104, 105}"
  "pg_receipts sample_pg = []" "pg_cursors sample_pg = []" "pg_account_ids sample_pg = [''acc'']"
  by (auto simp: sample_pg_def pg_tables_def)

lemma sample_linked: "fk_linked sample_pg"
  by (simp add: fk_linked_def sample_pg_def)

lemma sample_quantity: "dval (oi_quantity (po_intent sample_pg_order)) = 10" "po_filled_quantity sample_pg_order = Dec 0 0"
  "po_status sample_pg_order = ACKNOWLEDGED" "po_average_fill_price sample_pg_order = None" "intent_id_of sample_pg_order = 4"
  by (simp_all add: sample_pg_order_def new_order_def sample_row_def stored_intent_def sample_intent_def
      dval_numeric_column numeric12_def)

lemma sample_good: "db_good FillsOnly 2 sample_pg" "db_good AnyCalls 0 sample_pg"
proof -
  have "on_grid 2 10" unfolding on_grid_def by (rule exI [of _ 1000]) (simp add: power_int_minus)
  then have inv: "order_inv 2 sample_pg_order"
    by (simp add: order_sound_def grid_quantity_def sample_quantity prec_def power_int_minus)
  have "i = 4 \<and> o1 = sample_pg_order" if "pg_order i sample_pg = Inr o1" for i o1
    using readable_row [OF that] that sample_order unfolding sample_rows(1) by auto
  moreover have "order_sound AnyCalls 0 sample_pg_order" using inv by (simp add: order_sound_def)
  ultimately have "book_inv 2 (pg_book sample_pg)" "book_sound AnyCalls 0 (pg_book sample_pg)"
    unfolding book_sound_def pg_book_Some using inv sample_quantity(5) by blast+
  then show "db_good FillsOnly 2 sample_pg" "db_good AnyCalls 0 sample_pg"
    unfolding db_good_def sample_rows(1) using sample_linked sample_order by auto
qed

text \<open>A cancellation whose reply is lost keeps the order sound; a move to \<open>FILLED\<close> by hand keeps it readable.\<close>

theorem event_sourced_orders_sound_witness:
  "(\<exists>o2. pg_order 4 (fold pg_run_call [PgTransition TxReplyLost (sample_oms_env 9) 4 CANCEL_PENDING ''op''] sample_pg) = Inr o2 \<and>
     order_inv 2 o2) \<and>
   (\<exists>o2. pg_order 4 (fold pg_run_call [PgTransition TxCommitted (sample_oms_env 9) 4 FILLED ''op''] sample_pg) = Inr o2)"
proof -
  let ?c = "\<lambda>tr n. PgTransition tr (sample_oms_env 9) 4 n ''op''"
  obtain o2 where o2: "pg_order 4 (fold pg_run_call [?c TxReplyLost CANCEL_PENDING] sample_pg) = Inr o2"
    using event_sourced_orders_sound [OF sample_good(2), of "[?c TxReplyLost CANCEL_PENDING]"] sample_order by blast
  have "\<forall>c \<in> set [?c TxReplyLost CANCEL_PENDING]. pg_good FillsOnly 2 c" by simp
  then have "order_inv 2 o2"
    using event_sourced_orders_sound [OF sample_good(2), of "[?c TxReplyLost CANCEL_PENDING]"] sample_good(1) o2 by blast
  then show ?thesis
    using o2 event_sourced_orders_sound [OF sample_good(2), of "[?c TxCommitted FILLED]"] sample_order by blast
qed

lemma sample_transition:
  "\<exists>o2 t. pg_order_transition TxCommitted (sample_oms_env 9) 4 CANCEL_PENDING ''op'' sample_pg = (Inr o2, t)"
  by (simp add: pg_order_transition_def transaction_Inr pg_transition_body_def sample_order order_transition_def
      sample_quantity bind_method_Inr_iff append_event_Inr sample_rows sample_oms_env_def)

theorem postgres_write_then_read_witness:
  "\<exists>o2 t. pg_order_transition TxCommitted (sample_oms_env 9) 4 CANCEL_PENDING ''op'' sample_pg = (Inr o2, t) \<and>
     pg_get TxCommitted 4 t = (Inr o2, t)"
  using sample_transition postgres_write_then_read by metis

definition fine_order :: paper_order where
  "fine_order = new_order (sample_intent\<lparr>oi_instrument_id := uuid_str 7, oi_quantity := Dec 15 (- 13)\<rparr>)"

lemma fine_created: "\<exists>t. pg_create TxCommitted (sample_oms_env 9) fine_order pg_tables = (Inr fine_order, t)"
  by (simp add: pg_create_def transaction_Inr pg_create_body_def fine_order_def new_order_def sample_intent_def pg_tables_def
      bind_method_Inr_iff pg_insert_intent_def append_event_Inr uuid_text_round_trip numeric_positive_def numeric12_def
      numeric_fits_def dec_eval)

theorem create_retry_iff_witness:
  "\<exists>t. pg_create TxCommitted (sample_oms_env 9) fine_order pg_tables = (Inr fine_order, t) \<and>
     fst (pg_create TxCommitted (sample_oms_env 10) fine_order t) = Inl (oms_error ''idempotency_key_payload_conflict'')"
proof -
  obtain t where t: "pg_create TxCommitted (sample_oms_env 9) fine_order pg_tables = (Inr fine_order, t)"
    using fine_created by blast
  have "\<not> on_grid 12 (dval (Dec 15 (- 13)))"
  proof
    assume "on_grid 12 (dval (Dec 15 (- 13)))"
    then obtain m where "(15 :: rat) * 10 powi (- 13) = of_int m * 10 powi (- 12)" by (auto simp: on_grid_def)
    then have "of_int (10 * m) = (of_int 15 :: rat)" by (simp add: power_int_minus field_simps)
    then have "10 * m = 15" by (metis of_int_eq_iff)
    then show False by presburger
  qed
  then show ?thesis
    using t create_retry_iff [OF t, of "sample_oms_env 10"]
    by (auto simp: pg_tables_def fk_linked_def fine_order_def new_order_def)
qed

theorem racing_transitions_break_order_witness:
  "\<exists>o2 t u. pg_order_transition TxCommitted (sample_oms_env 8) 4 CANCEL_PENDING ''op'' sample_pg = (Inr o2, t) \<and>
     pg_transaction TxCommitted ''postgres_oms_transition_failed'' is_oms_error
       (pg_transition_body sample_pg (sample_oms_env 9) 4 CANCEL_PENDING ''op'') t = (Inr o2, u) \<and>
     \<not> ok (fst (pg_get TxCommitted 4 u))"
proof -
  let ?o = "sample_pg_order\<lparr>po_status := CANCEL_PENDING\<rparr>"
  have o: "order_transition sample_pg_order CANCEL_PENDING = Inr ?o" by (simp add: order_transition_def sample_quantity)
  obtain t u where tu: "pg_order_transition TxCommitted (sample_oms_env 8) 4 CANCEL_PENDING ''op'' sample_pg = (Inr ?o, t)"
    "pg_transaction TxCommitted ''postgres_oms_transition_failed'' is_oms_error
       (pg_transition_body sample_pg (sample_oms_env 9) 4 CANCEL_PENDING ''op'') t = (Inr ?o, u)"
    "\<forall>cs. \<not> ok (fst (pg_get TxCommitted 4 (fold pg_run_call cs u)))"
    using racing_transitions_break_order [OF sample_linked sample_order o o, of "sample_oms_env 8" "sample_oms_env 9" "''op''" "''op''"]
    by (auto simp: sample_rows(2) sample_oms_env_def)
  have "\<not> ok (fst (pg_get TxCommitted 4 u))" using tu(3) [rule_format, of "[]"] by simp
  then show ?thesis using tu(1,2) by blast
qed

definition cancel_event :: broker_order_event where
  "cancel_event = \<lparr>boe_sequence = 1, boe_event_id = 50, boe_client_intent_id = 4, boe_status = CANCELLED,
     boe_event_type = ''ORDER_CANCELLED'', boe_occurred_at = Aware 0 0, boe_external_event_id = ''x1'', boe_details = []\<rparr>"

lemma cancel_applied:
  "\<exists>t. apply_broker_event TxCommitted (sample_oms_env 8, sample_oms_env 9) ''acc'' ''paper'' cancel_event sample_pg = (Inr True, t)"
proof -
  let ?s = "sample_pg\<lparr>pg_receipts := [\<lparr>rc_account_id = ''acc'', rc_event = stored_of ''paper'' cancel_event, rc_details = []\<rparr>]\<rparr>"
  have "pg_order 4 ?s = Inr sample_pg_order" using sample_order by simp
  then have "\<exists>m. pg_event_change (sample_oms_env 8, sample_oms_env 9) cancel_event ?s = (Inr (), m)"
    using sample_rows(2)
    by (simp add: pg_event_change_def cancel_event_def pg_event_cancelled_def Let_def sample_quantity order_transition_def
        bind_method_Inr_iff append_event_Inr sample_oms_env_def)
  moreover have "pg_insert_receipt ''acc'' ''paper'' cancel_event sample_pg = (Inr (), ?s)"
    using sample_rows by (simp add: pg_insert_receipt_def cancel_event_def)
  moreover have "pg_cursor ''acc'' ''paper'' sample_pg < boe_sequence cancel_event"
    using sample_rows by (simp add: pg_cursor_def dict_get_or_def cancel_event_def)
  ultimately show ?thesis
    using sample_rows(3) by (auto simp: apply_broker_event_def transaction_Inr pg_event_body_def bind_method_Inr_iff)
qed

theorem broker_event_atomic_witness:
  "\<exists>t. apply_broker_event TxCommitted (sample_oms_env 8, sample_oms_env 9) ''acc'' ''paper'' cancel_event sample_pg = (Inr True, t) \<and>
     event_done ''acc'' ''paper'' cancel_event sample_pg t"
  using cancel_applied broker_event_atomic by fastforce

theorem broker_event_applied_once_witness:
  "\<exists>t. apply_broker_event TxCommitted (sample_oms_env 8, sample_oms_env 9) ''acc'' ''paper'' cancel_event sample_pg = (Inr True, t) \<and>
     fst (apply_broker_event TxCommitted (sample_oms_env 8, sample_oms_env 9) ''acc'' ''paper'' cancel_event t) = Inr False"
proof -
  obtain t where t: "apply_broker_event TxCommitted (sample_oms_env 8, sample_oms_env 9) ''acc'' ''paper'' cancel_event sample_pg = (Inr True, t)"
    using cancel_applied by blast
  have "event_done ''acc'' ''paper'' cancel_event sample_pg t" using broker_event_atomic_aux [OF t] by blast
  then have "pg_receipts t \<noteq> pg_receipts sample_pg" by (simp add: event_done_def)
  then have "t \<noteq> rollback sample_pg t" using rolled_back_fields(1) by blast
  from broker_event_applied_once [OF t this, of cancel_event _ _ _ _ "[]"] t show ?thesis by auto
qed

definition failing_draw :: sync_draw where
  "failing_draw = \<lparr>sd_read = TxCommitted, sd_apply = TxRolledBack, sd_envs = (sample_oms_env 8, sample_oms_env 9)\<rparr>"

theorem failed_event_not_skipped_witness:
  "\<exists>t. sync_atomic (\<lambda>_. failing_draw) 0 ''paper'' [cancel_event] sample_pg =
       (Inl (sync_error ''broker_event_atomic_persistence_failed''), t) \<and> pg_cursor ''acc'' ''paper'' t < boe_sequence cancel_event"
proof -
  obtain r t where rt: "sync_atomic (\<lambda>_. failing_draw) 0 ''paper'' [cancel_event] sample_pg = (r, t)" by fastforce
  have c: "pg_cursor a ''paper'' sample_pg < boe_sequence cancel_event" for a
    using sample_rows(4) by (simp add: pg_cursor_def dict_get_or_def cancel_event_def)
  have f: "\<not> ok r"
    using rt by (auto simp: sync_one_def bind_method_def apply_broker_event_def pg_transaction_def failing_draw_def
        ok_iff split: prod.split_asm sum.split_asm)
  obtain us ws where w: "[cancel_event] = us @ ws" "\<forall>v \<in> set ws. \<forall>a. pg_cursor a ''paper'' t < boe_sequence v"
    "if ws = [] then ok r else r = Inl (sync_error ''broker_event_atomic_persistence_failed'')"
    using failed_event_not_skipped [OF rt] c by (auto simp: failing_draw_def)
  then have "ws = [cancel_event]" using f by (cases us) (auto split: if_splits)
  then show ?thesis using w rt by auto
qed

end
