(* ===== verification/OperationalJobs.thy ===== *)
theory OperationalJobs
  imports PolicyRegistry OperationalAlerts KillSwitch
begin

text \<open>
  \<open>operational_jobs.py\<close>: versioned job policies and the terminal evidence of their runs, the due state
  computed from both, the monitor that opens and resolves alerts for overdue jobs, and the local outbox
  alerts are routed to. The alerts are those of \<open>OperationalAlerts\<close>, in the same transaction.

  The tables are those of migration \<open>20260819_0027\<close>. Texts hold no NUL and have code points below 256; a
  JSON object is read back up to the order of its keys, which no comparison here sees.
\<close>

section \<open>The session\<close>

text \<open>
  SHA-256 over the canonical JSON text, as in \<open>PolicyRegistry\<close>; the offset of the session's time zone,
  which is a fixed one; and the key by which \<open>ORDER BY\<close> compares texts, which is the collation's.
\<close>

record job_session =
  js_sha :: "payload \<Rightarrow> string"
  js_zone :: timedelta
  js_collate :: "string \<Rightarrow> string"

text \<open>A \<open>TIMESTAMPTZ\<close> keeps the instant and is read in the zone of the session.\<close>

definition stored_time :: "datetime \<Rightarrow> datetime" where
  "stored_time t = Aware (instant t) 0"

definition read_time :: "job_session \<Rightarrow> datetime \<Rightarrow> datetime" where
  "read_time ses t = Aware (instant t + js_zone ses) (js_zone ses)"

text \<open>\<open>t + timedelta(seconds=n)\<close>, between the years one and 9999.\<close>

definition wall_fits :: "int \<Rightarrow> bool" where
  "wall_fits w \<longleftrightarrow> - 719162 * 86400000000 \<le> w \<and> w < 2932897 * 86400000000"

fun shift_wall :: "int \<Rightarrow> datetime \<Rightarrow> datetime" where
  "shift_wall d (Aware w off) = Aware (w + d) off"
| "shift_wall d (Naive w) = Naive (w + d)"

definition plus_seconds :: "datetime \<Rightarrow> int \<Rightarrow> datetime result" where
  "plus_seconds t n =
     (if wall_fits (wall t + seconds n) then Inr (shift_wall (seconds n) t)
      else Inl (Exc ArithmeticError ''date value out of range''))"

text \<open>\<open>int(d.total_seconds())\<close>, for a magnitude below \<open>2 ^ 33\<close> seconds, where the float keeps the microseconds apart.\<close>

definition whole_seconds :: "timedelta \<Rightarrow> int" where
  "whole_seconds d = (if d < 0 then - (- d div 1000000) else d div 1000000)"

abbreviation job_error :: "string \<Rightarrow> py_exc" where
  "job_error m \<equiv> Exc OperationalJobError m"

abbreviation refused_row :: py_exc where
  "refused_row \<equiv> Exc IntegrityError ''constraint violated''"

definition job_aware :: "datetime \<Rightarrow> string \<Rightarrow> unit result" where
  "job_aware t message = (if aware t then Inr () else Inl (job_error message))"

section \<open>Policies, runs and routes\<close>

datatype job_status = SUCCEEDED | FAILED | SKIPPED

definition job_status_value :: "job_status \<Rightarrow> string" where
  "job_status_value st =
     (case st of SUCCEEDED \<Rightarrow> ''SUCCEEDED'' | FAILED \<Rightarrow> ''FAILED'' | SKIPPED \<Rightarrow> ''SKIPPED'')"

record job_policy =
  jp_policy_id :: uuid
  jp_job_name :: string
  jp_version :: string
  jp_interval_seconds :: int
  jp_grace_seconds :: int
  jp_owner :: string
  jp_runbook_uri :: string
  jp_approved_by :: string
  jp_approved_at :: datetime
  jp_enabled :: bool
  jp_content_hash :: string

record job_run =
  jr_run_id :: uuid
  jr_policy_id :: uuid
  jr_idempotency_key :: string
  jr_scheduled_for :: datetime
  jr_started_at :: datetime
  jr_completed_at :: datetime
  jr_status :: job_status
  jr_summary :: details
  jr_content_hash :: string

record due_state =
  ds_policy :: job_policy
  ds_last_successful_at :: "datetime option"
  ds_due_at :: datetime
  ds_due :: bool
  ds_overdue :: bool

record route_policy =
  rt_route_policy_id :: uuid
  rt_route_name :: string
  rt_version :: string
  rt_alert_code :: string
  rt_minimum_severity :: alert_severity
  rt_channel :: string
  rt_destination_reference :: string
  rt_owner :: string
  rt_approved_by :: string
  rt_approved_at :: datetime
  rt_enabled :: bool
  rt_content_hash :: string

record outbox_delivery =
  dl_delivery_id :: uuid
  dl_alert_id :: uuid
  dl_route_policy_id :: uuid
  dl_channel :: string
  dl_destination_reference :: string
  dl_status :: string
  dl_enqueued_at :: datetime
  dl_payload :: details

definition severity_value :: "alert_severity \<Rightarrow> string" where
  "severity_value sv = (case sv of WARNING \<Rightarrow> ''WARNING'' | CRITICAL \<Rightarrow> ''CRITICAL'')"

definition severity_rank :: "alert_severity \<Rightarrow> nat" where
  "severity_rank sv = (case sv of WARNING \<Rightarrow> 1 | CRITICAL \<Rightarrow> 2)"

definition job_policy_hash :: "(payload \<Rightarrow> string) \<Rightarrow> job_policy \<Rightarrow> string" where
  "job_policy_hash sha p = sha (canonical
     [(''job_name'', JStr (jp_job_name p)), (''version'', JStr (jp_version p)),
      (''interval_seconds'', JInt (jp_interval_seconds p)), (''grace_seconds'', JInt (jp_grace_seconds p)),
      (''owner'', JStr (jp_owner p)), (''runbook_uri'', JStr (jp_runbook_uri p)),
      (''approved_by'', JStr (jp_approved_by p)), (''approved_at'', JStr (iso_datetime (jp_approved_at p))),
      (''enabled'', JBool (jp_enabled p))])"

definition job_run_hash :: "(payload \<Rightarrow> string) \<Rightarrow> job_run \<Rightarrow> string" where
  "job_run_hash sha r = sha (canonical
     [(''policy_id'', JStr (uuid_str (jr_policy_id r))), (''idempotency_key'', JStr (jr_idempotency_key r)),
      (''scheduled_for'', JStr (iso_datetime (jr_scheduled_for r))),
      (''started_at'', JStr (iso_datetime (jr_started_at r))),
      (''completed_at'', JStr (iso_datetime (jr_completed_at r))),
      (''status'', JStr (job_status_value (jr_status r))),
      (''summary'', JObj (map (map_prod id JStr) (jr_summary r)))])"

definition route_policy_hash :: "(payload \<Rightarrow> string) \<Rightarrow> route_policy \<Rightarrow> string" where
  "route_policy_hash sha p = sha (canonical
     [(''route_name'', JStr (rt_route_name p)), (''version'', JStr (rt_version p)),
      (''alert_code'', JStr (rt_alert_code p)),
      (''minimum_severity'', JStr (severity_value (rt_minimum_severity p))),
      (''channel'', JStr (rt_channel p)), (''destination_reference'', JStr (rt_destination_reference p)),
      (''owner'', JStr (rt_owner p)), (''approved_by'', JStr (rt_approved_by p)),
      (''approved_at'', JStr (iso_datetime (rt_approved_at p))), (''enabled'', JBool (rt_enabled p))])"

definition validate_job_policy :: "job_policy \<Rightarrow> unit result" where
  "validate_job_policy p =
     bind_result (job_aware (jp_approved_at p) ''job_policy_time_must_be_timezone_aware'') (\<lambda>_.
       if blank (jp_job_name p) \<or> blank (jp_version p) \<or> jp_interval_seconds p \<le> 0 \<or>
          jp_grace_seconds p < 0 \<or> blank (jp_owner p) \<or> blank (jp_runbook_uri p) \<or> blank (jp_approved_by p)
       then Inl (job_error ''invalid_operational_job_policy'') else Inr ())"

text \<open>The types of the summary's keys and values are those of the field here.\<close>

definition validate_job_run :: "job_run \<Rightarrow> unit result" where
  "validate_job_run r =
     bind_result (job_aware (jr_scheduled_for r) ''job_run_time_must_be_timezone_aware'') (\<lambda>_.
     bind_result (job_aware (jr_started_at r) ''job_run_time_must_be_timezone_aware'') (\<lambda>_.
     bind_result (job_aware (jr_completed_at r) ''job_run_time_must_be_timezone_aware'') (\<lambda>_.
       if blank (jr_idempotency_key r) \<or> instant (jr_started_at r) < instant (jr_scheduled_for r) \<or>
          instant (jr_completed_at r) < instant (jr_started_at r)
       then Inl (job_error ''invalid_operational_job_run'') else Inr ())))"

text \<open>\<open>str.isalnum\<close> of one character, for code points below 256.\<close>

definition alnum :: "char \<Rightarrow> bool" where
  "alnum c = (let n = of_char c :: nat in
     48 \<le> n \<and> n \<le> 57 \<or> 65 \<le> n \<and> n \<le> 90 \<or> 97 \<le> n \<and> n \<le> 122 \<or>
     n \<in> {170, 178, 179, 181, 185, 186, 188, 189, 190} \<or> 192 \<le> n \<and> n \<noteq> 215 \<and> n \<noteq> 247)"

text \<open>The first character is one of the letters and digits the replacements leave, so their text is not empty.\<close>

definition validate_route_policy :: "route_policy \<Rightarrow> unit result" where
  "validate_route_policy p =
     bind_result (job_aware (rt_approved_at p) ''alert_route_policy_time_must_be_timezone_aware'') (\<lambda>_.
       if blank (rt_route_name p) \<or> blank (rt_version p) \<or> blank (rt_alert_code p) \<or>
          rt_channel p \<noteq> ''LOCAL_OUTBOX'' \<or> blank (rt_destination_reference p) \<or>
          128 < length (rt_destination_reference p) \<or> \<not> alnum (hd (rt_destination_reference p)) \<or>
          \<not> (\<forall>c \<in> set (filter (\<lambda>c. c \<notin> set ''-_'') (rt_destination_reference p)). alnum c) \<or>
          blank (rt_owner p) \<or> blank (rt_approved_by p)
       then Inl (job_error ''invalid_alert_route_policy'') else Inr ())"

text \<open>What a later authority checks when it is handed a policy or a run.\<close>

definition validate_operational_job_policy :: "(payload \<Rightarrow> string) \<Rightarrow> job_policy \<Rightarrow> unit result" where
  "validate_operational_job_policy sha p = bind_result (validate_job_policy p) (\<lambda>_.
     if jp_content_hash p \<noteq> job_policy_hash sha p then Inl (job_error ''operational_job_policy_hash_mismatch'') else Inr ())"

definition validate_operational_job_run :: "(payload \<Rightarrow> string) \<Rightarrow> job_run \<Rightarrow> unit result" where
  "validate_operational_job_run sha r = bind_result (validate_job_run r) (\<lambda>_.
     if jr_content_hash r \<noteq> job_run_hash sha r then Inl (job_error ''operational_job_run_hash_mismatch'') else Inr ())"

definition build_job_policy ::
  "(payload \<Rightarrow> string) \<Rightarrow> uuid \<Rightarrow> string \<Rightarrow> string \<Rightarrow> timedelta \<Rightarrow> timedelta \<Rightarrow> string \<Rightarrow> string \<Rightarrow> string \<Rightarrow>
   datetime \<Rightarrow> bool \<Rightarrow> job_policy result" where
  "build_job_policy sha new_id job_name version interval grace owner runbook_uri approved_by approved_at enabled =
     (let p = \<lparr>jp_policy_id = new_id, jp_job_name = job_name, jp_version = version,
            jp_interval_seconds = whole_seconds interval, jp_grace_seconds = whole_seconds grace,
            jp_owner = owner, jp_runbook_uri = runbook_uri, jp_approved_by = approved_by,
            jp_approved_at = approved_at, jp_enabled = enabled, jp_content_hash = []\<rparr>;
          policy = p\<lparr>jp_content_hash := job_policy_hash sha p\<rparr>
      in bind_result (validate_job_policy policy) (\<lambda>_. Inr policy))"

definition build_job_run ::
  "(payload \<Rightarrow> string) \<Rightarrow> uuid \<Rightarrow> uuid \<Rightarrow> string \<Rightarrow> datetime \<Rightarrow> datetime \<Rightarrow> datetime \<Rightarrow> job_status \<Rightarrow> details \<Rightarrow>
   job_run result" where
  "build_job_run sha new_id policy_id key scheduled_for started_at completed_at status summary =
     (let r = \<lparr>jr_run_id = new_id, jr_policy_id = policy_id, jr_idempotency_key = key,
            jr_scheduled_for = scheduled_for, jr_started_at = started_at, jr_completed_at = completed_at,
            jr_status = status, jr_summary = summary, jr_content_hash = []\<rparr>;
          run = r\<lparr>jr_content_hash := job_run_hash sha r\<rparr>
      in bind_result (validate_job_run run) (\<lambda>_. Inr run))"

definition build_alert_route_policy ::
  "(payload \<Rightarrow> string) \<Rightarrow> uuid \<Rightarrow> string \<Rightarrow> string \<Rightarrow> string \<Rightarrow> alert_severity \<Rightarrow> string \<Rightarrow> string \<Rightarrow> string \<Rightarrow>
   datetime \<Rightarrow> bool \<Rightarrow> route_policy result" where
  "build_alert_route_policy sha new_id route_name version alert_code minimum_severity destination owner
     approved_by approved_at enabled =
     (let p = \<lparr>rt_route_policy_id = new_id, rt_route_name = route_name, rt_version = version,
            rt_alert_code = alert_code, rt_minimum_severity = minimum_severity, rt_channel = ''LOCAL_OUTBOX'',
            rt_destination_reference = destination, rt_owner = owner, rt_approved_by = approved_by,
            rt_approved_at = approved_at, rt_enabled = enabled, rt_content_hash = []\<rparr>;
          policy = p\<lparr>rt_content_hash := route_policy_hash sha p\<rparr>
      in bind_result (validate_route_policy policy) (\<lambda>_. Inr policy))"

section \<open>When a job is due\<close>

definition evaluate_job_due :: "job_policy \<Rightarrow> datetime option \<Rightarrow> datetime \<Rightarrow> due_state result" where
  "evaluate_job_due policy last_successful_at as_of =
     bind_result (validate_job_policy policy) (\<lambda>_.
     bind_result (job_aware as_of ''job_due_time_must_be_timezone_aware'') (\<lambda>_.
     bind_result (case last_successful_at of
         None \<Rightarrow> Inr ()
       | Some t \<Rightarrow> bind_result (job_aware t ''job_success_time_must_be_timezone_aware'') (\<lambda>_.
           if instant t < instant (jp_approved_at policy) \<or> instant as_of < instant t
           then Inl (job_error ''invalid_job_success_time'') else Inr ())) (\<lambda>_.
     bind_result (plus_seconds (case last_successful_at of None \<Rightarrow> jp_approved_at policy | Some t \<Rightarrow> t)
         (jp_interval_seconds policy)) (\<lambda>due_at.
       let due = jp_enabled policy \<and> instant due_at \<le> instant as_of in
       bind_result (if due then bind_result (plus_seconds due_at (jp_grace_seconds policy))
                                 (\<lambda>t. Inr (instant t < instant as_of))
                    else Inr False) (\<lambda>overdue.
       Inr \<lparr>ds_policy = policy, ds_last_successful_at = last_successful_at, ds_due_at = due_at,
            ds_due = due, ds_overdue = overdue\<rparr>)))))"

section \<open>The store\<close>

record job_db =
  jb_alerts :: alert_db
  jb_policies :: "job_policy list"
  jb_runs :: "job_run list"
  jb_routes :: "route_policy list"
  jb_outbox :: "outbox_delivery list"

text \<open>
  A method is one transaction: an error of the database, its own or a refused row, becomes the
  \<open>PersistenceError\<close> of \<open>PostgresDatabase\<close>; the exceptions of \<open>keep\<close> pass; every other one becomes the
  \<open>PersistenceError\<close> of the method.
\<close>

definition job_exception :: "string \<Rightarrow> (py_exc \<Rightarrow> bool) \<Rightarrow> py_exc \<Rightarrow> py_exc" where
  "job_exception failed keep x =
     (if exc_class x = IntegrityError then transaction_failed
      else if keep x \<or> is_persistence_error x then x else Exc PersistenceError failed)"

definition job_transaction ::
  "tx \<Rightarrow> string \<Rightarrow> (py_exc \<Rightarrow> bool) \<Rightarrow> (job_db, 'a) operation \<Rightarrow> (job_db, 'a) operation" where
  "job_transaction tr failed keep body s =
     (case body s of
        (r, t) \<Rightarrow>
          if tr = TxRolledBack then (Inl transaction_failed, s)
          else case r of
            Inl x \<Rightarrow> (Inl (job_exception failed keep x), s)
          | Inr y \<Rightarrow> (if tr = TxReplyLost then Inl transaction_failed else Inr y, t))"

definition is_job_error :: "py_exc \<Rightarrow> bool" where
  "is_job_error x \<longleftrightarrow> exc_class x = OperationalJobError"

definition on_alerts :: "(alert_db, 'a) operation \<Rightarrow> (job_db, 'a) operation" where
  "on_alerts f s = (case f (jb_alerts s) of (r, a) \<Rightarrow> (r, s\<lparr>jb_alerts := a\<rparr>))"

fun traverse :: "('a \<Rightarrow> 'b result) \<Rightarrow> 'a list \<Rightarrow> 'b list result" where
  "traverse f [] = Inr []"
| "traverse f (x # xs) = bind_result (f x) (\<lambda>y. bind_result (traverse f xs) (\<lambda>ys. Inr (y # ys)))"

text \<open>Rows as they are read: the times in the session's zone, and the hash recomputed over them.\<close>

definition policy_from_row :: "job_session \<Rightarrow> job_policy \<Rightarrow> job_policy result" where
  "policy_from_row ses row =
     (let policy = row\<lparr>jp_approved_at := read_time ses (jp_approved_at row)\<rparr>
      in if job_policy_hash (js_sha ses) policy \<noteq> jp_content_hash policy
         then Inl (job_error ''job_policy_hash_mismatch'') else Inr policy)"

definition run_from_row :: "job_session \<Rightarrow> job_run \<Rightarrow> job_run result" where
  "run_from_row ses row =
     (let run = row\<lparr>jr_scheduled_for := read_time ses (jr_scheduled_for row),
                    jr_started_at := read_time ses (jr_started_at row),
                    jr_completed_at := read_time ses (jr_completed_at row)\<rparr>
      in if job_run_hash (js_sha ses) run \<noteq> jr_content_hash run
         then Inl (job_error ''job_run_hash_mismatch'') else Inr run)"

definition route_policy_from_row :: "job_session \<Rightarrow> route_policy \<Rightarrow> route_policy result" where
  "route_policy_from_row ses row =
     (let policy = row\<lparr>rt_approved_at := read_time ses (rt_approved_at row)\<rparr>
      in if route_policy_hash (js_sha ses) policy \<noteq> rt_content_hash policy
         then Inl (job_error ''alert_route_policy_hash_mismatch'') else Inr policy)"

definition delivery_from_row :: "job_session \<Rightarrow> outbox_delivery \<Rightarrow> outbox_delivery" where
  "delivery_from_row ses row = row\<lparr>dl_enqueued_at := read_time ses (dl_enqueued_at row)\<rparr>"

text \<open>The digests have 64 lower-case hexadecimal digits, as their column asks; \<open>interval_seconds\<close> is a \<open>BIGINT\<close>.\<close>

definition insert_policy :: "job_policy \<Rightarrow> (job_db, unit) operation" where
  "insert_policy p s =
     (if jp_policy_id p \<in> jp_policy_id ` set (jb_policies s) \<or>
         jp_content_hash p \<in> jp_content_hash ` set (jb_policies s) \<or>
         (jp_job_name p, instant (jp_approved_at p)) \<in>
           (\<lambda>r. (jp_job_name r, instant (jp_approved_at r))) ` set (jb_policies s) \<or>
         2 ^ 63 \<le> jp_interval_seconds p \<or> 2 ^ 63 \<le> jp_grace_seconds p
      then (Inl refused_row, s)
      else (Inr (), s\<lparr>jb_policies := jb_policies s @ [p\<lparr>jp_approved_at := stored_time (jp_approved_at p)\<rparr>]\<rparr>))"

definition append_policy_body :: "job_session \<Rightarrow> job_policy \<Rightarrow> (job_db, job_policy) operation" where
  "append_policy_body ses p s =
     (case find (\<lambda>r. jp_job_name r = jp_job_name p \<and> jp_version r = jp_version p) (jb_policies s) of
        Some row \<Rightarrow>
          (bind_result (policy_from_row ses row) (\<lambda>recovered.
             if jp_content_hash recovered \<noteq> jp_content_hash p
             then Inl (job_error ''job_policy_version_conflict'') else Inr recovered), s)
      | None \<Rightarrow> bind_method (insert_policy p) (\<lambda>_ t. (Inr p, t)) s)"

definition append_policy :: "tx \<Rightarrow> job_session \<Rightarrow> job_policy \<Rightarrow> (job_db, job_policy) operation" where
  "append_policy tr ses p s =
     (case validate_job_policy p of
        Inl x \<Rightarrow> (Inl x, s)
      | Inr _ \<Rightarrow>
          if job_policy_hash (js_sha ses) p \<noteq> jp_content_hash p
          then (Inl (job_error ''job_policy_hash_mismatch''), s)
          else job_transaction tr ''operational_job_policy_persistence_uncertain'' is_job_error
                 (append_policy_body ses p) s)"

definition insert_run :: "job_run \<Rightarrow> (job_db, unit) operation" where
  "insert_run r s =
     (if jr_run_id r \<in> jr_run_id ` set (jb_runs s) \<or>
         jr_policy_id r \<notin> jp_policy_id ` set (jb_policies s) \<or>
         jr_content_hash r \<in> jr_content_hash ` set (jb_runs s)
      then (Inl refused_row, s)
      else (Inr (), s\<lparr>jb_runs := jb_runs s @
             [r\<lparr>jr_scheduled_for := stored_time (jr_scheduled_for r),
                jr_started_at := stored_time (jr_started_at r),
                jr_completed_at := stored_time (jr_completed_at r)\<rparr>]\<rparr>))"

definition append_run_body :: "job_session \<Rightarrow> job_run \<Rightarrow> (job_db, job_run) operation" where
  "append_run_body ses r s =
     (case find (\<lambda>q. jr_idempotency_key q = jr_idempotency_key r) (jb_runs s) of
        Some row \<Rightarrow>
          (bind_result (run_from_row ses row) (\<lambda>recovered.
             if jr_content_hash recovered \<noteq> jr_content_hash r
             then Inl (job_error ''job_run_idempotency_conflict'') else Inr recovered), s)
      | None \<Rightarrow> bind_method (insert_run r) (\<lambda>_ t. (Inr r, t)) s)"

definition append_run :: "tx \<Rightarrow> job_session \<Rightarrow> job_run \<Rightarrow> (job_db, job_run) operation" where
  "append_run tr ses r s =
     (case validate_job_run r of
        Inl x \<Rightarrow> (Inl x, s)
      | Inr _ \<Rightarrow>
          if job_run_hash (js_sha ses) r \<noteq> jr_content_hash r
          then (Inl (job_error ''job_run_hash_mismatch''), s)
          else job_transaction tr ''operational_job_run_persistence_uncertain'' is_job_error
                 (append_run_body ses r) s)"

text \<open>\<open>^[A-Za-z0-9][A-Za-z0-9_-]{0,127}$\<close>\<close>

definition ascii_alnum :: "char \<Rightarrow> bool" where
  "ascii_alnum c \<longleftrightarrow> alnum c \<and> (of_char c :: nat) < 128"

definition destination_check :: "string \<Rightarrow> bool" where
  "destination_check d \<longleftrightarrow>
     d \<noteq> [] \<and> ascii_alnum (hd d) \<and> length d \<le> 128 \<and> (\<forall>c \<in> set d. ascii_alnum c \<or> c \<in> set ''-_'')"

definition insert_route :: "route_policy \<Rightarrow> (job_db, unit) operation" where
  "insert_route p s =
     (if rt_route_policy_id p \<in> rt_route_policy_id ` set (jb_routes s) \<or>
         rt_content_hash p \<in> rt_content_hash ` set (jb_routes s) \<or>
         (rt_route_name p, instant (rt_approved_at p)) \<in>
           (\<lambda>r. (rt_route_name r, instant (rt_approved_at r))) ` set (jb_routes s) \<or>
         \<not> destination_check (rt_destination_reference p)
      then (Inl refused_row, s)
      else (Inr (), s\<lparr>jb_routes := jb_routes s @ [p\<lparr>rt_approved_at := stored_time (rt_approved_at p)\<rparr>]\<rparr>))"

definition append_route_body :: "job_session \<Rightarrow> route_policy \<Rightarrow> (job_db, route_policy) operation" where
  "append_route_body ses p s =
     (case find (\<lambda>r. rt_route_name r = rt_route_name p \<and> rt_version r = rt_version p) (jb_routes s) of
        Some row \<Rightarrow>
          (bind_result (route_policy_from_row ses row) (\<lambda>recovered.
             if rt_content_hash recovered \<noteq> rt_content_hash p
             then Inl (job_error ''alert_route_policy_version_conflict'') else Inr recovered), s)
      | None \<Rightarrow> bind_method (insert_route p) (\<lambda>_ t. (Inr p, t)) s)"

definition append_route_policy :: "tx \<Rightarrow> job_session \<Rightarrow> route_policy \<Rightarrow> (job_db, route_policy) operation" where
  "append_route_policy tr ses p s =
     (case validate_route_policy p of
        Inl x \<Rightarrow> (Inl x, s)
      | Inr _ \<Rightarrow>
          if route_policy_hash (js_sha ses) p \<noteq> rt_content_hash p
          then (Inl (job_error ''alert_route_policy_hash_mismatch''), s)
          else job_transaction tr ''alert_route_policy_persistence_uncertain'' is_job_error
                 (append_route_body ses p) s)"

section \<open>Due jobs\<close>

text \<open>
  \<open>SELECT DISTINCT ON (name) ... WHERE approved_at <= t ORDER BY name, approved_at DESC, id DESC\<close>: the newest
  row of every name, in the order of the names.
\<close>

definition newest_per_name ::
  "(string \<Rightarrow> string) \<Rightarrow> ('r \<Rightarrow> string) \<Rightarrow> ('r \<Rightarrow> datetime) \<Rightarrow> ('r \<Rightarrow> uuid) \<Rightarrow> datetime \<Rightarrow> 'r list \<Rightarrow> 'r list" where
  "newest_per_name collate name approved_at ident t rows =
     (let known = filter (\<lambda>r. instant (approved_at r) \<le> instant t) rows
      in List.map_filter (\<lambda>n. newest (\<lambda>r. (instant (approved_at r), ident r)) (filter (\<lambda>r. name r = n) known))
           (sort_key collate (remdups (map name known))))"

definition latest_success :: "uuid \<Rightarrow> datetime \<Rightarrow> job_run list \<Rightarrow> job_run option" where
  "latest_success policy_id t runs =
     newest (\<lambda>r. (instant (jr_completed_at r), jr_run_id r))
       (filter (\<lambda>r. jr_policy_id r = policy_id \<and> jr_status r = SUCCEEDED \<and>
                    instant (jr_completed_at r) \<le> instant t) runs)"

definition due_state_of :: "job_session \<Rightarrow> datetime \<Rightarrow> job_db \<Rightarrow> job_policy \<Rightarrow> due_state result" where
  "due_state_of ses as_of s row =
     bind_result (policy_from_row ses row) (\<lambda>policy.
       evaluate_job_due policy
         (map_option (\<lambda>r. read_time ses (jr_completed_at r)) (latest_success (jp_policy_id policy) as_of (jb_runs s)))
         as_of)"

definition due_states :: "job_session \<Rightarrow> datetime \<Rightarrow> job_db \<Rightarrow> due_state list result" where
  "due_states ses as_of s =
     traverse (due_state_of ses as_of s)
       (newest_per_name (js_collate ses) jp_job_name jp_approved_at jp_policy_id as_of (jb_policies s))"

definition due_jobs :: "tx \<Rightarrow> job_session \<Rightarrow> datetime \<Rightarrow> (job_db, due_state list) operation" where
  "due_jobs tr ses as_of s =
     (case job_aware as_of ''job_due_time_must_be_timezone_aware'' of
        Inl x \<Rightarrow> (Inl x, s)
      | Inr _ \<Rightarrow> job_transaction tr ''operational_job_due_read_uncertain'' (\<lambda>_. False)
                   (\<lambda>s. (due_states ses as_of s, s)) s)"

section \<open>Routing alerts\<close>

definition route_matches :: "operational_alert \<Rightarrow> route_policy \<Rightarrow> bool" where
  "route_matches alert p \<longleftrightarrow>
     rt_enabled p \<and> rt_alert_code p \<in> {''*'', al_code alert} \<and>
     severity_rank (rt_minimum_severity p) \<le> severity_rank (al_severity alert)"

definition new_delivery :: "uuid \<Rightarrow> operational_alert \<Rightarrow> route_policy \<Rightarrow> datetime \<Rightarrow> outbox_delivery" where
  "new_delivery new_id alert p t =
     \<lparr>dl_delivery_id = new_id, dl_alert_id = al_alert_id alert, dl_route_policy_id = rt_route_policy_id p,
      dl_channel = rt_channel p, dl_destination_reference = rt_destination_reference p,
      dl_status = ''PENDING_EXTERNAL_DELIVERY'', dl_enqueued_at = t,
      dl_payload = [(''alert_id'', uuid_str (al_alert_id alert)), (''code'', al_code alert),
        (''severity'', severity_value (al_severity alert)), (''resource'', al_resource alert),
        (''route_name'', rt_route_name p)]\<rparr>"

text \<open>
  One row of the route policies: nothing for a route that does not match. The rows a delivery refers to
  were read before, and no alert or route is ever deleted. Fresh identifiers are drawn by route name.
\<close>

definition enqueue_route ::
  "job_session \<Rightarrow> (string \<Rightarrow> uuid) \<Rightarrow> operational_alert \<Rightarrow> datetime \<Rightarrow> route_policy \<Rightarrow>
   (job_db, outbox_delivery list) operation" where
  "enqueue_route ses draw alert t row s =
     (case route_policy_from_row ses row of
        Inl x \<Rightarrow> (Inl x, s)
      | Inr p \<Rightarrow>
          if \<not> route_matches alert p then (Inr [], s)
          else case find (\<lambda>d. dl_alert_id d = al_alert_id alert \<and> dl_route_policy_id d = rt_route_policy_id p)
                      (jb_outbox s) of
            Some d \<Rightarrow> (Inr [delivery_from_row ses d], s)
          | None \<Rightarrow>
              let d = new_delivery (draw (rt_route_name p)) alert p t
              in if dl_delivery_id d \<in> dl_delivery_id ` set (jb_outbox s) then (Inl refused_row, s)
                 else (Inr [d], s\<lparr>jb_outbox := jb_outbox s @ [d\<lparr>dl_enqueued_at := stored_time t\<rparr>]\<rparr>))"

fun enqueue_rows ::
  "job_session \<Rightarrow> (string \<Rightarrow> uuid) \<Rightarrow> operational_alert \<Rightarrow> datetime \<Rightarrow> route_policy list \<Rightarrow>
   (job_db, outbox_delivery list) operation" where
  "enqueue_rows ses draw alert t [] s = (Inr [], s)"
| "enqueue_rows ses draw alert t (row # rows) s =
     bind_method (enqueue_route ses draw alert t row) (\<lambda>ds.
     bind_method (enqueue_rows ses draw alert t rows) (\<lambda>es t. (Inr (ds @ es), t))) s"

definition enqueue_routes ::
  "job_session \<Rightarrow> (string \<Rightarrow> uuid) \<Rightarrow> operational_alert \<Rightarrow> datetime \<Rightarrow> (job_db, outbox_delivery list) operation" where
  "enqueue_routes ses draw alert t s =
     enqueue_rows ses draw alert t
       (newest_per_name (js_collate ses) rt_route_name rt_approved_at rt_route_policy_id t (jb_routes s)) s"

definition route_alert ::
  "tx \<Rightarrow> tx \<Rightarrow> job_session \<Rightarrow> (string \<Rightarrow> uuid) \<Rightarrow> uuid \<Rightarrow> datetime \<Rightarrow> (job_db, outbox_delivery list) operation" where
  "route_alert tr tr' ses draw alert_id enqueued_at s =
     (case job_aware enqueued_at ''alert_route_time_must_be_timezone_aware'' of
        Inl x \<Rightarrow> (Inl x, s)
      | Inr _ \<Rightarrow>
          if tr \<noteq> TxCommitted then (Inl transaction_failed, s)
          else case pg_get_alert alert_id (jb_alerts s) of
            Inl x \<Rightarrow> (Inl x, s)
          | Inr alert \<Rightarrow> job_transaction tr' ''alert_route_persistence_uncertain'' (\<lambda>_. False)
                           (enqueue_routes ses draw alert enqueued_at) s)"

definition outbox :: "tx \<Rightarrow> job_session \<Rightarrow> uuid \<Rightarrow> (job_db, outbox_delivery list) operation" where
  "outbox tr ses alert_id s =
     (if tr \<noteq> TxCommitted then Inl transaction_failed
      else Inr (map (delivery_from_row ses)
             (sort_key (\<lambda>d. (instant (dl_enqueued_at d), dl_delivery_id d))
               (filter (\<lambda>d. dl_alert_id d = alert_id) (jb_outbox s)))), s)"

section \<open>The monitor\<close>

text \<open>Fresh identifiers, drawn for the job they are used for; the clock is not read.\<close>

record monitor_draw =
  md_alert :: alert_env
  md_delivery :: "string \<Rightarrow> uuid"

definition overdue_request :: "due_state \<Rightarrow> alert_request" where
  "overdue_request st =
     \<lparr>ar_source = ''operational_job_monitor'', ar_code = ''OPERATIONAL_JOB_OVERDUE'', ar_severity = WARNING,
      ar_resource = ''job:'' @ jp_job_name (ds_policy st),
      ar_details = [(''policy_version'', jp_version (ds_policy st)), (''due_at'', iso_datetime (ds_due_at st)),
        (''owner'', jp_owner (ds_policy st)), (''runbook_uri'', jp_runbook_uri (ds_policy st))]\<rparr>"

definition overdue_fingerprint :: "string \<Rightarrow> string" where
  "overdue_fingerprint job_name = ''operational_job_monitor:OPERATIONAL_JOB_OVERDUE:job:'' @ job_name"

text \<open>An alert whose whole history precedes the evaluation.\<close>

definition settled_alert :: "alert_db \<Rightarrow> string \<Rightarrow> datetime \<Rightarrow> operational_alert option" where
  "settled_alert db fp as_of =
     find (\<lambda>a. unresolved fp a \<and> instant (al_created_at a) \<le> instant as_of \<and>
             (\<forall>v \<in> set (db_events db). av_alert_id v = al_alert_id a \<longrightarrow> instant (av_occurred_at v) \<le> instant as_of))
       (db_alerts db)"

definition monitor_state ::
  "job_session \<Rightarrow> monitor_draw \<Rightarrow> datetime \<Rightarrow> due_state \<Rightarrow> (job_db, operational_alert list) operation" where
  "monitor_state ses d as_of st s =
     (if \<not> ds_overdue st
      then case settled_alert (jb_alerts s) (overdue_fingerprint (jp_job_name (ds_policy st))) as_of of
          None \<Rightarrow> (Inr [], s)
        | Some a \<Rightarrow>
            bind_method (on_alerts (pg_transition_in_transaction (md_alert d) (al_alert_id a) RESOLVED
                ''operational_job_monitor'' (Some [(''recovery'', ''successful_run_or_current_schedule'')]) (Some as_of)))
              (\<lambda>_ t. (Inr [], t)) s
      else
        bind_method (on_alerts (pg_raise_in_transaction (md_alert d) (Some as_of) (overdue_request st))) (\<lambda>alert.
        bind_method (enqueue_routes ses (md_delivery d) alert as_of) (\<lambda>_ t. (Inr [alert], t))) s)"

fun monitor_states ::
  "job_session \<Rightarrow> (string \<Rightarrow> monitor_draw) \<Rightarrow> datetime \<Rightarrow> due_state list \<Rightarrow>
   (job_db, operational_alert list) operation" where
  "monitor_states ses draw as_of [] s = (Inr [], s)"
| "monitor_states ses draw as_of (st # sts) s =
     bind_method (monitor_state ses (draw (jp_job_name (ds_policy st))) as_of st) (\<lambda>xs.
     bind_method (monitor_states ses draw as_of sts) (\<lambda>ys t. (Inr (xs @ ys), t))) s"

definition monitor_body ::
  "job_session \<Rightarrow> (string \<Rightarrow> monitor_draw) \<Rightarrow> datetime \<Rightarrow> (job_db, operational_alert list) operation" where
  "monitor_body ses draw as_of s =
     (case due_states ses as_of s of
        Inl x \<Rightarrow> (Inl x, s)
      | Inr sts \<Rightarrow> monitor_states ses draw as_of sts s)"

definition monitor_overdue ::
  "tx \<Rightarrow> job_session \<Rightarrow> (string \<Rightarrow> monitor_draw) \<Rightarrow> datetime \<Rightarrow> (job_db, operational_alert list) operation" where
  "monitor_overdue tr ses draw as_of s =
     (case job_aware as_of ''job_due_time_must_be_timezone_aware'' of
        Inl x \<Rightarrow> (Inl x, s)
      | Inr _ \<Rightarrow> job_transaction tr ''operational_job_monitor_persistence_uncertain'' is_job_error
                   (monitor_body ses draw as_of) s)"

end
