(* ===== verification/JobMonitor.thy ===== *)
theory JobMonitor
  imports OperationalJobs "HOL-Library.Sublist"
begin

text \<open>
  What the store of \<open>OperationalJobs\<close> promises: its evidence tables only grow, an alert is routed once to
  every matching route, the monitor leaves exactly the overdue jobs alerted, the due state is that of the
  newest approved policy, and what happens known_at a stored hash is over a time the session reads differently.
\<close>

section \<open>Transactions\<close>

lemma job_transaction_Inr:
  "job_transaction tr f k body s = (Inr y, t) \<longleftrightarrow> tr = TxCommitted \<and> body s = (Inr y, t)"
  by (cases tr) (auto simp: job_transaction_def split: prod.splits sum.splits)

lemma job_transaction_state:
  "job_transaction tr f k body s = (r, t) \<Longrightarrow> t = s \<or> (\<exists>y. body s = (Inr y, t))"
  by (cases tr) (auto simp: job_transaction_def split: prod.splits sum.splits)

lemma on_alerts_Inr:
  "on_alerts f s = (Inr y, t) \<longleftrightarrow> (\<exists>a. f (jb_alerts s) = (Inr y, a) \<and> t = s\<lparr>jb_alerts := a\<rparr>)"
  by (auto simp: on_alerts_def split: prod.splits)

lemma traverse_Inr: "traverse f xs = Inr ys \<longleftrightarrow> list_all2 (\<lambda>x y. f x = Inr y) xs ys"
proof (induction xs arbitrary: ys)
  case (Cons x xs)
  then show ?case by (cases ys) (auto simp: bind_result_Inr_iff)
qed auto

lemma traverse_Inl: "x \<in> set xs \<Longrightarrow> f x = Inl e \<Longrightarrow> \<exists>e'. traverse f xs = Inl e'"
  by (induction xs) (auto simp: bind_result_def split: sum.splits)

section \<open>The newest row of every name\<close>

lemma filter_known_name:
  "n \<in> name ` set (filter P rows) \<longleftrightarrow> filter (\<lambda>r. name r = n) (filter P rows) \<noteq> []"
  by (auto simp: filter_empty_conv)

lemma newest_per_name_map:
  "map name (newest_per_name c name known_at i t rows) =
     sort_key c (remdups (map name (filter (\<lambda>r. instant (known_at r) \<le> instant t) rows)))"
proof -
  let ?known = "filter (\<lambda>r. instant (known_at r) \<le> instant t) rows"
  let ?f = "\<lambda>n. newest (\<lambda>r. (instant (known_at r), i r)) (filter (\<lambda>r. name r = n) ?known)"
  have "map name (List.map_filter ?f ns) = ns" if "set ns \<subseteq> name ` set ?known" for ns
    using that
  proof (induction ns)
    case Nil
    then show ?case by (simp add: map_filter_simps)
  next
    case (Cons n ns)
    then obtain r where r: "?f n = Some r"
      using filter_known_name [of n name] by (cases "?f n") auto
    then have "name r = n" using newest_max [OF r] by simp
    with Cons r show ?case by (simp add: map_filter_simps)
  qed
  then show ?thesis by (simp add: newest_per_name_def Let_def)
qed

lemma newest_per_name_distinct: "distinct (map name (newest_per_name c name known_at i t rows))"
  by (simp add: newest_per_name_map)

lemma newest_per_name_names:
  "name ` set (newest_per_name c name known_at i t rows) = name ` {r \<in> set rows. instant (known_at r) \<le> instant t}"
proof -
  have "name ` set (newest_per_name c name known_at i t rows) = set (map name (newest_per_name c name known_at i t rows))"
    by simp
  also have "\<dots> = name ` {r \<in> set rows. instant (known_at r) \<le> instant t}"
    unfolding newest_per_name_map by simp
  finally show ?thesis .
qed

lemma newest_per_name_newest:
  assumes "r \<in> set (newest_per_name c name known_at i t rows)"
  shows "r \<in> set rows \<and> instant (known_at r) \<le> instant t \<and>
    (\<forall>q \<in> set rows. name q = name r \<longrightarrow> instant (known_at q) \<le> instant t \<longrightarrow>
       instant (known_at q) < instant (known_at r) \<or> instant (known_at q) = instant (known_at r) \<and> i q \<le> i r)"
proof -
  obtain n where n: "newest (\<lambda>r. (instant (known_at r), i r))
      (filter (\<lambda>r. name r = n) (filter (\<lambda>r. instant (known_at r) \<le> instant t) rows)) = Some r"
    using assms by (auto simp: newest_per_name_def Let_def List.map_filter_def)
  note m = newest_max [OF n]
  have "(instant (known_at q), i q) \<le> (instant (known_at r), i r)"
    if "q \<in> set rows" "name q = name r" "instant (known_at q) \<le> instant t" for q
    using m that by auto
  then show ?thesis using m by (auto simp: less_eq_prod_def)
qed

section \<open>What the operations keep\<close>

text \<open>An alert without its status and the time of its last change: what no operation changes.\<close>

definition alert_static :: "operational_alert \<Rightarrow> operational_alert" where
  "alert_static a = a\<lparr>al_status := ALERT_OPEN, al_updated_at := al_created_at a\<rparr>"

lemma alert_static_eq:
  assumes "alert_static a = alert_static b"
  shows "al_alert_id a = al_alert_id b \<and> al_code a = al_code b \<and> al_severity a = al_severity b \<and>
    al_resource a = al_resource b \<and> al_fingerprint a = al_fingerprint b"
  using assms by (cases a, cases b) (simp add: alert_static_def)

definition static_alerts :: "job_db \<Rightarrow> operational_alert list" where
  "static_alerts s = map alert_static (db_alerts (jb_alerts s))"

text \<open>The evidence tables only grow, and an alert keeps everything but its status.\<close>

definition job_extends :: "job_db \<Rightarrow> job_db \<Rightarrow> bool" where
  "job_extends s t \<longleftrightarrow> prefix (static_alerts s) (static_alerts t) \<and> prefix (jb_policies s) (jb_policies t) \<and>
     prefix (jb_runs s) (jb_runs t) \<and> prefix (jb_routes s) (jb_routes t) \<and> prefix (jb_outbox s) (jb_outbox t)"

text \<open>A delivery is explained by a stored alert and a stored route that asks for it.\<close>

definition delivery_explained :: "job_db \<Rightarrow> outbox_delivery \<Rightarrow> bool" where
  "delivery_explained s d \<longleftrightarrow>
     (\<exists>a \<in> set (static_alerts s). \<exists>p \<in> set (jb_routes s). route_matches a p \<and>
        instant (rt_approved_at p) \<le> instant (dl_enqueued_at d) \<and>
        d = new_delivery (dl_delivery_id d) a p (dl_enqueued_at d))"

definition outbox_ok :: "job_db \<Rightarrow> bool" where
  "outbox_ok s \<longleftrightarrow> distinct (map (\<lambda>d. (dl_alert_id d, dl_route_policy_id d)) (jb_outbox s)) \<and>
     distinct (map dl_delivery_id (jb_outbox s)) \<and> (\<forall>d \<in> set (jb_outbox s). delivery_explained s d)"

lemma job_extends_refl [simp]: "job_extends s s"
  by (simp add: job_extends_def)

lemma job_extends_trans: "job_extends s t \<Longrightarrow> job_extends t u \<Longrightarrow> job_extends s u"
  unfolding job_extends_def by (meson prefix_order.trans)

lemma explained_extends: "job_extends s t \<Longrightarrow> delivery_explained s d \<Longrightarrow> delivery_explained t d"
  unfolding job_extends_def delivery_explained_def by (meson set_mono_prefix subsetD)

text \<open>An operation that touches neither the outbox nor takes anything away.\<close>

lemma outbox_ok_extends: "job_extends s t \<Longrightarrow> jb_outbox t = jb_outbox s \<Longrightarrow> outbox_ok s \<Longrightarrow> outbox_ok t"
  using explained_extends unfolding outbox_ok_def by metis

definition alerts_ok :: "job_db \<Rightarrow> bool" where
  "alerts_ok s \<longleftrightarrow> view_ok (alert_view (jb_alerts s))"

definition keeps :: "job_db \<Rightarrow> job_db \<Rightarrow> bool" where
  "keeps s t \<longleftrightarrow> job_extends s t \<and> (outbox_ok s \<longrightarrow> outbox_ok t) \<and> (alerts_ok s \<longrightarrow> alerts_ok t)"

lemma keeps_refl [simp, intro]: "keeps s s"
  by (simp add: keeps_def)

lemma keeps_trans: "keeps s t \<Longrightarrow> keeps t u \<Longrightarrow> keeps s u"
  unfolding keeps_def using job_extends_trans by blast

lemma keepsI:
  "job_extends s t \<Longrightarrow> jb_outbox t = jb_outbox s \<Longrightarrow> (alerts_ok s \<Longrightarrow> alerts_ok t) \<Longrightarrow> keeps s t"
  using outbox_ok_extends by (auto simp: keeps_def)

lemma keeps_bind:
  assumes "bind_method m f s = (Inr y, t)"
    and "\<And>x u. m s = (Inr x, u) \<Longrightarrow> keeps s u" and "\<And>x u. m s = (Inr x, u) \<Longrightarrow> f x u = (Inr y, t) \<Longrightarrow> keeps u t"
  shows "keeps s t"
proof -
  obtain x u where m: "m s = (Inr x, u)" "f x u = (Inr y, t)" using assms(1) by (auto simp: bind_method_Inr_iff)
  show ?thesis by (rule keeps_trans [OF assms(2) [OF m(1)] assms(3) [OF m]])
qed

text \<open>The alerts, in the caller's transaction.\<close>

lemma raise_static:
  assumes "pg_raise_in_transaction e oc q db = (r, db')"
  shows "prefix (map alert_static (db_alerts db)) (map alert_static (db_alerts db'))"
  using assms by (auto simp: pg_raise_in_transaction_def Let_def split: if_splits option.splits)

lemma alert_static_status [simp]: "alert_static (a\<lparr>al_status := st\<rparr>) = alert_static a"
  by (cases a) (simp add: alert_static_def)

lemma transition_static:
  assumes "pg_transition_in_transaction e i st actor d oc db = (r, db')"
  shows "map alert_static (db_alerts db') = map alert_static (db_alerts db)"
proof (cases "db' = db")
  case False
  then obtain v where v: "db' = db\<lparr>db_alerts := map (\<lambda>x. if al_alert_id x = i then x\<lparr>al_status := st\<rparr> else x) (db_alerts db),
      db_events := db_events db @ [v]\<rparr>"
    using pg_transition_step [OF assms] by blast
  have "alert_static (if al_alert_id x = i then x\<lparr>al_status := st\<rparr> else x) = alert_static x" for x by simp
  then show ?thesis by (simp add: v)
qed simp

lemma raise_view_ok:
  "pg_raise_in_transaction e oc q db = (r, db') \<Longrightarrow> view_ok (alert_view db) \<Longrightarrow> view_ok (alert_view db')"
  using pg_raise_view [of e oc q db r db'] view_ok_snoc by auto

lemma transition_view_ok:
  "pg_transition_in_transaction e i st actor d oc db = (r, db') \<Longrightarrow> view_ok (alert_view db) \<Longrightarrow> view_ok (alert_view db')"
  using pg_transition_view [of e i st actor d oc db r db'] view_ok_set_status by auto

lemma raise_keeps:
  assumes "on_alerts (pg_raise_in_transaction e oc q) s = (Inr a, t)" shows "keeps s t"
  using assms raise_static raise_view_ok
  by (intro keepsI) (auto simp: on_alerts_Inr job_extends_def static_alerts_def alerts_ok_def)

lemma transition_keeps:
  assumes "on_alerts (pg_transition_in_transaction e i st actor d oc) s = (Inr y, t)" shows "keeps s t"
proof -
  obtain a where a: "pg_transition_in_transaction e i st actor d oc (jb_alerts s) = (Inr y, a)" "t = s\<lparr>jb_alerts := a\<rparr>"
    using assms by (auto simp: on_alerts_Inr)
  show ?thesis using transition_static [OF a(1)] transition_view_ok [OF a(1)]
    by (intro keepsI) (simp_all add: a(2) job_extends_def static_alerts_def alerts_ok_def)
qed

section \<open>The outbox\<close>

lemma alert_static_simps [simp]:
  "al_alert_id (alert_static a) = al_alert_id a" "al_code (alert_static a) = al_code a"
  "al_severity (alert_static a) = al_severity a" "al_resource (alert_static a) = al_resource a"
  "alert_static (pg_alert_row db a) = alert_static a"
  by (cases a, simp add: alert_static_def pg_alert_row_def)+

lemma route_matches_static [simp]: "route_matches (alert_static a) p = route_matches a p"
  by (simp add: route_matches_def)

lemma new_delivery_static [simp]: "new_delivery n (alert_static a) p t = new_delivery n a p t"
  by (simp add: new_delivery_def)

lemma read_route: "route_policy_from_row ses row = Inr p \<Longrightarrow> p = row\<lparr>rt_approved_at := read_time ses (rt_approved_at row)\<rparr>"
  by (simp add: route_policy_from_row_def Let_def split: if_splits)

lemma read_matches:
  "route_policy_from_row ses row = Inr p \<Longrightarrow> route_matches a p = route_matches a row \<and> new_delivery n a p t = new_delivery n a row t \<and>
     rt_route_policy_id p = rt_route_policy_id row"
  by (drule read_route) (simp add: route_matches_def new_delivery_def)

lemma stored_instant [simp]: "instant (stored_time t) = instant t"
  by (simp add: stored_time_def)

lemma read_instant [simp]: "instant (read_time ses t) = instant t"
  by (simp add: read_time_def)

text \<open>One route: what is written is explained, and the pair it is written for was not there.\<close>

lemma enqueue_route_cases:
  assumes "enqueue_route ses draw alert t row s = (Inr ds, u)"
  obtains "u = s"
  | n where "u = s\<lparr>jb_outbox := jb_outbox s @ [new_delivery n alert row (stored_time t)]\<rparr>" "route_matches alert row"
      "n \<notin> dl_delivery_id ` set (jb_outbox s)"
      "(al_alert_id alert, rt_route_policy_id row) \<notin> (\<lambda>d. (dl_alert_id d, dl_route_policy_id d)) ` set (jb_outbox s)"
proof (cases "u = s")
  case False
  obtain p where p: "route_policy_from_row ses row = Inr p"
    using assms by (auto simp: enqueue_route_def split: sum.splits)
  note m = read_matches [OF p]
  have f: "find (\<lambda>d. dl_alert_id d = al_alert_id alert \<and> dl_route_policy_id d = rt_route_policy_id p) (jb_outbox s) = None"
    and r: "route_matches alert p"
    using assms False by (auto simp: enqueue_route_def p split: if_splits option.splits)
  let ?n = "draw (rt_route_name p)"
  have d: "?n \<notin> dl_delivery_id ` set (jb_outbox s)"
    "u = s\<lparr>jb_outbox := jb_outbox s @ [new_delivery ?n alert row (stored_time t)]\<rparr>"
    using assms r f m [of alert ?n t] by (auto simp: enqueue_route_def p Let_def new_delivery_def split: if_splits)
  have new: "(al_alert_id alert, rt_route_policy_id row) \<notin> (\<lambda>d. (dl_alert_id d, dl_route_policy_id d)) ` set (jb_outbox s)"
    using f m by (auto simp: find_None_iff)
  have "route_matches alert row" using r m by blast
  then show ?thesis using that(2) d new by blast
qed (rule that(1))

lemma new_delivery_fields [simp]:
  "dl_delivery_id (new_delivery n a p t) = n" "dl_alert_id (new_delivery n a p t) = al_alert_id a"
  "dl_route_policy_id (new_delivery n a p t) = rt_route_policy_id p" "dl_enqueued_at (new_delivery n a p t) = t"
  by (simp_all add: new_delivery_def)

lemma enqueue_route_keeps:
  assumes "enqueue_route ses draw alert t row s = (Inr ds, u)" "alert_static alert \<in> set (static_alerts s)"
    "row \<in> set (jb_routes s)" "instant (rt_approved_at row) \<le> instant t"
  shows "keeps s u"
proof (cases rule: enqueue_route_cases [OF assms(1)])
  case 1
  then show ?thesis by simp
next
  case (2 n)
  have e: "job_extends s u" by (simp add: 2(1) job_extends_def static_alerts_def)
  have x: "delivery_explained u (new_delivery n alert row (stored_time t))"
    unfolding delivery_explained_def
    using assms(2-4) 2(2) by (intro bexI [of _ "alert_static alert"] bexI [of _ row]) (auto simp: 2(1) static_alerts_def)
  have "outbox_ok u" if "outbox_ok s"
    using that 2(3,4) x explained_extends [OF e] by (auto simp: outbox_ok_def 2(1))
  then show ?thesis using e by (simp add: keeps_def alerts_ok_def 2(1))
qed

lemma enqueue_rows_keeps:
  assumes "enqueue_rows ses draw alert t rows s = (Inr ds, u)" "alert_static alert \<in> set (static_alerts s)"
    "set rows \<subseteq> {row \<in> set (jb_routes s). instant (rt_approved_at row) \<le> instant t}"
  shows "keeps s u"
  using assms
proof (induction rows arbitrary: s ds)
  case Nil
  then show ?case by simp
next
  case (Cons row rows)
  obtain es v fs where v: "enqueue_route ses draw alert t row s = (Inr es, v)" "enqueue_rows ses draw alert t rows v = (Inr fs, u)"
    using Cons.prems(1) by (auto simp: bind_method_Inr_iff)
  have k: "keeps s v" using enqueue_route_keeps [OF v(1)] Cons.prems(2,3) by auto
  then have x: "job_extends s v" by (simp add: keeps_def)
  have "keeps v u"
  proof (rule Cons.IH [OF v(2)])
    show "alert_static alert \<in> set (static_alerts v)" using Cons.prems(2) x unfolding job_extends_def by (meson set_mono_prefix subsetD)
    show "set rows \<subseteq> {row \<in> set (jb_routes v). instant (rt_approved_at row) \<le> instant t}"
      using Cons.prems(3) x unfolding job_extends_def by (auto dest!: set_mono_prefix)
  qed
  with k show ?case by (rule keeps_trans)
qed

lemma enqueue_routes_keeps:
  assumes "enqueue_routes ses draw alert t s = (Inr ds, u)" "alert_static alert \<in> set (static_alerts s)"
  shows "keeps s u"
  using newest_per_name_newest [where name = rt_route_name and known_at = rt_approved_at and i = rt_route_policy_id]
  by (intro enqueue_rows_keeps [OF assms(1) [unfolded enqueue_routes_def] assms(2)]) blast

text \<open>The alert a raise returns is a stored one.\<close>

lemma find_member: "find P xs = Some x \<Longrightarrow> x \<in> set xs \<and> P x"
  by (induction xs) (auto split: if_splits)

lemma raised_alert_stored:
  assumes "pg_raise_in_transaction e oc q db = (Inr a, db')"
  shows "alert_static a \<in> set (map alert_static (db_alerts db')) \<and> al_fingerprint a = request_fingerprint q \<and>
    (\<exists>b \<in> set (db_alerts db'). alert_static a = alert_static b \<and> unresolved (request_fingerprint q) b)"
proof -
  define w where "w = (case oc of None \<Rightarrow> le_now e | Some t \<Rightarrow> t)"
  have ok: "alert_fields_valid (ar_source q) (ar_code q) (ar_resource q)" "aware w"
    using assms unfolding pg_raise_in_transaction_def Let_def w_def [symmetric] by (simp_all split: if_splits)
  note a = assms [unfolded pg_raise_in_transaction_def Let_def, folded w_def, simplified ok, simplified]
  have "(\<exists>b. b \<in> set (db_alerts db) \<and> unresolved (request_fingerprint q) b \<and> a = pg_alert_row db b \<and> db' = db) \<or>
    al_fingerprint a = request_fingerprint q \<and> al_status a = ALERT_OPEN \<and> a \<in> set (db_alerts db')"
  proof (cases "find (unresolved (request_fingerprint q)) (db_alerts db)")
    case None
    with a have "a = opened_alert e w q" "a \<in> set (db_alerts db')" by (auto split: if_splits)
    then show ?thesis by (simp add: opened_alert_def)
  next
    case (Some b)
    with a find_member [OF Some] show ?thesis by auto
  qed
  then consider b where "b \<in> set (db_alerts db)" "unresolved (request_fingerprint q) b" "a = pg_alert_row db b" "db' = db"
    | "al_fingerprint a = request_fingerprint q" "al_status a = ALERT_OPEN" "a \<in> set (db_alerts db')"
    by blast
  then show ?thesis
  proof cases
    case 1
    have "alert_static a = alert_static b" "al_alert_id a = al_alert_id b" "al_fingerprint a = al_fingerprint b"
      by (simp_all add: 1(3), simp_all add: pg_alert_row_def)
    then show ?thesis using 1(1,2,4) by (auto simp: unresolved_def)
  next
    case 2
    then show ?thesis by (auto simp: unresolved_def)
  qed
qed

section \<open>Any sequence of calls\<close>

lemma monitor_state_keeps:
  assumes "monitor_state ses d as_of st s = (Inr xs, t)" shows "keeps s t"
proof (cases "ds_overdue st")
  case False
  then show ?thesis
    using assms transition_keeps by (auto simp: monitor_state_def bind_method_Inr_iff split: option.splits)
next
  case True
  then obtain alert u ds where u: "on_alerts (pg_raise_in_transaction (md_alert d) (Some as_of) (overdue_request st)) s = (Inr alert, u)"
    "enqueue_routes ses (md_delivery d) alert as_of u = (Inr ds, t)"
    using assms by (auto simp: monitor_state_def bind_method_Inr_iff)
  have "alert_static alert \<in> set (static_alerts u)"
    using u(1) raised_alert_stored by (auto simp: on_alerts_Inr static_alerts_def)
  then show ?thesis using keeps_trans [OF raise_keeps [OF u(1)] enqueue_routes_keeps [OF u(2)]] by blast
qed

lemma monitor_states_keeps: "monitor_states ses draw as_of sts s = (Inr xs, t) \<Longrightarrow> keeps s t"
proof (induction sts arbitrary: s xs)
  case Nil
  then show ?case by simp
next
  case (Cons st sts)
  obtain ys u zs where u: "monitor_state ses (draw (jp_job_name (ds_policy st))) as_of st s = (Inr ys, u)"
    "monitor_states ses draw as_of sts u = (Inr zs, t)"
    using Cons.prems by (auto simp: bind_method_Inr_iff)
  show ?case by (rule keeps_trans [OF monitor_state_keeps [OF u(1)] Cons.IH [OF u(2)]])
qed

lemma transaction_keeps:
  assumes "\<And>y t. body s = (Inr y, t) \<Longrightarrow> keeps s t"
  shows "keeps s (snd (job_transaction tr f k body s))"
  using job_transaction_state [of tr f k body s "fst (job_transaction tr f k body s)" "snd (job_transaction tr f k body s)"] assms
  by auto

lemma appends_keep:
  "append_policy_body ses p s = (Inr y, t) \<Longrightarrow> keeps s t"
  "append_run_body ses r s = (Inr z, t) \<Longrightarrow> keeps s t"
  "append_route_body ses q s = (Inr w, t) \<Longrightarrow> keeps s t"
  by (auto simp: append_policy_body_def append_run_body_def append_route_body_def insert_policy_def insert_run_def
      insert_route_def bind_method_Inr_iff job_extends_def static_alerts_def alerts_ok_def split: option.splits if_splits
      intro!: keepsI)

datatype job_call =
    AppendPolicy job_policy
  | AppendRun job_run
  | AppendRoute route_policy
  | MonitorOverdue datetime "string \<Rightarrow> monitor_draw"
  | RouteAlert tx uuid datetime "string \<Rightarrow> uuid"
  | RaiseAlert alert_env "datetime option" alert_request
  | MoveAlert alert_env uuid alert_status string "details option"

fun job_call_step :: "job_session \<Rightarrow> tx \<times> job_call \<Rightarrow> job_db \<Rightarrow> job_db" where
  "job_call_step ses (tr, AppendPolicy p) s = snd (append_policy tr ses p s)"
| "job_call_step ses (tr, AppendRun r) s = snd (append_run tr ses r s)"
| "job_call_step ses (tr, AppendRoute p) s = snd (append_route_policy tr ses p s)"
| "job_call_step ses (tr, MonitorOverdue t draw) s = snd (monitor_overdue tr ses draw t s)"
| "job_call_step ses (tr, RouteAlert tr' i t draw) s = snd (route_alert tr' tr ses draw i t s)"
| "job_call_step ses (tr, RaiseAlert e oc q) s =
     (if tr = TxRolledBack then s else snd (on_alerts (pg_raise_alert (tr = TxReplyLost) e oc q) s))"
| "job_call_step ses (tr, MoveAlert e i st actor d) s =
     (if tr = TxRolledBack then s else snd (on_alerts (pg_transition (tr = TxReplyLost) e i st actor d) s))"

definition job_calls :: "job_session \<Rightarrow> (tx \<times> job_call) list \<Rightarrow> job_db \<Rightarrow> job_db" where
  "job_calls ses cs s = fold (job_call_step ses) cs s"

definition empty_jobs :: job_db where
  "empty_jobs = \<lparr>jb_alerts = empty_alerts, jb_policies = [], jb_runs = [], jb_routes = [], jb_outbox = []\<rparr>"

lemma pg_raise_alert_static:
  "prefix (map alert_static (db_alerts db)) (map alert_static (db_alerts (snd (pg_raise_alert lost e oc q db))))"
  using raise_static [of e oc q db]
  by (cases "pg_raise_in_transaction e oc q db") (auto simp: pg_raise_alert_def split: sum.splits)

lemma pg_transition_static:
  "map alert_static (db_alerts (snd (pg_transition lost e i st actor d db))) = map alert_static (db_alerts db)"
  using transition_static [of e i st actor d None db]
  by (cases "pg_transition_in_transaction e i st actor d None db") (auto simp: pg_transition_def split: sum.splits)

lemma pg_raise_alert_view_ok: "view_ok (alert_view db) \<Longrightarrow> view_ok (alert_view (snd (pg_raise_alert lost e oc q db)))"
  using raise_view_ok [of e oc q db]
  by (cases "pg_raise_in_transaction e oc q db") (auto simp: pg_raise_alert_def split: sum.splits)

lemma pg_transition_view_ok: "view_ok (alert_view db) \<Longrightarrow> view_ok (alert_view (snd (pg_transition lost e i st actor d db)))"
  using transition_view_ok [of e i st actor d None db]
  by (cases "pg_transition_in_transaction e i st actor d None db") (auto simp: pg_transition_def split: sum.splits)

lemma snd_on_alerts: "snd (on_alerts f s) = s\<lparr>jb_alerts := snd (f (jb_alerts s))\<rparr>"
  by (simp add: on_alerts_def split: prod.splits)

lemma route_alert_keeps: "keeps s (snd (route_alert tr tr' ses draw i t s))"
proof -
  have "keeps s (snd (job_transaction tr' ''alert_route_persistence_uncertain'' (\<lambda>_. False) (enqueue_routes ses draw alert t) s))"
    if a: "pg_get_alert i (jb_alerts s) = Inr alert" for alert
  proof (rule transaction_keeps)
    fix y u assume "enqueue_routes ses draw alert t s = (Inr y, u)"
    moreover have "alert_static alert \<in> set (static_alerts s)"
      using a by (auto simp: pg_get_alert_def static_alerts_def dest!: find_member split: option.splits)
    ultimately show "keeps s u" by (rule enqueue_routes_keeps)
  qed
  then show ?thesis by (auto simp: route_alert_def split: sum.splits)
qed

lemma job_call_step_keeps: "keeps s (job_call_step ses (tr, c) s)"
proof (cases c)
  case (MonitorOverdue t draw)
  have "keeps s u" if "monitor_body ses draw t s = (Inr y, u)" for y u
    using that monitor_states_keeps by (auto simp: monitor_body_def split: sum.splits)
  then show ?thesis
    unfolding MonitorOverdue job_call_step.simps monitor_overdue_def
    by (auto split: sum.splits intro: transaction_keeps)
next
  case (RaiseAlert e oc q)
  then show ?thesis using pg_raise_alert_static pg_raise_alert_view_ok
    by (auto simp: snd_on_alerts job_extends_def static_alerts_def alerts_ok_def intro!: keepsI)
next
  case (MoveAlert e i st actor d)
  then show ?thesis using pg_transition_view_ok
    by (auto simp: snd_on_alerts job_extends_def static_alerts_def alerts_ok_def pg_transition_static intro!: keepsI)
qed (auto simp: append_policy_def append_run_def append_route_policy_def
      split: sum.splits intro!: transaction_keeps route_alert_keeps dest: appends_keep)

lemma job_calls_keep: "keeps s (job_calls ses cs s)"
proof (induction cs arbitrary: s)
  case Nil
  then show ?case by (simp add: job_calls_def)
next
  case (Cons c cs)
  have "keeps s (job_call_step ses c s)" using job_call_step_keeps by (cases c) blast
  with Cons [of "job_call_step ses c s"] show ?case by (simp add: job_calls_def) (blast intro: keeps_trans)
qed

lemma job_calls_alerts_ok: "alerts_ok (job_calls ses cs empty_jobs)"
proof -
  have "alerts_ok empty_jobs" by (simp add: alerts_ok_def empty_jobs_def empty_alerts_def alert_view_def view_ok_def)
  then show ?thesis using job_calls_keep [of empty_jobs ses cs] by (simp add: keeps_def)
qed

text \<open>
  C13: after any calls of the store, with any failures of the database, every alert has at most one delivery
  per route policy, each delivery is explained by a stored alert and a route policy that was approved by
  then and asks for the alert's code and severity, and later calls take no delivery, run or policy away.
\<close>

theorem alert_routed_once:
  "outbox_ok (job_calls ses cs empty_jobs) \<and>
   job_extends (job_calls ses cs empty_jobs) (job_calls ses (cs @ ds) empty_jobs)"
proof -
  have "outbox_ok empty_jobs" by (simp add: outbox_ok_def empty_jobs_def)
  then have "outbox_ok (job_calls ses cs empty_jobs)"
    using job_calls_keep [of empty_jobs ses cs] by (simp add: keeps_def)
  moreover have "job_calls ses (cs @ ds) empty_jobs = job_calls ses ds (job_calls ses cs empty_jobs)"
    by (simp add: job_calls_def)
  ultimately show ?thesis using job_calls_keep [of "job_calls ses cs empty_jobs" ses ds] by (simp add: keeps_def)
qed

section \<open>An example\<close>

text \<open>A job every five minutes with two minutes of grace, approved at the epoch, and a route for every alert.\<close>

definition sample_session :: job_session where
  "sample_session = \<lparr>js_sha = (\<lambda>_. ''digest''), js_zone = 0, js_collate = id\<rparr>"

definition sample_job :: job_policy where
  "sample_job = \<lparr>jp_policy_id = 7, jp_job_name = ''job'', jp_version = ''v1'', jp_interval_seconds = 300,
     jp_grace_seconds = 120, jp_owner = ''operations'', jp_runbook_uri = ''runbook'', jp_approved_by = ''operator'',
     jp_approved_at = Aware 0 0, jp_enabled = True, jp_content_hash = ''digest''\<rparr>"

definition sample_route :: route_policy where
  "sample_route = \<lparr>rt_route_policy_id = 9, rt_route_name = ''primary'', rt_version = ''v1'', rt_alert_code = ''*'',
     rt_minimum_severity = WARNING, rt_channel = ''LOCAL_OUTBOX'', rt_destination_reference = ''paper-ops'',
     rt_owner = ''operations'', rt_approved_by = ''operator'', rt_approved_at = Aware 0 0, rt_enabled = True,
     rt_content_hash = ''digest''\<rparr>"

definition sample_draw :: "string \<Rightarrow> monitor_draw" where
  "sample_draw name = \<lparr>md_alert = \<lparr>le_alert_id = 1, le_event_id = 2, le_now = Aware 0 0, le_event_now = Aware 0 0\<rparr>,
     md_delivery = (\<lambda>_. 3)\<rparr>"

definition sample_job_calls :: "(tx \<times> job_call) list" where
  "sample_job_calls = [(TxCommitted, AppendPolicy sample_job), (TxCommitted, AppendRoute sample_route)]"

lemma sample_hashes [simp]:
  "js_sha sample_session x = ''digest''" "job_policy_hash (js_sha sample_session) p = ''digest''"
  "route_policy_hash (js_sha sample_session) q = ''digest''" "job_run_hash (js_sha sample_session) r = ''digest''"
  by (simp_all add: sample_session_def job_policy_hash_def route_policy_hash_def job_run_hash_def)

lemma sample_job_state:
  "job_calls sample_session sample_job_calls empty_jobs =
     empty_jobs\<lparr>jb_policies := [sample_job], jb_routes := [sample_route]\<rparr>"
proof -
  have p: "validate_job_policy sample_job = Inr ()"
    by (simp add: validate_job_policy_def sample_job_def job_aware_def blank_iff is_space_def)
  have r: "validate_route_policy sample_route = Inr ()" "destination_check (rt_destination_reference sample_route)"
    by (simp_all add: validate_route_policy_def sample_route_def job_aware_def blank_iff is_space_def alnum_def
        destination_check_def ascii_alnum_def)
  have i: "insert_policy sample_job empty_jobs = (Inr (), empty_jobs\<lparr>jb_policies := [sample_job]\<rparr>)"
    by (simp add: insert_policy_def empty_jobs_def sample_job_def stored_time_def)
  have k: "insert_route sample_route (empty_jobs\<lparr>jb_policies := [sample_job]\<rparr>) =
      (Inr (), empty_jobs\<lparr>jb_policies := [sample_job], jb_routes := [sample_route]\<rparr>)"
    using r(2) by (simp add: insert_route_def empty_jobs_def sample_route_def stored_time_def)
  have h: "jp_content_hash sample_job = ''digest''" "rt_content_hash sample_route = ''digest''"
    by (simp_all add: sample_job_def sample_route_def)
  have e: "jb_policies empty_jobs = []" "jb_routes empty_jobs = []" by (simp_all add: empty_jobs_def)
  show ?thesis
    by (simp add: job_calls_def sample_job_calls_def append_policy_def append_route_policy_def append_policy_body_def
        append_route_body_def job_transaction_def bind_method_def p r i k h e)
qed

definition hashed_job :: "job_session \<Rightarrow> job_policy" where
  "hashed_job ses = sample_job\<lparr>jp_content_hash := job_policy_hash (js_sha ses) sample_job\<rparr>"

definition overdue_state :: "job_policy \<Rightarrow> due_state" where
  "overdue_state p = \<lparr>ds_policy = p, ds_last_successful_at = None, ds_due_at = Aware 300000000 0, ds_due = True,
     ds_overdue = True\<rparr>"

lemma hashed_sample [simp]: "hashed_job sample_session = sample_job"
  by (simp add: hashed_job_def) (simp add: sample_job_def)

lemma hashed_job_due:
  assumes "js_zone ses = 0" "jb_policies s = [hashed_job ses]" "jb_runs s = []"
  shows "due_states ses (Aware 421000000 0) s = Inr [overdue_state (hashed_job ses)]"
proof -
  have v: "validate_job_policy (hashed_job ses) = Inr ()"
    by (simp add: validate_job_policy_def hashed_job_def sample_job_def job_aware_def blank_iff is_space_def)
  have r: "policy_from_row ses (hashed_job ses) = Inr (hashed_job ses)"
    using assms(1) by (simp add: policy_from_row_def Let_def hashed_job_def sample_job_def read_time_def job_policy_hash_def)
  have d: "due_state_of ses (Aware 421000000 0) s (hashed_job ses) = Inr (overdue_state (hashed_job ses))"
    by (simp add: due_state_of_def r evaluate_job_due_def v job_aware_def latest_success_def assms(3))
      (simp add: hashed_job_def sample_job_def plus_seconds_def wall_fits_def seconds_def Let_def overdue_state_def)
  have n: "newest_per_name c jp_job_name jp_approved_at jp_policy_id (Aware 421000000 0) [hashed_job ses] = [hashed_job ses]" for c
    by (simp add: newest_per_name_def hashed_job_def sample_job_def Let_def map_filter_simps newest_def keep_newer_def)
  show ?thesis by (simp add: due_states_def n d assms(2))
qed

lemma sample_due:
  "due_states sample_session (Aware 421000000 0) (empty_jobs\<lparr>jb_policies := [sample_job], jb_routes := [sample_route]\<rparr>) =
     Inr [overdue_state sample_job]"
proof -
  have "js_zone sample_session = 0" "jb_runs empty_jobs = []" by (simp_all add: sample_session_def empty_jobs_def)
  then show ?thesis using hashed_job_due [of sample_session] by simp
qed

section \<open>Due states\<close>

lemma instant_shift [simp]: "instant (shift_wall d t) = instant t + d"
  by (cases t) simp_all

lemma plus_seconds_Inr: "plus_seconds t n = Inr u \<Longrightarrow> instant u = instant t + seconds n"
  by (auto simp: plus_seconds_def split: if_splits)

text \<open>The instants of the successful runs of a policy known by then.\<close>

definition successes :: "job_db \<Rightarrow> uuid \<Rightarrow> datetime \<Rightarrow> int set" where
  "successes s i t = {instant (jr_completed_at r) | r. r \<in> set (jb_runs s) \<and> jr_policy_id r = i \<and>
     jr_status r = SUCCEEDED \<and> instant (jr_completed_at r) \<le> instant t}"

definition due_base :: "job_db \<Rightarrow> job_policy \<Rightarrow> datetime \<Rightarrow> int" where
  "due_base s p t =
     (if successes s (jp_policy_id p) t = {} then instant (jp_approved_at p) else Max (successes s (jp_policy_id p) t))"

lemma finite_successes [simp]: "finite (successes s i t)"
proof -
  have "successes s i t \<subseteq> (\<lambda>r. instant (jr_completed_at r)) ` set (jb_runs s)" by (auto simp: successes_def)
  then show ?thesis by (rule finite_subset) simp
qed

lemma latest_success_Max:
  "case latest_success i t (jb_runs s) of None \<Rightarrow> successes s i t = {}
   | Some r \<Rightarrow> successes s i t \<noteq> {} \<and> instant (jr_completed_at r) = Max (successes s i t)"
proof (cases "latest_success i t (jb_runs s)")
  case None
  then show ?thesis by (auto simp: latest_success_def successes_def filter_empty_conv)
next
  case (Some r)
  note m = newest_max [OF Some [unfolded latest_success_def]]
  have r: "instant (jr_completed_at r) \<in> successes s i t" using m by (auto simp: successes_def)
  have "x \<le> instant (jr_completed_at r)" if "x \<in> successes s i t" for x
    using that m by (auto simp: successes_def less_eq_prod_def)
  with r have "Max (successes s i t) = instant (jr_completed_at r)" by (intro Max_eqI) auto
  with Some r show ?thesis by auto
qed

lemma evaluate_due_Inr:
  assumes "evaluate_job_due p last_ok as_of = Inr st"
  defines "base \<equiv> instant (case last_ok of None \<Rightarrow> jp_approved_at p | Some t \<Rightarrow> t)"
  shows "ds_policy st = p \<and> ds_last_successful_at st = last_ok \<and>
    instant (ds_due_at st) = base + seconds (jp_interval_seconds p) \<and> instant (jp_approved_at p) \<le> base \<and>
    (ds_due st \<longleftrightarrow> jp_enabled p \<and> base + seconds (jp_interval_seconds p) \<le> instant as_of) \<and>
    (ds_overdue st \<longleftrightarrow>
       jp_enabled p \<and> base + seconds (jp_interval_seconds p) + seconds (jp_grace_seconds p) < instant as_of)"
proof -
  have "0 \<le> jp_grace_seconds p"
    using assms(1) by (auto simp: evaluate_job_due_def validate_job_policy_def bind_result_Inr_iff split: if_splits)
  then show ?thesis
    using assms by (auto simp: evaluate_job_due_def bind_result_Inr_iff Let_def seconds_def
        dest!: plus_seconds_Inr split: if_splits option.splits)
qed

lemma due_state_reference:
  assumes "due_state_of ses as_of s row = Inr st"
  shows "ds_policy st = row\<lparr>jp_approved_at := read_time ses (jp_approved_at row)\<rparr> \<and>
    instant (ds_due_at st) = due_base s row as_of + seconds (jp_interval_seconds row) \<and>
    instant (jp_approved_at row) \<le> due_base s row as_of \<and>
    (ds_due st \<longleftrightarrow> jp_enabled row \<and> due_base s row as_of + seconds (jp_interval_seconds row) \<le> instant as_of) \<and>
    (ds_overdue st \<longleftrightarrow> jp_enabled row \<and>
       due_base s row as_of + seconds (jp_interval_seconds row) + seconds (jp_grace_seconds row) < instant as_of)"
proof -
  let ?p = "row\<lparr>jp_approved_at := read_time ses (jp_approved_at row)\<rparr>"
  let ?last = "map_option (\<lambda>r. read_time ses (jr_completed_at r)) (latest_success (jp_policy_id row) as_of (jb_runs s))"
  have e: "evaluate_job_due ?p ?last as_of = Inr st"
    using assms by (auto simp: due_state_of_def policy_from_row_def bind_result_Inr_iff Let_def split: if_splits)
  have b: "instant (case ?last of None \<Rightarrow> jp_approved_at ?p | Some t \<Rightarrow> t) = due_base s row as_of"
    using latest_success_Max [where i = "jp_policy_id row" and t = as_of and s = s] by (auto simp: due_base_def split: option.splits)
  show ?thesis using evaluate_due_Inr [OF e] unfolding b by simp
qed

lemma due_jobs_distinct:
  assumes "due_jobs tr ses as_of s = (Inr sts, t)"
  shows "distinct (map (\<lambda>st. jp_job_name (ds_policy st)) sts)"
proof -
  let ?rows = "newest_per_name (js_collate ses) jp_job_name jp_approved_at jp_policy_id as_of (jb_policies s)"
  have "due_states ses as_of s = Inr sts"
    using assms by (auto simp: due_jobs_def job_transaction_Inr split: sum.splits)
  then have "list_all2 (\<lambda>row st. due_state_of ses as_of s row = Inr st) ?rows sts"
    by (simp add: due_states_def traverse_Inr)
  then have "map (\<lambda>st. jp_job_name (ds_policy st)) sts = map jp_job_name ?rows"
    by (induction rule: list_all2_induct) (auto dest!: due_state_reference)
  then show ?thesis by (simp add: newest_per_name_distinct)
qed

text \<open>
  C15: the due read changes nothing and gives exactly one state for every job with a policy approved by
  then, of its newest policy; the job is due when the policy is enabled and the interval has passed since
  its last successful run known by then, or since the approval if there is none, and overdue when the
  grace period has passed as well.
\<close>

theorem due_jobs_reference:
  assumes "due_jobs tr ses as_of s = (Inr sts, t)"
  shows "t = s \<and> distinct (map (\<lambda>st. jp_job_name (ds_policy st)) sts) \<and>
    (\<lambda>st. jp_job_name (ds_policy st)) ` set sts =
      jp_job_name ` {p \<in> set (jb_policies s). instant (jp_approved_at p) \<le> instant as_of} \<and>
    (\<forall>st \<in> set sts. \<exists>row \<in> set (jb_policies s).
       ds_policy st = row\<lparr>jp_approved_at := read_time ses (jp_approved_at row)\<rparr> \<and>
       instant (jp_approved_at row) \<le> instant as_of \<and>
       (\<forall>q \<in> set (jb_policies s). jp_job_name q = jp_job_name row \<longrightarrow> instant (jp_approved_at q) \<le> instant as_of \<longrightarrow>
          instant (jp_approved_at q) \<le> instant (jp_approved_at row)) \<and>
       (ds_due st \<longleftrightarrow> jp_enabled row \<and> due_base s row as_of + seconds (jp_interval_seconds row) \<le> instant as_of) \<and>
       (ds_overdue st \<longleftrightarrow> jp_enabled row \<and>
          due_base s row as_of + seconds (jp_interval_seconds row) + seconds (jp_grace_seconds row) < instant as_of))"
proof -
  let ?rows = "newest_per_name (js_collate ses) jp_job_name jp_approved_at jp_policy_id as_of (jb_policies s)"
  have d: "due_states ses as_of s = Inr sts" "t = s"
    using assms by (auto simp: due_jobs_def job_transaction_Inr split: sum.splits)
  have all: "list_all2 (\<lambda>row st. due_state_of ses as_of s row = Inr st) ?rows sts"
    using d(1) by (simp add: due_states_def traverse_Inr)
  have names: "map (\<lambda>st. jp_job_name (ds_policy st)) sts = map jp_job_name ?rows"
    using all by (induction rule: list_all2_induct) (auto dest!: due_state_reference)
  have "(\<lambda>st. jp_job_name (ds_policy st)) ` set sts = jp_job_name ` set ?rows"
    using arg_cong [OF names, of set] by simp
  then have covered: "(\<lambda>st. jp_job_name (ds_policy st)) ` set sts =
      jp_job_name ` {p \<in> set (jb_policies s). instant (jp_approved_at p) \<le> instant as_of}"
    unfolding newest_per_name_names .
  note dist = due_jobs_distinct [OF assms]
  have "\<exists>row \<in> set ?rows. due_state_of ses as_of s row = Inr st" if "st \<in> set sts" for st
    using all that by (induction rule: list_all2_induct) auto
  then have one: "\<exists>row \<in> set (jb_policies s). due_state_of ses as_of s row = Inr st \<and>
      instant (jp_approved_at row) \<le> instant as_of \<and>
      (\<forall>q \<in> set (jb_policies s). jp_job_name q = jp_job_name row \<longrightarrow> instant (jp_approved_at q) \<le> instant as_of \<longrightarrow>
          instant (jp_approved_at q) \<le> instant (jp_approved_at row))" if "st \<in> set sts" for st
    using that newest_per_name_newest [where name = jp_job_name and known_at = jp_approved_at and i = jp_policy_id]
    by (metis less_imp_le order_refl)
  show ?thesis
  proof (intro conjI d(2) dist covered ballI)
    fix st assume "st \<in> set sts"
    from one [OF this] obtain row where r: "row \<in> set (jb_policies s)" "due_state_of ses as_of s row = Inr st"
      "instant (jp_approved_at row) \<le> instant as_of"
      "\<forall>q \<in> set (jb_policies s). jp_job_name q = jp_job_name row \<longrightarrow> instant (jp_approved_at q) \<le> instant as_of \<longrightarrow>
          instant (jp_approved_at q) \<le> instant (jp_approved_at row)" by blast
    note e = due_state_reference [OF r(2)]
    show "\<exists>row \<in> set (jb_policies s).
       ds_policy st = row\<lparr>jp_approved_at := read_time ses (jp_approved_at row)\<rparr> \<and>
       instant (jp_approved_at row) \<le> instant as_of \<and>
       (\<forall>q \<in> set (jb_policies s). jp_job_name q = jp_job_name row \<longrightarrow> instant (jp_approved_at q) \<le> instant as_of \<longrightarrow>
          instant (jp_approved_at q) \<le> instant (jp_approved_at row)) \<and>
       (ds_due st \<longleftrightarrow> jp_enabled row \<and> due_base s row as_of + seconds (jp_interval_seconds row) \<le> instant as_of) \<and>
       (ds_overdue st \<longleftrightarrow> jp_enabled row \<and>
          due_base s row as_of + seconds (jp_interval_seconds row) + seconds (jp_grace_seconds row) < instant as_of)"
      by (rule bexI [OF _ r(1)]) (intro conjI r(3,4) e [THEN conjunct1] e [THEN conjunct2, THEN conjunct2, THEN conjunct2, THEN conjunct1]
        e [THEN conjunct2, THEN conjunct2, THEN conjunct2, THEN conjunct2])
  qed
qed

theorem due_jobs_reference_witness:
  "due_jobs TxCommitted sample_session (Aware 421000000 0) (job_calls sample_session sample_job_calls empty_jobs) =
     (Inr [overdue_state sample_job], job_calls sample_session sample_job_calls empty_jobs) \<and>
   distinct [''job'']"
proof -
  have d: "due_jobs TxCommitted sample_session (Aware 421000000 0) (job_calls sample_session sample_job_calls empty_jobs) =
     (Inr [overdue_state sample_job], job_calls sample_session sample_job_calls empty_jobs)"
    by (simp add: due_jobs_def job_aware_def job_transaction_def sample_job_state sample_due)
  show ?thesis using due_jobs_reference [OF d] d by (simp add: overdue_state_def)
qed

section \<open>The monitor\<close>

lemma overdue_request_fingerprint [simp]:
  "request_fingerprint (overdue_request st) = overdue_fingerprint (jp_job_name (ds_policy st))"
  by (simp add: request_fingerprint_def overdue_request_def fingerprint_of_def overdue_fingerprint_def)

lemma overdue_fingerprint_inj [simp]: "overdue_fingerprint m = overdue_fingerprint n \<longleftrightarrow> m = n"
  by (simp add: overdue_fingerprint_def)

text \<open>What a change for one condition leaves of every other: its unresolved alerts, and its events at least.\<close>

definition apart :: "string \<Rightarrow> alert_db \<Rightarrow> alert_db \<Rightarrow> bool" where
  "apart fp db db' \<longleftrightarrow> filter (unresolved fp) (db_alerts db') = filter (unresolved fp) (db_alerts db) \<and>
     set (db_events db) \<subseteq> set (db_events db')"

lemma apart_refl [simp]: "apart fp db db"
  by (simp add: apart_def)

lemma apart_trans: "apart fp a b \<Longrightarrow> apart fp b c \<Longrightarrow> apart fp a c"
  by (auto simp: apart_def)

lemma apart_settled: "apart fp db db' \<Longrightarrow> settled_alert db fp t = None \<Longrightarrow> settled_alert db' fp t = None"
proof -
  assume a: "apart fp db db'" and n: "settled_alert db fp t = None"
  have "set (filter (unresolved fp) (db_alerts db')) = set (filter (unresolved fp) (db_alerts db))"
    using a by (simp add: apart_def)
  then have "unresolved fp x \<longrightarrow> x \<in> set (db_alerts db') \<longrightarrow> x \<in> set (db_alerts db)" for x by auto
  then show ?thesis using n a by (fastforce simp: settled_alert_def find_None_iff apart_def)
qed

lemma raise_apart:
  assumes "pg_raise_in_transaction e oc q db = (Inr a, db')" "request_fingerprint q \<noteq> fp"
  shows "apart fp db db'"
  using assms by (auto simp: pg_raise_in_transaction_def Let_def apart_def unresolved_def opened_alert_def
      split: if_splits option.splits)

lemma transition_apart:
  assumes "pg_transition_in_transaction e (al_alert_id a) st actor d oc db = (Inr y, db')"
    and "a \<in> set (db_alerts db)" "al_fingerprint a \<noteq> fp" "view_ok (alert_view db)"
  shows "apart fp db db'"
proof (cases "db' = db")
  case False
  then obtain v where v: "db' = db\<lparr>db_alerts := map (\<lambda>x. if al_alert_id x = al_alert_id a then x\<lparr>al_status := st\<rparr> else x) (db_alerts db),
      db_events := db_events db @ [v]\<rparr>"
    using pg_transition_step [OF assms(1)] by blast
  have "distinct (map al_alert_id (db_alerts db))"
    using assms(4) by (simp add: view_ok_def alert_view_def comp_def)
  then have same: "x = a" if "x \<in> set (db_alerts db)" "al_alert_id x = al_alert_id a" for x
    using that assms(2) by (simp add: distinct_map inj_on_def)
  have "filter (unresolved fp) (map (\<lambda>x. if al_alert_id x = al_alert_id a then x\<lparr>al_status := st\<rparr> else x) xs) =
      filter (unresolved fp) xs" if "set xs \<subseteq> set (db_alerts db)" for xs
    using that
  proof (induction xs)
    case (Cons x xs)
    then show ?case using same [of x] assms(3) by (auto simp: unresolved_def)
  qed simp
  then show ?thesis by (auto simp: v apart_def)
qed simp

text \<open>Routing touches the outbox only, and leaves a delivery for every route that asks for the alert.\<close>

definition routed :: "operational_alert \<Rightarrow> route_policy list \<Rightarrow> job_db \<Rightarrow> bool" where
  "routed alert rows s \<longleftrightarrow> (\<forall>row \<in> set rows. route_matches alert row \<longrightarrow>
     (\<exists>d \<in> set (jb_outbox s). dl_alert_id d = al_alert_id alert \<and> dl_route_policy_id d = rt_route_policy_id row))"

lemma routed_mono: "routed alert rows s \<Longrightarrow> prefix (jb_outbox s) (jb_outbox t) \<Longrightarrow> routed alert rows t"
  unfolding routed_def by (meson set_mono_prefix subsetD)

lemma enqueue_route_done:
  assumes "enqueue_route ses draw alert t row s = (Inr ds, u)"
  shows "routed alert [row] u \<and> jb_alerts u = jb_alerts s \<and> jb_routes u = jb_routes s \<and> prefix (jb_outbox s) (jb_outbox u)"
proof -
  obtain p where p: "route_policy_from_row ses row = Inr p"
    using assms by (auto simp: enqueue_route_def split: sum.splits)
  have m: "route_matches alert p = route_matches alert row" "rt_route_policy_id p = rt_route_policy_id row"
    using read_matches [OF p] by blast+
  show ?thesis
    using assms m by (auto simp: enqueue_route_def p Let_def routed_def split: if_splits option.splits dest!: find_member)
qed

lemma enqueue_rows_done:
  "enqueue_rows ses draw alert t rows s = (Inr ds, u) \<Longrightarrow>
   routed alert rows u \<and> jb_alerts u = jb_alerts s \<and> jb_routes u = jb_routes s \<and> prefix (jb_outbox s) (jb_outbox u)"
proof (induction rows arbitrary: s ds)
  case Nil
  then show ?case by (simp add: routed_def)
next
  case (Cons row rows)
  obtain es v fs where v: "enqueue_route ses draw alert t row s = (Inr es, v)" "enqueue_rows ses draw alert t rows v = (Inr fs, u)"
    using Cons.prems by (auto simp: bind_method_Inr_iff)
  note a = enqueue_route_done [OF v(1)] and b = Cons.IH [OF v(2)]
  have "routed alert [row] u" using a b routed_mono by blast
  then have "routed alert (row # rows) u" using b by (simp add: routed_def)
  then show ?case using a b prefix_order.trans by metis
qed

definition current_routes :: "job_session \<Rightarrow> datetime \<Rightarrow> job_db \<Rightarrow> route_policy list" where
  "current_routes ses t s =
     newest_per_name (js_collate ses) rt_route_name rt_approved_at rt_route_policy_id t (jb_routes s)"

lemma enqueue_routes_done:
  "enqueue_routes ses draw alert t s = (Inr ds, u) \<Longrightarrow>
   routed alert (current_routes ses t s) u \<and> jb_alerts u = jb_alerts s \<and> jb_routes u = jb_routes s"
  using enqueue_rows_done unfolding enqueue_routes_def current_routes_def by blast

text \<open>What the evaluation leaves for one job.\<close>

definition attended :: "job_session \<Rightarrow> datetime \<Rightarrow> due_state \<Rightarrow> job_db \<Rightarrow> bool" where
  "attended ses t st s \<longleftrightarrow>
     (let fp = overdue_fingerprint (jp_job_name (ds_policy st)) in
      if ds_overdue st
      then \<exists>a \<in> set (db_alerts (jb_alerts s)). unresolved fp a \<and> routed a (current_routes ses t s) s
      else settled_alert (jb_alerts s) fp t = None)"

lemma attended_apart:
  assumes "attended ses t st s" "apart (overdue_fingerprint (jp_job_name (ds_policy st))) (jb_alerts s) (jb_alerts u)"
    and "jb_routes u = jb_routes s" "prefix (jb_outbox s) (jb_outbox u)"
  shows "attended ses t st u"
proof (cases "ds_overdue st")
  case True
  let ?fp = "overdue_fingerprint (jp_job_name (ds_policy st))"
  obtain a where a: "a \<in> set (filter (unresolved ?fp) (db_alerts (jb_alerts s)))" "routed a (current_routes ses t s) s"
    using assms(1) True by (auto simp: attended_def Let_def)
  have "a \<in> set (filter (unresolved ?fp) (db_alerts (jb_alerts u)))"
    using a(1) assms(2) by (simp only: apart_def)
  moreover have "routed a (current_routes ses t u) u"
    using routed_mono [OF a(2) assms(4)] assms(3) by (simp add: current_routes_def)
  ultimately show ?thesis using True by (auto simp: attended_def Let_def)
next
  case False
  then show ?thesis using assms apart_settled by (simp add: attended_def Let_def)
qed

lemma transition_changes:
  assumes "pg_transition_in_transaction e i st actor d oc db = (Inr y, db')"
  shows "length (db_events db') = Suc (length (db_events db))"
proof -
  define w where "w = (case oc of None \<Rightarrow> le_now e | Some t \<Rightarrow> t)"
  note a = assms [unfolded pg_transition_in_transaction_def Let_def, folded w_def]
  show ?thesis
  proof (cases "find (\<lambda>a. al_alert_id a = i) (db_alerts db)")
    case None
    then show ?thesis using a by (simp split: if_splits)
  next
    case (Some b)
    then show ?thesis using a by (simp split: if_splits) auto
  qed
qed

lemma settled_unique:
  assumes "view_ok (alert_view db)" "settled_alert db fp t = Some a"
    and "pg_transition_in_transaction e (al_alert_id a) RESOLVED actor d oc db = (Inr y, db')"
  shows "settled_alert db' fp t = None"
proof -
  have a: "a \<in> set (db_alerts db)" "unresolved fp a"
    using find_member [OF assms(2) [unfolded settled_alert_def]] by auto
  have one: "x = a" if "x \<in> set (db_alerts db)" "unresolved fp x" for x
  proof -
    let ?v = "\<lambda>x. (al_alert_id x, al_fingerprint x, al_status x)"
    have "?v x \<in> set (alert_view db)" "?v a \<in> set (alert_view db)" using that(1) a(1) by (simp_all add: alert_view_def)
    then have "fst (snd (?v x)) = fst (snd (?v a)) \<and> snd (snd (?v x)) \<noteq> RESOLVED \<and> snd (snd (?v a)) \<noteq> RESOLVED \<longrightarrow>
        fst (?v x) = fst (?v a)"
      using assms(1) unfolding view_ok_def by blast
    then have "al_alert_id x = al_alert_id a" using that(2) a(2) by (simp add: unresolved_def)
    moreover have "distinct (map al_alert_id (db_alerts db))"
      using assms(1) by (simp add: view_ok_def alert_view_def comp_def)
    ultimately show ?thesis using that(1) a(1) by (simp add: distinct_map inj_on_def)
  qed
  have "db' \<noteq> db" using transition_changes [OF assms(3)] by auto
  then obtain v where v: "db' = db\<lparr>db_alerts := map (\<lambda>x. if al_alert_id x = al_alert_id a then x\<lparr>al_status := RESOLVED\<rparr> else x) (db_alerts db),
      db_events := db_events db @ [v]\<rparr>"
    using pg_transition_step [OF assms(3)] by blast
  have "\<not> unresolved fp x" if "x \<in> set (db_alerts db')" for x
    using that one by (auto simp: v unresolved_def)
  then show ?thesis by (auto simp: settled_alert_def find_None_iff)
qed

lemma monitor_state_other:
  assumes "monitor_state ses d as_of st s = (Inr xs, t)" "alerts_ok s" "fp \<noteq> overdue_fingerprint (jp_job_name (ds_policy st))"
  shows "apart fp (jb_alerts s) (jb_alerts t)"
proof (cases "ds_overdue st")
  case True
  then obtain alert u ds where u: "on_alerts (pg_raise_in_transaction (md_alert d) (Some as_of) (overdue_request st)) s = (Inr alert, u)"
    "enqueue_routes ses (md_delivery d) alert as_of u = (Inr ds, t)"
    using assms(1) by (auto simp: monitor_state_def bind_method_Inr_iff)
  have "pg_raise_in_transaction (md_alert d) (Some as_of) (overdue_request st) (jb_alerts s) = (Inr alert, jb_alerts u)"
    using u(1) by (auto simp: on_alerts_Inr)
  from raise_apart [OF this, of fp] show ?thesis using enqueue_routes_done [OF u(2)] assms(3) by simp
next
  case False
  show ?thesis
  proof (cases "settled_alert (jb_alerts s) (overdue_fingerprint (jp_job_name (ds_policy st))) as_of")
    case None
    then show ?thesis using assms(1) False by (simp add: monitor_state_def)
  next
    case (Some a)
    have a: "a \<in> set (db_alerts (jb_alerts s))" "al_fingerprint a \<noteq> fp"
      using find_member [OF Some [unfolded settled_alert_def]] assms(3) by (auto simp: unresolved_def)
    show ?thesis
      using assms(1,2) False Some transition_apart [OF _ a]
      by (auto simp: monitor_state_def bind_method_Inr_iff on_alerts_Inr alerts_ok_def)
  qed
qed

lemma monitor_state_attends:
  assumes "monitor_state ses d as_of st s = (Inr xs, t)" "alerts_ok s"
  shows "attended ses as_of st t \<and> jb_routes t = jb_routes s \<and>
    map al_fingerprint xs = (if ds_overdue st then [overdue_fingerprint (jp_job_name (ds_policy st))] else [])"
proof (cases "ds_overdue st")
  case True
  then obtain alert u ds where u: "on_alerts (pg_raise_in_transaction (md_alert d) (Some as_of) (overdue_request st)) s = (Inr alert, u)"
    "enqueue_routes ses (md_delivery d) alert as_of u = (Inr ds, t)" "xs = [alert]"
    using assms(1) by (auto simp: monitor_state_def bind_method_Inr_iff)
  note e = enqueue_routes_done [OF u(2)]
  have r: "pg_raise_in_transaction (md_alert d) (Some as_of) (overdue_request st) (jb_alerts s) = (Inr alert, jb_alerts u)"
    "jb_routes u = jb_routes s"
    using u(1) by (auto simp: on_alerts_Inr)
  obtain b where b: "b \<in> set (db_alerts (jb_alerts u))" "alert_static alert = alert_static b"
    "unresolved (overdue_fingerprint (jp_job_name (ds_policy st))) b"
    and f: "al_fingerprint alert = overdue_fingerprint (jp_job_name (ds_policy st))"
    using raised_alert_stored [OF r(1)] by auto
  have "routed b rows t" if "routed alert rows t" for rows
    using that alert_static_eq [OF b(2)] by (simp add: routed_def route_matches_def)
  then show ?thesis
    using True e b u(3) f r(2) by (auto simp: attended_def Let_def current_routes_def intro!: bexI [of _ b])
next
  case False
  then show ?thesis
    using assms settled_unique
    by (auto simp: monitor_state_def attended_def Let_def bind_method_Inr_iff on_alerts_Inr alerts_ok_def split: option.splits)
qed

lemma monitor_states_attend:
  assumes "monitor_states ses draw as_of sts s = (Inr xs, t)" "alerts_ok s"
    and "distinct (map (\<lambda>st. jp_job_name (ds_policy st)) sts)"
  shows "(\<forall>st \<in> set sts. attended ses as_of st t) \<and> jb_routes t = jb_routes s \<and>
    map al_fingerprint xs = map (\<lambda>st. overdue_fingerprint (jp_job_name (ds_policy st))) (filter ds_overdue sts) \<and>
    (\<forall>fp. fp \<notin> (\<lambda>st. overdue_fingerprint (jp_job_name (ds_policy st))) ` set sts \<longrightarrow> apart fp (jb_alerts s) (jb_alerts t))"
  using assms
proof (induction sts arbitrary: s xs)
  case Nil
  then show ?case by simp
next
  case (Cons st sts)
  obtain ys u zs where u: "monitor_state ses (draw (jp_job_name (ds_policy st))) as_of st s = (Inr ys, u)"
    "monitor_states ses draw as_of sts u = (Inr zs, t)" "xs = ys @ zs"
    using Cons.prems(1) by (auto simp: bind_method_Inr_iff)
  have k: "keeps s u" "keeps u t" by (rule monitor_state_keeps [OF u(1)], rule monitor_states_keeps [OF u(2)])
  then have ok: "alerts_ok u" and out: "prefix (jb_outbox u) (jb_outbox t)"
    using Cons.prems(2) by (simp_all add: keeps_def job_extends_def)
  note one = monitor_state_attends [OF u(1) Cons.prems(2)]
  have ih: "(\<forall>st \<in> set sts. attended ses as_of st t) \<and> jb_routes t = jb_routes u \<and>
    map al_fingerprint zs = map (\<lambda>st. overdue_fingerprint (jp_job_name (ds_policy st))) (filter ds_overdue sts) \<and>
    (\<forall>fp. fp \<notin> (\<lambda>st. overdue_fingerprint (jp_job_name (ds_policy st))) ` set sts \<longrightarrow> apart fp (jb_alerts u) (jb_alerts t))"
    using Cons.IH [OF u(2) ok] Cons.prems(3) by simp
  have "overdue_fingerprint (jp_job_name (ds_policy st)) \<notin> (\<lambda>st. overdue_fingerprint (jp_job_name (ds_policy st))) ` set sts"
    using Cons.prems(3) by auto
  with ih have "apart (overdue_fingerprint (jp_job_name (ds_policy st))) (jb_alerts u) (jb_alerts t)" by blast
  with one ih have "attended ses as_of st t" using attended_apart out by metis
  moreover have "apart fp (jb_alerts s) (jb_alerts t)"
    if "fp \<notin> (\<lambda>st. overdue_fingerprint (jp_job_name (ds_policy st))) ` set (st # sts)" for fp
    using that ih apart_trans [OF monitor_state_other [OF u(1) Cons.prems(2)]] by simp
  ultimately show ?case using one ih u(3) by simp
qed

text \<open>
  C14: an evaluation that returns lists the overdue jobs' alerts in the order of the due states; each overdue
  job then has an unresolved alert with a delivery for every current route that asks for it, and no other
  job has an unresolved alert left whose history precedes the evaluation.
\<close>

theorem monitor_overdue_exact:
  assumes "monitor_overdue tr ses draw as_of (job_calls ses cs empty_jobs) = (Inr alerts, t)"
  shows "\<exists>sts. due_states ses as_of (job_calls ses cs empty_jobs) = Inr sts \<and>
    map al_fingerprint alerts = map (\<lambda>st. overdue_fingerprint (jp_job_name (ds_policy st))) (filter ds_overdue sts) \<and>
    (\<forall>st \<in> set sts.
       if ds_overdue st
       then \<exists>a \<in> set (db_alerts (jb_alerts t)). unresolved (overdue_fingerprint (jp_job_name (ds_policy st))) a \<and>
              routed a (current_routes ses as_of t) t
       else settled_alert (jb_alerts t) (overdue_fingerprint (jp_job_name (ds_policy st))) as_of = None)"
proof -
  let ?s = "job_calls ses cs empty_jobs"
  have aw: "job_aware as_of ''job_due_time_must_be_timezone_aware'' = Inr ()"
    using assms by (auto simp: monitor_overdue_def split: sum.splits)
  have m: "monitor_body ses draw as_of ?s = (Inr alerts, t)"
    using assms by (simp add: monitor_overdue_def aw job_transaction_Inr)
  then obtain sts where sts: "due_states ses as_of ?s = Inr sts" "monitor_states ses draw as_of sts ?s = (Inr alerts, t)"
    by (auto simp: monitor_body_def split: sum.splits)
  have "due_jobs TxCommitted ses as_of ?s = (Inr sts, ?s)"
    using sts(1) aw by (simp add: due_jobs_def job_transaction_def)
  then have "distinct (map (\<lambda>st. jp_job_name (ds_policy st)) sts)" using due_jobs_distinct by blast
  note a = monitor_states_attend [OF sts(2) job_calls_alerts_ok this]
  show ?thesis
    by (rule exI [of _ sts]) (use a sts(1) in \<open>simp add: attended_def Let_def\<close>)
qed

theorem monitor_overdue_exact_witness:
  "\<exists>alerts t. monitor_overdue TxCommitted sample_session sample_draw (Aware 421000000 0)
       (job_calls sample_session sample_job_calls empty_jobs) = (Inr alerts, t) \<and>
     map al_fingerprint alerts = [overdue_fingerprint ''job'']"
proof -
  let ?m = "monitor_overdue TxCommitted sample_session sample_draw (Aware 421000000 0)
       (job_calls sample_session sample_job_calls empty_jobs)"
  let ?st = "overdue_state sample_job"
  let ?s = "empty_jobs\<lparr>jb_policies := [sample_job], jb_routes := [sample_route]\<rparr>"
  have "ok (fst (monitor_state sample_session (sample_draw ''job'') (Aware 421000000 0) ?st ?s))"
    by (simp add: overdue_state_def monitor_state_def bind_method_def on_alerts_def pg_raise_in_transaction_def overdue_request_def
        alert_fields_valid_def blank_iff is_space_def empty_jobs_def empty_alerts_def sample_draw_def)
      (simp add: enqueue_routes_def newest_per_name_def sample_route_def map_filter_simps newest_def
        keep_newer_def bind_method_def enqueue_route_def route_policy_from_row_def Let_def)
  then obtain xs u where u: "monitor_state sample_session (sample_draw ''job'') (Aware 421000000 0) ?st ?s = (Inr xs, u)"
    by (cases "monitor_state sample_session (sample_draw ''job'') (Aware 421000000 0) ?st ?s") (auto simp: ok_iff)
  have name: "jp_job_name sample_job = ''job''" by (simp add: sample_job_def)
  then have policy: "jp_job_name (ds_policy ?st) = ''job''" by (simp add: overdue_state_def)
  have "ok (fst ?m)"
    by (simp add: monitor_overdue_def job_aware_def job_transaction_def monitor_body_def sample_job_state sample_due
        bind_method_def policy u)
  then obtain alerts t where m: "?m = (Inr alerts, t)" by (cases ?m) (auto simp: ok_iff)
  show ?thesis using monitor_overdue_exact [OF m] m name by (auto simp: sample_job_state sample_due overdue_state_def)
qed

section \<open>Times the session reads differently\<close>

lemma traverse_error: "traverse f xs = Inl e \<Longrightarrow> \<exists>x \<in> set xs. f x = Inl e"
  by (induction xs) (auto simp: bind_result_def split: sum.splits)

lemma due_state_error:
  "due_state_of ses as_of s row = Inl e \<Longrightarrow> exc_class e \<in> {OperationalJobError, ArithmeticError}"
  by (auto simp: due_state_of_def policy_from_row_def evaluate_job_due_def validate_job_policy_def job_aware_def
      plus_seconds_def bind_result_def Let_def split: if_splits sum.splits option.splits)

lemma due_jobs_error:
  assumes "due_states ses as_of s = Inl e" "aware as_of"
  shows "due_jobs TxCommitted ses as_of s = (Inl (Exc PersistenceError ''operational_job_due_read_uncertain''), s)"
proof -
  obtain row where "due_state_of ses as_of s row = Inl e"
    using assms(1) traverse_error by (fastforce simp: due_states_def)
  then have "exc_class e \<in> {OperationalJobError, ArithmeticError}" by (rule due_state_error)
  then show ?thesis
    using assms by (cases e) (auto simp: due_jobs_def job_aware_def job_transaction_def job_exception_def)
qed

lemma canonical_get:
  "canonical p = canonical q \<Longrightarrow> (k, JStr x) \<in> set p \<Longrightarrow> \<exists>v. (k, v) \<in> set q \<and> json_sorted v = JStr x"
proof -
  assume "canonical p = canonical q" "(k, JStr x) \<in> set p"
  then have "(k, JStr x) \<in> map_prod id json_sorted ` set p" by force
  moreover have "map_prod id json_sorted ` set p = map_prod id json_sorted ` set q"
    using arg_cong [OF \<open>canonical p = canonical q\<close>, of set] by (simp add: canonical_def)
  ultimately show ?thesis by auto
qed

lemma json_sorted_JStr [simp]: "json_sorted v = JStr x \<longleftrightarrow> v = JStr x"
  by (cases v) simp_all

lemma job_policy_hash_time:
  assumes "inj sha" "job_policy_hash sha p = job_policy_hash sha q"
  shows "iso_datetime (jp_approved_at p) = iso_datetime (jp_approved_at q)"
proof -
  note c = injD [OF assms(1), OF assms(2) [unfolded job_policy_hash_def]]
  show ?thesis using canonical_get [OF c, of "''approved_at''" "iso_datetime (jp_approved_at p)"] by simp
qed

lemma map_filter_member: "x \<in> set (List.map_filter f xs) \<longleftrightarrow> (\<exists>y \<in> set xs. f y = Some x)"
  by (force simp: List.map_filter_def)

lemma newest_unique:
  assumes "r \<in> set rows" "\<forall>q \<in> set rows. q = r \<or> k q < k r" shows "newest k rows = Some r"
proof (cases "newest k rows")
  case (Some b)
  from newest_max [OF Some] assms show ?thesis by (metis Some leD)
qed (use assms in simp)

text \<open>
  C16: a policy is hashed over the text of its approval time as the operator gave it, and read back in the
  session's zone. One whose text the session writes differently is accepted; from its approval on, and
  until a newer version of the job is approved, every due read of every job fails, and so does appending it again.
\<close>

theorem foreign_offset_blocks_due_reads:
  assumes "inj (js_sha ses)"
    and "append_policy tr ses p s = (Inr p, t)"
    and "\<forall>r \<in> set (jb_policies s). jp_job_name r = jp_job_name p \<longrightarrow>
      jp_version r \<noteq> jp_version p \<and> instant (jp_approved_at r) < instant (jp_approved_at p)"
    and "iso_datetime (jp_approved_at p) \<noteq> iso_datetime (read_time ses (jp_approved_at p))"
    and "aware as_of" "instant (jp_approved_at p) \<le> instant as_of"
  shows "due_jobs TxCommitted ses as_of t = (Inl (Exc PersistenceError ''operational_job_due_read_uncertain''), t) \<and>
    append_policy TxCommitted ses p t = (Inl (job_error ''job_policy_hash_mismatch''), t)"
proof -
  define row where "row = p\<lparr>jp_approved_at := stored_time (jp_approved_at p)\<rparr>"
  have none: "find (\<lambda>r. jp_job_name r = jp_job_name p \<and> jp_version r = jp_version p) (jb_policies s) = None"
    using assms(3) by (auto simp: find_None_iff)
  have v: "validate_job_policy p = Inr ()" and h: "job_policy_hash (js_sha ses) p = jp_content_hash p"
    using assms(2) by (auto simp: append_policy_def split: sum.splits if_splits)
  have t: "t = s\<lparr>jb_policies := jb_policies s @ [row]\<rparr>"
    using assms(2) none v h
    by (auto simp: append_policy_def job_transaction_Inr append_policy_body_def insert_policy_def bind_method_Inr_iff row_def
        split: if_splits)
  let ?read = "row\<lparr>jp_approved_at := read_time ses (jp_approved_at row)\<rparr>"
  have time: "read_time ses (jp_approved_at row) = read_time ses (jp_approved_at p)"
    by (simp add: row_def read_time_def)
  have "job_policy_hash (js_sha ses) ?read \<noteq> job_policy_hash (js_sha ses) p"
    using job_policy_hash_time [of "js_sha ses" ?read p, OF assms(1)] assms(4) time by auto
  then have bad: "policy_from_row ses row = Inl (job_error ''job_policy_hash_mismatch'')"
    using h by (simp add: policy_from_row_def Let_def row_def)
  have found: "find (\<lambda>r. jp_job_name r = jp_job_name p \<and> jp_version r = jp_version p) (jb_policies s @ [row]) = Some row"
  proof -
    have "find P (xs @ [x]) = Some x" if "find P xs = None" "P x" for P and xs :: "job_policy list" and x
      using that by (induction xs) (auto split: if_splits)
    from this [OF none] show ?thesis by (simp add: row_def)
  qed
  have again: "append_policy TxCommitted ses p t = (Inl (job_error ''job_policy_hash_mismatch''), t)"
    by (simp add: append_policy_def v h t append_policy_body_def found bad job_transaction_def job_exception_def is_job_error_def)
  let ?rows = "newest_per_name (js_collate ses) jp_job_name jp_approved_at jp_policy_id as_of (jb_policies t)"
  have new: "newest (\<lambda>r. (instant (jp_approved_at r), jp_policy_id r))
      (filter (\<lambda>r. jp_job_name r = jp_job_name p) (filter (\<lambda>r. instant (jp_approved_at r) \<le> instant as_of) (jb_policies t))) = Some row"
    using assms(3,6) by (intro newest_unique) (auto simp: t row_def)
  have "jp_job_name p \<in> jp_job_name ` {r \<in> set (jb_policies t). instant (jp_approved_at r) \<le> instant as_of}"
    using assms(6) by (intro image_eqI [of _ _ row]) (simp_all add: t row_def)
  then have "row \<in> set ?rows"
    unfolding newest_per_name_def Let_def map_filter_member using new by (intro bexI [of _ "jp_job_name p"]) simp_all
  moreover have "due_state_of ses as_of t row = Inl (job_error ''job_policy_hash_mismatch'')"
    by (simp add: due_state_of_def bad)
  ultimately obtain e where "due_states ses as_of t = Inl e"
    unfolding due_states_def using traverse_Inl [of row ?rows "due_state_of ses as_of t"] by blast
  from due_jobs_error [OF this assms(5)] again show ?thesis by blast
qed

definition unary_session :: job_session where
  "unary_session = \<lparr>js_sha = unary_digest, js_zone = 0, js_collate = id\<rparr>"

definition foreign_policy :: job_policy where
  "foreign_policy =
     (let p = \<lparr>jp_policy_id = 7, jp_job_name = ''job'', jp_version = ''v1'', jp_interval_seconds = 300,
            jp_grace_seconds = 120, jp_owner = ''operations'', jp_runbook_uri = ''runbook'',
            jp_approved_by = ''operator'', jp_approved_at = Aware 7200000000 7200000000, jp_enabled = True,
            jp_content_hash = []\<rparr>
      in p\<lparr>jp_content_hash := job_policy_hash unary_digest p\<rparr>)"

theorem foreign_offset_blocks_due_reads_witness:
  "due_jobs TxCommitted unary_session (Aware 0 0) (snd (append_policy TxCommitted unary_session foreign_policy empty_jobs)) =
     (Inl (Exc PersistenceError ''operational_job_due_read_uncertain''),
      snd (append_policy TxCommitted unary_session foreign_policy empty_jobs))"
proof -
  have inj: "inj (js_sha unary_session)" by (simp add: unary_session_def inj_def unary_digest_inj)
  let ?a = "append_policy TxCommitted unary_session foreign_policy empty_jobs"
  have "validate_job_policy foreign_policy = Inr ()"
    by (simp add: validate_job_policy_def foreign_policy_def Let_def job_aware_def blank_iff is_space_def)
  moreover have "job_policy_hash unary_digest foreign_policy = jp_content_hash foreign_policy"
    by (simp add: foreign_policy_def Let_def job_policy_hash_def)
  moreover have "insert_policy foreign_policy empty_jobs =
      (Inr (), empty_jobs\<lparr>jb_policies := [foreign_policy\<lparr>jp_approved_at := stored_time (jp_approved_at foreign_policy)\<rparr>]\<rparr>)"
    by (simp add: insert_policy_def empty_jobs_def foreign_policy_def Let_def)
  moreover have "jb_policies empty_jobs = []" by (simp add: empty_jobs_def)
  ultimately have a: "?a = (Inr foreign_policy, snd ?a)"
    by (simp add: append_policy_def unary_session_def append_policy_body_def job_transaction_def bind_method_def)
  have differ: "iso_datetime (Aware 7200000000 7200000000) \<noteq> iso_datetime (Aware 0 0)"
  proof
    assume "iso_datetime (Aware 7200000000 7200000000) = iso_datetime (Aware 0 0)"
    then have "rev (iso_offset 7200000000) @ rev (iso_wall 7200000000) = rev (iso_offset 0) @ rev (iso_wall 0)"
      by (metis iso_datetime.simps(2) rev_append)
    moreover have "iso_offset 7200000000 = ''+02:00''" "iso_offset 0 = ''+00:00''" by code_simp+
    ultimately show False by simp
  qed
  show ?thesis
    using foreign_offset_blocks_due_reads [of unary_session TxCommitted foreign_policy empty_jobs "snd ?a" "Aware 0 0", OF inj a] differ
    by (simp add: empty_jobs_def foreign_policy_def Let_def read_time_def unary_session_def)
qed

end
