(* ===== verification/Scheduler.thy ===== *)
theory Scheduler
  imports JobMonitor
begin

text \<open>
  \<open>scheduler.py\<close> and the loop of \<open>worker_app.py\<close>: a worker that claims each due job by a session-level
  advisory lock, runs it, records the run and raises an alert for a failed one; the runners over the job
  and alert tables; what the locks guarantee, what a tick leaves behind, and what a due state read before
  another worker's run leads to.
\<close>

section \<open>Advisory locks\<close>

text \<open>
  The tables of jobs and alerts, those of the other stores a runner may touch, of a type of their own, and
  the session-level locks as pairs of session and key. A session may take a lock it holds once more.
\<close>

record 'x worker_state =
  wk_jobs :: job_db
  wk_other :: 'x
  wk_locks :: "(nat \<times> int) list"

definition lock_held :: "nat \<Rightarrow> int \<Rightarrow> (nat \<times> int) list \<Rightarrow> bool" where
  "lock_held me k locks \<longleftrightarrow> (\<exists>(w, j) \<in> set locks. j = k \<and> w \<noteq> me)"

definition take_lock :: "nat \<Rightarrow> int \<Rightarrow> (nat \<times> int) list \<Rightarrow> (nat \<times> int) list" where
  "take_lock me k locks = (if lock_held me k locks then locks else (me, k) # locks)"

definition drop_lock :: "nat \<Rightarrow> int \<Rightarrow> (nat \<times> int) list \<Rightarrow> (nat \<times> int) list" where
  "drop_lock me k locks = remove1 (me, k) locks"

text \<open>
  \<open>hashtext\<close> is the database's. Such a lock survives the transaction it is taken in: what a lost reply
  reports as failed has taken or released it.
\<close>

definition try_claim :: "tx \<Rightarrow> (string \<Rightarrow> int) \<Rightarrow> nat \<Rightarrow> string \<Rightarrow> ('x worker_state, bool) operation" where
  "try_claim tr hashtext me lock_key s =
     (if tr = TxRolledBack then (Inl transaction_failed, s)
      else (if tr = TxReplyLost then Inl transaction_failed
            else Inr (\<not> lock_held me (hashtext lock_key) (wk_locks s)),
            s\<lparr>wk_locks := take_lock me (hashtext lock_key) (wk_locks s)\<rparr>))"

definition release_lock :: "tx \<Rightarrow> (string \<Rightarrow> int) \<Rightarrow> nat \<Rightarrow> string \<Rightarrow> ('x worker_state, unit) operation" where
  "release_lock tr hashtext me lock_key s =
     (if tr = TxRolledBack then (Inl transaction_failed, s)
      else (if tr = TxReplyLost then Inl transaction_failed else Inr (),
            s\<lparr>wk_locks := drop_lock me (hashtext lock_key) (wk_locks s)\<rparr>))"

section \<open>Runners\<close>

text \<open>
  What a runner does: it returns a summary, raises \<open>JobExecutionFailed\<close> with its code and summary, or
  raises another exception, of which the name of the class and the text matter.
\<close>

datatype runner_outcome =
    Returned details
  | ExecutionFailed string details
  | Crashed string string

type_synonym 'x job_runner = "datetime \<Rightarrow> job_db \<times> 'x \<Rightarrow> runner_outcome \<times> job_db \<times> 'x"

text \<open>The name of the class, for the classes the two runners here let out.\<close>

definition class_name :: "exn_class \<Rightarrow> string" where
  "class_name c = (case c of
     OperationalJobError \<Rightarrow> ''OperationalJobError'' | AlertError \<Rightarrow> ''AlertError'' | KeyError \<Rightarrow> ''KeyError''
   | _ \<Rightarrow> ''PersistenceError'')"

definition crashed :: "py_exc \<Rightarrow> runner_outcome" where
  "crashed x = Crashed (class_name (exc_class x)) (exc_text x)"

definition raise_alert_call ::
  "tx \<Rightarrow> alert_env \<Rightarrow> datetime option \<Rightarrow> alert_request \<Rightarrow> (job_db, operational_alert) operation" where
  "raise_alert_call tr e oc q s =
     (if tr = TxRolledBack then (Inl transaction_failed, s)
      else on_alerts (pg_raise_alert (tr = TxReplyLost) e oc q) s)"

definition run_operational_job_monitor ::
  "tx \<Rightarrow> job_session \<Rightarrow> (string \<Rightarrow> monitor_draw) \<Rightarrow> 'x job_runner" where
  "run_operational_job_monitor tr ses draw as_of = (\<lambda>(j, x).
     case monitor_overdue tr ses draw as_of j of
       (Inl e, j1) \<Rightarrow> (crashed e, j1, x)
     | (Inr opened, j1) \<Rightarrow> (Returned [(''alerts_opened_or_resolved'', nat_str (length opened))], j1, x))"

text \<open>
  The probe: whether \<open>SELECT 1\<close> came back and in which time, and the draws of the alert it raises or of the
  transitions that resolve the alerts it had raised.
\<close>

record probe_draw =
  pd_probe :: tx
  pd_latency :: string
  pd_raise :: "tx \<times> alert_env"
  pd_active :: tx
  pd_resolve :: "uuid \<Rightarrow> tx \<times> alert_env"

definition probe_request :: alert_request where
  "probe_request =
     \<lparr>ar_source = ''postgres_dependency_probe'', ar_code = ''POSTGRES_DEPENDENCY_UNHEALTHY'', ar_severity = CRITICAL,
      ar_resource = ''postgres:primary'', ar_details = [(''reason'', ''PersistenceError'')]\<rparr>"

fun resolve_probe_alerts :: "probe_draw \<Rightarrow> uuid list \<Rightarrow> (job_db, unit) operation" where
  "resolve_probe_alerts d [] s = (Inr (), s)"
| "resolve_probe_alerts d (i # is) s =
     (case pd_resolve d i of
        (tr, e) \<Rightarrow>
          if tr = TxRolledBack then (Inl transaction_failed, s)
          else bind_method (on_alerts (pg_transition (tr = TxReplyLost) e i RESOLVED ''postgres_dependency_probe''
                 (Some [(''recovery'', ''probe_succeeded'')]))) (\<lambda>_. resolve_probe_alerts d is) s)"

definition run_postgres_dependency_probe :: "probe_draw \<Rightarrow> 'x job_runner" where
  "run_postgres_dependency_probe d as_of = (\<lambda>(j, x).
     if pd_probe d \<noteq> TxCommitted
     then case raise_alert_call (fst (pd_raise d)) (snd (pd_raise d)) (Some as_of) probe_request j of
         (Inl e, j1) \<Rightarrow> (crashed e, j1, x)
       | (Inr _, j1) \<Rightarrow> (crashed transaction_failed, j1, x)
     else if pd_active d \<noteq> TxCommitted then (crashed transaction_failed, j, x)
     else case resolve_probe_alerts d
              (map al_alert_id (filter (\<lambda>a. al_code a = ''POSTGRES_DEPENDENCY_UNHEALTHY'' \<and>
                 al_resource a = ''postgres:primary'') (pg_active_alerts (jb_alerts j)))) j of
         (Inl e, j1) \<Rightarrow> (crashed e, j1, x)
       | (Inr _, j1) \<Rightarrow> (Returned [(''latency_ms'', pd_latency d)], j1, x))"

section \<open>A tick\<close>

text \<open>What one execution draws: the fates of its transactions, the clock, and fresh identifiers.\<close>

record tick_draw =
  td_claim :: tx
  td_release :: tx
  td_started_at :: datetime
  td_completed_at :: datetime
  td_run_id :: uuid
  td_append :: tx
  td_raise :: "tx \<times> alert_env"

definition on_jobs :: "(job_db, 'a) operation \<Rightarrow> ('x worker_state, 'a) operation" where
  "on_jobs f s = (case f (wk_jobs s) of (r, j) \<Rightarrow> (r, s\<lparr>wk_jobs := j\<rparr>))"

definition lock_key :: "due_state \<Rightarrow> string" where
  "lock_key st = ''trade_platform:operational_job_run:'' @ jp_job_name (ds_policy st) @ '':'' @ iso_datetime (ds_due_at st)"

definition run_key :: "uuid \<Rightarrow> datetime \<Rightarrow> datetime \<Rightarrow> string" where
  "run_key policy_id scheduled_for started_at =
     uuid_str policy_id @ '':'' @ iso_datetime scheduled_for @ '':'' @ iso_datetime started_at"

fun outcome_evidence :: "runner_outcome \<Rightarrow> job_status \<times> details" where
  "outcome_evidence (Returned summary) = (SUCCEEDED, summary)"
| "outcome_evidence (ExecutionFailed code summary) =
     (FAILED, dict_set ''error'' (take 500 code) (dict_set ''error_type'' ''JobExecutionFailed'' summary))"
| "outcome_evidence (Crashed name message) = (FAILED, [(''error_type'', name), (''error'', take 500 message)])"

definition failed_request :: "string \<Rightarrow> details \<Rightarrow> string \<Rightarrow> alert_request" where
  "failed_request job_name summary key =
     \<lparr>ar_source = ''scheduler_worker'', ar_code = ''OPERATIONAL_JOB_EXECUTION_FAILED'', ar_severity = WARNING,
      ar_resource = ''job:'' @ job_name,
      ar_details = [(''error_type'', dict_get_or summary ''error_type'' []), (''idempotency_key'', key)]\<rparr>"

definition execute_job ::
  "job_session \<Rightarrow> tick_draw \<Rightarrow> uuid \<Rightarrow> string \<Rightarrow> datetime \<Rightarrow> 'x job_runner \<Rightarrow> datetime \<Rightarrow>
   ('x worker_state, job_run) operation" where
  "execute_job ses d policy_id job_name scheduled_for runner as_of s =
     (case runner as_of (wk_jobs s, wk_other s) of
        (out, j, x) \<Rightarrow>
          let s1 = s\<lparr>wk_jobs := j, wk_other := x\<rparr>;
              status = fst (outcome_evidence out);
              summary = snd (outcome_evidence out);
              key = run_key policy_id scheduled_for (td_started_at d)
          in case build_job_run (js_sha ses) (td_run_id d) policy_id key scheduled_for (td_started_at d)
                    (td_completed_at d) status summary of
               Inl e \<Rightarrow> (Inl e, s1)
             | Inr run \<Rightarrow>
                 bind_method (on_jobs (append_run (td_append d) ses run)) (\<lambda>recorded.
                   if status = FAILED
                   then bind_method (on_jobs (raise_alert_call (fst (td_raise d)) (snd (td_raise d)) (Some as_of)
                          (failed_request job_name summary key))) (\<lambda>_ t. (Inr recorded, t))
                   else (\<lambda>t. (Inr recorded, t))) s1)"

text \<open>One due state: the release runs whether or not the execution raised, and its own exception replaces the other.\<close>

definition run_state ::
  "(string \<Rightarrow> int) \<Rightarrow> nat \<Rightarrow> job_session \<Rightarrow> (string, 'x job_runner) dict \<Rightarrow> tick_draw \<Rightarrow> datetime \<Rightarrow> due_state \<Rightarrow>
   ('x worker_state, job_run list) operation" where
  "run_state hashtext me ses registry d as_of st s =
     (if \<not> ds_due st then (Inr [], s)
      else case dict_get registry (jp_job_name (ds_policy st)) of
        None \<Rightarrow> (Inr [], s)
      | Some runner \<Rightarrow>
          case try_claim (td_claim d) hashtext me (lock_key st) s of
            (Inl e, s1) \<Rightarrow> (Inl e, s1)
          | (Inr claimed, s1) \<Rightarrow>
              if \<not> claimed then (Inr [], s1)
              else case execute_job ses d (jp_policy_id (ds_policy st)) (jp_job_name (ds_policy st)) (ds_due_at st)
                          runner as_of s1 of
                (r, s2) \<Rightarrow>
                  case release_lock (td_release d) hashtext me (lock_key st) s2 of
                    (Inl e, s3) \<Rightarrow> (Inl e, s3)
                  | (Inr _, s3) \<Rightarrow> (map_sum id (\<lambda>run. [run]) r, s3))"

fun run_due_states ::
  "(string \<Rightarrow> int) \<Rightarrow> nat \<Rightarrow> job_session \<Rightarrow> (string, 'x job_runner) dict \<Rightarrow> (string \<Rightarrow> tick_draw) \<Rightarrow> datetime \<Rightarrow>
   due_state list \<Rightarrow> ('x worker_state, job_run list) operation" where
  "run_due_states hashtext me ses registry draw as_of [] s = (Inr [], s)"
| "run_due_states hashtext me ses registry draw as_of (st # sts) s =
     bind_method (run_state hashtext me ses registry (draw (jp_job_name (ds_policy st))) as_of st) (\<lambda>xs.
     bind_method (run_due_states hashtext me ses registry draw as_of sts) (\<lambda>ys t. (Inr (xs @ ys), t))) s"

definition run_tick ::
  "tx \<Rightarrow> (string \<Rightarrow> int) \<Rightarrow> nat \<Rightarrow> job_session \<Rightarrow> (string, 'x job_runner) dict \<Rightarrow> (string \<Rightarrow> tick_draw) \<Rightarrow> datetime \<Rightarrow>
   ('x worker_state, job_run list) operation" where
  "run_tick tr hashtext me ses registry draw as_of =
     bind_method (on_jobs (due_jobs tr ses as_of)) (run_due_states hashtext me ses registry draw as_of)"

section \<open>The loop of the worker process\<close>

record worker_runtime =
  wr_poll_seconds :: int
  wr_last_tick_at :: "datetime option"
  wr_last_tick_ok :: bool
  wr_stopping :: bool

text \<open>One pass of \<open>_loop\<close>: a failed tick is noted and the loop goes on.\<close>

definition loop_pass ::
  "(datetime \<Rightarrow> ('x worker_state, job_run list) operation) \<Rightarrow> datetime \<Rightarrow> worker_runtime \<times> 'x worker_state \<Rightarrow>
   worker_runtime \<times> 'x worker_state" where
  "loop_pass tick as_of = (\<lambda>(w, s).
     if wr_stopping w then (w, s)
     else case tick as_of s of
       (r, t) \<Rightarrow> (w\<lparr>wr_last_tick_ok := ok r, wr_last_tick_at := Some as_of\<rparr>, t))"

definition is_ready :: "datetime \<Rightarrow> worker_runtime \<Rightarrow> bool" where
  "is_ready now w =
     (case wr_last_tick_at w of
        None \<Rightarrow> False
      | Some t \<Rightarrow> instant now - instant t \<le> seconds (wr_poll_seconds w * 3))"

section \<open>What the locks promise\<close>

text \<open>
  The contract: taking a key leaves the holders of every other key; it succeeds only when nobody else holds
  the key, and then its holder is the session; giving a key back adds no holder.
\<close>

locale session_locks =
  fixes claim :: "'w \<Rightarrow> 'k \<Rightarrow> 's \<Rightarrow> 's"
    and give_back :: "'w \<Rightarrow> 'k \<Rightarrow> 's \<Rightarrow> 's"
    and holders :: "'s \<Rightarrow> 'k \<Rightarrow> 'w set"
  assumes claim_law: "holders (claim w k s) = holders s \<or>
      holders s k \<subseteq> {w} \<and> holders (claim w k s) = (holders s)(k := {w})"
    and give_back_law: "holders (give_back w k s) j \<subseteq> holders s j"
begin

definition one_holder :: "'s \<Rightarrow> bool" where
  "one_holder s \<longleftrightarrow> (\<forall>k. \<forall>v \<in> holders s k. \<forall>w \<in> holders s k. v = w)"

lemma claim_exclusive: "one_holder s \<Longrightarrow> one_holder (claim w k s)"
  using claim_law [of w k s] by (auto simp: one_holder_def split: if_splits)

lemma give_back_exclusive: "one_holder s \<Longrightarrow> one_holder (give_back w k s)"
  using give_back_law [of w k s] unfolding one_holder_def by blast

lemma calls_exclusive:
  "one_holder s \<Longrightarrow> one_holder (fold (\<lambda>(b, w, k). if b then claim w k else give_back w k) cs s)"
proof (induction cs arbitrary: s)
  case Nil
  then show ?case by simp
next
  case (Cons c cs)
  obtain b w k where c: "c = (b, w, k)" by (cases c)
  show ?case
    by (cases b) (simp_all add: c Cons claim_exclusive give_back_exclusive)
qed

end

definition lock_holders :: "(nat \<times> int) list \<Rightarrow> int \<Rightarrow> nat set" where
  "lock_holders locks k = {w. (w, k) \<in> set locks}"

interpretation advisory: session_locks take_lock drop_lock lock_holders
proof unfold_locales
  fix w k s
  show "lock_holders (take_lock w k s) = lock_holders s \<or>
      lock_holders s k \<subseteq> {w} \<and> lock_holders (take_lock w k s) = (lock_holders s)(k := {w})"
    by (cases "lock_held w k s") (auto simp: take_lock_def lock_holders_def lock_held_def fun_eq_iff)
next
  fix w k s j
  show "lock_holders (drop_lock w k s) j \<subseteq> lock_holders s j"
    using set_remove1_subset [of "(w, k)" s] by (auto simp: drop_lock_def lock_holders_def)
qed

text \<open>The lock table of a worker, before and after each operation.\<close>

definition locks_call :: "nat \<Rightarrow> (nat \<times> int) list \<Rightarrow> (nat \<times> int) list \<Rightarrow> bool" where
  "locks_call me l m \<longleftrightarrow>
     (\<exists>cs. m = fold (\<lambda>(b, w, k). if b then take_lock w k else drop_lock w k) cs l \<and> (\<forall>(b, w, k) \<in> set cs. w = me))"

lemma locks_call_refl [simp]: "locks_call me l l"
  unfolding locks_call_def by (rule exI [of _ "[]"]) simp

lemma locks_call_trans: "locks_call me l m \<Longrightarrow> locks_call me m n \<Longrightarrow> locks_call me l n"
  unfolding locks_call_def
proof (elim exE conjE)
  fix cs ds
  assume "m = fold (\<lambda>(b, w, k). if b then take_lock w k else drop_lock w k) cs l" "\<forall>(b, w, k) \<in> set cs. w = me"
    "n = fold (\<lambda>(b, w, k). if b then take_lock w k else drop_lock w k) ds m" "\<forall>(b, w, k) \<in> set ds. w = me"
  then show "\<exists>cs. n = fold (\<lambda>(b, w, k). if b then take_lock w k else drop_lock w k) cs l \<and> (\<forall>(b, w, k) \<in> set cs. w = me)"
    by (intro exI [of _ "cs @ ds"]) auto
qed

lemma locks_call_take: "locks_call me l (take_lock me k l)"
  unfolding locks_call_def by (rule exI [of _ "[(True, me, k)]"]) simp

lemma locks_call_drop: "locks_call me l (drop_lock me k l)"
  unfolding locks_call_def by (rule exI [of _ "[(False, me, k)]"]) simp

lemma try_claim_locks: "try_claim tr h me key s = (r, t) \<Longrightarrow> locks_call me (wk_locks s) (wk_locks t)"
  by (auto simp: try_claim_def intro: locks_call_take split: if_splits)

lemma release_lock_locks: "release_lock tr h me key s = (r, t) \<Longrightarrow> locks_call me (wk_locks s) (wk_locks t)"
  by (auto simp: release_lock_def intro: locks_call_drop split: if_splits)

lemma on_jobs_locks: "on_jobs f s = (r, t) \<Longrightarrow> wk_locks t = wk_locks s"
  by (auto simp: on_jobs_def split: prod.splits)

lemma execute_job_locks: "execute_job ses d i n t0 runner as_of s = (r, t) \<Longrightarrow> wk_locks t = wk_locks s"
  by (auto simp: execute_job_def Let_def bind_method_def split: prod.splits sum.splits if_splits dest!: on_jobs_locks)

lemma run_state_locks:
  assumes "run_state h me ses registry d as_of st s = (r, t)"
  shows "locks_call me (wk_locks s) (wk_locks t)"
proof (cases "ds_due st \<and> dict_get registry (jp_job_name (ds_policy st)) \<noteq> None")
  case True
  then obtain runner where g: "ds_due st" "dict_get registry (jp_job_name (ds_policy st)) = Some runner" by blast
  obtain c s1 where c: "try_claim (td_claim d) h me (lock_key st) s = (c, s1)" by fastforce
  note l1 = try_claim_locks [OF c]
  show ?thesis
  proof (cases "c = Inr True")
    case True
    obtain q s2 where e: "execute_job ses d (jp_policy_id (ds_policy st)) (jp_job_name (ds_policy st)) (ds_due_at st)
        runner as_of s1 = (q, s2)" by fastforce
    obtain z s3 where z: "release_lock (td_release d) h me (lock_key st) s2 = (z, s3)" by fastforce
    have "t = s3" using assms g c True e z by (auto simp: run_state_def split: sum.splits)
    then show ?thesis
      using locks_call_trans [OF l1] release_lock_locks [OF z] execute_job_locks [OF e] by simp
  next
    case False
    then have "t = s1" using assms g c by (auto simp: run_state_def split: sum.splits)
    then show ?thesis using l1 by simp
  qed
next
  case False
  then have "t = s" using assms by (auto simp: run_state_def split: option.splits)
  then show ?thesis by simp
qed

lemma run_due_states_locks:
  "run_due_states h me ses registry draw as_of sts s = (r, t) \<Longrightarrow> locks_call me (wk_locks s) (wk_locks t)"
proof (induction sts arbitrary: s r t)
  case Nil
  then show ?case by simp
next
  case (Cons st sts)
  obtain q u where u: "run_state h me ses registry (draw (jp_job_name (ds_policy st))) as_of st s = (q, u)" by fastforce
  obtain q' u' where u': "run_due_states h me ses registry draw as_of sts u = (q', u')" by fastforce
  have "t = u \<or> t = u'" using Cons.prems u u' by (auto simp: bind_method_def split: sum.splits)
  then show ?case
    using run_state_locks [OF u] locks_call_trans Cons.IH [OF u'] by blast
qed

lemma run_tick_locks:
  assumes "run_tick tr h me ses registry draw as_of s = (r, t)" shows "locks_call me (wk_locks s) (wk_locks t)"
proof -
  obtain q u where u: "on_jobs (due_jobs tr ses as_of) s = (q, u)" by fastforce
  show ?thesis
  proof (cases q)
    case (Inl e)
    then show ?thesis using assms u on_jobs_locks [OF u] by (simp add: run_tick_def bind_method_def)
  next
    case (Inr sts)
    then have "run_due_states h me ses registry draw as_of sts u = (r, t)"
      using assms u by (simp add: run_tick_def bind_method_def)
    from run_due_states_locks [OF this] show ?thesis by (simp add: on_jobs_locks [OF u])
  qed
qed

text \<open>What a session holds, only that session gives back.\<close>

lemma locks_call_other:
  assumes "locks_call me l m" "w \<noteq> me" "(w, k) \<in> set l" shows "(w, k) \<in> set m"
proof -
  have "(w, k) \<in> set l \<Longrightarrow> \<forall>(b, v, j) \<in> set cs. v = me \<Longrightarrow>
      (w, k) \<in> set (fold (\<lambda>(b, w, k). if b then take_lock w k else drop_lock w k) cs l)" for cs l
    using assms(2) by (induction cs arbitrary: l) (auto simp: take_lock_def drop_lock_def)
  then show ?thesis using assms(1,3) unfolding locks_call_def by blast
qed

lemma locks_call_exclusive: "advisory.one_holder l \<Longrightarrow> locks_call me l m \<Longrightarrow> advisory.one_holder m"
  unfolding locks_call_def using advisory.calls_exclusive by blast

text \<open>Unless a reply about a claim is lost or a release fails, a worker's locks are as before, whatever its runners do.\<close>

definition locks_answered :: "tick_draw \<Rightarrow> bool" where
  "locks_answered d \<longleftrightarrow> td_claim d \<noteq> TxReplyLost \<and> td_release d \<noteq> TxRolledBack"

lemma run_state_restores:
  assumes "run_state h me ses registry d as_of st s = (r, t)" "locks_answered d"
  shows "wk_locks t = wk_locks s"
proof (cases "ds_due st \<and> dict_get registry (jp_job_name (ds_policy st)) \<noteq> None")
  case True
  then obtain runner where g: "ds_due st" "dict_get registry (jp_job_name (ds_policy st)) = Some runner" by blast
  obtain c s1 where c: "try_claim (td_claim d) h me (lock_key st) s = (c, s1)" by fastforce
  show ?thesis
  proof (cases "c = Inr True")
    case True
    then have l1: "wk_locks s1 = (me, h (lock_key st)) # wk_locks s"
      using c by (auto simp: try_claim_def take_lock_def split: if_splits)
    obtain q s2 where e: "execute_job ses d (jp_policy_id (ds_policy st)) (jp_job_name (ds_policy st)) (ds_due_at st)
        runner as_of s1 = (q, s2)" by fastforce
    obtain z s3 where z: "release_lock (td_release d) h me (lock_key st) s2 = (z, s3)" by fastforce
    have "t = s3" using assms(1) g c True e z by (auto simp: run_state_def split: sum.splits)
    then show ?thesis
      using z l1 execute_job_locks [OF e] assms(2)
      by (auto simp: release_lock_def drop_lock_def locks_answered_def split: if_splits)
  next
    case False
    then have "t = s1" using assms(1) g c by (auto simp: run_state_def split: sum.splits)
    then show ?thesis using c False assms(2)
      by (auto simp: try_claim_def take_lock_def locks_answered_def split: if_splits)
  qed
next
  case False
  then show ?thesis using assms(1) by (auto simp: run_state_def split: option.splits)
qed

lemma run_due_states_restore:
  "run_due_states h me ses registry draw as_of sts s = (r, t) \<Longrightarrow> \<forall>n. locks_answered (draw n) \<Longrightarrow> wk_locks t = wk_locks s"
proof (induction sts arbitrary: s r t)
  case Nil
  then show ?case by simp
next
  case (Cons st sts)
  obtain q u where u: "run_state h me ses registry (draw (jp_job_name (ds_policy st))) as_of st s = (q, u)" by fastforce
  obtain q' u' where u': "run_due_states h me ses registry draw as_of sts u = (q', u')" by fastforce
  have "t = u \<or> t = u'" using Cons.prems(1) u u' by (auto simp: bind_method_def split: sum.splits)
  then show ?case
    using run_state_restores [OF u] Cons.IH [OF u'] Cons.prems(2) by auto
qed

lemma run_tick_restores:
  assumes "run_tick tr h me ses registry draw as_of s = (r, t)" "\<forall>n. locks_answered (draw n)"
  shows "wk_locks t = wk_locks s"
proof -
  obtain q u where u: "on_jobs (due_jobs tr ses as_of) s = (q, u)" by fastforce
  show ?thesis
    using assms u on_jobs_locks [OF u] run_due_states_restore [of h me ses registry draw as_of _ u r t]
    by (cases q) (simp_all add: run_tick_def bind_method_def)
qed

text \<open>Ticks of several workers, one after another.\<close>

record 'x tick =
  tk_worker :: nat
  tk_read :: tx
  tk_registry :: "(string, 'x job_runner) dict"
  tk_draw :: "string \<Rightarrow> tick_draw"
  tk_as_of :: datetime

definition do_tick :: "(string \<Rightarrow> int) \<Rightarrow> job_session \<Rightarrow> 'x tick \<Rightarrow> 'x worker_state \<Rightarrow> 'x worker_state" where
  "do_tick h ses k s = snd (run_tick (tk_read k) h (tk_worker k) ses (tk_registry k) (tk_draw k) (tk_as_of k) s)"

lemma do_tick_locks: "locks_call (tk_worker k) (wk_locks s) (wk_locks (do_tick h ses k s))"
  unfolding do_tick_def by (rule run_tick_locks [OF prod.collapse [symmetric]])

definition sample_tick :: tick_draw where
  "sample_tick = \<lparr>td_claim = TxCommitted, td_release = TxCommitted, td_started_at = Aware 421000000 0,
     td_completed_at = Aware 422000000 0, td_run_id = 11, td_append = TxCommitted,
     td_raise = (TxCommitted, \<lparr>le_alert_id = 1, le_event_id = 2, le_now = Aware 0 0, le_event_now = Aware 0 0\<rparr>)\<rparr>"

text \<open>
  C17: while a worker executes a due occurrence, that is after its claim succeeded and before it released,
  and whatever ticks other workers run meanwhile, another worker neither runs that occurrence nor changes
  anything for it; no key ever has two holders; and a tick, whether it returns or raises, leaves the lock
  table as it was unless the reply to a claim is lost or a release fails.
\<close>

theorem occurrence_runs_exclusively:
  assumes "try_claim tr h me (lock_key st) s = (Inr True, s1)" "\<forall>k. \<forall>v w. (v, k) \<in> set (wk_locks s) \<and> (w, k) \<in> set (wk_locks s) \<longrightarrow> v = w"
    and "\<forall>k \<in> set ks. tk_worker k \<noteq> me" "other \<noteq> me"
  shows "run_state h other ses registry d as_of st (fold (do_tick h ses') ks s1)
      \<in> {(Inr [], fold (do_tick h ses') ks s1), (Inl transaction_failed, fold (do_tick h ses') ks s1)} \<and>
    (\<forall>k v w. (v, k) \<in> set (wk_locks (fold (do_tick h ses') ks s1)) \<and> (w, k) \<in> set (wk_locks (fold (do_tick h ses') ks s1)) \<longrightarrow> v = w) \<and>
    (\<forall>k \<in> set ks. (\<forall>n. locks_answered (tk_draw k n)) \<longrightarrow> (\<forall>u. wk_locks (do_tick h ses' k u) = wk_locks u))"
proof -
  let ?u = "fold (do_tick h ses') ks s1"
  have one: "advisory.one_holder l \<longleftrightarrow> (\<forall>k v w. (v, k) \<in> set l \<and> (w, k) \<in> set l \<longrightarrow> v = w)" for l
    by (auto simp: advisory.one_holder_def lock_holders_def)
  have start: "(me, h (lock_key st)) \<in> set (wk_locks s1) \<and> advisory.one_holder (wk_locks s1)"
  proof
    show "(me, h (lock_key st)) \<in> set (wk_locks s1)"
      using assms(1) by (auto simp: try_claim_def take_lock_def split: if_splits)
    show "advisory.one_holder (wk_locks s1)"
      by (rule locks_call_exclusive [OF _ try_claim_locks [OF assms(1)]]) (use assms(2) in \<open>simp add: one\<close>)
  qed
  have "(me, h (lock_key st)) \<in> set (wk_locks (fold (do_tick h ses') js x)) \<and> advisory.one_holder (wk_locks (fold (do_tick h ses') js x))"
    if "(me, h (lock_key st)) \<in> set (wk_locks x) \<and> advisory.one_holder (wk_locks x)" "\<forall>k \<in> set js. tk_worker k \<noteq> me" for js x
    using that
  proof (induction js arbitrary: x)
    case (Cons k js)
    have "(me, h (lock_key st)) \<in> set (wk_locks (do_tick h ses' k x)) \<and> advisory.one_holder (wk_locks (do_tick h ses' k x))"
      using Cons.prems locks_call_other [OF do_tick_locks] locks_call_exclusive [OF _ do_tick_locks] by (metis list.set_intros(1))
    with Cons show ?case by simp
  qed simp
  from this [OF start assms(3)] have u: "(me, h (lock_key st)) \<in> set (wk_locks ?u)" "advisory.one_holder (wk_locks ?u)" by blast+
  have "lock_held other (h (lock_key st)) (wk_locks ?u)" using u(1) assms(4) by (auto simp: lock_held_def)
  then have "run_state h other ses registry d as_of st ?u \<in> {(Inr [], ?u), (Inl transaction_failed, ?u)}"
    by (auto simp: run_state_def try_claim_def take_lock_def split: option.splits)
  moreover have "wk_locks (do_tick h ses' k x) = wk_locks x" if "\<forall>n. locks_answered (tk_draw k n)" for k x
    unfolding do_tick_def by (rule run_tick_restores [OF prod.collapse [symmetric] that])
  ultimately show ?thesis using u(2) unfolding one by blast
qed

theorem occurrence_runs_exclusively_witness:
  "run_state (\<lambda>_. 5) 2 sample_session [] sample_tick (Aware 0 0) (overdue_state sample_job)
     (snd (try_claim TxCommitted (\<lambda>_. 5) 7 (lock_key (overdue_state sample_job))
        \<lparr>wk_jobs = empty_jobs, wk_other = (), wk_locks = [(3, 4)]\<rparr>)) \<in>
   {(Inr [], \<lparr>wk_jobs = empty_jobs, wk_other = (), wk_locks = [(7, 5), (3, 4)]\<rparr>),
    (Inl transaction_failed, \<lparr>wk_jobs = empty_jobs, wk_other = (), wk_locks = [(7, 5), (3, 4)]\<rparr>)}"
proof -
  have c: "try_claim TxCommitted (\<lambda>_. 5) 7 (lock_key (overdue_state sample_job))
      \<lparr>wk_jobs = empty_jobs, wk_other = (), wk_locks = [(3, 4)]\<rparr> =
      (Inr True, \<lparr>wk_jobs = empty_jobs, wk_other = (), wk_locks = [(7, 5), (3, 4)]\<rparr>)"
    by (simp add: try_claim_def take_lock_def lock_held_def)
  show ?thesis
    using occurrence_runs_exclusively [OF c, of "[]" 2 sample_session "[]" sample_tick "Aware 0 0" sample_session] by (simp add: c)
qed

section \<open>What a tick leaves behind\<close>

text \<open>A runner that takes no evidence away.\<close>

definition runner_keeps :: "'x job_runner \<Rightarrow> bool" where
  "runner_keeps runner \<longleftrightarrow> (\<forall>t j x. keeps j (fst (snd (runner t (j, x)))))"

lemma monitor_overdue_keeps: "keeps s (snd (monitor_overdue tr ses draw t s))"
  using job_call_step_keeps [of s ses tr "MonitorOverdue t draw"] by simp

lemma raise_alert_call_keeps: "keeps s (snd (raise_alert_call tr e oc q s))"
proof (cases "tr = TxRolledBack")
  case False
  then show ?thesis using job_call_step_keeps [of s undefined tr "RaiseAlert e oc q"] by (simp add: raise_alert_call_def)
qed (simp add: raise_alert_call_def)

lemma resolve_probe_alerts_keeps: "keeps s (snd (resolve_probe_alerts d is s))"
proof (induction "is" arbitrary: s)
  case Nil
  then show ?case by simp
next
  case (Cons i "is")
  obtain tr e where e: "pd_resolve d i = (tr, e)" by fastforce
  let ?m = "on_alerts (pg_transition (tr = TxReplyLost) e i RESOLVED ''postgres_dependency_probe''
                 (Some [(''recovery'', ''probe_succeeded'')])) s"
  have m: "keeps s (snd ?m)" if "tr \<noteq> TxRolledBack"
    using job_call_step_keeps [of s undefined tr "MoveAlert e i RESOLVED ''postgres_dependency_probe''
        (Some [(''recovery'', ''probe_succeeded'')])"] that by simp
  show ?case
    using m Cons [of "snd ?m"] by (auto simp: e bind_method_fst split: sum.splits intro: keeps_trans)
qed

lemma monitor_runner_keeps: "runner_keeps (run_operational_job_monitor tr ses draw)"
  unfolding runner_keeps_def
proof (intro allI)
  fix t j and x :: 'a
  show "keeps j (fst (snd (run_operational_job_monitor tr ses draw t (j, x))))"
    using monitor_overdue_keeps [of j tr ses draw t]
    by (cases "monitor_overdue tr ses draw t j") (auto simp: run_operational_job_monitor_def split: sum.splits)
qed

lemma probe_keeps: "runner_keeps (run_postgres_dependency_probe d)"
  unfolding runner_keeps_def
proof (intro allI)
  fix t j and x :: 'a
  show "keeps j (fst (snd (run_postgres_dependency_probe d t (j, x))))"
  proof (cases "pd_probe d = TxCommitted")
    case False
    then show ?thesis
      using raise_alert_call_keeps [of j "fst (pd_raise d)" "snd (pd_raise d)" "Some t" probe_request]
      by (cases "raise_alert_call (fst (pd_raise d)) (snd (pd_raise d)) (Some t) probe_request j")
        (auto simp: run_postgres_dependency_probe_def split: sum.splits)
  next
    case True
    let ?is = "map al_alert_id (filter (\<lambda>a. al_code a = ''POSTGRES_DEPENDENCY_UNHEALTHY'' \<and>
        al_resource a = ''postgres:primary'') (pg_active_alerts (jb_alerts j)))"
    from True show ?thesis
      using resolve_probe_alerts_keeps [of j d ?is]
      by (cases "resolve_probe_alerts d ?is j") (auto simp: run_postgres_dependency_probe_def split: sum.splits)
  qed
qed



definition failure_fingerprint :: "string \<Rightarrow> string" where
  "failure_fingerprint job_name = ''scheduler_worker:OPERATIONAL_JOB_EXECUTION_FAILED:job:'' @ job_name"







lemma failed_fingerprint [simp]: "request_fingerprint (failed_request n d k) = failure_fingerprint n"
  by (simp add: request_fingerprint_def failed_request_def fingerprint_of_def failure_fingerprint_def)







section \<open>A due state read too early\<close>

text \<open>An execution without failures whose clock is in order.\<close>

definition clean_draw :: "due_state \<Rightarrow> tick_draw \<Rightarrow> bool" where
  "clean_draw st d \<longleftrightarrow> td_claim d = TxCommitted \<and> td_release d = TxCommitted \<and> td_append d = TxCommitted \<and>
     aware (ds_due_at st) \<and> aware (td_started_at d) \<and> aware (td_completed_at d) \<and>
     instant (ds_due_at st) \<le> instant (td_started_at d) \<and> instant (td_started_at d) \<le> instant (td_completed_at d)"

definition planned_run :: "job_session \<Rightarrow> due_state \<Rightarrow> tick_draw \<Rightarrow> details \<Rightarrow> job_run" where
  "planned_run ses st d summary =
     (let r = \<lparr>jr_run_id = td_run_id d, jr_policy_id = jp_policy_id (ds_policy st),
        jr_idempotency_key = run_key (jp_policy_id (ds_policy st)) (ds_due_at st) (td_started_at d),
        jr_scheduled_for = ds_due_at st, jr_started_at = td_started_at d, jr_completed_at = td_completed_at d,
        jr_status = SUCCEEDED, jr_summary = summary, jr_content_hash = []\<rparr>
      in r\<lparr>jr_content_hash := job_run_hash (js_sha ses) r\<rparr>)"

definition stored_run :: "job_run \<Rightarrow> job_run" where
  "stored_run r = r\<lparr>jr_scheduled_for := stored_time (jr_scheduled_for r), jr_started_at := stored_time (jr_started_at r),
     jr_completed_at := stored_time (jr_completed_at r)\<rparr>"

definition quiet_runner :: "details \<Rightarrow> 'x job_runner" where
  "quiet_runner summary t = (\<lambda>(j, x). (Returned summary, j, x))"

lemma run_key_not_blank: "\<not> blank (run_key i a b)"
proof -
  have "CHR '':'' \<in> set (run_key i a b)" "\<not> is_space CHR '':''" by (simp_all add: run_key_def is_space_def)
  then show ?thesis unfolding blank_iff by blast
qed

lemma planned_run_fields [simp]:
  "jr_run_id (planned_run ses st d su) = td_run_id d"
  "jr_policy_id (planned_run ses st d su) = jp_policy_id (ds_policy st)"
  "jr_idempotency_key (planned_run ses st d su) = run_key (jp_policy_id (ds_policy st)) (ds_due_at st) (td_started_at d)"
  "jr_scheduled_for (planned_run ses st d su) = ds_due_at st" "jr_status (planned_run ses st d su) = SUCCEEDED"
  by (simp_all add: planned_run_def Let_def)

lemma planned_run_built:
  assumes "clean_draw st d"
  shows "build_job_run (js_sha ses) (td_run_id d) (jp_policy_id (ds_policy st))
      (run_key (jp_policy_id (ds_policy st)) (ds_due_at st) (td_started_at d)) (ds_due_at st) (td_started_at d)
      (td_completed_at d) SUCCEEDED su = Inr (planned_run ses st d su)"
    and "validate_job_run (planned_run ses st d su) = Inr ()"
    and "job_run_hash (js_sha ses) (planned_run ses st d su) = jr_content_hash (planned_run ses st d su)"
proof -
  show v: "validate_job_run (planned_run ses st d su) = Inr ()"
    using assms run_key_not_blank by (simp add: validate_job_run_def planned_run_def Let_def job_aware_def clean_draw_def)
  then show "build_job_run (js_sha ses) (td_run_id d) (jp_policy_id (ds_policy st))
      (run_key (jp_policy_id (ds_policy st)) (ds_due_at st) (td_started_at d)) (ds_due_at st) (td_started_at d)
      (td_completed_at d) SUCCEEDED su = Inr (planned_run ses st d su)"
    by (simp add: build_job_run_def planned_run_def Let_def)
  show "job_run_hash (js_sha ses) (planned_run ses st d su) = jr_content_hash (planned_run ses st d su)"
    by (simp add: planned_run_def Let_def job_run_hash_def)
qed

lemma run_state_success:
  assumes "ds_due st" "dict_get registry (jp_job_name (ds_policy st)) = Some (quiet_runner su)" "clean_draw st d"
    and "\<not> lock_held me (h (lock_key st)) (wk_locks s)"
    and "jp_policy_id (ds_policy st) \<in> jp_policy_id ` set (jb_policies (wk_jobs s))"
    and "\<forall>q \<in> set (jb_runs (wk_jobs s)). jr_idempotency_key q \<noteq> run_key (jp_policy_id (ds_policy st)) (ds_due_at st) (td_started_at d) \<and>
      jr_run_id q \<noteq> td_run_id d \<and> jr_content_hash q \<noteq> jr_content_hash (planned_run ses st d su)"
  shows "run_state h me ses registry d t st s =
    (Inr [planned_run ses st d su],
     s\<lparr>wk_jobs := (wk_jobs s)\<lparr>jb_runs := jb_runs (wk_jobs s) @ [stored_run (planned_run ses st d su)]\<rparr>\<rparr>)"
proof -
  let ?r = "planned_run ses st d su"
  let ?j = "(wk_jobs s)\<lparr>jb_runs := jb_runs (wk_jobs s) @ [stored_run ?r]\<rparr>"
  note c = assms(3) [unfolded clean_draw_def] and b = planned_run_built [OF assms(3)]
  have none: "find (\<lambda>q. jr_idempotency_key q = jr_idempotency_key ?r) (jb_runs (wk_jobs s)) = None"
    using assms(6) by (auto simp: find_None_iff)
  note none = none [simplified]
  have ins: "insert_run ?r (wk_jobs s) = (Inr (), ?j)"
    using assms(5,6) by (auto simp: insert_run_def stored_run_def)
  have app: "append_run TxCommitted ses ?r (wk_jobs s) = (Inr ?r, ?j)"
    by (simp add: append_run_def b(2,3) append_run_body_def none bind_method_def ins job_transaction_def)
  show ?thesis
    using assms(1,2,4) c
    by (simp add: run_state_def try_claim_def take_lock_def execute_job_def quiet_runner_def Let_def b(1) bind_method_def
        on_jobs_def app release_lock_def drop_lock_def)
qed

lemma job_run_hash_key:
  assumes "inj sha" "job_run_hash sha r = job_run_hash sha q"
  shows "jr_idempotency_key r = jr_idempotency_key q"
proof -
  note c = injD [OF assms(1), OF assms(2) [unfolded job_run_hash_def]]
  show ?thesis using canonical_get [OF c, of "''idempotency_key''" "jr_idempotency_key r"] by simp
qed

text \<open>
  C19: the due state is not read again after the claim. Two workers that read the same due occurrence before
  either ran it both run it, one after the other, and both runs are recorded as succeeded for the same
  policy and the same scheduled time.
\<close>

theorem stale_due_state_runs_again:
  assumes "inj (js_sha ses)" "ds_due st" "dict_get registry (jp_job_name (ds_policy st)) = Some (quiet_runner su)"
    and "jp_policy_id (ds_policy st) \<in> jp_policy_id ` set (jb_policies (wk_jobs s))"
    and "jb_runs (wk_jobs s) = []" "wk_locks s = []"
    and "clean_draw st d1" "clean_draw st d2" "td_run_id d1 \<noteq> td_run_id d2"
    and "iso_datetime (td_started_at d1) \<noteq> iso_datetime (td_started_at d2)"
  shows "\<exists>r1 r2 s1 s2. run_state h a ses registry d1 t1 st s = (Inr [r1], s1) \<and>
    run_state h b ses registry d2 t2 st s1 = (Inr [r2], s2) \<and>
    map (\<lambda>r. (jr_policy_id r, instant (jr_scheduled_for r), jr_status r)) (jb_runs (wk_jobs s2)) =
      replicate 2 (jp_policy_id (ds_policy st), instant (ds_due_at st), SUCCEEDED)"
proof -
  let ?r1 = "planned_run ses st d1 su" and ?r2 = "planned_run ses st d2 su"
  let ?s1 = "s\<lparr>wk_jobs := (wk_jobs s)\<lparr>jb_runs := [stored_run ?r1]\<rparr>\<rparr>"
  have one: "run_state h a ses registry d1 t1 st s = (Inr [?r1], ?s1)"
    using run_state_success [OF assms(2,3,7), of a h s ses t1] assms(4-6) by (simp add: lock_held_def)
  have key: "jr_idempotency_key ?r1 \<noteq> jr_idempotency_key ?r2" using assms(10) by (simp add: run_key_def)
  then have hash: "jr_content_hash ?r1 \<noteq> jr_content_hash ?r2"
    using job_run_hash_key [OF assms(1)] planned_run_built(3) [OF assms(7), of ses su] planned_run_built(3) [OF assms(8), of ses su]
    by metis
  have two: "run_state h b ses registry d2 t2 st ?s1 =
      (Inr [?r2], ?s1\<lparr>wk_jobs := (wk_jobs ?s1)\<lparr>jb_runs := jb_runs (wk_jobs ?s1) @ [stored_run ?r2]\<rparr>\<rparr>)"
    using assms(4-6,9) key hash
    by (intro run_state_success [OF assms(2,3,8)]) (auto simp: lock_held_def stored_run_def)
  show ?thesis
    by (rule exI [of _ ?r1], rule exI [of _ ?r2], rule exI [of _ ?s1],
        rule exI [of _ "?s1\<lparr>wk_jobs := (wk_jobs ?s1)\<lparr>jb_runs := jb_runs (wk_jobs ?s1) @ [stored_run ?r2]\<rparr>\<rparr>"])
      (use one two in \<open>simp add: stored_run_def numeral_2_eq_2\<close>)
qed

definition later_tick :: tick_draw where
  "later_tick = sample_tick\<lparr>td_started_at := Aware 430000000 0, td_completed_at := Aware 431000000 0, td_run_id := 12\<rparr>"

definition sample_workers :: "unit worker_state" where
  "sample_workers = \<lparr>wk_jobs = empty_jobs\<lparr>jb_policies := [hashed_job unary_session]\<rparr>, wk_other = (), wk_locks = []\<rparr>"

lemma sample_workers_facts:
  "inj (js_sha unary_session)" "ds_due (overdue_state p)" "ds_policy (overdue_state p) = p"
  "jp_job_name (hashed_job unary_session) = ''job''"
  "jp_policy_id (hashed_job unary_session) \<in> jp_policy_id ` set (jb_policies (wk_jobs sample_workers))"
  "jb_runs (wk_jobs sample_workers) = []" "wk_locks sample_workers = []"
  "clean_draw (overdue_state p) sample_tick" "clean_draw (overdue_state p) later_tick"
  by (simp_all add: unary_session_def inj_def unary_digest_inj overdue_state_def hashed_job_def sample_job_def sample_workers_def
      empty_jobs_def clean_draw_def sample_tick_def later_tick_def)

theorem stale_due_state_runs_again_witness:
  "\<exists>r1 r2 s1 s2.
     run_state (\<lambda>_. 5) 7 unary_session [(''job'', quiet_runner [])] sample_tick (Aware 421000000 0)
       (overdue_state (hashed_job unary_session)) sample_workers = (Inr [r1], s1) \<and>
     run_state (\<lambda>_. 5) 2 unary_session [(''job'', quiet_runner [])] later_tick (Aware 421000000 0)
       (overdue_state (hashed_job unary_session)) s1 = (Inr [r2], s2) \<and>
     length (jb_runs (wk_jobs s2)) = 2"
proof -
  have starts: "iso_datetime (td_started_at sample_tick) \<noteq> iso_datetime (td_started_at later_tick)"
  proof
    assume "iso_datetime (td_started_at sample_tick) = iso_datetime (td_started_at later_tick)"
    then have "rev (iso_clock 421000000) @ rev (iso_date 0 @ ''T'') = rev (iso_clock 430000000) @ rev (iso_date 0 @ ''T'')"
      by (simp add: sample_tick_def later_tick_def iso_wall_def)
    moreover have "iso_clock 421000000 = ''00:07:01''" "iso_clock 430000000 = ''00:07:10''" by code_simp+
    ultimately show False by simp
  qed
  have ids: "td_run_id sample_tick \<noteq> td_run_id later_tick" by (simp add: sample_tick_def later_tick_def)
  note f = sample_workers_facts
  obtain r1 r2 s1 s2 where r: "run_state (\<lambda>_. 5) 7 unary_session [(''job'', quiet_runner [])] sample_tick (Aware 421000000 0)
       (overdue_state (hashed_job unary_session)) sample_workers = (Inr [r1], s1)"
    "run_state (\<lambda>_. 5) 2 unary_session [(''job'', quiet_runner [])] later_tick (Aware 421000000 0)
       (overdue_state (hashed_job unary_session)) s1 = (Inr [r2], s2)"
    "map (\<lambda>r. (jr_policy_id r, instant (jr_scheduled_for r), jr_status r)) (jb_runs (wk_jobs s2)) =
      replicate 2 (jp_policy_id (hashed_job unary_session), instant (ds_due_at (overdue_state (hashed_job unary_session))), SUCCEEDED)"
    using stale_due_state_runs_again [of unary_session "overdue_state (hashed_job unary_session)" "[(''job'', quiet_runner [])]" "[]"
        sample_workers sample_tick later_tick "\<lambda>_. 5" 7 "Aware 421000000 0" 2 "Aware 421000000 0",
        unfolded f(3,4), OF f(1,2) _ f(5-9) ids starts]
    by auto
  have "length (jb_runs (wk_jobs s2)) = 2" using arg_cong [OF r(3), of length] by simp
  then show ?thesis using r(1,2) by blast
qed


end
