(* ===== verification/Spec2Isabelle.thy ===== *)
theory Spec2Isabelle
  imports RiskEngine SignalEngine BrokerMirror MarketEvidence Instruments ModelRegistry ReturnIngestion PretradeAssessment EventBacktest PostgresReplay Scheduler
begin

text \<open>
  The trading core of \<open>src/trade_platform\<close>: what happens between a signal and a paper order at a broker, and
  what the platform remembers of it. The code is Python over SQLite stores (some with a Postgres twin); the theories
  follow its files, one group of definitions per class, in the order of the code.

  \<^bold>\<open>The program.\<close> A signal is proposed and validated (\<open>signal_engine.py\<close>). An order intent for it is assessed
  (\<open>pretrade_assessment.py\<close>): the caller's market data, account, exposures and execution inputs are compared with
  what the stores knew at the decision time (\<open>quotes.py\<close>, \<open>execution_evidence.py\<close>, \<open>portfolio_evidence.py\<close>,
  \<open>return_history.py\<close>, \<open>instruments.py\<close>, \<open>model_registry.py\<close>), under registered policies
  (\<open>policy_registry.py\<close>); then the risk engine with its kill switches and ledgers (\<open>risk.py\<close>) and the portfolio
  limits (\<open>portfolio_risk.py\<close>) decide. The synchronisation service (\<open>broker_sync.py\<close>) submits an approved intent to
  the sandbox broker (\<open>broker_adapter.py\<close>), moves the order in the order management store (\<open>paper_oms.py\<close>) through
  its lifecycle (\<open>paper_execution.py\<close>), polls the broker's events into it and reconciles the account, which is the
  account evidence of the next assessment. Alerts (\<open>operational_alerts.py\<close>) and shadow comparisons
  (\<open>shadow_mode.py\<close>) watch it; a worker (\<open>scheduler.py\<close>) runs the due jobs of \<open>operational_jobs.py\<close>, among them the
  monitor that raises and routes alerts for overdue ones.

  \<^bold>\<open>How the code is represented.\<close> A dataclass is a record whose fields carry the record's initials; an enumeration is a
  datatype. An exception is a value \<open>Exc class message\<close>, a fallible function returns \<open>py_exc + 'a\<close>, a method is an
  \<open>operation\<close>: from the object's state to a result and the new state, which is returned on the exceptional branches
  too, so that what was committed before an exception is visible. A SQLite table is the list of its rows in the order
  of their rowids, with the uniqueness constraints as branches of the insertion; amounts and times are stored as texts
  that read back unchanged (\<open>DecimalText\<close>), so a row holds the values. \<open>Decimal\<close> is a coefficient with an exponent under
  28-digit rounding, half to even. Datetimes keep their offset; SQL compares their ISO texts (\<open>iso_le\<close>), Python
  their instants (\<open>instant\<close>). Identifiers from \<open>uuid4\<close> and clock readings are arguments. SHA-256, HMAC,
  \<open>uuid5\<close>, the time zone database and a return provider are parameters.

  \<^bold>\<open>Foundations.\<close>
  \<^item> \<open>Prelude\<close>: exceptions, results, operations, string methods, dictionaries with insertion order, datetimes.
  \<^item> \<open>PyDecimal\<close>, \<open>DecimalText\<close>, \<open>Binary64\<close>, \<open>Rendering\<close>: decimal arithmetic with its rounding bounds; its text form
    with the round trip; the one place where the code goes through a binary float; the texts of payloads.
  \<^item> \<open>SqlOrder\<close>: \<open>ORDER BY .. DESC LIMIT 1\<close> and the locale \<open>point_in_time\<close>: rows that become known later do not
    change what was known before. Interpreted on quotes, halts, event risks, slippage, the account tables of
    \<open>paper_oms.py\<close> and \<open>portfolio_evidence.py\<close>.

  \<^bold>\<open>Orders and brokers.\<close>
  \<^item> \<open>Domain\<close> (\<open>domain.py\<close>), \<open>PaperExecution\<close> (\<open>paper_execution.py\<close>): the contracts; the transition table, fills,
    corporate actions, margin, venue checks. Shown: an order reached by transitions and fills stays within its
    quantity, and gets past the risk gate only through approval.
  \<^item> \<open>OrderStore\<close>: the locale \<open>order_store\<close>, what every holder of orders promises; interpreted on the fixture broker, the
    sandbox (\<open>PaperBroker\<close>) and both order management stores (\<open>PaperOms\<close>, \<open>PostgresReplay\<close>). Shown: the sandbox account is the replay of
    its event log; closed orders are final; every stored order is filled by exactly its recorded fills; account
    evidence is read as it was known.
  \<^item> \<open>BrokerSync\<close>, \<open>BrokerMirror\<close> (\<open>broker_sync.py\<close>): the service, and over its reachable states the refinement of the
    broker by the order management store, that every order at the broker has an intact approving assessment, and that
    an approved intent gets there. The event whose ingestion fails is lost; this is a theorem too.
  \<^item> \<open>PostgresOms\<close>, \<open>PostgresReplay\<close> (\<open>postgres_paper_oms.py\<close> and the branch of \<open>sync_events\<close> that uses it): orders as
    an immutable row and the events replayed from it, one transaction per method, which the database may fail before
    or after its commit. Shown: orders always replay and only advance (\<open>order_store\<close> interpreted on the databases
    whose foreign keys hold), a broker event is all or nothing, takes effect once and is not skipped when it fails;
    and that transactions racing on one order can make it unreadable, as nothing locks it.

  \<^bold>\<open>Risk.\<close>
  \<^item> \<open>KillSwitch\<close>: three registries, the two durable ones refining the in-memory one (locale \<open>durable_registry\<close>).
  \<^item> \<open>PerTradeRisk\<close>, \<open>RiskLedgers\<close>, \<open>PostgresRiskStore\<close>, \<open>RiskEngine\<close> (\<open>risk.py\<close>): the per-trade controls and the loss
    they bound; claims and the daily budget (locales \<open>idempotency_ledger\<close>, \<open>daily_ledger\<close>, \<open>daily_ledger_pair\<close>, again
    interpreted on the engine's own stores); the transaction of the Postgres store; exactly when the engine approves,
    that no run approves twice, and that it fails closed.
  \<^item> \<open>PortfolioRisk\<close>: exactly when a portfolio is approved; value at risk and drawdown.
  \<^item> \<open>OperationalAlerts\<close>: the two alert stores (locale \<open>alert_store\<close>), failure drills, shadow comparisons.

  \<^bold>\<open>Evidence and assessment.\<close>
  \<^item> \<open>SignalEngine\<close>, \<open>PolicyRegistry\<close>, \<open>ModelRegistry\<close>, \<open>Instruments\<close>, \<open>MarketEvidence\<close>, \<open>ReturnHistory\<close>,
    \<open>ReturnIngestion\<close>, \<open>PortfolioEvidence\<close>: the stores an assessment reads. Shown: lifecycles are chains of legal steps,
    versions are immutable, approvals need validations, symbols resolve unambiguously, nothing read at a decision time
    depends on what became known later, and ingestion ends.
  \<^item> \<open>PretradeEvidence\<close>: the input evidence, the assessment with its digest and the store that keeps one per intent.
  \<^item> \<open>PretradeAssessment\<close> (\<open>pretrade_context.py\<close>, \<open>assess_pretrade\<close>): the gates as values that pass, reject or raise, and
    the whole assessment. Shown: a new approval rests on stored evidence alone and on every limit, and an intent is
    decided once.

  \<^bold>\<open>Operations.\<close>
  \<^item> \<open>OperationalJobs\<close>, \<open>JobMonitor\<close> (\<open>operational_jobs.py\<close>): job policies, run evidence and alert routes as tables whose
    times are read back in the zone of the session, over which the content hashes are recomputed; the due state, the
    monitor and the outbox. Shown: the due state against a reference, that an evaluation alerts exactly the overdue
    jobs and routes each alert once, and that a policy approved at another offset blocks every later read.
  \<^item> \<open>Scheduler\<close> (\<open>scheduler.py\<close>, the loop of \<open>worker_app.py\<close>): advisory locks (locale \<open>session_locks\<close>), a tick and its
    evidence. The runners are parameters, with those of the monitor and of the dependency probe as instances. Shown:
    an occurrence is not run twice at a time, though it may be run twice one after the other; what a tick leaves.

  \<^bold>\<open>Simulation.\<close>
  \<^item> \<open>CorporateActions\<close> (\<open>corporate_actions.py\<close>): actions, their application to holdings, and the store of their
    revisions with its open transaction. Shown: a decision reads one known revision per action, and later batches do
    not change it.
  \<^item> \<open>EventBacktest\<close> (\<open>event_backtest.py\<close>): the event-driven simulation that validates research results. Shown: every fill
    is explained by a submitted order and a processed event, the books agree, and corporate actions happen once.

  \<^bold>\<open>Bounds.\<close> No definition uses fuel. Retries recurse over the number of remaining attempts and pages over the
  source's bound of a thousand; that a fetch therefore ends, and how, is \<open>ingestion_fetch_terminates\<close>. The exponent range
  of decimals is unbounded (the source stays far from its limits), the sign of zero is not kept, and underflow
  of the one binary product is not modelled because the code takes its maximum with one.

  \<^bold>\<open>Not modelled.\<close> SQLite connections, file handling and locking (each method is one step, as each store owns its
  connection; where two transactions race on Postgres, reads and writes are separate, and ticks of different workers
  interleave with the execution of one); the Postgres twins of the
  signal and evidence stores; the job runners over retention and data-health evidence; the HTTPS return provider and every other network provider; the HTTP interface,
  dashboards and process wiring; identity and secrets; research, features, strategies and their validation; market
  data recording and archives; the batch production of paper evidence over Postgres; fundamentals and macro data. None of them takes part in the decision on
  an order except through the stores modelled here.
\<close>

end
